(* ===== verification/Prelude.thy ===== *)
theory Prelude
  imports Main "HOL-Library.Char_ord" "HOL-Library.List_Lexorder"
begin

text \<open>
  What the component theories share: the byte and string types, the type of computations over
  a state that may fail, panic or not return, the triples and preservation predicate that reason
  about them, and Rust's ordered map as a sorted association list.

  \<^item> A Rust \<^verbatim>\<open>u8\<close> is a HOL \<^typ>\<open>char\<close> (eight bits) and a \<^verbatim>\<open>Vec<u8>\<close>, \<^verbatim>\<open>Bytes\<close> or \<^verbatim>\<open>String\<close> is
    a \<^typ>\<open>char list\<close>: a Rust string is its UTF-8 bytes, and Rust compares strings bytewise, which is
    the lexicographic order of \<^verbatim>\<open>HOL-Library.List_Lexorder\<close> over \<^verbatim>\<open>Char_ord\<close>.
  \<^item> A method with a \<^verbatim>\<open>Mutex\<close>-guarded state that returns \<^verbatim>\<open>Result<T, E>\<close> is a function from the state to
    an \<open>outcome\<close> and the new state. The state is returned on the error branches too: an early
    return leaves behind whatever was mutated before it.
\<close>

section \<open>Bytes and the order on strings\<close>

type_synonym byte = char
type_synonym bytes = "char list"

section \<open>Computations\<close>

text \<open>
  \<open>Ok\<close> and \<open>Err\<close> are Rust's \<^verbatim>\<open>Result\<close>; \<open>Panic\<close> is a panic of the thread; \<open>Diverge\<close> is a loop or a
  recursion that does not return.
\<close>

datatype ('e, 'a) outcome = Ok 'a | Err 'e | Panic | Diverge

type_synonym ('s, 'e, 'a) comp = "'s \<Rightarrow> ('e, 'a) outcome \<times> 's"

definition ret :: "'a \<Rightarrow> ('s, 'e, 'a) comp" where
  "ret a = (\<lambda>s. (Ok a, s))"

definition throw :: "'e \<Rightarrow> ('s, 'e, 'a) comp" where
  "throw e = (\<lambda>s. (Err e, s))"

definition panic :: "('s, 'e, 'a) comp" where
  "panic = (\<lambda>s. (Panic, s))"

definition diverge :: "('s, 'e, 'a) comp" where
  "diverge = (\<lambda>s. (Diverge, s))"

text \<open>Sequencing, as \<^verbatim>\<open>?\<close> does: anything but \<open>Ok\<close> ends the computation, in the state reached.\<close>

definition seq :: "('s, 'e, 'a) comp \<Rightarrow> ('a \<Rightarrow> ('s, 'e, 'b) comp) \<Rightarrow> ('s, 'e, 'b) comp" where
  "seq m f = (\<lambda>s. case m s of
      (Ok a, s') \<Rightarrow> f a s'
    | (Err e, s') \<Rightarrow> (Err e, s')
    | (Panic, s') \<Rightarrow> (Panic, s')
    | (Diverge, s') \<Rightarrow> (Diverge, s'))"

definition reads :: "('s \<Rightarrow> 'a) \<Rightarrow> ('s, 'e, 'a) comp" where
  "reads f = (\<lambda>s. (Ok (f s), s))"

definition modifies :: "('s \<Rightarrow> 's) \<Rightarrow> ('s, 'e, unit) comp" where
  "modifies f = (\<lambda>s. (Ok (), f s))"

text \<open>\<^verbatim>\<open>opt.ok_or(e)?\<close>, for an option computed from the state.\<close>

definition fetch_or :: "('s \<Rightarrow> 'a option) \<Rightarrow> 'e \<Rightarrow> ('s, 'e, 'a) comp" where
  "fetch_or f e = (\<lambda>s. case f s of None \<Rightarrow> (Err e, s) | Some a \<Rightarrow> (Ok a, s))"

text \<open>A \<^verbatim>\<open>Result\<close> that does not depend on the state.\<close>

definition of_sum :: "'e + 'a \<Rightarrow> ('s, 'e, 'a) comp" where
  "of_sum r = (\<lambda>s. case r of Inl e \<Rightarrow> (Err e, s) | Inr a \<Rightarrow> (Ok a, s))"

named_theorems comp_simps "unfolding equations of the computation combinators"

lemmas comp_defs = ret_def throw_def panic_def diverge_def reads_def modifies_def
  fetch_or_def of_sum_def

lemma seq_apply [comp_simps]:
  "seq m f s = (case m s of
      (Ok a, s') \<Rightarrow> f a s' | (Err e, s') \<Rightarrow> (Err e, s')
    | (Panic, s') \<Rightarrow> (Panic, s') | (Diverge, s') \<Rightarrow> (Diverge, s'))"
  by (simp add: seq_def)

declare comp_defs [comp_simps]

lemma seq_ret [simp]: "seq (ret a) f = f a"
  by (simp add: seq_def ret_def)

lemma seq_throw [simp]: "seq (throw e) f = throw e"
  by (simp add: seq_def throw_def)

lemma seq_panic [simp]: "seq panic f = panic"
  by (simp add: seq_def panic_def)

lemma seq_assoc: "seq (seq m f) g = seq m (\<lambda>a. seq (f a) g)"
  by (rule ext) (auto simp: seq_def split: prod.splits outcome.splits)

lemma seq_Ok_iff:
  "seq m f s = (Ok b, s') \<longleftrightarrow> (\<exists>a t. m s = (Ok a, t) \<and> f a t = (Ok b, s'))"
  by (auto simp: seq_def split: prod.splits outcome.splits)

lemma seq_Ok_E:
  assumes "seq m f s = (Ok b, s')"
  obtains a t where "m s = (Ok a, t)" and "f a t = (Ok b, s')"
  using assms by (auto simp: seq_Ok_iff)

subsection \<open>Triples and preservation\<close>

text \<open>
  \<open>hoare P m Q E\<close>: from a state that satisfies \<open>P\<close>, a normal return of \<open>m\<close> satisfies \<open>Q\<close> and every other
  outcome (an error, a panic, no return) leaves a state that satisfies \<open>E\<close>. \<open>keeps I m\<close>: every outcome of
  \<open>m\<close> leaves \<open>I\<close>.
\<close>

definition hoare ::
  "('s \<Rightarrow> bool) \<Rightarrow> ('s, 'e, 'a) comp \<Rightarrow> ('a \<Rightarrow> 's \<Rightarrow> bool) \<Rightarrow> ('s \<Rightarrow> bool) \<Rightarrow> bool" where
  "hoare P m Q E \<longleftrightarrow> (\<forall>s. P s \<longrightarrow> (case m s of (Ok a, s') \<Rightarrow> Q a s' | (_, s') \<Rightarrow> E s'))"

definition keeps :: "('s \<Rightarrow> bool) \<Rightarrow> ('s, 'e, 'a) comp \<Rightarrow> bool" where
  "keeps I m \<longleftrightarrow> (\<forall>s. I s \<longrightarrow> I (snd (m s)))"

named_theorems keeps_intros "preservation rules of the combinators and the operations"

lemma keepsD: "keeps I m \<Longrightarrow> I s \<Longrightarrow> m s = (r, s') \<Longrightarrow> I s'"
  by (force simp: keeps_def)

lemma keepsI: "(\<And>s r s'. I s \<Longrightarrow> m s = (r, s') \<Longrightarrow> I s') \<Longrightarrow> keeps I m"
  by (metis keeps_def surjective_pairing)

lemma keeps_ret [keeps_intros, simp]: "keeps I (ret a)"
  by (simp add: keeps_def ret_def)

lemma keeps_throw [keeps_intros, simp]: "keeps I (throw e)"
  by (simp add: keeps_def throw_def)

lemma keeps_panic [keeps_intros, simp]: "keeps I panic"
  by (simp add: keeps_def panic_def)

lemma keeps_diverge [keeps_intros, simp]: "keeps I diverge"
  by (simp add: keeps_def diverge_def)

lemma keeps_reads [keeps_intros, simp]: "keeps I (reads f)"
  by (simp add: keeps_def reads_def)

lemma keeps_fetch_or [keeps_intros, simp]: "keeps I (fetch_or f e)"
  by (simp add: keeps_def fetch_or_def split: option.splits)

lemma keeps_of_sum [keeps_intros, simp]: "keeps I (of_sum r)"
  by (simp add: keeps_def of_sum_def split: sum.splits)

lemma keeps_modifies: "(\<And>s. I s \<Longrightarrow> I (f s)) \<Longrightarrow> keeps I (modifies f)"
  by (simp add: keeps_def modifies_def)

lemma keeps_seq [keeps_intros]: "keeps I m \<Longrightarrow> (\<And>a. keeps I (f a)) \<Longrightarrow> keeps I (seq m f)"
  by (fastforce simp: keeps_def seq_def split: prod.splits outcome.splits)

lemma keeps_if [keeps_intros]: "(b \<Longrightarrow> keeps I m) \<Longrightarrow> (\<not> b \<Longrightarrow> keeps I n) \<Longrightarrow> keeps I (if b then m else n)"
  by simp

lemma keeps_case_option [keeps_intros]:
  "(x = None \<Longrightarrow> keeps I m) \<Longrightarrow> (\<And>a. x = Some a \<Longrightarrow> keeps I (f a)) \<Longrightarrow> keeps I (case x of None \<Rightarrow> m | Some a \<Rightarrow> f a)"
  by (cases x) auto

lemma keeps_case_sum [keeps_intros]:
  "(\<And>e. x = Inl e \<Longrightarrow> keeps I (f e)) \<Longrightarrow> (\<And>a. x = Inr a \<Longrightarrow> keeps I (g a)) \<Longrightarrow>
   keeps I (case x of Inl e \<Rightarrow> f e | Inr a \<Rightarrow> g a)"
  by (cases x) auto

named_theorems hoare_rules "triples of the combinators and the operations"

lemma hoareI:
  "(\<And>s a s'. P s \<Longrightarrow> m s = (Ok a, s') \<Longrightarrow> Q a s') \<Longrightarrow>
   (\<And>s r s'. P s \<Longrightarrow> m s = (r, s') \<Longrightarrow> (\<forall>a. r \<noteq> Ok a) \<Longrightarrow> E s') \<Longrightarrow> hoare P m Q E"
  by (fastforce simp: hoare_def split: prod.splits outcome.splits)

lemma hoare_Ok: "hoare P m Q E \<Longrightarrow> P s \<Longrightarrow> m s = (Ok a, s') \<Longrightarrow> Q a s'"
  by (force simp: hoare_def)

lemma hoare_keeps: "hoare I m (\<lambda>_. I) I \<longleftrightarrow> keeps I m"
proof -
  have "(case m s of (Ok a, s') \<Rightarrow> I s' | (_, s') \<Rightarrow> I s') = I (snd (m s))" for s
    by (cases "m s") (auto split: outcome.splits)
  then show ?thesis by (simp add: hoare_def keeps_def)
qed

lemma hoare_any: "hoare P m (\<lambda>_. I) I \<Longrightarrow> P s \<Longrightarrow> m s = (r, s') \<Longrightarrow> I s'"
  by (cases r) (force simp: hoare_def)+

lemma hoare_weaken:
  "hoare P m Q E \<Longrightarrow> (\<And>s. P' s \<Longrightarrow> P s) \<Longrightarrow> (\<And>a s. Q a s \<Longrightarrow> Q' a s) \<Longrightarrow> (\<And>s. E s \<Longrightarrow> E' s) \<Longrightarrow> hoare P' m Q' E'"
  by (fastforce simp: hoare_def split: prod.splits outcome.splits)

lemma hoare_pre: "hoare P m Q E \<Longrightarrow> (\<And>s. P' s \<Longrightarrow> P s) \<Longrightarrow> hoare P' m Q E"
  by (rule hoare_weaken)

lemma hoare_seq: "hoare P m Q E \<Longrightarrow> (\<And>a. hoare (Q a) (f a) R E) \<Longrightarrow> hoare P (seq m f) R E"
  by (fastforce simp: hoare_def seq_def split: prod.splits outcome.splits)

lemma hoare_ret: "(\<And>s. P s \<Longrightarrow> Q a s) \<Longrightarrow> hoare P (ret a) Q E"
  by (simp add: hoare_def ret_def)

lemma hoare_throw: "(\<And>s. P s \<Longrightarrow> E s) \<Longrightarrow> hoare P (throw e) Q E"
  by (simp add: hoare_def throw_def)

lemma hoare_panic: "(\<And>s. P s \<Longrightarrow> E s) \<Longrightarrow> hoare P panic Q E"
  by (simp add: hoare_def panic_def)

lemma hoare_diverge: "(\<And>s. P s \<Longrightarrow> E s) \<Longrightarrow> hoare P diverge Q E"
  by (simp add: hoare_def diverge_def)

lemma hoare_reads: "(\<And>s. P s \<Longrightarrow> Q (f s) s) \<Longrightarrow> hoare P (reads f) Q E"
  by (simp add: hoare_def reads_def)

lemma hoare_modifies: "(\<And>s. P s \<Longrightarrow> Q () (f s)) \<Longrightarrow> hoare P (modifies f) Q E"
  by (simp add: hoare_def modifies_def)

lemma hoare_fetch_or:
  "(\<And>s a. P s \<Longrightarrow> f s = Some a \<Longrightarrow> Q a s) \<Longrightarrow> (\<And>s. P s \<Longrightarrow> E s) \<Longrightarrow> hoare P (fetch_or f e) Q E"
  by (auto simp: hoare_def fetch_or_def split: option.splits)

lemma hoare_if: "(b \<Longrightarrow> hoare P m Q E) \<Longrightarrow> (\<not> b \<Longrightarrow> hoare P n Q E) \<Longrightarrow> hoare P (if b then m else n) Q E"
  by simp

lemma hoare_dep: "(\<And>x. hoare (\<lambda>s. P s \<and> g s = x) (f x) Q E) \<Longrightarrow> hoare P (\<lambda>s. f (g s) s) Q E"
  by (simp add: hoare_def)

lemma hoare_case_option:
  "(x = None \<Longrightarrow> hoare P m Q E) \<Longrightarrow> (\<And>a. x = Some a \<Longrightarrow> hoare P (f a) Q E) \<Longrightarrow>
   hoare P (case x of None \<Rightarrow> m | Some a \<Rightarrow> f a) Q E"
  by (cases x) auto

lemma hoare_case_sum:
  "(\<And>e. x = Inl e \<Longrightarrow> hoare P (f e) Q E) \<Longrightarrow> (\<And>a. x = Inr a \<Longrightarrow> hoare P (g a) Q E) \<Longrightarrow>
   hoare P (case x of Inl e \<Rightarrow> f e | Inr a \<Rightarrow> g a) Q E"
  by (cases x) auto

text \<open>\<open>returns P m\<close>: from a state that satisfies \<open>P\<close>, \<open>m\<close> returns a value or an error; it does not panic and it ends.\<close>

definition returns :: "('s \<Rightarrow> bool) \<Rightarrow> ('s, 'e, 'a) comp \<Rightarrow> bool" where
  "returns P m \<longleftrightarrow> (\<forall>s. P s \<longrightarrow> fst (m s) \<noteq> Panic \<and> fst (m s) \<noteq> Diverge)"

named_theorems returns_intros "computations that return"

lemma returnsD: "returns P m \<Longrightarrow> P s \<Longrightarrow> m s = (r, s') \<Longrightarrow> r \<noteq> Panic \<and> r \<noteq> Diverge"
  by (force simp: returns_def)

lemma returnsI: "(\<And>s r s'. P s \<Longrightarrow> m s = (r, s') \<Longrightarrow> r \<noteq> Panic \<and> r \<noteq> Diverge) \<Longrightarrow> returns P m"
  by (metis returns_def surjective_pairing)

lemma returns_pre: "returns P m \<Longrightarrow> (\<And>s. P' s \<Longrightarrow> P s) \<Longrightarrow> returns P' m"
  by (simp add: returns_def)

lemma returns_simple [returns_intros]:
  "returns P (ret a)" "returns P (throw e)" "returns P (reads f)" "returns P (modifies g)" "returns P (fetch_or h e)"
  by (auto simp: returns_def ret_def throw_def reads_def modifies_def fetch_or_def split: option.splits)

lemma returns_seq:
  assumes "returns P m" and h: "hoare P m Q E" and f: "\<And>a. returns (Q a) (f a)"
  shows "returns P (seq m f)"
proof (rule returnsI)
  fix s r s' assume s: "P s" and run: "seq m f s = (r, s')"
  obtain x t where x: "m s = (x, t)" by fastforce
  show "r \<noteq> Panic \<and> r \<noteq> Diverge"
  proof (cases x)
    case (Ok a)
    then show ?thesis using run x f returnsD hoare_Ok [OF h s] by (fastforce simp: seq_apply)
  qed (use run x returnsD [OF assms(1) s x] in \<open>auto simp: seq_apply\<close>)
qed

lemma returns_seq_any [returns_intros]:
  assumes "returns P m" and "\<And>a. returns (\<lambda>_. True) (f a)" shows "returns P (seq m f)"
  by (rule returns_seq [OF assms(1), where Q = "\<lambda>_ _. True" and E = "\<lambda>_. True"])
    (simp_all add: hoare_def assms(2) split: prod.split outcome.split)

lemma returns_if [returns_intros]: "(b \<Longrightarrow> returns P m) \<Longrightarrow> (\<not> b \<Longrightarrow> returns P n) \<Longrightarrow> returns P (if b then m else n)"
  by simp

lemma returns_case_option [returns_intros]:
  "(x = None \<Longrightarrow> returns P m) \<Longrightarrow> (\<And>a. x = Some a \<Longrightarrow> returns P (f a)) \<Longrightarrow> returns P (case x of None \<Rightarrow> m | Some a \<Rightarrow> f a)"
  by (cases x) auto

lemma returns_case_sum [returns_intros]:
  "(\<And>e. x = Inl e \<Longrightarrow> returns P (f e)) \<Longrightarrow> (\<And>a. x = Inr a \<Longrightarrow> returns P (g a)) \<Longrightarrow>
   returns P (case x of Inl e \<Rightarrow> f e | Inr a \<Rightarrow> g a)"
  by (cases x) auto

section \<open>Ordered maps\<close>

text \<open>
  Rust's \<^verbatim>\<open>BTreeMap\<close> iterates in key order. It is modelled as the association list of that iteration:
  keys strictly increasing, lookup by \<^const>\<open>map_of\<close>.
\<close>

type_synonym ('k, 'v) btree = "('k \<times> 'v) list"

fun bt_insert :: "'k::linorder \<Rightarrow> 'v \<Rightarrow> ('k, 'v) btree \<Rightarrow> ('k, 'v) btree" where
  "bt_insert k v [] = [(k, v)]"
| "bt_insert k v ((k', v') # xs) =
     (if k < k' then (k, v) # (k', v') # xs
      else if k = k' then (k, v) # xs
      else (k', v') # bt_insert k v xs)"

definition bt_remove :: "'k \<Rightarrow> ('k, 'v) btree \<Rightarrow> ('k, 'v) btree" where
  "bt_remove k xs = filter (\<lambda>(k', _). k' \<noteq> k) xs"

definition bt_wf :: "('k::linorder, 'v) btree \<Rightarrow> bool" where
  "bt_wf xs \<longleftrightarrow> sorted_wrt (<) (map fst xs)"

lemma bt_wf_Nil [simp]: "bt_wf []"
  by (simp add: bt_wf_def)

lemma bt_wf_Cons [simp]: "bt_wf ((k, v) # xs) \<longleftrightarrow> (\<forall>k' \<in> fst ` set xs. k < k') \<and> bt_wf xs"
  by (simp add: bt_wf_def)

lemma bt_wf_distinct: "bt_wf xs \<Longrightarrow> distinct (map fst xs)"
  by (simp add: bt_wf_def strict_sorted_iff)

lemma fst_set_bt_insert [simp]: "fst ` set (bt_insert k v xs) = insert k (fst ` set xs)"
  by (induction k v xs rule: bt_insert.induct) (simp_all add: insert_commute)

lemma bt_wf_insert [simp, intro]: "bt_wf xs \<Longrightarrow> bt_wf (bt_insert k v xs)"
proof (induction k v xs rule: bt_insert.induct)
  case (2 k v k' v' xs)
  have "\<forall>j \<in> fst ` set (bt_insert k v xs). k' < j" if "\<not> k < k'" "k \<noteq> k'"
    unfolding fst_set_bt_insert using "2.prems" that by auto
  moreover have "\<forall>j \<in> fst ` set xs. k < j" if "k < k'"
    using "2.prems" that by (auto intro: order_less_trans)
  ultimately show ?case using 2 by (auto simp del: ball_simps)
qed simp

lemma map_of_bt_insert [simp]: "bt_wf xs \<Longrightarrow> map_of (bt_insert k v xs) = (map_of xs)(k \<mapsto> v)"
proof (induction xs)
  case Nil
  then show ?case by simp
next
  case (Cons x xs)
  obtain k' v' where x: "x = (k', v')" by (cases x)
  have notin: "map_of xs k = None" if "k < k'"
    using Cons.prems that by (force simp: x map_of_eq_None_iff)
  show ?case using Cons notin by (auto simp: x fun_eq_iff)
qed

lemma map_of_bt_remove [simp]: "map_of (bt_remove k xs) = (map_of xs)(k := None)"
  by (induction xs) (auto simp: bt_remove_def fun_eq_iff)

lemma bt_wf_remove [simp, intro]: "bt_wf xs \<Longrightarrow> bt_wf (bt_remove k xs)"
  by (simp add: bt_wf_def bt_remove_def sorted_wrt_map sorted_wrt_filter)

lemma set_bt_remove: "set (bt_remove k xs) = {p \<in> set xs. fst p \<noteq> k}"
  by (auto simp: bt_remove_def)

lemma fst_set_bt_remove [simp]: "fst ` set (bt_remove k xs) = fst ` set xs - {k}"
  by (force simp: set_bt_remove)

lemma bt_wf_map_of_iff: "bt_wf xs \<Longrightarrow> map_of xs k = Some v \<longleftrightarrow> (k, v) \<in> set xs"
  by (simp add: bt_wf_distinct)

lemma set_bt_insert: "bt_wf xs \<Longrightarrow> set (bt_insert k v xs) = insert (k, v) {p \<in> set xs. fst p \<noteq> k}"
proof -
  assume wf: "bt_wf xs"
  then have wf': "bt_wf (bt_insert k v xs)" by simp
  have "(a, b) \<in> set (bt_insert k v xs) \<longleftrightarrow> (a, b) \<in> insert (k, v) {p \<in> set xs. fst p \<noteq> k}" for a b
    unfolding bt_wf_map_of_iff [OF wf', symmetric] insert_iff mem_Collect_eq bt_wf_map_of_iff [OF wf, symmetric]
      map_of_bt_insert [OF wf] by auto
  then have "p \<in> set (bt_insert k v xs) \<longleftrightarrow> p \<in> insert (k, v) {p \<in> set xs. fst p \<noteq> k}" for p
    by (cases p) blast
  then show ?thesis by (rule set_eqI)
qed

lemma list_eq_by_fst:
  "map fst xs = map fst ys \<Longrightarrow> distinct (map fst xs) \<Longrightarrow> set xs = set ys \<Longrightarrow> xs = ys"
proof (rule nth_equalityI)
  assume keys: "map fst xs = map fst ys"
  then show len: "length xs = length ys" by (metis length_map)
  fix i assume dist: "distinct (map fst xs)" and sets: "set xs = set ys" and i: "i < length xs"
  have "xs ! i \<in> set ys" using nth_mem [OF i] by (simp only: sets)
  then obtain j where j: "j < length ys" "ys ! j = xs ! i" by (auto simp: in_set_conv_nth)
  have "map fst xs ! j = map fst xs ! i"
    using keys i j len by (metis nth_map)
  then have "j = i" using nth_eq_iff_index_eq [OF dist, of j i] i j len by simp
  then show "xs ! i = ys ! i" using j by simp
qed

text \<open>Two ordered maps with the same lookups are the same list: iteration order is canonical.\<close>

lemma bt_wf_ext:
  assumes "bt_wf xs" and "bt_wf ys" and "map_of xs = map_of ys"
  shows "xs = ys"
proof -
  have set_eq: "set xs = set ys"
    using assms by (auto simp flip: bt_wf_map_of_iff)
  have "map fst xs = map fst ys"
    using assms(1,2) set_eq by (auto simp: bt_wf_def intro: strict_sorted_equal)
  then show ?thesis
    using assms(1) set_eq bt_wf_distinct [OF assms(1)] assms(3)
    by (metis list_eq_by_fst)
qed

section \<open>redb\<close>

text \<open>
  The calls of the embedded database redb the daemon makes. Each of them may fail; the stores carry a
  predicate that says which ones do.
\<close>

datatype redb_call = BeginRead | BeginWrite | OpenTable | GetRow | InsertRow | RemoveRow | CommitTxn | IterRows

end
