(* ===== verification/Rust_Std.thy ===== *)
theory Rust_Std
  imports Prelude
begin

text \<open>
  The functions of Rust's standard library on byte strings that the sources call: UTF-8 checking and
  lossy decoding, splitting, trimming, and the \<^verbatim>\<open>{:02x}\<close> formatting of a byte. A \<^verbatim>\<open>str\<close> is its UTF-8 bytes.
\<close>

section \<open>UTF-8\<close>

definition byte_val :: "byte \<Rightarrow> nat" where
  "byte_val c = of_char c"

definition byte_in :: "nat \<Rightarrow> nat \<Rightarrow> byte \<Rightarrow> bool" where
  "byte_in lo hi c \<longleftrightarrow> lo \<le> byte_val c \<and> byte_val c \<le> hi"

abbreviation "is_cont \<equiv> byte_in 0x80 0xBF"

text \<open>
  One step of \<^verbatim>\<open>Utf8Chunks\<close>: whether the input starts with a well-formed character, and how many bytes
  that character (or the maximal ill-formed prefix that becomes one replacement character) has.
\<close>

definition utf8_second_ok :: "byte \<Rightarrow> byte \<Rightarrow> bool" where
  "utf8_second_ok a b \<longleftrightarrow>
     (if byte_val a = 0xE0 then byte_in 0xA0 0xBF b
      else if byte_val a = 0xED then byte_in 0x80 0x9F b
      else if byte_val a = 0xF0 then byte_in 0x90 0xBF b
      else if byte_val a = 0xF4 then byte_in 0x80 0x8F b
      else is_cont b)"

fun utf8_step :: "byte \<Rightarrow> bytes \<Rightarrow> bool \<times> nat" where
  "utf8_step a bs =
     (if byte_val a < 0x80 then (True, 1)
      else if byte_in 0xC2 0xDF a then
        (case bs of b # _ \<Rightarrow> if is_cont b then (True, 2) else (False, 1) | [] \<Rightarrow> (False, 1))
      else if byte_in 0xE0 0xEF a then
        (case bs of
           b # cs \<Rightarrow> if \<not> utf8_second_ok a b then (False, 1)
             else (case cs of c # _ \<Rightarrow> if is_cont c then (True, 3) else (False, 2) | [] \<Rightarrow> (False, 2))
         | [] \<Rightarrow> (False, 1))
      else if byte_in 0xF0 0xF4 a then
        (case bs of
           b # cs \<Rightarrow> if \<not> utf8_second_ok a b then (False, 1)
             else (case cs of
                 c # ds \<Rightarrow> if \<not> is_cont c then (False, 2)
                   else (case ds of d # _ \<Rightarrow> if is_cont d then (True, 4) else (False, 3) | [] \<Rightarrow> (False, 3))
               | [] \<Rightarrow> (False, 2))
         | [] \<Rightarrow> (False, 1))
      else (False, 1))"

declare utf8_step.simps [simp del]

function utf8_valid :: "bytes \<Rightarrow> bool" where
  "utf8_valid [] = True"
| "utf8_valid (a # bs) = (case utf8_step a bs of (ok, n) \<Rightarrow> ok \<and> utf8_valid (drop (n - 1) bs))"
  by pat_completeness auto
termination by (relation "measure length") auto

definition REPLACEMENT_CHARACTER :: bytes where
  "REPLACEMENT_CHARACTER = [CHR 0xEF, CHR 0xBF, CHR 0xBD]"

function from_utf8_lossy :: "bytes \<Rightarrow> bytes" where
  "from_utf8_lossy [] = []"
| "from_utf8_lossy (a # bs) =
     (case utf8_step a bs of (ok, n) \<Rightarrow>
        (if ok then a # take (n - 1) bs else REPLACEMENT_CHARACTER) @ from_utf8_lossy (drop (n - 1) bs))"
  by pat_completeness auto
termination by (relation "measure length") auto

lemma from_utf8_lossy_valid: "utf8_valid bs \<Longrightarrow> from_utf8_lossy bs = bs"
  by (induction bs rule: from_utf8_lossy.induct) (auto split: prod.splits)

section \<open>Splitting and trimming\<close>

fun strip_prefix :: "string \<Rightarrow> string \<Rightarrow> string option" where
  "strip_prefix [] s = Some s"
| "strip_prefix (p # ps) [] = None"
| "strip_prefix (p # ps) (c # cs) = (if p = c then strip_prefix ps cs else None)"

definition starts_with :: "string \<Rightarrow> string \<Rightarrow> bool" where
  "starts_with p s \<longleftrightarrow> strip_prefix p s \<noteq> None"

definition strip_suffix :: "string \<Rightarrow> string \<Rightarrow> string option" where
  "strip_suffix p s = map_option rev (strip_prefix (rev p) (rev s))"

lemma strip_prefix_Some_iff: "strip_prefix p s = Some r \<longleftrightarrow> s = p @ r"
  by (induction p s rule: strip_prefix.induct) auto

lemma starts_with_iff: "starts_with p s \<longleftrightarrow> (\<exists>r. s = p @ r)"
  using strip_prefix_Some_iff by (auto simp: starts_with_def)

lemma strip_suffix_Some_iff: "strip_suffix p s = Some r \<longleftrightarrow> s = r @ p"
  by (auto simp: strip_suffix_def strip_prefix_Some_iff) (metis rev_append rev_rev_ident)

text \<open>\<^verbatim>\<open>split_once\<close> at the first occurrence of a non-empty separator.\<close>

fun split_once :: "string \<Rightarrow> string \<Rightarrow> (string \<times> string) option" where
  "split_once sep s =
     (case strip_prefix sep s of
        Some r \<Rightarrow> Some ([], r)
      | None \<Rightarrow> (case s of [] \<Rightarrow> None
                  | c # cs \<Rightarrow> map_option (\<lambda>(a, b). (c # a, b)) (split_once sep cs)))"

declare split_once.simps [simp del]

lemma split_once_Some: "split_once sep s = Some (a, b) \<Longrightarrow> s = a @ sep @ b"
proof (induction sep s arbitrary: a rule: split_once.induct)
  case (1 sep s)
  show ?case
  proof (cases "strip_prefix sep s")
    case None
    then show ?thesis
      using 1 by (subst (asm) (2) split_once.simps) (auto split: list.splits)
  next
    case (Some r)
    then have "s = sep @ r" by (simp add: strip_prefix_Some_iff)
    moreover have "a = []" "b = r" using "1.prems" Some by (simp_all add: split_once.simps [of sep s])
    ultimately show ?thesis by simp
  qed
qed

text \<open>\<^verbatim>\<open>split(c)\<close>: the pieces between the separators, one more than there are separators.\<close>

fun split_char :: "char \<Rightarrow> string \<Rightarrow> string list" where
  "split_char c [] = [[]]"
| "split_char c (x # xs) =
     (if x = c then [] # split_char c xs
      else (case split_char c xs of [] \<Rightarrow> [[x]] | s # ss \<Rightarrow> (x # s) # ss))"

lemma split_char_nonempty [simp]: "split_char c s \<noteq> []"
  by (induction s) (auto split: list.splits)

lemma split_char_no_sep: "p \<in> set (split_char c s) \<Longrightarrow> c \<notin> set p"
  by (induction s arbitrary: p) (auto split: if_splits list.splits)

lemma split_char_id: "c \<notin> set s \<Longrightarrow> split_char c s = [s]"
  by (induction s) auto

text \<open>\<^verbatim>\<open>lines\<close>: split at newlines, drop a final empty piece, and a carriage return before a newline.\<close>

fun lines_of :: "string list \<Rightarrow> string list" where
  "lines_of [] = []"
| "lines_of [l] = (if l = [] then [] else [l])"
| "lines_of (l # ls) = (case strip_suffix [CHR 0x0D] l of Some l' \<Rightarrow> l' | None \<Rightarrow> l) # lines_of ls"

definition str_lines :: "string \<Rightarrow> string list" where
  "str_lines s = lines_of (split_char (CHR 0x0A) s)"

text \<open>The UTF-8 encodings of the characters with the \<^verbatim>\<open>White_Space\<close> property.\<close>

definition white_space :: "string list" where
  "white_space =
     [[CHR 0x09], [CHR 0x0A], [CHR 0x0B], [CHR 0x0C], [CHR 0x0D], [CHR 0x20],
      [CHR 0xC2, CHR 0x85], [CHR 0xC2, CHR 0xA0], [CHR 0xE1, CHR 0x9A, CHR 0x80],
      [CHR 0xE2, CHR 0x80, CHR 0x80], [CHR 0xE2, CHR 0x80, CHR 0x81], [CHR 0xE2, CHR 0x80, CHR 0x82],
      [CHR 0xE2, CHR 0x80, CHR 0x83], [CHR 0xE2, CHR 0x80, CHR 0x84], [CHR 0xE2, CHR 0x80, CHR 0x85],
      [CHR 0xE2, CHR 0x80, CHR 0x86], [CHR 0xE2, CHR 0x80, CHR 0x87], [CHR 0xE2, CHR 0x80, CHR 0x88],
      [CHR 0xE2, CHR 0x80, CHR 0x89], [CHR 0xE2, CHR 0x80, CHR 0x8A], [CHR 0xE2, CHR 0x80, CHR 0xA8],
      [CHR 0xE2, CHR 0x80, CHR 0xA9], [CHR 0xE2, CHR 0x80, CHR 0xAF], [CHR 0xE2, CHR 0x81, CHR 0x9F],
      [CHR 0xE3, CHR 0x80, CHR 0x80]]"

definition strip_any :: "(string \<Rightarrow> string \<Rightarrow> string option) \<Rightarrow> string list \<Rightarrow> string \<Rightarrow> string option" where
  "strip_any f ps s = (case List.find (\<lambda>p. f p s \<noteq> None) ps of Some p \<Rightarrow> f p s | None \<Rightarrow> None)"

text \<open>
  \<^verbatim>\<open>trim_start\<close> and \<^verbatim>\<open>trim_end\<close> strip as long as they can; every step removes at least one byte, so the
  length of the string is fuel enough.
\<close>

fun strip_while :: "nat \<Rightarrow> (string \<Rightarrow> string option) \<Rightarrow> string \<Rightarrow> string" where
  "strip_while 0 f s = s"
| "strip_while (Suc k) f s = (case f s of Some s' \<Rightarrow> strip_while k f s' | None \<Rightarrow> s)"

definition trim :: "string \<Rightarrow> string" where
  "trim s = (let t = strip_while (length s) (strip_any strip_prefix white_space) s
             in strip_while (length t) (strip_any strip_suffix white_space) t)"

definition trim_end_matches :: "char \<Rightarrow> string \<Rightarrow> string" where
  "trim_end_matches c s = rev (dropWhile (\<lambda>x. x = c) (rev s))"

lemma strip_any_Some:
  assumes "strip_any f ps s = Some r" shows "\<exists>p \<in> set ps. f p s = Some r"
proof -
  from assms obtain p where p: "List.find (\<lambda>p. f p s \<noteq> None) ps = Some p" "f p s = Some r"
    by (auto simp: strip_any_def split: option.splits)
  then show ?thesis by (auto simp: find_Some_iff)
qed

lemma strip_any_None: "strip_any f ps s = None \<Longrightarrow> p \<in> set ps \<Longrightarrow> f p s = None"
  by (auto simp: strip_any_def find_None_iff find_Some_iff split: option.splits)

text \<open>The fuel of \<open>trim\<close> is enough: the result can not be stripped further.\<close>

lemma strip_while_done:
  assumes "\<And>s s'. f s = Some s' \<Longrightarrow> length s' < length s" and "length s \<le> k"
  shows "f (strip_while k f s) = None"
  using assms(2)
proof (induction k arbitrary: s)
  case 0
  then show ?case using assms(1) [of s] by (cases "f s") auto
next
  case (Suc k)
  then show ?case using assms(1) [of s] by (auto split: option.split)
qed

lemma white_space_nonempty: "p \<in> set white_space \<Longrightarrow> p \<noteq> []"
  by (auto simp: white_space_def)

lemma trim_end_matches_last: "trim_end_matches c s \<noteq> [] \<Longrightarrow> last (trim_end_matches c s) \<noteq> c"
  unfolding trim_end_matches_def last_rev rev_is_Nil_conv by (rule hd_dropWhile)

section \<open>Paths\<close>

text \<open>\<^verbatim>\<open>Path::join\<close>.\<close>

definition path_join :: "string \<Rightarrow> string \<Rightarrow> string" where
  "path_join base p =
     (if starts_with ''/'' p then p
      else if base = [] \<or> last base = CHR ''/'' then base @ p
      else base @ ''/'' @ p)"

section \<open>Hexadecimal\<close>

definition hex_digit :: "nat \<Rightarrow> char" where
  "hex_digit d = (if d < 10 then char_of (48 + d) else char_of (87 + d))"

text \<open>\<^verbatim>\<open>write!(s, "{b:02x}")\<close> for each byte.\<close>

definition hex_byte :: "byte \<Rightarrow> string" where
  "hex_byte b = [hex_digit (byte_val b div 16), hex_digit (byte_val b mod 16)]"

lemma byte_val_lt: "byte_val b < 256"
  by (simp add: byte_val_def)

end
