(* ===== verification/Remote_Store.thy ===== *)
theory Remote_Store
  imports Prelude
begin

text \<open>
  The vocabulary of the \<^verbatim>\<open>store\<close> crate (\<^verbatim>\<open>src/store/src/lib.rs\<close>): the blob kinds and their tags, the
  outcome of a compare-and-swap, the ref-name check, and the ref half of the \<^verbatim>\<open>RemoteStore\<close> trait as
  the locale \<open>ref_catalog\<close>. Every backend theory interprets the locale on its own definitions; the
  lemmas that the clients of the catalog need are proved here once.
\<close>

section \<open>Blob kinds\<close>

datatype BlobKind = KTree | KBlob | KCommit | KView | KOperation | KExtra

fun as_str :: "BlobKind \<Rightarrow> string" where
  "as_str KTree = ''tree''"
| "as_str KBlob = ''blob''"
| "as_str KCommit = ''commit''"
| "as_str KView = ''view''"
| "as_str KOperation = ''operation''"
| "as_str KExtra = ''extra''"

text \<open>The wire enum of the generated protobuf code.\<close>

datatype ProtoBlobKind = PUnspecified | PTree | PBlob | PCommit | PView | POperation | PExtra

fun as_proto :: "BlobKind \<Rightarrow> ProtoBlobKind" where
  "as_proto KTree = PTree"
| "as_proto KBlob = PBlob"
| "as_proto KCommit = PCommit"
| "as_proto KView = PView"
| "as_proto KOperation = POperation"
| "as_proto KExtra = PExtra"

fun from_proto :: "ProtoBlobKind \<Rightarrow> BlobKind option" where
  "from_proto PUnspecified = None"
| "from_proto PTree = Some KTree"
| "from_proto PBlob = Some KBlob"
| "from_proto PCommit = Some KCommit"
| "from_proto PView = Some KView"
| "from_proto POperation = Some KOperation"
| "from_proto PExtra = Some KExtra"

lemma as_str_inject [simp]: "as_str k = as_str k' \<longleftrightarrow> k = k'"
  by (cases k; cases k') simp_all

lemma from_as_proto [simp]: "from_proto (as_proto k) = Some k"
  by (cases k) simp_all

lemma from_proto_Some_iff: "from_proto p = Some k \<longleftrightarrow> p = as_proto k"
  by (cases p; cases k) simp_all

section \<open>Refs\<close>

datatype CasOutcome = Updated | Conflict "bytes option"

datatype ref_name_error = RefEmpty | RefNul | RefSlash | RefReserved

definition validate_ref_name :: "string \<Rightarrow> ref_name_error + unit" where
  "validate_ref_name name =
     (if name = [] then Inl RefEmpty
      else if CHR 0x00 \<in> set name then Inl RefNul
      else if CHR ''/'' \<in> set name then Inl RefSlash
      else if name = ''.'' \<or> name = ''..'' then Inl RefReserved
      else Inr ())"

definition valid_ref_name :: "string \<Rightarrow> bool" where
  "valid_ref_name name \<longleftrightarrow> validate_ref_name name = Inr ()"

text \<open>An error of a catalog call: a refused name, or a failure of the backend (I/O, transport).\<close>

datatype catalog_error = BadRefName ref_name_error | Backend string

lemma valid_ref_name_iff:
  "valid_ref_name name \<longleftrightarrow>
     name \<noteq> [] \<and> CHR 0x00 \<notin> set name \<and> CHR ''/'' \<notin> set name \<and> name \<noteq> ''.'' \<and> name \<noteq> ''..''"
  by (auto simp: valid_ref_name_def validate_ref_name_def)

lemma validate_ref_name_cases:
  obtains "valid_ref_name name" "validate_ref_name name = Inr ()"
  | e where "\<not> valid_ref_name name" "validate_ref_name name = Inl e"
  by (cases "validate_ref_name name") (auto simp: valid_ref_name_def)

section \<open>The catalog contract\<close>

text \<open>
  What a backend promises about its refs. \<open>refs s\<close> is the abstract catalog, a finite map from names to
  values; \<open>ok_name\<close> are the names the backend serves as refs (all valid names, or the valid names that
  are not its own bookkeeping files); \<open>healthy s\<close> says that no call will meet an I/O failure. A swap that
  reports an error either changed nothing or was applied as asked: over a network the reply to an
  applied swap can be lost.
\<close>

locale ref_catalog =
  fixes get_ref :: "string \<Rightarrow> 's \<Rightarrow> catalog_error + bytes option"
    and cas_ref :: "string \<Rightarrow> bytes option \<Rightarrow> bytes option \<Rightarrow> 's \<Rightarrow> (catalog_error + CasOutcome) \<times> 's"
    and list_refs :: "'s \<Rightarrow> catalog_error + string list"
    and refs :: "'s \<Rightarrow> string \<Rightarrow> bytes option"
    and ok_name :: "string \<Rightarrow> bool"
    and inv :: "'s \<Rightarrow> bool"
    and healthy :: "'s \<Rightarrow> bool"
  assumes get_sound: "inv s \<Longrightarrow> ok_name n \<Longrightarrow> get_ref n s = Inr r \<Longrightarrow> r = refs s n"
    and get_live: "inv s \<Longrightarrow> ok_name n \<Longrightarrow> healthy s \<Longrightarrow> \<exists>r. get_ref n s = Inr r"
    and cas_inv: "inv s \<Longrightarrow> ok_name n \<Longrightarrow> inv (snd (cas_ref n e v s))"
    and cas_updated: "inv s \<Longrightarrow> ok_name n \<Longrightarrow> cas_ref n e v s = (Inr Updated, s') \<Longrightarrow>
          refs s n = e \<and> refs s' = (refs s)(n := v)"
    and cas_conflict: "inv s \<Longrightarrow> ok_name n \<Longrightarrow> cas_ref n e v s = (Inr (Conflict a), s') \<Longrightarrow>
          a = refs s n \<and> a \<noteq> e \<and> refs s' = refs s"
    and cas_failed: "inv s \<Longrightarrow> ok_name n \<Longrightarrow> cas_ref n e v s = (Inl err, s') \<Longrightarrow>
          refs s' = refs s \<or> refs s n = e \<and> refs s' = (refs s)(n := v)"
    and cas_live: "inv s \<Longrightarrow> ok_name n \<Longrightarrow> healthy s \<Longrightarrow>
          (\<exists>out. fst (cas_ref n e v s) = Inr out) \<and> healthy (snd (cas_ref n e v s))"
    and list_sound: "inv s \<Longrightarrow> list_refs s = Inr ns \<Longrightarrow>
          sorted ns \<and> distinct ns \<and> set ns = {n. ok_name n \<and> refs s n \<noteq> None}"
begin

text \<open>On a healthy backend a read returns the ref and a swap succeeds exactly when it should.\<close>

lemma get_ref_eq: "inv s \<Longrightarrow> ok_name n \<Longrightarrow> healthy s \<Longrightarrow> get_ref n s = Inr (refs s n)"
  using get_live get_sound by metis

lemma cas_hit:
  assumes "inv s" "ok_name n" "healthy s" "refs s n = e"
  shows "\<exists>s'. cas_ref n e v s = (Inr Updated, s') \<and> refs s' = (refs s)(n := v) \<and> inv s' \<and> healthy s'"
proof -
  obtain r s' where eq: "cas_ref n e v s = (r, s')" by fastforce
  obtain out where out: "r = Inr out" and h: "healthy s'"
    using cas_live [OF assms(1-3), of e v] eq by auto
  have "out = Updated"
    using cas_conflict [OF assms(1,2)] eq out assms(4) by (cases out) auto
  then show ?thesis
    using eq out h cas_updated [OF assms(1,2)] cas_inv [OF assms(1,2), of e v] by fastforce
qed

lemma cas_miss:
  assumes "inv s" "ok_name n" "healthy s" "refs s n \<noteq> e"
  shows "\<exists>s'. cas_ref n e v s = (Inr (Conflict (refs s n)), s') \<and> refs s' = refs s \<and> inv s' \<and> healthy s'"
proof -
  obtain r s' where eq: "cas_ref n e v s = (r, s')" by fastforce
  obtain out where out: "r = Inr out" and h: "healthy s'"
    using cas_live [OF assms(1-3), of e v] eq by auto
  obtain a where a: "out = Conflict a"
    using cas_updated [OF assms(1,2)] eq out assms(4) by (cases out) auto
  then show ?thesis
    using eq out h cas_conflict [OF assms(1,2)] cas_inv [OF assms(1,2), of e v] by fastforce
qed

text \<open>
  Arbitration: of two swaps that start from the same expected value, the one that runs second
  conflicts, and is told the value the first one wrote.
\<close>

lemma second_swap_conflicts:
  assumes "inv s" "ok_name n" "healthy s"
    and first: "cas_ref n e v1 s = (Inr Updated, s1)" and "v1 \<noteq> e"
  shows "\<exists>s2. cas_ref n e v2 s1 = (Inr (Conflict v1), s2) \<and> refs s2 = refs s1"
proof -
  have inv1: "inv s1" and h1: "healthy s1"
    using cas_inv [OF assms(1,2), of e v1] cas_live [OF assms(1-3), of e v1] first by auto
  have r1: "refs s1 n = v1"
    using cas_updated [OF assms(1,2) first] by simp
  then show ?thesis
    using cas_miss [OF inv1 assms(2) h1, of e v2] assms(5) by auto
qed

text \<open>Whatever the outcome, a swap touches no other ref.\<close>

lemma cas_frame:
  assumes "inv s" "ok_name n" "n' \<noteq> n"
  shows "refs (snd (cas_ref n e v s)) n' = refs s n'"
proof -
  obtain r s' where eq: "cas_ref n e v s = (r, s')" by fastforce
  show ?thesis
  proof (cases r)
    case (Inl err)
    then show ?thesis using cas_failed [OF assms(1,2), of e v err s'] eq assms(3) by auto
  next
    case (Inr out)
    then show ?thesis
      using cas_updated [OF assms(1,2)] cas_conflict [OF assms(1,2)] eq assms(3)
      by (cases out) fastforce+
  qed
qed

end

end
