(* ===== verification/Git_Store.thy ===== *)
theory Git_Store
  imports Rust_Std Remote_Store "HOL-Library.Multiset"
begin

text \<open>
  \<^verbatim>\<open>src/daemon/src/git_store.rs\<close>: the content store of a repository, a thin typed layer over jj-lib's
  \<^verbatim>\<open>GitBackend\<close> and the gix object database. Those two libraries are not part of the sources: their
  functions are the fields of \<open>git_lib\<close>, over an opaque database state \<open>'g\<close>, and what the code relies on
  is the predicate \<open>git_laws\<close> (an object that was written is found under its oid, objects are never
  changed or lost, ids have 20 bytes and depend on the content only). The op-store tables (views,
  operations) are redb tables, ordered maps from ids to bytes.
\<close>

section \<open>Types\<close>

datatype GitObjectKind = GBlob | GTree | GCommit | GTag

datatype GitEntryKind = EFile bool | ETree | ESymlink | ESubmodule

record GitTreeEntry =
  ename :: string
  ekind :: GitEntryKind
  eid :: bytes

text \<open>gix: the mode of a tree entry and an entry as the iterator yields it.\<close>

datatype gix_mode = MTree | MBlob | MBlobExecutable | MLink | MCommit

record gix_entry =
  gmode :: gix_mode
  gfilename :: bytes
  goid :: bytes

text \<open>jj-lib: the value of an entry of \<^verbatim>\<open>backend::Tree\<close>.\<close>

datatype TreeValue = TVFile bytes bool | TVTree bytes | TVSymlink bytes | TVGitSubmodule bytes

text \<open>
  jj-lib: \<^verbatim>\<open>backend::Commit\<close>. A \<^verbatim>\<open>Merge<T>\<close> is the list of its terms, whose length is odd; timestamps and
  offsets are Rust's \<^verbatim>\<open>i64\<close> and \<^verbatim>\<open>i32\<close>, only copied here.
\<close>

record Signature =
  sig_name :: string
  sig_email :: string
  sig_millis :: int
  sig_tz_offset :: int

record Commit =
  parents :: "bytes list"
  predecessors :: "bytes list"
  root_tree :: "bytes list"
  conflict_labels :: "string list"
  change_id :: bytes
  description :: string
  author :: Signature
  committer :: Signature
  secure_sig :: "(bytes \<times> bytes) option"

text \<open>
  The functions of the libraries. \<^verbatim>\<open>table_add_entry\<close> is the \<^verbatim>\<open>TableStore\<close> transaction on the extras table
  and \<^verbatim>\<open>prost_extras\<close> the protobuf encoding of a change id and predecessors.
\<close>

record 'g git_lib =
  gix_exists :: "'g \<Rightarrow> bytes \<Rightarrow> bool"
  gix_find_object :: "'g \<Rightarrow> bytes \<Rightarrow> string + (GitObjectKind \<times> bytes) option"
  gix_write_buf :: "GitObjectKind \<Rightarrow> bytes \<Rightarrow> 'g \<Rightarrow> (string + bytes) \<times> 'g"
  gix_tree_iter :: "bytes \<Rightarrow> (string + gix_entry) list"
  jj_write_file :: "bytes \<Rightarrow> 'g \<Rightarrow> (string + bytes) \<times> 'g"
  jj_write_symlink :: "string \<Rightarrow> 'g \<Rightarrow> (string + bytes) \<times> 'g"
  jj_write_tree :: "(string \<times> TreeValue) list \<Rightarrow> 'g \<Rightarrow> (string + bytes) \<times> 'g"
  jj_read_commit :: "'g \<Rightarrow> bytes \<Rightarrow> string + Commit option"
  jj_write_commit :: "Commit \<Rightarrow> 'g \<Rightarrow> (string + bytes \<times> Commit) \<times> 'g"
  table_add_entry :: "bytes \<Rightarrow> bytes \<Rightarrow> 'g \<Rightarrow> (string + unit) \<times> 'g"
  prost_extras :: "bytes \<Rightarrow> bytes list \<Rightarrow> bytes"
  jj_component_ok :: "string \<Rightarrow> bool"
  jj_empty_tree_id :: bytes

record 'g git_store =
  glib :: "'g git_lib"
  gdb :: 'g
  views_v1 :: "(bytes, bytes) btree"
  operations_v1 :: "(bytes, bytes) btree"
  op_fault :: "redb_call \<Rightarrow> bool"

section \<open>Reads\<close>

definition bad_oid :: "bytes \<Rightarrow> bool" where
  "bad_oid oid \<longleftrightarrow> length oid \<noteq> 20"

definition has_object :: "'g git_store \<Rightarrow> bytes \<Rightarrow> string + bool" where
  "has_object st oid =
     (if bad_oid oid then Inl ''invalid git object id''
      else Inr (gix_exists (glib st) (gdb st) oid))"

definition has_git_object :: "'g git_store \<Rightarrow> bytes \<Rightarrow> string + bool" where
  "has_git_object st oid =
     (if bad_oid oid then Inl ''invalid git object id''
      else Inr (gix_exists (glib st) (gdb st) oid))"

definition git_read_file :: "'g git_store \<Rightarrow> bytes \<Rightarrow> string + bytes option" where
  "git_read_file st oid =
     (if bad_oid oid then Inl ''invalid git object id''
      else (case gix_find_object (glib st) (gdb st) oid of
          Inr (Some (GBlob, data)) \<Rightarrow> Inr (Some data)
        | Inr (Some _) \<Rightarrow> Inl ''object is not a blob''
        | Inr None \<Rightarrow> Inr None
        | Inl e \<Rightarrow> Inl (''read_file: '' @ e)))"

definition git_read_symlink :: "'g git_store \<Rightarrow> bytes \<Rightarrow> string + string option" where
  "git_read_symlink st oid =
     (case git_read_file st oid of
        Inl e \<Rightarrow> Inl e
      | Inr None \<Rightarrow> Inr None
      | Inr (Some bs) \<Rightarrow> if utf8_valid bs then Inr (Some bs) else Inl ''symlink target is not valid UTF-8'')"

fun gix_entry_kind :: "gix_mode \<Rightarrow> GitEntryKind" where
  "gix_entry_kind MTree = ETree"
| "gix_entry_kind MBlob = EFile False"
| "gix_entry_kind MBlobExecutable = EFile True"
| "gix_entry_kind MLink = ESymlink"
| "gix_entry_kind MCommit = ESubmodule"

text \<open>The \<^verbatim>\<open>map(...).collect::<Result<Vec<_>>>()\<close> over the iterator: the first bad entry ends it.\<close>

fun collect_entries :: "(string + gix_entry) list \<Rightarrow> string + GitTreeEntry list" where
  "collect_entries [] = Inr []"
| "collect_entries (Inl e # _) = Inl (''iterating tree entries: '' @ e)"
| "collect_entries (Inr g # rs) =
     (if \<not> utf8_valid (gfilename g) then Inl ''tree entry name not UTF-8''
      else (case collect_entries rs of
          Inl e \<Rightarrow> Inl e
        | Inr es \<Rightarrow> Inr (\<lparr>ename = gfilename g, ekind = gix_entry_kind (gmode g), eid = goid g\<rparr> # es)))"

definition git_read_tree :: "'g git_store \<Rightarrow> bytes \<Rightarrow> string + GitTreeEntry list option" where
  "git_read_tree st oid =
     (if oid = jj_empty_tree_id (glib st) then Inr (Some [])
      else if bad_oid oid then Inl ''invalid git object id''
      else (case gix_find_object (glib st) (gdb st) oid of
          Inr (Some (GTree, data)) \<Rightarrow>
            (case collect_entries (gix_tree_iter (glib st) data) of Inl e \<Rightarrow> Inl e | Inr es \<Rightarrow> Inr (Some es))
        | Inr (Some _) \<Rightarrow> Inl ''object is not a tree''
        | Inr None \<Rightarrow> Inr None
        | Inl e \<Rightarrow> Inl (''read_tree: '' @ e)))"

definition read_git_object_bytes :: "'g git_store \<Rightarrow> bytes \<Rightarrow> string + (GitObjectKind \<times> bytes) option" where
  "read_git_object_bytes st oid =
     (if bad_oid oid then Inl ''invalid git object id''
      else (case gix_find_object (glib st) (gdb st) oid of
          Inr r \<Rightarrow> Inr r
        | Inl e \<Rightarrow> Inl (''read_git_object_bytes: '' @ e)))"

definition git_read_commit :: "'g git_store \<Rightarrow> bytes \<Rightarrow> string + Commit option" where
  "git_read_commit st oid =
     (case jj_read_commit (glib st) (gdb st) oid of
        Inr r \<Rightarrow> Inr r
      | Inl e \<Rightarrow> Inl (''read_commit: '' @ e))"

definition serialize_extras_for_replication :: "'g git_lib \<Rightarrow> Commit \<Rightarrow> bytes" where
  "serialize_extras_for_replication L c = prost_extras L (change_id c) (predecessors c)"

definition read_extras :: "'g git_store \<Rightarrow> bytes \<Rightarrow> string + bytes option" where
  "read_extras st commit_id =
     (case git_read_commit st commit_id of
        Inl e \<Rightarrow> Inl e
      | Inr None \<Rightarrow> Inr None
      | Inr (Some c) \<Rightarrow> Inr (Some (serialize_extras_for_replication (glib st) c)))"

section \<open>Writes\<close>

definition git_write_file :: "bytes \<Rightarrow> 'g git_store \<Rightarrow> (string + bytes) \<times> 'g git_store" where
  "git_write_file content st =
     (case jj_write_file (glib st) content (gdb st) of
        (Inr oid, g) \<Rightarrow> (Inr oid, st\<lparr>gdb := g\<rparr>)
      | (Inl e, g) \<Rightarrow> (Inl (''write_file: '' @ e), st\<lparr>gdb := g\<rparr>))"

definition git_write_symlink :: "string \<Rightarrow> 'g git_store \<Rightarrow> (string + bytes) \<times> 'g git_store" where
  "git_write_symlink target st =
     (case jj_write_symlink (glib st) target (gdb st) of
        (Inr oid, g) \<Rightarrow> (Inr oid, st\<lparr>gdb := g\<rparr>)
      | (Inl e, g) \<Rightarrow> (Inl (''write_symlink: '' @ e), st\<lparr>gdb := g\<rparr>))"

fun tree_value :: "GitEntryKind \<Rightarrow> bytes \<Rightarrow> TreeValue" where
  "tree_value (EFile ex) oid = TVFile oid ex"
| "tree_value ETree oid = TVTree oid"
| "tree_value ESymlink oid = TVSymlink oid"
| "tree_value ESubmodule oid = TVGitSubmodule oid"

definition entries_to_jj_tree :: "'g git_store \<Rightarrow> GitTreeEntry list \<Rightarrow> string + (string \<times> TreeValue) list" where
  "entries_to_jj_tree st es =
     (case List.find (\<lambda>e. \<not> jj_component_ok (glib st) (ename e)) es of
        Some e \<Rightarrow> Inl (''invalid tree entry name: '' @ ename e)
      | None \<Rightarrow> Inr (sort_key fst (map (\<lambda>e. (ename e, tree_value (ekind e) (eid e))) es)))"

definition git_write_tree :: "GitTreeEntry list \<Rightarrow> 'g git_store \<Rightarrow> (string + bytes) \<times> 'g git_store" where
  "git_write_tree es st =
     (case entries_to_jj_tree st es of
        Inl e \<Rightarrow> (Inl (''building jj tree from entries: '' @ e), st)
      | Inr jj_tree \<Rightarrow>
          (case jj_write_tree (glib st) jj_tree (gdb st) of
             (Inr oid, g) \<Rightarrow> (Inr oid, st\<lparr>gdb := g\<rparr>)
           | (Inl e, g) \<Rightarrow> (Inl (''write_tree: '' @ e), st\<lparr>gdb := g\<rparr>)))"

definition write_git_object_bytes :: "GitObjectKind \<Rightarrow> bytes \<Rightarrow> 'g git_store \<Rightarrow> (string + bytes) \<times> 'g git_store" where
  "write_git_object_bytes kind data st =
     (case gix_write_buf (glib st) kind data (gdb st) of
        (Inr oid, g) \<Rightarrow> (Inr oid, st\<lparr>gdb := g\<rparr>)
      | (Inl e, g) \<Rightarrow> (Inl (''write_git_object_bytes: '' @ e), st\<lparr>gdb := g\<rparr>))"

definition git_write_commit :: "Commit \<Rightarrow> 'g git_store \<Rightarrow> (string + bytes \<times> Commit) \<times> 'g git_store" where
  "git_write_commit commit st =
     (case jj_write_commit (glib st) commit (gdb st) of
        (Inr r, g) \<Rightarrow> (Inr r, st\<lparr>gdb := g\<rparr>)
      | (Inl e, g) \<Rightarrow> (Inl (''write_commit: '' @ e), st\<lparr>gdb := g\<rparr>))"

definition write_extras :: "bytes \<Rightarrow> bytes \<Rightarrow> 'g git_store \<Rightarrow> (string + unit) \<times> 'g git_store" where
  "write_extras commit_id extras_bytes st =
     (case table_add_entry (glib st) commit_id extras_bytes (gdb st) of
        (Inr r, g) \<Rightarrow> (Inr r, st\<lparr>gdb := g\<rparr>)
      | (Inl e, g) \<Rightarrow> (Inl (''save extras table: '' @ e), st\<lparr>gdb := g\<rparr>))"

section \<open>Op-store tables\<close>

datatype OpPrefixResult = PrefixNone | PrefixSingle bytes | PrefixAmbiguous

definition hex_encode :: "bytes \<Rightarrow> string" where
  "hex_encode bs = concat (map hex_byte bs)"

definition read_raw_varkey :: "(redb_call \<Rightarrow> bool) \<Rightarrow> (bytes, bytes) btree \<Rightarrow> bytes \<Rightarrow> string + bytes option" where
  "read_raw_varkey fault tbl k =
     (if fault BeginRead then Inl ''redb begin_read''
      else if fault OpenTable then Inl ''open table for read''
      else if fault GetRow then Inl ''redb get''
      else Inr (map_of tbl k))"

definition write_raw_varkey :: "(redb_call \<Rightarrow> bool) \<Rightarrow> bytes \<Rightarrow> bytes \<Rightarrow> (bytes, bytes) btree \<Rightarrow>
    (string + unit) \<times> (bytes, bytes) btree" where
  "write_raw_varkey fault k bs tbl =
     (if fault BeginWrite then (Inl ''redb begin_write'', tbl)
      else if fault OpenTable then (Inl ''open table for write'', tbl)
      else if fault InsertRow then (Inl ''redb insert'', tbl)
      else if fault CommitTxn then (Inl ''redb commit'', tbl)
      else (Inr (), bt_insert k bs tbl))"

definition get_view_bytes :: "'g git_store \<Rightarrow> bytes \<Rightarrow> string + bytes option" where
  "get_view_bytes st oid = read_raw_varkey (op_fault st) (views_v1 st) oid"

definition write_view_bytes :: "bytes \<Rightarrow> bytes \<Rightarrow> 'g git_store \<Rightarrow> (string + unit) \<times> 'g git_store" where
  "write_view_bytes oid bs st =
     (case write_raw_varkey (op_fault st) oid bs (views_v1 st) of (r, t) \<Rightarrow> (r, st\<lparr>views_v1 := t\<rparr>))"

definition get_operation_bytes :: "'g git_store \<Rightarrow> bytes \<Rightarrow> string + bytes option" where
  "get_operation_bytes st oid = read_raw_varkey (op_fault st) (operations_v1 st) oid"

definition write_operation_bytes :: "bytes \<Rightarrow> bytes \<Rightarrow> 'g git_store \<Rightarrow> (string + unit) \<times> 'g git_store" where
  "write_operation_bytes oid bs st =
     (case write_raw_varkey (op_fault st) oid bs (operations_v1 st) of (r, t) \<Rightarrow> (r, st\<lparr>operations_v1 := t\<rparr>))"

fun prefix_scan :: "string \<Rightarrow> bytes option \<Rightarrow> bytes list \<Rightarrow> OpPrefixResult" where
  "prefix_scan p matched [] = (case matched of Some oid \<Rightarrow> PrefixSingle oid | None \<Rightarrow> PrefixNone)"
| "prefix_scan p matched (k # ks) =
     (if starts_with p (hex_encode k)
      then (if matched \<noteq> None then PrefixAmbiguous else prefix_scan p (Some k) ks)
      else prefix_scan p matched ks)"

definition operation_ids_matching_prefix :: "'g git_store \<Rightarrow> string \<Rightarrow> string + OpPrefixResult" where
  "operation_ids_matching_prefix st p =
     (if op_fault st BeginRead then Inl ''redb begin_read''
      else if op_fault st OpenTable then Inl ''open operations table''
      else if op_fault st IterRows then Inl ''iterate operations table''
      else Inr (prefix_scan p None (map fst (operations_v1 st))))"

section \<open>What is relied on of the git libraries\<close>

fun jj_entry :: "string \<times> TreeValue \<Rightarrow> GitTreeEntry" where
  "jj_entry (n, TVFile oid ex) = \<lparr>ename = n, ekind = EFile ex, eid = oid\<rparr>"
| "jj_entry (n, TVTree oid) = \<lparr>ename = n, ekind = ETree, eid = oid\<rparr>"
| "jj_entry (n, TVSymlink oid) = \<lparr>ename = n, ekind = ESymlink, eid = oid\<rparr>"
| "jj_entry (n, TVGitSubmodule oid) = \<lparr>ename = n, ekind = ESubmodule, eid = oid\<rparr>"

text \<open>
  \<open>db_extends\<close>: an object found before is found after, unchanged. Every write of the libraries, also one
  that fails, only adds objects.
\<close>

definition db_extends :: "'g git_lib \<Rightarrow> 'g \<Rightarrow> 'g \<Rightarrow> bool" where
  "db_extends L g g' \<longleftrightarrow>
     (\<forall>oid ob. gix_find_object L g oid = Inr (Some ob) \<longrightarrow> gix_find_object L g' oid = Inr (Some ob))"

text \<open>
  The tree that is read back under the id \<^verbatim>\<open>write_tree\<close> returned has the entries that were written,
  in the order git keeps them (which is not the order of the names). The entries written have names
  the library accepts, pairwise distinct, and 20-byte ids.
\<close>

definition blob_write_law :: "'g git_lib \<Rightarrow> GitObjectKind \<Rightarrow> (bytes \<Rightarrow> 'g \<Rightarrow> (string + bytes) \<times> 'g) \<Rightarrow> bool" where
  "blob_write_law L k w \<longleftrightarrow>
     (\<forall>b g r g'. w b g = (r, g') \<longrightarrow> db_extends L g g' \<and>
        (\<forall>i. r = Inr i \<longrightarrow> length i = 20 \<and> gix_find_object L g' i = Inr (Some (k, b))))"

definition tree_write_law :: "'g git_lib \<Rightarrow> bool" where
  "tree_write_law L \<longleftrightarrow>
     (\<forall>vs g r g'. jj_write_tree L vs g = (r, g') \<longrightarrow> db_extends L g g' \<and>
        (\<forall>i. r = Inr i \<longrightarrow> distinct (map fst vs) \<longrightarrow>
           (\<forall>(n, v) \<in> set vs. jj_component_ok L n \<and> length (eid (jj_entry (n, v))) = 20) \<longrightarrow>
           length i = 20 \<and> (i = jj_empty_tree_id L \<longrightarrow> vs = []) \<and>
           (\<exists>data es. gix_find_object L g' i = Inr (Some (GTree, data)) \<and>
              collect_entries (gix_tree_iter L data) = Inr es \<and> mset es = mset (map jj_entry vs))))"

definition git_laws :: "'g git_lib \<Rightarrow> bool" where
  "git_laws L \<longleftrightarrow>
     blob_write_law L GBlob (jj_write_file L) \<and> blob_write_law L GBlob (jj_write_symlink L) \<and>
     (\<forall>k. blob_write_law L k (gix_write_buf L k)) \<and> tree_write_law L \<and>
     (\<forall>data es e. collect_entries (gix_tree_iter L data) = Inr es \<longrightarrow> e \<in> set es \<longrightarrow> length (eid e) = 20) \<and>
     (\<forall>c g r g'. jj_write_commit L c g = (r, g') \<longrightarrow> db_extends L g g') \<and>
     (\<forall>k v g r g'. table_add_entry L k v g = (r, g') \<longrightarrow> db_extends L g g') \<and>
     length (jj_empty_tree_id L) = 20"

lemma git_laws_write_file: "git_laws L \<Longrightarrow> blob_write_law L GBlob (jj_write_file L)"
  and git_laws_write_symlink: "git_laws L \<Longrightarrow> blob_write_law L GBlob (jj_write_symlink L)"
  and git_laws_write_buf: "git_laws L \<Longrightarrow> blob_write_law L k (gix_write_buf L k)"
  and git_laws_write_tree: "git_laws L \<Longrightarrow> tree_write_law L"
  and git_laws_empty_tree: "git_laws L \<Longrightarrow> length (jj_empty_tree_id L) = 20"
  by (auto simp: git_laws_def)

lemma git_laws_entry_ids:
  "git_laws L \<Longrightarrow> collect_entries (gix_tree_iter L data) = Inr es \<Longrightarrow> e \<in> set es \<Longrightarrow> length (eid e) = 20"
  unfolding git_laws_def by blast

lemma blob_write_lawD:
  "blob_write_law L k w \<Longrightarrow> w b g = (r, g') \<Longrightarrow> db_extends L g g' \<and>
     (\<forall>i. r = Inr i \<longrightarrow> length i = 20 \<and> gix_find_object L g' i = Inr (Some (k, b)))"
  unfolding blob_write_law_def by blast

lemma jj_entry_tree_value [simp]:
  "jj_entry (ename e, tree_value (ekind e) (eid e)) = e" for e :: GitTreeEntry
  by (cases "ekind e") simp_all

definition store_extends :: "'g git_store \<Rightarrow> 'g git_store \<Rightarrow> bool" where
  "store_extends st st' \<longleftrightarrow> glib st' = glib st \<and> db_extends (glib st) (gdb st) (gdb st') \<and>
     views_v1 st' = views_v1 st \<and> operations_v1 st' = operations_v1 st \<and> op_fault st' = op_fault st"

lemma store_extends_refl [simp, intro]: "store_extends st st"
  by (simp add: store_extends_def db_extends_def)

lemma store_extends_trans [trans]: "store_extends a b \<Longrightarrow> store_extends b c \<Longrightarrow> store_extends a c"
  by (auto simp: store_extends_def db_extends_def)

text \<open>Reads that found something keep finding it.\<close>

lemma git_read_file_extends:
  "store_extends st st' \<Longrightarrow> git_read_file st oid = Inr (Some b) \<Longrightarrow> git_read_file st' oid = Inr (Some b)"
  unfolding git_read_file_def store_extends_def db_extends_def
  by (fastforce split: if_splits sum.splits option.splits prod.splits GitObjectKind.splits)

lemma git_read_symlink_extends:
  "store_extends st st' \<Longrightarrow> git_read_symlink st oid = Inr (Some b) \<Longrightarrow> git_read_symlink st' oid = Inr (Some b)"
  using git_read_file_extends [of st st' oid]
  by (auto simp: git_read_symlink_def split: sum.splits option.splits if_splits)

lemma git_read_tree_extends:
  "store_extends st st' \<Longrightarrow> git_read_tree st oid = Inr (Some es) \<Longrightarrow> git_read_tree st' oid = Inr (Some es)"
  unfolding git_read_tree_def store_extends_def db_extends_def
  by (fastforce split: if_splits sum.splits option.splits prod.splits GitObjectKind.splits)

text \<open>What was written is read back.\<close>

lemma git_write_file_spec:
  assumes "git_laws (glib st)" and "git_write_file b st = (r, st')"
  shows "store_extends st st' \<and> (\<forall>i. r = Inr i \<longrightarrow> length i = 20 \<and> git_read_file st' i = Inr (Some b))"
proof -
  obtain r0 g where w: "jj_write_file (glib st) b (gdb st) = (r0, g)" by fastforce
  note law = blob_write_lawD [OF git_laws_write_file [OF assms(1)] w]
  show ?thesis
    using assms(2) w law
    by (auto simp: git_write_file_def store_extends_def git_read_file_def bad_oid_def split: sum.splits)
qed

lemma git_write_symlink_spec:
  assumes "git_laws (glib st)" and "git_write_symlink b st = (r, st')"
  shows "store_extends st st' \<and> (\<forall>i. r = Inr i \<longrightarrow> length i = 20 \<and> git_read_file st' i = Inr (Some b) \<and>
           (utf8_valid b \<longrightarrow> git_read_symlink st' i = Inr (Some b)))"
proof -
  obtain r0 g where w: "jj_write_symlink (glib st) b (gdb st) = (r0, g)" by fastforce
  note law = blob_write_lawD [OF git_laws_write_symlink [OF assms(1)] w]
  show ?thesis
    using assms(2) w law
    by (auto simp: git_write_symlink_def store_extends_def git_read_symlink_def git_read_file_def bad_oid_def
        split: sum.splits)
qed

lemma write_git_object_bytes_spec:
  assumes "git_laws (glib st)" and "write_git_object_bytes k b st = (r, st')"
  shows "store_extends st st' \<and> (\<forall>i. r = Inr i \<longrightarrow> length i = 20 \<and> read_git_object_bytes st' i = Inr (Some (k, b)))"
proof -
  obtain r0 g where w: "gix_write_buf (glib st) k b (gdb st) = (r0, g)" by fastforce
  note law = blob_write_lawD [OF git_laws_write_buf [OF assms(1)] w]
  show ?thesis
    using assms(2) w law
    by (auto simp: write_git_object_bytes_def store_extends_def read_git_object_bytes_def bad_oid_def split: sum.splits)
qed

lemma entries_to_jj_tree_Inr:
  assumes "entries_to_jj_tree st es = Inr vs"
  shows "vs = sort_key fst (map (\<lambda>e. (ename e, tree_value (ekind e) (eid e))) es)"
    and "\<forall>e \<in> set es. jj_component_ok (glib st) (ename e)"
  using assms by (auto simp: entries_to_jj_tree_def find_None_iff split: option.splits)

lemma git_write_tree_spec:
  assumes laws: "git_laws (glib st)" and w: "git_write_tree es st = (r, st')"
  shows "store_extends st st' \<and>
    (\<forall>i. r = Inr i \<longrightarrow> distinct (map ename es) \<longrightarrow> (\<forall>e \<in> set es. length (eid e) = 20) \<longrightarrow>
       length i = 20 \<and> (\<exists>es'. git_read_tree st' i = Inr (Some es') \<and> mset es' = mset es))"
proof (cases "entries_to_jj_tree st es")
  case (Inl e)
  then show ?thesis using w by (auto simp: git_write_tree_def)
next
  case (Inr vs)
  note vs = entries_to_jj_tree_Inr [OF Inr]
  obtain r0 g where jw: "jj_write_tree (glib st) vs (gdb st) = (r0, g)" by fastforce
  have st': "st' = st\<lparr>gdb := g\<rparr>" and r: "r = Inr i \<longleftrightarrow> r0 = Inr i" for i
    using w Inr jw by (auto simp: git_write_tree_def split: sum.splits)
  have ext: "db_extends (glib st) (gdb st) g"
    using git_laws_write_tree [OF laws] jw unfolding tree_write_law_def by blast
  have ms: "mset (map jj_entry vs) = mset es"
    by (simp add: vs(1) image_mset.compositionality comp_def)
  have "length i = 20 \<and> (\<exists>es'. git_read_tree st' i = Inr (Some es') \<and> mset es' = mset es)"
    if i: "r0 = Inr i" and d: "distinct (map ename es)" and l: "\<forall>e \<in> set es. length (eid e) = 20" for i
  proof -
    have "mset (map fst vs) = mset (map ename es)"
      by (simp add: vs(1) image_mset.compositionality comp_def)
    then have "distinct (map fst vs)" using d mset_eq_imp_distinct_iff by blast
    moreover have "\<forall>(n, v) \<in> set vs. jj_component_ok (glib st) n \<and> length (eid (jj_entry (n, v))) = 20"
      using vs(2) l by (auto simp: vs(1))
    ultimately obtain data es' where f: "length i = 20" "i = jj_empty_tree_id (glib st) \<longrightarrow> vs = []"
        "gix_find_object (glib st) g i = Inr (Some (GTree, data))"
        "collect_entries (gix_tree_iter (glib st) data) = Inr es'" "mset es' = mset (map jj_entry vs)"
      using git_laws_write_tree [OF laws] jw i unfolding tree_write_law_def by blast
    show ?thesis
    proof (cases "i = jj_empty_tree_id (glib st)")
      case True
      then have "mset es = {#}" using f(2) ms by simp
      then show ?thesis using True f(1) by (simp add: git_read_tree_def st')
    next
      case False
      then show ?thesis using f ms by (simp add: git_read_tree_def st' bad_oid_def)
    qed
  qed
  then show ?thesis using r ext by (auto simp: st' store_extends_def)
qed

text \<open>A tree read has entries with 20-byte ids.\<close>

lemma git_read_tree_ids:
  "git_laws (glib st) \<Longrightarrow> git_read_tree st i = Inr (Some es) \<Longrightarrow> \<forall>e \<in> set es. length (eid e) = 20"
  unfolding git_read_tree_def
  by (auto split: if_splits sum.splits option.splits prod.splits GitObjectKind.splits
      dest: git_laws_entry_ids)

lemma git_write_commit_extends:
  "git_laws (glib st) \<Longrightarrow> git_write_commit c st = (r, st') \<Longrightarrow> store_extends st st'"
  by (auto simp: git_write_commit_def git_laws_def store_extends_def split: prod.splits sum.splits)

lemma write_extras_extends:
  "git_laws (glib st) \<Longrightarrow> write_extras k v st = (r, st') \<Longrightarrow> store_extends st st'"
  by (auto simp: write_extras_def git_laws_def store_extends_def split: prod.splits sum.splits)

section \<open>Prefix resolution of operation ids\<close>

text \<open>The scan, stated without its loop: the operation ids whose hex form starts with the prefix.\<close>

lemma prefix_scan_eq:
  "prefix_scan p m ks =
     (case [k \<leftarrow> ks. starts_with p (hex_encode k)] of
        [] \<Rightarrow> (case m of Some k \<Rightarrow> PrefixSingle k | None \<Rightarrow> PrefixNone)
      | [k] \<Rightarrow> (if m = None then PrefixSingle k else PrefixAmbiguous)
      | _ \<Rightarrow> PrefixAmbiguous)"
  by (induction p m ks rule: prefix_scan.induct) (auto split: list.splits option.splits)

end
