(* ===== verification/Fetch.thy ===== *)
theory Fetch
  imports Git_Store
begin

text \<open>
  \<^verbatim>\<open>src/daemon/src/remote/fetch.rs\<close>: read-through from a remote blob store into the local git object
  database. The remote is the argument \<open>get_blob\<close>; it may answer anything, an error included, so what
  comes back is checked: the object is written locally and the id the object database computes has to be
  the id that was asked for.
\<close>

section \<open>Operations\<close>

datatype FetchError =
    FetchNotFound BlobKind string
  | DataLoss BlobKind string string
  | LocalWrite BlobKind string
  | Remote BlobKind string

type_synonym get_blob = "BlobKind \<Rightarrow> bytes \<Rightarrow> string + bytes option"

type_synonym ('g, 'a) fetch = "'g git_store \<Rightarrow> (FetchError + 'a) \<times> 'g git_store"

fun blob_kind_to_git :: "BlobKind \<Rightarrow> GitObjectKind option" where
  "blob_kind_to_git KTree = Some GTree"
| "blob_kind_to_git KBlob = Some GBlob"
| "blob_kind_to_git KCommit = Some GCommit"
| "blob_kind_to_git KView = None"
| "blob_kind_to_git KOperation = None"
| "blob_kind_to_git KExtra = None"

definition fetch_bytes :: "get_blob \<Rightarrow> BlobKind \<Rightarrow> bytes \<Rightarrow> FetchError + bytes" where
  "fetch_bytes remote kind oid =
     (case remote kind oid of
        Inr (Some b) \<Rightarrow> Inr b
      | Inr None \<Rightarrow> Inl (FetchNotFound kind (hex_encode oid))
      | Inl e \<Rightarrow> Inl (Remote kind e))"

definition fetch_git_object :: "get_blob \<Rightarrow> BlobKind \<Rightarrow> bytes \<Rightarrow> ('g, unit) fetch" where
  "fetch_git_object remote kind requested st =
     (case blob_kind_to_git kind of
        None \<Rightarrow> (Inl (Remote kind (''BlobKind::'' @ as_str kind @ '' is not a git object'')), st)
      | Some git_kind \<Rightarrow>
          (case fetch_bytes remote kind requested of
             Inl e \<Rightarrow> (Inl e, st)
           | Inr bs \<Rightarrow>
               (case write_git_object_bytes git_kind bs st of
                  (Inl e, st') \<Rightarrow> (Inl (LocalWrite kind e), st')
                | (Inr got, st') \<Rightarrow>
                    if got \<noteq> requested
                    then (Inl (DataLoss kind (hex_encode requested) (hex_encode got)), st')
                    else (Inr (), st'))))"

text \<open>The re-read that \<^verbatim>\<open>fetch_file\<close>, \<^verbatim>\<open>fetch_symlink\<close>, \<^verbatim>\<open>fetch_tree\<close> and \<^verbatim>\<open>fetch_commit\<close> end with.\<close>

definition reread :: "BlobKind \<Rightarrow> bytes \<Rightarrow> ('g git_store \<Rightarrow> string + 'a option) \<Rightarrow> ('g, 'a) fetch" where
  "reread kind oid read st =
     (case read st of
        Inl e \<Rightarrow> (Inl (LocalWrite kind e), st)
      | Inr None \<Rightarrow> (Inl (FetchNotFound kind (hex_encode oid)), st)
      | Inr (Some a) \<Rightarrow> (Inr a, st))"

definition fetch_file :: "get_blob \<Rightarrow> bytes \<Rightarrow> ('g, bytes) fetch" where
  "fetch_file remote oid st =
     (case fetch_git_object remote KBlob oid st of
        (Inl e, st') \<Rightarrow> (Inl e, st')
      | (Inr _, st') \<Rightarrow> reread KBlob oid (\<lambda>s. git_read_file s oid) st')"

definition fetch_symlink :: "get_blob \<Rightarrow> bytes \<Rightarrow> ('g, string) fetch" where
  "fetch_symlink remote oid st =
     (case fetch_git_object remote KBlob oid st of
        (Inl e, st') \<Rightarrow> (Inl e, st')
      | (Inr _, st') \<Rightarrow> reread KBlob oid (\<lambda>s. git_read_symlink s oid) st')"

definition fetch_tree :: "get_blob \<Rightarrow> bytes \<Rightarrow> ('g, GitTreeEntry list) fetch" where
  "fetch_tree remote oid st =
     (case fetch_git_object remote KTree oid st of
        (Inl e, st') \<Rightarrow> (Inl e, st')
      | (Inr _, st') \<Rightarrow> reread KTree oid (\<lambda>s. git_read_tree s oid) st')"

definition fetch_extras :: "get_blob \<Rightarrow> bytes \<Rightarrow> ('g, unit) fetch" where
  "fetch_extras remote commit_id st =
     (case fetch_bytes remote KExtra commit_id of
        Inl e \<Rightarrow> (Inl e, st)
      | Inr bs \<Rightarrow>
          (case write_extras commit_id bs st of
             (Inl e, st') \<Rightarrow> (Inl (LocalWrite KExtra e), st')
           | (Inr _, st') \<Rightarrow> (Inr (), st')))"

text \<open>A remote without extras is tolerated; any other failure of the extras fetch is returned.\<close>

definition fetch_commit :: "get_blob \<Rightarrow> bytes \<Rightarrow> ('g, Commit) fetch" where
  "fetch_commit remote oid st =
     (case fetch_git_object remote KCommit oid st of
        (Inl e, st') \<Rightarrow> (Inl e, st')
      | (Inr _, st') \<Rightarrow>
          (case fetch_extras remote oid st' of
             (Inl (FetchNotFound _ _), st'') \<Rightarrow> reread KCommit oid (\<lambda>s. git_read_commit s oid) st''
           | (Inl e, st'') \<Rightarrow> (Inl e, st'')
           | (Inr _, st'') \<Rightarrow> reread KCommit oid (\<lambda>s. git_read_commit s oid) st''))"

section \<open>What a fetch guarantees\<close>

lemma fetch_git_object_spec:
  assumes "git_laws (glib st)" and "fetch_git_object remote kind oid st = (r, st')"
  shows "store_extends st st'"
    and "r = Inr u \<Longrightarrow> \<exists>k b. blob_kind_to_git kind = Some k \<and> remote kind oid = Inr (Some b) \<and>
           length oid = 20 \<and> read_git_object_bytes st' oid = Inr (Some (k, b))"
  using assms write_git_object_bytes_spec [OF assms(1)]
  by (auto simp: fetch_git_object_def fetch_bytes_def split: option.splits sum.splits prod.splits if_splits)

lemma reread_state [simp]: "snd (reread kind oid read st) = st"
  by (auto simp: reread_def split: sum.splits option.splits)

lemma reread_Inr_iff: "reread kind oid read st = (Inr a, st') \<longleftrightarrow> st' = st \<and> read st = Inr (Some a)"
  by (auto simp: reread_def split: sum.splits option.splits)

lemma read_file_of_object:
  "read_git_object_bytes st oid = Inr (Some (GBlob, b)) \<Longrightarrow> git_read_file st oid = Inr (Some b)"
  by (auto simp: read_git_object_bytes_def git_read_file_def split: if_splits sum.splits)

text \<open>
  A fetched value is what the local store now has under the requested id, and nothing that was there
  before is lost, whatever the remote answered.
\<close>

lemma fetch_extends:
  assumes "git_laws (glib st)"
  shows "store_extends st (snd (fetch_file remote oid st))"
    and "store_extends st (snd (fetch_symlink remote oid st))"
    and "store_extends st (snd (fetch_tree remote oid st))"
  using fetch_git_object_spec(1) [OF assms]
  by (fastforce simp: fetch_file_def fetch_symlink_def fetch_tree_def split: prod.splits sum.splits)+

lemma fetch_file_spec:
  assumes "git_laws (glib st)" and "fetch_file remote oid st = (Inr b, st')"
  shows "remote KBlob oid = Inr (Some b)" and "git_read_file st' oid = Inr (Some b)"
proof -
  obtain u where f: "fetch_git_object remote KBlob oid st = (Inr u, st')"
      and r: "git_read_file st' oid = Inr (Some b)"
    using assms(2) by (auto simp: fetch_file_def reread_Inr_iff split: prod.splits sum.splits)
  obtain b' where "remote KBlob oid = Inr (Some b')" "read_git_object_bytes st' oid = Inr (Some (GBlob, b'))"
    using fetch_git_object_spec(2) [OF assms(1) f] by auto
  then show "remote KBlob oid = Inr (Some b)" "git_read_file st' oid = Inr (Some b)"
    using r read_file_of_object by fastforce+
qed

lemma fetch_symlink_spec:
  assumes "git_laws (glib st)" and "fetch_symlink remote oid st = (Inr t, st')"
  shows "git_read_symlink st' oid = Inr (Some t)"
  using assms by (auto simp: fetch_symlink_def reread_Inr_iff split: prod.splits sum.splits)

lemma fetch_tree_spec:
  assumes "git_laws (glib st)" and "fetch_tree remote oid st = (Inr es, st')"
  shows "git_read_tree st' oid = Inr (Some es)"
  using assms by (auto simp: fetch_tree_def reread_Inr_iff split: prod.splits sum.splits)

end
