(* ===== verification/Inode_Slab.thy ===== *)
theory Inode_Slab
  imports Prelude
begin

text \<open>
  \<^verbatim>\<open>src/daemon/src/vfs/inode.rs\<close>: the inode slab behind both kernel adapters. The slab hands out ids from
  a counter that only grows, keeps every inode it ever allocated, and keeps the reverse map
  \<^verbatim>\<open>(parent, name) -> id\<close> in step with the child maps of the modified directories. One mutex guards
  the whole slab, so each method is one function on its state.

  \<^verbatim>\<open>InodeId\<close> is a \<^verbatim>\<open>u64\<close> that is incremented once per allocation from 2; it is modelled as a \<^typ>\<open>nat\<close>,
  which agrees with the code for the first \<^verbatim>\<open>2^64 - 2\<close> allocations.
\<close>

section \<open>Data\<close>

type_synonym inode_id = nat

text \<open>A 20-byte git object id.\<close>

type_synonym oid = bytes

definition ROOT_INODE :: inode_id where
  "ROOT_INODE = 1"

datatype NodeRef =
    Tree oid
  | DirtyTree "(string, inode_id) btree"
  | File oid bool
  | DirtyFile bytes bool
  | Symlink oid
  | DirtySymlink string

record inode =
  parent :: inode_id
  iname :: string
  node :: NodeRef
  ignored :: bool

record slab =
  next_id :: inode_id
  inodes :: "inode_id \<rightharpoonup> inode"
  by_parent :: "inode_id \<times> string \<rightharpoonup> inode_id"

text \<open>The variants the source lists in the \<^verbatim>\<open>matches!\<close> of \<^verbatim>\<open>materialize_dir_for_mutation\<close>.\<close>

fun is_dirty :: "NodeRef \<Rightarrow> bool" where
  "is_dirty (DirtyFile _ _) = True"
| "is_dirty (DirtyTree _) = True"
| "is_dirty (DirtySymlink _) = True"
| "is_dirty _ = False"

fun is_dir :: "NodeRef \<Rightarrow> bool" where
  "is_dir (Tree _) = True"
| "is_dir (DirtyTree _) = True"
| "is_dir _ = False"

section \<open>Operations\<close>

definition slab_new :: "oid \<Rightarrow> slab" where
  "slab_new root_tree =
     \<lparr>next_id = ROOT_INODE + 1,
      inodes = [ROOT_INODE \<mapsto> \<lparr>parent = ROOT_INODE, iname = [], node = Tree root_tree, ignored = False\<rparr>],
      by_parent = Map.empty\<rparr>"

definition slab_get :: "slab \<Rightarrow> inode_id \<Rightarrow> inode option" where
  "slab_get sl i = inodes sl i"

definition replace_node :: "inode_id \<Rightarrow> NodeRef \<Rightarrow> slab \<Rightarrow> bool \<times> slab" where
  "replace_node i nd sl =
     (case inodes sl i of
        Some ino \<Rightarrow> (True, sl\<lparr>inodes := (inodes sl)(i \<mapsto> ino\<lparr>node := nd\<rparr>)\<rparr>)
      | None \<Rightarrow> (False, sl))"

definition swap_root :: "oid \<Rightarrow> slab \<Rightarrow> slab" where
  "swap_root new_root_tree sl =
     sl\<lparr>inodes := (inodes sl)(ROOT_INODE \<mapsto>
          \<lparr>parent = ROOT_INODE, iname = [], node = Tree new_root_tree, ignored = False\<rparr>),
        by_parent := (\<lambda>(p, n). if p \<noteq> ROOT_INODE then by_parent sl (p, n) else None)\<rparr>"

definition intern_child :: "inode_id \<Rightarrow> string \<Rightarrow> NodeRef \<Rightarrow> slab \<Rightarrow> inode_id \<times> slab" where
  "intern_child p n nd sl =
     (case by_parent sl (p, n) of
        Some i \<Rightarrow> (i, sl)
      | None \<Rightarrow>
          let i = next_id sl
          in (i, sl\<lparr>next_id := next_id sl + 1,
                    inodes := (inodes sl)(i \<mapsto> \<lparr>parent = p, iname = n, node = nd, ignored = False\<rparr>),
                    by_parent := (by_parent sl)((p, n) \<mapsto> i)\<rparr>))"

definition alloc_with_ignored :: "inode_id \<Rightarrow> string \<Rightarrow> NodeRef \<Rightarrow> bool \<Rightarrow> slab \<Rightarrow> inode_id \<times> slab" where
  "alloc_with_ignored p n nd ign sl =
     (let i = next_id sl
      in (i, sl\<lparr>next_id := next_id sl + 1,
                inodes := (inodes sl)(i \<mapsto> \<lparr>parent = p, iname = n, node = nd, ignored = ign\<rparr>)\<rparr>))"

definition alloc :: "inode_id \<Rightarrow> string \<Rightarrow> NodeRef \<Rightarrow> slab \<Rightarrow> inode_id \<times> slab" where
  "alloc p n nd sl = alloc_with_ignored p n nd False sl"

text \<open>The loop of \<^verbatim>\<open>materialize_dir_for_mutation\<close> over the entries of the stored tree.\<close>

fun materialize_entries ::
  "inode_id \<Rightarrow> (string \<times> NodeRef) list \<Rightarrow> (string, inode_id) btree \<Rightarrow> slab \<Rightarrow> (string, inode_id) btree \<times> slab" where
  "materialize_entries dir [] children sl = (children, sl)"
| "materialize_entries dir ((name, child_node) # es) children sl =
     (case by_parent sl (dir, name) of
        Some existing \<Rightarrow>
          materialize_entries dir es (bt_insert name existing children)
            (case inodes sl existing of
               Some c \<Rightarrow> if is_dirty (node c) then sl
                         else sl\<lparr>inodes := (inodes sl)(existing \<mapsto> c\<lparr>node := child_node\<rparr>)\<rparr>
             | None \<Rightarrow> sl)
      | None \<Rightarrow>
          let i = next_id sl
          in materialize_entries dir es (bt_insert name i children)
               (sl\<lparr>next_id := next_id sl + 1,
                   inodes := (inodes sl)(i \<mapsto>
                     \<lparr>parent = dir, iname = name, node = child_node, ignored = False\<rparr>),
                   by_parent := (by_parent sl)((dir, name) \<mapsto> i)\<rparr>))"

text \<open>
  \<open>entries\<close> is what the \<^verbatim>\<open>load_entries\<close> closure yields. The final \<^verbatim>\<open>insert\<close> rewrites the directory's inode
  from the copy taken before the loop.
\<close>

definition materialize_dir_for_mutation ::
  "inode_id \<Rightarrow> (string \<times> NodeRef) list \<Rightarrow> slab \<Rightarrow> (string, inode_id) btree option \<times> slab" where
  "materialize_dir_for_mutation dir entries sl =
     (case inodes sl dir of
        None \<Rightarrow> (None, sl)
      | Some ino \<Rightarrow>
          (case node ino of
             DirtyTree children \<Rightarrow> (Some children, sl)
           | Tree _ \<Rightarrow>
               (case materialize_entries dir entries [] sl of
                  (children, sl') \<Rightarrow>
                    (Some children,
                     sl'\<lparr>inodes := (inodes sl')(dir \<mapsto>
                        \<lparr>parent = parent ino, iname = iname ino, node = DirtyTree children,
                         ignored = ignored ino\<rparr>)\<rparr>))
           | _ \<Rightarrow> (None, sl)))"

definition attach_child :: "inode_id \<Rightarrow> string \<Rightarrow> inode_id \<Rightarrow> slab \<Rightarrow> bool \<times> slab" where
  "attach_child p n child sl =
     (case inodes sl p of
        None \<Rightarrow> (False, sl)
      | Some ino \<Rightarrow>
          (case node ino of
             DirtyTree children \<Rightarrow>
               if map_of children n \<noteq> None then (False, sl)
               else (True, sl\<lparr>inodes := (inodes sl)(p \<mapsto> ino\<lparr>node := DirtyTree (bt_insert n child children)\<rparr>),
                              by_parent := (by_parent sl)((p, n) \<mapsto> child)\<rparr>)
           | _ \<Rightarrow> (False, sl)))"

definition reparent :: "inode_id \<Rightarrow> inode_id \<Rightarrow> string \<Rightarrow> slab \<Rightarrow> bool \<times> slab" where
  "reparent child new_parent new_name sl =
     (case inodes sl child of
        Some ino \<Rightarrow>
          (True, sl\<lparr>inodes := (inodes sl)(child \<mapsto> ino\<lparr>parent := new_parent, iname := new_name\<rparr>)\<rparr>)
      | None \<Rightarrow> (False, sl))"

definition detach_child :: "inode_id \<Rightarrow> string \<Rightarrow> slab \<Rightarrow> inode_id option \<times> slab" where
  "detach_child p n sl =
     (case inodes sl p of
        None \<Rightarrow> (None, sl)
      | Some ino \<Rightarrow>
          (case node ino of
             DirtyTree children \<Rightarrow>
               (case map_of children n of
                  None \<Rightarrow> (None, sl)
                | Some child \<Rightarrow>
                    (Some child,
                     sl\<lparr>inodes := (inodes sl)(p \<mapsto> ino\<lparr>node := DirtyTree (bt_remove n children)\<rparr>),
                        by_parent := (by_parent sl)((p, n) := None)\<rparr>))
           | _ \<Rightarrow> (None, sl)))"

section \<open>Invariant\<close>

text \<open>
  \<open>slab_inv\<close>: the root is a directory and its own parent; ids lie below the counter; a reverse-map entry
  points at an inode that records exactly that parent and name; a modified directory's child map is
  an ordered map and agrees with the reverse map. So every inode is the child of at most one directory
  under one name.
\<close>

definition slab_inv :: "slab \<Rightarrow> bool" where
  "slab_inv sl \<longleftrightarrow>
     (\<exists>r. inodes sl ROOT_INODE = Some r \<and> parent r = ROOT_INODE \<and> is_dir (node r)) \<and>
     (\<forall>i ino. inodes sl i = Some ino \<longrightarrow> ROOT_INODE \<le> i \<and> i < next_id sl) \<and>
     (\<forall>p n c. by_parent sl (p, n) = Some c \<longrightarrow>
        c \<noteq> ROOT_INODE \<and> (\<exists>ino. inodes sl c = Some ino \<and> parent ino = p \<and> iname ino = n)) \<and>
     (\<forall>d ino cs. inodes sl d = Some ino \<longrightarrow> node ino = DirtyTree cs \<longrightarrow>
        bt_wf cs \<and> (\<forall>n c. map_of cs n = Some c \<longrightarrow> by_parent sl (d, n) = Some c))"

lemma slab_inv_root: "slab_inv sl \<Longrightarrow> \<exists>r. inodes sl ROOT_INODE = Some r \<and> parent r = ROOT_INODE \<and> is_dir (node r)"
  by (simp add: slab_inv_def)

lemma slab_inv_lt: "slab_inv sl \<Longrightarrow> inodes sl i = Some ino \<Longrightarrow> i < next_id sl"
  by (auto simp: slab_inv_def)

lemma slab_inv_next_fresh: "slab_inv sl \<Longrightarrow> inodes sl (next_id sl) = None"
  by (metis less_irrefl not_None_eq slab_inv_lt)

lemma slab_inv_next_not_root: "slab_inv sl \<Longrightarrow> next_id sl \<noteq> ROOT_INODE"
  using slab_inv_root slab_inv_next_fresh by (metis option.distinct(1))

lemma slab_inv_byp:
  "slab_inv sl \<Longrightarrow> by_parent sl (p, n) = Some c \<Longrightarrow>
   c \<noteq> ROOT_INODE \<and> (\<exists>ino. inodes sl c = Some ino \<and> parent ino = p \<and> iname ino = n)"
  unfolding slab_inv_def by blast

lemma slab_inv_kids:
  "slab_inv sl \<Longrightarrow> inodes sl d = Some ino \<Longrightarrow> node ino = DirtyTree cs \<Longrightarrow>
   bt_wf cs \<and> (\<forall>n c. map_of cs n = Some c \<longrightarrow> by_parent sl (d, n) = Some c)"
  unfolding slab_inv_def by blast

lemma slab_inv_child:
  assumes "slab_inv sl" "inodes sl d = Some ino" "node ino = DirtyTree cs" "map_of cs n = Some c"
  shows "c \<noteq> ROOT_INODE \<and> (\<exists>k. inodes sl c = Some k \<and> parent k = d \<and> iname k = n)"
  using slab_inv_kids [OF assms(1-3)] assms(4) slab_inv_byp [OF assms(1)] by blast

lemma slab_invI:
  assumes "\<exists>r. inodes sl ROOT_INODE = Some r \<and> parent r = ROOT_INODE \<and> is_dir (node r)"
    and "\<And>i ino. inodes sl i = Some ino \<Longrightarrow> ROOT_INODE \<le> i \<and> i < next_id sl"
    and "\<And>p n c. by_parent sl (p, n) = Some c \<Longrightarrow>
          c \<noteq> ROOT_INODE \<and> (\<exists>ino. inodes sl c = Some ino \<and> parent ino = p \<and> iname ino = n)"
    and "\<And>d ino cs. inodes sl d = Some ino \<Longrightarrow> node ino = DirtyTree cs \<Longrightarrow>
          bt_wf cs \<and> (\<forall>n c. map_of cs n = Some c \<longrightarrow> by_parent sl (d, n) = Some c)"
  shows "slab_inv sl"
  using assms unfolding slab_inv_def by blast

text \<open>What every operation keeps of the past: the counter does not go back and no inode is dropped.\<close>

definition slab_grows :: "slab \<Rightarrow> slab \<Rightarrow> bool" where
  "slab_grows sl sl' \<longleftrightarrow> next_id sl \<le> next_id sl' \<and> dom (inodes sl) \<subseteq> dom (inodes sl') \<and>
     (\<forall>i. inodes sl i = None \<longrightarrow> inodes sl' i \<noteq> None \<longrightarrow> next_id sl \<le> i)"

lemma slab_grows_refl [simp, intro]: "slab_grows sl sl"
  by (simp add: slab_grows_def)

lemma slab_grows_trans [trans]: "slab_grows a b \<Longrightarrow> slab_grows b c \<Longrightarrow> slab_grows a c"
  unfolding slab_grows_def by (meson dual_order.trans le_trans)

section \<open>Every operation keeps the invariant\<close>

lemma slab_new_inv: "slab_inv (slab_new t)"
  by (rule slab_invI) (auto simp: slab_new_def split: if_splits)

lemma slab_inv_set_node:
  assumes inv: "slab_inv sl" and ino: "inodes sl i = Some ino"
    and root: "i = ROOT_INODE \<Longrightarrow> is_dir nd"
    and kids: "\<And>cs. nd = DirtyTree cs \<Longrightarrow> bt_wf cs \<and> (\<forall>n c. map_of cs n = Some c \<longrightarrow> by_parent sl (i, n) = Some c)"
  shows "slab_inv (sl\<lparr>inodes := (inodes sl)(i \<mapsto> ino\<lparr>node := nd\<rparr>)\<rparr>)"
proof (rule slab_invI, goal_cases)
  case 1
  then show ?case using slab_inv_root [OF inv] ino root by auto
next
  case (2 j jn)
  then show ?case using inv ino by (auto simp: slab_inv_def split: if_splits)
next
  case (3 p n c)
  then show ?case using slab_inv_byp [OF inv, of p n c] ino by auto
next
  case (4 d dn cs)
  then show ?case using slab_inv_kids [OF inv] kids by (auto split: if_splits)
qed

lemma replace_node_inv:
  assumes "slab_inv sl" and "i = ROOT_INODE \<Longrightarrow> is_dir nd"
    and "\<And>cs. nd = DirtyTree cs \<Longrightarrow> bt_wf cs \<and> (\<forall>n c. map_of cs n = Some c \<longrightarrow> by_parent sl (i, n) = Some c)"
  shows "slab_inv (snd (replace_node i nd sl))"
  using slab_inv_set_node [OF assms(1) _ assms(2,3)] assms(1)
  by (auto simp: replace_node_def split: option.splits)

lemma swap_root_inv:
  assumes inv: "slab_inv sl" shows "slab_inv (swap_root t sl)"
proof (rule slab_invI, goal_cases)
  case 1
  then show ?case by (simp add: swap_root_def)
next
  case (2 i ino)
  then show ?case
    using inv slab_inv_root [OF inv] slab_inv_lt [OF inv] by (auto simp: swap_root_def slab_inv_def split: if_splits)
next
  case (3 p n c)
  then show ?case using slab_inv_byp [OF inv, of p n c] by (auto simp: swap_root_def split: if_splits)
next
  case (4 d ino cs)
  then have "d \<noteq> ROOT_INODE" and d: "inodes sl d = Some ino" by (auto simp: swap_root_def split: if_splits)
  then show ?case using slab_inv_kids [OF inv d 4(2)] by (simp add: swap_root_def)
qed

text \<open>
  The common core of \<open>intern_child\<close>, \<open>alloc\<close> and the fresh branch of \<open>materialize_entries\<close>: a new inode,
  with or without its reverse-map entry.
\<close>

lemma slab_inv_fresh:
  assumes inv: "slab_inv sl" and nd: "\<And>cs. nd = DirtyTree cs \<Longrightarrow> cs = []"
    and bp: "bp = by_parent sl \<or> (by_parent sl (p, n) = None \<and> bp = (by_parent sl)((p, n) \<mapsto> next_id sl))"
  shows "slab_inv (sl\<lparr>next_id := next_id sl + 1,
      inodes := (inodes sl)(next_id sl \<mapsto> \<lparr>parent = p, iname = n, node = nd, ignored = ign\<rparr>),
      by_parent := bp\<rparr>)"
proof (rule slab_invI, goal_cases)
  case 1
  then show ?case using slab_inv_root [OF inv] slab_inv_next_not_root [OF inv] by auto
next
  case (2 i ino)
  have "ROOT_INODE \<le> next_id sl" using slab_inv_root [OF inv] slab_inv_lt [OF inv] by (metis less_imp_le)
  then show ?case using 2 inv by (auto simp: slab_inv_def split: if_splits intro: less_SucI)
next
  case (3 p' n' c)
  show ?case
  proof (cases "by_parent sl (p', n') = Some c")
    case True
    then show ?thesis using slab_inv_byp [OF inv True] slab_inv_next_fresh [OF inv] by auto
  next
    case False
    then show ?thesis using 3 bp slab_inv_next_not_root [OF inv] by (auto split: if_splits)
  qed
next
  case (4 d ino cs)
  show ?case
  proof (cases "d = next_id sl")
    case True
    then show ?thesis using 4 nd by auto
  next
    case False
    then have "bt_wf cs \<and> (\<forall>n c. map_of cs n = Some c \<longrightarrow> by_parent sl (d, n) = Some c)"
      using 4 slab_inv_kids [OF inv] by auto
    then show ?thesis using bp by auto
  qed
qed

lemma intern_child_inv:
  assumes "slab_inv sl" "\<And>cs. nd = DirtyTree cs \<Longrightarrow> cs = []"
  shows "slab_inv (snd (intern_child p n nd sl))"
  using slab_inv_fresh [OF assms, where bp = "(by_parent sl)((p, n) \<mapsto> next_id sl)"] assms(1)
  by (auto simp: intern_child_def Let_def split: option.splits)

lemma alloc_with_ignored_inv:
  assumes "slab_inv sl" "\<And>cs. nd = DirtyTree cs \<Longrightarrow> cs = []"
  shows "slab_inv (snd (alloc_with_ignored p n nd ign sl))"
proof -
  have "slab_inv (sl\<lparr>next_id := next_id sl + 1,
      inodes := (inodes sl)(next_id sl \<mapsto> \<lparr>parent = p, iname = n, node = nd, ignored = ign\<rparr>),
      by_parent := by_parent sl\<rparr>)"
    using assms by (intro slab_inv_fresh) auto
  then show ?thesis by (simp add: alloc_with_ignored_def Let_def)
qed

lemma attach_child_inv:
  assumes inv: "slab_inv sl" and ok: "attach_child p n c sl = (True, sl')"
    and child: "inodes sl c = Some k" "parent k = p" "iname k = n" "c \<noteq> ROOT_INODE"
  shows "slab_inv sl'"
proof -
  obtain ino cs where p: "inodes sl p = Some ino" "node ino = DirtyTree cs" "map_of cs n = None"
    and sl': "sl' = sl\<lparr>inodes := (inodes sl)(p \<mapsto> ino\<lparr>node := DirtyTree (bt_insert n c cs)\<rparr>),
                       by_parent := (by_parent sl)((p, n) \<mapsto> c)\<rparr>"
    using ok by (auto simp: attach_child_def split: option.splits NodeRef.splits if_splits)
  have kp: "bt_wf cs \<and> (\<forall>n c. map_of cs n = Some c \<longrightarrow> by_parent sl (p, n) = Some c)"
    using slab_inv_kids [OF inv p(1,2)] .
  show ?thesis
  proof (rule slab_invI, goal_cases)
    case 1
    then show ?case using slab_inv_root [OF inv] p by (auto simp: sl')
  next
    case (2 i i')
    then show ?case using inv p by (auto simp: sl' slab_inv_def split: if_splits)
  next
    case (3 p' n' c')
    show ?case
    proof (cases "(p', n') = (p, n)")
      case True
      then show ?thesis using 3 child p by (auto simp: sl')
    next
      case False
      then have "by_parent sl (p', n') = Some c'" using 3 by (auto simp: sl' split: if_splits)
      from slab_inv_byp [OF inv this] show ?thesis using p by (auto simp: sl')
    qed
  next
    case (4 d dn ds)
    show ?case
    proof (cases "d = p")
      case True
      then have "ds = bt_insert n c cs" using 4 by (auto simp: sl')
      then show ?thesis using True kp by (simp add: sl')
    next
      case False
      then show ?thesis using 4 slab_inv_kids [OF inv] by (auto simp: sl')
    qed
  qed
qed

lemma detach_child_inv:
  assumes inv: "slab_inv sl" shows "slab_inv (snd (detach_child p n sl))"
proof (cases "fst (detach_child p n sl)")
  case None
  then have "snd (detach_child p n sl) = sl"
    by (auto simp: detach_child_def split: option.splits NodeRef.splits)
  then show ?thesis using inv by simp
next
  case (Some c)
  then obtain ino cs where p: "inodes sl p = Some ino" "node ino = DirtyTree cs" "map_of cs n = Some c"
    and sl': "snd (detach_child p n sl) = sl\<lparr>inodes := (inodes sl)(p \<mapsto> ino\<lparr>node := DirtyTree (bt_remove n cs)\<rparr>),
                       by_parent := (by_parent sl)((p, n) := None)\<rparr>"
    by (auto simp: detach_child_def split: option.splits NodeRef.splits)
  have kp: "bt_wf cs \<and> (\<forall>n c. map_of cs n = Some c \<longrightarrow> by_parent sl (p, n) = Some c)"
    using slab_inv_kids [OF inv p(1,2)] .
  show ?thesis unfolding sl'
  proof (rule slab_invI, goal_cases)
    case 1
    then show ?case using slab_inv_root [OF inv] p by auto
  next
    case (2 i i')
    then show ?case using inv p by (auto simp: slab_inv_def split: if_splits)
  next
    case (3 p' n' c')
    then have "by_parent sl (p', n') = Some c'" by (auto split: if_splits)
    from slab_inv_byp [OF inv this] show ?case using p by auto
  next
    case (4 d dn ds)
    then show ?case using slab_inv_kids [OF inv, of d] kp by (auto split: if_splits)
  qed
qed

section \<open>Materializing a directory\<close>

text \<open>
  What \<open>materialize_entries\<close> may change of an inode that was there before: the node, and that only when
  the node is clean. Parent, name and the ignored flag stay, and dirty nodes stay whatever they hold.
\<close>

definition nodes_refreshed :: "slab \<Rightarrow> slab \<Rightarrow> bool" where
  "nodes_refreshed sl sl' \<longleftrightarrow>
     (\<forall>i ino. inodes sl i = Some ino \<longrightarrow>
        (\<exists>nd. inodes sl' i = Some (ino\<lparr>node := nd\<rparr>) \<and> (is_dirty (node ino) \<longrightarrow> nd = node ino)))"

lemma node_unchanged [simp]: "\<exists>nd. ino = ino\<lparr>node := nd\<rparr> \<and> (is_dirty (node ino) \<longrightarrow> nd = node ino)" for ino :: inode
  by (rule exI [of _ "node ino"]) simp

lemma nodes_refreshed_refl [simp, intro]: "nodes_refreshed sl sl"
  by (simp add: nodes_refreshed_def)

lemma nodes_refreshed_trans [trans]:
  assumes "nodes_refreshed a b" and "nodes_refreshed b c" shows "nodes_refreshed a c"
  unfolding nodes_refreshed_def
proof (intro allI impI)
  fix i ino assume "inodes a i = Some ino"
  with assms(1) obtain nd where b: "inodes b i = Some (ino\<lparr>node := nd\<rparr>)" "is_dirty (node ino) \<longrightarrow> nd = node ino"
    unfolding nodes_refreshed_def by blast
  with assms(2) obtain nd' where "inodes c i = Some (ino\<lparr>node := nd\<rparr>\<lparr>node := nd'\<rparr>)" "is_dirty nd \<longrightarrow> nd' = nd"
    unfolding nodes_refreshed_def by force
  with b show "\<exists>nd. inodes c i = Some (ino\<lparr>node := nd\<rparr>) \<and> (is_dirty (node ino) \<longrightarrow> nd = node ino)"
    by auto
qed

text \<open>One step of the loop: the existing child is refreshed, or a new one is allocated.\<close>

definition refresh_child :: "inode_id \<Rightarrow> NodeRef \<Rightarrow> slab \<Rightarrow> slab" where
  "refresh_child i nd sl =
     (case inodes sl i of
        Some c \<Rightarrow> if is_dirty (node c) then sl else sl\<lparr>inodes := (inodes sl)(i \<mapsto> c\<lparr>node := nd\<rparr>)\<rparr>
      | None \<Rightarrow> sl)"

lemma materialize_entries_step:
  "materialize_entries dir ((n, nd) # es) children sl =
     (case by_parent sl (dir, n) of
        Some i \<Rightarrow> materialize_entries dir es (bt_insert n i children) (refresh_child i nd sl)
      | None \<Rightarrow> materialize_entries dir es (bt_insert n (next_id sl) children) (snd (intern_child dir n nd sl)))"
  by (simp add: refresh_child_def intern_child_def Let_def split: option.split)

lemma refresh_child_simps [simp]:
  "by_parent (refresh_child i nd sl) = by_parent sl"
  "next_id (refresh_child i nd sl) = next_id sl"
  by (simp_all add: refresh_child_def split: option.split)

lemma refresh_child_refreshed: "nodes_refreshed sl (refresh_child i nd sl)"
  unfolding nodes_refreshed_def refresh_child_def by (auto split: option.split)

lemma refresh_child_inv:
  assumes "slab_inv sl" "by_parent sl (p, n) = Some i" "\<not> is_dirty nd"
  shows "slab_inv (refresh_child i nd sl)"
  using assms slab_inv_byp [OF assms(1,2)]
  by (auto simp: refresh_child_def split: option.split intro!: slab_inv_set_node)

lemma slab_grows_of_refreshed:
  "nodes_refreshed sl sl' \<Longrightarrow> next_id sl \<le> next_id sl' \<Longrightarrow>
   (\<And>i. inodes sl i = None \<Longrightarrow> inodes sl' i \<noteq> None \<Longrightarrow> next_id sl \<le> i) \<Longrightarrow> slab_grows sl sl'"
  unfolding slab_grows_def nodes_refreshed_def by (auto simp: dom_def) (metis option.distinct(1))+

lemma refresh_child_grows: "slab_grows sl (refresh_child i nd sl)"
  by (rule slab_grows_of_refreshed [OF refresh_child_refreshed])
     (auto simp: refresh_child_def split: option.splits if_splits)

lemma intern_child_grows: "slab_inv sl \<Longrightarrow> slab_grows sl (snd (intern_child p n nd sl))"
  using slab_inv_next_fresh
  by (auto simp: slab_grows_def intern_child_def Let_def split: option.splits if_splits)

lemma intern_child_refreshed: "slab_inv sl \<Longrightarrow> nodes_refreshed sl (snd (intern_child p n nd sl))"
  using slab_inv_next_fresh unfolding nodes_refreshed_def
  by (auto simp: intern_child_def Let_def split: option.split)

lemma intern_child_by_parent: "by_parent (snd (intern_child p n nd sl)) (p, n) = Some (fst (intern_child p n nd sl))"
  by (simp add: intern_child_def Let_def split: option.split)

lemma intern_child_by_parent_mono:
  "by_parent sl k = Some c \<Longrightarrow> by_parent (snd (intern_child p n nd sl)) k = Some c"
  by (auto simp: intern_child_def Let_def split: option.split)

text \<open>The loop as a whole.\<close>

definition kids_agree :: "inode_id \<Rightarrow> (string, inode_id) btree \<Rightarrow> slab \<Rightarrow> bool" where
  "kids_agree dir children sl \<longleftrightarrow> bt_wf children \<and> (\<forall>n c. map_of children n = Some c \<longrightarrow> by_parent sl (dir, n) = Some c)"

lemma materialize_entries_spec:
  assumes "slab_inv sl" and "kids_agree dir children sl" and "\<forall>(n, nd) \<in> set es. \<not> is_dirty nd"
    and "materialize_entries dir es children sl = (children', sl')"
  shows "slab_inv sl' \<and> kids_agree dir children' sl' \<and> nodes_refreshed sl sl' \<and> slab_grows sl sl' \<and>
         fst ` set children' = fst ` set children \<union> fst ` set es \<and>
         (\<forall>k c. by_parent sl k = Some c \<longrightarrow> by_parent sl' k = Some c) \<and>
         (\<forall>i k. inodes sl i = None \<longrightarrow> inodes sl' i = Some k \<longrightarrow> parent k = dir)"
  using assms
proof (induction es arbitrary: children sl)
  case Nil
  then show ?case by auto
next
  case (Cons e es)
  obtain n nd where e: "e = (n, nd)" by (cases e)
  have clean: "\<not> is_dirty nd" and cleans: "\<forall>(n, nd) \<in> set es. \<not> is_dirty nd"
    using Cons.prems(3) by (auto simp: e)
  have nodirty: "nd = DirtyTree cs \<Longrightarrow> cs = []" for cs using clean by auto
  define i s1 where i: "i = (case by_parent sl (dir, n) of Some j \<Rightarrow> j | None \<Rightarrow> next_id sl)"
    and s1: "s1 = (case by_parent sl (dir, n) of Some j \<Rightarrow> refresh_child j nd sl
                   | None \<Rightarrow> snd (intern_child dir n nd sl))"
  have run: "materialize_entries dir es (bt_insert n i children) s1 = (children', sl')"
    using Cons.prems(4) unfolding e materialize_entries_step i s1 by (simp split: option.splits)
  have inv1: "slab_inv s1"
    using Cons.prems(1) clean nodirty refresh_child_inv intern_child_inv
    by (auto simp: s1 split: option.split)
  have bp1: "by_parent s1 (dir, n) = Some i" "\<And>k c. by_parent sl k = Some c \<Longrightarrow> by_parent s1 k = Some c"
    using intern_child_by_parent [of dir n nd sl] intern_child_by_parent_mono [of sl _ _ dir n nd]
    by (auto simp: s1 i intern_child_def Let_def split: option.splits)
  have kids1: "kids_agree dir (bt_insert n i children) s1"
    using Cons.prems(2) bp1 by (auto simp: kids_agree_def)
  have ref1: "nodes_refreshed sl s1" and gr1: "slab_grows sl s1"
    using refresh_child_refreshed intern_child_refreshed refresh_child_grows intern_child_grows Cons.prems(1)
    by (auto simp: s1 split: option.split)
  have new1: "\<forall>i k. inodes sl i = None \<longrightarrow> inodes s1 i = Some k \<longrightarrow> parent k = dir"
    by (auto simp: s1 refresh_child_def intern_child_def Let_def split: option.splits if_splits)
  note IH = Cons.IH [OF inv1 kids1 cleans run]
  have "\<forall>i k. inodes sl i = None \<longrightarrow> inodes sl' i = Some k \<longrightarrow> parent k = dir"
  proof (intro allI impI)
    fix j k assume j: "inodes sl j = None" "inodes sl' j = Some k"
    show "parent k = dir"
    proof (cases "inodes s1 j")
      case None
      then show ?thesis using IH j by blast
    next
      case (Some k1)
      then have "\<exists>nd. inodes sl' j = Some (k1\<lparr>node := nd\<rparr>)" using IH unfolding nodes_refreshed_def by blast
      then show ?thesis using new1 j Some by auto
    qed
  qed
  with IH bp1(2) nodes_refreshed_trans [OF ref1] slab_grows_trans [OF gr1]
  show ?case by (auto simp: e)
qed

lemma materialize_dir_dirty:
  "inodes sl dir = Some ino \<Longrightarrow> node ino = DirtyTree cs \<Longrightarrow>
   materialize_dir_for_mutation dir es sl = (Some cs, sl)"
  by (simp add: materialize_dir_for_mutation_def)

lemma materialize_dir_clean:
  assumes inv: "slab_inv sl" and dir: "inodes sl dir = Some ino" "node ino = Tree t"
    and clean: "\<forall>(n, nd) \<in> set es. \<not> is_dirty nd"
  obtains cs sl' where "materialize_dir_for_mutation dir es sl = (Some cs, sl')"
    and "slab_inv sl'" and "slab_grows sl sl'"
    and "inodes sl' dir = Some (ino\<lparr>node := DirtyTree cs\<rparr>)" and "fst ` set cs = fst ` set es"
    and "\<And>i k. i \<noteq> dir \<Longrightarrow> inodes sl i = Some k \<Longrightarrow>
           \<exists>nd. inodes sl' i = Some (k\<lparr>node := nd\<rparr>) \<and> (is_dirty (node k) \<longrightarrow> nd = node k)"
    and "\<And>k c. by_parent sl k = Some c \<Longrightarrow> by_parent sl' k = Some c"
    and "\<And>i k. inodes sl i = None \<Longrightarrow> inodes sl' i = Some k \<Longrightarrow> parent k = dir"
proof -
  obtain cs s1 where run: "materialize_entries dir es [] sl = (cs, s1)" by fastforce
  have "kids_agree dir [] sl" by (simp add: kids_agree_def)
  note spec = materialize_entries_spec [OF inv this clean run]
  obtain nd where s1dir: "inodes s1 dir = Some (ino\<lparr>node := nd\<rparr>)"
    using spec dir(1) unfolding nodes_refreshed_def by blast
  define sl' where "sl' = s1\<lparr>inodes := (inodes s1)(dir \<mapsto> ino\<lparr>node := nd\<rparr>\<lparr>node := DirtyTree cs\<rparr>)\<rparr>"
  have eq: "materialize_dir_for_mutation dir es sl = (Some cs, sl')"
    by (simp add: materialize_dir_for_mutation_def dir run sl'_def) (cases ino, simp)
  have inv': "slab_inv sl'"
    unfolding sl'_def using spec s1dir by (intro slab_inv_set_node) (auto simp: kids_agree_def)
  have grows: "slab_grows sl sl'"
    using spec dir(1) by (auto simp: slab_grows_def sl'_def split: if_splits)
  have others: "\<exists>nd. inodes sl' i = Some (k\<lparr>node := nd\<rparr>) \<and> (is_dirty (node k) \<longrightarrow> nd = node k)"
    if "i \<noteq> dir" "inodes sl i = Some k" for i k
    using spec that unfolding nodes_refreshed_def by (simp add: sl'_def)
  show thesis
    by (rule that [OF eq inv' grows]) (use spec others dir in \<open>auto simp: sl'_def split: if_splits\<close>)
qed

section \<open>Parent pointers lead to the root\<close>

text \<open>
  \<open>rooted\<close>: following parent pointers from any inode ends at the root. The ancestor walks of the
  filesystem return because of it; every operation keeps it, except that a rename must not move a
  directory below itself.
\<close>

definition anchored :: "slab \<Rightarrow> (inode_id \<Rightarrow> nat) \<Rightarrow> bool" where
  "anchored sl rank \<longleftrightarrow>
     (\<forall>i ino. inodes sl i = Some ino \<longrightarrow> i \<noteq> ROOT_INODE \<longrightarrow>
        inodes sl (parent ino) \<noteq> None \<and> rank (parent ino) < rank i)"

definition rooted :: "slab \<Rightarrow> bool" where
  "rooted sl \<longleftrightarrow> (\<exists>rank. anchored sl rank)"

lemma rooted_new: "rooted (slab_new t)"
  unfolding rooted_def anchored_def by (rule exI [of _ "\<lambda>_. 0"]) (auto simp: slab_new_def)

lemma rooted_extend:
  assumes "rooted sl"
    and old: "\<And>i k. inodes sl i = Some k \<Longrightarrow> \<exists>k'. inodes sl' i = Some k' \<and> parent k' = parent k"
    and new: "\<And>i k. inodes sl i = None \<Longrightarrow> inodes sl' i = Some k \<Longrightarrow> inodes sl (parent k) \<noteq> None"
  shows "rooted sl'"
proof -
  obtain rank where r: "anchored sl rank" using assms(1) by (auto simp: rooted_def)
  define rank' where "rank' i = (if inodes sl i = None then Suc (rank (parent (the (inodes sl' i)))) else rank i)" for i
  have "anchored sl' rank'"
    unfolding anchored_def
  proof (intro allI impI)
    fix i k assume i: "inodes sl' i = Some k" "i \<noteq> ROOT_INODE"
    show "inodes sl' (parent k) \<noteq> None \<and> rank' (parent k) < rank' i"
    proof (cases "inodes sl i")
      case None
      then have "inodes sl (parent k) \<noteq> None" using new i by blast
      then show ?thesis using None i old by (fastforce simp: rank'_def)
    next
      case (Some k0)
      then have "parent k = parent k0" using old i by force
      moreover have "inodes sl (parent k0) \<noteq> None" "rank (parent k0) < rank i"
        using r Some i unfolding anchored_def by auto
      ultimately show ?thesis using Some old by (fastforce simp: rank'_def)
    qed
  qed
  then show ?thesis by (auto simp: rooted_def)
qed

text \<open>\<open>below sl a i\<close>: the inode \<open>a\<close> is \<open>i\<close> or one of its ancestors.\<close>

inductive below :: "slab \<Rightarrow> inode_id \<Rightarrow> inode_id \<Rightarrow> bool" for sl a where
  below_refl: "below sl a a"
| below_step: "inodes sl i = Some ino \<Longrightarrow> i \<noteq> ROOT_INODE \<Longrightarrow> below sl a (parent ino) \<Longrightarrow> below sl a i"

inductive_simps below_iff: "below sl a i"

lemma rooted_reparent:
  assumes "rooted sl" and src: "inodes sl src = Some k" and np: "inodes sl np \<noteq> None"
    and nocycle: "\<not> below sl src np"
  shows "rooted (sl\<lparr>inodes := (inodes sl)(src \<mapsto> k\<lparr>parent := np, iname := nm\<rparr>)\<rparr>)"
proof -
  obtain rank where r: "anchored sl rank" using assms(1) by (auto simp: rooted_def)
  define rank' where "rank' i = (if below sl src i then rank i + Suc (rank np) else rank i)" for i
  have "anchored (sl\<lparr>inodes := (inodes sl)(src \<mapsto> k\<lparr>parent := np, iname := nm\<rparr>)\<rparr>) rank'"
    unfolding anchored_def
  proof (intro allI impI)
    fix i ino
    assume i: "inodes (sl\<lparr>inodes := (inodes sl)(src \<mapsto> k\<lparr>parent := np, iname := nm\<rparr>)\<rparr>) i = Some ino" "i \<noteq> ROOT_INODE"
    show "inodes (sl\<lparr>inodes := (inodes sl)(src \<mapsto> k\<lparr>parent := np, iname := nm\<rparr>)\<rparr>) (parent ino) \<noteq> None \<and>
          rank' (parent ino) < rank' i"
    proof (cases "i = src")
      case True
      then show ?thesis using i np nocycle below_refl [of sl src] by (auto simp: rank'_def)
    next
      case False
      then have ino: "inodes sl i = Some ino" using i by simp
      then have p: "inodes sl (parent ino) \<noteq> None" "rank (parent ino) < rank i"
        using r i unfolding anchored_def by auto
      have "below sl src i \<longleftrightarrow> below sl src (parent ino)"
        using False ino i(2) by (auto simp: below_iff [of sl src i])
      then show ?thesis using p by (auto simp: rank'_def)
    qed
  qed
  then show ?thesis by (auto simp: rooted_def)
qed

text \<open>The rank can be taken as the number of ancestors, which the id counter bounds.\<close>

lemma below_rank: "below sl a i \<Longrightarrow> anchored sl rank \<Longrightarrow> a \<noteq> i \<Longrightarrow> rank a < rank i"
proof (induction rule: below.induct)
  case below_refl
  then show ?case by simp
next
  case (below_step i ino)
  then have "rank (parent ino) < rank i" by (auto simp: anchored_def)
  then show ?case using below_step by (cases "a = parent ino") auto
qed

lemma below_dom: "below sl a i \<Longrightarrow> rooted sl \<Longrightarrow> inodes sl i \<noteq> None \<Longrightarrow> inodes sl a \<noteq> None"
  by (induction rule: below.induct) (auto simp: rooted_def anchored_def)

lemma rooted_bounded:
  assumes inv: "slab_inv sl" and rt: "rooted sl"
  shows "\<exists>rank. anchored sl rank \<and> (\<forall>i. inodes sl i \<noteq> None \<longrightarrow> rank i < next_id sl)"
proof -
  define A where "A i = {a. below sl a i}" for i
  obtain rank where r: "anchored sl rank" using rt by (auto simp: rooted_def)
  have sub: "A i \<subseteq> {0<..<next_id sl}" if "inodes sl i \<noteq> None" for i
  proof
    fix a assume "a \<in> A i"
    then have "inodes sl a \<noteq> None" using below_dom [OF _ rt that] by (simp add: A_def)
    then show "a \<in> {0<..<next_id sl}" using inv by (auto simp: slab_inv_def ROOT_INODE_def Suc_le_eq)
  qed
  have bound: "card (A i) < next_id sl" if "inodes sl i \<noteq> None" for i
  proof -
    have "card (A i) \<le> card {0<..<next_id sl}" using sub [OF that] by (intro card_mono) auto
    moreover have "0 < next_id sl" using slab_inv_root [OF inv] slab_inv_lt [OF inv] by fastforce
    ultimately show ?thesis by simp
  qed
  have "anchored sl (\<lambda>i. card (A i))"
    unfolding anchored_def
  proof (intro allI impI)
    fix i ino assume i: "inodes sl i = Some ino" "i \<noteq> ROOT_INODE"
    then have p: "inodes sl (parent ino) \<noteq> None" "rank (parent ino) < rank i"
      using r unfolding anchored_def by auto
    have "A i = insert i (A (parent ino))"
      using i by (auto simp: A_def below_iff [of sl _ i] intro: below_refl)
    moreover have "i \<notin> A (parent ino)"
      using below_rank [OF _ r, of i "parent ino"] p by (auto simp: A_def)
    moreover have "finite (A (parent ino))"
      using sub [OF p(1)] finite_subset by blast
    ultimately show "inodes sl (parent ino) \<noteq> None \<and> card (A (parent ino)) < card (A i)"
      using p by simp
  qed
  with bound show ?thesis by blast
qed

section \<open>Ids are never reused\<close>

lemma replace_node_grows: "slab_grows sl (snd (replace_node i nd sl))"
  by (auto simp: slab_grows_def replace_node_def split: option.splits)

lemma swap_root_grows: "slab_inv sl \<Longrightarrow> slab_grows sl (swap_root t sl)"
  using slab_inv_root by (fastforce simp: slab_grows_def swap_root_def)

lemma alloc_with_ignored_grows: "slab_inv sl \<Longrightarrow> slab_grows sl (snd (alloc_with_ignored p n nd ign sl))"
  using slab_inv_next_fresh by (auto simp: slab_grows_def alloc_with_ignored_def Let_def)

lemma attach_child_grows: "slab_grows sl (snd (attach_child p n c sl))"
  by (auto simp: slab_grows_def attach_child_def split: option.splits NodeRef.splits)

lemma detach_child_grows: "slab_grows sl (snd (detach_child p n sl))"
  by (auto simp: slab_grows_def detach_child_def split: option.splits NodeRef.splits)

lemma reparent_grows: "slab_grows sl (snd (reparent c p n sl))"
  by (auto simp: slab_grows_def reparent_def split: option.splits)

lemmas slab_op_grows = replace_node_grows swap_root_grows alloc_with_ignored_grows attach_child_grows
  detach_child_grows reparent_grows intern_child_grows

end
