(* ===== verification/Kiki_Fs.thy ===== *)
theory Kiki_Fs
  imports Fetch Inode_Slab
begin

text \<open>
  \<^verbatim>\<open>src/daemon/src/vfs/kiki_fs.rs\<close>: the filesystem of one mounted workspace. Every method of the trait
  \<^verbatim>\<open>JjKikiFs\<close> and every helper is a computation over \<open>kiki_fs\<close>, one call after the other; the state is
  returned on the error branches too. \<^verbatim>\<open>buggify!\<close> is off outside fault-injection builds.

  Code that is not in the sources enters as fields: the gitignore matcher of jj-lib (\<open>ignore_rules\<close> is its
  \<^verbatim>\<open>matches\<close>, \<open>gitignore_chain\<close> parses a file, \<open>None\<close> when it is rejected) and the creation of a scratch
  directory on the host (\<open>create_dir_all\<close>).

  Two kinds of loop follow parent pointers, and \<^verbatim>\<open>snapshot_node\<close> recurses through child maps. They have
  fuel, and run out of it with the outcome \<open>Diverge\<close>. A walk over parent pointers that visits more
  inodes than there are ids visits one twice, so the fuel \<open>next_id\<close> decides exactly whether it ends.
\<close>

section \<open>State\<close>

definition JJ_DIR :: string where "JJ_DIR = ''.jj''"
definition GIT_FILE :: string where "GIT_FILE = ''.git''"
definition GITIGNORE_FILE :: string where "GITIGNORE_FILE = ''.gitignore''"
definition KIKI_REDIRECTIONS_FILE :: string where "KIKI_REDIRECTIONS_FILE = ''.kiki-redirections''"

lemmas name_consts = JJ_DIR_def GIT_FILE_def GITIGNORE_FILE_def KIKI_REDIRECTIONS_FILE_def

datatype FileKind = Regular | Directory | SymlinkKind

record Attr =
  attr_inode :: inode_id
  attr_kind :: FileKind
  attr_size :: nat
  attr_executable :: bool
  attr_mtime_secs :: int

record DirEntry =
  de_inode :: inode_id
  de_name :: string
  de_kind :: FileKind

datatype FsError =
    NotFound | NotADirectory | NotAFile | NotASymlink | AlreadyExists | NotEmpty
  | PermissionDenied | CrossDevice | StoreMiss | StoreError string

record 'g kiki_fs =
  store :: "'g git_store"
  remote :: "get_blob option"
  fs_slab :: slab
  jj_subtree :: "inode_id option"
  git_file :: inode_id
  git_file_content :: bytes
  ignore_rules :: "string \<Rightarrow> bool"
  redirections :: "string list"
  scratch_dir :: "string option"
  commit_mtime :: int
  gitignore_chain :: "bytes \<Rightarrow> (string \<Rightarrow> bool) option"
  create_dir_all :: "string \<Rightarrow> string + unit"

type_synonym ('g, 'a) fs_op = "('g kiki_fs, FsError, 'a) comp"

text \<open>Slab operations, and the lookup every method starts with.\<close>

definition on_slab :: "(slab \<Rightarrow> 'a \<times> slab) \<Rightarrow> ('g, 'a) fs_op" where
  "on_slab f = (\<lambda>fs. case f (fs_slab fs) of (a, sl) \<Rightarrow> (Ok a, fs\<lparr>fs_slab := sl\<rparr>))"

definition get_inode :: "inode_id \<Rightarrow> ('g, inode) fs_op" where
  "get_inode i = fetch_or (\<lambda>fs. slab_get (fs_slab fs) i) NotFound"

section \<open>Errors\<close>

fun fetch_error_display :: "FetchError \<Rightarrow> string" where
  "fetch_error_display (FetchNotFound k i) = ''remote does not have '' @ as_str k @ '' '' @ i"
| "fetch_error_display (DataLoss k requested got) =
     ''remote returned '' @ as_str k @ '' bytes that hash to '' @ got @ '' but we asked for '' @ requested"
| "fetch_error_display (LocalWrite k src) = ''local cache write ('' @ as_str k @ ''): '' @ src"
| "fetch_error_display (Remote k src) = ''remote get_blob ('' @ as_str k @ ''): '' @ src"

fun fetch_err :: "FetchError \<Rightarrow> FsError" where
  "fetch_err (FetchNotFound k i) = StoreMiss"
| "fetch_err (DataLoss k a b) = StoreError (fetch_error_display (DataLoss k a b))"
| "fetch_err (LocalWrite k s) = StoreError (fetch_error_display (LocalWrite k s))"
| "fetch_err (Remote k s) = StoreError (fetch_error_display (Remote k s))"

section \<open>Ignore rules and redirections\<close>

definition first_file_named :: "'g git_store \<Rightarrow> string \<Rightarrow> GitTreeEntry list \<Rightarrow> bytes option" where
  "first_file_named st nm es =
     (case [c. e \<leftarrow> es, ename e = nm, (case ekind e of EFile _ \<Rightarrow> True | _ \<Rightarrow> False), length (eid e) = 20,
              c \<leftarrow> (case git_read_file st (eid e) of Inr (Some c) \<Rightarrow> [c] | _ \<Rightarrow> [])] of
        [] \<Rightarrow> None
      | c # _ \<Rightarrow> Some c)"

definition load_gitignore_from_store ::
  "(bytes \<Rightarrow> (string \<Rightarrow> bool) option) \<Rightarrow> 'g git_store \<Rightarrow> oid \<Rightarrow> (string \<Rightarrow> bool)" where
  "load_gitignore_from_store chain st tree_id =
     (case git_read_tree st tree_id of
        Inr (Some t) \<Rightarrow>
          (case first_file_named st GITIGNORE_FILE t of
             Some content \<Rightarrow> (case chain content of Some rules \<Rightarrow> rules | None \<Rightarrow> (\<lambda>_. False))
           | None \<Rightarrow> (\<lambda>_. False))
      | _ \<Rightarrow> (\<lambda>_. False))"

definition parse_redirections :: "bytes \<Rightarrow> string list" where
  "parse_redirections content =
     map (trim_end_matches (CHR ''/''))
       (filter (\<lambda>l. l \<noteq> [] \<and> \<not> starts_with ''#'' l)
          (map trim (str_lines (from_utf8_lossy content))))"

definition load_redirections_from_store :: "'g git_store \<Rightarrow> oid \<Rightarrow> string list" where
  "load_redirections_from_store st tree_id =
     (case git_read_tree st tree_id of
        Inr (Some t) \<Rightarrow>
          (case first_file_named st KIKI_REDIRECTIONS_FILE t of
             Some content \<Rightarrow> parse_redirections content
           | None \<Rightarrow> [])
      | _ \<Rightarrow> [])"

definition reload_rules :: "string \<Rightarrow> bytes \<Rightarrow> 'g kiki_fs \<Rightarrow> 'g kiki_fs" where
  "reload_rules file_name content fs =
     (if file_name = GITIGNORE_FILE
      then fs\<lparr>ignore_rules := (case gitignore_chain fs content of Some rules \<Rightarrow> rules | None \<Rightarrow> (\<lambda>_. False))\<rparr>
      else if file_name = KIKI_REDIRECTIONS_FILE
      then fs\<lparr>redirections := parse_redirections content\<rparr>
      else fs)"

text \<open>
  \<open>display\<close> renders the path as Rust does, replacing what is not UTF-8. \<open>repo_path\<close> is
  \<^verbatim>\<open>store.git_repo_path()\<close>.
\<close>

definition kiki_fs_new ::
  "'g git_store \<Rightarrow> string \<Rightarrow> oid \<Rightarrow> get_blob option \<Rightarrow> string option \<Rightarrow> string option \<Rightarrow> int \<Rightarrow>
   (bytes \<Rightarrow> (string \<Rightarrow> bool) option) \<Rightarrow> (string \<Rightarrow> string + unit) \<Rightarrow> 'g kiki_fs" where
  "kiki_fs_new st repo_path root_tree_id rem scratch worktree_gitdir mtime chain mkdirs =
     (let gitdir_target = (case worktree_gitdir of Some w \<Rightarrow> w | None \<Rightarrow> repo_path);
          content = ''gitdir: '' @ from_utf8_lossy gitdir_target @ [CHR 0x0A];
          (gf, sl) = alloc ROOT_INODE GIT_FILE (DirtyFile content False) (slab_new root_tree_id)
      in \<lparr>store = st, remote = rem, fs_slab = sl, jj_subtree = None, git_file = gf,
          git_file_content = content,
          ignore_rules = load_gitignore_from_store chain st root_tree_id,
          redirections = load_redirections_from_store st root_tree_id,
          scratch_dir = scratch, commit_mtime = mtime, gitignore_chain = chain, create_dir_all = mkdirs\<rparr>)"

text \<open>The loop of \<^verbatim>\<open>repo_path_str\<close>; the components are collected in path order.\<close>

fun repo_path_loop :: "nat \<Rightarrow> slab \<Rightarrow> inode_id \<Rightarrow> string list \<Rightarrow> string list option" where
  "repo_path_loop 0 sl current components = None"
| "repo_path_loop (Suc fuel) sl current components =
     (if current = ROOT_INODE then Some components
      else (case slab_get sl current of
          None \<Rightarrow> Some components
        | Some ino \<Rightarrow>
            if parent ino = current then Some components
            else repo_path_loop fuel sl (parent ino) (iname ino # components)))"

fun join_path :: "string list \<Rightarrow> string" where
  "join_path [] = []"
| "join_path [c] = c"
| "join_path (c # cs) = c @ ''/'' @ join_path cs"

definition repo_path_str :: "inode_id \<Rightarrow> string \<Rightarrow> ('g, string) fs_op" where
  "repo_path_str p n = (\<lambda>fs.
     case repo_path_loop (Suc (next_id (fs_slab fs))) (fs_slab fs) p [n] of
       None \<Rightarrow> (Diverge, fs)
     | Some cs \<Rightarrow> (Ok (join_path cs), fs))"

definition is_ignored :: "inode_id \<Rightarrow> string \<Rightarrow> bool \<Rightarrow> ('g, bool) fs_op" where
  "is_ignored p n dir =
     seq (reads (\<lambda>fs. case slab_get (fs_slab fs) p of Some i \<Rightarrow> ignored i | None \<Rightarrow> False)) (\<lambda>inherited.
     if inherited then ret True
     else seq (repo_path_str p n) (\<lambda>path.
       if path = [] then ret False
       else reads (\<lambda>fs. ignore_rules fs (if dir then path @ ''/'' else path))))"

definition is_redirection :: "'g kiki_fs \<Rightarrow> inode_id \<Rightarrow> string \<Rightarrow> bool" where
  "is_redirection fs p n \<longleftrightarrow> p = ROOT_INODE \<and> n \<in> set (redirections fs)"

definition is_jj_root :: "inode_id \<Rightarrow> string \<Rightarrow> bool" where
  "is_jj_root p n \<longleftrightarrow> p = ROOT_INODE \<and> n = JJ_DIR"

definition is_git_file :: "inode_id \<Rightarrow> string \<Rightarrow> bool" where
  "is_git_file p n \<longleftrightarrow> p = ROOT_INODE \<and> n = GIT_FILE"

section \<open>Content, local or fetched\<close>

text \<open>The common shape of \<^verbatim>\<open>read_tree\<close>, \<^verbatim>\<open>read_file\<close> and \<^verbatim>\<open>read_symlink\<close>.\<close>

definition read_through ::
  "('g git_store \<Rightarrow> string + 'a option) \<Rightarrow> (get_blob \<Rightarrow> ('g, 'a) fetch) \<Rightarrow> ('g, 'a) fs_op" where
  "read_through local_read fetch = (\<lambda>fs.
     case local_read (store fs) of
       Inr (Some a) \<Rightarrow> (Ok a, fs)
     | Inl e \<Rightarrow> (Err (StoreError e), fs)
     | Inr None \<Rightarrow>
         (case remote fs of
            None \<Rightarrow> (Err StoreMiss, fs)
          | Some rm \<Rightarrow>
              (case fetch rm (store fs) of
                 (Inr a, st) \<Rightarrow> (Ok a, fs\<lparr>store := st\<rparr>)
               | (Inl e, st) \<Rightarrow> (Err (fetch_err e), fs\<lparr>store := st\<rparr>))))"

definition read_tree :: "oid \<Rightarrow> ('g, GitTreeEntry list) fs_op" where
  "read_tree oid = read_through (\<lambda>st. git_read_tree st oid) (\<lambda>rm. fetch_tree rm oid)"

definition read_file :: "oid \<Rightarrow> ('g, bytes) fs_op" where
  "read_file oid = read_through (\<lambda>st. git_read_file st oid) (\<lambda>rm. fetch_file rm oid)"

definition read_symlink :: "oid \<Rightarrow> ('g, string) fs_op" where
  "read_symlink oid = read_through (\<lambda>st. git_read_symlink st oid) (\<lambda>rm. fetch_symlink rm oid)"

text \<open>\<open>None\<close> is the panic of \<^verbatim>\<open>expect("20-byte id")\<close>.\<close>

definition entry_to_node :: "GitTreeEntry \<Rightarrow> NodeRef option" where
  "entry_to_node e =
     (if length (eid e) \<noteq> 20 then None
      else Some (case ekind e of
          EFile executable \<Rightarrow> File (eid e) executable
        | ETree \<Rightarrow> Tree (eid e)
        | ESymlink \<Rightarrow> Symlink (eid e)
        | ESubmodule \<Rightarrow> File (eid e) False))"

fun entry_kind :: "GitEntryKind \<Rightarrow> FileKind" where
  "entry_kind ETree = Directory"
| "entry_kind ESymlink = SymlinkKind"
| "entry_kind (EFile _) = Regular"
| "entry_kind ESubmodule = Regular"

definition dir_tree :: "inode \<Rightarrow> ('g, GitTreeEntry list) fs_op" where
  "dir_tree ino = (case node ino of Tree oid \<Rightarrow> read_tree oid | _ \<Rightarrow> throw NotADirectory)"

text \<open>All entries of a tree, or the panic of the first bad one.\<close>

fun entries_to_nodes :: "GitTreeEntry list \<Rightarrow> (string \<times> NodeRef) list option" where
  "entries_to_nodes [] = Some []"
| "entries_to_nodes (e # es) =
     (case entry_to_node e of
        None \<Rightarrow> None
      | Some nd \<Rightarrow> (case entries_to_nodes es of None \<Rightarrow> None | Some r \<Rightarrow> Some ((ename e, nd) # r)))"

section \<open>Promotion to dirty nodes\<close>

definition materialize_single_tree :: "inode_id \<Rightarrow> ('g, unit) fs_op" where
  "materialize_single_tree dir =
     seq (get_inode dir) (\<lambda>ino.
     case node ino of
       DirtyTree _ \<Rightarrow> ret ()
     | Tree oid \<Rightarrow>
         seq (read_tree oid) (\<lambda>tree.
         case entries_to_nodes tree of
           None \<Rightarrow> panic
         | Some entries \<Rightarrow>
             seq (on_slab (materialize_dir_for_mutation dir entries)) (\<lambda>r.
             case r of None \<Rightarrow> throw NotADirectory | Some _ \<Rightarrow> ret ()))
     | _ \<Rightarrow> throw NotADirectory)"

fun inside_jj_loop :: "nat \<Rightarrow> inode_id \<Rightarrow> inode_id \<Rightarrow> ('g, bool) fs_op" where
  "inside_jj_loop 0 jj_ino probe = diverge"
| "inside_jj_loop (Suc fuel) jj_ino probe =
     (if probe = jj_ino then ret True
      else seq (get_inode probe) (\<lambda>ino.
        if parent ino = probe then ret False
        else inside_jj_loop fuel jj_ino (parent ino)))"

fun dirty_ancestors_loop :: "nat \<Rightarrow> inode_id \<Rightarrow> ('g, unit) fs_op" where
  "dirty_ancestors_loop 0 current = diverge"
| "dirty_ancestors_loop (Suc fuel) current =
     seq (get_inode current) (\<lambda>ino.
     if parent ino = current then ret ()
     else seq (get_inode (parent ino)) (\<lambda>pino.
       case node pino of
         DirtyTree _ \<Rightarrow> ret ()
       | _ \<Rightarrow> seq (materialize_single_tree (parent ino)) (\<lambda>_.
                dirty_ancestors_loop fuel (parent ino))))"

definition fs_fuel :: "'g kiki_fs \<Rightarrow> nat" where
  "fs_fuel fs = Suc (next_id (fs_slab fs))"

definition inside_jj :: "inode_id \<Rightarrow> ('g, bool) fs_op" where
  "inside_jj dir = (\<lambda>fs.
     case jj_subtree fs of
       Some jj_ino \<Rightarrow> inside_jj_loop (fs_fuel fs) jj_ino dir fs
     | None \<Rightarrow> (Ok False, fs))"

definition ensure_dirty_tree :: "inode_id \<Rightarrow> ('g, unit) fs_op" where
  "ensure_dirty_tree dir =
     seq (inside_jj dir) (\<lambda>inside.
     seq (materialize_single_tree dir) (\<lambda>_.
     if inside then ret ()
     else (\<lambda>fs. dirty_ancestors_loop (fs_fuel fs) dir fs)))"

definition ensure_dirty_file :: "inode_id \<Rightarrow> ('g, unit) fs_op" where
  "ensure_dirty_file i =
     seq (get_inode i) (\<lambda>ino.
     case node ino of
       DirtyFile _ _ \<Rightarrow> ret ()
     | File oid executable \<Rightarrow>
         seq (read_file oid) (\<lambda>content.
         seq (on_slab (replace_node i (DirtyFile content executable))) (\<lambda>_. ret ()))
     | _ \<Rightarrow> throw NotAFile)"

section \<open>Shared helpers of the write path\<close>

definition child_exists :: "inode_id \<Rightarrow> string \<Rightarrow> ('g, bool) fs_op" where
  "child_exists p n =
     seq (reads jj_subtree) (\<lambda>jj.
     if is_jj_root p n \<and> jj \<noteq> None then ret True
     else if is_git_file p n then ret True
     else seq (get_inode p) (\<lambda>ino.
       case node ino of
         DirtyTree children \<Rightarrow> ret (map_of children n \<noteq> None)
       | Tree oid \<Rightarrow> seq (read_tree oid) (\<lambda>tree. ret (\<exists>e \<in> set tree. ename e = n))
       | _ \<Rightarrow> throw NotADirectory))"

definition attr_for :: "inode_id \<Rightarrow> ('g, Attr) fs_op" where
  "attr_for i =
     seq (get_inode i) (\<lambda>ino.
     seq (reads commit_mtime) (\<lambda>mtime.
     let attr = (\<lambda>k sz ex. \<lparr>attr_inode = i, attr_kind = k, attr_size = sz, attr_executable = ex, attr_mtime_secs = mtime\<rparr>)
     in case node ino of
          Tree _ \<Rightarrow> ret (attr Directory 0 False)
        | DirtyTree _ \<Rightarrow> ret (attr Directory 0 False)
        | File oid executable \<Rightarrow> seq (read_file oid) (\<lambda>content. ret (attr Regular (length content) executable))
        | DirtyFile content executable \<Rightarrow> ret (attr Regular (length content) executable)
        | Symlink oid \<Rightarrow> seq (read_symlink oid) (\<lambda>target. ret (attr SymlinkKind (length target) False))
        | DirtySymlink target \<Rightarrow> ret (attr SymlinkKind (length target) False)))"

text \<open>The empty check of a still clean directory, before it is removed or replaced.\<close>

definition remove_from_slab :: "inode_id \<Rightarrow> string \<Rightarrow> ('g, unit) fs_op" where
  "remove_from_slab p n =
     seq (ensure_dirty_tree p) (\<lambda>_.
     seq (get_inode p) (\<lambda>pino.
     seq (case node pino of
            DirtyTree children \<Rightarrow> (case map_of children n of Some c \<Rightarrow> ret c | None \<Rightarrow> throw NotFound)
          | _ \<Rightarrow> throw NotADirectory) (\<lambda>child_id.
     seq (get_inode child_id) (\<lambda>child.
     seq (case node child of
            DirtyTree children \<Rightarrow> if children \<noteq> [] then throw NotEmpty else ret ()
          | Tree oid \<Rightarrow> seq (read_tree oid) (\<lambda>tree. if tree \<noteq> [] then throw NotEmpty else ret ())
          | _ \<Rightarrow> ret ()) (\<lambda>_.
     seq (on_slab (detach_child p n)) (\<lambda>r.
     case r of None \<Rightarrow> throw NotFound | Some _ \<Rightarrow> ret ()))))))"

section \<open>The trait: reads\<close>

definition fs_lookup :: "inode_id \<Rightarrow> string \<Rightarrow> ('g, inode_id) fs_op" where
  "fs_lookup p n =
     (if is_git_file p n then reads git_file
      else seq (reads jj_subtree) (\<lambda>jj.
        if is_jj_root p n \<and> jj \<noteq> None then ret (the jj)
        else seq (get_inode p) (\<lambda>ino.
          case node ino of
            DirtyTree children \<Rightarrow> (case map_of children n of Some c \<Rightarrow> ret c | None \<Rightarrow> throw NotFound)
          | Tree oid \<Rightarrow>
              seq (read_tree oid) (\<lambda>tree.
              case List.find (\<lambda>e. ename e = n) tree of
                None \<Rightarrow> throw NotFound
              | Some e \<Rightarrow>
                  (case entry_to_node e of
                     None \<Rightarrow> panic
                   | Some nd \<Rightarrow> on_slab (intern_child p n nd)))
          | _ \<Rightarrow> throw NotADirectory)))"

definition fs_getattr :: "inode_id \<Rightarrow> ('g, Attr) fs_op" where
  "fs_getattr i = attr_for i"

definition slice_read :: "bytes \<Rightarrow> nat \<Rightarrow> nat \<Rightarrow> bytes \<times> bool" where
  "slice_read content offset cnt =
     (let len = length content
      in if offset \<ge> len then ([], True)
         else let e = min (offset + cnt) len in (drop offset (take e content), e = len))"

definition fs_read :: "inode_id \<Rightarrow> nat \<Rightarrow> nat \<Rightarrow> ('g, bytes \<times> bool) fs_op" where
  "fs_read i offset cnt =
     seq (get_inode i) (\<lambda>ino.
     case node ino of
       File oid _ \<Rightarrow> seq (read_file oid) (\<lambda>content. ret (slice_read content offset cnt))
     | DirtyFile content _ \<Rightarrow> ret (slice_read content offset cnt)
     | _ \<Rightarrow> throw NotAFile)"

fun node_kind :: "NodeRef \<Rightarrow> FileKind" where
  "node_kind (Tree _) = Directory"
| "node_kind (DirtyTree _) = Directory"
| "node_kind (File _ _) = Regular"
| "node_kind (DirtyFile _ _) = Regular"
| "node_kind (Symlink _) = SymlinkKind"
| "node_kind (DirtySymlink _) = SymlinkKind"

text \<open>The names the root listing leaves out because a pinned entry stands for them.\<close>

definition shadowed :: "bool \<Rightarrow> inode_id option \<Rightarrow> string \<Rightarrow> bool" where
  "shadowed is_root pinned_jj n \<longleftrightarrow> (pinned_jj \<noteq> None \<and> n = JJ_DIR) \<or> (is_root \<and> n = GIT_FILE)"

fun readdir_dirty :: "bool \<Rightarrow> inode_id option \<Rightarrow> (string \<times> inode_id) list \<Rightarrow> ('g, DirEntry list) fs_op" where
  "readdir_dirty is_root pinned_jj [] = ret []"
| "readdir_dirty is_root pinned_jj ((n, c) # cs) =
     (if shadowed is_root pinned_jj n then readdir_dirty is_root pinned_jj cs
      else seq (get_inode c) (\<lambda>child.
        seq (readdir_dirty is_root pinned_jj cs) (\<lambda>out.
        ret (\<lparr>de_inode = c, de_name = n, de_kind = node_kind (node child)\<rparr> # out))))"

fun readdir_clean :: "inode_id \<Rightarrow> bool \<Rightarrow> inode_id option \<Rightarrow> GitTreeEntry list \<Rightarrow> ('g, DirEntry list) fs_op" where
  "readdir_clean dir is_root pinned_jj [] = ret []"
| "readdir_clean dir is_root pinned_jj (e # es) =
     (if shadowed is_root pinned_jj (ename e) then readdir_clean dir is_root pinned_jj es
      else (case entry_to_node e of
          None \<Rightarrow> panic
        | Some nd \<Rightarrow>
            seq (on_slab (intern_child dir (ename e) nd)) (\<lambda>c.
            seq (readdir_clean dir is_root pinned_jj es) (\<lambda>out.
            ret (\<lparr>de_inode = c, de_name = ename e, de_kind = entry_kind (ekind e)\<rparr> # out)))))"

definition pinned_entries :: "bool \<Rightarrow> inode_id option \<Rightarrow> inode_id \<Rightarrow> DirEntry list" where
  "pinned_entries is_root pinned_jj gf =
     (case pinned_jj of Some jj \<Rightarrow> [\<lparr>de_inode = jj, de_name = JJ_DIR, de_kind = Directory\<rparr>] | None \<Rightarrow> []) @
     (if is_root then [\<lparr>de_inode = gf, de_name = GIT_FILE, de_kind = Regular\<rparr>] else [])"

definition fs_readdir :: "inode_id \<Rightarrow> ('g, DirEntry list) fs_op" where
  "fs_readdir dir =
     seq (get_inode dir) (\<lambda>ino.
     seq (reads (\<lambda>fs. if dir = ROOT_INODE then jj_subtree fs else None)) (\<lambda>pinned_jj.
     seq (reads git_file) (\<lambda>gf.
     case node ino of
       DirtyTree children \<Rightarrow>
         seq (readdir_dirty (dir = ROOT_INODE) pinned_jj children) (\<lambda>out.
         ret (out @ pinned_entries (dir = ROOT_INODE) pinned_jj gf))
     | Tree _ \<Rightarrow>
         seq (dir_tree ino) (\<lambda>tree.
         seq (readdir_clean dir (dir = ROOT_INODE) pinned_jj tree) (\<lambda>out.
         ret (out @ pinned_entries (dir = ROOT_INODE) pinned_jj gf)))
     | _ \<Rightarrow> throw NotADirectory)))"

definition fs_readlink :: "inode_id \<Rightarrow> ('g, string) fs_op" where
  "fs_readlink i =
     seq (get_inode i) (\<lambda>ino.
     case node ino of
       Symlink oid \<Rightarrow> read_symlink oid
     | DirtySymlink target \<Rightarrow> ret target
     | _ \<Rightarrow> throw NotASymlink)"

section \<open>The trait: check-out and writes\<close>

definition fs_check_out :: "oid \<Rightarrow> int \<Rightarrow> ('g, unit) fs_op" where
  "fs_check_out new_root_tree mtime =
     seq (read_tree new_root_tree) (\<lambda>_.
     modifies (\<lambda>fs. fs\<lparr>fs_slab := swap_root new_root_tree (fs_slab fs),
       commit_mtime := (if mtime \<noteq> 0 then mtime else commit_mtime fs),
       ignore_rules := load_gitignore_from_store (gitignore_chain fs) (store fs) new_root_tree,
       redirections := load_redirections_from_store (store fs) new_root_tree\<rparr>))"

text \<open>The tail shared by \<^verbatim>\<open>create_file\<close>, \<^verbatim>\<open>mkdir\<close> and \<^verbatim>\<open>symlink\<close>: allocate, attach, stat.\<close>

definition add_entry :: "inode_id \<Rightarrow> string \<Rightarrow> NodeRef \<Rightarrow> bool \<Rightarrow> ('g, inode_id \<times> Attr) fs_op" where
  "add_entry p n nd ign =
     seq (on_slab (alloc_with_ignored p n nd ign)) (\<lambda>child.
     seq (on_slab (attach_child p n child)) (\<lambda>attached.
     if \<not> attached then throw AlreadyExists
     else seq (attr_for child) (\<lambda>attr. ret (child, attr))))"

definition fs_create_file :: "inode_id \<Rightarrow> string \<Rightarrow> bool \<Rightarrow> ('g, inode_id \<times> Attr) fs_op" where
  "fs_create_file p n executable =
     seq (child_exists p n) (\<lambda>ex.
     if ex then throw AlreadyExists
     else seq (ensure_dirty_tree p) (\<lambda>_.
     seq (is_ignored p n False) (\<lambda>ign.
     add_entry p n (DirtyFile [] executable) ign)))"

definition mkdir_jj :: "inode_id \<Rightarrow> string \<Rightarrow> ('g, inode_id \<times> Attr) fs_op" where
  "mkdir_jj p n =
     seq (reads jj_subtree) (\<lambda>pinned.
     if pinned \<noteq> None then throw AlreadyExists
     else seq (get_inode p) (\<lambda>pino.
     if \<not> is_dir (node pino) then throw NotADirectory
     else seq (on_slab (alloc p n (DirtyTree []))) (\<lambda>child.
     seq (modifies (\<lambda>fs. fs\<lparr>jj_subtree := Some child\<rparr>)) (\<lambda>_.
     seq (attr_for child) (\<lambda>attr. ret (child, attr))))))"

definition fs_mkdir :: "inode_id \<Rightarrow> string \<Rightarrow> ('g, inode_id \<times> Attr) fs_op" where
  "fs_mkdir p n =
     (if is_jj_root p n then mkdir_jj p n
      else seq (child_exists p n) (\<lambda>ex.
      if ex then throw AlreadyExists
      else seq (ensure_dirty_tree p) (\<lambda>_.
      seq (reads (\<lambda>fs. if is_redirection fs p n then scratch_dir fs else None)) (\<lambda>scratch.
      case scratch of
        Some dir \<Rightarrow>
          seq (reads (\<lambda>fs. create_dir_all fs (path_join dir n))) (\<lambda>made.
          case made of
            Inl e \<Rightarrow> throw (StoreError (''creating scratch dir: '' @ e))
          | Inr _ \<Rightarrow> add_entry p n (DirtySymlink (from_utf8_lossy (path_join dir n))) True)
      | None \<Rightarrow>
          seq (is_ignored p n True) (\<lambda>ign.
          add_entry p n (DirtyTree []) ign)))))"

definition fs_symlink :: "inode_id \<Rightarrow> string \<Rightarrow> string \<Rightarrow> ('g, inode_id \<times> Attr) fs_op" where
  "fs_symlink p n target =
     seq (child_exists p n) (\<lambda>ex.
     if ex then throw AlreadyExists
     else seq (ensure_dirty_tree p) (\<lambda>_.
     seq (is_ignored p n False) (\<lambda>ign.
     add_entry p n (DirtySymlink target) ign)))"

text \<open>
  A \<^verbatim>\<open>Vec\<close> holds at most \<^verbatim>\<open>isize::MAX\<close> bytes; growing one past it panics, and so does the slice when
  \<open>offset + len\<close> leaves \<^verbatim>\<open>usize\<close>.
\<close>

definition isize_max :: int where
  "isize_max = 2 ^ 63 - 1"

definition vec_resize :: "nat \<Rightarrow> bytes \<Rightarrow> bytes" where
  "vec_resize n bs = take n bs @ replicate (n - length bs) (CHR 0x00)"

definition splice_at :: "bytes \<Rightarrow> nat \<Rightarrow> bytes \<Rightarrow> bytes" where
  "splice_at content offset data =
     (let e = offset + length data;
          buf = (if length content < e then vec_resize e content else content)
      in take offset buf @ data @ drop e buf)"

definition RO_GIT :: FsError where
  "RO_GIT = StoreError ''read-only synthesized .git file''"

text \<open>\<open>dirty_for_write\<close>: the promotion that \<^verbatim>\<open>write\<close> and \<^verbatim>\<open>setattr\<close> begin with.\<close>

definition dirty_for_write :: "inode_id \<Rightarrow> ('g, unit) fs_op" where
  "dirty_for_write i =
     seq (ensure_dirty_file i) (\<lambda>_.
     seq (get_inode i) (\<lambda>ino. ensure_dirty_tree (parent ino)))"

definition fs_write :: "inode_id \<Rightarrow> nat \<Rightarrow> bytes \<Rightarrow> ('g, nat) fs_op" where
  "fs_write i offset data =
     seq (reads git_file) (\<lambda>gf.
     if i = gf then throw RO_GIT
     else seq (dirty_for_write i) (\<lambda>_.
     seq (get_inode i) (\<lambda>ino.
     case node ino of
       DirtyFile content executable \<Rightarrow>
         if int (offset + length data) > isize_max then panic
         else let new = splice_at content offset data
              in seq (on_slab (replace_node i (DirtyFile new executable))) (\<lambda>_.
                 seq (if iname ino = GITIGNORE_FILE \<or> iname ino = KIKI_REDIRECTIONS_FILE
                      then modifies (reload_rules (iname ino) new) else ret ()) (\<lambda>_.
                 ret (nat (int (length data) mod 2 ^ 32))))
     | _ \<Rightarrow> throw NotAFile)))"

definition fs_setattr :: "inode_id \<Rightarrow> nat option \<Rightarrow> bool option \<Rightarrow> ('g, Attr) fs_op" where
  "fs_setattr i sz executable =
     seq (reads git_file) (\<lambda>gf.
     if i = gf then throw RO_GIT
     else if sz = None \<and> executable = None then attr_for i
     else seq (dirty_for_write i) (\<lambda>_.
     seq (get_inode i) (\<lambda>ino.
     case node ino of
       DirtyFile content exec_bit \<Rightarrow>
         if (case sz of Some n \<Rightarrow> int n > isize_max | None \<Rightarrow> False) then panic
         else seq (on_slab (replace_node i (DirtyFile
                     (case sz of Some n \<Rightarrow> vec_resize n content | None \<Rightarrow> content)
                     (case executable of Some x \<Rightarrow> x | None \<Rightarrow> exec_bit)))) (\<lambda>_.
              attr_for i)
     | _ \<Rightarrow> throw NotAFile)))"

definition remove_jj :: "inode_id \<Rightarrow> ('g, unit) fs_op" where
  "remove_jj jj_ino =
     seq (get_inode jj_ino) (\<lambda>ino.
     seq (case node ino of
            DirtyTree children \<Rightarrow> if children \<noteq> [] then throw NotEmpty else ret ()
          | Tree oid \<Rightarrow> seq (read_tree oid) (\<lambda>tree. if tree \<noteq> [] then throw NotEmpty else ret ())
          | _ \<Rightarrow> throw NotADirectory) (\<lambda>_.
     modifies (\<lambda>fs. if jj_subtree fs = Some jj_ino then fs\<lparr>jj_subtree := None\<rparr> else fs)))"

definition fs_remove :: "inode_id \<Rightarrow> string \<Rightarrow> ('g, unit) fs_op" where
  "fs_remove p n =
     (if is_git_file p n then throw (StoreError ''cannot remove synthesized .git file'')
      else if is_jj_root p n
      then seq (reads jj_subtree) (\<lambda>pinned_jj.
             case pinned_jj of
               None \<Rightarrow> remove_from_slab p n
             | Some jj_ino \<Rightarrow> remove_jj jj_ino)
      else remove_from_slab p n)"

definition dirty_child :: "inode_id \<Rightarrow> string \<Rightarrow> ('g, inode_id option) fs_op" where
  "dirty_child p n =
     seq (get_inode p) (\<lambda>ino.
     case node ino of
       DirtyTree children \<Rightarrow> ret (map_of children n)
     | _ \<Rightarrow> throw NotADirectory)"

text \<open>What POSIX asks before the destination of a rename is replaced.\<close>

definition check_replace :: "inode_id \<Rightarrow> inode_id \<Rightarrow> ('g, unit) fs_op" where
  "check_replace src_id dst_id =
     seq (get_inode src_id) (\<lambda>src.
     seq (get_inode dst_id) (\<lambda>dst.
     if is_dir (node src) \<and> \<not> is_dir (node dst) then throw NotADirectory
     else if \<not> is_dir (node src) \<and> is_dir (node dst) then throw NotAFile
     else (case node dst of
         Tree oid \<Rightarrow> seq (read_tree oid) (\<lambda>tree. if tree \<noteq> [] then throw NotEmpty else ret ())
       | DirtyTree children \<Rightarrow> if children \<noteq> [] then throw NotEmpty else ret ()
       | _ \<Rightarrow> ret ())))"

definition move_entry :: "inode_id \<Rightarrow> string \<Rightarrow> inode_id \<Rightarrow> string \<Rightarrow> inode_id \<Rightarrow> ('g, unit) fs_op" where
  "move_entry p n np nn src_id =
     seq (on_slab (detach_child p n)) (\<lambda>r.
     if r = None then throw NotFound
     else seq (on_slab (attach_child np nn src_id)) (\<lambda>attached.
     if \<not> attached then throw AlreadyExists
     else seq (on_slab (reparent src_id np nn)) (\<lambda>_. ret ())))"

definition fs_rename :: "inode_id \<Rightarrow> string \<Rightarrow> inode_id \<Rightarrow> string \<Rightarrow> ('g, unit) fs_op" where
  "fs_rename p n np nn =
     (if is_jj_root p n \<or> is_jj_root np nn \<or> is_git_file p n \<or> is_git_file np nn
      then throw AlreadyExists
      else seq (ensure_dirty_tree p) (\<lambda>_.
      seq (if np \<noteq> p then ensure_dirty_tree np else ret ()) (\<lambda>_.
      seq (dirty_child p n) (\<lambda>src.
      if src = None then throw NotFound
      else seq (dirty_child np nn) (\<lambda>dst.
      case dst of
        Some dst_id \<Rightarrow>
          if dst_id = the src then ret ()
          else seq (check_replace (the src) dst_id) (\<lambda>_.
               seq (on_slab (detach_child np nn)) (\<lambda>_.
               move_entry p n np nn (the src)))
      | None \<Rightarrow> move_entry p n np nn (the src))))))"

section \<open>Snapshot\<close>

definition store_write :: "('g git_store \<Rightarrow> (string + bytes) \<times> 'g git_store) \<Rightarrow> ('g, oid) fs_op" where
  "store_write w = (\<lambda>fs. case w (store fs) of
      (Inl e, st) \<Rightarrow> (Err (StoreError e), fs\<lparr>store := st\<rparr>)
    | (Inr oid, st) \<Rightarrow>
        (if length oid = 20 then Ok oid else Err (StoreError ''bad id len''), fs\<lparr>store := st\<rparr>))"

text \<open>
  \<open>snapshot_node\<close> and the loop over the children of a modified directory. The loop keeps the inode it
  fetched before the recursive call, as the code does.
\<close>

fun snapshot_node :: "nat \<Rightarrow> inode_id \<Rightarrow> ('g, oid) fs_op"
  and snapshot_children :: "nat \<Rightarrow> bool \<Rightarrow> (string \<times> inode_id) list \<Rightarrow> ('g, GitTreeEntry list) fs_op" where
  "snapshot_node 0 i = diverge"
| "snapshot_node (Suc fuel) i =
     seq (get_inode i) (\<lambda>ino.
     case node ino of
       Tree oid \<Rightarrow> ret oid
     | File oid _ \<Rightarrow> ret oid
     | Symlink oid \<Rightarrow> ret oid
     | DirtyFile content executable \<Rightarrow>
         seq (store_write (git_write_file content)) (\<lambda>oid.
         seq (on_slab (replace_node i (File oid executable))) (\<lambda>_. ret oid))
     | DirtySymlink target \<Rightarrow>
         seq (store_write (git_write_symlink target)) (\<lambda>oid.
         seq (on_slab (replace_node i (Symlink oid))) (\<lambda>_. ret oid))
     | DirtyTree children \<Rightarrow>
         seq (snapshot_children fuel (i = ROOT_INODE) children) (\<lambda>entries.
         seq (store_write (git_write_tree entries)) (\<lambda>oid.
         seq (on_slab (replace_node i (Tree oid))) (\<lambda>_. ret oid))))"
| "snapshot_children fuel is_root [] = ret []"
| "snapshot_children fuel is_root ((n, c) # cs) =
     (if is_root \<and> (n = JJ_DIR \<or> n = GIT_FILE) then snapshot_children fuel is_root cs
      else seq (get_inode c) (\<lambda>child.
        if ignored child then snapshot_children fuel is_root cs
        else seq (case node child of
                    Tree oid \<Rightarrow> ret (ETree, oid)
                  | DirtyTree _ \<Rightarrow> seq (snapshot_node fuel c) (\<lambda>oid. ret (ETree, oid))
                  | File oid executable \<Rightarrow> ret (EFile executable, oid)
                  | DirtyFile _ executable \<Rightarrow> seq (snapshot_node fuel c) (\<lambda>oid. ret (EFile executable, oid))
                  | Symlink oid \<Rightarrow> ret (ESymlink, oid)
                  | DirtySymlink _ \<Rightarrow> seq (snapshot_node fuel c) (\<lambda>oid. ret (ESymlink, oid))) (\<lambda>kid.
          seq (snapshot_children fuel is_root cs) (\<lambda>rest.
          ret (\<lparr>ename = n, ekind = fst kid, eid = snd kid\<rparr> # rest)))))"

definition fs_snapshot :: "('g, oid) fs_op" where
  "fs_snapshot =
     seq (\<lambda>fs. snapshot_node (fs_fuel fs) ROOT_INODE fs) (\<lambda>user_root.
     seq (reads jj_subtree) (\<lambda>jj.
     case jj of
       Some jj_ino \<Rightarrow> seq (\<lambda>fs. snapshot_node (fs_fuel fs) jj_ino fs) (\<lambda>_. ret user_root)
     | None \<Rightarrow> ret user_root))"

section \<open>Unfolding rules\<close>

lemma get_inode_seq:
  "inodes (fs_slab fs) i = Some k \<Longrightarrow> seq (get_inode i) f fs = f k fs"
  "inodes (fs_slab fs) i = None \<Longrightarrow> seq (get_inode i) f fs = (Err NotFound, fs)"
  by (simp_all add: seq_apply get_inode_def fetch_or_def slab_get_def)

lemma on_slab_seq: "g (fs_slab fs) = (a, sl) \<Longrightarrow> seq (on_slab g) f fs = f a (fs\<lparr>fs_slab := sl\<rparr>)"
  by (simp add: seq_apply on_slab_def)

lemma reads_seq: "seq (reads g) f fs = f (g fs) fs"
  by (simp add: seq_apply reads_def)

lemma modifies_seq: "seq (modifies g) f fs = f () (g fs)"
  by (simp add: seq_apply modifies_def)

end
