(* ===== verification/Kiki_Inv.thy ===== *)
theory Kiki_Inv
  imports Kiki_Fs
begin

text \<open>
  The invariant of \<open>kiki_fs\<close> and its preservation by every operation, on every outcome. On top of the
  slab's own invariant: the synthesized \<^verbatim>\<open>.git\<close> file and the pinned \<^verbatim>\<open>.jj\<close> directory are inodes below
  the root that no directory lists, and the former holds the content it was created with.
\<close>

section \<open>The invariant\<close>

definition pinned_ok :: "inode_id \<Rightarrow> bytes \<Rightarrow> inode_id option \<Rightarrow> slab \<Rightarrow> bool" where
  "pinned_ok gf content jj sl \<longleftrightarrow>
     gf \<noteq> ROOT_INODE \<and> (\<forall>k. by_parent sl k \<noteq> Some gf) \<and>
     (\<exists>ino. inodes sl gf = Some ino \<and> parent ino = ROOT_INODE \<and> node ino = DirtyFile content False) \<and>
     (\<forall>j. jj = Some j \<longrightarrow> j \<noteq> ROOT_INODE \<and> j \<noteq> gf \<and> (\<forall>k. by_parent sl k \<noteq> Some j) \<and>
        (\<exists>ino. inodes sl j = Some ino \<and> parent ino = ROOT_INODE \<and> is_dir (node ino)))"

text \<open>A content id in Rust is a \<^verbatim>\<open>[u8; 20]\<close>; here it is a byte list of that length.\<close>

fun node_id :: "NodeRef \<Rightarrow> oid option" where
  "node_id (Tree oid) = Some oid"
| "node_id (File oid _) = Some oid"
| "node_id (Symlink oid) = Some oid"
| "node_id _ = None"

definition id_ok :: "NodeRef \<Rightarrow> bool" where
  "id_ok nd \<longleftrightarrow> (\<forall>oid. node_id nd = Some oid \<longrightarrow> length oid = 20)"

definition ids_ok :: "slab \<Rightarrow> bool" where
  "ids_ok sl \<longleftrightarrow> (\<forall>i k. inodes sl i = Some k \<longrightarrow> id_ok (node k))"

lemma id_ok_simps [simp]:
  "id_ok (Tree oid) \<longleftrightarrow> length oid = 20" "id_ok (File oid x) \<longleftrightarrow> length oid = 20"
  "id_ok (Symlink oid) \<longleftrightarrow> length oid = 20" "id_ok (DirtyTree cs)" "id_ok (DirtyFile b x)" "id_ok (DirtySymlink t)"
  by (simp_all add: id_ok_def)

text \<open>The flag says whether the parent pointers are required to lead to the root.\<close>

definition slab_ok :: "bool \<Rightarrow> inode_id \<Rightarrow> bytes \<Rightarrow> inode_id option \<Rightarrow> slab \<Rightarrow> bool" where
  "slab_ok rt gf content jj sl \<longleftrightarrow> slab_inv sl \<and> pinned_ok gf content jj sl \<and> ids_ok sl \<and> (rt \<longrightarrow> rooted sl)"

definition fs_inv :: "bool \<Rightarrow> 'g kiki_fs \<Rightarrow> bool" where
  "fs_inv rt fs \<longleftrightarrow> git_laws (glib (store fs)) \<and>
     slab_ok rt (git_file fs) (git_file_content fs) (jj_subtree fs) (fs_slab fs)"

text \<open>What never changes, and what only grows, whatever is called.\<close>

definition fs_evolves :: "'g kiki_fs \<Rightarrow> 'g kiki_fs \<Rightarrow> bool" where
  "fs_evolves fs fs' \<longleftrightarrow>
     glib (store fs') = glib (store fs) \<and> db_extends (glib (store fs)) (gdb (store fs)) (gdb (store fs')) \<and>
     remote fs' = remote fs \<and> git_file fs' = git_file fs \<and> git_file_content fs' = git_file_content fs \<and>
     scratch_dir fs' = scratch_dir fs \<and> slab_grows (fs_slab fs) (fs_slab fs')"

lemma fs_evolves_refl [simp, intro]: "fs_evolves fs fs"
  by (simp add: fs_evolves_def db_extends_def)

lemma fs_evolves_trans [trans]: "fs_evolves a b \<Longrightarrow> fs_evolves b c \<Longrightarrow> fs_evolves a c"
  using slab_grows_trans by (fastforce simp: fs_evolves_def db_extends_def)

section \<open>Slab operations keep \<open>slab_ok\<close>\<close>

text \<open>
  The pinned inodes survive a step that keeps parents, that does not touch the \<^verbatim>\<open>.git\<close> node and keeps
  directories directories, and whose new reverse-map entries do not point at them.
\<close>

lemma pinned_ok_step:
  assumes "pinned_ok gf content jj sl"
    and "\<And>i k. inodes sl i = Some k \<Longrightarrow> i \<noteq> ROOT_INODE \<Longrightarrow> (\<forall>key. by_parent sl key \<noteq> Some i) \<Longrightarrow>
           \<exists>k'. inodes sl' i = Some k' \<and> parent k' = parent k \<and>
                (node k' = node k \<or> is_dir (node k) \<and> is_dir (node k'))"
    and "\<And>key i. by_parent sl' key = Some i \<Longrightarrow> by_parent sl key = Some i \<or> i \<noteq> gf \<and> jj \<noteq> Some i"
  shows "pinned_ok gf content jj sl'"
proof -
  have byp: "\<forall>key. by_parent sl' key \<noteq> Some i" if "\<forall>key. by_parent sl key \<noteq> Some i" "i = gf \<or> jj = Some i" for i
    using assms(3) that by blast
  obtain g where g: "gf \<noteq> ROOT_INODE" "\<forall>k. by_parent sl k \<noteq> Some gf" "inodes sl gf = Some g"
      "parent g = ROOT_INODE" "node g = DirtyFile content False"
    using assms(1) unfolding pinned_ok_def by blast
  obtain g' where "inodes sl' gf = Some g'" "parent g' = ROOT_INODE" "node g' = DirtyFile content False"
    using assms(2) [OF g(3,1,2)] g(4,5) by auto
  moreover have "j \<noteq> ROOT_INODE \<and> j \<noteq> gf \<and> (\<forall>k. by_parent sl' k \<noteq> Some j) \<and>
        (\<exists>ino. inodes sl' j = Some ino \<and> parent ino = ROOT_INODE \<and> is_dir (node ino))" if "jj = Some j" for j
  proof -
    obtain d where d: "j \<noteq> ROOT_INODE" "j \<noteq> gf" "\<forall>k. by_parent sl k \<noteq> Some j" "inodes sl j = Some d"
        "parent d = ROOT_INODE" "is_dir (node d)"
      using assms(1) \<open>jj = Some j\<close> unfolding pinned_ok_def by blast
    show ?thesis using assms(2) [OF d(4,1,3)] d byp [OF d(3)] that by auto
  qed
  ultimately show ?thesis using g byp [OF g(2)] unfolding pinned_ok_def by blast
qed

lemma slab_ok_intern:
  assumes ok: "slab_ok rt gf content jj sl" and p: "inodes sl p \<noteq> None" and nd: "\<not> is_dirty nd" "id_ok nd"
  shows "slab_ok rt gf content jj (snd (intern_child p n nd sl))"
proof -
  have inv: "slab_inv sl" and pin: "pinned_ok gf content jj sl" using ok by (auto simp: slab_ok_def)
  have "slab_inv (snd (intern_child p n nd sl))" by (rule intern_child_inv [OF inv]) (use nd in auto)
  moreover have "pinned_ok gf content jj (snd (intern_child p n nd sl))"
    using pin
  proof (rule pinned_ok_step, goal_cases)
    case (1 i k)
    then show ?case using slab_inv_next_fresh [OF inv] by (auto simp: intern_child_def Let_def split: option.splits)
  next
    case (2 key i)
    then show ?case using pin slab_inv_next_fresh [OF inv]
      by (auto simp: intern_child_def Let_def pinned_ok_def split: option.splits if_splits)
  qed
  moreover have "rooted (snd (intern_child p n nd sl))" if "rooted sl"
    using that p slab_inv_next_fresh [OF inv]
    by (intro rooted_extend [OF that]) (auto simp: intern_child_def Let_def split: option.splits if_splits)
  moreover have "ids_ok (snd (intern_child p n nd sl))"
    using ok nd by (auto simp: slab_ok_def ids_ok_def intern_child_def Let_def split: option.splits)
  ultimately show ?thesis using ok by (auto simp: slab_ok_def)
qed

text \<open>
  Rewriting the node of an inode: a directory may become another directory, and an inode that some
  directory lists may become anything the slab invariant allows.
\<close>

lemma slab_ok_set_node:
  assumes ok: "slab_ok rt gf content jj sl" and i: "inodes sl i = Some k"
    and nd: "is_dir (node k) \<and> is_dir nd \<or> i \<noteq> gf \<and> jj \<noteq> Some i" and oid: "id_ok nd"
    and inv: "slab_inv (sl\<lparr>inodes := (inodes sl)(i \<mapsto> k\<lparr>node := nd\<rparr>)\<rparr>)"
  shows "slab_ok rt gf content jj (sl\<lparr>inodes := (inodes sl)(i \<mapsto> k\<lparr>node := nd\<rparr>)\<rparr>)"
proof -
  have "pinned_ok gf content jj sl" using ok by (auto simp: slab_ok_def)
  then have "pinned_ok gf content jj (sl\<lparr>inodes := (inodes sl)(i \<mapsto> k\<lparr>node := nd\<rparr>)\<rparr>)"
    using i nd unfolding pinned_ok_def by auto
  moreover have "rooted (sl\<lparr>inodes := (inodes sl)(i \<mapsto> k\<lparr>node := nd\<rparr>)\<rparr>)" if "rooted sl"
    using i by (intro rooted_extend [OF that]) (auto split: if_splits)
  moreover have "ids_ok (sl\<lparr>inodes := (inodes sl)(i \<mapsto> k\<lparr>node := nd\<rparr>)\<rparr>)"
    using ok oid by (auto simp: slab_ok_def ids_ok_def)
  ultimately show ?thesis using ok inv by (auto simp: slab_ok_def)
qed

lemma pinned_not_listed:
  "slab_ok rt gf content jj sl \<Longrightarrow> by_parent sl key = Some i \<Longrightarrow> i \<noteq> gf \<and> jj \<noteq> Some i"
  unfolding slab_ok_def pinned_ok_def by blast

lemma slab_ok_refresh:
  assumes ok: "slab_ok rt gf content jj sl" and i: "by_parent sl key = Some i" and nd: "\<not> is_dirty nd" "id_ok nd"
  shows "slab_ok rt gf content jj (refresh_child i nd sl)"
proof (cases "\<exists>k. inodes sl i = Some k \<and> \<not> is_dirty (node k)")
  case True
  then obtain k where k: "inodes sl i = Some k" "\<not> is_dirty (node k)" by blast
  have inv: "slab_inv sl" using ok by (simp add: slab_ok_def)
  have "slab_inv (refresh_child i nd sl)" using refresh_child_inv [OF inv] i nd by (cases key) blast
  then show ?thesis
    using slab_ok_set_node [OF ok k(1), of nd] pinned_not_listed [OF ok i] k nd by (simp add: refresh_child_def)
qed (use ok in \<open>auto simp: refresh_child_def split: option.splits\<close>)

lemma materialize_entries_keeps:
  assumes "J sl"
    and "\<And>sl n nd i. J sl \<Longrightarrow> (n, nd) \<in> set es \<Longrightarrow> by_parent sl (dir, n) = Some i \<Longrightarrow> J (refresh_child i nd sl)"
    and "\<And>sl n nd. J sl \<Longrightarrow> (n, nd) \<in> set es \<Longrightarrow> by_parent sl (dir, n) = None \<Longrightarrow> J (snd (intern_child dir n nd sl))"
  shows "J (snd (materialize_entries dir es children sl))"
  using assms
proof (induction es arbitrary: children sl)
  case (Cons e es)
  obtain n nd where e: "e = (n, nd)" by (cases e)
  show ?case
    unfolding e materialize_entries_step using Cons.prems
    by (auto simp: e split: option.split intro!: Cons.IH)
qed simp

lemma slab_ok_materialize:
  assumes ok: "slab_ok rt gf content jj sl" and clean: "\<forall>(n, nd) \<in> set es. \<not> is_dirty nd"
    and ids: "\<forall>(n, nd) \<in> set es. id_ok nd"
  shows "slab_ok rt gf content jj (snd (materialize_dir_for_mutation dir es sl))"
proof (cases "\<exists>ino t. inodes sl dir = Some ino \<and> node ino = Tree t")
  case False
  then have "snd (materialize_dir_for_mutation dir es sl) = sl"
    by (auto simp: materialize_dir_for_mutation_def split: option.splits NodeRef.splits)
  then show ?thesis using ok by simp
next
  case True
  then obtain ino t where dir: "inodes sl dir = Some ino" "node ino = Tree t" by blast
  have inv: "slab_inv sl" using ok by (simp add: slab_ok_def)
  obtain cs s1 where run: "materialize_entries dir es [] sl = (cs, s1)" by fastforce
  have s1ok: "slab_ok rt gf content jj s1 \<and> inodes s1 dir \<noteq> None"
  proof -
    have "slab_ok rt gf content jj (snd (materialize_entries dir es [] sl)) \<and>
          inodes (snd (materialize_entries dir es [] sl)) dir \<noteq> None"
    proof (rule materialize_entries_keeps, goal_cases)
      case 1
      then show ?case using ok dir by simp
    next
      case (2 s n nd i)
      then have "\<not> is_dirty nd" "id_ok nd" using clean ids by auto
      then show ?case using 2 slab_ok_refresh [of rt gf content jj s "(dir, n)" i nd]
        by (auto simp: refresh_child_def split: option.splits)
    next
      case (3 s n nd)
      then have "\<not> is_dirty nd" "id_ok nd" using clean ids by auto
      then show ?case using 3 slab_ok_intern [of rt gf content jj s dir nd n]
        by (auto simp: intern_child_def Let_def)
    qed
    then show ?thesis by (simp add: run)
  qed
  have spec: "kids_agree dir cs s1 \<and> nodes_refreshed sl s1"
    using materialize_entries_spec [OF inv _ clean run] by (simp add: kids_agree_def)
  obtain nd where nd: "inodes s1 dir = Some (ino\<lparr>node := nd\<rparr>)"
    using spec dir(1) unfolding nodes_refreshed_def by blast
  define sl' where "sl' = s1\<lparr>inodes := (inodes s1)(dir \<mapsto> ino\<lparr>node := nd\<rparr>\<lparr>node := DirtyTree cs\<rparr>)\<rparr>"
  have eq: "snd (materialize_dir_for_mutation dir es sl) = sl'"
    by (simp add: materialize_dir_for_mutation_def dir run sl'_def) (cases ino, simp)
  have "slab_inv sl'"
    unfolding sl'_def using s1ok nd spec by (intro slab_inv_set_node) (auto simp: slab_ok_def kids_agree_def)
  moreover have "is_dir nd \<or> dir \<noteq> gf \<and> jj \<noteq> Some dir"
    using ok s1ok dir nd unfolding slab_ok_def pinned_ok_def by force
  ultimately show ?thesis
    unfolding eq sl'_def using s1ok nd by (intro slab_ok_set_node) auto
qed

lemma slab_ok_alloc:
  assumes ok: "slab_ok rt gf content jj sl" and p: "inodes sl p \<noteq> None" and nd: "\<And>cs. nd = DirtyTree cs \<Longrightarrow> cs = []"
    and oid: "id_ok nd"
  shows "slab_ok rt gf content jj (snd (alloc_with_ignored p n nd ign sl))"
proof -
  have inv: "slab_inv sl" and pin: "pinned_ok gf content jj sl" using ok by (auto simp: slab_ok_def)
  have "slab_inv (snd (alloc_with_ignored p n nd ign sl))" by (rule alloc_with_ignored_inv [OF inv nd])
  moreover have "pinned_ok gf content jj (snd (alloc_with_ignored p n nd ign sl))"
    using pin by (rule pinned_ok_step)
      (use slab_inv_next_fresh [OF inv] in \<open>auto simp: alloc_with_ignored_def Let_def\<close>)
  moreover have "rooted (snd (alloc_with_ignored p n nd ign sl))" if "rooted sl"
    using that p slab_inv_next_fresh [OF inv]
    by (intro rooted_extend [OF that]) (auto simp: alloc_with_ignored_def Let_def split: if_splits)
  moreover have "ids_ok (snd (alloc_with_ignored p n nd ign sl))"
    using ok oid by (auto simp: slab_ok_def ids_ok_def alloc_with_ignored_def Let_def)
  ultimately show ?thesis using ok by (auto simp: slab_ok_def)
qed

lemma attach_child_cases:
  obtains "attach_child p n c sl = (False, sl)"
  | ino cs where "inodes sl p = Some ino" and "node ino = DirtyTree cs" and "map_of cs n = None"
      and "attach_child p n c sl = (True,
             sl\<lparr>inodes := (inodes sl)(p \<mapsto> ino\<lparr>node := DirtyTree (bt_insert n c cs)\<rparr>),
                by_parent := (by_parent sl)((p, n) \<mapsto> c)\<rparr>)"
proof (cases "\<exists>ino cs. inodes sl p = Some ino \<and> node ino = DirtyTree cs \<and> map_of cs n = None")
  case False
  then have "attach_child p n c sl = (False, sl)"
    by (auto simp: attach_child_def split: option.splits NodeRef.splits)
  then show ?thesis by (rule that(1))
next
  case True
  then obtain ino cs where i: "inodes sl p = Some ino" "node ino = DirtyTree cs" "map_of cs n = None" by blast
  show ?thesis by (rule that(2) [OF i]) (simp add: attach_child_def i)
qed

lemma detach_child_cases:
  obtains "detach_child p n sl = (None, sl)"
  | ino cs c where "inodes sl p = Some ino" and "node ino = DirtyTree cs" and "map_of cs n = Some c"
      and "detach_child p n sl = (Some c,
             sl\<lparr>inodes := (inodes sl)(p \<mapsto> ino\<lparr>node := DirtyTree (bt_remove n cs)\<rparr>),
                by_parent := (by_parent sl)((p, n) := None)\<rparr>)"
proof (cases "\<exists>ino cs c. inodes sl p = Some ino \<and> node ino = DirtyTree cs \<and> map_of cs n = Some c")
  case False
  then have "detach_child p n sl = (None, sl)"
    by (auto simp: detach_child_def split: option.splits NodeRef.splits)
  then show ?thesis by (rule that(1))
next
  case True
  then obtain ino cs c where i: "inodes sl p = Some ino" "node ino = DirtyTree cs" "map_of cs n = Some c" by blast
  show ?thesis by (rule that(2) [OF i]) (simp add: detach_child_def i)
qed

lemma slab_ok_attach:
  assumes ok: "slab_ok rt gf content jj sl"
    and child: "inodes sl c = Some k" "parent k = p" "iname k = n" "c \<noteq> ROOT_INODE" "c \<noteq> gf" "jj \<noteq> Some c"
  shows "slab_ok rt gf content jj (snd (attach_child p n c sl))"
proof (cases rule: attach_child_cases [of p n c sl])
  case 1
  then show ?thesis using ok by simp
next
  case (2 ino cs)
  have inv: "slab_inv sl" and pin: "pinned_ok gf content jj sl" using ok by (auto simp: slab_ok_def)
  have "slab_inv (snd (attach_child p n c sl))" using attach_child_inv [OF inv 2(4) child(1-4)] 2(4) by simp
  moreover have "pinned_ok gf content jj (snd (attach_child p n c sl))"
    using pin by (rule pinned_ok_step) (use 2 child in \<open>auto split: if_splits\<close>)
  moreover have "rooted (snd (attach_child p n c sl))" if "rooted sl"
    by (rule rooted_extend [OF that]) (use 2 in \<open>auto split: if_splits\<close>)
  moreover have "ids_ok (snd (attach_child p n c sl))" using ok 2 by (auto simp: slab_ok_def ids_ok_def)
  ultimately show ?thesis using ok by (auto simp: slab_ok_def)
qed

lemma slab_ok_detach:
  assumes ok: "slab_ok rt gf content jj sl"
  shows "slab_ok rt gf content jj (snd (detach_child p n sl))"
proof (cases rule: detach_child_cases [of p n sl])
  case 1
  then show ?thesis using ok by simp
next
  case (2 ino cs c)
  have inv: "slab_inv sl" and pin: "pinned_ok gf content jj sl" using ok by (auto simp: slab_ok_def)
  have "slab_inv (snd (detach_child p n sl))" by (rule detach_child_inv [OF inv])
  moreover have "pinned_ok gf content jj (snd (detach_child p n sl))"
    using pin by (rule pinned_ok_step) (use 2 in \<open>auto split: if_splits\<close>)
  moreover have "rooted (snd (detach_child p n sl))" if "rooted sl"
    by (rule rooted_extend [OF that]) (use 2 in \<open>auto split: if_splits\<close>)
  moreover have "ids_ok (snd (detach_child p n sl))" using ok 2 by (auto simp: slab_ok_def ids_ok_def)
  ultimately show ?thesis using ok by (auto simp: slab_ok_def)
qed

lemma slab_ok_swap_root:
  assumes ok: "slab_ok rt gf content jj sl" and t: "length t = 20"
  shows "slab_ok rt gf content jj (swap_root t sl)"
proof -
  have inv: "slab_inv sl" and pin: "pinned_ok gf content jj sl" using ok by (auto simp: slab_ok_def)
  have "pinned_ok gf content jj (swap_root t sl)"
    using pin by (rule pinned_ok_step) (auto simp: swap_root_def split: if_splits)
  moreover have "rooted (swap_root t sl)" if "rooted sl"
    by (rule rooted_extend [OF that]) (use slab_inv_root [OF inv] in \<open>auto simp: swap_root_def split: if_splits\<close>)
  moreover have "ids_ok (swap_root t sl)" using ok t by (auto simp: slab_ok_def ids_ok_def swap_root_def)
  ultimately show ?thesis using ok swap_root_inv [OF inv] by (auto simp: slab_ok_def)
qed

lemma slab_ok_replace_node:
  assumes ok: "slab_ok rt gf content jj sl"
    and nd: "\<And>k. inodes sl i = Some k \<Longrightarrow> is_dir (node k) \<and> is_dir nd \<or> i \<noteq> ROOT_INODE \<and> i \<noteq> gf \<and> jj \<noteq> Some i"
    and plain: "\<And>cs. nd \<noteq> DirtyTree cs" and oid: "id_ok nd"
  shows "slab_ok rt gf content jj (snd (replace_node i nd sl))"
proof (cases "inodes sl i")
  case None
  then show ?thesis using ok by (simp add: replace_node_def)
next
  case (Some k)
  have inv: "slab_inv sl" using ok by (simp add: slab_ok_def)
  have "slab_inv (sl\<lparr>inodes := (inodes sl)(i \<mapsto> k\<lparr>node := nd\<rparr>)\<rparr>)"
    using nd [OF Some] plain slab_inv_root [OF inv] Some by (intro slab_inv_set_node [OF inv Some]) auto
  then show ?thesis
    using slab_ok_set_node [OF ok Some, of nd] nd [OF Some] oid by (auto simp: replace_node_def Some)
qed

text \<open>
  The core of a rename. The code attaches the moved inode before it updates its parent and name; the two
  steps commute, and in the other order each of them keeps the invariant.
\<close>

lemma reparent_attach_commute:
  assumes c: "inodes sl c \<noteq> None"
  shows "snd (reparent c p n (snd (attach_child p n c sl))) = snd (attach_child p n c (snd (reparent c p n sl)))"
proof (cases rule: attach_child_cases [of p n c sl])
  case 1
  then have "attach_child p n c (snd (reparent c p n sl)) = (False, snd (reparent c p n sl))"
    using c by (auto simp: attach_child_def reparent_def split: option.splits NodeRef.splits if_splits)
  then show ?thesis using 1 by simp
next
  case (2 ino cs)
  then show ?thesis using c
    by (cases sl; cases ino) (auto simp: reparent_def attach_child_def fun_upd_twist)
qed

lemma slab_ok_reparent:
  assumes ok: "slab_ok rt gf content jj sl" and k: "inodes sl c = Some k"
    and unlisted: "\<forall>key. by_parent sl key \<noteq> Some c" and c: "c \<noteq> ROOT_INODE" "c \<noteq> gf" "jj \<noteq> Some c"
    and p: "inodes sl p \<noteq> None" and nocycle: "rt \<longrightarrow> \<not> below sl c p"
  shows "slab_ok rt gf content jj (snd (reparent c p n sl))"
proof -
  define sl' where "sl' = sl\<lparr>inodes := (inodes sl)(c \<mapsto> k\<lparr>parent := p, iname := n\<rparr>)\<rparr>"
  have inv: "slab_inv sl" and pin: "pinned_ok gf content jj sl" using ok by (auto simp: slab_ok_def)
  have "slab_inv sl'"
  proof (rule slab_invI, goal_cases)
    case 1
    then show ?case using slab_inv_root [OF inv] c by (auto simp: sl'_def)
  next
    case (2 i ino)
    then show ?case using inv k by (auto simp: sl'_def slab_inv_def split: if_splits)
  next
    case (3 q m d)
    then have "by_parent sl (q, m) = Some d" by (simp add: sl'_def)
    then show ?case using slab_inv_byp [OF inv] unlisted by (fastforce simp: sl'_def)
  next
    case (4 d ino cs)
    then show ?case using slab_inv_kids [OF inv, of d] k by (auto simp: sl'_def split: if_splits)
  qed
  moreover have "pinned_ok gf content jj sl'" using pin c unfolding pinned_ok_def sl'_def by auto
  moreover have "ids_ok sl'" using ok k by (auto simp: slab_ok_def ids_ok_def sl'_def)
  moreover have "rooted sl'" if rt
    using rooted_reparent [OF _ k p] ok nocycle that by (simp add: slab_ok_def sl'_def)
  ultimately show ?thesis by (simp add: slab_ok_def reparent_def k sl'_def)
qed

lemma slab_ok_move:
  assumes ok: "slab_ok rt gf content jj sl" and k: "inodes sl c = Some k"
    and unlisted: "\<forall>key. by_parent sl key \<noteq> Some c" and c: "c \<noteq> ROOT_INODE" "c \<noteq> gf" "jj \<noteq> Some c"
    and p: "inodes sl p \<noteq> None" and nocycle: "rt \<longrightarrow> \<not> below sl c p"
  shows "slab_ok rt gf content jj (snd (reparent c p n (snd (attach_child p n c sl))))"
proof -
  have "slab_ok rt gf content jj (snd (reparent c p n sl))"
    by (rule slab_ok_reparent [OF ok k unlisted c p nocycle])
  moreover have "inodes (snd (reparent c p n sl)) c = Some (k\<lparr>parent := p, iname := n\<rparr>)"
    by (simp add: reparent_def k)
  ultimately show ?thesis
    using reparent_attach_commute [of sl c p n] k slab_ok_attach [OF _ _ _ _ c, of rt content "snd (reparent c p n sl)"]
    by simp
qed

section \<open>Operations that only load and promote\<close>

text \<open>
  \<open>quiet fs fs'\<close>: what fetching content and materializing directories may change. Clean nodes may be
  replaced (a directory by its modifiable form), dirty ones stay, nothing moves.
\<close>

definition listing_grows :: "slab \<Rightarrow> slab \<Rightarrow> bool" where
  "listing_grows sl sl' \<longleftrightarrow>
     (\<forall>k c. by_parent sl k = Some c \<longrightarrow> by_parent sl' k = Some c) \<and>
     (\<forall>k c. by_parent sl' k = Some c \<longrightarrow> by_parent sl k = Some c \<or> inodes sl c = None)"

lemma listing_grows_refl [simp, intro]: "listing_grows sl sl"
  by (simp add: listing_grows_def)

lemma listing_growsD:
  "listing_grows sl sl' \<Longrightarrow> by_parent sl k = Some c \<Longrightarrow> by_parent sl' k = Some c"
  "listing_grows sl sl' \<Longrightarrow> by_parent sl' k = Some c \<Longrightarrow> by_parent sl k = Some c \<or> inodes sl c = None"
  unfolding listing_grows_def by metis+

lemma listing_grows_trans:
  assumes ab: "listing_grows a b" "slab_grows a b" and bc: "listing_grows b c"
  shows "listing_grows a c"
  unfolding listing_grows_def
proof (intro conjI allI impI)
  fix k i assume "by_parent a k = Some i"
  then show "by_parent c k = Some i" using ab(1) bc listing_growsD(1) by metis
next
  fix k i assume "by_parent c k = Some i"
  then have "by_parent b k = Some i \<or> inodes b i = None" using bc listing_growsD(2) by metis
  moreover have "inodes b i = None \<Longrightarrow> inodes a i = None" using ab(2) by (auto simp: slab_grows_def dom_def)
  ultimately show "by_parent a k = Some i \<or> inodes a i = None"
    using ab(1) listing_growsD(2) by metis
qed

lemma listing_grows_intern:
  assumes "slab_inv sl" shows "listing_grows sl (snd (intern_child p n nd sl))"
proof (cases "by_parent sl (p, n)")
  case None
  then show ?thesis using slab_inv_next_fresh [OF assms]
    unfolding listing_grows_def intern_child_def Let_def by simp
qed (simp add: intern_child_def)

lemma listing_grows_materialize:
  assumes inv: "slab_inv sl" and clean: "\<forall>(n, nd) \<in> set es. \<not> is_dirty nd"
  shows "listing_grows sl (snd (materialize_dir_for_mutation dir es sl))"
proof -
  define J where "J = (\<lambda>s. slab_inv s \<and> slab_grows sl s \<and> listing_grows sl s)"
  have "J (snd (materialize_entries dir es [] sl))"
  proof (rule materialize_entries_keeps, goal_cases)
    case 1
    then show ?case using inv by (simp add: J_def)
  next
    case (2 s n nd i)
    then have "slab_inv (refresh_child i nd s)" using refresh_child_inv clean by (fastforce simp: J_def)
    moreover have "by_parent (refresh_child i nd s) = by_parent s" by simp
    ultimately show ?case
      using 2(1) refresh_child_grows [of s i nd] slab_grows_trans by (auto simp: J_def listing_grows_def)
  next
    case (3 s n nd)
    then have s: "slab_inv s" "slab_grows sl s" "listing_grows sl s" by (auto simp: J_def)
    have "slab_inv (snd (intern_child dir n nd s))" by (rule intern_child_inv [OF s(1)]) (use 3(2) clean in auto)
    then show ?case
      using listing_grows_trans [OF s(3,2) listing_grows_intern [OF s(1)]]
        slab_grows_trans [OF s(2) intern_child_grows [OF s(1)]] by (simp add: J_def)
  qed
  then show ?thesis
    by (auto simp: materialize_dir_for_mutation_def J_def listing_grows_def
        split: option.splits NodeRef.splits prod.splits)
qed

definition quiet :: "'g kiki_fs \<Rightarrow> 'g kiki_fs \<Rightarrow> bool" where
  "quiet fs fs' \<longleftrightarrow> fs_evolves fs fs' \<and> nodes_refreshed (fs_slab fs) (fs_slab fs') \<and>
     listing_grows (fs_slab fs) (fs_slab fs') \<and>
     jj_subtree fs' = jj_subtree fs \<and> ignore_rules fs' = ignore_rules fs \<and>
     redirections fs' = redirections fs \<and> commit_mtime fs' = commit_mtime fs \<and>
     gitignore_chain fs' = gitignore_chain fs \<and> create_dir_all fs' = create_dir_all fs"

lemma quiet_refl [simp, intro]: "quiet fs fs"
  by (simp add: quiet_def)

lemma quiet_trans [trans]: "quiet a b \<Longrightarrow> quiet b c \<Longrightarrow> quiet a c"
  using fs_evolves_trans nodes_refreshed_trans listing_grows_trans unfolding quiet_def
  by (metis fs_evolves_def)

lemma quiet_evolves: "quiet a b \<Longrightarrow> fs_evolves a b"
  by (simp add: quiet_def)

lemma quiet_parent:
  "quiet a b \<Longrightarrow> inodes (fs_slab a) i = Some k \<Longrightarrow>
   \<exists>k'. inodes (fs_slab b) i = Some k' \<and> parent k' = parent k \<and> iname k' = iname k \<and> ignored k' = ignored k"
  unfolding quiet_def nodes_refreshed_def by fastforce

definition quiet_inv :: "bool \<Rightarrow> 'g kiki_fs \<Rightarrow> 'g kiki_fs \<Rightarrow> bool" where
  "quiet_inv rt fs0 fs \<longleftrightarrow> fs_inv rt fs \<and> quiet fs0 fs"

lemma quiet_inv_refl: "fs_inv rt fs \<Longrightarrow> quiet_inv rt fs fs"
  by (simp add: quiet_inv_def)

lemma quiet_store:
  assumes "fs_inv rt fs" and "store_extends (store fs) st"
  shows "fs_inv rt (fs\<lparr>store := st\<rparr>)" and "quiet fs (fs\<lparr>store := st\<rparr>)"
  using assms by (auto simp: fs_inv_def quiet_def fs_evolves_def store_extends_def)

lemma hoare_get_inode:
  "(\<And>fs ino. P fs \<Longrightarrow> inodes (fs_slab fs) i = Some ino \<Longrightarrow> Q ino fs) \<Longrightarrow> (\<And>fs. P fs \<Longrightarrow> E fs) \<Longrightarrow>
   hoare P (get_inode i) Q E"
  by (simp add: get_inode_def hoare_fetch_or slab_get_def)

lemma hoare_on_slab:
  "(\<And>fs a sl. P fs \<Longrightarrow> f (fs_slab fs) = (a, sl) \<Longrightarrow> Q a (fs\<lparr>fs_slab := sl\<rparr>)) \<Longrightarrow> hoare P (on_slab f) Q E"
  by (auto simp: hoare_def on_slab_def split: prod.splits)

lemma read_through_cases:
  assumes "read_through l f fs = (r, fs')"
    and ext: "\<And>rm. store_extends (store fs) (snd (f rm (store fs)))"
    and got: "\<And>rm a st. f rm (store fs) = (Inr a, st) \<Longrightarrow> l st = Inr (Some a)"
  obtains st where "fs' = fs\<lparr>store := st\<rparr>" and "store_extends (store fs) st"
    and "\<And>a. r = Ok a \<Longrightarrow> l st = Inr (Some a)" and "r \<noteq> Panic" and "r \<noteq> Diverge"
proof (cases "l (store fs)")
  case (Inl e)
  then show ?thesis using assms(1) by (intro that [of "store fs"]) (auto simp: read_through_def)
next
  case (Inr o1)
  show ?thesis
  proof (cases o1)
    case (Some a)
    then show ?thesis using assms(1) Inr by (intro that [of "store fs"]) (auto simp: read_through_def)
  next
    case None
    show ?thesis
    proof (cases "remote fs")
      case None
      then show ?thesis using assms(1) Inr \<open>o1 = None\<close>
        by (intro that [of "store fs"]) (auto simp: read_through_def)
    next
      case (Some rm)
      obtain x st where x: "f rm (store fs) = (x, st)" by fastforce
      have "store_extends (store fs) st" using ext [of rm] x by simp
      then show ?thesis using assms(1) Inr \<open>o1 = None\<close> Some x got [of rm]
        by (intro that [of st]) (auto simp: read_through_def split: sum.splits)
    qed
  qed
qed

lemma hoare_read_through:
  assumes "\<And>fs rm. fs_inv rt fs \<Longrightarrow> store_extends (store fs) (snd (f rm (store fs)))"
    and "\<And>fs rm a st. fs_inv rt fs \<Longrightarrow> f rm (store fs) = (Inr a, st) \<Longrightarrow> l st = Inr (Some a)"
  shows "hoare (\<lambda>fs. quiet_inv rt fs0 fs \<and> R (fs_slab fs)) (read_through l f)
           (\<lambda>a fs. quiet_inv rt fs0 fs \<and> R (fs_slab fs) \<and> l (store fs) = Inr (Some a))
           (quiet_inv rt fs0)"
proof -
  have post: "quiet_inv rt fs0 fs' \<and> fs_slab fs' = fs_slab fs \<and> (\<forall>a. r = Ok a \<longrightarrow> l (store fs') = Inr (Some a))"
    if pre: "quiet_inv rt fs0 fs" and run: "read_through l f fs = (r, fs')" for fs r fs'
  proof -
    have inv: "fs_inv rt fs" using pre by (simp add: quiet_inv_def)
    show ?thesis
    proof (rule read_through_cases [OF run assms(1) [OF inv] assms(2) [OF inv]])
      fix st assume st: "fs' = fs\<lparr>store := st\<rparr>" "store_extends (store fs) st" "\<And>a. r = Ok a \<Longrightarrow> l st = Inr (Some a)"
      have "quiet fs0 fs'" using pre quiet_store(2) [OF inv st(2)] st(1) by (auto simp: quiet_inv_def intro: quiet_trans)
      then show ?thesis using quiet_store(1) [OF inv st(2)] st by (simp add: quiet_inv_def)
    qed
  qed
  show ?thesis by (rule hoareI) (use post in \<open>metis\<close>)+
qed

lemma hoare_read_tree:
  "hoare (\<lambda>fs. quiet_inv rt fs0 fs \<and> R (fs_slab fs)) (read_tree oid)
     (\<lambda>es fs. quiet_inv rt fs0 fs \<and> R (fs_slab fs) \<and> git_read_tree (store fs) oid = Inr (Some es)) (quiet_inv rt fs0)"
  unfolding read_tree_def
  by (rule hoare_read_through) (auto simp: fs_inv_def intro: fetch_extends fetch_tree_spec)

lemma hoare_read_file:
  "hoare (\<lambda>fs. quiet_inv rt fs0 fs \<and> R (fs_slab fs)) (read_file oid)
     (\<lambda>b fs. quiet_inv rt fs0 fs \<and> R (fs_slab fs) \<and> git_read_file (store fs) oid = Inr (Some b)) (quiet_inv rt fs0)"
  unfolding read_file_def
  by (rule hoare_read_through) (auto simp: fs_inv_def intro: fetch_extends fetch_file_spec)

lemma hoare_read_symlink:
  "hoare (\<lambda>fs. quiet_inv rt fs0 fs \<and> R (fs_slab fs)) (read_symlink oid)
     (\<lambda>b fs. quiet_inv rt fs0 fs \<and> R (fs_slab fs) \<and> git_read_symlink (store fs) oid = Inr (Some b)) (quiet_inv rt fs0)"
  unfolding read_symlink_def
  by (rule hoare_read_through) (auto simp: fs_inv_def intro: fetch_extends fetch_symlink_spec)

lemma quiet_inv_slab:
  assumes "quiet_inv rt fs0 fs"
    and "slab_ok rt (git_file fs) (git_file_content fs) (jj_subtree fs) sl"
    and "slab_grows (fs_slab fs) sl" and "nodes_refreshed (fs_slab fs) sl" and "listing_grows (fs_slab fs) sl"
  shows "quiet_inv rt fs0 (fs\<lparr>fs_slab := sl\<rparr>)"
proof -
  have "quiet fs (fs\<lparr>fs_slab := sl\<rparr>)" using assms by (auto simp: quiet_def fs_evolves_def db_extends_def)
  then show ?thesis using assms by (auto simp: quiet_inv_def fs_inv_def intro: quiet_trans)
qed

lemma entries_to_nodes_clean: "entries_to_nodes tree = Some es \<Longrightarrow> \<forall>(n, nd) \<in> set es. \<not> is_dirty nd"
proof (induction tree arbitrary: es)
  case (Cons e tree)
  then show ?case
    by (auto simp: entry_to_node_def split: option.splits if_splits GitEntryKind.splits)
qed simp

lemma entries_to_nodes_ids: "entries_to_nodes tree = Some es \<Longrightarrow> \<forall>(n, nd) \<in> set es. id_ok nd"
proof (induction tree arbitrary: es)
  case (Cons e tree)
  then show ?case
    by (auto simp: entry_to_node_def split: option.splits if_splits GitEntryKind.splits)
qed simp

lemma quiet_inv_slab_ok:
  "quiet_inv rt fs0 fs \<Longrightarrow> slab_ok rt (git_file fs) (git_file_content fs) (jj_subtree fs) (fs_slab fs)"
  by (simp add: quiet_inv_def fs_inv_def)

lemma quiet_inv_slab_inv: "quiet_inv rt fs0 fs \<Longrightarrow> slab_inv (fs_slab fs)"
  by (simp add: quiet_inv_def fs_inv_def slab_ok_def)

definition dirty_dir :: "inode_id \<Rightarrow> slab \<Rightarrow> bool" where
  "dirty_dir dir sl \<longleftrightarrow> (\<exists>ino cs. inodes sl dir = Some ino \<and> node ino = DirtyTree cs)"

lemma dirty_dir_quiet: "quiet a b \<Longrightarrow> dirty_dir d (fs_slab a) \<Longrightarrow> dirty_dir d (fs_slab b)"
  by (fastforce simp: quiet_def nodes_refreshed_def dirty_dir_def)

text \<open>The state of a directory that was clean, after \<open>materialize_dir_for_mutation\<close>.\<close>

lemma quiet_inv_materialize:
  assumes pre: "quiet_inv rt fs0 fs" and dir: "inodes (fs_slab fs) dir = Some ino" "node ino = Tree t"
    and es: "\<forall>(n, nd) \<in> set es. \<not> is_dirty nd" "\<forall>(n, nd) \<in> set es. id_ok nd"
    and run: "materialize_dir_for_mutation dir es (fs_slab fs) = (r, sl)"
  shows "quiet_inv rt fs0 (fs\<lparr>fs_slab := sl\<rparr>) \<and> r \<noteq> None \<and> dirty_dir dir sl"
proof -
  obtain cs sl' where m: "materialize_dir_for_mutation dir es (fs_slab fs) = (Some cs, sl')"
      "slab_grows (fs_slab fs) sl'" "inodes sl' dir = Some (ino\<lparr>node := DirtyTree cs\<rparr>)"
      "\<And>i k. i \<noteq> dir \<Longrightarrow> inodes (fs_slab fs) i = Some k \<Longrightarrow>
           \<exists>nd. inodes sl' i = Some (k\<lparr>node := nd\<rparr>) \<and> (is_dirty (node k) \<longrightarrow> nd = node k)"
    using materialize_dir_clean [OF quiet_inv_slab_inv [OF pre] dir es(1)] by metis
  have eq: "sl = sl'" "r = Some cs" using run m(1) by auto
  have "nodes_refreshed (fs_slab fs) sl'"
    unfolding nodes_refreshed_def
  proof (intro allI impI)
    fix i k assume "inodes (fs_slab fs) i = Some k"
    then show "\<exists>nd. inodes sl' i = Some (k\<lparr>node := nd\<rparr>) \<and> (is_dirty (node k) \<longrightarrow> nd = node k)"
      using m(3,4) dir by (cases "i = dir") auto
  qed
  moreover have "slab_ok rt (git_file fs) (git_file_content fs) (jj_subtree fs) sl'"
    using slab_ok_materialize [OF quiet_inv_slab_ok [OF pre] es, of dir] m(1) by simp
  moreover have "listing_grows (fs_slab fs) sl'"
    using listing_grows_materialize [OF quiet_inv_slab_inv [OF pre] es(1), of dir] m(1) by simp
  ultimately show ?thesis
    using quiet_inv_slab [OF pre _ m(2)] m(3) by (simp add: eq dirty_dir_def)
qed

lemma hoare_materialize_single_tree:
  "hoare (quiet_inv rt fs0) (materialize_single_tree dir)
     (\<lambda>_ fs. quiet_inv rt fs0 fs \<and> dirty_dir dir (fs_slab fs)) (quiet_inv rt fs0)"
proof (unfold materialize_single_tree_def, rule hoare_seq [where Q = "\<lambda>ino fs. quiet_inv rt fs0 fs \<and>
    inodes (fs_slab fs) dir = Some ino"], goal_cases)
  case 1
  show ?case by (rule hoare_get_inode) auto
next
  case (2 ino)
  show ?case
  proof (cases "node ino")
    case (Tree t)
    have m: "hoare (\<lambda>fs. quiet_inv rt fs0 fs \<and> inodes (fs_slab fs) dir = Some ino)
        (on_slab (materialize_dir_for_mutation dir es))
        (\<lambda>r fs. quiet_inv rt fs0 fs \<and> r \<noteq> None \<and> dirty_dir dir (fs_slab fs)) (quiet_inv rt fs0)"
      if "\<forall>(n, nd) \<in> set es. \<not> is_dirty nd" "\<forall>(n, nd) \<in> set es. id_ok nd" for es
      by (rule hoare_on_slab) (simp, use quiet_inv_materialize [OF _ _ Tree that] in blast)
    have "hoare (\<lambda>fs. quiet_inv rt fs0 fs \<and> inodes (fs_slab fs) dir = Some ino)
       (case entries_to_nodes tree of
           None \<Rightarrow> panic
         | Some entries \<Rightarrow>
             seq (on_slab (materialize_dir_for_mutation dir entries)) (\<lambda>r.
             case r of None \<Rightarrow> throw NotADirectory | Some _ \<Rightarrow> ret ()))
       (\<lambda>_ fs. quiet_inv rt fs0 fs \<and> dirty_dir dir (fs_slab fs)) (quiet_inv rt fs0)" for tree
      by (intro hoare_case_option hoare_panic hoare_seq [OF m] entries_to_nodes_clean entries_to_nodes_ids)
        (auto intro!: hoare_case_option hoare_throw hoare_ret)
    then show ?thesis
      by (simp add: Tree) (rule hoare_seq [OF hoare_read_tree [where R = "\<lambda>sl. inodes sl dir = Some ino"]],
        auto intro: hoare_pre)
  qed (auto intro!: hoare_ret hoare_throw simp: dirty_dir_def)
qed


lemma hoare_inside_jj_loop: "hoare (quiet_inv rt fs0) (inside_jj_loop fuel jj probe) (\<lambda>_. quiet_inv rt fs0) (quiet_inv rt fs0)"
proof (induction fuel jj probe rule: inside_jj_loop.induct)
  case (1 jj probe)
  show ?case by (simp add: hoare_diverge)
next
  case (2 fuel jj probe)
  show ?case
    unfolding inside_jj_loop.simps
    by (rule hoare_if, rule hoare_ret, assumption,
        rule hoare_seq [OF hoare_get_inode [where Q = "\<lambda>_. quiet_inv rt fs0"]])
      (auto intro: hoare_if hoare_ret 2)
qed

lemma hoare_inside_jj: "hoare (quiet_inv rt fs0) (inside_jj dir) (\<lambda>_. quiet_inv rt fs0) (quiet_inv rt fs0)"
proof -
  have eq: "inside_jj dir = (\<lambda>fs. (\<lambda>(fuel, jj). case jj of Some j \<Rightarrow> inside_jj_loop fuel j dir | None \<Rightarrow> ret False)
      (fs_fuel fs, jj_subtree fs) fs)"
    by (rule ext) (simp add: inside_jj_def ret_def split: option.split)
  show ?thesis unfolding eq
    by (rule hoare_dep) (auto split: option.split intro: hoare_ret hoare_pre [OF hoare_inside_jj_loop])
qed

lemma hoare_dirty_ancestors_loop:
  "hoare (quiet_inv rt fs0) (dirty_ancestors_loop fuel current) (\<lambda>_. quiet_inv rt fs0) (quiet_inv rt fs0)"
proof (induction fuel arbitrary: current)
  case 0
  show ?case by (simp add: hoare_diverge)
next
  case (Suc fuel)
  have up: "hoare (quiet_inv rt fs0) (seq (materialize_single_tree p) (\<lambda>_. dirty_ancestors_loop fuel p))
      (\<lambda>_. quiet_inv rt fs0) (quiet_inv rt fs0)" for p
    by (rule hoare_seq [OF hoare_materialize_single_tree]) (auto intro: hoare_pre [OF Suc.IH])
  show ?case
    unfolding dirty_ancestors_loop.simps
    by (rule hoare_seq [OF hoare_get_inode [where Q = "\<lambda>_. quiet_inv rt fs0"]], assumption, assumption,
        rule hoare_if, rule hoare_ret, assumption,
        rule hoare_seq [OF hoare_get_inode [where Q = "\<lambda>_. quiet_inv rt fs0"]])
      (auto intro: hoare_ret up split: NodeRef.split)
qed

lemma hoare_ensure_dirty_tree:
  "hoare (quiet_inv rt fs0) (ensure_dirty_tree dir)
     (\<lambda>_ fs. quiet_inv rt fs0 fs \<and> dirty_dir dir (fs_slab fs)) (quiet_inv rt fs0)"
  unfolding ensure_dirty_tree_def
proof (rule hoare_seq [OF hoare_inside_jj], rule hoare_seq [OF hoare_materialize_single_tree], rule hoare_if)
  show "hoare (\<lambda>fs. quiet_inv rt fs0 fs \<and> dirty_dir dir (fs_slab fs)) (ret ())
     (\<lambda>_ fs. quiet_inv rt fs0 fs \<and> dirty_dir dir (fs_slab fs)) (quiet_inv rt fs0)"
    by (rule hoare_ret)
  show "hoare (\<lambda>fs. quiet_inv rt fs0 fs \<and> dirty_dir dir (fs_slab fs)) (\<lambda>fs. dirty_ancestors_loop (fs_fuel fs) dir fs)
     (\<lambda>_ fs. quiet_inv rt fs0 fs \<and> dirty_dir dir (fs_slab fs)) (quiet_inv rt fs0)"
  proof (rule hoareI)
    fix fs :: "'a kiki_fs" and u fs'
    assume fs: "quiet_inv rt fs0 fs \<and> dirty_dir dir (fs_slab fs)" and run: "dirty_ancestors_loop (fs_fuel fs) dir fs = (Ok u, fs')"
    have "quiet_inv rt fs fs" using fs by (simp add: quiet_inv_def)
    from hoare_Ok [OF hoare_dirty_ancestors_loop this run] have q: "quiet_inv rt fs fs'" .
    then show "quiet_inv rt fs0 fs' \<and> dirty_dir dir (fs_slab fs')"
      using fs dirty_dir_quiet quiet_trans by (auto simp: quiet_inv_def)
  next
    fix fs :: "'a kiki_fs" and r fs'
    assume "quiet_inv rt fs0 fs \<and> dirty_dir dir (fs_slab fs)" and "dirty_ancestors_loop (fs_fuel fs) dir fs = (r, fs')"
    then show "quiet_inv rt fs0 fs'" using hoare_any [OF hoare_dirty_ancestors_loop] by blast
  qed
qed

text \<open>The rules above with a postcondition weakened to the invariant, for the loops and case splits.\<close>

lemma hoare_get_inode_quiet:
  "hoare (quiet_inv rt fs0) (get_inode i) (\<lambda>ino fs. quiet_inv rt fs0 fs \<and> inodes (fs_slab fs) i = Some ino) (quiet_inv rt fs0)"
  by (rule hoare_get_inode) auto

lemma keeps_read_tree: "hoare (quiet_inv rt fs0) (read_tree oid) (\<lambda>_. quiet_inv rt fs0) (quiet_inv rt fs0)"
  by (rule hoare_weaken [OF hoare_read_tree [where R = "\<lambda>_. True"]]) auto

lemma keeps_read_file: "hoare (quiet_inv rt fs0) (read_file oid) (\<lambda>_. quiet_inv rt fs0) (quiet_inv rt fs0)"
  by (rule hoare_weaken [OF hoare_read_file [where R = "\<lambda>_. True"]]) auto

lemma keeps_read_symlink: "hoare (quiet_inv rt fs0) (read_symlink oid) (\<lambda>_. quiet_inv rt fs0) (quiet_inv rt fs0)"
  by (rule hoare_weaken [OF hoare_read_symlink [where R = "\<lambda>_. True"]]) auto

lemma keeps_get_inode: "hoare (quiet_inv rt fs0) (get_inode i) (\<lambda>_. quiet_inv rt fs0) (quiet_inv rt fs0)"
  by (rule hoare_get_inode) auto

lemma quiet_reads: "hoare (quiet_inv rt fs0) (reads f) (\<lambda>_. quiet_inv rt fs0) (quiet_inv rt fs0)"
  by (rule hoare_reads) auto

lemmas quiet_keeps = keeps_read_tree keeps_read_file keeps_read_symlink keeps_get_inode quiet_reads

lemma keeps_repo_path_str: "hoare (quiet_inv rt fs0) (repo_path_str p n) (\<lambda>_. quiet_inv rt fs0) (quiet_inv rt fs0)"
  by (auto simp: hoare_def repo_path_str_def split: option.splits)

lemma keeps_is_ignored: "hoare (quiet_inv rt fs0) (is_ignored p n d) (\<lambda>_. quiet_inv rt fs0) (quiet_inv rt fs0)"
  unfolding is_ignored_def
  by (intro hoare_seq [OF quiet_reads] hoare_seq [OF keeps_repo_path_str] hoare_if hoare_ret quiet_reads)

lemma keeps_attr_for: "hoare (quiet_inv rt fs0) (attr_for i) (\<lambda>_. quiet_inv rt fs0) (quiet_inv rt fs0)"
  unfolding attr_for_def Let_def
  by (rule hoare_seq [OF keeps_get_inode], rule hoare_seq [OF quiet_reads])
    (auto intro!: hoare_seq [OF keeps_read_file] hoare_seq [OF keeps_read_symlink] hoare_ret split: NodeRef.split)

lemma keeps_child_exists: "hoare (quiet_inv rt fs0) (child_exists p n) (\<lambda>_. quiet_inv rt fs0) (quiet_inv rt fs0)"
  unfolding child_exists_def
  by (intro hoare_seq [OF quiet_reads] hoare_if hoare_ret hoare_seq [OF keeps_get_inode])
    (auto intro!: hoare_seq [OF keeps_read_tree] hoare_ret hoare_throw split: NodeRef.split)

lemma hoare_ensure_dirty_file:
  "hoare (quiet_inv rt fs0) (ensure_dirty_file i)
     (\<lambda>_ fs. quiet_inv rt fs0 fs \<and> (\<exists>k c x. inodes (fs_slab fs) i = Some k \<and> node k = DirtyFile c x)) (quiet_inv rt fs0)"
  unfolding ensure_dirty_file_def
proof (rule hoare_seq [OF hoare_get_inode_quiet], goal_cases)
  case (1 ino)
  show ?case
  proof (cases "node ino")
    case (File oid ex)
    have w: "hoare (\<lambda>fs. quiet_inv rt fs0 fs \<and> inodes (fs_slab fs) i = Some ino)
        (on_slab (replace_node i (DirtyFile content ex)))
        (\<lambda>_ fs. quiet_inv rt fs0 fs \<and> (\<exists>k c x. inodes (fs_slab fs) i = Some k \<and> node k = DirtyFile c x))
        (quiet_inv rt fs0)" for content
    proof (rule hoare_on_slab)
      fix fs b sl
      assume pre: "quiet_inv rt fs0 fs \<and> inodes (fs_slab fs) i = Some ino"
        and run: "replace_node i (DirtyFile content ex) (fs_slab fs) = (b, sl)"
      have ok: "slab_ok rt (git_file fs) (git_file_content fs) (jj_subtree fs) (fs_slab fs)"
        using quiet_inv_slab_ok pre by blast
      have np: "i \<noteq> ROOT_INODE \<and> i \<noteq> git_file fs \<and> jj_subtree fs \<noteq> Some i"
        using ok pre File slab_inv_root [of "fs_slab fs"] unfolding slab_ok_def pinned_ok_def by fastforce
      have sl: "sl = (fs_slab fs)\<lparr>inodes := (inodes (fs_slab fs))(i \<mapsto> ino\<lparr>node := DirtyFile content ex\<rparr>)\<rparr>"
        using run pre by (simp add: replace_node_def)
      have "nodes_refreshed (fs_slab fs) sl" using pre File by (auto simp: nodes_refreshed_def sl)
      moreover have "slab_ok rt (git_file fs) (git_file_content fs) (jj_subtree fs) sl"
        using slab_ok_replace_node [OF ok, of i "DirtyFile content ex"] np run by simp
      moreover have "slab_grows (fs_slab fs) sl" using replace_node_grows run by (metis snd_conv)
      moreover have "listing_grows (fs_slab fs) sl" by (simp add: listing_grows_def sl)
      ultimately show "quiet_inv rt fs0 (fs\<lparr>fs_slab := sl\<rparr>) \<and>
          (\<exists>k c x. inodes (fs_slab (fs\<lparr>fs_slab := sl\<rparr>)) i = Some k \<and> node k = DirtyFile c x)"
        using quiet_inv_slab [of rt fs0 fs sl] pre by (simp add: sl)
    qed
    show ?thesis
      by (simp add: File, rule hoare_seq [OF hoare_read_file [where R = "\<lambda>sl. inodes sl i = Some ino"]],
          rule hoare_seq [OF hoare_pre [OF w]]) (auto intro: hoare_ret)
  qed (auto intro!: hoare_ret hoare_throw)
qed

lemma keeps_intern_child:
  assumes nd: "\<not> is_dirty nd" "id_ok nd"
  shows "hoare (\<lambda>fs. quiet_inv rt fs0 fs \<and> inodes (fs_slab fs) p \<noteq> None) (on_slab (intern_child p n nd))
           (\<lambda>_ fs. quiet_inv rt fs0 fs \<and> inodes (fs_slab fs) p \<noteq> None) (quiet_inv rt fs0)"
proof (rule hoare_on_slab)
  fix fs c sl
  assume pre: "quiet_inv rt fs0 fs \<and> inodes (fs_slab fs) p \<noteq> None" and run: "intern_child p n nd (fs_slab fs) = (c, sl)"
  then have inv: "slab_inv (fs_slab fs)" using quiet_inv_slab_inv by blast
  have "slab_grows (fs_slab fs) sl" "nodes_refreshed (fs_slab fs) sl"
    using intern_child_grows [OF inv] intern_child_refreshed [OF inv] run by (metis snd_conv)+
  moreover have "slab_ok rt (git_file fs) (git_file_content fs) (jj_subtree fs) sl"
    using slab_ok_intern [OF quiet_inv_slab_ok _ nd] pre run by (metis snd_conv)
  moreover have "listing_grows (fs_slab fs) sl" using listing_grows_intern [OF inv] run by (metis snd_conv)
  moreover have "inodes sl p \<noteq> None"
    using \<open>slab_grows (fs_slab fs) sl\<close> pre by (auto simp: slab_grows_def)
  ultimately show "quiet_inv rt fs0 (fs\<lparr>fs_slab := sl\<rparr>) \<and> inodes (fs_slab (fs\<lparr>fs_slab := sl\<rparr>)) p \<noteq> None"
    using quiet_inv_slab [of rt fs0 fs sl] pre by simp
qed

lemma entry_to_node_clean: "entry_to_node e = Some nd \<Longrightarrow> \<not> is_dirty nd"
  by (auto simp: entry_to_node_def split: if_splits GitEntryKind.splits)

lemma entry_to_node_ids: "entry_to_node e = Some nd \<Longrightarrow> id_ok nd"
  by (auto simp: entry_to_node_def split: if_splits GitEntryKind.splits)

lemma keeps_fs_lookup: "hoare (quiet_inv rt fs0) (fs_lookup p n) (\<lambda>_. quiet_inv rt fs0) (quiet_inv rt fs0)"
  unfolding fs_lookup_def
proof (intro hoare_if quiet_reads hoare_seq [OF quiet_reads] hoare_ret hoare_seq [OF hoare_get_inode_quiet], assumption, goal_cases)
  case (1 jj ino)
  show ?case
  proof (cases "node ino")
    case (Tree t)
    show ?thesis
      by (simp add: Tree, rule hoare_seq [OF hoare_read_tree [where R = "\<lambda>sl. inodes sl p = Some ino"]])
        (auto intro!: hoare_case_option hoare_throw hoare_panic
          hoare_weaken [OF keeps_intern_child [OF entry_to_node_clean entry_to_node_ids]])
  next
    case (DirtyTree cs)
    show ?thesis by (auto simp: DirtyTree intro!: hoare_case_option hoare_ret hoare_throw)
  qed (auto intro!: hoare_throw)
qed

lemma keeps_readdir_dirty:
  "hoare (quiet_inv rt fs0) (readdir_dirty r jj cs) (\<lambda>_. quiet_inv rt fs0) (quiet_inv rt fs0)"
proof (induction r jj cs rule: readdir_dirty.induct)
  case (2 r jj n c cs)
  show ?case
    unfolding readdir_dirty.simps
    by (rule hoare_if, rule 2(1), assumption, rule hoare_seq [OF keeps_get_inode], rule hoare_seq [OF 2(2)])
      (auto intro: hoare_ret)
qed (simp add: hoare_ret)

lemma keeps_readdir_clean:
  "hoare (\<lambda>fs. quiet_inv rt fs0 fs \<and> inodes (fs_slab fs) dir \<noteq> None) (readdir_clean dir r jj es)
     (\<lambda>_. quiet_inv rt fs0) (quiet_inv rt fs0)"
proof (induction es)
  case (Cons e es)
  show ?case
    unfolding readdir_clean.simps
    by (rule hoare_if, rule Cons.IH, rule hoare_case_option, rule hoare_panic, simp,
        rule hoare_seq [OF keeps_intern_child [OF entry_to_node_clean entry_to_node_ids]], assumption, assumption,
        rule hoare_seq [OF Cons.IH]) (auto intro: hoare_ret)
qed (auto intro!: hoare_ret)

lemma keeps_fs_readdir: "hoare (quiet_inv rt fs0) (fs_readdir dir) (\<lambda>_. quiet_inv rt fs0) (quiet_inv rt fs0)"
  unfolding fs_readdir_def
proof (rule hoare_seq [OF hoare_get_inode_quiet], goal_cases)
  case (1 ino)
  define P where "P = (\<lambda>fs. quiet_inv rt fs0 fs \<and> inodes (fs_slab fs) dir = Some ino)"
  have r: "hoare P (reads f) (\<lambda>_. P) (quiet_inv rt fs0)" for f
    by (rule hoare_reads)
  show ?case
    unfolding P_def [symmetric]
  proof (rule hoare_seq [OF r], rule hoare_seq [OF r], goal_cases)
    case (1 pinned gf)
    have t: "hoare P (read_tree t) (\<lambda>_ fs. quiet_inv rt fs0 fs \<and> inodes (fs_slab fs) dir \<noteq> None) (quiet_inv rt fs0)" for t
      unfolding P_def by (rule hoare_weaken [OF hoare_read_tree [where R = "\<lambda>sl. inodes sl dir = Some ino"]]) auto
    show ?case
    proof (cases "node ino")
      case (Tree t)
      then show ?thesis
        by (simp add: dir_tree_def)
          (rule hoare_seq [OF t], rule hoare_seq [OF keeps_readdir_clean], rule hoare_ret)
    next
      case (DirtyTree cs)
      then show ?thesis
        by (auto intro!: hoare_seq [OF hoare_pre [OF keeps_readdir_dirty]] hoare_ret simp: P_def)
    qed (auto intro!: hoare_throw simp: P_def)
  qed
qed

lemma keeps_fs_readlink: "hoare (quiet_inv rt fs0) (fs_readlink i) (\<lambda>_. quiet_inv rt fs0) (quiet_inv rt fs0)"
  unfolding fs_readlink_def
  by (rule hoare_seq [OF keeps_get_inode]) (auto intro: keeps_read_symlink hoare_ret hoare_throw split: NodeRef.split)

lemma keeps_fs_read: "hoare (quiet_inv rt fs0) (fs_read i off cnt) (\<lambda>_. quiet_inv rt fs0) (quiet_inv rt fs0)"
  unfolding fs_read_def
  by (rule hoare_seq [OF keeps_get_inode])
    (auto intro!: hoare_seq [OF keeps_read_file] hoare_ret hoare_throw split: NodeRef.split)

lemma keeps_fs_getattr: "hoare (quiet_inv rt fs0) (fs_getattr i) (\<lambda>_. quiet_inv rt fs0) (quiet_inv rt fs0)"
  unfolding fs_getattr_def by (rule keeps_attr_for)

section \<open>Operations that change the tree\<close>

definition evo_inv :: "bool \<Rightarrow> 'g kiki_fs \<Rightarrow> 'g kiki_fs \<Rightarrow> bool" where
  "evo_inv rt fs0 fs \<longleftrightarrow> fs_inv rt fs \<and> fs_evolves fs0 fs"

lemma evo_inv_refl: "fs_inv rt fs \<Longrightarrow> evo_inv rt fs fs"
  by (simp add: evo_inv_def)

text \<open>A quiet operation inside one that is not: a fact that quiet steps keep stays true.\<close>

lemma hoare_quiet:
  assumes m: "\<And>fs1. hoare (quiet_inv rt fs1) m (\<lambda>a fs. quiet_inv rt fs1 fs \<and> S a fs) (quiet_inv rt fs1)"
    and R: "\<And>a b. quiet a b \<Longrightarrow> R a \<Longrightarrow> R b"
  shows "hoare (\<lambda>fs. evo_inv rt fs0 fs \<and> R fs) m (\<lambda>a fs. evo_inv rt fs0 fs \<and> R fs \<and> S a fs) (evo_inv rt fs0)"
proof (rule hoareI)
  fix fs a fs' assume pre: "evo_inv rt fs0 fs \<and> R fs" and run: "m fs = (Ok a, fs')"
  then have "quiet_inv rt fs fs" by (simp add: evo_inv_def quiet_inv_refl)
  from hoare_Ok [OF m this run] show "evo_inv rt fs0 fs' \<and> R fs' \<and> S a fs'"
    using pre R unfolding evo_inv_def quiet_inv_def by (metis quiet_evolves fs_evolves_trans)
next
  fix fs r fs' assume pre: "evo_inv rt fs0 fs \<and> R fs" and run: "m fs = (r, fs')" and "\<forall>a. r \<noteq> Ok a"
  then have q: "quiet_inv rt fs fs" by (simp add: evo_inv_def quiet_inv_refl)
  have "hoare (quiet_inv rt fs) m (\<lambda>_. quiet_inv rt fs) (quiet_inv rt fs)"
    by (rule hoare_weaken [OF m]) auto
  from hoare_any [OF this q run] show "evo_inv rt fs0 fs'"
    using pre unfolding evo_inv_def quiet_inv_def by (metis quiet_evolves fs_evolves_trans)
qed

lemma hoare_quiet_keeps:
  assumes m: "\<And>fs1. hoare (quiet_inv rt fs1) m (\<lambda>_. quiet_inv rt fs1) (quiet_inv rt fs1)"
    and R: "\<And>a b. quiet a b \<Longrightarrow> R a \<Longrightarrow> R b"
  shows "hoare (\<lambda>fs. evo_inv rt fs0 fs \<and> R fs) m (\<lambda>_ fs. evo_inv rt fs0 fs \<and> R fs) (evo_inv rt fs0)"
  by (rule hoare_weaken [OF hoare_quiet [where S = "\<lambda>_ _. True" and R = R]]) (use m R in auto)

lemma hoare_quiet_evo:
  assumes "\<And>fs1. hoare (quiet_inv rt fs1) m (\<lambda>_. quiet_inv rt fs1) (quiet_inv rt fs1)"
  shows "hoare (evo_inv rt fs0) m (\<lambda>_. evo_inv rt fs0) (evo_inv rt fs0)"
  by (rule hoare_weaken [OF hoare_quiet_keeps [where R = "\<lambda>_. True"]]) (use assms in auto)

lemma evo_inv_slab:
  assumes "evo_inv rt fs0 fs" and "slab_ok rt (git_file fs) (git_file_content fs) (jj_subtree fs) sl"
    and "slab_grows (fs_slab fs) sl"
  shows "evo_inv rt fs0 (fs\<lparr>fs_slab := sl\<rparr>)"
proof -
  have "fs_evolves fs (fs\<lparr>fs_slab := sl\<rparr>)" using assms by (auto simp: fs_evolves_def db_extends_def)
  then show ?thesis using assms by (auto simp: evo_inv_def fs_inv_def intro: fs_evolves_trans)
qed

lemma evo_inv_slab_ok:
  "evo_inv rt fs0 fs \<Longrightarrow> slab_ok rt (git_file fs) (git_file_content fs) (jj_subtree fs) (fs_slab fs)"
  by (simp add: evo_inv_def fs_inv_def)

definition dir_at :: "inode_id \<Rightarrow> 'g kiki_fs \<Rightarrow> bool" where
  "dir_at p fs \<longleftrightarrow> dirty_dir p (fs_slab fs)"

lemma dir_at_quiet: "quiet a b \<Longrightarrow> dir_at p a \<Longrightarrow> dir_at p b"
  by (simp add: dir_at_def dirty_dir_quiet)

lemma evo_ensure_dirty_tree:
  assumes "\<And>a b. quiet a b \<Longrightarrow> R a \<Longrightarrow> R b"
  shows "hoare (\<lambda>fs. evo_inv rt fs0 fs \<and> R fs) (ensure_dirty_tree p)
           (\<lambda>_ fs. evo_inv rt fs0 fs \<and> R fs \<and> dir_at p fs) (evo_inv rt fs0)"
  by (rule hoare_quiet [OF _ assms]) (simp_all add: dir_at_def hoare_ensure_dirty_tree)

lemmas evo_keeps = hoare_quiet_evo [OF keeps_child_exists] hoare_quiet_evo [OF keeps_attr_for]
  hoare_quiet_evo [OF keeps_read_tree] hoare_quiet_evo [OF keeps_get_inode]

text \<open>A fresh inode below \<open>p\<close>, before it is attached.\<close>

definition fresh_child :: "inode_id \<Rightarrow> string \<Rightarrow> inode_id \<Rightarrow> 'g kiki_fs \<Rightarrow> bool" where
  "fresh_child p n c fs \<longleftrightarrow> c \<noteq> ROOT_INODE \<and> c \<noteq> git_file fs \<and> jj_subtree fs \<noteq> Some c \<and>
     (\<forall>key. by_parent (fs_slab fs) key \<noteq> Some c) \<and>
     (\<exists>k. inodes (fs_slab fs) c = Some k \<and> parent k = p \<and> iname k = n)"

lemma evo_alloc:
  assumes nd: "\<And>cs. nd = DirtyTree cs \<Longrightarrow> cs = []" and oid: "id_ok nd"
  shows "hoare (\<lambda>fs. evo_inv rt fs0 fs \<and> inodes (fs_slab fs) p \<noteq> None) (on_slab (alloc_with_ignored p n nd ign))
    (\<lambda>c fs. evo_inv rt fs0 fs \<and> fresh_child p n c fs \<and> (\<exists>k. inodes (fs_slab fs) c = Some k \<and> node k = nd))
    (evo_inv rt fs0)"
proof (rule hoare_on_slab)
  fix fs c sl
  assume pre: "evo_inv rt fs0 fs \<and> inodes (fs_slab fs) p \<noteq> None"
    and run: "alloc_with_ignored p n nd ign (fs_slab fs) = (c, sl)"
  then have ok: "slab_ok rt (git_file fs) (git_file_content fs) (jj_subtree fs) (fs_slab fs)"
    using evo_inv_slab_ok by blast
  then have inv: "slab_inv (fs_slab fs)" by (simp add: slab_ok_def)
  have c: "c = next_id (fs_slab fs)" "inodes sl c = Some \<lparr>parent = p, iname = n, node = nd, ignored = ign\<rparr>"
      "by_parent sl = by_parent (fs_slab fs)"
    using run by (auto simp: alloc_with_ignored_def Let_def)
  have fresh: "inodes (fs_slab fs) c = None" "c \<noteq> ROOT_INODE"
    using slab_inv_next_fresh [OF inv] slab_inv_next_not_root [OF inv] c by auto
  have "\<forall>key. by_parent sl key \<noteq> Some c"
    using slab_inv_byp [OF inv] fresh c(3) by (metis option.distinct(1) surj_pair)
  moreover have "c \<noteq> git_file fs" "jj_subtree fs \<noteq> Some c"
    using ok fresh unfolding slab_ok_def pinned_ok_def by auto
  moreover have "slab_ok rt (git_file fs) (git_file_content fs) (jj_subtree fs) (snd (alloc_with_ignored p n nd ign (fs_slab fs)))"
    using slab_ok_alloc [OF ok _ nd oid] pre by blast
  then have "evo_inv rt fs0 (fs\<lparr>fs_slab := sl\<rparr>)"
    using evo_inv_slab [of rt fs0 fs sl] pre alloc_with_ignored_grows [OF inv, of p n nd ign] run by simp
  ultimately show "evo_inv rt fs0 (fs\<lparr>fs_slab := sl\<rparr>) \<and> fresh_child p n c (fs\<lparr>fs_slab := sl\<rparr>) \<and>
      (\<exists>k. inodes (fs_slab (fs\<lparr>fs_slab := sl\<rparr>)) c = Some k \<and> node k = nd)"
    using c(2) fresh(2) unfolding fresh_child_def by simp
qed

lemma evo_attach:
  "hoare (\<lambda>fs. evo_inv rt fs0 fs \<and> fresh_child p n c fs) (on_slab (attach_child p n c)) (\<lambda>_. evo_inv rt fs0) (evo_inv rt fs0)"
proof (rule hoare_on_slab)
  fix fs b sl
  assume pre: "evo_inv rt fs0 fs \<and> fresh_child p n c fs" and run: "attach_child p n c (fs_slab fs) = (b, sl)"
  have "slab_ok rt (git_file fs) (git_file_content fs) (jj_subtree fs) (snd (attach_child p n c (fs_slab fs)))"
    using pre unfolding fresh_child_def by (elim conjE exE) (rule slab_ok_attach, auto intro: evo_inv_slab_ok)
  then show "evo_inv rt fs0 (fs\<lparr>fs_slab := sl\<rparr>)"
    using evo_inv_slab [of rt fs0 fs sl] pre attach_child_grows [of "fs_slab fs" p n c] run by simp
qed

lemma evo_add_entry:
  assumes nd: "\<And>cs. nd = DirtyTree cs \<Longrightarrow> cs = []" "id_ok nd"
  shows "hoare (\<lambda>fs. evo_inv rt fs0 fs \<and> dir_at p fs) (add_entry p n nd ign) (\<lambda>_. evo_inv rt fs0) (evo_inv rt fs0)"
  unfolding add_entry_def
proof (rule hoare_seq [OF hoare_pre [OF evo_alloc [OF nd]]], assumption, goal_cases)
  case (1 fs)
  then show ?case by (auto simp: dir_at_def dirty_dir_def)
next
  case (2 c)
  show ?case
    by (rule hoare_seq [OF hoare_pre [OF evo_attach]], blast)
      (auto intro!: hoare_if hoare_throw hoare_seq [OF evo_keeps(2)] hoare_ret)
qed

text \<open>The prefix shared by the three operations that create an entry.\<close>

lemma evo_create:
  assumes "\<And>ign. hoare (\<lambda>fs. evo_inv rt fs0 fs \<and> dir_at p fs) (f ign) (\<lambda>_. evo_inv rt fs0) (evo_inv rt fs0)"
  shows "hoare (evo_inv rt fs0)
    (seq (child_exists p n) (\<lambda>ex. if ex then throw AlreadyExists
       else seq (ensure_dirty_tree p) (\<lambda>_. seq (is_ignored p n d) f))) (\<lambda>_. evo_inv rt fs0) (evo_inv rt fs0)"
proof (rule hoare_seq [OF evo_keeps(1)], rule hoare_if, rule hoare_throw, assumption, goal_cases)
  case (1 ex)
  have i: "hoare (\<lambda>fs. evo_inv rt fs0 fs \<and> dir_at p fs) (is_ignored p n d) (\<lambda>_ fs. evo_inv rt fs0 fs \<and> dir_at p fs) (evo_inv rt fs0)"
    by (rule hoare_quiet_keeps [OF keeps_is_ignored dir_at_quiet])
  show ?case
    by (rule hoare_seq [OF hoare_pre [OF evo_ensure_dirty_tree [where R = "\<lambda>_. True"]]])
      (auto intro: hoare_seq [OF i] assms)
qed

lemma evo_create_file: "hoare (evo_inv rt fs0) (fs_create_file p n x) (\<lambda>_. evo_inv rt fs0) (evo_inv rt fs0)"
  unfolding fs_create_file_def by (rule evo_create, rule evo_add_entry) simp_all

lemma evo_symlink: "hoare (evo_inv rt fs0) (fs_symlink p n t) (\<lambda>_. evo_inv rt fs0) (evo_inv rt fs0)"
  unfolding fs_symlink_def by (rule evo_create, rule evo_add_entry) simp_all

lemma evo_pin_jj:
  assumes "evo_inv rt fs0 fs" and "fresh_child ROOT_INODE n c fs"
    and "\<exists>k. inodes (fs_slab fs) c = Some k \<and> node k = DirtyTree cs" and "jj_subtree fs = None"
  shows "evo_inv rt fs0 (fs\<lparr>jj_subtree := Some c\<rparr>)"
  using assms unfolding evo_inv_def fs_inv_def slab_ok_def pinned_ok_def fresh_child_def fs_evolves_def by auto

lemma evo_mkdir_jj:
  assumes p: "p = ROOT_INODE"
  shows "hoare (evo_inv rt fs0) (mkdir_jj p n) (\<lambda>_. evo_inv rt fs0) (evo_inv rt fs0)"
  unfolding mkdir_jj_def
proof (rule hoare_seq [OF hoare_reads [where Q = "\<lambda>j fs. evo_inv rt fs0 fs \<and> jj_subtree fs = j"]], simp,
    rule hoare_if, rule hoare_throw, simp, goal_cases)
  case (1 j)
  define P where "P = (\<lambda>fs. evo_inv rt fs0 fs \<and> jj_subtree fs = None \<and> inodes (fs_slab fs) p \<noteq> None)"
  have g: "hoare (\<lambda>fs. evo_inv rt fs0 fs \<and> jj_subtree fs = j) (get_inode p) (\<lambda>_. P) (evo_inv rt fs0)"
    using 1 by (intro hoare_get_inode) (auto simp: P_def)
  have al: "hoare P (on_slab (alloc p n (DirtyTree [])))
      (\<lambda>c fs. evo_inv rt fs0 fs \<and> fresh_child p n c fs \<and> (\<exists>k. inodes (fs_slab fs) c = Some k \<and> node k = DirtyTree []) \<and>
         jj_subtree fs = None) (evo_inv rt fs0)"
  proof -
    have "hoare (\<lambda>fs. evo_inv rt fs0 fs \<and> inodes (fs_slab fs) p \<noteq> None) (on_slab (alloc p n (DirtyTree [])))
       (\<lambda>c fs. evo_inv rt fs0 fs \<and> fresh_child p n c fs \<and> (\<exists>k. inodes (fs_slab fs) c = Some k \<and> node k = DirtyTree [])) (evo_inv rt fs0)"
      using evo_alloc [where nd = "DirtyTree []" and ign = False and p = p and n = n] by (simp add: alloc_def [abs_def])
    then show ?thesis
      by (auto simp: hoare_def on_slab_def P_def split: prod.splits outcome.splits)
  qed
  show ?case
  proof (rule hoare_seq [OF g], rule hoare_if, rule hoare_throw, simp add: P_def, rule hoare_seq [OF al],
      rule hoare_seq [OF hoare_modifies [where Q = "\<lambda>_. evo_inv rt fs0"]])
    fix c fs
    assume "evo_inv rt fs0 fs \<and> fresh_child p n c fs \<and> (\<exists>k. inodes (fs_slab fs) c = Some k \<and> node k = DirtyTree []) \<and>
         jj_subtree fs = None"
    then show "evo_inv rt fs0 (fs\<lparr>jj_subtree := Some c\<rparr>)" using evo_pin_jj p by blast
  qed (auto intro: hoare_seq [OF evo_keeps(2)] hoare_ret)
qed

lemma evo_mkdir: "hoare (evo_inv rt fs0) (fs_mkdir p n) (\<lambda>_. evo_inv rt fs0) (evo_inv rt fs0)"
  unfolding fs_mkdir_def
proof (rule hoare_if, rule evo_mkdir_jj, simp add: is_jj_root_def, rule hoare_seq [OF evo_keeps(1)], rule hoare_if,
    rule hoare_throw, assumption, rule hoare_seq [OF hoare_pre [OF evo_ensure_dirty_tree [where R = "\<lambda>_. True"]]], goal_cases)
  case (3 ex u)
  define P where "P = (\<lambda>fs. evo_inv rt fs0 fs \<and> dir_at p fs)"
  have r: "hoare P (reads f) (\<lambda>_. P) (evo_inv rt fs0)" for f by (rule hoare_reads)
  have i: "hoare P (is_ignored p n d) (\<lambda>_. P) (evo_inv rt fs0)" for d
    unfolding P_def by (rule hoare_quiet_keeps [OF keeps_is_ignored dir_at_quiet])
  have a: "hoare P (add_entry p n nd ign) (\<lambda>_. evo_inv rt fs0) (evo_inv rt fs0)" if "\<And>cs. nd = DirtyTree cs \<Longrightarrow> cs = []" "id_ok nd" for nd ign
    unfolding P_def by (rule evo_add_entry [OF that])
  have Pe: "P fs \<Longrightarrow> evo_inv rt fs0 fs" for fs by (simp add: P_def)
  show ?case
    by (rule hoare_pre [where P = P], (rule hoare_seq [OF r])+)
      (auto intro!: hoare_seq [OF r] hoare_case_option hoare_case_sum hoare_throw a hoare_seq [OF i] Pe, simp add: P_def)
qed simp_all

text \<open>Writing the buffer of a modified file.\<close>

lemma evo_replace_file:
  "hoare (\<lambda>fs. evo_inv rt fs0 fs \<and> i \<noteq> git_file fs \<and> (\<exists>k c x. inodes (fs_slab fs) i = Some k \<and> node k = DirtyFile c x))
     (on_slab (replace_node i (DirtyFile b y))) (\<lambda>_. evo_inv rt fs0) (evo_inv rt fs0)"
proof (rule hoare_on_slab)
  fix fs r sl
  assume pre: "evo_inv rt fs0 fs \<and> i \<noteq> git_file fs \<and> (\<exists>k c x. inodes (fs_slab fs) i = Some k \<and> node k = DirtyFile c x)"
    and run: "replace_node i (DirtyFile b y) (fs_slab fs) = (r, sl)"
  have ok: "slab_ok rt (git_file fs) (git_file_content fs) (jj_subtree fs) (fs_slab fs)"
    using evo_inv_slab_ok pre by blast
  have np: "i \<noteq> ROOT_INODE \<and> i \<noteq> git_file fs \<and> jj_subtree fs \<noteq> Some i"
    using ok pre slab_inv_root [of "fs_slab fs"] unfolding slab_ok_def pinned_ok_def by fastforce
  have "slab_ok rt (git_file fs) (git_file_content fs) (jj_subtree fs) sl"
    using slab_ok_replace_node [OF ok, of i "DirtyFile b y"] np run by simp
  then show "evo_inv rt fs0 (fs\<lparr>fs_slab := sl\<rparr>)"
    using evo_inv_slab [of rt fs0 fs sl] pre replace_node_grows [of "fs_slab fs" i "DirtyFile b y"] run by simp
qed

lemma quiet_git_file: "quiet a b \<Longrightarrow> i \<noteq> git_file a \<Longrightarrow> i \<noteq> git_file b"
  by (simp add: quiet_def fs_evolves_def)

lemma evo_dirty_for_write:
  assumes R: "\<And>a b. quiet a b \<Longrightarrow> R a \<Longrightarrow> R b"
  shows "hoare (\<lambda>fs. evo_inv rt fs0 fs \<and> R fs) (dirty_for_write i) (\<lambda>_ fs. evo_inv rt fs0 fs \<and> R fs) (evo_inv rt fs0)"
proof -
  have a: "hoare (quiet_inv rt fs1) (ensure_dirty_file i) (\<lambda>_. quiet_inv rt fs1) (quiet_inv rt fs1)" for fs1
    by (rule hoare_weaken [OF hoare_ensure_dirty_file]) auto
  have b: "hoare (quiet_inv rt fs1) (ensure_dirty_tree p) (\<lambda>_. quiet_inv rt fs1) (quiet_inv rt fs1)" for fs1 p
    by (rule hoare_weaken [OF hoare_ensure_dirty_tree]) auto
  show ?thesis
    unfolding dirty_for_write_def
    by (rule hoare_quiet_keeps [OF _ R]) (auto intro!: hoare_seq [OF a] hoare_seq [OF keeps_get_inode] b)
qed

lemma evo_reload_rules: "evo_inv rt fs0 fs \<Longrightarrow> evo_inv rt fs0 (reload_rules nm b fs)"
  by (auto simp: reload_rules_def evo_inv_def fs_inv_def fs_evolves_def)

lemma evo_write: "hoare (evo_inv rt fs0) (fs_write i off data) (\<lambda>_. evo_inv rt fs0) (evo_inv rt fs0)"
  unfolding fs_write_def
proof (rule hoare_seq [OF hoare_reads [where Q = "\<lambda>gf fs. evo_inv rt fs0 fs \<and> git_file fs = gf"]], simp,
    rule hoare_if, rule hoare_throw, simp, goal_cases)
  case (1 gf)
  have w: "hoare (\<lambda>fs. evo_inv rt fs0 fs \<and> git_file fs = gf) (dirty_for_write i)
      (\<lambda>_ fs. evo_inv rt fs0 fs \<and> i \<noteq> git_file fs) (evo_inv rt fs0)"
    using 1 by (intro hoare_pre [OF evo_dirty_for_write [OF quiet_git_file]]) auto
  have g: "hoare (\<lambda>fs. evo_inv rt fs0 fs \<and> i \<noteq> git_file fs) (get_inode i)
      (\<lambda>ino fs. evo_inv rt fs0 fs \<and> i \<noteq> git_file fs \<and> inodes (fs_slab fs) i = Some ino) (evo_inv rt fs0)"
    by (rule hoare_get_inode) auto
  have reload: "hoare (evo_inv rt fs0) (if b then modifies (reload_rules nm c) else ret ()) (\<lambda>_. evo_inv rt fs0) (evo_inv rt fs0)" for b nm c
    by (rule hoare_if) (auto intro: hoare_modifies hoare_ret evo_reload_rules)
  show ?case
  proof (rule hoare_seq [OF w], rule hoare_seq [OF g], goal_cases)
    case (1 u ino)
    show ?case
    proof (cases "node ino")
      case (DirtyFile c x)
      show ?thesis
        by (simp only: DirtyFile NodeRef.case Let_def, rule hoare_if, rule hoare_panic, simp,
            rule hoare_seq [OF hoare_pre [OF evo_replace_file]], simp add: DirtyFile,
            rule hoare_seq [OF reload], rule hoare_ret, assumption)
    qed (auto intro!: hoare_throw)
  qed
qed

lemma evo_setattr: "hoare (evo_inv rt fs0) (fs_setattr i sz ex) (\<lambda>_. evo_inv rt fs0) (evo_inv rt fs0)"
  unfolding fs_setattr_def
proof (rule hoare_seq [OF hoare_reads [where Q = "\<lambda>gf fs. evo_inv rt fs0 fs \<and> git_file fs = gf"]], simp,
    rule hoare_if, rule hoare_throw, simp, rule hoare_if, rule hoare_pre [OF evo_keeps(2)], simp, goal_cases)
  case (1 gf)
  have w: "hoare (\<lambda>fs. evo_inv rt fs0 fs \<and> git_file fs = gf) (dirty_for_write i)
      (\<lambda>_ fs. evo_inv rt fs0 fs \<and> i \<noteq> git_file fs) (evo_inv rt fs0)"
    using 1 by (intro hoare_pre [OF evo_dirty_for_write [OF quiet_git_file]]) auto
  have g: "hoare (\<lambda>fs. evo_inv rt fs0 fs \<and> i \<noteq> git_file fs) (get_inode i)
      (\<lambda>ino fs. evo_inv rt fs0 fs \<and> i \<noteq> git_file fs \<and> inodes (fs_slab fs) i = Some ino) (evo_inv rt fs0)"
    by (rule hoare_get_inode) auto
  show ?case
  proof (rule hoare_seq [OF w], rule hoare_seq [OF g], goal_cases)
    case (1 u ino)
    show ?case
    proof (cases "node ino")
      case (DirtyFile c x)
      show ?thesis
        by (simp only: DirtyFile NodeRef.case, rule hoare_if, rule hoare_panic, simp,
            rule hoare_seq [OF hoare_pre [OF evo_replace_file]])
          (auto simp: DirtyFile intro: evo_keeps(2))
    qed (auto intro!: hoare_throw)
  qed
qed

lemma evo_detach: "hoare (\<lambda>fs. evo_inv rt fs0 fs) (on_slab (detach_child p n)) (\<lambda>_. evo_inv rt fs0) (evo_inv rt fs0)"
proof (rule hoare_on_slab)
  fix fs r sl
  assume pre: "evo_inv rt fs0 fs" and run: "detach_child p n (fs_slab fs) = (r, sl)"
  show "evo_inv rt fs0 (fs\<lparr>fs_slab := sl\<rparr>)"
    using evo_inv_slab [of rt fs0 fs sl] pre slab_ok_detach [OF evo_inv_slab_ok [OF pre], of p n]
      detach_child_grows [of "fs_slab fs" p n] run by simp
qed

lemma evo_empty_check:
  "hoare (evo_inv rt fs0) (seq (read_tree t) (\<lambda>tree. if tree \<noteq> [] then throw NotEmpty else ret ())) (\<lambda>_. evo_inv rt fs0) (evo_inv rt fs0)"
  by (rule hoare_seq [OF evo_keeps(3)]) (auto intro!: hoare_throw hoare_ret)

lemma evo_remove_from_slab: "hoare (evo_inv rt fs0) (remove_from_slab p n) (\<lambda>_. evo_inv rt fs0) (evo_inv rt fs0)"
proof -
  have e: "hoare (evo_inv rt fs0) (ensure_dirty_tree p) (\<lambda>_. evo_inv rt fs0) (evo_inv rt fs0)"
    by (rule hoare_weaken [OF evo_ensure_dirty_tree [where R = "\<lambda>_. True"]]) auto
  have k: "hoare (evo_inv rt fs0)
     (case nd of DirtyTree children \<Rightarrow> (case map_of children n of Some c \<Rightarrow> ret c | None \<Rightarrow> throw NotFound) | _ \<Rightarrow> throw NotADirectory)
     (\<lambda>_. evo_inv rt fs0) (evo_inv rt fs0)" for nd
    by (auto split: NodeRef.split intro!: hoare_case_option hoare_throw hoare_ret)
  have c: "hoare (evo_inv rt fs0)
     (case nd of DirtyTree children \<Rightarrow> if children \<noteq> [] then throw NotEmpty else ret ()
        | Tree oid \<Rightarrow> seq (read_tree oid) (\<lambda>tree. if tree \<noteq> [] then throw NotEmpty else ret ()) | _ \<Rightarrow> ret ())
     (\<lambda>_. evo_inv rt fs0) (evo_inv rt fs0)" for nd
    using evo_empty_check by (auto split: NodeRef.split intro!: hoare_throw hoare_ret)
  show ?thesis
    unfolding remove_from_slab_def
    by (intro hoare_seq [OF e] hoare_seq [OF evo_keeps(4)] hoare_seq [OF k] hoare_seq [OF c] hoare_seq [OF evo_detach]
        hoare_case_option hoare_throw hoare_ret)
qed

lemma evo_remove_jj: "hoare (evo_inv rt fs0) (remove_jj j) (\<lambda>_. evo_inv rt fs0) (evo_inv rt fs0)"
proof -
  have c: "hoare (evo_inv rt fs0)
     (case nd of DirtyTree children \<Rightarrow> if children \<noteq> [] then throw NotEmpty else ret ()
        | Tree oid \<Rightarrow> seq (read_tree oid) (\<lambda>tree. if tree \<noteq> [] then throw NotEmpty else ret ()) | _ \<Rightarrow> throw NotADirectory)
     (\<lambda>_. evo_inv rt fs0) (evo_inv rt fs0)" for nd
    using evo_empty_check by (auto split: NodeRef.split intro!: hoare_throw hoare_ret)
  have "evo_inv rt fs0 fs \<Longrightarrow> evo_inv rt fs0 (fs\<lparr>jj_subtree := None\<rparr>)" for fs
    unfolding evo_inv_def fs_inv_def slab_ok_def pinned_ok_def fs_evolves_def by auto
  then show ?thesis
    unfolding remove_jj_def
    by (auto intro!: hoare_seq [OF evo_keeps(4)] hoare_seq [OF c] hoare_modifies)
qed

lemma evo_remove: "hoare (evo_inv rt fs0) (fs_remove p n) (\<lambda>_. evo_inv rt fs0) (evo_inv rt fs0)"
  unfolding fs_remove_def
  by (auto intro!: hoare_throw evo_remove_from_slab hoare_seq [OF hoare_reads [where Q = "\<lambda>_. evo_inv rt fs0"]]
      hoare_case_option evo_remove_jj)

lemma evo_inv_cong:
  "evo_inv rt fs0 fs \<Longrightarrow> store fs' = store fs \<Longrightarrow> remote fs' = remote fs \<Longrightarrow> git_file fs' = git_file fs \<Longrightarrow>
   git_file_content fs' = git_file_content fs \<Longrightarrow> scratch_dir fs' = scratch_dir fs \<Longrightarrow> fs_slab fs' = fs_slab fs \<Longrightarrow>
   jj_subtree fs' = jj_subtree fs \<Longrightarrow> evo_inv rt fs0 fs'"
  by (auto simp: evo_inv_def fs_inv_def fs_evolves_def)

lemma evo_check_out: "length t = 20 \<Longrightarrow> hoare (evo_inv rt fs0) (fs_check_out t mt) (\<lambda>_. evo_inv rt fs0) (evo_inv rt fs0)"
  unfolding fs_check_out_def
proof (rule hoare_seq [OF evo_keeps(3)], rule hoare_modifies)
  fix fs assume t: "length t = 20" and pre: "evo_inv rt fs0 fs"
  have "slab_ok rt (git_file fs) (git_file_content fs) (jj_subtree fs) (swap_root t (fs_slab fs))"
    by (rule slab_ok_swap_root [OF evo_inv_slab_ok [OF pre] t])
  moreover have "slab_grows (fs_slab fs) (swap_root t (fs_slab fs))"
    using swap_root_grows evo_inv_slab_ok [OF pre] by (auto simp: slab_ok_def)
  ultimately have "evo_inv rt fs0 (fs\<lparr>fs_slab := swap_root t (fs_slab fs)\<rparr>)"
    by (rule evo_inv_slab [OF pre])
  then show "evo_inv rt fs0 (fs\<lparr>fs_slab := swap_root t (fs_slab fs),
       commit_mtime := (if mt \<noteq> 0 then mt else commit_mtime fs),
       ignore_rules := load_gitignore_from_store (gitignore_chain fs) (store fs) t,
       redirections := load_redirections_from_store (store fs) t\<rparr>)"
    by (rule evo_inv_cong) simp_all
qed

subsection \<open>Rename\<close>

text \<open>
  \<open>no_cycle\<close>: the entry to move, if the slab already knows it, is not the destination directory or one of
  its ancestors. An entry that the slab does not know yet cannot be.
\<close>

definition no_cycle :: "inode_id \<Rightarrow> string \<Rightarrow> inode_id \<Rightarrow> 'g kiki_fs \<Rightarrow> bool" where
  "no_cycle p n np fs \<longleftrightarrow>
     (\<forall>c. by_parent (fs_slab fs) (p, n) = Some c \<longrightarrow> \<not> below (fs_slab fs) c np)"

lemma below_parents:
  assumes "below sl a i"
    and "\<And>j k. inodes sl j = Some k \<Longrightarrow> \<exists>k'. inodes sl' j = Some k' \<and> parent k' = parent k"
  shows "below sl' a i"
  using assms(1)
proof (induction rule: below.induct)
  case (below_step i ino)
  then show ?case using assms(2) [OF below_step(1)] by (metis below.below_step)
qed (rule below_refl)

text \<open>Ancestors of an inode that was there are the same before and after.\<close>

lemma below_parents_back:
  assumes "below sl' a i" and "inodes sl i \<noteq> None" and "rooted sl"
    and "\<And>j k. inodes sl j = Some k \<Longrightarrow> \<exists>k'. inodes sl' j = Some k' \<and> parent k' = parent k"
  shows "below sl a i"
  using assms(1,2)
proof (induction rule: below.induct)
  case (below_step i ino)
  obtain k where k: "inodes sl i = Some k" using below_step.prems by blast
  then have "parent ino = parent k" using assms(4) [OF k] below_step.hyps by auto
  moreover have "inodes sl (parent k) \<noteq> None"
    using \<open>rooted sl\<close> k below_step.hyps by (auto simp: rooted_def anchored_def)
  ultimately show ?case using below_step.IH below_step.hyps k by (metis below.below_step)
qed (rule below_refl)

lemma no_cycle_quiet:
  assumes q: "quiet a b" and rt: "rooted (fs_slab a)" and np: "inodes (fs_slab a) np \<noteq> None"
    and nc: "no_cycle p n np a"
  shows "no_cycle p n np b"
  unfolding no_cycle_def
proof (intro allI impI notI)
  fix c assume c: "by_parent (fs_slab b) (p, n) = Some c" "below (fs_slab b) c np"
  have lg: "listing_grows (fs_slab a) (fs_slab b)" using q by (simp add: quiet_def)
  have "below (fs_slab a) c np"
    using below_parents_back [OF c(2) np rt] quiet_parent [OF q] by blast
  moreover from this have "inodes (fs_slab a) c \<noteq> None" using below_dom rt np by blast
  ultimately show False using listing_growsD(2) [OF lg c(1)] nc by (auto simp: no_cycle_def)
qed

text \<open>The state in which the entry is moved.\<close>

definition movable :: "bool \<Rightarrow> inode_id \<Rightarrow> string \<Rightarrow> inode_id \<Rightarrow> inode_id \<Rightarrow> slab \<Rightarrow> bool" where
  "movable rt p n c np sl \<longleftrightarrow> (rt \<longrightarrow> \<not> below sl c np) \<and> inodes sl np \<noteq> None \<and>
     (\<exists>ino cs. inodes sl p = Some ino \<and> node ino = DirtyTree cs \<and> map_of cs n = Some c)"

lemma unlisted_after_detach:
  assumes inv: "slab_inv sl" and d: "inodes sl p = Some ino" "node ino = DirtyTree cs" "map_of cs n = Some c"
  shows "by_parent (snd (detach_child p n sl)) key \<noteq> Some c"
proof -
  obtain k where k: "inodes sl c = Some k" "parent k = p" "iname k = n"
    using slab_inv_child [OF inv d] by blast
  show ?thesis
  proof
    assume "by_parent (snd (detach_child p n sl)) key = Some c"
    then have "by_parent sl key = Some c" "key \<noteq> (p, n)"
      using d by (auto simp: detach_child_def split: if_splits)
    then show False using slab_inv_byp [OF inv] k by (metis option.inject surj_pair)
  qed
qed

lemma detach_child_nodes:
  "inodes sl i = Some k \<Longrightarrow> \<exists>k'. inodes (snd (detach_child p n sl)) i = Some k' \<and> parent k' = parent k"
  by (cases rule: detach_child_cases [of p n sl]) auto

lemma detach_child_nodes_back:
  "inodes (snd (detach_child p n sl)) i = Some k' \<Longrightarrow> \<exists>k. inodes sl i = Some k \<and> parent k' = parent k"
  by (cases rule: detach_child_cases [of p n sl]) (auto split: if_splits)

lemma slab_ok_move_entry:
  assumes ok: "slab_ok rt gf content jj sl" and m: "movable rt p n c np sl"
  shows "slab_ok rt gf content jj (snd (reparent c np nn (snd (attach_child np nn c (snd (detach_child p n sl))))))"
proof -
  define sl1 where "sl1 = snd (detach_child p n sl)"
  have inv: "slab_inv sl" using ok by (simp add: slab_ok_def)
  obtain ino cs where d: "inodes sl p = Some ino" "node ino = DirtyTree cs" "map_of cs n = Some c"
    using m by (auto simp: movable_def)
  obtain k where k: "inodes sl c = Some k" "c \<noteq> ROOT_INODE" using slab_inv_child [OF inv d] by blast
  obtain k1 where k1: "inodes sl1 c = Some k1" using detach_child_nodes [OF k(1)] unfolding sl1_def by blast
  have np: "inodes sl1 np \<noteq> None" using m detach_child_nodes [of sl np] by (fastforce simp: movable_def sl1_def)
  have "by_parent sl (p, n) = Some c" using slab_inv_kids [OF inv d(1,2)] d(3) by blast
  then have c: "c \<noteq> gf" "jj \<noteq> Some c" using pinned_not_listed [OF ok] by blast+
  have "\<not> below sl1 c np" if rt
    using that m below_parents [of sl1 c np sl] detach_child_nodes_back [of p n sl]
    by (fastforce simp: movable_def sl1_def)
  moreover have "\<forall>key. by_parent sl1 key \<noteq> Some c" using unlisted_after_detach [OF inv d] by (simp add: sl1_def)
  moreover have "slab_ok rt gf content jj sl1" unfolding sl1_def by (rule slab_ok_detach [OF ok])
  ultimately show ?thesis using slab_ok_move [OF _ k1 _ k(2) c np] by (simp add: sl1_def)
qed

lemma evo_move_entry:
  "hoare (\<lambda>fs. evo_inv rt fs0 fs \<and> movable rt p n c np (fs_slab fs)) (move_entry p n np nn c)
     (\<lambda>_. evo_inv rt fs0) (evo_inv rt fs0)"
proof -
  have "evo_inv rt fs0 fs'" if pre: "evo_inv rt fs0 fs" "movable rt p n c np (fs_slab fs)"
    and run: "move_entry p n np nn c fs = (r, fs')" for fs r fs'
  proof -
    define sl1 sl2 sl3 where "sl1 = snd (detach_child p n (fs_slab fs))" and "sl2 = snd (attach_child np nn c sl1)"
      and "sl3 = snd (reparent c np nn sl2)"
    have d: "detach_child p n (fs_slab fs) = (Some c, sl1)"
      using pre(2) by (auto simp: movable_def sl1_def detach_child_def)
    obtain b where b: "attach_child np nn c sl1 = (b, sl2)" using sl2_def by (metis surjective_pairing)
    have "\<not> b \<longrightarrow> sl2 = sl1" using b by (cases rule: attach_child_cases [of np nn c sl1]) auto
    with d b have "fs' = fs\<lparr>fs_slab := sl1\<rparr> \<or> fs' = fs\<lparr>fs_slab := sl3\<rparr>"
      using run by (auto simp: move_entry_def on_slab_def comp_simps sl3_def split: prod.splits if_splits)
    moreover have "slab_grows (fs_slab fs) sl1" "slab_grows (fs_slab fs) sl3"
      using detach_child_grows attach_child_grows reparent_grows slab_grows_trans unfolding sl1_def sl2_def sl3_def by metis+
    ultimately show ?thesis
      using evo_inv_slab [OF pre(1)] slab_ok_detach [OF evo_inv_slab_ok [OF pre(1)], of p n]
        slab_ok_move_entry [OF evo_inv_slab_ok [OF pre(1)] pre(2), of nn] by (auto simp: sl1_def sl2_def sl3_def)
  qed
  then show ?thesis by (intro hoareI) blast+
qed

lemma quiet_dom: "quiet a b \<Longrightarrow> inodes (fs_slab a) i \<noteq> None \<Longrightarrow> inodes (fs_slab b) i \<noteq> None"
  using quiet_parent by fastforce

lemma hoare_quiet_R:
  assumes m: "\<And>fs1. hoare (quiet_inv rt fs1) m (\<lambda>a fs. quiet_inv rt fs1 fs \<and> S a fs) (quiet_inv rt fs1)"
    and R: "\<And>a b. quiet a b \<Longrightarrow> R a \<Longrightarrow> R b"
  shows "hoare (\<lambda>fs. quiet_inv rt fs0 fs \<and> R fs) m (\<lambda>a fs. quiet_inv rt fs0 fs \<and> R fs \<and> S a fs) (quiet_inv rt fs0)"
proof (rule hoareI)
  fix fs a fs' assume pre: "quiet_inv rt fs0 fs \<and> R fs" and run: "m fs = (Ok a, fs')"
  then have "quiet_inv rt fs fs" by (simp add: quiet_inv_def)
  from hoare_Ok [OF m this run] show "quiet_inv rt fs0 fs' \<and> R fs' \<and> S a fs'"
    using pre R unfolding quiet_inv_def by (metis quiet_trans)
next
  fix fs r fs' assume pre: "quiet_inv rt fs0 fs \<and> R fs" and run: "m fs = (r, fs')"
  then have q: "quiet_inv rt fs fs" by (simp add: quiet_inv_def)
  have "hoare (quiet_inv rt fs) m (\<lambda>_. quiet_inv rt fs) (quiet_inv rt fs)"
    by (rule hoare_weaken [OF m]) auto
  from hoare_any [OF this q run] show "quiet_inv rt fs0 fs'"
    using pre unfolding quiet_inv_def by (metis quiet_trans)
qed

definition lists :: "inode_id \<Rightarrow> string \<Rightarrow> inode_id \<Rightarrow> slab \<Rightarrow> bool" where
  "lists p n c sl \<longleftrightarrow> (\<exists>ino cs. inodes sl p = Some ino \<and> node ino = DirtyTree cs \<and> map_of cs n = Some c)"

lemma lists_quiet: "quiet a b \<Longrightarrow> lists p n c (fs_slab a) \<Longrightarrow> lists p n c (fs_slab b)"
  by (fastforce simp: quiet_def nodes_refreshed_def lists_def)

lemma movable_quiet:
  assumes nc: "rt \<longrightarrow> inodes (fs_slab fs0) np \<noteq> None \<and> no_cycle p n np fs0" and inv: "fs_inv rt fs0"
    and q: "quiet_inv rt fs0 fs" and l: "lists p n c (fs_slab fs)" and np: "inodes (fs_slab fs) np \<noteq> None"
  shows "movable rt p n c np (fs_slab fs)"
proof -
  have "\<not> below (fs_slab fs) c np" if rt
  proof -
    have "rooted (fs_slab fs0)" using inv that by (simp add: fs_inv_def slab_ok_def)
    then have "no_cycle p n np fs" using no_cycle_quiet [of fs0 fs np p n] nc q that by (simp add: quiet_inv_def)
    moreover have "by_parent (fs_slab fs) (p, n) = Some c"
      using l slab_inv_kids [OF quiet_inv_slab_inv [OF q]] by (auto simp: lists_def)
    ultimately show ?thesis by (simp add: no_cycle_def)
  qed
  then show ?thesis using l np by (simp add: movable_def lists_def)
qed

lemma movable_detach:
  assumes m: "movable rt p n c np sl" and inv: "slab_inv sl" and d: "lists np nn d sl" "d \<noteq> c"
  shows "movable rt p n c np (snd (detach_child np nn sl))"
proof -
  have "\<not> below (snd (detach_child np nn sl)) c np" if rt
    using that m below_parents [of "snd (detach_child np nn sl)" c np sl] detach_child_nodes_back [of np nn sl]
    by (fastforce simp: movable_def)
  moreover have "inodes (snd (detach_child np nn sl)) np \<noteq> None"
    using m detach_child_nodes [of sl np _ np nn] by (fastforce simp: movable_def)
  moreover obtain ino cs where i: "inodes sl p = Some ino" "node ino = DirtyTree cs" "map_of cs n = Some c"
    using m by (auto simp: movable_def)
  have "lists p n c (snd (detach_child np nn sl))"
  proof (cases "np = p")
    case True
    then have "nn \<noteq> n" using d i by (auto simp: lists_def)
    then show ?thesis using True d i by (auto simp: lists_def detach_child_def map_of_bt_remove)
  next
    case False
    then show ?thesis using d i by (auto simp: lists_def detach_child_def)
  qed
  ultimately show ?thesis by (simp add: movable_def lists_def)
qed

lemma quiet_check_replace: "hoare (quiet_inv rt fs0) (check_replace s d) (\<lambda>_. quiet_inv rt fs0) (quiet_inv rt fs0)"
proof -
  have e: "hoare (quiet_inv rt fs0) (seq (read_tree t) (\<lambda>tree. if tree \<noteq> [] then throw NotEmpty else ret ())) (\<lambda>_. quiet_inv rt fs0) (quiet_inv rt fs0)" for t
    by (rule hoare_seq [OF keeps_read_tree]) (auto intro!: hoare_throw hoare_ret)
  then show ?thesis
    unfolding check_replace_def
    by (intro hoare_seq [OF keeps_get_inode] hoare_if hoare_throw) (auto split: NodeRef.split intro!: hoare_throw hoare_ret)
qed

lemma quiet_dirty_child:
  "hoare (quiet_inv rt fs0) (dirty_child p n)
     (\<lambda>r fs. quiet_inv rt fs0 fs \<and> (\<forall>c. r = Some c \<longrightarrow> lists p n c (fs_slab fs))) (quiet_inv rt fs0)"
  unfolding dirty_child_def
  by (rule hoare_seq [OF hoare_get_inode_quiet]) (auto split: NodeRef.split intro!: hoare_throw hoare_ret simp: lists_def)

lemma evo_of_quiet: "quiet_inv rt fs0 fs \<Longrightarrow> evo_inv rt fs0 fs"
  by (simp add: quiet_inv_def evo_inv_def quiet_evolves)

text \<open>The source is found (\<open>L\<close>); so is a destination that will be replaced (\<open>L2\<close>).\<close>

definition ren_src :: "bool \<Rightarrow> 'g kiki_fs \<Rightarrow> inode_id \<Rightarrow> string \<Rightarrow> inode_id \<Rightarrow> inode_id \<Rightarrow> 'g kiki_fs \<Rightarrow> bool" where
  "ren_src rt fs0 p n np c fs \<longleftrightarrow> quiet_inv rt fs0 fs \<and> lists p n c (fs_slab fs) \<and> dir_at np fs"

lemma ren_source:
  "hoare (quiet_inv rt fs0) (seq (ensure_dirty_tree p) (\<lambda>_.
      seq (if np \<noteq> p then ensure_dirty_tree np else ret ()) (\<lambda>_. dirty_child p n)))
     (\<lambda>r fs. evo_inv rt fs0 fs \<and> (\<forall>c. r = Some c \<longrightarrow> ren_src rt fs0 p n np c fs)) (evo_inv rt fs0)"
proof (rule hoare_seq [where Q = "\<lambda>_ fs. quiet_inv rt fs0 fs \<and> dirty_dir p (fs_slab fs)"], goal_cases)
  case 1
  show ?case
    by (rule hoare_weaken [OF hoare_ensure_dirty_tree]) (auto intro: evo_of_quiet)
next
  case (2 u)
  define D1 where "D1 = (\<lambda>fs. quiet_inv rt fs0 fs \<and> dir_at p fs)"
  define D where "D = (\<lambda>fs. quiet_inv rt fs0 fs \<and> dir_at p fs \<and> dir_at np fs)"
  have e: "hoare D1 (if np \<noteq> p then ensure_dirty_tree np else ret ()) (\<lambda>_. D) (evo_inv rt fs0)"
  proof (rule hoare_if)
    have "hoare D1 (ensure_dirty_tree np) (\<lambda>_ fs. quiet_inv rt fs0 fs \<and> dir_at p fs \<and> dir_at np fs) (quiet_inv rt fs0)"
      unfolding D1_def by (rule hoare_quiet_R [OF _ dir_at_quiet]) (simp_all add: dir_at_def hoare_ensure_dirty_tree)
    then show "hoare D1 (ensure_dirty_tree np) (\<lambda>_. D) (evo_inv rt fs0)"
      unfolding D_def by (rule hoare_weaken) (auto intro: evo_of_quiet)
  qed (auto intro!: hoare_ret simp: D_def D1_def)
  have "hoare D (dirty_child p n) (\<lambda>r fs. evo_inv rt fs0 fs \<and> (\<forall>c. r = Some c \<longrightarrow> ren_src rt fs0 p n np c fs)) (evo_inv rt fs0)"
    unfolding D_def ren_src_def
    by (rule hoare_weaken [OF hoare_quiet_R [OF quiet_dirty_child, where R = "\<lambda>fs. dir_at p fs \<and> dir_at np fs"]])
      (auto intro: dir_at_quiet evo_of_quiet)
  from hoare_seq [OF e this] show ?case unfolding D1_def dir_at_def .
qed

lemma ren_replace:
  assumes mv: "\<And>fs. ren_src rt fs0 p n np c fs \<Longrightarrow> movable rt p n c np (fs_slab fs)" and "d \<noteq> c"
  shows "hoare (\<lambda>fs. ren_src rt fs0 p n np c fs \<and> lists np nn d (fs_slab fs)) (seq (check_replace c d) (\<lambda>_.
     seq (on_slab (detach_child np nn)) (\<lambda>_. move_entry p n np nn c))) (\<lambda>_. evo_inv rt fs0) (evo_inv rt fs0)"
proof (rule hoare_seq [where Q = "\<lambda>_ fs. ren_src rt fs0 p n np c fs \<and> lists np nn d (fs_slab fs)"], goal_cases)
  case 1
  show ?case
    unfolding ren_src_def
    by (rule hoare_weaken [OF hoare_quiet_R [where S = "\<lambda>_ _. True" and R = "\<lambda>fs. lists p n c (fs_slab fs) \<and> dir_at np fs \<and> lists np nn d (fs_slab fs)"]])
      (auto intro: dir_at_quiet lists_quiet evo_of_quiet quiet_check_replace)
next
  case (2 u)
  have det: "hoare (\<lambda>fs. ren_src rt fs0 p n np c fs \<and> lists np nn d (fs_slab fs)) (on_slab (detach_child np nn))
      (\<lambda>_ fs. evo_inv rt fs0 fs \<and> movable rt p n c np (fs_slab fs)) (evo_inv rt fs0)"
  proof (rule hoare_on_slab)
    fix fs r sl assume l: "ren_src rt fs0 p n np c fs \<and> lists np nn d (fs_slab fs)"
      and run: "detach_child np nn (fs_slab fs) = (r, sl)"
    then have q: "quiet_inv rt fs0 fs" and m: "movable rt p n c np (fs_slab fs)" and d: "lists np nn d (fs_slab fs)"
      using mv [of fs] by (auto simp: ren_src_def)
    have "movable rt p n c np sl"
      using movable_detach [OF m quiet_inv_slab_inv [OF q] d \<open>d \<noteq> c\<close>] run by simp
    moreover have "evo_inv rt fs0 (fs\<lparr>fs_slab := sl\<rparr>)"
      using evo_inv_slab [OF evo_of_quiet [OF q], of sl] slab_ok_detach [OF quiet_inv_slab_ok [OF q], of np nn]
        detach_child_grows [of "fs_slab fs" np nn] run by simp
    ultimately show "evo_inv rt fs0 (fs\<lparr>fs_slab := sl\<rparr>) \<and> movable rt p n c np (fs_slab (fs\<lparr>fs_slab := sl\<rparr>))" by simp
  qed
  show ?case by (rule hoare_seq [OF det evo_move_entry])
qed

lemma ren_tail:
  assumes mv: "\<And>fs. ren_src rt fs0 p n np c fs \<Longrightarrow> movable rt p n c np (fs_slab fs)"
  shows "hoare (ren_src rt fs0 p n np c) (seq (dirty_child np nn) (\<lambda>dst. case dst of
        Some d \<Rightarrow> if d = c then ret () else seq (check_replace c d) (\<lambda>_. seq (on_slab (detach_child np nn)) (\<lambda>_. move_entry p n np nn c))
      | None \<Rightarrow> move_entry p n np nn c)) (\<lambda>_. evo_inv rt fs0) (evo_inv rt fs0)"
proof (rule hoare_seq [where Q = "\<lambda>r fs. ren_src rt fs0 p n np c fs \<and> (\<forall>d. r = Some d \<longrightarrow> lists np nn d (fs_slab fs))"], goal_cases)
  case 1
  show ?case
    unfolding ren_src_def
    by (rule hoare_weaken [OF hoare_quiet_R [OF quiet_dirty_child, where R = "\<lambda>fs. lists p n c (fs_slab fs) \<and> dir_at np fs"]])
      (auto intro: dir_at_quiet lists_quiet evo_of_quiet)
next
  case (2 r)
  show ?case
  proof (cases r)
    case None
    show ?thesis unfolding None option.case
      by (rule hoare_pre [OF evo_move_entry]) (auto intro: mv evo_of_quiet simp: ren_src_def)
  next
    case (Some d)
    show ?thesis unfolding Some option.case
      by (rule hoare_if, rule hoare_ret, simp add: ren_src_def evo_of_quiet,
          rule hoare_pre [OF ren_replace [OF mv]]) auto
  qed
qed

lemma evo_rename_from:
  assumes inv: "fs_inv rt fs0" and nc: "rt \<longrightarrow> inodes (fs_slab fs0) np \<noteq> None \<and> no_cycle p n np fs0"
  shows "hoare (quiet_inv rt fs0) (fs_rename p n np nn) (\<lambda>_. evo_inv rt fs0) (evo_inv rt fs0)"
proof -
  have mv: "movable rt p n c np (fs_slab fs)" if "ren_src rt fs0 p n np c fs" for c fs
    using that movable_quiet [OF nc inv, of fs c] by (auto simp: ren_src_def dir_at_def dirty_dir_def)
  show ?thesis
    unfolding fs_rename_def
  proof (rule hoare_if, rule hoare_throw, erule evo_of_quiet, subst seq_assoc [symmetric], subst seq_assoc [symmetric],
      rule hoare_seq [OF ren_source [unfolded seq_assoc]], rule hoare_if, rule hoare_throw, simp, goal_cases)
    case (1 src)
    then show ?case by (intro hoare_pre [OF ren_tail [OF mv]]) auto
  qed
qed

section \<open>The initial state\<close>

lemma fs_inv_new:
  assumes "git_laws (glib st)" and "length t = 20"
  shows "fs_inv True (kiki_fs_new st rp t rm sc wt mt chain mk)"
proof -
  define content where "content = ''gitdir: '' @ from_utf8_lossy (case wt of Some w \<Rightarrow> w | None \<Rightarrow> rp) @ [CHR 0x0A]"
  define sl where "sl = snd (alloc_with_ignored ROOT_INODE GIT_FILE (DirtyFile content False) False (slab_new t))"
  have "slab_inv sl" unfolding sl_def by (rule alloc_with_ignored_inv [OF slab_new_inv]) simp
  moreover have "rooted sl"
    unfolding sl_def
    by (rule rooted_extend [OF rooted_new])
      (auto simp: alloc_with_ignored_def Let_def slab_new_def ROOT_INODE_def split: if_splits)
  moreover have "pinned_ok 2 content None sl" "ids_ok sl"
    using assms(2) by (auto simp: pinned_ok_def ids_ok_def sl_def alloc_with_ignored_def Let_def slab_new_def ROOT_INODE_def)
  moreover have "fst (alloc_with_ignored ROOT_INODE GIT_FILE (DirtyFile content False) False (slab_new t)) = 2"
    by (simp add: alloc_with_ignored_def Let_def slab_new_def ROOT_INODE_def)
  ultimately show ?thesis
    using assms(1)
    by (auto simp: fs_inv_def slab_ok_def kiki_fs_new_def Let_def alloc_def content_def sl_def split: prod.split)
qed

end
