(* ===== verification/Kiki_Snapshot.thy ===== *)
theory Kiki_Snapshot
  imports Kiki_Inv
begin

text \<open>
  What \<^verbatim>\<open>snapshot\<close> of \<^verbatim>\<open>src/daemon/src/vfs/kiki_fs.rs\<close> stores. The content of an inode as the slab
  has it is an \<open>otree\<close>: modified nodes are expanded, unmodified ones are leaves that name a stored
  object. A snapshot returns an id under which the store holds that tree, and it leaves the invariant
  and the content of every file as it was.
\<close>

section \<open>The tree a slab denotes, and the tree a store holds\<close>

datatype otree =
    OClean GitEntryKind oid
  | OFile bytes bool
  | OLink string
  | ODir "(string \<times> otree) list"

text \<open>The entries of a modified directory that are part of the user's tree.\<close>

definition included :: "slab \<Rightarrow> inode_id \<Rightarrow> string \<times> inode_id \<Rightarrow> bool" where
  "included sl i e \<longleftrightarrow> \<not> (i = ROOT_INODE \<and> (fst e = JJ_DIR \<or> fst e = GIT_FILE)) \<and>
     (\<exists>k. inodes sl (snd e) = Some k \<and> \<not> ignored k)"

inductive overlay :: "slab \<Rightarrow> inode_id \<Rightarrow> otree \<Rightarrow> bool" for sl where
  ov_tree: "inodes sl i = Some k \<Longrightarrow> node k = Tree oid \<Longrightarrow> overlay sl i (OClean ETree oid)"
| ov_file: "inodes sl i = Some k \<Longrightarrow> node k = File oid x \<Longrightarrow> overlay sl i (OClean (EFile x) oid)"
| ov_symlink: "inodes sl i = Some k \<Longrightarrow> node k = Symlink oid \<Longrightarrow> overlay sl i (OClean ESymlink oid)"
| ov_dirty_file: "inodes sl i = Some k \<Longrightarrow> node k = DirtyFile b x \<Longrightarrow> overlay sl i (OFile b x)"
| ov_dirty_symlink: "inodes sl i = Some k \<Longrightarrow> node k = DirtySymlink t \<Longrightarrow> overlay sl i (OLink t)"
| ov_dirty_tree: "inodes sl i = Some k \<Longrightarrow> node k = DirtyTree cs \<Longrightarrow>
    list_all2 (\<lambda>e t. fst t = fst e \<and> overlay sl (snd e) (snd t)) (filter (included sl i) cs) ts \<Longrightarrow>
    overlay sl i (ODir ts)"

fun otree_kind :: "otree \<Rightarrow> GitEntryKind" where
  "otree_kind (OClean k _) = k"
| "otree_kind (OFile _ x) = EFile x"
| "otree_kind (OLink _) = ESymlink"
| "otree_kind (ODir _) = ETree"

text \<open>Git keeps the entries of a tree in its own order, so a directory is compared as a multiset.\<close>

inductive persists :: "'g git_store \<Rightarrow> oid \<Rightarrow> otree \<Rightarrow> bool" for st where
  ps_clean: "persists st i (OClean k i)"
| ps_file: "git_read_file st i = Inr (Some b) \<Longrightarrow> persists st i (OFile b x)"
| ps_link: "git_read_file st i = Inr (Some t) \<Longrightarrow> persists st i (OLink t)"
| ps_dir: "git_read_tree st i = Inr (Some es') \<Longrightarrow> mset es' = mset es \<Longrightarrow>
    list_all2 (\<lambda>e t. ename e = fst t \<and> ekind e = otree_kind (snd t) \<and> persists st (eid e) (snd t)) es ts \<Longrightarrow>
    persists st i (ODir ts)"

inductive_simps persists_OClean [simp]: "persists st i (OClean k j)"
inductive_simps persists_OFile: "persists st i (OFile b x)"
inductive_simps persists_OLink: "persists st i (OLink t)"
inductive_simps persists_ODir: "persists st i (ODir ts)"

lemma persists_extends: "persists st i t \<Longrightarrow> store_extends st st' \<Longrightarrow> persists st' i t"
proof (induction rule: persists.induct)
  case (ps_clean i k)
  show ?case by (rule persists.ps_clean)
next
  case (ps_file i b x)
  then show ?case using git_read_file_extends persists.ps_file by metis
next
  case (ps_link i b)
  then show ?case using git_read_file_extends persists.ps_link by metis
next
  case (ps_dir i es' es ts)
  have "list_all2 (\<lambda>e t. ename e = fst t \<and> ekind e = otree_kind (snd t) \<and> persists st' (eid e) (snd t)) es ts"
    using ps_dir.IH by (rule list_all2_mono) (use ps_dir.prems in auto)
  with git_read_tree_extends [OF ps_dir.prems ps_dir.hyps(1)] ps_dir.hyps(2) show ?case by (rule persists.ps_dir)
qed

section \<open>The invariant of a snapshot in progress\<close>

fun clean_node :: "GitEntryKind \<Rightarrow> oid \<Rightarrow> NodeRef" where
  "clean_node ETree i = Tree i"
| "clean_node (EFile x) i = File i x"
| "clean_node ESymlink i = Symlink i"
| "clean_node ESubmodule i = File i False"

text \<open>
  Against the state \<open>fs0\<close> in which the snapshot began: an inode has the node it had, or a clean node that
  names a stored copy of what it held.
\<close>

definition snapped :: "slab \<Rightarrow> 'g kiki_fs \<Rightarrow> inode_id \<Rightarrow> bool" where
  "snapped sl0 fs i \<longleftrightarrow>
     (case inodes sl0 i of
        None \<Rightarrow> inodes (fs_slab fs) i = None
      | Some k \<Rightarrow> \<exists>nd. inodes (fs_slab fs) i = Some (k\<lparr>node := nd\<rparr>) \<and>
          (nd = node k \<or> (\<exists>t oid. is_dirty (node k) \<and> overlay sl0 i t \<and> persists (store fs) oid t \<and>
             length oid = 20 \<and> nd = clean_node (otree_kind t) oid)))"

definition snap_inv :: "bool \<Rightarrow> 'g kiki_fs \<Rightarrow> 'g kiki_fs \<Rightarrow> bool" where
  "snap_inv rt fs0 fs \<longleftrightarrow> evo_inv rt fs0 fs \<and> (\<forall>i. snapped (fs_slab fs0) fs i) \<and>
     by_parent (fs_slab fs) = by_parent (fs_slab fs0) \<and> next_id (fs_slab fs) = next_id (fs_slab fs0) \<and>
     jj_subtree fs = jj_subtree fs0 \<and> ignore_rules fs = ignore_rules fs0 \<and> redirections fs = redirections fs0 \<and>
     commit_mtime fs = commit_mtime fs0 \<and> store_extends (store fs0) (store fs)"

lemma snap_inv_refl: "fs_inv rt fs \<Longrightarrow> snap_inv rt fs fs"
proof -
  assume "fs_inv rt fs"
  moreover have "snapped (fs_slab fs) fs i" for i
  proof (cases "inodes (fs_slab fs) i")
    case (Some k)
    then show ?thesis by (auto simp: snapped_def intro!: exI [of _ "node k"])
  qed (simp add: snapped_def)
  ultimately show ?thesis by (simp add: snap_inv_def evo_inv_refl)
qed

lemma snap_inv_inode:
  assumes "snap_inv rt fs0 fs" and "inodes (fs_slab fs) i = Some k"
  obtains k0 where "inodes (fs_slab fs0) i = Some k0" and "k = k0\<lparr>node := node k\<rparr>"
    and "node k = node k0 \<or> (\<exists>t oid. is_dirty (node k0) \<and> overlay (fs_slab fs0) i t \<and> persists (store fs) oid t \<and>
             length oid = 20 \<and> node k = clean_node (otree_kind t) oid)"
proof -
  have "snapped (fs_slab fs0) fs i" using assms(1) by (simp add: snap_inv_def)
  with assms(2) obtain k0 nd where k0: "inodes (fs_slab fs0) i = Some k0" "k = k0\<lparr>node := nd\<rparr>"
      "nd = node k0 \<or> (\<exists>t oid. is_dirty (node k0) \<and> overlay (fs_slab fs0) i t \<and> persists (store fs) oid t \<and>
             length oid = 20 \<and> nd = clean_node (otree_kind t) oid)"
    by (auto simp: snapped_def split: option.splits)
  then have "node k = nd" by simp
  with k0 show ?thesis by (intro that [OF k0(1)]) simp_all
qed

lemma snapped_extends:
  assumes "snapped sl0 fs i" and "store_extends (store fs) st"
  shows "snapped sl0 (fs\<lparr>store := st\<rparr>) i"
  using assms persists_extends unfolding snapped_def by (fastforce split: option.splits)

lemma snap_inv_store:
  assumes s: "snap_inv rt fs0 fs" and e: "store_extends (store fs) st"
  shows "snap_inv rt fs0 (fs\<lparr>store := st\<rparr>)"
proof -
  have "evo_inv rt fs0 fs" using s by (simp add: snap_inv_def)
  then have "evo_inv rt fs0 (fs\<lparr>store := st\<rparr>)"
    using quiet_store [of rt fs st] e fs_evolves_trans quiet_evolves by (fastforce simp: evo_inv_def)
  then show ?thesis
    using s e snapped_extends [OF _ e] store_extends_trans by (auto simp: snap_inv_def)
qed

fun kind_of :: "NodeRef \<Rightarrow> GitEntryKind" where
  "kind_of (Tree _) = ETree"
| "kind_of (DirtyTree _) = ETree"
| "kind_of (File _ x) = EFile x"
| "kind_of (DirtyFile _ x) = EFile x"
| "kind_of (Symlink _) = ESymlink"
| "kind_of (DirtySymlink _) = ESymlink"

lemma overlay_kind: "overlay sl i t \<Longrightarrow> inodes sl i = Some k \<Longrightarrow> otree_kind t = kind_of (node k)"
  by (erule overlay.cases) auto

lemma kind_of_clean: "otree_kind t = kind_of nd \<Longrightarrow> kind_of (clean_node (otree_kind t) oid) = kind_of nd"
  by (cases nd) auto

lemma clean_node_simps [simp]:
  "\<not> is_dirty (clean_node k oid)" "node_id (clean_node k oid) = Some oid" "id_ok (clean_node k oid) \<longleftrightarrow> length oid = 20"
  "is_dir (clean_node k oid) \<longleftrightarrow> k = ETree"
  by (cases k; simp)+

text \<open>An inode that is clean now: its id names what the inode held at the start.\<close>

lemma snap_clean:
  assumes s: "snap_inv rt fs0 fs" and k: "inodes (fs_slab fs) i = Some k" and oid: "node_id (node k) = Some oid"
  obtains t where "overlay (fs_slab fs0) i t" and "persists (store fs) oid t" and "length oid = 20"
    and "otree_kind t = kind_of (node k)"
proof -
  have len: "length oid = 20"
    using s k oid by (auto simp: snap_inv_def evo_inv_def fs_inv_def slab_ok_def ids_ok_def id_ok_def)
  obtain k0 where k0: "inodes (fs_slab fs0) i = Some k0"
      "node k = node k0 \<or> (\<exists>t oid. is_dirty (node k0) \<and> overlay (fs_slab fs0) i t \<and> persists (store fs) oid t \<and>
             length oid = 20 \<and> node k = clean_node (otree_kind t) oid)"
    by (rule snap_inv_inode [OF s k]) blast
  from k0(2) show thesis
  proof
    assume eq: "node k = node k0"
    have "overlay (fs_slab fs0) i (OClean (kind_of (node k)) oid)"
      using eq oid k0(1) by (cases "node k0") (auto intro: overlay.intros)
    from that [OF this _ len] show thesis by simp
  next
    assume "\<exists>t oid. is_dirty (node k0) \<and> overlay (fs_slab fs0) i t \<and> persists (store fs) oid t \<and>
             length oid = 20 \<and> node k = clean_node (otree_kind t) oid"
    then obtain t oid' where t: "overlay (fs_slab fs0) i t" "persists (store fs) oid' t" "node k = clean_node (otree_kind t) oid'"
      by blast
    then have "oid' = oid" using oid by simp
    then show thesis using t len kind_of_clean [OF overlay_kind [OF t(1) k0(1)]] overlay_kind [OF t(1) k0(1)]
      by (intro that [OF t(1)]) auto
  qed
qed

lemma snap_dirty:
  assumes s: "snap_inv rt fs0 fs" and k: "inodes (fs_slab fs) i = Some k" and "is_dirty (node k)"
  shows "inodes (fs_slab fs0) i = Some k"
proof (rule snap_inv_inode [OF s k])
  fix k0 assume k0: "inodes (fs_slab fs0) i = Some k0" "k = k0\<lparr>node := node k\<rparr>"
    "node k = node k0 \<or> (\<exists>t oid. is_dirty (node k0) \<and> overlay (fs_slab fs0) i t \<and> persists (store fs) oid t \<and>
             length oid = 20 \<and> node k = clean_node (otree_kind t) oid)"
  then have "node k = node k0" using assms(3) by auto
  then show ?thesis using k0 by (metis inode.surjective inode.update_convs(3))
qed

lemma snap_inv_kind:
  assumes s: "snap_inv rt fs0 fs" and k: "inodes (fs_slab fs) i = Some k" and k0: "inodes (fs_slab fs0) i = Some k0"
  shows "kind_of (node k) = kind_of (node k0)" and "k\<lparr>node := nd\<rparr> = k0\<lparr>node := nd\<rparr>"
proof -
  have "kind_of (node k) = kind_of (node k0) \<and> k\<lparr>node := nd\<rparr> = k0\<lparr>node := nd\<rparr>"
  proof (rule snap_inv_inode [OF s k])
    fix k0' assume h: "inodes (fs_slab fs0) i = Some k0'" "k = k0'\<lparr>node := node k\<rparr>"
      "node k = node k0' \<or> (\<exists>t oid. is_dirty (node k0') \<and> overlay (fs_slab fs0) i t \<and> persists (store fs) oid t \<and>
             length oid = 20 \<and> node k = clean_node (otree_kind t) oid)"
    have eq: "k0' = k0" using h(1) k0 by simp
    have "k\<lparr>node := nd\<rparr> = k0\<lparr>node := nd\<rparr>" using h(2) unfolding eq by (metis inode.surjective inode.update_convs(3))
    then show ?thesis using h(3) kind_of_clean [OF overlay_kind [OF _ k0]] unfolding eq by metis
  qed
  then show "kind_of (node k) = kind_of (node k0)" and "k\<lparr>node := nd\<rparr> = k0\<lparr>node := nd\<rparr>" by simp_all
qed

lemma is_dir_kind: "is_dir nd \<longleftrightarrow> kind_of nd = ETree"
  by (cases nd) auto

lemma snap_inv_clean_step:
  assumes s: "snap_inv rt fs0 fs" and k0: "inodes (fs_slab fs0) i = Some k0" "is_dirty (node k0)" and gf: "i \<noteq> git_file fs0"
    and t: "overlay (fs_slab fs0) i t" "persists (store fs) oid t" "length oid = 20"
    and run: "replace_node i (clean_node (otree_kind t) oid) (fs_slab fs) = (b, sl)"
  shows "snap_inv rt fs0 (fs\<lparr>fs_slab := sl\<rparr>) \<and> inodes sl i = Some (k0\<lparr>node := clean_node (otree_kind t) oid\<rparr>)"
proof -
  have evo: "evo_inv rt fs0 fs" using s by (simp add: snap_inv_def)
  note ok = evo_inv_slab_ok [OF evo]
  obtain k where k: "inodes (fs_slab fs) i = Some k"
    using evo k0(1) by (auto simp: evo_inv_def fs_evolves_def slab_grows_def dom_def)
  have kind: "otree_kind t = kind_of (node k)"
    using overlay_kind [OF t(1) k0(1)] snap_inv_kind(1) [OF s k k0(1)] by simp
  have sl: "sl = (fs_slab fs)\<lparr>inodes := (inodes (fs_slab fs))(i \<mapsto> k0\<lparr>node := clean_node (otree_kind t) oid\<rparr>)\<rparr>"
    using run k snap_inv_kind(2) [OF s k k0(1)] by (simp add: replace_node_def)
  have "is_dir (node k) \<and> otree_kind t = ETree \<or> i \<noteq> ROOT_INODE \<and> i \<noteq> git_file fs \<and> jj_subtree fs \<noteq> Some i"
  proof (cases "is_dir (node k)")
    case True
    then show ?thesis using kind by (simp add: is_dir_kind)
  next
    case False
    have "git_file fs = git_file fs0" using evo by (simp add: evo_inv_def fs_evolves_def)
    then show ?thesis
      using False gf ok k slab_inv_root [of "fs_slab fs"] unfolding slab_ok_def pinned_ok_def by force
  qed
  then have "slab_ok rt (git_file fs) (git_file_content fs) (jj_subtree fs) sl"
    using slab_ok_replace_node [OF ok, of i "clean_node (otree_kind t) oid"] k t(3) run
    by (cases "otree_kind t") auto
  then have "evo_inv rt fs0 (fs\<lparr>fs_slab := sl\<rparr>)"
    using evo_inv_slab [OF evo] replace_node_grows run by (metis snd_conv)
  moreover have "snapped (fs_slab fs0) (fs\<lparr>fs_slab := sl\<rparr>) j" for j
  proof (cases "j = i")
    case True
    then show ?thesis using k0 t by (auto simp: snapped_def sl)
  next
    case False
    moreover have "snapped (fs_slab fs0) fs j" using s by (simp add: snap_inv_def)
    ultimately show ?thesis by (simp add: snapped_def sl split: option.splits)
  qed
  ultimately show ?thesis using s by (simp add: snap_inv_def sl)
qed

section \<open>The recursion\<close>

definition snap_post :: "bool \<Rightarrow> 'g kiki_fs \<Rightarrow> 'g kiki_fs \<Rightarrow> inode_id \<Rightarrow> (FsError, oid) outcome \<Rightarrow> 'g kiki_fs \<Rightarrow> bool" where
  "snap_post rt fs0 fs i r fs' \<longleftrightarrow> snap_inv rt fs0 fs' \<and> store_extends (store fs) (store fs') \<and>
     (\<forall>oid. r = Ok oid \<longrightarrow> length oid = 20 \<and>
        (\<exists>t. overlay (fs_slab fs0) i t \<and> persists (store fs') oid t \<and>
           (\<exists>k. inodes (fs_slab fs') i = Some k \<and> node k = clean_node (otree_kind t) oid)))"

lemma store_write_spec:
  assumes s: "snap_inv rt fs0 fs" and run: "store_write w fs = (r, fs')"
    and w: "store_extends (store fs) (snd (w (store fs)))"
  shows "snap_inv rt fs0 fs'" and "store_extends (store fs) (store fs')" and "fs_slab fs' = fs_slab fs"
    and "\<And>oid. r = Ok oid \<Longrightarrow> length oid = 20 \<and> w (store fs) = (Inr oid, store fs')"
    and "r \<noteq> Panic" and "r \<noteq> Diverge"
proof -
  obtain x st where x: "w (store fs) = (x, st)" by fastforce
  have e: "store_extends (store fs) st" using w x by simp
  note snap_inv_store [OF s e]
  with run x e show "snap_inv rt fs0 fs'" and "store_extends (store fs) (store fs')" and "fs_slab fs' = fs_slab fs"
    and "\<And>oid. r = Ok oid \<Longrightarrow> length oid = 20 \<and> w (store fs) = (Inr oid, store fs')" and "r \<noteq> Panic" and "r \<noteq> Diverge"
    by (auto simp: store_write_def split: sum.splits if_splits)
qed

text \<open>Writing one modified node and recording its id.\<close>

lemma snap_write_node:
  assumes s: "snap_inv rt fs0 fs" and k0: "inodes (fs_slab fs0) i = Some k0" "is_dirty (node k0)" and gf: "i \<noteq> git_file fs0"
    and ov: "overlay (fs_slab fs0) i t"
    and w: "\<And>x st. w (store fs) = (x, st) \<Longrightarrow> store_extends (store fs) st \<and> (\<forall>oid. x = Inr oid \<longrightarrow> persists st oid t)"
    and run: "seq (store_write w) (\<lambda>oid. seq (on_slab (replace_node i (clean_node (otree_kind t) oid))) (\<lambda>_. ret oid)) fs = (r, fs')"
  shows "snap_post rt fs0 fs i r fs'"
proof -
  obtain x fs1 where x: "store_write w fs = (x, fs1)" by fastforce
  have ext: "store_extends (store fs) (snd (w (store fs)))" using w [of "fst (w (store fs))" "snd (w (store fs))"] by simp
  note sw = store_write_spec [OF s x ext]
  show ?thesis
  proof (cases x)
    case (Ok oid)
    have p: "persists (store fs1) oid t" and len: "length oid = 20" using sw(4) [OF Ok] w by blast+
    obtain b sl where rn: "replace_node i (clean_node (otree_kind t) oid) (fs_slab fs1) = (b, sl)" by fastforce
    have fs': "fs' = fs1\<lparr>fs_slab := sl\<rparr>" "r = Ok oid"
      using run by (auto simp: x Ok seq_apply on_slab_def rn ret_def)
    show ?thesis using snap_inv_clean_step [OF sw(1) k0 gf ov p len rn] sw(2) ov p len by (auto simp: snap_post_def fs')
  qed (use run sw in \<open>auto simp: x seq_apply snap_post_def\<close>)
qed

definition kids_post :: "bool \<Rightarrow> 'g kiki_fs \<Rightarrow> 'g kiki_fs \<Rightarrow> inode_id \<Rightarrow> (string \<times> inode_id) list \<Rightarrow>
    (FsError, GitTreeEntry list) outcome \<Rightarrow> 'g kiki_fs \<Rightarrow> bool" where
  "kids_post rt fs0 fs d cs r fs' \<longleftrightarrow> snap_inv rt fs0 fs' \<and> store_extends (store fs) (store fs') \<and>
     (\<forall>es. r = Ok es \<longrightarrow> (\<forall>e \<in> set es. length (eid e) = 20) \<and>
        (\<exists>ts. list_all2 (\<lambda>e t. fst t = fst e \<and> overlay (fs_slab fs0) (snd e) (snd t))
                 (filter (included (fs_slab fs0) d) cs) ts \<and>
              list_all2 (\<lambda>e t. ename e = fst t \<and> ekind e = otree_kind (snd t) \<and> persists (store fs') (eid e) (snd t)) es ts))"

text \<open>The child of a modified directory, snapshotted when it is modified itself.\<close>

definition snapshot_kid :: "nat \<Rightarrow> inode_id \<Rightarrow> inode \<Rightarrow> ('g, GitEntryKind \<times> oid) fs_op" where
  "snapshot_kid fuel c child =
     (case node_id (node child) of
        Some oid \<Rightarrow> ret (kind_of (node child), oid)
      | None \<Rightarrow> seq (snapshot_node fuel c) (\<lambda>oid. ret (kind_of (node child), oid)))"

lemma snapshot_children_Cons:
  "snapshot_children fuel is_root ((n, c) # cs) =
     (if is_root \<and> (n = JJ_DIR \<or> n = GIT_FILE) then snapshot_children fuel is_root cs
      else seq (get_inode c) (\<lambda>child.
        if ignored child then snapshot_children fuel is_root cs
        else seq (snapshot_kid fuel c child) (\<lambda>kid.
          seq (snapshot_children fuel is_root cs) (\<lambda>rest.
          ret (\<lparr>ename = n, ekind = fst kid, eid = snd kid\<rparr> # rest)))))"
proof -
  have "(case node child of
            Tree oid \<Rightarrow> ret (ETree, oid)
          | DirtyTree _ \<Rightarrow> seq (snapshot_node fuel c) (\<lambda>oid. ret (ETree, oid))
          | File oid executable \<Rightarrow> ret (EFile executable, oid)
          | DirtyFile _ executable \<Rightarrow> seq (snapshot_node fuel c) (\<lambda>oid. ret (EFile executable, oid))
          | Symlink oid \<Rightarrow> ret (ESymlink, oid)
          | DirtySymlink _ \<Rightarrow> seq (snapshot_node fuel c) (\<lambda>oid. ret (ESymlink, oid)))
        = (snapshot_kid fuel c child :: ('a, GitEntryKind \<times> oid) fs_op)" for child
    by (cases "node child") (simp_all add: snapshot_kid_def)
  then show ?thesis by (simp only: snapshot_children.simps)
qed

lemma snapshot_kid_spec:
  assumes A: "\<And>fs r fs'. snap_inv rt fs0 fs \<Longrightarrow> snapshot_node fuel c fs = (r, fs') \<Longrightarrow> snap_post rt fs0 fs c r fs'"
    and s: "snap_inv rt fs0 fs" and k: "inodes (fs_slab fs) c = Some k" and run: "snapshot_kid fuel c k fs = (r, fs')"
  shows "snap_inv rt fs0 fs' \<and> store_extends (store fs) (store fs') \<and>
     (\<forall>kd oid. r = Ok (kd, oid) \<longrightarrow> length oid = 20 \<and>
        (\<exists>t. overlay (fs_slab fs0) c t \<and> kd = otree_kind t \<and> persists (store fs') oid t))"
proof (cases "node_id (node k)")
  case (Some oid)
  then obtain t where "overlay (fs_slab fs0) c t" "persists (store fs) oid t" "length oid = 20" "otree_kind t = kind_of (node k)"
    by (rule snap_clean [OF s k])
  then show ?thesis using run s Some by (auto simp: snapshot_kid_def ret_def)
next
  case None
  then have d: "is_dirty (node k)" by (cases "node k") auto
  have k0: "inodes (fs_slab fs0) c = Some k" by (rule snap_dirty [OF s k d])
  obtain x fs1 where x: "snapshot_node fuel c fs = (x, fs1)" by fastforce
  have p: "snap_post rt fs0 fs c x fs1" by (rule A [OF s x])
  show ?thesis
  proof (cases x)
    case (Ok oid)
    then show ?thesis using run p overlay_kind [OF _ k0] None
      by (auto simp: snapshot_kid_def seq_apply x ret_def snap_post_def)
  qed (use run p None in \<open>auto simp: snapshot_kid_def seq_apply x snap_post_def\<close>)
qed

lemma list_all2_persists_extends:
  "store_extends st st' \<Longrightarrow>
   list_all2 (\<lambda>e t. ename e = fst t \<and> ekind e = otree_kind (snd t) \<and> persists st (eid e) (snd t)) es ts \<Longrightarrow>
   list_all2 (\<lambda>e t. ename e = fst t \<and> ekind e = otree_kind (snd t) \<and> persists st' (eid e) (snd t)) es ts"
  by (erule list_all2_mono) (auto intro: persists_extends)

lemma kids_post_skip:
  "kids_post rt fs0 fs d cs r fs' \<Longrightarrow> \<not> included (fs_slab fs0) d e \<Longrightarrow> kids_post rt fs0 fs d (e # cs) r fs'"
  by (simp add: kids_post_def)

lemma kids_post_cons:
  assumes ih: "kids_post rt fs0 fs1 d cs (Ok es) fs2" and ext: "store_extends (store fs) (store fs1)"
    and t: "length oid = 20" "overlay (fs_slab fs0) c t" "kd = otree_kind t" "persists (store fs1) oid t"
    and inc: "included (fs_slab fs0) d (n, c)"
  shows "kids_post rt fs0 fs d ((n, c) # cs) (Ok (\<lparr>ename = n, ekind = kd, eid = oid\<rparr> # es)) fs2"
proof -
  obtain ts where ts: "snap_inv rt fs0 fs2" "store_extends (store fs1) (store fs2)" "\<forall>e \<in> set es. length (eid e) = 20"
      "list_all2 (\<lambda>e t. fst t = fst e \<and> overlay (fs_slab fs0) (snd e) (snd t)) (filter (included (fs_slab fs0) d) cs) ts"
      "list_all2 (\<lambda>e t. ename e = fst t \<and> ekind e = otree_kind (snd t) \<and> persists (store fs2) (eid e) (snd t)) es ts"
    using ih by (auto simp: kids_post_def)
  have "persists (store fs2) oid t" by (rule persists_extends [OF t(4) ts(2)])
  then show ?thesis
    using ts t(1-3) inc store_extends_trans [OF ext ts(2)] by (auto simp: kids_post_def intro!: exI [of _ "(n, t) # ts"])
qed

text \<open>A child that is part of the tree: its own snapshot, then the rest of the loop.\<close>

lemma kids_step:
  assumes kid: "snapshot_kid fuel c k fs = (x, fs1)" "snap_inv rt fs0 fs1 \<and> store_extends (store fs) (store fs1) \<and>
      (\<forall>kd oid. x = Ok (kd, oid) \<longrightarrow> length oid = 20 \<and>
        (\<exists>t. overlay (fs_slab fs0) c t \<and> kd = otree_kind t \<and> persists (store fs1) oid t))"
    and rest: "\<And>y fs2. snapshot_children fuel b cs fs1 = (y, fs2) \<Longrightarrow> kids_post rt fs0 fs1 d cs y fs2"
    and inc: "included (fs_slab fs0) d (n, c)"
    and run: "seq (snapshot_kid fuel c k) (\<lambda>kid. seq (snapshot_children fuel b cs) (\<lambda>rest.
            ret (\<lparr>ename = n, ekind = fst kid, eid = snd kid\<rparr> # rest))) fs = (r, fs')"
  shows "kids_post rt fs0 fs d ((n, c) # cs) r fs'"
proof (cases x)
  case (Ok kdo)
  obtain kd oid where kdo: "kdo = (kd, oid)" by (cases kdo)
  obtain t where t: "length oid = 20" "overlay (fs_slab fs0) c t" "kd = otree_kind t" "persists (store fs1) oid t"
    using kid(2) Ok kdo by blast
  obtain y fs2 where y: "snapshot_children fuel b cs fs1 = (y, fs2)" by fastforce
  note ih = rest [OF y]
  show ?thesis
  proof (cases y)
    case y': (Ok es)
    have "r = Ok (\<lparr>ename = n, ekind = kd, eid = oid\<rparr> # es)" "fs' = fs2"
      using run kid(1) y Ok kdo y' by (auto simp: seq_apply ret_def)
    then show ?thesis using kids_post_cons [OF ih [unfolded y'] _ t inc] kid(2) by simp
  qed (use run kid y Ok kdo ih store_extends_trans in \<open>auto simp: seq_apply kids_post_def\<close>)
qed (use run kid in \<open>auto simp: seq_apply kids_post_def\<close>)

lemma snapshot_children_spec:
  assumes A: "\<And>c fs r fs'. snap_inv rt fs0 fs \<Longrightarrow> c \<noteq> git_file fs0 \<Longrightarrow> snapshot_node fuel c fs = (r, fs') \<Longrightarrow>
                snap_post rt fs0 fs c r fs'"
  shows "snap_inv rt fs0 fs \<Longrightarrow> \<forall>e \<in> set cs. snd e \<noteq> git_file fs0 \<Longrightarrow>
         snapshot_children fuel (d = ROOT_INODE) cs fs = (r, fs') \<Longrightarrow> kids_post rt fs0 fs d cs r fs'"
proof (induction cs arbitrary: fs r fs')
  case Nil
  then show ?case by (auto simp: kids_post_def ret_def)
next
  case (Cons e cs)
  obtain n c where e: "e = (n, c)" by (cases e)
  have c: "c \<noteq> git_file fs0" and cs: "\<forall>e \<in> set cs. snd e \<noteq> git_file fs0" using Cons.prems(2) e by auto
  note IH = Cons.IH [OF _ cs]
  note run = Cons.prems(3) [unfolded e snapshot_children_Cons]
  consider (reserved) "d = ROOT_INODE \<and> (n = JJ_DIR \<or> n = GIT_FILE)"
    | (missing) "\<not> (d = ROOT_INODE \<and> (n = JJ_DIR \<or> n = GIT_FILE))" "inodes (fs_slab fs) c = None"
    | (present) k where "\<not> (d = ROOT_INODE \<and> (n = JJ_DIR \<or> n = GIT_FILE))" "inodes (fs_slab fs) c = Some k"
    by blast
  then show ?case
  proof cases
    case reserved
    then show ?thesis using run IH [OF Cons.prems(1)] by (intro kids_post_skip) (auto simp: e included_def)
  next
    case missing
    then show ?thesis using run Cons.prems(1)
      by (auto simp: seq_apply get_inode_def fetch_or_def slab_get_def kids_post_def)
  next
    case (present k)
    obtain k0 where k0: "inodes (fs_slab fs0) c = Some k0" "ignored k = ignored k0"
      by (rule snap_inv_inode [OF Cons.prems(1) present(2)])
        (metis inode.select_convs(4) inode.surjective inode.update_convs(3))
    have run1: "(if ignored k then snapshot_children fuel (d = ROOT_INODE) cs
        else seq (snapshot_kid fuel c k) (\<lambda>kid. seq (snapshot_children fuel (d = ROOT_INODE) cs) (\<lambda>rest.
          ret (\<lparr>ename = n, ekind = fst kid, eid = snd kid\<rparr> # rest)))) fs = (r, fs')"
      using run present by (simp add: seq_apply get_inode_def fetch_or_def slab_get_def)
    obtain x fs1 where x: "snapshot_kid fuel c k fs = (x, fs1)" by fastforce
    note kid = snapshot_kid_spec [OF A [OF _ c] Cons.prems(1) present(2) x]
    show ?thesis
    proof (cases "ignored k")
      case True
      then show ?thesis using run1 IH [OF Cons.prems(1)] k0 by (intro kids_post_skip) (auto simp: e included_def)
    next
      case False
      have "included (fs_slab fs0) d (n, c)" using False present k0 by (simp add: included_def)
      then show ?thesis unfolding e using kids_step [OF x kid IH] kid run1 False by simp
    qed
  qed
qed

lemma list_all2_map_eq: "list_all2 (\<lambda>e t. f e = g t \<and> R e t) xs ys \<Longrightarrow> map f xs = map g ys"
  by (induction rule: list_all2_induct) auto

lemma snap_inv_laws: "snap_inv rt fs0 fs \<Longrightarrow> git_laws (glib (store fs))"
  by (simp add: snap_inv_def evo_inv_def fs_inv_def)

lemma clean_node_of: "node_id nd = Some oid \<Longrightarrow> clean_node (kind_of nd) oid = nd"
  by (cases nd) auto

lemma snap_node_clean:
  assumes s: "snap_inv rt fs0 fs" and k: "inodes (fs_slab fs) i = Some k" and oid: "node_id (node k) = Some oid"
  shows "snap_post rt fs0 fs i (Ok oid) fs"
proof (rule snap_clean [OF s k oid])
  fix t assume t: "overlay (fs_slab fs0) i t" "persists (store fs) oid t" "length oid = 20" "otree_kind t = kind_of (node k)"
  have "node k = clean_node (otree_kind t) oid" using clean_node_of [OF oid] t(4) by simp
  then show ?thesis using s k t by (auto simp: snap_post_def)
qed

lemma snap_node_dirty_tree:
  assumes s: "snap_inv rt fs0 fs" and k: "inodes (fs_slab fs) i = Some k" "node k = DirtyTree cs" and gf: "i \<noteq> git_file fs0"
    and kids: "\<And>y fs1. snapshot_children fuel (i = ROOT_INODE) cs fs = (y, fs1) \<Longrightarrow> kids_post rt fs0 fs i cs y fs1"
    and run: "seq (snapshot_children fuel (i = ROOT_INODE) cs) (\<lambda>entries.
         seq (store_write (git_write_tree entries)) (\<lambda>oid. seq (on_slab (replace_node i (Tree oid))) (\<lambda>_. ret oid))) fs = (r, fs')"
  shows "snap_post rt fs0 fs i r fs'"
proof -
  obtain y fs1 where y: "snapshot_children fuel (i = ROOT_INODE) cs fs = (y, fs1)" by fastforce
  note kp = kids [OF y]
  have k0: "inodes (fs_slab fs0) i = Some k" "is_dirty (node k)" using snap_dirty [OF s k(1)] k(2) by simp_all
  have "slab_inv (fs_slab fs)" using s by (simp add: snap_inv_def evo_inv_def fs_inv_def slab_ok_def)
  then have dist: "distinct (map fst (filter P cs))" for P
    using slab_inv_kids [OF _ k] bt_wf_distinct distinct_map_filter by blast
  show ?thesis
  proof (cases y)
    case (Ok es)
    obtain ts where ts: "snap_inv rt fs0 fs1" "store_extends (store fs) (store fs1)" "\<forall>e \<in> set es. length (eid e) = 20"
        "list_all2 (\<lambda>e t. fst t = fst e \<and> overlay (fs_slab fs0) (snd e) (snd t)) (filter (included (fs_slab fs0) i) cs) ts"
        "list_all2 (\<lambda>e t. ename e = fst t \<and> ekind e = otree_kind (snd t) \<and> persists (store fs1) (eid e) (snd t)) es ts"
      using kp Ok by (auto simp: kids_post_def)
    have "map fst (filter (included (fs_slab fs0) i) cs) = map fst ts"
      using ts(4) by (induction rule: list_all2_induct) auto
    then have names: "distinct (map ename es)"
      using list_all2_map_eq [OF ts(5)] dist [of "included (fs_slab fs0) i"] by simp
    have ov: "overlay (fs_slab fs0) i (ODir ts)" by (rule ov_dirty_tree [OF k0(1) k(2) ts(4)])
    have "snap_post rt fs0 fs1 i r fs'"
    proof (rule snap_write_node [OF ts(1) k0 gf ov, where w = "git_write_tree es"])
      fix x st assume w: "git_write_tree es (store fs1) = (x, st)"
      note spec = git_write_tree_spec [OF snap_inv_laws [OF ts(1)] w]
      then have "list_all2 (\<lambda>e t. ename e = fst t \<and> ekind e = otree_kind (snd t) \<and> persists st (eid e) (snd t)) es ts"
        using list_all2_persists_extends [OF _ ts(5)] by blast
      then show "store_extends (store fs1) st \<and> (\<forall>oid. x = Inr oid \<longrightarrow> persists st oid (ODir ts))"
        using spec names ts(3) ps_dir by blast
    qed (use run y Ok in \<open>simp add: seq_apply\<close>)
    then show ?thesis using ts(2) store_extends_trans by (auto simp: snap_post_def)
  qed (use run y kp in \<open>auto simp: seq_apply kids_post_def snap_post_def\<close>)
qed

lemma snap_kids_not_git:
  assumes s: "snap_inv rt fs0 fs" and k: "inodes (fs_slab fs) i = Some k" "node k = DirtyTree cs"
  shows "\<forall>e \<in> set cs. snd e \<noteq> git_file fs0"
proof
  fix e assume e: "e \<in> set cs"
  have evo: "evo_inv rt fs0 fs" using s by (simp add: snap_inv_def)
  have inv: "slab_inv (fs_slab fs)" using evo_inv_slab_ok [OF evo] by (simp add: slab_ok_def)
  have "map_of cs (fst e) = Some (snd e)"
    using slab_inv_kids [OF inv k] bt_wf_distinct [of cs] e by simp
  then have "by_parent (fs_slab fs) (i, fst e) = Some (snd e)" using slab_inv_kids [OF inv k] by blast
  then show "snd e \<noteq> git_file fs0"
    using pinned_not_listed [OF evo_inv_slab_ok [OF evo]] evo by (auto simp: evo_inv_def fs_evolves_def)
qed

lemma snapshot_node_spec:
  "snap_inv rt fs0 fs \<Longrightarrow> i \<noteq> git_file fs0 \<Longrightarrow> snapshot_node fuel i fs = (r, fs') \<Longrightarrow> snap_post rt fs0 fs i r fs'"
proof (induction fuel arbitrary: i fs r fs')
  case 0
  then show ?case by (auto simp: diverge_def snap_post_def)
next
  case (Suc fuel)
  note s = Suc.prems(1) and gf = Suc.prems(2)
  note laws = snap_inv_laws [OF s]
  show ?case
  proof (cases "inodes (fs_slab fs) i")
    case None
    then show ?thesis using Suc.prems by (auto simp: seq_apply get_inode_def fetch_or_def slab_get_def snap_post_def)
  next
    case (Some k)
    note run = Suc.prems(3) [unfolded snapshot_node.simps get_inode_seq(1) [OF Some]]
    show ?thesis
    proof (cases "node k")
      case (DirtyFile b x)
      then have k0: "inodes (fs_slab fs0) i = Some k" using snap_dirty [OF s Some] by simp
      show ?thesis
      proof (rule snap_write_node [OF s k0 _ gf ov_dirty_file [OF k0 DirtyFile], where w = "git_write_file b"])
        show "store_extends (store fs) st \<and> (\<forall>oid. y = Inr oid \<longrightarrow> persists st oid (OFile b x))"
          if "git_write_file b (store fs) = (y, st)" for y st
          using git_write_file_spec [OF laws that] by (auto intro: ps_file)
      qed (use run DirtyFile in simp_all)
    next
      case (DirtySymlink tg)
      then have k0: "inodes (fs_slab fs0) i = Some k" using snap_dirty [OF s Some] by simp
      show ?thesis
      proof (rule snap_write_node [OF s k0 _ gf ov_dirty_symlink [OF k0 DirtySymlink], where w = "git_write_symlink tg"])
        show "store_extends (store fs) st \<and> (\<forall>oid. y = Inr oid \<longrightarrow> persists st oid (OLink tg))"
          if "git_write_symlink tg (store fs) = (y, st)" for y st
          using git_write_symlink_spec [OF laws that] by (auto intro: ps_link)
      qed (use run DirtySymlink in simp_all)
    next
      case (DirtyTree cs)
      show ?thesis
        using snap_node_dirty_tree [OF s Some DirtyTree gf snapshot_children_spec [OF Suc.IH s snap_kids_not_git [OF s Some DirtyTree]]]
          run DirtyTree by simp
    qed (use run snap_node_clean [OF s Some] in \<open>auto simp: ret_def\<close>)
  qed
qed

section \<open>Snapshot of the whole filesystem\<close>

lemma fs_snapshot_post:
  assumes inv: "fs_inv rt fs" and run: "fs_snapshot fs = (r, fs')"
  shows "snap_inv rt fs fs' \<and> (\<forall>oid. r = Ok oid \<longrightarrow> length oid = 20 \<and>
     (\<exists>t k. overlay (fs_slab fs) ROOT_INODE t \<and> persists (store fs') oid t \<and>
        inodes (fs_slab fs') ROOT_INODE = Some k \<and> is_dir (node k)))"
proof -
  have s0: "snap_inv rt fs fs" by (rule snap_inv_refl [OF inv])
  have pins: "ROOT_INODE \<noteq> git_file fs" "jj_subtree fs = Some j \<Longrightarrow> j \<noteq> git_file fs" for j
    using inv by (auto simp: fs_inv_def slab_ok_def pinned_ok_def)
  obtain x fs1 where x: "snapshot_node (fs_fuel fs) ROOT_INODE fs = (x, fs1)" by fastforce
  note p = snapshot_node_spec [OF s0 pins(1) x]
  have root: "\<exists>k. inodes (fs_slab fs'') ROOT_INODE = Some k \<and> is_dir (node k)" if "snap_inv rt fs fs''" for fs''
    using that slab_inv_root [of "fs_slab fs''"] by (auto simp: snap_inv_def evo_inv_def fs_inv_def slab_ok_def)
  show ?thesis
  proof (cases x)
    case (Ok oid)
    then obtain t where t: "length oid = 20" "overlay (fs_slab fs) ROOT_INODE t" "persists (store fs1) oid t"
      and s1: "snap_inv rt fs fs1" using p by (auto simp: snap_post_def)
    show ?thesis
    proof (cases "jj_subtree fs1")
      case None
      then show ?thesis using run x Ok t s1 root [OF s1] by (auto simp: fs_snapshot_def seq_apply reads_def ret_def)
    next
      case (Some j)
      have j: "j \<noteq> git_file fs" using Some s1 pins(2) by (simp add: snap_inv_def)
      obtain y fs2 where y: "snapshot_node (fs_fuel fs1) j fs1 = (y, fs2)" by fastforce
      note p2 = snapshot_node_spec [OF s1 j y]
      have s2: "snap_inv rt fs fs2" and ext: "store_extends (store fs1) (store fs2)" using p2 by (auto simp: snap_post_def)
      show ?thesis
      proof (cases y)
        case y': (Ok oid')
        then show ?thesis
          using run x Ok Some y t s2 root [OF s2] persists_extends [OF t(3) ext]
          by (auto simp: fs_snapshot_def seq_apply reads_def ret_def)
      qed (use run x Ok Some y s2 in \<open>auto simp: fs_snapshot_def seq_apply reads_def\<close>)
    qed
  qed (use run x p in \<open>auto simp: fs_snapshot_def seq_apply snap_post_def\<close>)
qed

lemma evo_snapshot: "fs_inv rt fs \<Longrightarrow> fs_snapshot fs = (r, fs') \<Longrightarrow> evo_inv rt fs fs'"
  using fs_snapshot_post by (fastforce simp: snap_inv_def)

end
