(* ===== verification/Kiki_Total.thy ===== *)
theory Kiki_Total
  imports Kiki_Snapshot
begin

text \<open>
  The operations of \<^verbatim>\<open>src/daemon/src/vfs/kiki_fs.rs\<close> return. Under the invariant, with parent pointers
  that lead to the root, the fuel of the pointer walks and of the snapshot recursion is enough, and the
  \<^verbatim>\<open>expect\<close> on ids does not fire. The one panic left is a file that would exceed \<^verbatim>\<open>isize::MAX\<close> bytes.
\<close>

section \<open>Parent walks end\<close>

lemma parent_walk:
  assumes "anchored sl rank" and "inodes sl i = Some k" and "i \<noteq> ROOT_INODE"
  shows "rank (parent k) < rank i" and "inodes sl (parent k) \<noteq> None" and "parent k \<noteq> i"
  using assms by (auto simp: anchored_def)

lemma repo_path_loop_returns:
  "anchored sl rank \<Longrightarrow> rank i < fuel \<Longrightarrow> repo_path_loop fuel sl i cs \<noteq> None"
proof (induction fuel arbitrary: i cs)
  case (Suc fuel)
  show ?case
  proof (cases "i = ROOT_INODE \<or> inodes sl i = None")
    case False
    then obtain k where k: "inodes sl i = Some k" "i \<noteq> ROOT_INODE" by blast
    have "rank (parent k) < fuel" using parent_walk(1) [OF Suc.prems(1) k] Suc.prems(2) by simp
    from Suc.IH [OF Suc.prems(1) this] show ?thesis using k by (simp add: slab_get_def)
  qed (auto simp: slab_get_def)
qed simp

lemma inv_rank:
  assumes "fs_inv True fs"
  obtains rank where "anchored (fs_slab fs) rank" and "\<forall>i. inodes (fs_slab fs) i \<noteq> None \<longrightarrow> rank i < next_id (fs_slab fs)"
  using assms rooted_bounded [of "fs_slab fs"] by (auto simp: fs_inv_def slab_ok_def)

lemma repo_path_loop_dom:
  "inodes sl i = None \<Longrightarrow> repo_path_loop (Suc fuel) sl i cs \<noteq> None"
  by (simp add: slab_get_def)

lemma returns_repo_path_str: "returns (quiet_inv True fs0) (repo_path_str p n)"
proof (rule returnsI)
  fix fs r fs' assume q: "quiet_inv True fs0 fs" and run: "repo_path_str p n fs = (r, fs')"
  then have "fs_inv True fs" by (simp add: quiet_inv_def)
  then obtain rank where r: "anchored (fs_slab fs) rank" "\<forall>i. inodes (fs_slab fs) i \<noteq> None \<longrightarrow> rank i < next_id (fs_slab fs)"
    by (rule inv_rank)
  have "repo_path_loop (Suc (next_id (fs_slab fs))) (fs_slab fs) p [n] \<noteq> None"
  proof (cases "inodes (fs_slab fs) p")
    case None
    then show ?thesis by (rule repo_path_loop_dom)
  next
    case (Some k)
    then have "rank p < Suc (next_id (fs_slab fs))" using r(2) by (simp add: less_Suc_eq)
    then show ?thesis by (rule repo_path_loop_returns [OF r(1)])
  qed
  then show "r \<noteq> Panic \<and> r \<noteq> Diverge" using run by (auto simp: repo_path_str_def)
qed

lemma inside_jj_loop_returns:
  assumes "anchored (fs_slab fs) rank" and "slab_inv (fs_slab fs)"
  shows "rank i < fuel \<or> inodes (fs_slab fs) i = None \<and> 0 < fuel \<Longrightarrow>
         fst (inside_jj_loop fuel jj i fs) \<noteq> Panic \<and> fst (inside_jj_loop fuel jj i fs) \<noteq> Diverge"
proof (induction fuel arbitrary: i)
  case (Suc fuel)
  show ?case
  proof (cases "i = jj \<or> inodes (fs_slab fs) i = None")
    case True
    then show ?thesis by (auto simp: ret_def get_inode_seq)
  next
    case False
    then obtain k where k: "inodes (fs_slab fs) i = Some k" "i \<noteq> jj" by blast
    show ?thesis
    proof (cases "i = ROOT_INODE")
      case True
      then have "parent k = i" using slab_inv_root [OF assms(2)] k by auto
      then show ?thesis using k by (simp add: get_inode_seq ret_def)
    next
      case nr: False
      have "rank (parent k) < fuel" using parent_walk(1) [OF assms(1) k(1) nr] Suc.prems k by simp
      then show ?thesis using k Suc.IH [of "parent k"] by (simp add: get_inode_seq ret_def)
    qed
  qed
qed simp

lemma returns_inside_jj: "returns (quiet_inv True fs0) (inside_jj dir)"
proof (rule returnsI)
  fix fs r fs' assume q: "quiet_inv True fs0 fs" and run: "inside_jj dir fs = (r, fs')"
  then have i: "fs_inv True fs" by (simp add: quiet_inv_def)
  then obtain rank where r: "anchored (fs_slab fs) rank" "\<forall>i. inodes (fs_slab fs) i \<noteq> None \<longrightarrow> rank i < next_id (fs_slab fs)"
    by (rule inv_rank)
  have "rank dir < fs_fuel fs \<or> inodes (fs_slab fs) dir = None \<and> 0 < fs_fuel fs"
    using r(2) by (auto simp: fs_fuel_def)
  from inside_jj_loop_returns [OF r(1) quiet_inv_slab_inv [OF q] this] show "r \<noteq> Panic \<and> r \<noteq> Diverge"
    using run by (cases "jj_subtree fs") (auto simp: inside_jj_def, metis fst_conv, metis fst_conv)
qed

section \<open>Content loads do not panic\<close>

lemma returns_read_through: "returns P (read_through l f)"
  by (rule returnsI) (auto simp: read_through_def split: sum.splits option.splits prod.splits)

lemma returns_reads_content [returns_intros]:
  "returns P (read_tree oid)" "returns P (read_file oid)" "returns P (read_symlink oid)"
  by (simp_all add: read_tree_def read_file_def read_symlink_def returns_read_through)

lemma returns_get_inode [returns_intros]: "returns P (get_inode i)"
  by (simp add: get_inode_def returns_intros)

lemma returns_on_slab [returns_intros]: "returns P (on_slab f)"
  by (rule returnsI) (auto simp: on_slab_def split: prod.splits)

lemma entries_to_nodes_total: "\<forall>e \<in> set es. length (eid e) = 20 \<Longrightarrow> entries_to_nodes es \<noteq> None"
  by (induction es) (auto simp: entry_to_node_def split: option.splits)

lemma quiet_tree_ids:
  "quiet_inv rt fs0 fs \<Longrightarrow> git_read_tree (store fs) oid = Inr (Some es) \<Longrightarrow> \<forall>e \<in> set es. length (eid e) = 20"
  by (auto simp: quiet_inv_def fs_inv_def dest: git_read_tree_ids)

lemma returns_materialize_single_tree: "returns (quiet_inv rt fs0) (materialize_single_tree dir)"
  unfolding materialize_single_tree_def
proof (rule returns_seq [OF returns_get_inode keeps_get_inode])
  fix ino
  have "returns (\<lambda>fs. quiet_inv rt fs0 fs \<and> True \<and> git_read_tree (store fs) oid = Inr (Some tree))
     (case entries_to_nodes tree of None \<Rightarrow> panic
         | Some entries \<Rightarrow> seq (on_slab (materialize_dir_for_mutation dir entries)) (\<lambda>r.
             case r of None \<Rightarrow> throw NotADirectory | Some _ \<Rightarrow> ret ()))" for oid tree
  proof (rule returnsI)
    fix fs r fs'
    assume "quiet_inv rt fs0 fs \<and> True \<and> git_read_tree (store fs) oid = Inr (Some tree)"
    then have "entries_to_nodes tree \<noteq> None" using entries_to_nodes_total quiet_tree_ids by blast
    moreover assume "(case entries_to_nodes tree of None \<Rightarrow> panic
         | Some entries \<Rightarrow> seq (on_slab (materialize_dir_for_mutation dir entries)) (\<lambda>r.
             case r of None \<Rightarrow> throw NotADirectory | Some _ \<Rightarrow> ret ())) fs = (r, fs')"
    ultimately show "r \<noteq> Panic \<and> r \<noteq> Diverge"
      by (auto simp: seq_apply on_slab_def throw_def ret_def split: option.splits prod.splits)
  qed
  then have "returns (quiet_inv rt fs0) (seq (read_tree oid) (\<lambda>tree. case entries_to_nodes tree of None \<Rightarrow> panic
         | Some entries \<Rightarrow> seq (on_slab (materialize_dir_for_mutation dir entries)) (\<lambda>r.
             case r of None \<Rightarrow> throw NotADirectory | Some _ \<Rightarrow> ret ())))" for oid
    by (intro returns_seq [OF returns_reads_content(1)
        hoare_pre [OF hoare_read_tree [of rt fs0 "\<lambda>_. True" oid]]]) auto
  then show "returns (quiet_inv rt fs0) (case node ino of DirtyTree _ \<Rightarrow> ret ()
     | Tree oid \<Rightarrow> seq (read_tree oid) (\<lambda>tree. case entries_to_nodes tree of None \<Rightarrow> panic
         | Some entries \<Rightarrow> seq (on_slab (materialize_dir_for_mutation dir entries)) (\<lambda>r.
             case r of None \<Rightarrow> throw NotADirectory | Some _ \<Rightarrow> ret ()))
     | _ \<Rightarrow> throw NotADirectory)"
    by (auto split: NodeRef.split intro: returns_intros)
qed

section \<open>Promotion returns\<close>

lemma keeps_materialize_single_tree: "keeps (quiet_inv rt fs0) (materialize_single_tree dir)"
  unfolding hoare_keeps [symmetric] by (rule hoare_weaken [OF hoare_materialize_single_tree]) auto

lemma dirty_ancestors_loop_returns:
  assumes an: "anchored (fs_slab fs0) rank" and inv: "fs_inv True fs0"
  shows "quiet_inv True fs0 fs \<Longrightarrow> inodes (fs_slab fs0) i \<noteq> None \<Longrightarrow> rank i < fuel \<Longrightarrow>
         fst (dirty_ancestors_loop fuel i fs) \<noteq> Panic \<and> fst (dirty_ancestors_loop fuel i fs) \<noteq> Diverge"
proof (induction fuel arbitrary: i fs)
  case (Suc fuel)
  obtain k where k: "inodes (fs_slab fs0) i = Some k" using Suc.prems(2) by blast
  obtain k' where k': "inodes (fs_slab fs) i = Some k'" "parent k' = parent k"
    using quiet_parent [OF _ k] Suc.prems(1) by (auto simp: quiet_inv_def)
  show ?case
  proof (cases "parent k' = i")
    case True
    then show ?thesis using k' by (simp add: get_inode_seq ret_def)
  next
    case False
    have "i \<noteq> ROOT_INODE"
      using False slab_inv_root [OF quiet_inv_slab_inv [OF Suc.prems(1)]] k' by auto
    note up = parent_walk [OF an k this]
    obtain pk where pk: "inodes (fs_slab fs) (parent k) = Some pk"
      using quiet_dom [OF _ up(2)] Suc.prems(1) by (auto simp: quiet_inv_def)
    obtain x fs1 where x: "materialize_single_tree (parent k) fs = (x, fs1)" by fastforce
    have q1: "quiet_inv True fs0 fs1"
      using keepsD [OF keeps_materialize_single_tree Suc.prems(1) x] .
    have nx: "x \<noteq> Panic \<and> x \<noteq> Diverge" by (rule returnsD [OF returns_materialize_single_tree Suc.prems(1) x])
    have ih: "fst (dirty_ancestors_loop fuel (parent k) fs1) \<noteq> Panic \<and> fst (dirty_ancestors_loop fuel (parent k) fs1) \<noteq> Diverge"
      using Suc.IH [OF q1 up(2)] up(1) Suc.prems(3) by simp
    have "fst (seq (materialize_single_tree (parent k)) (\<lambda>_. dirty_ancestors_loop fuel (parent k)) fs) \<noteq> Panic \<and>
          fst (seq (materialize_single_tree (parent k)) (\<lambda>_. dirty_ancestors_loop fuel (parent k)) fs) \<noteq> Diverge"
      using x nx ih by (cases x) (auto simp: seq_apply)
    then show ?thesis using k' False pk by (cases "node pk") (simp_all add: get_inode_seq ret_def)
  qed
qed simp

lemma returns_ensure_dirty_tree: "returns (quiet_inv True fs0) (ensure_dirty_tree dir)"
  unfolding ensure_dirty_tree_def
proof (rule returns_seq [OF returns_inside_jj hoare_inside_jj],
    rule returns_seq [OF returns_materialize_single_tree hoare_materialize_single_tree], rule returns_if, rule returns_simple)
  show "returns (\<lambda>fs. quiet_inv True fs0 fs \<and> dirty_dir dir (fs_slab fs)) (\<lambda>fs. dirty_ancestors_loop (fs_fuel fs) dir fs)"
  proof (rule returnsI)
    fix fs r fs' assume q: "quiet_inv True fs0 fs \<and> dirty_dir dir (fs_slab fs)"
      and run: "dirty_ancestors_loop (fs_fuel fs) dir fs = (r, fs')"
    then have i: "fs_inv True fs" "inodes (fs_slab fs) dir \<noteq> None" by (auto simp: quiet_inv_def dirty_dir_def)
    from i(1) obtain rank where "anchored (fs_slab fs) rank" "\<forall>i. inodes (fs_slab fs) i \<noteq> None \<longrightarrow> rank i < next_id (fs_slab fs)"
      by (rule inv_rank)
    then show "r \<noteq> Panic \<and> r \<noteq> Diverge"
      using dirty_ancestors_loop_returns [of fs rank fs dir "fs_fuel fs"] i run by (auto simp: quiet_inv_refl fs_fuel_def)
  qed
qed

lemma returns_is_ignored: "returns (quiet_inv True fs0) (is_ignored p n d)"
  unfolding is_ignored_def
  by (intro returns_seq [OF returns_simple(3) quiet_reads] returns_if returns_simple
      returns_seq [OF returns_repo_path_str keeps_repo_path_str])

lemma returns_ensure_dirty_file [returns_intros]: "returns P (ensure_dirty_file i)"
  unfolding ensure_dirty_file_def
  by (rule returns_seq_any) (auto intro!: returns_intros split: NodeRef.split)

lemma returns_attr_for [returns_intros]: "returns P (attr_for i)"
  unfolding attr_for_def Let_def
  by (intro returns_seq_any returns_intros) (auto intro!: returns_intros split: NodeRef.split)

lemma returns_child_exists [returns_intros]: "returns P (child_exists p n)"
  unfolding child_exists_def
  by (intro returns_seq_any returns_intros) (auto intro!: returns_intros split: NodeRef.split)

section \<open>The trait's operations return\<close>

lemma returns_fs_read: "returns P (fs_read i off cnt)"
  unfolding fs_read_def by (intro returns_seq_any returns_intros) (auto intro!: returns_intros split: NodeRef.split)

lemma returns_fs_readlink: "returns P (fs_readlink i)"
  unfolding fs_readlink_def by (intro returns_seq_any returns_intros) (auto intro!: returns_intros split: NodeRef.split)

lemma returns_fs_getattr: "returns P (fs_getattr i)"
  unfolding fs_getattr_def by (rule returns_attr_for)

lemma returns_entry_intern:
  "length (eid e) = 20 \<Longrightarrow> returns P (case entry_to_node e of None \<Rightarrow> panic | Some nd \<Rightarrow> on_slab (intern_child p n nd))"
  by (auto simp: entry_to_node_def intro: returns_intros)

lemma returns_fs_lookup: "returns (quiet_inv rt fs0) (fs_lookup p n)"
proof -
  have "returns (quiet_inv rt fs0) (seq (read_tree oid) (\<lambda>tree.
      case List.find (\<lambda>e. ename e = n) tree of None \<Rightarrow> throw NotFound
      | Some e \<Rightarrow> (case entry_to_node e of None \<Rightarrow> panic | Some nd \<Rightarrow> on_slab (intern_child p n nd))))" for oid
  proof (rule returns_seq [OF returns_reads_content(1) hoare_pre [OF hoare_read_tree [of rt fs0 "\<lambda>_. True" oid]]], simp, goal_cases)
    case (1 tree)
    show ?case
    proof (cases "List.find (\<lambda>e. ename e = n) tree")
      case (Some e)
      then have "e \<in> set tree" by (auto simp: find_Some_iff)
      show ?thesis
      proof (cases "\<exists>fs. quiet_inv rt fs0 fs \<and> git_read_tree (store fs) oid = Inr (Some tree)")
        case True
        then have "length (eid e) = 20" using quiet_tree_ids \<open>e \<in> set tree\<close> by blast
        then show ?thesis by (simp add: Some returns_entry_intern)
      qed (auto simp: returns_def)
    qed (simp add: returns_intros)
  qed
  then show ?thesis
    unfolding fs_lookup_def
    by (intro returns_if returns_simple returns_seq [OF returns_simple(3) quiet_reads] returns_seq [OF returns_get_inode keeps_get_inode])
      (auto intro: returns_intros split: NodeRef.split)
qed

lemma returns_readdir_dirty: "returns P (readdir_dirty r jj cs)"
proof (induction r jj cs arbitrary: P rule: readdir_dirty.induct)
  case (2 r jj n c cs)
  then show ?case unfolding readdir_dirty.simps by (intro returns_if returns_seq_any returns_intros) auto
qed (simp add: returns_intros)

lemma returns_readdir_clean:
  "\<forall>e \<in> set es. length (eid e) = 20 \<Longrightarrow> returns P (readdir_clean dir r jj es)"
proof (induction es arbitrary: P)
  case (Cons e es)
  then have "entry_to_node e \<noteq> None" by (simp add: entry_to_node_def)
  then show ?case using Cons unfolding readdir_clean.simps by (auto intro!: returns_if returns_seq_any returns_intros)
qed (simp add: returns_intros)

lemma returns_fs_readdir: "returns (quiet_inv rt fs0) (fs_readdir dir)"
proof -
  have "returns (quiet_inv rt fs0) (seq (read_tree oid) (\<lambda>tree. seq (readdir_clean dir b jj tree) (\<lambda>out. ret (out @ pinned_entries b jj gf))))" for oid b jj gf
  proof (rule returns_seq [OF returns_reads_content(1) hoare_pre [OF hoare_read_tree [of rt fs0 "\<lambda>_. True" oid]]], simp, goal_cases)
    case (1 tree)
    show ?case
    proof (cases "\<exists>fs. quiet_inv rt fs0 fs \<and> git_read_tree (store fs) oid = Inr (Some tree)")
      case True
      then have "\<forall>e \<in> set tree. length (eid e) = 20" using quiet_tree_ids by blast
      then show ?thesis by (intro returns_seq_any returns_readdir_clean returns_simple)
    qed (auto simp: returns_def)
  qed
  then show ?thesis
    unfolding fs_readdir_def
    by (intro returns_seq [OF returns_get_inode keeps_get_inode] returns_seq [OF returns_simple(3) quiet_reads])
      (auto simp: dir_tree_def intro!: returns_readdir_dirty returns_seq_any returns_simple split: NodeRef.split)
qed

lemma returns_evo:
  assumes "\<And>fs1. returns (quiet_inv rt fs1) m" shows "returns (evo_inv rt fs0) m"
  using assms by (auto simp: returns_def evo_inv_def quiet_inv_def)

lemma returns_add_entry [returns_intros]: "returns P (add_entry p n nd ign)"
  unfolding add_entry_def by (intro returns_seq_any returns_intros)

lemma evo_ensure_keeps: "hoare (evo_inv rt fs0) (ensure_dirty_tree p) (\<lambda>_. evo_inv rt fs0) (evo_inv rt fs0)"
  by (rule hoare_weaken [OF evo_ensure_dirty_tree [where R = "\<lambda>_. True"]]) auto

lemmas returns_evo_ops = returns_evo [OF returns_ensure_dirty_tree] returns_evo [OF returns_is_ignored]

lemma returns_create:
  assumes "\<And>ign. returns (\<lambda>_. True) (f ign)"
  shows "returns (evo_inv True fs0)
    (seq (child_exists p n) (\<lambda>ex. if ex then throw AlreadyExists
       else seq (ensure_dirty_tree p) (\<lambda>_. seq (is_ignored p n d) f)))"
  by (intro returns_seq [OF returns_child_exists evo_keeps(1)] returns_if returns_simple
      returns_seq [OF returns_evo_ops(1) evo_ensure_keeps] returns_seq_any [OF returns_evo_ops(2)] assms)

lemma returns_fs_create_file: "returns (evo_inv True fs0) (fs_create_file p n x)"
  unfolding fs_create_file_def by (intro returns_create returns_add_entry)

lemma returns_fs_symlink: "returns (evo_inv True fs0) (fs_symlink p n t)"
  unfolding fs_symlink_def by (intro returns_create returns_add_entry)

lemma returns_mkdir_jj: "returns P (mkdir_jj p n)"
  unfolding mkdir_jj_def by (intro returns_seq_any returns_intros)

lemma returns_fs_mkdir: "returns (evo_inv True fs0) (fs_mkdir p n)"
  unfolding fs_mkdir_def
  by (intro returns_if returns_mkdir_jj returns_seq [OF returns_child_exists evo_keeps(1)] returns_simple
      returns_seq [OF returns_evo_ops(1) evo_ensure_keeps]
      returns_seq [OF returns_simple(3) hoare_reads [where Q = "\<lambda>_. evo_inv True fs0" and E = "\<lambda>_. True"]]
      returns_case_option returns_case_sum returns_add_entry returns_seq_any [OF returns_evo_ops(2)])

lemma returns_dirty_for_write: "returns (evo_inv True fs0) (dirty_for_write i)"
proof -
  have a: "hoare (quiet_inv True fs1) (ensure_dirty_file i) (\<lambda>_. quiet_inv True fs1) (quiet_inv True fs1)" for fs1
    by (rule hoare_weaken [OF hoare_ensure_dirty_file]) auto
  show ?thesis
    unfolding dirty_for_write_def
    by (intro returns_evo returns_seq [OF returns_ensure_dirty_file a] returns_seq [OF returns_get_inode keeps_get_inode]
        returns_ensure_dirty_tree)
qed

lemma returns_fs_write: "int (offset + length data) \<le> isize_max \<Longrightarrow> returns (evo_inv True fs0) (fs_write i offset data)"
  unfolding fs_write_def
  by (intro returns_seq [OF returns_simple(3) hoare_reads [where Q = "\<lambda>_. evo_inv True fs0" and E = "\<lambda>_. True"]]
      returns_if returns_simple returns_seq_any [OF returns_dirty_for_write] returns_seq_any [OF returns_get_inode])
    (auto simp: Let_def intro!: returns_seq_any returns_intros split: NodeRef.split)

lemma returns_fs_setattr: "(\<And>n. sz = Some n \<Longrightarrow> int n \<le> isize_max) \<Longrightarrow> returns (evo_inv True fs0) (fs_setattr i sz ex)"
  unfolding fs_setattr_def
  by (intro returns_seq [OF returns_simple(3) hoare_reads [where Q = "\<lambda>_. evo_inv True fs0" and E = "\<lambda>_. True"]]
      returns_if returns_simple returns_attr_for returns_seq_any [OF returns_dirty_for_write] returns_seq_any [OF returns_get_inode])
    (auto intro!: returns_seq_any returns_intros split: NodeRef.split option.split)

lemma returns_remove_from_slab: "returns (evo_inv True fs0) (remove_from_slab p n)"
  unfolding remove_from_slab_def
  by (intro returns_seq_any [OF returns_evo_ops(1)] returns_seq_any [OF returns_get_inode])
    (auto intro!: returns_seq_any returns_intros split: NodeRef.split)

lemma returns_fs_remove: "returns (evo_inv True fs0) (fs_remove p n)"
  unfolding fs_remove_def
proof (intro returns_if returns_simple returns_remove_from_slab
      returns_seq [OF returns_simple(3) hoare_reads [where Q = "\<lambda>_. evo_inv True fs0" and E = "\<lambda>_. True"]] returns_case_option)
  show "returns (evo_inv True fs0) (remove_jj j)" for j
    unfolding remove_jj_def
    by (intro returns_seq_any [OF returns_get_inode]) (auto intro!: returns_seq_any returns_intros split: NodeRef.split)
qed

lemma returns_fs_check_out: "returns P (fs_check_out t mt)"
  unfolding fs_check_out_def by (intro returns_seq_any returns_intros)

lemma returns_rename_rest [returns_intros]:
  "returns P (dirty_child p n)" "returns P (check_replace s d)" "returns P (move_entry p n np nn c)"
  unfolding dirty_child_def check_replace_def move_entry_def
  by (intro returns_seq_any returns_intros; auto intro!: returns_seq_any returns_intros split: NodeRef.split)+

lemma returns_fs_rename: "returns (evo_inv True fs0) (fs_rename p n np nn)"
proof -
  have np: "returns (evo_inv True fs0) (if np \<noteq> p then ensure_dirty_tree np else ret ())"
    by (intro returns_if returns_evo_ops(1) returns_simple)
  show ?thesis
    unfolding fs_rename_def
    by (intro returns_if returns_simple returns_seq [OF returns_evo_ops(1) evo_ensure_keeps] returns_seq_any [OF np]
        returns_seq_any [OF returns_rename_rest(1)] returns_case_option returns_seq_any returns_intros)
qed

section \<open>The snapshot recursion ends\<close>

lemma store_write_returns: "store_write w fs = (r, fs') \<Longrightarrow> r \<noteq> Panic \<and> r \<noteq> Diverge"
  by (auto simp: store_write_def split: prod.splits sum.splits if_splits)

lemma returns_store_write [returns_intros]: "returns P (store_write w)"
  by (rule returnsI) (rule store_write_returns)

text \<open>
  The children of a directory have a larger rank than the directory, so a fuel above the distance to the
  largest rank is enough.
\<close>

lemma snapshot_children_returns:
  assumes rank: "anchored (fs_slab fs0) rank"
    and A: "\<And>c fs. snap_inv True fs0 fs \<Longrightarrow> c \<noteq> git_file fs0 \<Longrightarrow> inodes (fs_slab fs0) c \<noteq> None \<Longrightarrow> rank d < rank c \<Longrightarrow>
          fst (snapshot_node fuel c fs) \<noteq> Panic \<and> fst (snapshot_node fuel c fs) \<noteq> Diverge"
  shows "snap_inv True fs0 fs \<Longrightarrow> \<forall>e \<in> set cs. snd e \<noteq> git_file fs0 \<and> rank d < rank (snd e) \<Longrightarrow>
         fst (snapshot_children fuel b cs fs) \<noteq> Panic \<and> fst (snapshot_children fuel b cs fs) \<noteq> Diverge"
proof (induction cs arbitrary: fs)
  case (Cons e cs)
  obtain n c where e: "e = (n, c)" by (cases e)
  have ih: "snap_inv True fs0 fs' \<Longrightarrow> fst (snapshot_children fuel b cs fs') \<noteq> Panic \<and> fst (snapshot_children fuel b cs fs') \<noteq> Diverge" for fs'
    using Cons.IH Cons.prems(2) by simp
  show ?case
  proof (cases "inodes (fs_slab fs) c")
    case None
    then show ?thesis using ih [OF Cons.prems(1)] by (cases b) (simp_all add: e snapshot_children_Cons get_inode_seq del: snapshot_children.simps)
  next
    case (Some k)
    obtain x fs1 where x: "snapshot_kid fuel c k fs = (x, fs1)" by fastforce
    have c: "c \<noteq> git_file fs0" "rank d < rank c" "inodes (fs_slab fs0) c \<noteq> None"
      using Cons.prems Some snap_inv_inode [OF Cons.prems(1) Some] by (auto simp: e)
    have "snap_inv True fs0 fs1"
      by (rule conjunct1, rule snapshot_kid_spec [OF _ Cons.prems(1) Some x]) (rule snapshot_node_spec [OF _ c(1)])
    moreover have "x \<noteq> Panic \<and> x \<noteq> Diverge"
      using x A [OF Cons.prems(1) c(1,3,2)]
      by (auto simp: snapshot_kid_def ret_def seq_apply split: option.splits prod.splits outcome.splits)
    ultimately have "fst (seq (snapshot_kid fuel c k) (\<lambda>kid. seq (snapshot_children fuel b cs) (\<lambda>rest.
          ret (\<lparr>ename = n, ekind = fst kid, eid = snd kid\<rparr> # rest))) fs) \<noteq> Panic \<and>
        fst (seq (snapshot_kid fuel c k) (\<lambda>kid. seq (snapshot_children fuel b cs) (\<lambda>rest.
          ret (\<lparr>ename = n, ekind = fst kid, eid = snd kid\<rparr> # rest))) fs) \<noteq> Diverge"
      using x ih [of fs1] by (cases x) (auto simp: seq_apply ret_def split: prod.splits outcome.splits)
    then show ?thesis
      using ih [OF Cons.prems(1)] Some by (cases b) (simp_all add: e snapshot_children_Cons get_inode_seq del: snapshot_children.simps)
  qed
qed (simp add: ret_def)

lemma snap_kid_rank:
  assumes rank: "anchored (fs_slab fs0) rank" and s: "snap_inv True fs0 fs"
    and k: "inodes (fs_slab fs) i = Some k" "node k = DirtyTree cs" and e: "e \<in> set cs"
  shows "rank i < rank (snd e)" and "inodes (fs_slab fs0) (snd e) \<noteq> None"
proof -
  have inv: "slab_inv (fs_slab fs)" using s by (simp add: snap_inv_def evo_inv_def fs_inv_def slab_ok_def)
  have "map_of cs (fst e) = Some (snd e)"
    using slab_inv_kids [OF inv k] bt_wf_distinct [of cs] e by simp
  then obtain c where c: "snd e \<noteq> ROOT_INODE" "inodes (fs_slab fs) (snd e) = Some c" "parent c = i"
    using slab_inv_child [OF inv k] by blast
  obtain c0 where c0: "inodes (fs_slab fs0) (snd e) = Some c0" "parent c0 = i"
    by (rule snap_inv_inode [OF s c(2)]) (metis c(3) inode.select_convs(1) inode.surjective inode.update_convs(3))
  show "rank i < rank (snd e)" using parent_walk(1) [OF rank c0(1) c(1)] c0(2) by simp
  show "inodes (fs_slab fs0) (snd e) \<noteq> None" using c0 by simp
qed

lemma snapshot_node_returns:
  assumes rank: "anchored (fs_slab fs0) rank" and B: "\<forall>i. inodes (fs_slab fs0) i \<noteq> None \<longrightarrow> rank i < B"
  shows "snap_inv True fs0 fs \<Longrightarrow> i \<noteq> git_file fs0 \<Longrightarrow> inodes (fs_slab fs0) i \<noteq> None \<Longrightarrow> B \<le> fuel + rank i \<Longrightarrow>
         fst (snapshot_node fuel i fs) \<noteq> Panic \<and> fst (snapshot_node fuel i fs) \<noteq> Diverge"
proof (induction fuel arbitrary: i fs)
  case 0
  then show ?case using B by (metis add_0 leD)
next
  case (Suc fuel)
  note s = Suc.prems(1)
  show ?case
  proof (cases "inodes (fs_slab fs) i")
    case None
    then show ?thesis by (simp add: get_inode_seq)
  next
    case (Some k)
    show ?thesis
    proof (cases "node k")
      case (DirtyTree cs)
      have kids: "\<forall>e \<in> set cs. snd e \<noteq> git_file fs0 \<and> rank i < rank (snd e)"
        using snap_kids_not_git [OF s Some DirtyTree] snap_kid_rank(1) [OF rank s Some DirtyTree] by blast
      have "fst (snapshot_children fuel (i = ROOT_INODE) cs fs) \<noteq> Panic \<and> fst (snapshot_children fuel (i = ROOT_INODE) cs fs) \<noteq> Diverge"
        by (rule snapshot_children_returns [OF rank _ s kids]) (use Suc.IH Suc.prems(4) in auto)
      then have "returns (\<lambda>s. s = fs) (seq (snapshot_children fuel (i = ROOT_INODE) cs) (\<lambda>entries.
         seq (store_write (git_write_tree entries)) (\<lambda>oid. seq (on_slab (replace_node i (Tree oid))) (\<lambda>_. ret oid))))"
        by (intro returns_seq_any returns_intros) (simp add: returns_def)
      then show ?thesis using Some DirtyTree by (simp add: get_inode_seq returns_def)
    next
      case (DirtyFile b x)
      have "returns (\<lambda>_. True) (seq (store_write (git_write_file b)) (\<lambda>oid. seq (on_slab (replace_node i (File oid x))) (\<lambda>_. ret oid)) :: ('a, oid) fs_op)"
        by (intro returns_seq_any returns_intros)
      then show ?thesis using Some DirtyFile by (simp add: get_inode_seq returns_def)
    next
      case (DirtySymlink t)
      have "returns (\<lambda>_. True) (seq (store_write (git_write_symlink t)) (\<lambda>oid. seq (on_slab (replace_node i (Symlink oid))) (\<lambda>_. ret oid)) :: ('a, oid) fs_op)"
        by (intro returns_seq_any returns_intros)
      then show ?thesis using Some DirtySymlink by (simp add: get_inode_seq returns_def)
    qed (simp_all add: get_inode_seq Some ret_def)
  qed
qed

lemma returns_fs_snapshot: "returns (fs_inv True) fs_snapshot"
proof (rule returnsI)
  fix fs :: "'a kiki_fs" and r fs' assume inv: "fs_inv True fs" and run: "fs_snapshot fs = (r, fs')"
  obtain rank where rank: "anchored (fs_slab fs) rank" "\<forall>i. inodes (fs_slab fs) i \<noteq> None \<longrightarrow> rank i < next_id (fs_slab fs)"
    by (rule inv_rank [OF inv])
  have s0: "snap_inv True fs fs" by (rule snap_inv_refl [OF inv])
  have root: "ROOT_INODE \<noteq> git_file fs" "inodes (fs_slab fs) ROOT_INODE \<noteq> None"
    using inv slab_inv_root [of "fs_slab fs"] by (auto simp: fs_inv_def slab_ok_def pinned_ok_def)
  obtain x fs1 where x: "snapshot_node (fs_fuel fs) ROOT_INODE fs = (x, fs1)" by fastforce
  have nx: "x \<noteq> Panic \<and> x \<noteq> Diverge"
    using snapshot_node_returns [OF rank s0 root, of "fs_fuel fs"] x by (simp add: fs_fuel_def)
  have s1: "snap_inv True fs fs1" using snapshot_node_spec [OF s0 root(1) x] by (simp add: snap_post_def)
  show "r \<noteq> Panic \<and> r \<noteq> Diverge"
  proof (cases "jj_subtree fs1")
    case None
    then show ?thesis using run x nx by (cases x) (auto simp: fs_snapshot_def seq_apply reads_def ret_def)
  next
    case (Some j)
    then have "jj_subtree fs = Some j" using s1 by (simp add: snap_inv_def)
    then have j: "j \<noteq> git_file fs" "inodes (fs_slab fs) j \<noteq> None"
      using inv by (auto simp: fs_inv_def slab_ok_def pinned_ok_def)
    have "next_id (fs_slab fs1) = next_id (fs_slab fs)" using s1 by (simp add: snap_inv_def)
    then have "fst (snapshot_node (fs_fuel fs1) j fs1) \<noteq> Panic \<and> fst (snapshot_node (fs_fuel fs1) j fs1) \<noteq> Diverge"
      using snapshot_node_returns [OF rank s1 j, of "fs_fuel fs1"] by (simp add: fs_fuel_def)
    then show ?thesis
      using run x nx Some by (cases x)
        (auto simp: fs_snapshot_def seq_apply reads_def ret_def split: prod.splits outcome.splits)
  qed
qed

end
