(* ===== verification/Kiki_Trait.thy ===== *)
theory Kiki_Trait
  imports Kiki_Total
begin

text \<open>
  The trait \<^verbatim>\<open>JjKikiFs\<close> of \<^verbatim>\<open>src/daemon/src/vfs/kiki_fs.rs\<close> as a type of calls, the reachable states of a
  mount under any sequence of calls, and what holds of all of them: the invariant, and that a call
  returns.
\<close>

section \<open>Calls\<close>

datatype fs_call =
    Lookup inode_id string
  | Getattr inode_id
  | Read inode_id nat nat
  | Readdir inode_id
  | Readlink inode_id
  | CheckOut oid int
  | CreateFile inode_id string bool
  | Mkdir inode_id string
  | MkSymlink inode_id string string
  | Write inode_id nat bytes
  | Setattr inode_id "nat option" "bool option"
  | Remove inode_id string
  | Rename inode_id string inode_id string
  | Snapshot

datatype fs_reply =
    RInode inode_id
  | RAttr Attr
  | RData bytes bool
  | REntries "DirEntry list"
  | RTarget string
  | RUnit
  | RNew inode_id Attr
  | RCount nat
  | RId oid

definition reply :: "('a \<Rightarrow> fs_reply) \<Rightarrow> ('g, 'a) fs_op \<Rightarrow> ('g, fs_reply) fs_op" where
  "reply f m = seq m (\<lambda>a. ret (f a))"

fun fs_exec :: "fs_call \<Rightarrow> ('g, fs_reply) fs_op" where
  "fs_exec (Lookup p n) = reply RInode (fs_lookup p n)"
| "fs_exec (Getattr i) = reply RAttr (fs_getattr i)"
| "fs_exec (Read i off cnt) = reply (\<lambda>(d, eof). RData d eof) (fs_read i off cnt)"
| "fs_exec (Readdir d) = reply REntries (fs_readdir d)"
| "fs_exec (Readlink i) = reply RTarget (fs_readlink i)"
| "fs_exec (CheckOut t mt) = reply (\<lambda>_. RUnit) (fs_check_out t mt)"
| "fs_exec (CreateFile p n x) = reply (\<lambda>(i, a). RNew i a) (fs_create_file p n x)"
| "fs_exec (Mkdir p n) = reply (\<lambda>(i, a). RNew i a) (fs_mkdir p n)"
| "fs_exec (MkSymlink p n t) = reply (\<lambda>(i, a). RNew i a) (fs_symlink p n t)"
| "fs_exec (Write i off d) = reply RCount (fs_write i off d)"
| "fs_exec (Setattr i sz x) = reply RAttr (fs_setattr i sz x)"
| "fs_exec (Remove p n) = reply (\<lambda>_. RUnit) (fs_remove p n)"
| "fs_exec (Rename p n np nn) = reply (\<lambda>_. RUnit) (fs_rename p n np nn)"
| "fs_exec Snapshot = reply RId fs_snapshot"

text \<open>
  What Rust's types give of a call (an \<^verbatim>\<open>Id\<close> has 20 bytes), and the condition under which a rename keeps
  the parent pointers acyclic.
\<close>

fun call_typed :: "fs_call \<Rightarrow> bool" where
  "call_typed (CheckOut t mt) \<longleftrightarrow> length t = 20"
| "call_typed _ \<longleftrightarrow> True"

fun call_acyclic :: "'g kiki_fs \<Rightarrow> fs_call \<Rightarrow> bool" where
  "call_acyclic fs (Rename p n np nn) \<longleftrightarrow> inodes (fs_slab fs) np \<noteq> None \<and> no_cycle p n np fs"
| "call_acyclic fs _ \<longleftrightarrow> True"

fun call_sized :: "fs_call \<Rightarrow> bool" where
  "call_sized (Write i off d) \<longleftrightarrow> int (off + length d) \<le> isize_max"
| "call_sized (Setattr i sz x) \<longleftrightarrow> (\<forall>n. sz = Some n \<longrightarrow> int n \<le> isize_max)"
| "call_sized _ \<longleftrightarrow> True"

section \<open>The invariant, call by call\<close>

lemma evo_reply:
  "hoare P m (\<lambda>_. evo_inv rt fs0) (evo_inv rt fs0) \<Longrightarrow> hoare P (reply f m) (\<lambda>_. evo_inv rt fs0) (evo_inv rt fs0)"
  unfolding reply_def by (erule hoare_seq) (rule hoare_ret)

lemma quiet_reply:
  "(\<And>fs1. hoare (quiet_inv rt fs1) m (\<lambda>_. quiet_inv rt fs1) (quiet_inv rt fs1)) \<Longrightarrow>
   hoare (evo_inv rt fs0) (reply f m) (\<lambda>_. evo_inv rt fs0) (evo_inv rt fs0)"
  by (rule evo_reply) (rule hoare_quiet_evo)

lemma evo_simple_call:
  assumes "call_typed c" and "\<forall>p n np nn. c \<noteq> Rename p n np nn" and "c \<noteq> Snapshot"
  shows "hoare (evo_inv rt fs0) (fs_exec c) (\<lambda>_. evo_inv rt fs0) (evo_inv rt fs0)"
  using assms
  by (cases c) (simp_all add: quiet_reply keeps_fs_lookup keeps_fs_getattr keeps_fs_read keeps_fs_readdir keeps_fs_readlink
      evo_reply evo_check_out evo_create_file evo_mkdir evo_symlink evo_write evo_setattr evo_remove)

lemma fs_exec_evolves:
  assumes inv: "fs_inv rt fs" and typed: "call_typed c" and ac: "rt \<longrightarrow> call_acyclic fs c" and run: "fs_exec c fs = (r, fs')"
  shows "evo_inv rt fs fs'"
proof -
  consider (ren) p n np nn where "c = Rename p n np nn" | (snap) "c = Snapshot"
    | (simple) "\<forall>p n np nn. c \<noteq> Rename p n np nn" "c \<noteq> Snapshot" by blast
  then show ?thesis
  proof cases
    case (ren p n np nn)
    have "rt \<longrightarrow> inodes (fs_slab fs) np \<noteq> None \<and> no_cycle p n np fs" using ac ren by simp
    then have "hoare (quiet_inv rt fs) (fs_exec c) (\<lambda>_. evo_inv rt fs) (evo_inv rt fs)"
      unfolding ren fs_exec.simps by (intro evo_reply evo_rename_from [OF inv])
    from hoare_any [OF this quiet_inv_refl [OF inv] run] show ?thesis .
  next
    case snap
    obtain x fs1 where x: "fs_snapshot fs = (x, fs1)" by fastforce
    have "fs' = fs1" using run x by (cases x) (auto simp: snap reply_def seq_apply ret_def)
    then show ?thesis using evo_snapshot [OF inv x] by simp
  next
    case simple
    from hoare_any [OF evo_simple_call [OF typed simple] evo_inv_refl [OF inv] run] show ?thesis .
  qed
qed

lemma returns_reply: "returns P m \<Longrightarrow> returns P (reply f m)"
  unfolding reply_def by (intro returns_seq_any returns_simple)

lemma fs_exec_returns_evo:
  assumes "call_sized c" shows "returns (\<lambda>s. s = fs \<and> fs_inv True s) (fs_exec c)"
proof -
  have e: "returns (\<lambda>s. s = fs \<and> fs_inv True s) (reply f m)" if "returns (evo_inv True fs) m" for f m
    by (rule returns_reply [THEN returns_pre, OF that]) (auto simp: evo_inv_refl)
  have q: "returns (\<lambda>s. s = fs \<and> fs_inv True s) (reply f m)" if "returns (quiet_inv True fs) m" for f m
    by (rule returns_reply [THEN returns_pre, OF that]) (auto simp: quiet_inv_refl)
  show ?thesis
  proof (cases c)
    case (Write i off d)
    then show ?thesis using assms by (simp add: e returns_fs_write)
  next
    case (Setattr i sz x)
    then show ?thesis using assms by (simp add: e returns_fs_setattr)
  next
    case Snapshot
    show ?thesis unfolding Snapshot fs_exec.simps
      by (rule returns_reply, rule returns_pre [OF returns_fs_snapshot]) simp
  qed (simp_all add: e q returns_reply returns_fs_lookup returns_fs_getattr returns_fs_read returns_fs_readdir returns_fs_readlink
      returns_fs_check_out returns_fs_create_file returns_fs_mkdir returns_fs_symlink returns_fs_remove returns_fs_rename)
qed

section \<open>Reachable states\<close>

text \<open>
  The states of a mount after any sequence of calls. With the flag set, renames are those that do not
  move a directory below itself.
\<close>

inductive fs_reach :: "bool \<Rightarrow> 'g kiki_fs \<Rightarrow> 'g kiki_fs \<Rightarrow> bool" for rt fs0 where
  reach_init: "fs_reach rt fs0 fs0"
| reach_step: "fs_reach rt fs0 fs \<Longrightarrow> call_typed c \<Longrightarrow> rt \<longrightarrow> call_acyclic fs c \<Longrightarrow> fs_exec c fs = (r, fs') \<Longrightarrow> fs_reach rt fs0 fs'"

lemma fs_reach_inv: "fs_reach rt fs0 fs \<Longrightarrow> fs_inv rt fs0 \<Longrightarrow> evo_inv rt fs0 fs"
proof (induction rule: fs_reach.induct)
  case (reach_step fs c r fs')
  then have "fs_inv rt fs" by (simp add: evo_inv_def)
  from fs_exec_evolves [OF this reach_step.hyps(2-4)] have "evo_inv rt fs fs'" .
  then show ?case using reach_step.IH [OF reach_step.prems] fs_evolves_trans by (auto simp: evo_inv_def)
qed (rule evo_inv_refl)

end
