(* ===== verification/Git_Model.thy ===== *)
theory Git_Model
  imports Kiki_Trait
begin

text \<open>
  A concrete instance of the git libraries (\<open>git_lib\<close>), used to show that the laws of \<open>git_laws\<close> can be
  met and to run the model on examples. The object database is the list of the objects written; the id
  of an object is its position as a 20-byte number, and a write fails when the numbers run out.
\<close>

section \<open>Ids and tree objects as bytes\<close>

definition mem_pad :: bytes where
  "mem_pad = replicate 19 (CHR 0x00)"

definition mem_id :: "nat \<Rightarrow> bytes" where
  "mem_id n = mem_pad @ [char_of n]"

lemma length_mem_pad [simp]: "length mem_pad = 19"
  unfolding mem_pad_def by (rule length_replicate)

lemma length_mem_id [simp]: "length (mem_id n) = 20"
  by (simp add: mem_id_def)

lemma mem_id_parts [simp]: "take 19 (mem_id n) = mem_pad" "mem_id n ! 19 = char_of n"
  using nth_append_length [of mem_pad] by (simp_all add: mem_id_def)

definition mem_mode :: "TreeValue \<Rightarrow> byte" where
  "mem_mode v = (case v of TVTree _ \<Rightarrow> CHR ''t'' | TVFile _ x \<Rightarrow> if x then CHR ''x'' else CHR ''f''
     | TVSymlink _ \<Rightarrow> CHR ''l'' | TVGitSubmodule _ \<Rightarrow> CHR ''s'')"

definition mem_value_id :: "TreeValue \<Rightarrow> bytes" where
  "mem_value_id v = (case v of TVTree i \<Rightarrow> i | TVFile i _ \<Rightarrow> i | TVSymlink i \<Rightarrow> i | TVGitSubmodule i \<Rightarrow> i)"

definition mode_of :: "byte \<Rightarrow> gix_mode option" where
  "mode_of c = (if c = CHR ''t'' then Some MTree else if c = CHR ''f'' then Some MBlob
     else if c = CHR ''x'' then Some MBlobExecutable else if c = CHR ''l'' then Some MLink
     else if c = CHR ''s'' then Some MCommit else None)"

fun mem_encode :: "(string \<times> TreeValue) list \<Rightarrow> bytes" where
  "mem_encode [] = []"
| "mem_encode ((n, v) # vs) = mem_mode v # char_of (length n) # mem_value_id v @ n @ mem_encode vs"

function mem_iter :: "bytes \<Rightarrow> (string + gix_entry) list" where
  "mem_iter [] = []"
| "mem_iter [m] = [Inl ''truncated'']"
| "mem_iter (m # l # bs) =
     (case mode_of m of
        None \<Rightarrow> [Inl ''bad mode'']
      | Some md \<Rightarrow>
          if length bs < 20 + of_char l then [Inl ''truncated'']
          else Inr \<lparr>gmode = md, gfilename = take (of_char l) (drop 20 bs), goid = take 20 bs\<rparr>
               # mem_iter (drop (20 + of_char l) bs))"
  by pat_completeness auto
termination by (relation "measure length") auto

section \<open>The instance\<close>

type_synonym mem_db = "(GitObjectKind \<times> bytes) list"

fun index_of :: "'a \<Rightarrow> 'a list \<Rightarrow> nat" where
  "index_of x [] = 0"
| "index_of x (y # ys) = (if x = y then 0 else Suc (index_of x ys))"

definition mem_find :: "mem_db \<Rightarrow> bytes \<Rightarrow> string + (GitObjectKind \<times> bytes) option" where
  "mem_find db i =
     (if length i = 20 \<and> take 19 i = mem_pad \<and> of_char (i ! 19) < length db
      then Inr (Some (db ! of_char (i ! 19))) else Inr None)"

definition mem_write :: "GitObjectKind \<Rightarrow> bytes \<Rightarrow> mem_db \<Rightarrow> (string + bytes) \<times> mem_db" where
  "mem_write k b db =
     (let n = index_of (k, b) db
      in if n \<ge> 256 then (Inl ''object database is full'', db)
         else if n < length db then (Inr (mem_id n), db)
         else (Inr (mem_id n), db @ [(k, b)]))"

definition mem_component_ok :: "string \<Rightarrow> bool" where
  "mem_component_ok n \<longleftrightarrow> n \<noteq> [] \<and> CHR ''/'' \<notin> set n \<and> length n < 256 \<and> utf8_valid n"

definition mem_git :: "mem_db git_lib" where
  "mem_git = \<lparr>gix_exists = (\<lambda>db i. case mem_find db i of Inr (Some _) \<Rightarrow> True | _ \<Rightarrow> False),
     gix_find_object = mem_find, gix_write_buf = mem_write, gix_tree_iter = mem_iter,
     jj_write_file = mem_write GBlob, jj_write_symlink = mem_write GBlob,
     jj_write_tree = (\<lambda>vs. mem_write GTree (mem_encode vs)),
     jj_read_commit = (\<lambda>_ _. Inr None), jj_write_commit = (\<lambda>_ db. (Inl ''no commits'', db)),
     table_add_entry = (\<lambda>_ _ db. (Inr (), db)), prost_extras = (\<lambda>c ps. c @ concat ps),
     jj_component_ok = mem_component_ok, jj_empty_tree_id = replicate 20 (CHR 0xFF)\<rparr>"

section \<open>It satisfies the laws\<close>

lemma index_of_nth: "index_of x xs < length xs \<Longrightarrow> xs ! index_of x xs = x"
  by (induction xs) auto

lemma index_of_le: "index_of x xs \<le> length xs"
  by (induction xs) auto

lemma mem_find_id: "n < 256 \<Longrightarrow> n < length db \<Longrightarrow> mem_find db (mem_id n) = Inr (Some (db ! n))"
proof -
  assume n: "n < 256" "n < length db"
  have "(of_char (char_of n :: char) :: nat) = n" using n(1) by (simp add: of_char_of)
  then show ?thesis unfolding mem_find_def using n(2) by (simp only: length_mem_id mem_id_parts simp_thms if_True)
qed

lemma mem_find_append: "mem_find db i = Inr (Some ob) \<Longrightarrow> mem_find (db @ xs) i = Inr (Some ob)"
  by (auto simp: mem_find_def nth_append split: if_splits)

lemma mem_write_law:
  assumes w: "mem_write k b db = (r, db')"
  shows "db_extends mem_git db db' \<and> (\<forall>i. r = Inr i \<longrightarrow> length i = 20 \<and> mem_find db' i = Inr (Some (k, b)))"
proof -
  define n where "n = index_of (k, b) db"
  have w': "(if n \<ge> 256 then (Inl ''object database is full'', db)
         else if n < length db then (Inr (mem_id n), db) else (Inr (mem_id n), db @ [(k, b)])) = (r, db')"
    using w unfolding mem_write_def Let_def n_def .
  consider (full) "n \<ge> 256" | (old) "n < 256" "n < length db" | (new) "n < 256" "n = length db"
    using index_of_le [of "(k, b)" db] unfolding n_def by linarith
  then show ?thesis
  proof cases
    case full
    then have "\<exists>e. r = Inl e" "db' = db" using w' by (simp_all only: if_True prod.inject) blast+
    then show ?thesis by (auto simp: db_extends_def)
  next
    case old
    then have "r = Inr (mem_id n)" "db' = db" using w' by (simp_all only: not_le [symmetric] if_False if_True prod.inject) simp_all
    moreover have "mem_find db (mem_id n) = Inr (Some (k, b))"
      using mem_find_id [OF old] index_of_nth old(2) unfolding n_def by metis
    ultimately show ?thesis by (simp add: db_extends_def)
  next
    case new
    then have r: "r = Inr (mem_id n)" "db' = db @ [(k, b)]" using w' by simp_all
    have "mem_find db' (mem_id n) = Inr (Some (k, b))"
      using mem_find_id [of n db'] new r by simp
    then show ?thesis using mem_find_append unfolding r db_extends_def by (simp add: mem_git_def)
  qed
qed

lemma mode_of_mem_mode: "\<exists>md. mode_of (mem_mode v) = Some md \<and>
    \<lparr>ename = n, ekind = gix_entry_kind md, eid = mem_value_id v\<rparr> = jj_entry (n, v)"
  by (cases v) (auto simp: mode_of_def mem_mode_def mem_value_id_def)

lemma mem_iter_encode:
  "\<forall>(n, v) \<in> set vs. mem_component_ok n \<and> length (mem_value_id v) = 20 \<Longrightarrow>
   collect_entries (mem_iter (mem_encode vs)) = Inr (map jj_entry vs)"
proof (induction vs)
  case (Cons nv vs)
  obtain n v where nv: "nv = (n, v)" by (cases nv)
  obtain md where md: "mode_of (mem_mode v) = Some md"
      "\<lparr>ename = n, ekind = gix_entry_kind md, eid = mem_value_id v\<rparr> = jj_entry (n, v)"
    using mode_of_mem_mode by blast
  have ok: "mem_component_ok n" "length (mem_value_id v) = 20" using Cons.prems nv by auto
  then have len: "(of_char (char_of (length n) :: char) :: nat) = length n" by (simp add: mem_component_ok_def)
  show ?case using Cons ok len md by (simp add: nv mem_component_ok_def)
qed simp

lemma mem_iter_ids: "collect_entries (mem_iter data) = Inr es \<Longrightarrow> e \<in> set es \<Longrightarrow> length (eid e) = 20"
proof (induction data arbitrary: es rule: mem_iter.induct)
  case (3 m l bs)
  then show ?case by (auto split: option.splits if_splits sum.splits)
qed auto

lemma eid_jj_entry: "eid (jj_entry (n, v)) = mem_value_id v"
  by (cases v) (simp_all add: mem_value_id_def)

theorem mem_git_laws: "git_laws mem_git"
proof -
  have blob: "blob_write_law mem_git k (mem_write k)" for k
    using mem_write_law by (simp add: blob_write_law_def mem_git_def)
  have tree: "tree_write_law mem_git"
    unfolding tree_write_law_def
  proof (intro allI impI conjI)
    fix vs g r g' assume w: "jj_write_tree mem_git vs g = (r, g')"
    then have w': "mem_write GTree (mem_encode vs) g = (r, g')" by (simp add: mem_git_def)
    show "db_extends mem_git g g'" using mem_write_law [OF w'] by simp
    fix i assume i: "r = Inr i" and ok: "\<forall>(n, v) \<in> set vs. jj_component_ok mem_git n \<and> length (eid (jj_entry (n, v))) = 20"
    show "length i = 20" using mem_write_law [OF w'] i by simp
    have "take 19 i = mem_pad" using w' i by (auto simp: mem_write_def Let_def split: if_splits)
    moreover have "take 19 (jj_empty_tree_id mem_git) \<noteq> mem_pad" by (simp add: mem_git_def mem_pad_def numeral_eq_Suc)
    ultimately show "vs = []" if "i = jj_empty_tree_id mem_git" using that by metis
    have "collect_entries (mem_iter (mem_encode vs)) = Inr (map jj_entry vs)"
      by (rule mem_iter_encode) (use ok in \<open>auto simp: mem_git_def eid_jj_entry\<close>)
    then show "\<exists>data es. gix_find_object mem_git g' i = Inr (Some (GTree, data)) \<and>
        collect_entries (gix_tree_iter mem_git data) = Inr es \<and> mset es = mset (map jj_entry vs)"
      using mem_write_law [OF w'] i by (auto simp: mem_git_def)
  qed
  show ?thesis
    using blob tree mem_iter_ids by (auto simp: git_laws_def mem_git_def db_extends_def)
qed

section \<open>An example mount\<close>

definition ex_store :: "mem_db git_store" where
  "ex_store = \<lparr>glib = mem_git, gdb = [], views_v1 = [], operations_v1 = [], op_fault = (\<lambda>_. False)\<rparr>"

definition ex_fs :: "mem_db kiki_fs" where
  "ex_fs = kiki_fs_new ex_store ''/repo/git'' (jj_empty_tree_id mem_git) None None None 0
     (\<lambda>content. Some (\<lambda>path. path \<in> set (str_lines content))) (\<lambda>_. Inr ())"

fun run_calls :: "fs_call list \<Rightarrow> 'g kiki_fs \<Rightarrow> 'g kiki_fs" where
  "run_calls [] fs = fs"
| "run_calls (c # cs) fs = run_calls cs (snd (fs_exec c fs))"

lemma ex_laws: "git_laws (glib ex_store)"
  by (simp add: ex_store_def mem_git_laws)

lemma ex_root_len: "length (jj_empty_tree_id mem_git) = 20"
  using git_laws_empty_tree [OF mem_git_laws] .

lemma ex_fs_inv: "fs_inv True ex_fs"
  unfolding ex_fs_def by (rule fs_inv_new [OF ex_laws ex_root_len])

end
