(* ===== verification/Kiki_Props.thy ===== *)
theory Kiki_Props
  imports Git_Model
begin

text \<open>
  What the operations of a mounted workspace (\<^verbatim>\<open>src/daemon/src/vfs/kiki_fs.rs\<close>) do, stated for the states that
  satisfy the invariant: contents after a write, names after a create, a removal and a rename, the
  pinned entries, check-out and snapshot.
\<close>

section \<open>File contents\<close>

text \<open>The whole content of a file, as \<^verbatim>\<open>read\<close> obtains it.\<close>

definition whole_file :: "inode_id \<Rightarrow> ('g, bytes) fs_op" where
  "whole_file i =
     seq (get_inode i) (\<lambda>ino.
     case node ino of File oid _ \<Rightarrow> read_file oid | DirtyFile c _ \<Rightarrow> ret c | _ \<Rightarrow> throw NotAFile)"

lemma fs_read_whole: "fs_read i off cnt = seq (whole_file i) (\<lambda>c. ret (slice_read c off cnt))"
proof
  fix fs
  show "fs_read i off cnt fs = seq (whole_file i) (\<lambda>c. ret (slice_read c off cnt)) fs"
  proof (cases "inodes (fs_slab fs) i")
    case None
    then show ?thesis by (simp add: fs_read_def whole_file_def seq_assoc get_inode_seq)
  next
    case (Some k)
    then show ?thesis by (cases "node k") (simp_all add: fs_read_def whole_file_def seq_assoc get_inode_seq)
  qed
qed

lemma whole_file_dirty:
  "inodes (fs_slab fs) i = Some k \<Longrightarrow> node k = DirtyFile c x \<Longrightarrow> whole_file i fs = (Ok c, fs)"
  by (simp add: whole_file_def get_inode_seq ret_def)

lemma ensure_dirty_file_content:
  assumes "ensure_dirty_file i fs = (Ok u, fs')"
  shows "\<exists>k c x. fst (whole_file i fs) = Ok c \<and> inodes (fs_slab fs') i = Some k \<and> node k = DirtyFile c x"
proof (cases "inodes (fs_slab fs) i")
  case None
  then show ?thesis using assms by (simp add: ensure_dirty_file_def get_inode_seq)
next
  case (Some k)
  show ?thesis
  proof (cases "node k")
    case (File oid x)
    then obtain c fs1 where c: "read_file oid fs = (Ok c, fs1)"
        "seq (on_slab (replace_node i (DirtyFile c x))) (\<lambda>_. ret ()) fs1 = (Ok u, fs')"
      using assms Some by (auto simp: ensure_dirty_file_def get_inode_seq elim: seq_Ok_E)
    have "fs_slab fs1 = fs_slab fs"
      using c(1) by (auto simp: read_file_def read_through_def split: sum.splits option.splits prod.splits)
    then have "\<exists>k'. inodes (fs_slab fs') i = Some k' \<and> node k' = DirtyFile c x"
      using c(2) Some by (auto simp: seq_apply on_slab_def replace_node_def ret_def)
    then show ?thesis using c(1) Some File by (auto simp: whole_file_def get_inode_seq)
  qed (use assms Some in \<open>auto simp: ensure_dirty_file_def get_inode_seq throw_def ret_def whole_file_def\<close>)
qed

lemma dirty_for_write_content:
  assumes inv: "fs_inv rt fs" and run: "dirty_for_write i fs = (Ok u, fs')"
  shows "\<exists>k c x. fst (whole_file i fs) = Ok c \<and> inodes (fs_slab fs') i = Some k \<and> node k = DirtyFile c x"
proof -
  obtain v fs1 where e: "ensure_dirty_file i fs = (Ok v, fs1)"
      and r: "seq (get_inode i) (\<lambda>ino. ensure_dirty_tree (parent ino)) fs1 = (Ok u, fs')"
    using run unfolding dirty_for_write_def by (rule seq_Ok_E)
  obtain k c x where k: "fst (whole_file i fs) = Ok c" "inodes (fs_slab fs1) i = Some k" "node k = DirtyFile c x"
    using ensure_dirty_file_content [OF e] by blast
  have q1: "quiet_inv rt fs fs1" using hoare_Ok [OF hoare_ensure_dirty_file quiet_inv_refl [OF inv] e] by simp
  then have "quiet_inv rt fs1 fs1" by (simp add: quiet_inv_def)
  moreover have "ensure_dirty_tree (parent k) fs1 = (Ok u, fs')" using r k(2) by (simp add: get_inode_seq)
  ultimately have "quiet_inv rt fs1 fs'" using hoare_Ok [OF hoare_ensure_dirty_tree] by blast
  then have "nodes_refreshed (fs_slab fs1) (fs_slab fs')" by (simp add: quiet_inv_def quiet_def)
  then obtain nd where "inodes (fs_slab fs') i = Some (k\<lparr>node := nd\<rparr>)" "nd = node k"
    using k(2,3) unfolding nodes_refreshed_def by (metis is_dirty.simps(1))
  then show ?thesis using k by auto
qed

lemma fs_slab_reload_rules [simp]: "fs_slab (reload_rules nm c fs) = fs_slab fs"
  by (simp add: reload_rules_def)

lemma fs_write_content:
  assumes inv: "fs_inv rt fs" and run: "fs_write i off data fs = (Ok n, fs')"
  shows "\<exists>c. fst (whole_file i fs) = Ok c \<and> whole_file i fs' = (Ok (splice_at c off data), fs') \<and> n = nat (int (length data) mod 2 ^ 32)"
proof -
  have ngf: "i \<noteq> git_file fs" using run unfolding fs_write_def by (rule contrapos_pn) (simp add: reads_seq throw_def)
  obtain u fs1 where d: "dirty_for_write i fs = (Ok u, fs1)"
      and r: "seq (get_inode i) (\<lambda>ino. case node ino of
       DirtyFile content executable \<Rightarrow>
         if int (off + length data) > isize_max then panic
         else let new = splice_at content off data
              in seq (on_slab (replace_node i (DirtyFile new executable))) (\<lambda>_.
                 seq (if iname ino = GITIGNORE_FILE \<or> iname ino = KIKI_REDIRECTIONS_FILE
                      then modifies (reload_rules (iname ino) new) else ret ()) (\<lambda>_.
                 ret (nat (int (length data) mod 2 ^ 32))))
     | _ \<Rightarrow> throw NotAFile) fs1 = (Ok n, fs')"
    using run [unfolded fs_write_def reads_seq, unfolded if_not_P [OF ngf]] by (rule seq_Ok_E)
  obtain k c x where k: "fst (whole_file i fs) = Ok c" "inodes (fs_slab fs1) i = Some k" "node k = DirtyFile c x"
    using dirty_for_write_content [OF inv d] by blast
  define fs2 where "fs2 = fs1\<lparr>fs_slab := (fs_slab fs1)\<lparr>inodes := (inodes (fs_slab fs1))(i \<mapsto> k\<lparr>node := DirtyFile (splice_at c off data) x\<rparr>)\<rparr>\<rparr>"
  have ok: "\<not> int (off + length data) > isize_max"
    using r [unfolded get_inode_seq(1) [OF k(2)]] k(3) by (simp add: panic_def split: if_splits)
  have "fs_slab fs' = fs_slab fs2 \<and> n = nat (int (length data) mod 2 ^ 32)"
    using r [unfolded get_inode_seq(1) [OF k(2)]] k(2,3) ok
    by (simp add: Let_def on_slab_def replace_node_def seq_apply modifies_def ret_def fs2_def split: if_splits) auto
  then have "inodes (fs_slab fs') i = Some (k\<lparr>node := DirtyFile (splice_at c off data) x\<rparr>)" "n = nat (int (length data) mod 2 ^ 32)"
    by (simp_all add: fs2_def)
  then show ?thesis using k(1) whole_file_dirty by fastforce
qed

subsection \<open>The bytes of a spliced buffer\<close>

lemma length_splice_at: "length (splice_at c off d) = max (length c) (off + length d)"
  by (simp add: splice_at_def vec_resize_def Let_def max_def)

lemma nth_splice_at:
  assumes "j < length (splice_at c off d)"
  shows "splice_at c off d ! j =
     (if off \<le> j \<and> j < off + length d then d ! (j - off) else if j < length c then c ! j else CHR 0x00)"
proof -
  define buf where "buf = (if length c < off + length d then vec_resize (off + length d) c else c)"
  have len: "length buf = max (length c) (off + length d)" by (simp add: buf_def vec_resize_def)
  have buf: "j < length buf \<Longrightarrow> buf ! j = (if j < length c then c ! j else CHR 0x00)" for j
    by (cases "length c < off + length d") (simp_all add: buf_def vec_resize_def nth_append)
  have "splice_at c off d = take off buf @ d @ drop (off + length d) buf"
    by (simp add: splice_at_def buf_def Let_def)
  moreover have "j < length buf" using assms len by (simp add: length_splice_at)
  moreover have "\<not> j < off \<Longrightarrow> j - off < length d \<longleftrightarrow> j < off + length d" by linarith
  ultimately show ?thesis using len buf [of j]
    by (cases "j < off"; cases "j < off + length d") (simp_all add: nth_append)
qed

lemma slice_of_splice:
  assumes "d \<noteq> []"
  shows "slice_read (splice_at c off d) off (length d) = (d, length c \<le> off + length d)"
proof -
  have "take (length d) (drop off (splice_at c off d)) = d"
    by (simp add: splice_at_def vec_resize_def Let_def)
  moreover have "off < length (splice_at c off d)" using assms by (simp add: length_splice_at less_max_iff_disj)
  ultimately show ?thesis by (simp add: slice_read_def Let_def length_splice_at drop_take max_def)
qed

section \<open>Sequences of calls\<close>

lemma run_calls_reach:
  "\<forall>c \<in> set cs. call_typed c \<Longrightarrow> fs_reach False fs0 fs \<Longrightarrow> fs_reach False fs0 (run_calls cs fs)"
proof (induction cs arbitrary: fs)
  case (Cons c cs)
  have "fs_reach False fs0 (snd (fs_exec c fs))"
    using Cons.prems by (intro reach_step [OF Cons.prems(2), of c "fst (fs_exec c fs)"]) auto
  then show ?case using Cons by simp
qed simp

lemmas ex_reach = run_calls_reach [OF _ reach_init, of _ ex_fs]

lemma fs_reach_new:
  assumes "git_laws (glib st)" and "length root = 20"
    and "fs_reach rt (kiki_fs_new st rp root rm sc wt mt chain mk) fs"
  shows "evo_inv rt (kiki_fs_new st rp root rm sc wt mt chain mk) fs"
proof -
  have "fs_inv rt (kiki_fs_new st rp root rm sc wt mt chain mk)"
    using fs_inv_new [OF assms(1,2)] by (cases rt) (auto simp: fs_inv_def slab_ok_def)
  then show ?thesis using fs_reach_inv [OF assms(3)] by blast
qed

text \<open>
  C1: Whatever calls a mount has served, in whatever order and with whatever results, its state satisfies
  the invariant: inode ids lie below the counter, every listed child is an inode that records that parent
  and name, content ids have 20 bytes, \<^verbatim>\<open>.git\<close> and \<^verbatim>\<open>.jj\<close> are pinned below the root. No inode is ever
  dropped or its id handed out again, no stored object is lost, and the \<^verbatim>\<open>.git\<close> file keeps its inode and
  its content.
\<close>

theorem mount_invariant:
  assumes "git_laws (glib st)" and "length root = 20"
    and "fs_reach False (kiki_fs_new st rp root rm sc wt mt chain mk) fs"
  shows "fs_inv False fs \<and> fs_evolves (kiki_fs_new st rp root rm sc wt mt chain mk) fs"
  using fs_reach_new [OF assms] by (simp add: evo_inv_def)

definition ex_calls :: "fs_call list" where
  "ex_calls = [Mkdir 1 ''d'', CreateFile 3 ''f'' False, Write 4 0 ''hi'', Snapshot, Rename 3 ''f'' 1 ''g'', Remove 1 ''d'']"

theorem mount_invariant_witness:
  "fs_inv False (run_calls ex_calls ex_fs) \<and> fs_evolves ex_fs (run_calls ex_calls ex_fs)"
proof -
  have "fs_reach False ex_fs (run_calls ex_calls ex_fs)" by (rule ex_reach) (simp add: ex_calls_def)
  then show ?thesis unfolding ex_fs_def by (rule mount_invariant [OF ex_laws ex_root_len])
qed

text \<open>
  C3: Every call on a mount returns a value or an error. It neither panics nor loops, as long as no rename
  moved a directory below itself and no file is asked to grow beyond what a \<^verbatim>\<open>Vec\<close> can hold.
\<close>

theorem calls_return:
  assumes "git_laws (glib st)" and "length root = 20"
    and "fs_reach True (kiki_fs_new st rp root rm sc wt mt chain mk) fs" and "call_sized c"
  shows "(\<exists>r. fst (fs_exec c fs) = Ok r) \<or> (\<exists>e. fst (fs_exec c fs) = Err e)"
proof -
  have "fs_inv True fs" using fs_reach_new [OF assms(1-3)] by (simp add: evo_inv_def)
  then have "fst (fs_exec c fs) \<noteq> Panic \<and> fst (fs_exec c fs) \<noteq> Diverge"
    using fs_exec_returns_evo [OF assms(4), of fs] by (simp add: returns_def)
  then show ?thesis by (cases "fst (fs_exec c fs)") auto
qed

theorem calls_return_witness:
  "(\<exists>r. fst (fs_exec Snapshot ex_fs) = Ok r) \<or> (\<exists>e. fst (fs_exec Snapshot ex_fs) = Err e)"
  unfolding ex_fs_def by (rule calls_return [OF ex_laws ex_root_len reach_init]) simp

section \<open>Snapshot\<close>

lemma list_all2_right_unique:
  assumes "list_all2 (\<lambda>e t. fst t = fst e \<and> (\<forall>t'. P (snd e) t' \<longrightarrow> snd t = t')) xs ts"
    and "list_all2 (\<lambda>e t. fst t = fst e \<and> P (snd e) (snd t)) xs ts'"
  shows "ts = ts'"
  using assms
proof (induction xs ts arbitrary: ts' rule: list_all2_induct)
  case (Cons x xs y ys)
  then obtain z zs where "ts' = z # zs" "fst z = fst x" "P (snd x) (snd z)"
      "list_all2 (\<lambda>e t. fst t = fst e \<and> P (snd e) (snd t)) xs zs"
    by (auto simp: list_all2_Cons1)
  moreover from this Cons have "ys = zs" by blast
  ultimately show ?case using Cons.hyps(1) by (simp add: prod_eq_iff)
qed simp

lemma overlay_unique: "overlay sl i t \<Longrightarrow> overlay sl i t' \<Longrightarrow> t = t'"
proof (induction arbitrary: t' rule: overlay.induct)
  case (ov_dirty_tree i k cs ts)
  from ov_dirty_tree.prems obtain ts' where t': "t' = ODir ts'"
      "list_all2 (\<lambda>e t. fst t = fst e \<and> overlay sl (snd e) (snd t)) (filter (included sl i) cs) ts'"
    by (cases rule: overlay.cases) (use ov_dirty_tree.hyps in auto)
  have "list_all2 (\<lambda>e t. fst t = fst e \<and> (\<forall>t'. overlay sl (snd e) t' \<longrightarrow> snd t = t')) (filter (included sl i) cs) ts"
    using ov_dirty_tree.IH by (rule list_all2_mono) blast
  from list_all2_right_unique [OF this t'(2)] show ?case using t'(1) by simp
qed (auto elim: overlay.cases)

text \<open>
  C2: A snapshot that succeeds returns the id of a stored tree that is exactly the user's view: every
  modified file, symlink and directory below the root with its bytes, executable bit and name, every
  unmodified entry by its id, without \<^verbatim>\<open>.jj\<close>, \<^verbatim>\<open>.git\<close> and ignored entries.
\<close>

theorem snapshot_stores_view:
  assumes "fs_inv rt fs" and "fs_snapshot fs = (Ok oid, fs')"
  shows "\<exists>!t. overlay (fs_slab fs) ROOT_INODE t \<and> persists (store fs') oid t"
  using fs_snapshot_post [OF assms] overlay_unique by blast

definition ex_dirty :: "mem_db kiki_fs" where
  "ex_dirty = run_calls [Mkdir 1 ''d'', CreateFile 3 ''f'' False, Write 4 0 ''hi''] ex_fs"

lemma ex_dirty_inv: "fs_inv False ex_dirty"
proof -
  have "fs_reach False ex_fs ex_dirty" unfolding ex_dirty_def by (rule ex_reach) simp
  from fs_reach_inv [OF this] show ?thesis using ex_fs_inv by (auto simp: evo_inv_def fs_inv_def slab_ok_def)
qed

theorem snapshot_stores_view_witness:
  "\<exists>!t. overlay (fs_slab ex_dirty) ROOT_INODE t \<and> persists (store (snd (fs_snapshot ex_dirty))) (mem_id 2) t"
proof -
  have "fst (fs_snapshot ex_dirty) = Ok (mem_id 2)" by code_simp
  then have "fs_snapshot ex_dirty = (Ok (mem_id 2), snd (fs_snapshot ex_dirty))" by (metis prod.collapse)
  from snapshot_stores_view [OF ex_dirty_inv this] show ?thesis .
qed

lemma whole_file_local_iff:
  "whole_file i fs = (Ok c, fs) \<longleftrightarrow> (\<exists>k. inodes (fs_slab fs) i = Some k \<and>
     ((\<exists>oid x. node k = File oid x \<and> read_file oid fs = (Ok c, fs)) \<or> (\<exists>x. node k = DirtyFile c x)))"
proof (cases "inodes (fs_slab fs) i")
  case (Some k)
  then show ?thesis by (cases "node k") (auto simp: whole_file_def get_inode_seq ret_def throw_def)
qed (simp add: whole_file_def get_inode_seq)

lemma read_file_local: "git_read_file (store fs) oid = Inr (Some c) \<Longrightarrow> read_file oid fs = (Ok c, fs)"
  by (simp add: read_file_def read_through_def)

text \<open>A file whose content is at hand: modified in memory, or an object of the local store.\<close>

definition local_file :: "inode_id \<Rightarrow> bytes \<Rightarrow> 'g kiki_fs \<Rightarrow> bool" where
  "local_file i c fs \<longleftrightarrow> (\<exists>k. inodes (fs_slab fs) i = Some k \<and>
     ((\<exists>oid x. node k = File oid x \<and> git_read_file (store fs) oid = Inr (Some c)) \<or> (\<exists>x. node k = DirtyFile c x)))"

lemma local_file_whole: "local_file i c fs \<Longrightarrow> whole_file i fs = (Ok c, fs)"
  unfolding local_file_def whole_file_local_iff using read_file_local by blast

lemma local_file_read: "local_file i c fs \<Longrightarrow> fs_read i off cnt fs = (Ok (slice_read c off cnt), fs)"
  by (simp add: fs_read_whole seq_apply local_file_whole ret_def)

lemma snapped_local_file:
  assumes sn: "snapped (fs_slab fs) fs' i" and ext: "store_extends (store fs) (store fs')" and loc: "local_file i c fs"
  shows "local_file i c fs'"
proof -
  obtain k where k: "inodes (fs_slab fs) i = Some k"
      "(\<exists>oid x. node k = File oid x \<and> git_read_file (store fs) oid = Inr (Some c)) \<or> (\<exists>x. node k = DirtyFile c x)"
    using loc unfolding local_file_def by blast
  obtain nd where nd: "inodes (fs_slab fs') i = Some (k\<lparr>node := nd\<rparr>)"
      "nd = node k \<or> (\<exists>t oid. is_dirty (node k) \<and> overlay (fs_slab fs) i t \<and> persists (store fs') oid t \<and>
         length oid = 20 \<and> nd = clean_node (otree_kind t) oid)"
    using sn k(1) unfolding snapped_def by auto
  from k(2) show ?thesis
  proof (elim disjE exE conjE)
    fix oid x assume f: "node k = File oid x" "git_read_file (store fs) oid = Inr (Some c)"
    then have "nd = File oid x" using nd(2) by auto
    moreover have "git_read_file (store fs') oid = Inr (Some c)" using git_read_file_extends [OF ext f(2)] .
    ultimately show ?thesis using nd(1) by (auto simp: local_file_def)
  next
    fix x assume d: "node k = DirtyFile c x"
    then have ov: "overlay (fs_slab fs) i t \<Longrightarrow> t = OFile c x" for t
      using overlay_unique overlay.ov_dirty_file [OF k(1)] by blast
    have "nd = DirtyFile c x \<or> (\<exists>oid. nd = File oid x \<and> git_read_file (store fs') oid = Inr (Some c))"
      using nd(2) d ov by (fastforce simp: persists_OFile)
    then show ?thesis using nd(1) by (auto simp: local_file_def)
  qed
qed

text \<open>
  C9: A snapshot, whether it succeeds or fails half way, does not change what a file reads: every file whose
  content is in memory or in the local store returns the same bytes at every offset afterwards.
\<close>

theorem snapshot_keeps_reads:
  assumes "fs_inv rt fs" and "fs_snapshot fs = (r, fs')" and "local_file i c fs"
  shows "fs_read i off cnt fs' = (Ok (slice_read c off cnt), fs') \<and> fs_read i off cnt fs = (Ok (slice_read c off cnt), fs)"
proof -
  have "snapped (fs_slab fs) fs' i" "store_extends (store fs) (store fs')"
    using fs_snapshot_post [OF assms(1,2)] by (auto simp: snap_inv_def)
  from snapped_local_file [OF this assms(3)] show ?thesis using assms(3) local_file_read by blast
qed

theorem snapshot_keeps_reads_witness:
  "fs_read 4 0 9 (snd (fs_snapshot ex_dirty)) = (Ok (slice_read ''hi'' 0 9), snd (fs_snapshot ex_dirty)) \<and>
   fs_read 4 0 9 ex_dirty = (Ok (slice_read ''hi'' 0 9), ex_dirty)"
proof -
  have "fst (fs_read 4 0 9 ex_dirty) = Ok (''hi'', True)" by code_simp
  have "map_option node (inodes (fs_slab ex_dirty) 4) = Some (DirtyFile ''hi'' False)" by code_simp
  then have "local_file 4 ''hi'' ex_dirty" by (auto simp: local_file_def)
  from snapshot_keeps_reads [OF ex_dirty_inv _ this, of "fst (fs_snapshot ex_dirty)" "snd (fs_snapshot ex_dirty)"]
  show ?thesis by simp
qed

section \<open>Reads after writes\<close>

text \<open>
  C4: After a write, a read of any range returns the content the file had before with the written bytes
  spliced in at the offset (a gap before the offset is filled with zero bytes); the call reports the
  number of bytes written modulo 2^32.
\<close>

theorem write_then_read:
  assumes "fs_inv rt fs" and "fs_write i off d fs = (Ok n, fs')"
  shows "\<exists>c. fst (whole_file i fs) = Ok c \<and> fs_read i o' cnt fs' = (Ok (slice_read (splice_at c off d) o' cnt), fs') \<and>
           int n = int (length d) mod 2 ^ 32 \<and>
           length (splice_at c off d) = max (length c) (off + length d) \<and>
           (\<forall>j < max (length c) (off + length d). splice_at c off d ! j =
              (if off \<le> j \<and> j < off + length d then d ! (j - off) else if j < length c then c ! j else CHR 0x00))"
proof -
  obtain c where c: "fst (whole_file i fs) = Ok c" "whole_file i fs' = (Ok (splice_at c off d), fs')"
      "n = nat (int (length d) mod 2 ^ 32)"
    using fs_write_content [OF assms] by blast
  have "fs_read i o' cnt fs' = (Ok (slice_read (splice_at c off d) o' cnt), fs')"
    by (simp add: fs_read_whole seq_apply c(2) ret_def)
  then show ?thesis using c(1,3) length_splice_at [of c off d] nth_splice_at [of _ c off d] by auto
qed

theorem write_then_read_witness:
  "\<exists>c. fst (whole_file 4 ex_dirty) = Ok c \<and>
       fs_read 4 1 9 (snd (fs_write 4 3 ''xy'' ex_dirty)) = (Ok (slice_read (splice_at c 3 ''xy'') 1 9), snd (fs_write 4 3 ''xy'' ex_dirty)) \<and>
       splice_at c 3 ''xy'' = ''hi'' @ [CHR 0x00] @ ''xy''"
proof -
  have "fst (fs_write 4 3 ''xy'' ex_dirty) = Ok 2" by code_simp
  then have "fs_write 4 3 ''xy'' ex_dirty = (Ok 2, snd (fs_write 4 3 ''xy'' ex_dirty))" by (metis prod.collapse)
  from write_then_read [OF ex_dirty_inv this] obtain c where c: "fst (whole_file 4 ex_dirty) = Ok c"
      "fs_read 4 1 9 (snd (fs_write 4 3 ''xy'' ex_dirty)) = (Ok (slice_read (splice_at c 3 ''xy'') 1 9), snd (fs_write 4 3 ''xy'' ex_dirty))"
    by blast
  moreover have "fst (whole_file 4 ex_dirty) = Ok ''hi''" by code_simp
  moreover have "splice_at ''hi'' 3 ''xy'' = ''hi'' @ [CHR 0x00] @ ''xy''" by code_simp
  ultimately show ?thesis by auto
qed

end
