(* ===== verification/Kiki_Names.thy ===== *)
theory Kiki_Names
  imports Kiki_Props
begin

text \<open>
  Names in a mounted workspace: what \<^verbatim>\<open>lookup\<close> and \<^verbatim>\<open>readdir\<close> of \<^verbatim>\<open>src/daemon/src/vfs/kiki_fs.rs\<close> answer
  after an entry was created, removed or renamed, for the pinned entries, and after a check-out.
\<close>

section \<open>Listed and unlisted names\<close>

definition unlisted :: "inode_id \<Rightarrow> string \<Rightarrow> slab \<Rightarrow> bool" where
  "unlisted p n sl \<longleftrightarrow> (\<exists>ino cs. inodes sl p = Some ino \<and> node ino = DirtyTree cs \<and> map_of cs n = None)"

text \<open>Names that the root answers without looking at its tree.\<close>

definition pinned_name :: "'g kiki_fs \<Rightarrow> inode_id \<Rightarrow> string \<Rightarrow> bool" where
  "pinned_name fs p n \<longleftrightarrow> is_git_file p n \<or> is_jj_root p n \<and> jj_subtree fs \<noteq> None"

lemma lookup_lists:
  "lists p n c (fs_slab fs) \<Longrightarrow> \<not> pinned_name fs p n \<Longrightarrow> fs_lookup p n fs = (Ok c, fs)"
  by (auto simp: lists_def pinned_name_def fs_lookup_def reads_seq get_inode_seq ret_def)

lemma lookup_unlisted:
  "unlisted p n (fs_slab fs) \<Longrightarrow> \<not> pinned_name fs p n \<Longrightarrow> fs_lookup p n fs = (Err NotFound, fs)"
  by (auto simp: unlisted_def pinned_name_def fs_lookup_def reads_seq get_inode_seq throw_def)

lemma lists_fun: "lists p n c sl \<Longrightarrow> lists p n c' sl \<Longrightarrow> c = c'"
  by (auto simp: lists_def)

lemma lists_not_unlisted: "lists p n c sl \<Longrightarrow> \<not> unlisted p n sl"
  by (auto simp: lists_def unlisted_def)

lemma dirty_dir_lists: "dirty_dir p sl \<Longrightarrow> unlisted p n sl \<or> (\<exists>c. lists p n c sl)"
  by (auto simp: dirty_dir_def unlisted_def lists_def)

lemma lists_by_parent: "slab_inv sl \<Longrightarrow> lists p n c sl \<Longrightarrow> by_parent sl (p, n) = Some c"
  unfolding lists_def using slab_inv_kids by blast

lemma lists_inj: "slab_inv sl \<Longrightarrow> lists p n c sl \<Longrightarrow> lists p' n' c sl \<Longrightarrow> p = p' \<and> n = n'"
  using lists_by_parent slab_inv_byp by (metis option.inject)

section \<open>The slab operations on names\<close>

lemma attach_names:
  assumes "slab_inv sl" and "attach_child p n c sl = (True, sl')"
  shows "unlisted p n sl \<and> lists p n c sl' \<and> by_parent sl' = (by_parent sl)((p, n) \<mapsto> c) \<and>
    (\<forall>q m d. (q, m) \<noteq> (p, n) \<longrightarrow> lists q m d sl' = lists q m d sl) \<and>
    (\<forall>i. i \<noteq> p \<longrightarrow> inodes sl' i = inodes sl i) \<and> next_id sl' = next_id sl \<and>
    (\<exists>ino cs. inodes sl p = Some ino \<and> node ino = DirtyTree cs \<and> inodes sl' p = Some (ino\<lparr>node := DirtyTree (bt_insert n c cs)\<rparr>))"
proof (cases rule: attach_child_cases [of p n c sl])
  case 1
  then show ?thesis using assms by simp
next
  case (2 ino cs)
  then have "bt_wf cs" using slab_inv_kids [OF assms(1)] by blast
  then show ?thesis using 2 assms(2) by (auto simp: unlisted_def lists_def)
qed

lemma detach_names:
  assumes "slab_inv sl" and "detach_child p n sl = (Some c, sl')"
  shows "lists p n c sl \<and> unlisted p n sl' \<and> by_parent sl' = (by_parent sl)((p, n) := None) \<and>
    (\<forall>q m d. (q, m) \<noteq> (p, n) \<longrightarrow> lists q m d sl' = lists q m d sl) \<and>
    (\<forall>q m. unlisted q m sl \<longrightarrow> unlisted q m sl') \<and>
    (\<forall>i k. inodes sl i = Some k \<longrightarrow> (\<exists>nd. inodes sl' i = Some (k\<lparr>node := nd\<rparr>) \<and> (nd = node k \<or> i = p))) \<and>
    next_id sl' = next_id sl"
proof (cases rule: detach_child_cases [of p n sl])
  case 1
  then show ?thesis using assms by simp
next
  case (2 ino cs d)
  have "\<exists>nd. k = k\<lparr>node := nd\<rparr> \<and> (nd = node k \<or> i = p)" for k :: inode and i by (rule exI [of _ "node k"]) simp
  then show ?thesis using 2 assms(2) by (auto simp: unlisted_def lists_def)
qed

lemma lists_cong:
  assumes "\<And>i. map_option node (inodes sl' i) = map_option node (inodes sl i)"
  shows "lists p n c sl' = lists p n c sl" and "unlisted p n sl' = unlisted p n sl"
  using assms [of p] by (cases "inodes sl p"; cases "inodes sl' p"; simp add: lists_def unlisted_def)+

lemma reparent_names:
  assumes "reparent c np nn sl = (b, sl')"
  shows "lists p n d sl' = lists p n d sl" and "unlisted p n sl' = unlisted p n sl" and "next_id sl' = next_id sl"
    and "inodes sl c = Some k \<Longrightarrow> inodes sl' c = Some (k\<lparr>parent := np, iname := nn\<rparr>)"
    and "i \<noteq> c \<Longrightarrow> inodes sl' i = inodes sl i"
proof -
  have "map_option node (inodes sl' i) = map_option node (inodes sl i)" for i
    using assms by (auto simp: reparent_def split: option.splits)
  from lists_cong [OF this] show "lists p n d sl' = lists p n d sl" "unlisted p n sl' = unlisted p n sl" by blast+
qed (use assms in \<open>auto simp: reparent_def split: option.splits\<close>)

section \<open>Creation\<close>

lemma attr_for_dirty:
  assumes "inodes (fs_slab fs) i = Some k" and "is_dirty (node k)"
  shows "attr_for i fs = (Ok \<lparr>attr_inode = i, attr_kind = node_kind (node k),
     attr_size = (case node k of DirtyFile b _ \<Rightarrow> length b | DirtySymlink t \<Rightarrow> length t | _ \<Rightarrow> 0),
     attr_executable = (case node k of DirtyFile _ x \<Rightarrow> x | _ \<Rightarrow> False), attr_mtime_secs = commit_mtime fs\<rparr>, fs)"
  using assms by (cases "node k") (auto simp: attr_for_def get_inode_seq reads_seq ret_def Let_def)

lemma add_entry_names:
  assumes inv: "fs_inv rt fs" and dir: "dirty_dir p (fs_slab fs)" and nd: "is_dirty nd" "\<And>cs. nd = DirtyTree cs \<Longrightarrow> cs = []"
    and run: "add_entry p n nd ign fs = (Ok (c, a), fs')"
  shows "c = next_id (fs_slab fs) \<and> unlisted p n (fs_slab fs) \<and> lists p n c (fs_slab fs') \<and>
     inodes (fs_slab fs') c = Some \<lparr>parent = p, iname = n, node = nd, ignored = ign\<rparr> \<and>
     attr_for c fs' = (Ok a, fs') \<and> jj_subtree fs' = jj_subtree fs"
proof -
  define sl1 where "sl1 = snd (alloc_with_ignored p n nd ign (fs_slab fs))"
  have sinv: "slab_inv (fs_slab fs)" using inv by (simp add: fs_inv_def slab_ok_def)
  have al: "alloc_with_ignored p n nd ign (fs_slab fs) = (next_id (fs_slab fs), sl1)"
    by (simp add: sl1_def alloc_with_ignored_def Let_def)
  have inv1: "slab_inv sl1" unfolding sl1_def by (rule alloc_with_ignored_inv [OF sinv nd(2)])
  have new: "inodes sl1 = (inodes (fs_slab fs))(next_id (fs_slab fs) \<mapsto> \<lparr>parent = p, iname = n, node = nd, ignored = ign\<rparr>)"
    by (simp add: sl1_def alloc_with_ignored_def Let_def)
  obtain b sl2 where at: "attach_child p n (next_id (fs_slab fs)) sl1 = (b, sl2)" by fastforce
  define fs2 where "fs2 = fs\<lparr>fs_slab := sl2\<rparr>"
  have r: "(if \<not> b then throw AlreadyExists
       else seq (attr_for (next_id (fs_slab fs))) (\<lambda>attr. ret (next_id (fs_slab fs), attr))) fs2 = (Ok (c, a), fs')"
    using run unfolding add_entry_def by (simp add: on_slab_seq al at fs2_def)
  then have b: "b" by (cases b) (auto simp: throw_def)
  then have "attach_child p n (next_id (fs_slab fs)) sl1 = (True, sl2)" using at by simp
  note an = attach_names [OF inv1 this]
  have pn: "p \<noteq> next_id (fs_slab fs)" using dir slab_inv_next_fresh [OF sinv] by (auto simp: dirty_dir_def)
  then have k: "inodes sl2 (next_id (fs_slab fs)) = Some \<lparr>parent = p, iname = n, node = nd, ignored = ign\<rparr>"
    using an new by simp
  have at2: "attr_for (next_id (fs_slab fs)) fs2 = (fst (attr_for (next_id (fs_slab fs)) fs2), fs2)"
    using attr_for_dirty [of fs2 _ "\<lparr>parent = p, iname = n, node = nd, ignored = ign\<rparr>"] k nd(1) by (simp add: fs2_def)
  have res: "c = next_id (fs_slab fs)" "fs' = fs2" "attr_for c fs2 = (Ok a, fs2)"
    using r b at2 by (cases "fst (attr_for (next_id (fs_slab fs)) fs2)"; simp add: seq_apply ret_def; metis prod.collapse)+
  have "unlisted p n (fs_slab fs)" using an new pn by (simp add: unlisted_def)
  then show ?thesis using res an k by (simp add: fs2_def)
qed

text \<open>The common part of \<^verbatim>\<open>create_file\<close>, \<^verbatim>\<open>mkdir\<close> and \<^verbatim>\<open>symlink\<close>, up to the new entry.\<close>

lemma create_prefix:
  assumes inv: "fs_inv rt fs"
    and run: "seq (child_exists p n) (\<lambda>ex. if ex then throw AlreadyExists else seq (ensure_dirty_tree p) (\<lambda>_. m)) fs = (Ok r, fs')"
  shows "\<not> pinned_name fs p n \<and> (\<exists>fs2. quiet_inv rt fs fs2 \<and> dirty_dir p (fs_slab fs2) \<and> m fs2 = (Ok r, fs'))"
proof -
  obtain ex fs1 where ex: "child_exists p n fs = (Ok ex, fs1)"
      and r1: "(if ex then throw AlreadyExists else seq (ensure_dirty_tree p) (\<lambda>_. m)) fs1 = (Ok r, fs')"
    using run by (rule seq_Ok_E)
  have nex: "\<not> ex" using r1 by (auto simp: throw_def)
  then have "\<not> pinned_name fs p n"
    using ex by (auto simp: child_exists_def reads_seq pinned_name_def ret_def split: if_splits)
  moreover have q1: "quiet_inv rt fs fs1" using hoare_Ok [OF keeps_child_exists quiet_inv_refl [OF inv] ex] .
  moreover obtain u fs2 where e: "ensure_dirty_tree p fs1 = (Ok u, fs2)" and m: "m fs2 = (Ok r, fs')"
    using r1 nex by (auto elim: seq_Ok_E)
  moreover have "quiet_inv rt fs fs2 \<and> dirty_dir p (fs_slab fs2)" using hoare_Ok [OF hoare_ensure_dirty_tree q1 e] .
  ultimately show ?thesis by blast
qed

lemma quiet_fresh: "fs_inv rt fs \<Longrightarrow> quiet fs fs2 \<Longrightarrow> next_id (fs_slab fs2) \<le> i \<Longrightarrow> inodes (fs_slab fs) i = None"
  using slab_inv_lt [of "fs_slab fs" i]
  by (cases "inodes (fs_slab fs) i") (auto simp: fs_inv_def slab_ok_def quiet_def fs_evolves_def slab_grows_def)

definition entry_made :: "'g kiki_fs \<Rightarrow> inode_id \<Rightarrow> string \<Rightarrow> inode_id \<Rightarrow> Attr \<Rightarrow> 'g kiki_fs \<Rightarrow> bool" where
  "entry_made fs p n c a fs' \<longleftrightarrow> fs_lookup p n fs' = (Ok c, fs') \<and> fs_getattr c fs' = (Ok a, fs') \<and>
     attr_inode a = c \<and> inodes (fs_slab fs) c = None"

lemma entry_made_add:
  assumes inv: "fs_inv rt fs" and q: "quiet_inv rt fs fs2" and np: "\<not> pinned_name fs p n" and dir: "dirty_dir p (fs_slab fs2)"
    and nd: "is_dirty nd" "\<And>cs. nd = DirtyTree cs \<Longrightarrow> cs = []" and run: "add_entry p n nd ign fs2 = (Ok (c, a), fs')"
  shows "entry_made fs p n c a fs' \<and> inodes (fs_slab fs') c = Some \<lparr>parent = p, iname = n, node = nd, ignored = ign\<rparr>"
proof -
  have inv2: "fs_inv rt fs2" and qq: "quiet fs fs2" using q by (auto simp: quiet_inv_def)
  note a = add_entry_names [OF inv2 dir nd run]
  have "\<not> pinned_name fs' p n" using np a qq by (simp add: pinned_name_def quiet_def)
  then have l: "fs_lookup p n fs' = (Ok c, fs')" using a lookup_lists by blast
  have "attr_inode a = c" using attr_for_dirty [of fs' c] a nd(1) by fastforce
  moreover have "inodes (fs_slab fs) c = None" using quiet_fresh [OF inv qq] a by simp
  ultimately show ?thesis using l a unfolding entry_made_def fs_getattr_def by blast
qed

lemma entry_made_ignored:
  assumes inv: "fs_inv rt fs" and q: "quiet_inv rt fs fs2" and np: "\<not> pinned_name fs p n" and dir: "dirty_dir p (fs_slab fs2)"
    and nd: "is_dirty nd" "\<And>cs. nd = DirtyTree cs \<Longrightarrow> cs = []"
    and run: "seq (is_ignored p n d) (add_entry p n nd) fs2 = (Ok (c, a), fs')"
  shows "entry_made fs p n c a fs' \<and> (\<exists>k. inodes (fs_slab fs') c = Some k \<and> node k = nd)"
proof -
  obtain ign fs3 where i: "is_ignored p n d fs2 = (Ok ign, fs3)" "add_entry p n nd ign fs3 = (Ok (c, a), fs')"
    using run by (rule seq_Ok_E)
  have "quiet_inv rt fs2 fs3" using hoare_Ok [OF keeps_is_ignored _ i(1)] q quiet_inv_refl by (metis quiet_inv_def)
  then have "dirty_dir p (fs_slab fs3)" "quiet_inv rt fs fs3"
    using q dir dirty_dir_quiet quiet_trans by (auto simp: quiet_inv_def)
  from entry_made_add [OF inv this(2) np this(1) nd i(2)] show ?thesis by simp
qed

lemma create_file_made:
  assumes inv: "fs_inv rt fs" and run: "fs_create_file p n x fs = (Ok (c, a), fs')"
  shows "entry_made fs p n c a fs' \<and> (\<exists>k. inodes (fs_slab fs') c = Some k \<and> node k = DirtyFile [] x)"
proof -
  obtain fs2 where f: "\<not> pinned_name fs p n" "quiet_inv rt fs fs2" "dirty_dir p (fs_slab fs2)"
      "seq (is_ignored p n False) (add_entry p n (DirtyFile [] x)) fs2 = (Ok (c, a), fs')"
    using create_prefix [OF inv run [unfolded fs_create_file_def]] by blast
  from entry_made_ignored [OF inv f(2,1,3) _ _ f(4)] show ?thesis by simp
qed

lemma symlink_made:
  assumes inv: "fs_inv rt fs" and run: "fs_symlink p n t fs = (Ok (c, a), fs')"
  shows "entry_made fs p n c a fs' \<and> (\<exists>k. inodes (fs_slab fs') c = Some k \<and> node k = DirtySymlink t)"
proof -
  obtain fs2 where f: "\<not> pinned_name fs p n" "quiet_inv rt fs fs2" "dirty_dir p (fs_slab fs2)"
      "seq (is_ignored p n False) (add_entry p n (DirtySymlink t)) fs2 = (Ok (c, a), fs')"
    using create_prefix [OF inv run [unfolded fs_symlink_def]] by blast
  from entry_made_ignored [OF inv f(2,1,3) _ _ f(4)] show ?thesis by simp
qed

lemma mkdir_jj_made:
  assumes inv: "fs_inv rt fs" and jj: "is_jj_root p n" and run: "mkdir_jj p n fs = (Ok (c, a), fs')"
  shows "entry_made fs p n c a fs' \<and> (\<exists>k. inodes (fs_slab fs') c = Some k \<and> node k = DirtyTree [])"
proof -
  have none: "jj_subtree fs = None" using run by (cases "jj_subtree fs") (auto simp: mkdir_jj_def reads_seq throw_def)
  define sl where "sl = snd (alloc_with_ignored p n (DirtyTree []) False (fs_slab fs))"
  define fs2 where "fs2 = fs\<lparr>fs_slab := sl, jj_subtree := Some (next_id (fs_slab fs))\<rparr>"
  define k where "k = \<lparr>parent = p, iname = n, node = DirtyTree [], ignored = False\<rparr>"
  have al: "alloc p n (DirtyTree []) (fs_slab fs) = (next_id (fs_slab fs), sl)"
    by (simp add: sl_def alloc_def alloc_with_ignored_def Let_def)
  obtain pino where p: "inodes (fs_slab fs) p = Some pino" "is_dir (node pino)"
    using run none by (cases "inodes (fs_slab fs) p") (auto simp: mkdir_jj_def reads_seq get_inode_seq throw_def split: if_splits)
  have "seq (attr_for (next_id (fs_slab fs))) (\<lambda>attr. ret (next_id (fs_slab fs), attr)) fs2 = (Ok (c, a), fs')"
    using run none p by (simp add: mkdir_jj_def reads_seq get_inode_seq on_slab_seq [where g = "alloc p n (DirtyTree [])", OF al] modifies_seq fs2_def)
  moreover have k: "inodes (fs_slab fs2) (next_id (fs_slab fs)) = Some k"
    by (simp add: fs2_def sl_def alloc_with_ignored_def Let_def k_def)
  ultimately have r: "c = next_id (fs_slab fs)" "fs' = fs2" "attr_for c fs2 = (Ok a, fs2)" "attr_inode a = c"
    using attr_for_dirty [OF k] by (auto simp: seq_apply ret_def k_def)
  have "fs_lookup p n fs2 = (Ok c, fs2)"
    using jj r(1) by (simp add: fs_lookup_def is_git_file_def is_jj_root_def name_consts reads_seq ret_def fs2_def)
  moreover have "inodes (fs_slab fs) c = None" using quiet_fresh [OF inv quiet_refl] r(1) by simp
  ultimately show ?thesis using r k by (simp add: entry_made_def fs_getattr_def k_def)
qed

lemma mkdir_made:
  assumes inv: "fs_inv rt fs" and run: "fs_mkdir p n fs = (Ok (c, a), fs')"
  shows "entry_made fs p n c a fs'"
proof (cases "is_jj_root p n")
  case True
  then show ?thesis using mkdir_jj_made [OF inv True] run by (simp add: fs_mkdir_def)
next
  case False
  have run1: "seq (child_exists p n) (\<lambda>ex. if ex then throw AlreadyExists else seq (ensure_dirty_tree p) (\<lambda>_.
      seq (reads (\<lambda>fs. if is_redirection fs p n then scratch_dir fs else None)) (\<lambda>scratch.
      case scratch of
        Some dir \<Rightarrow>
          seq (reads (\<lambda>fs. create_dir_all fs (path_join dir n))) (\<lambda>made.
          case made of
            Inl e \<Rightarrow> throw (StoreError (''creating scratch dir: '' @ e))
          | Inr _ \<Rightarrow> add_entry p n (DirtySymlink (from_utf8_lossy (path_join dir n))) True)
      | None \<Rightarrow> seq (is_ignored p n True) (add_entry p n (DirtyTree []))))) fs = (Ok (c, a), fs')"
    using run False by (simp add: fs_mkdir_def)
  obtain fs2 where f: "\<not> pinned_name fs p n" "quiet_inv rt fs fs2" "dirty_dir p (fs_slab fs2)"
      "(case if is_redirection fs2 p n then scratch_dir fs2 else None of
        Some dir \<Rightarrow>
          seq (reads (\<lambda>fs. create_dir_all fs (path_join dir n))) (\<lambda>made.
          case made of
            Inl e \<Rightarrow> throw (StoreError (''creating scratch dir: '' @ e))
          | Inr _ \<Rightarrow> add_entry p n (DirtySymlink (from_utf8_lossy (path_join dir n))) True)
      | None \<Rightarrow> seq (is_ignored p n True) (add_entry p n (DirtyTree []))) fs2 = (Ok (c, a), fs')"
    using create_prefix [OF inv run1] by (auto simp: reads_seq)
  show ?thesis
  proof (cases "if is_redirection fs2 p n then scratch_dir fs2 else None")
    case None
    then have "seq (is_ignored p n True) (add_entry p n (DirtyTree [])) fs2 = (Ok (c, a), fs')" using f(4) by simp
    from entry_made_ignored [OF inv f(2,1,3) _ _ this] show ?thesis by simp
  next
    case (Some dir)
    then have "add_entry p n (DirtySymlink (from_utf8_lossy (path_join dir n))) True fs2 = (Ok (c, a), fs')"
      using f(4) by (auto simp: reads_seq throw_def split: sum.splits)
    from entry_made_add [OF inv f(2,1,3) _ _ this] show ?thesis by simp
  qed
qed

text \<open>
  C6: A file, directory or symlink that was created is found under its name with the inode id the call
  returned, an id no inode had before, and its attributes are those the call returned. This includes
  \<^verbatim>\<open>.jj\<close>, which is pinned, and redirected directories, which become symlinks.
\<close>

theorem created_entry_found:
  assumes "fs_inv rt fs" and "c \<in> {CreateFile p n x, Mkdir p n, MkSymlink p n t}" and "fs_exec c fs = (Ok (RNew i a), fs')"
  shows "fs_exec (Lookup p n) fs' = (Ok (RInode i), fs') \<and> fs_exec (Getattr i) fs' = (Ok (RAttr a), fs') \<and>
     attr_inode a = i \<and> inodes (fs_slab fs) i = None"
proof -
  have "entry_made fs p n i a fs'"
    using assms(2,3) create_file_made [OF assms(1)] mkdir_made [OF assms(1)] symlink_made [OF assms(1)]
    by (auto simp: reply_def ret_def elim!: seq_Ok_E)
  then show ?thesis by (simp add: entry_made_def reply_def seq_apply ret_def)
qed

theorem created_entry_found_witness:
  "fs_exec (Lookup 3 ''g'') (snd (fs_exec (Mkdir 3 ''g'') ex_dirty)) = (Ok (RInode 5), snd (fs_exec (Mkdir 3 ''g'') ex_dirty))"
proof -
  have "fst (fs_exec (Mkdir 3 ''g'') ex_dirty) = Ok (RNew 5 \<lparr>attr_inode = 5, attr_kind = Directory, attr_size = 0,
      attr_executable = False, attr_mtime_secs = 0\<rparr>)" (is "_ = Ok (RNew 5 ?a)") by code_simp
  then have "fs_exec (Mkdir 3 ''g'') ex_dirty = (Ok (RNew 5 ?a), snd (fs_exec (Mkdir 3 ''g'') ex_dirty))" by (metis prod.collapse)
  from created_entry_found [OF ex_dirty_inv _ this, of 3 "''g''"] show ?thesis by simp
qed

section \<open>Removal\<close>

lemma quiet_slab_inv: "quiet_inv rt fs fs2 \<Longrightarrow> slab_inv (fs_slab fs2)"
  by (simp add: quiet_inv_def fs_inv_def slab_ok_def)

lemma quiet_dirty_node:
  assumes "quiet a b" and k: "inodes (fs_slab a) i = Some k" and d: "is_dirty (node k)"
  shows "inodes (fs_slab b) i = Some k"
proof -
  obtain nd where "inodes (fs_slab b) i = Some (k\<lparr>node := nd\<rparr>)" "nd = node k"
    using assms(1) k d unfolding quiet_def nodes_refreshed_def by blast
  then show ?thesis by simp
qed

text \<open>The emptiness check before a directory is removed.\<close>

definition empty_check :: "inode \<Rightarrow> ('g, unit) fs_op" where
  "empty_check k = (case node k of
            DirtyTree children \<Rightarrow> if children \<noteq> [] then throw NotEmpty else ret ()
          | Tree oid \<Rightarrow> seq (read_tree oid) (\<lambda>tree. if tree \<noteq> [] then throw NotEmpty else ret ())
          | _ \<Rightarrow> ret ())"

lemma empty_check_quiet: "hoare (quiet_inv rt fs) (empty_check k) (\<lambda>_. quiet_inv rt fs) (quiet_inv rt fs)"
  unfolding empty_check_def by (cases "node k") (auto intro!: hoare_ret hoare_throw hoare_if hoare_seq [OF keeps_read_tree])

lemma empty_check_slab: "empty_check k fs = (Ok v, fs') \<Longrightarrow> fs_slab fs' = fs_slab fs"
  unfolding empty_check_def
  by (cases "node k") (auto simp: ret_def throw_def read_tree_def read_through_def elim!: seq_Ok_E
        split: if_splits sum.splits option.splits prod.splits)

lemma empty_check_dirty: "empty_check k fs = (Ok v, fs') \<Longrightarrow> node k = DirtyTree cs \<Longrightarrow> cs = []"
  unfolding empty_check_def by (auto simp: throw_def split: if_splits)

lemma remove_from_slab_names:
  assumes inv: "fs_inv rt fs" and run: "remove_from_slab p n fs = (Ok u, fs')"
  shows "\<exists>fs2 c. quiet_inv rt fs fs2 \<and> lists p n c (fs_slab fs2) \<and>
    detach_child p n (fs_slab fs2) = (Some c, fs_slab fs') \<and> fs' = fs2\<lparr>fs_slab := fs_slab fs'\<rparr> \<and>
    (\<exists>k. inodes (fs_slab fs2) c = Some k \<and> (\<forall>cs. node k = DirtyTree cs \<longrightarrow> cs = []))"
proof -
  obtain u1 fs1 where e: "ensure_dirty_tree p fs = (Ok u1, fs1)" and r: "seq (get_inode p) (\<lambda>pino.
     seq (case node pino of
            DirtyTree children \<Rightarrow> (case map_of children n of Some c \<Rightarrow> ret c | None \<Rightarrow> throw NotFound)
          | _ \<Rightarrow> throw NotADirectory) (\<lambda>child_id.
     seq (get_inode child_id) (\<lambda>child.
     seq (case node child of
            DirtyTree children \<Rightarrow> if children \<noteq> [] then throw NotEmpty else ret ()
          | Tree oid \<Rightarrow> seq (read_tree oid) (\<lambda>tree. if tree \<noteq> [] then throw NotEmpty else ret ())
          | _ \<Rightarrow> ret ()) (\<lambda>_.
     seq (on_slab (detach_child p n)) (\<lambda>r.
     case r of None \<Rightarrow> throw NotFound | Some _ \<Rightarrow> ret ()))))) fs1 = (Ok u, fs')"
    using run unfolding remove_from_slab_def by (rule seq_Ok_E)
  have q1: "quiet_inv rt fs fs1" and d1: "dirty_dir p (fs_slab fs1)"
    using hoare_Ok [OF hoare_ensure_dirty_tree quiet_inv_refl [OF inv] e] by auto
  from d1 obtain pino cs where p: "inodes (fs_slab fs1) p = Some pino" "node pino = DirtyTree cs" by (auto simp: dirty_dir_def)
  obtain c where c: "map_of cs n = Some c"
    using r [unfolded get_inode_seq(1) [OF p(1)]] p(2) by (cases "map_of cs n") (simp, simp add: throw_def)+
  have l1: "lists p n c (fs_slab fs1)" using p c by (auto simp: lists_def)
  obtain k where k: "inodes (fs_slab fs1) c = Some k" using slab_inv_child [OF quiet_slab_inv [OF q1] p c] by blast
  have "seq (empty_check k) (\<lambda>_. seq (on_slab (detach_child p n)) (\<lambda>r. case r of None \<Rightarrow> throw NotFound | Some _ \<Rightarrow> ret ())) fs1 = (Ok u, fs')"
    using r p c k unfolding empty_check_def by (simp add: get_inode_seq)
  then obtain v fs2 where v: "empty_check k fs1 = (Ok v, fs2)"
      "seq (on_slab (detach_child p n)) (\<lambda>r. case r of None \<Rightarrow> throw NotFound | Some _ \<Rightarrow> ret ()) fs2 = (Ok u, fs')"
    by (rule seq_Ok_E)
  have q2: "quiet_inv rt fs fs2" using hoare_any [OF empty_check_quiet q1 v(1)] .
  have "fs_slab fs2 = fs_slab fs1" using empty_check_slab [OF v(1)] .
  then have l2: "lists p n c (fs_slab fs2)" and k2: "inodes (fs_slab fs2) c = Some k" using l1 k by simp_all
  obtain r sl where det: "detach_child p n (fs_slab fs2) = (r, sl)" by fastforce
  have r: "r = Some c" using det l2 by (auto simp: lists_def detach_child_def)
  have fs': "fs' = fs2\<lparr>fs_slab := sl\<rparr>" using v(2) det r by (simp add: on_slab_seq ret_def)
  then show ?thesis using q2 l2 k2 det r empty_check_dirty [OF v(1)] by auto
qed

lemma remove_jj_spec:
  assumes "jj_subtree fs = Some jj" and "remove_jj jj fs = (Ok u, fs')"
  shows "jj_subtree fs' = None \<and> fs_slab fs' = fs_slab fs \<and>
    (\<exists>k. inodes (fs_slab fs) jj = Some k \<and> (\<forall>cs. node k = DirtyTree cs \<longrightarrow> cs = []))"
proof -
  have fetched: "read_tree oid fs = (Ok es, fs1) \<Longrightarrow> fs_slab fs1 = fs_slab fs \<and> jj_subtree fs1 = jj_subtree fs" for oid es fs1
    by (auto simp: read_tree_def read_through_def split: sum.splits option.splits prod.splits)
  obtain k where k: "inodes (fs_slab fs) jj = Some k"
    using assms(2) by (cases "inodes (fs_slab fs) jj") (simp_all add: remove_jj_def get_inode_seq)
  show ?thesis
    using assms(2) k assms(1)
    by (cases "node k") (auto simp: remove_jj_def get_inode_seq ret_def throw_def modifies_def elim!: seq_Ok_E
          split: if_splits dest!: fetched)
qed

text \<open>No name of the slab leads to an inode that no directory lists and that was handed out already.\<close>

lemma lookup_misses_unlisted:
  assumes "slab_inv (fs_slab fs)" and "\<forall>q. by_parent (fs_slab fs) q \<noteq> Some jj" and "jj < next_id (fs_slab fs)"
    and "\<not> pinned_name fs p n"
  shows "fst (fs_lookup p n fs) \<noteq> Ok jj"
proof
  assume "fst (fs_lookup p n fs) = Ok jj"
  then obtain fs' where run: "fs_lookup p n fs = (Ok jj, fs')" by (cases "fs_lookup p n fs") auto
  have fetched: "read_tree oid fs = (Ok es, fs1) \<Longrightarrow> fs_slab fs1 = fs_slab fs" for oid es fs1
    by (auto simp: read_tree_def read_through_def split: sum.splits option.splits prod.splits)
  obtain k where k: "inodes (fs_slab fs) p = Some k"
    using run assms(4) by (cases "inodes (fs_slab fs) p") (auto simp: fs_lookup_def pinned_name_def reads_seq get_inode_seq)
  show False
  proof (cases "node k")
    case (DirtyTree cs)
    then have "map_of cs n = Some jj"
      using run k assms(4) by (auto simp: fs_lookup_def pinned_name_def reads_seq get_inode_seq ret_def throw_def split: option.splits)
    then show False using slab_inv_kids [OF assms(1) k DirtyTree] assms(2) by blast
  next
    case (Tree oid)
    have "seq (read_tree oid) (\<lambda>tree. case List.find (\<lambda>e. ename e = n) tree of None \<Rightarrow> throw NotFound
        | Some e \<Rightarrow> (case entry_to_node e of None \<Rightarrow> panic | Some nd \<Rightarrow> on_slab (intern_child p n nd))) fs = (Ok jj, fs')"
      using run k Tree assms(4) by (auto simp: fs_lookup_def pinned_name_def reads_seq get_inode_seq split: if_splits)
    then show False
      using assms(2,3)
      by (auto simp: throw_def panic_def on_slab_def intern_child_def Let_def dest!: fetched elim!: seq_Ok_E
            split: option.splits prod.splits)
  qed (use run k assms(4) in \<open>auto simp: fs_lookup_def pinned_name_def reads_seq get_inode_seq throw_def\<close>)
qed

lemma remove_from_slab_gone:
  assumes "fs_inv rt fs" and "\<not> pinned_name fs p n" and "remove_from_slab p n fs = (Ok u, fs')"
  shows "fs_lookup p n fs' = (Err NotFound, fs') \<and>
    (\<forall>q m d. (q, m) \<noteq> (p, n) \<longrightarrow> lists q m d (fs_slab fs) \<longrightarrow> lists q m d (fs_slab fs')) \<and>
    (\<forall>c k cs. lists p n c (fs_slab fs) \<longrightarrow> inodes (fs_slab fs) c = Some k \<longrightarrow> node k = DirtyTree cs \<longrightarrow> cs = []) \<and>
    dom (inodes (fs_slab fs)) \<subseteq> dom (inodes (fs_slab fs'))"
proof -
  obtain fs2 c where f: "quiet_inv rt fs fs2" "lists p n c (fs_slab fs2)"
      "detach_child p n (fs_slab fs2) = (Some c, fs_slab fs')" "fs' = fs2\<lparr>fs_slab := fs_slab fs'\<rparr>"
      "\<exists>k. inodes (fs_slab fs2) c = Some k \<and> (\<forall>cs. node k = DirtyTree cs \<longrightarrow> cs = [])"
    using remove_from_slab_names [OF assms(1,3)] by blast
  note dn = detach_names [OF quiet_slab_inv [OF f(1)] f(3)]
  have jj: "jj_subtree fs' = jj_subtree fs" using f(1) arg_cong [OF f(4), of jj_subtree] by (simp add: quiet_inv_def quiet_def)
  then have "fs_lookup p n fs' = (Err NotFound, fs')"
    using lookup_unlisted [of p n fs'] dn assms(2) by (simp add: pinned_name_def)
  moreover have "lists q m d (fs_slab fs) \<Longrightarrow> (q, m) \<noteq> (p, n) \<Longrightarrow> lists q m d (fs_slab fs')" for q m d
    using lists_quiet [of fs fs2 q m d] f(1) dn unfolding quiet_inv_def by blast
  moreover have "cs = []" if "lists p n c' (fs_slab fs)" "inodes (fs_slab fs) c' = Some k" "node k = DirtyTree cs" for c' k cs
  proof -
    have "c' = c" using that(1) lists_quiet f(1,2) lists_fun unfolding quiet_inv_def by metis
    then have "inodes (fs_slab fs2) c = Some k"
      using quiet_dirty_node [of fs fs2 c' k] that f(1) by (simp add: quiet_inv_def)
    then show ?thesis using f(5) that(3) by auto
  qed
  moreover have "dom (inodes (fs_slab fs)) \<subseteq> dom (inodes (fs_slab fs'))"
  proof
    fix i assume "i \<in> dom (inodes (fs_slab fs))"
    then have "\<exists>k. inodes (fs_slab fs2) i = Some k"
      using f(1) by (auto simp: quiet_inv_def quiet_def fs_evolves_def slab_grows_def)
    then show "i \<in> dom (inodes (fs_slab fs'))" using dn by blast
  qed
  ultimately show ?thesis by blast
qed

text \<open>
  C7: A name that was removed is gone. An entry of the tree: looking the name up fails with
  \<^verbatim>\<open>NotFound\<close>, and what was removed is not a directory with modified entries. The pinned \<^verbatim>\<open>.jj\<close>
  directory of the root: the directory had no modified entries, it is not pinned any more, and looking up \<^verbatim>\<open>.jj\<close>
  never leads to it again (an entry \<^verbatim>\<open>.jj\<close> of the tree, hidden until then, may be found there). The
  \<^verbatim>\<open>.git\<close> file of the root is never removed. In each case every other entry of a modified directory stays
  under the name and id it had, and every inode stays valid for handles that are still open.
\<close>

theorem removed_entry_gone:
  assumes "fs_inv rt fs" and "fs_remove p n fs = (Ok u, fs')"
  shows "\<not> is_git_file p n \<and>
    (\<not> pinned_name fs p n \<longrightarrow> fs_lookup p n fs' = (Err NotFound, fs') \<and>
       (\<forall>c k cs. lists p n c (fs_slab fs) \<longrightarrow> inodes (fs_slab fs) c = Some k \<longrightarrow> node k = DirtyTree cs \<longrightarrow> cs = [])) \<and>
    (pinned_name fs p n \<longrightarrow> jj_subtree fs' = None \<and>
       (\<exists>jj k. fs_lookup p n fs = (Ok jj, fs) \<and> fst (fs_lookup p n fs') \<noteq> Ok jj \<and>
          inodes (fs_slab fs) jj = Some k \<and> (\<forall>cs. node k = DirtyTree cs \<longrightarrow> cs = []))) \<and>
    (\<forall>q m d. (q, m) \<noteq> (p, n) \<longrightarrow> lists q m d (fs_slab fs) \<longrightarrow> lists q m d (fs_slab fs')) \<and>
    dom (inodes (fs_slab fs)) \<subseteq> dom (inodes (fs_slab fs'))"
proof (cases "pinned_name fs p n")
  case False
  then have "remove_from_slab p n fs = (Ok u, fs')" "\<not> is_git_file p n"
    using assms(2) by (auto simp: fs_remove_def pinned_name_def reads_seq throw_def split: if_splits)
  then show ?thesis using remove_from_slab_gone [OF assms(1) False] False by blast
next
  case True
  have git: "\<not> is_git_file p n" using assms(2) by (auto simp: fs_remove_def throw_def)
  with True obtain jj where jj: "is_jj_root p n" "jj_subtree fs = Some jj" by (auto simp: pinned_name_def)
  then have "remove_jj jj fs = (Ok u, fs')" using assms(2) git by (simp add: fs_remove_def reads_seq)
  from remove_jj_spec [OF jj(2) this] obtain k where k: "jj_subtree fs' = None" "fs_slab fs' = fs_slab fs"
      "inodes (fs_slab fs) jj = Some k" "\<forall>cs. node k = DirtyTree cs \<longrightarrow> cs = []"
    by blast
  have ok: "slab_inv (fs_slab fs')" "\<forall>q. by_parent (fs_slab fs') q \<noteq> Some jj" "jj < next_id (fs_slab fs')"
    using assms(1) jj(2) k(2,3) by (auto simp: fs_inv_def slab_ok_def pinned_ok_def dest: slab_inv_lt)
  have "\<not> pinned_name fs' p n" using git k(1) by (simp add: pinned_name_def)
  then have "fst (fs_lookup p n fs') \<noteq> Ok jj" by (rule lookup_misses_unlisted [OF ok])
  moreover have "fs_lookup p n fs = (Ok jj, fs)" using git jj by (simp add: fs_lookup_def reads_seq ret_def)
  ultimately show ?thesis using True git k by auto
qed

lemma ex_run_inv:
  assumes "fs_reach False ex_fs fs"
  shows "fs_inv False fs"
  using fs_reach_inv [OF assms] ex_fs_inv by (auto simp: evo_inv_def fs_inv_def slab_ok_def)

definition ex_pinned :: "mem_db kiki_fs" where
  "ex_pinned = run_calls [Mkdir 1 JJ_DIR] ex_fs"

theorem removed_entry_gone_witness:
  "fs_lookup 3 ''f'' (snd (fs_remove 3 ''f'' ex_dirty)) = (Err NotFound, snd (fs_remove 3 ''f'' ex_dirty)) \<and>
   (\<exists>jj. fs_lookup 1 JJ_DIR ex_pinned = (Ok jj, ex_pinned) \<and>
      fst (fs_lookup 1 JJ_DIR (snd (fs_remove 1 JJ_DIR ex_pinned))) \<noteq> Ok jj)"
proof
  have "fst (fs_remove 3 ''f'' ex_dirty) = Ok ()" by code_simp
  then have "fs_remove 3 ''f'' ex_dirty = (Ok (), snd (fs_remove 3 ''f'' ex_dirty))" by (metis prod.collapse)
  note gone = removed_entry_gone [OF ex_dirty_inv this]
  have "\<not> pinned_name ex_dirty 3 ''f''" by (simp add: pinned_name_def is_git_file_def is_jj_root_def ROOT_INODE_def)
  with gone show "fs_lookup 3 ''f'' (snd (fs_remove 3 ''f'' ex_dirty)) = (Err NotFound, snd (fs_remove 3 ''f'' ex_dirty))"
    by blast
next
  have "fst (fs_remove 1 JJ_DIR ex_pinned) = Ok ()" by code_simp
  then have rm: "fs_remove 1 JJ_DIR ex_pinned = (Ok (), snd (fs_remove 1 JJ_DIR ex_pinned))" by (metis prod.collapse)
  have "jj_subtree ex_pinned \<noteq> None" by code_simp
  then have "pinned_name ex_pinned 1 JJ_DIR" by (simp add: pinned_name_def is_jj_root_def ROOT_INODE_def)
  moreover have "fs_inv False ex_pinned" unfolding ex_pinned_def by (intro ex_run_inv ex_reach) simp
  ultimately show "\<exists>jj. fs_lookup 1 JJ_DIR ex_pinned = (Ok jj, ex_pinned) \<and>
      fst (fs_lookup 1 JJ_DIR (snd (fs_remove 1 JJ_DIR ex_pinned))) \<noteq> Ok jj"
    using removed_entry_gone [OF _ rm] by blast
qed

end
