(* ===== verification/Kiki_Moves.thy ===== *)
theory Kiki_Moves
  imports Kiki_Names
begin

text \<open>
  Operations of \<^verbatim>\<open>src/daemon/src/vfs/kiki_fs.rs\<close> that reorganise a mounted workspace: renames, the refusal
  of changes to the synthesized \<^verbatim>\<open>.git\<close> file, and check-out of another root tree.
\<close>

section \<open>Rename\<close>

lemma quiet_lists_back:
  assumes "quiet_inv rt fs fs2" and "lists p n c' (fs_slab fs2)" and "by_parent (fs_slab fs) (p, n) = Some c"
  shows "c' = c"
proof -
  have "by_parent (fs_slab fs2) (p, n) = Some c"
    using assms(1,3) listing_growsD(1) unfolding quiet_inv_def quiet_def by metis
  then show ?thesis using lists_by_parent [OF quiet_slab_inv [OF assms(1)] assms(2)] by simp
qed

lemma local_file_quiet:
  assumes q: "quiet fs fs2" and k: "inodes (fs_slab fs) i = Some k" "node k = DirtyFile b x"
  shows "inodes (fs_slab fs2) i = Some k"
  using quiet_dirty_node [OF q k(1)] k(2) by simp

lemma move_entry_names:
  assumes inv: "slab_inv (fs_slab fs)" and src: "lists p n c (fs_slab fs)"
    and run: "move_entry p n np nn c fs = (Ok u, fs')"
  shows "lists np nn c (fs_slab fs') \<and> ((p, n) \<noteq> (np, nn) \<longrightarrow> unlisted p n (fs_slab fs')) \<and>
     fs' = fs\<lparr>fs_slab := fs_slab fs'\<rparr> \<and>
     (\<forall>q m d. (q, m) \<noteq> (p, n) \<longrightarrow> (q, m) \<noteq> (np, nn) \<longrightarrow> lists q m d (fs_slab fs') = lists q m d (fs_slab fs)) \<and>
     (\<exists>k. inodes (fs_slab fs') c = Some k \<and> parent k = np \<and> iname k = nn \<and>
       (\<forall>k0. inodes (fs_slab fs) c = Some k0 \<longrightarrow> ignored k = ignored k0 \<and> (\<not> is_dir (node k0) \<longrightarrow> node k = node k0)))"
proof -
  obtain sl1 where d: "detach_child p n (fs_slab fs) = (Some c, sl1)"
    using src by (auto simp: lists_def detach_child_def)
  note dn = detach_names [OF inv d]
  have inv1: "slab_inv sl1" using detach_child_inv [OF inv, of p n] d by simp
  obtain b sl2 where a: "attach_child np nn c sl1 = (b, sl2)" by fastforce
  have b: b using run d a by (cases b) (auto simp: move_entry_def on_slab_seq throw_def)
  then have a1: "attach_child np nn c sl1 = (True, sl2)" using a by simp
  note an = attach_names [OF inv1 a1]
  obtain b3 sl3 where r: "reparent c np nn sl2 = (b3, sl3)" by fastforce
  have fs': "fs' = fs\<lparr>fs_slab := sl3\<rparr>"
    using run b a1 d r by (simp add: move_entry_def seq_apply on_slab_def ret_def)
  obtain k0 where k0: "inodes (fs_slab fs) c = Some k0"
    using src slab_inv_child [OF inv] unfolding lists_def by blast
  obtain nd1 where n1: "inodes sl1 c = Some (k0\<lparr>node := nd1\<rparr>)" "nd1 = node k0 \<or> c = p" using dn k0 by blast
  have "\<exists>nd2. inodes sl2 c = Some (k0\<lparr>node := nd2\<rparr>) \<and> (nd2 = nd1 \<or> c = np)"
    using an n1 by (cases "c = np") (auto intro: exI [of _ nd1])
  then obtain nd2 where n2: "inodes sl2 c = Some (k0\<lparr>node := nd2\<rparr>)" "nd2 = nd1 \<or> c = np" by blast
  have k: "inodes sl3 c = Some (k0\<lparr>node := nd2, parent := np, iname := nn\<rparr>)"
    using reparent_names(4) [OF r n2(1)] by simp
  have "nd2 = node k0" if nodir: "\<not> is_dir (node k0)"
  proof -
    have "c \<noteq> p" using src k0 nodir by (auto simp: lists_def)
    then have nd1: "nd1 = node k0" using n1(2) by blast
    then have "c \<noteq> np" using an n1(1) nodir by auto
    then show ?thesis using n2(2) nd1 by blast
  qed
  moreover have "lists np nn c sl3" using an reparent_names(1) [OF r] by simp
  moreover have "unlisted p n sl3" if "(p, n) \<noteq> (np, nn)"
  proof -
    have "unlisted p n sl1" using dn by blast
    moreover have "\<not> lists p n d sl2" for d using that an calculation lists_not_unlisted by metis
    moreover have "dirty_dir p sl2"
      using calculation(1) an by (cases "p = np") (auto simp: unlisted_def dirty_dir_def)
    ultimately have "unlisted p n sl2" using dirty_dir_lists by blast
    then show ?thesis using reparent_names(2) [OF r] by simp
  qed
  moreover have "lists q m d sl3 = lists q m d (fs_slab fs)" if "(q, m) \<noteq> (p, n)" "(q, m) \<noteq> (np, nn)" for q m d
    using that dn an reparent_names(1) [OF r] by simp
  ultimately show ?thesis using fs' k k0 by auto
qed

lemma dirty_child_names:
  "dirty_child p n fs = (Ok r, fs') \<Longrightarrow> fs' = fs \<and>
     (case r of None \<Rightarrow> unlisted p n (fs_slab fs) | Some c \<Rightarrow> lists p n c (fs_slab fs))"
  by (cases "inodes (fs_slab fs) p")
    (auto simp: dirty_child_def get_inode_seq ret_def throw_def unlisted_def lists_def split: NodeRef.splits option.splits)

lemma check_replace_slab: "check_replace s d fs = (Ok u, fs') \<Longrightarrow> fs_slab fs' = fs_slab fs"
  unfolding check_replace_def
  by (auto simp: get_inode_def fetch_or_def ret_def throw_def read_tree_def read_through_def elim!: seq_Ok_E
      split: if_splits sum.splits option.splits prod.splits NodeRef.splits)

text \<open>The end of \<open>fs_rename\<close>, once both directories are modifiable and both names are resolved.\<close>

definition rename_tail :: "inode_id \<Rightarrow> string \<Rightarrow> inode_id \<Rightarrow> string \<Rightarrow> inode_id option \<Rightarrow> inode_id option \<Rightarrow> ('g, unit) fs_op" where
  "rename_tail p n np nn src dst = (case dst of
        Some dst_id \<Rightarrow>
          if dst_id = the src then ret ()
          else seq (check_replace (the src) dst_id) (\<lambda>_.
               seq (on_slab (detach_child np nn)) (\<lambda>_.
               move_entry p n np nn (the src)))
      | None \<Rightarrow> move_entry p n np nn (the src))"

lemma rename_names:
  assumes inv: "fs_inv rt fs" and src: "by_parent (fs_slab fs) (p, n) = Some c" and run: "fs_rename p n np nn fs = (Ok u, fs')"
  shows "\<exists>fs2. quiet_inv rt fs fs2 \<and> lists p n c (fs_slab fs2) \<and> \<not> pinned_name fs p n \<and> \<not> pinned_name fs np nn \<and>
    ((p, n) = (np, nn) \<and> fs' = fs2 \<or>
     (\<exists>fs3. slab_inv (fs_slab fs3) \<and> lists p n c (fs_slab fs3) \<and> fs3 = fs2\<lparr>fs_slab := fs_slab fs3\<rparr> \<and>
        (fs_slab fs3 = fs_slab fs2 \<or> (\<exists>d. detach_child np nn (fs_slab fs2) = (Some d, fs_slab fs3))) \<and>
        (p, n) \<noteq> (np, nn) \<and> move_entry p n np nn c fs3 = (Ok u, fs')))"
proof -
  have np: "\<not> (is_jj_root p n \<or> is_jj_root np nn \<or> is_git_file p n \<or> is_git_file np nn)"
    using run by (auto simp: fs_rename_def throw_def split: if_splits)
  then have pin: "\<not> pinned_name fs p n" "\<not> pinned_name fs np nn" by (auto simp: pinned_name_def)
  have run0: "seq (ensure_dirty_tree p) (\<lambda>_.
      seq (if np \<noteq> p then ensure_dirty_tree np else ret ()) (\<lambda>_.
      seq (dirty_child p n) (\<lambda>src. if src = None then throw NotFound else seq (dirty_child np nn) (rename_tail p n np nn src)))) fs = (Ok u, fs')"
    using run np unfolding fs_rename_def rename_tail_def by simp
  obtain u1 fs1 where e1: "ensure_dirty_tree p fs = (Ok u1, fs1)" and r1: "seq (if np \<noteq> p then ensure_dirty_tree np else ret ()) (\<lambda>_.
      seq (dirty_child p n) (\<lambda>src. if src = None then throw NotFound else seq (dirty_child np nn) (rename_tail p n np nn src))) fs1 = (Ok u, fs')"
    using run0 by (rule seq_Ok_E)
  obtain u2 fs2 where e2: "(if np \<noteq> p then ensure_dirty_tree np else ret ()) fs1 = (Ok u2, fs2)" and
      r2: "seq (dirty_child p n) (\<lambda>src. if src = None then throw NotFound else seq (dirty_child np nn) (rename_tail p n np nn src)) fs2 = (Ok u, fs')"
    using r1 by (rule seq_Ok_E)
  have q1: "quiet_inv rt fs fs1" using hoare_Ok [OF hoare_ensure_dirty_tree quiet_inv_refl [OF inv] e1] by simp
  have q2: "quiet_inv rt fs fs2"
    using e2 q1 hoare_Ok [OF hoare_ensure_dirty_tree q1] by (auto simp: ret_def split: if_splits)
  obtain src0 fs2' where s0: "dirty_child p n fs2 = (Ok src0, fs2')" and
      r3: "(if src0 = None then throw NotFound else seq (dirty_child np nn) (rename_tail p n np nn src0)) fs2' = (Ok u, fs')"
    using r2 by (rule seq_Ok_E)
  obtain c' where c': "src0 = Some c'" using r3 by (cases src0) (auto simp: throw_def)
  have l2: "lists p n c (fs_slab fs2)" and src0: "src0 = Some c" and fs2': "fs2' = fs2"
    using dirty_child_names [OF s0] c' quiet_lists_back [OF q2 _ src, of c'] by auto
  obtain dst fs2'' where d0: "dirty_child np nn fs2 = (Ok dst, fs2'')" and r4: "rename_tail p n np nn src0 dst fs2'' = (Ok u, fs')"
    using r3 src0 fs2' by (auto elim: seq_Ok_E)
  have fs2'': "fs2'' = fs2" using dirty_child_names [OF d0] by simp
  have inv2: "slab_inv (fs_slab fs2)" using quiet_slab_inv [OF q2] .
  show ?thesis
  proof (cases dst)
    case None
    then have "unlisted np nn (fs_slab fs2)" using dirty_child_names [OF d0] by simp
    then have "(p, n) \<noteq> (np, nn)" using l2 lists_not_unlisted by blast
    moreover have "move_entry p n np nn c fs2 = (Ok u, fs')" using r4 None src0 fs2'' by (simp add: rename_tail_def)
    ultimately show ?thesis using q2 l2 pin inv2 by (intro exI [of _ fs2]) auto
  next
    case (Some d)
    then have ld: "lists np nn d (fs_slab fs2)" using dirty_child_names [OF d0] by simp
    show ?thesis
    proof (cases "d = c")
      case True
      then have "p = np \<and> n = nn" using lists_inj [OF inv2 l2, of np nn] ld by simp
      moreover have "fs' = fs2" using r4 Some src0 fs2'' True by (simp add: rename_tail_def ret_def)
      ultimately show ?thesis using q2 l2 pin by (intro exI [of _ fs2]) auto
    next
      case False
      then have keys: "(p, n) \<noteq> (np, nn)" using lists_fun [OF l2] ld by auto
      have "seq (check_replace c d) (\<lambda>_. seq (on_slab (detach_child np nn)) (\<lambda>_. move_entry p n np nn c)) fs2 = (Ok u, fs')"
        using r4 Some src0 fs2'' False by (simp add: rename_tail_def)
      then obtain u3 fs3 where cr: "check_replace c d fs2 = (Ok u3, fs3)" and
          r5: "seq (on_slab (detach_child np nn)) (\<lambda>_. move_entry p n np nn c) fs3 = (Ok u, fs')" by (rule seq_Ok_E)
      have q3: "quiet_inv rt fs fs3" using hoare_any [OF quiet_check_replace q2 cr] .
      have sl3: "fs_slab fs3 = fs_slab fs2" using check_replace_slab [OF cr] .
      obtain sl4 where det: "detach_child np nn (fs_slab fs3) = (Some d, sl4)"
        using ld sl3 by (auto simp: lists_def detach_child_def)
      have mv: "move_entry p n np nn c (fs3\<lparr>fs_slab := sl4\<rparr>) = (Ok u, fs')" using r5 det by (simp add: on_slab_seq)
      have "slab_inv sl4" using detach_child_inv [OF quiet_slab_inv [OF q3], of np nn] det by simp
      moreover have "lists p n c sl4" using detach_names [OF quiet_slab_inv [OF q3] det] l2 sl3 keys by simp
      ultimately show ?thesis using q3 l2 pin keys mv sl3 det
        by (intro exI [of _ fs3] conjI disjI2 exI [of _ "fs3\<lparr>fs_slab := sl4\<rparr>"]) auto
    qed
  qed
qed

text \<open>
  C5: A rename that succeeds moves the entry: the destination name answers with the inode the source name
  had, the inode records its new parent and name, a modified file keeps its content, and the source name is gone
  (unless both are the same). Every other entry of a modified directory stays.
\<close>

theorem rename_moves_entry:
  assumes "fs_inv rt fs" and "by_parent (fs_slab fs) (p, n) = Some c" and "fs_rename p n np nn fs = (Ok u, fs')"
  shows "fs_lookup np nn fs' = (Ok c, fs') \<and>
    ((p, n) \<noteq> (np, nn) \<longrightarrow> fs_lookup p n fs' = (Err NotFound, fs')) \<and>
    (\<exists>k. inodes (fs_slab fs') c = Some k \<and> parent k = np \<and> iname k = nn) \<and>
    (\<forall>k b x. inodes (fs_slab fs) c = Some k \<longrightarrow> node k = DirtyFile b x \<longrightarrow> local_file c b fs') \<and>
    (\<forall>q m d. (q, m) \<noteq> (p, n) \<longrightarrow> (q, m) \<noteq> (np, nn) \<longrightarrow> lists q m d (fs_slab fs) \<longrightarrow> lists q m d (fs_slab fs'))"
proof -
  from rename_names [OF assms] obtain fs2 where q: "quiet_inv rt fs fs2" and l2: "lists p n c (fs_slab fs2)"
    and pin: "\<not> pinned_name fs p n" "\<not> pinned_name fs np nn"
    and cases: "(p, n) = (np, nn) \<and> fs' = fs2 \<or>
     (\<exists>fs3. slab_inv (fs_slab fs3) \<and> lists p n c (fs_slab fs3) \<and> fs3 = fs2\<lparr>fs_slab := fs_slab fs3\<rparr> \<and>
        (fs_slab fs3 = fs_slab fs2 \<or> (\<exists>d. detach_child np nn (fs_slab fs2) = (Some d, fs_slab fs3))) \<and>
        (p, n) \<noteq> (np, nn) \<and> move_entry p n np nn c fs3 = (Ok u, fs'))" by blast
  have jj2: "jj_subtree fs2 = jj_subtree fs" and qq: "quiet fs fs2" using q by (auto simp: quiet_inv_def quiet_def)
  have keep: "lists q m d (fs_slab fs) \<Longrightarrow> lists q m d (fs_slab fs2)" for q m d using lists_quiet [OF qq] .
  have inv2: "slab_inv (fs_slab fs2)" using quiet_slab_inv [OF q] .
  from cases consider (same) "(p, n) = (np, nn)" "fs' = fs2"
    | (moved) fs3 where "slab_inv (fs_slab fs3)" "lists p n c (fs_slab fs3)" "fs3 = fs2\<lparr>fs_slab := fs_slab fs3\<rparr>"
        "fs_slab fs3 = fs_slab fs2 \<or> (\<exists>d. detach_child np nn (fs_slab fs2) = (Some d, fs_slab fs3))"
        "(p, n) \<noteq> (np, nn)" "move_entry p n np nn c fs3 = (Ok u, fs')" by blast
  then show ?thesis
  proof cases
    case same
    have "\<exists>k. inodes (fs_slab fs2) c = Some k \<and> parent k = p \<and> iname k = n"
      using l2 slab_inv_child [OF inv2] unfolding lists_def by blast
    moreover have "local_file c b fs2" if "inodes (fs_slab fs) c = Some k" "node k = DirtyFile b x" for k b x
      using local_file_quiet [OF qq that] that(2) by (auto simp: local_file_def)
    ultimately show ?thesis using same l2 pin jj2 keep lookup_lists [of np nn c fs2] by (auto simp: pinned_name_def)
  next
    case (moved fs3)
    note f3 = moved
    note mv = move_entry_names [OF f3(1,2,6)]
    have "fs' = fs3\<lparr>fs_slab := fs_slab fs'\<rparr>" using mv by blast
    from arg_cong [OF this, of jj_subtree] have "jj_subtree fs' = jj_subtree fs3" by simp
    moreover have "jj_subtree fs3 = jj_subtree fs2" using arg_cong [OF f3(3), of jj_subtree] by simp
    ultimately have pin': "\<not> pinned_name fs' p n" "\<not> pinned_name fs' np nn" using pin jj2 by (auto simp: pinned_name_def)
    have keep3: "lists q m d (fs_slab fs2) \<Longrightarrow> (q, m) \<noteq> (np, nn) \<Longrightarrow> lists q m d (fs_slab fs3)" for q m d
      using f3(4) detach_names [OF inv2, of np nn] by metis
    have "local_file c b fs'" if k: "inodes (fs_slab fs) c = Some k" "node k = DirtyFile b x" for k b x
    proof -
      have k2: "inodes (fs_slab fs2) c = Some k" using local_file_quiet [OF qq k] .
      have "\<exists>nd. inodes (fs_slab fs3) c = Some (k\<lparr>node := nd\<rparr>) \<and> (nd = node k \<or> c = np)"
        using f3(4)
      proof (elim disjE exE)
        assume "fs_slab fs3 = fs_slab fs2"
        then show ?thesis using k2 by (intro exI [of _ "node k"]) simp
      next
        fix d assume "detach_child np nn (fs_slab fs2) = (Some d, fs_slab fs3)"
        from detach_names [OF inv2 this] show ?thesis using k2 by blast
      qed
      moreover have "c = np \<Longrightarrow> fs_slab fs3 = fs_slab fs2"
        using f3(4) k2 k(2) by (auto simp: detach_child_def)
      ultimately have "inodes (fs_slab fs3) c = Some k" using k2 by auto
      then show ?thesis using mv k(2) by (auto simp: local_file_def)
    qed
    then show ?thesis using mv pin' f3(5) keep keep3 lookup_lists [of np nn c fs'] lookup_unlisted [of p n fs'] by blast
  qed
qed

theorem rename_moves_entry_witness:
  "fs_lookup 1 ''g'' (snd (fs_rename 3 ''f'' 1 ''g'' ex_dirty)) = (Ok 4, snd (fs_rename 3 ''f'' 1 ''g'' ex_dirty))"
proof -
  have "fst (fs_rename 3 ''f'' 1 ''g'' ex_dirty) = Ok ()" by code_simp
  then have r: "fs_rename 3 ''f'' 1 ''g'' ex_dirty = (Ok (), snd (fs_rename 3 ''f'' 1 ''g'' ex_dirty))" by (metis prod.collapse)
  have "by_parent (fs_slab ex_dirty) (3, ''f'') = Some 4" by code_simp
  from rename_moves_entry [OF ex_dirty_inv this r] show ?thesis by blast
qed

section \<open>The synthesized \<open>.git\<close> file\<close>

text \<open>The calls that would change the \<^verbatim>\<open>.git\<close> entry of the root, by inode or by name.\<close>

fun touches_git :: "'g kiki_fs \<Rightarrow> fs_call \<Rightarrow> bool" where
  "touches_git fs (CreateFile p n x) \<longleftrightarrow> is_git_file p n"
| "touches_git fs (Mkdir p n) \<longleftrightarrow> is_git_file p n"
| "touches_git fs (MkSymlink p n t) \<longleftrightarrow> is_git_file p n"
| "touches_git fs (Write i off d) \<longleftrightarrow> i = git_file fs"
| "touches_git fs (Setattr i sz x) \<longleftrightarrow> i = git_file fs"
| "touches_git fs (Remove p n) \<longleftrightarrow> is_git_file p n"
| "touches_git fs (Rename p n np nn) \<longleftrightarrow> is_git_file p n \<or> is_git_file np nn"
| "touches_git fs _ \<longleftrightarrow> False"

lemma child_exists_git: "is_git_file p n \<Longrightarrow> child_exists p n fs = (Ok True, fs)"
  by (simp add: child_exists_def reads_seq ret_def)

lemma git_not_jj: "is_git_file p n \<Longrightarrow> \<not> is_jj_root p n"
  by (auto simp: is_git_file_def is_jj_root_def name_consts)

text \<open>
  C10: The synthesized \<^verbatim>\<open>.git\<close> file cannot be written, truncated, replaced, renamed or removed: every such
  call fails and leaves the whole state as it was. Reading it gives the content fixed when the mount
  was made.
\<close>

theorem git_file_protected:
  assumes "fs_inv rt fs"
  shows "(touches_git fs c \<longrightarrow> (\<exists>e. fs_exec c fs = (Err e, fs))) \<and>
    fs_lookup ROOT_INODE GIT_FILE fs = (Ok (git_file fs), fs) \<and>
    fs_read (git_file fs) off cnt fs = (Ok (slice_read (git_file_content fs) off cnt), fs)"
proof (intro conjI impI)
  assume t: "touches_git fs c"
  show "\<exists>e. fs_exec c fs = (Err e, fs)"
  proof (cases c)
    case (Mkdir p n)
    then show ?thesis using t git_not_jj child_exists_git [of p n fs]
      by (simp add: reply_def fs_mkdir_def seq_apply throw_def)
  qed (use t child_exists_git [of _ _ fs] in \<open>auto simp: reply_def fs_create_file_def fs_symlink_def fs_write_def
      fs_setattr_def fs_remove_def fs_rename_def seq_apply reads_def throw_def\<close>)
next
  show "fs_lookup ROOT_INODE GIT_FILE fs = (Ok (git_file fs), fs)"
    by (simp add: fs_lookup_def is_git_file_def reads_def)
  have "local_file (git_file fs) (git_file_content fs) fs"
    using assms by (auto simp: fs_inv_def slab_ok_def pinned_ok_def local_file_def)
  then show "fs_read (git_file fs) off cnt fs = (Ok (slice_read (git_file_content fs) off cnt), fs)"
    by (rule local_file_read)
qed

theorem git_file_protected_witness:
  "(\<exists>e. fs_exec (Write 2 0 ''x'') ex_dirty = (Err e, ex_dirty)) \<and>
   fs_read 2 0 99 ex_dirty = (Ok (slice_read (git_file_content ex_dirty) 0 99), ex_dirty)"
proof -
  have "git_file ex_dirty = 2" by code_simp
  then show ?thesis using git_file_protected [OF ex_dirty_inv, of "Write 2 0 ''x''"] by simp
qed

section \<open>Check-out\<close>

lemma read_tree_result:
  assumes "fs_inv rt fs" and "read_tree oid fs = (r, fs')"
  shows "fs' = fs\<lparr>store := store fs'\<rparr> \<and> store_extends (store fs) (store fs') \<and> fs_inv rt fs' \<and>
    (\<forall>es. r = Ok es \<longrightarrow> git_read_tree (store fs') oid = Inr (Some es)) \<and> r \<noteq> Panic \<and> r \<noteq> Diverge"
proof (rule read_through_cases [OF assms(2) [unfolded read_tree_def]])
  have laws: "git_laws (glib (store fs))" using assms(1) by (simp add: fs_inv_def)
  show "store_extends (store fs) (snd (fetch_tree rm oid (store fs)))" for rm using fetch_extends(3) [OF laws] .
  show "git_read_tree st oid = Inr (Some a)" if "fetch_tree rm oid (store fs) = (Inr a, st)" for rm a st
    using fetch_tree_spec [OF laws that] .
  fix st assume st: "fs' = fs\<lparr>store := st\<rparr>" "store_extends (store fs) st" "\<And>a. r = Ok a \<Longrightarrow> git_read_tree st oid = Inr (Some a)"
      "r \<noteq> Panic" "r \<noteq> Diverge"
  then show ?thesis using quiet_store(1) [OF assms(1) st(2)] by simp
qed

lemma lookup_tree:
  assumes "inodes (fs_slab fs) p = Some k" and "node k = Tree oid" and "git_read_tree (store fs) oid = Inr (Some es)"
    and "\<not> pinned_name fs p n"
  shows "fs_lookup p n fs = (case List.find (\<lambda>e. ename e = n) es of
      None \<Rightarrow> (Err NotFound, fs)
    | Some e \<Rightarrow> (case entry_to_node e of None \<Rightarrow> (Panic, fs) | Some nd \<Rightarrow> on_slab (intern_child p n nd) fs))"
proof -
  have "seq (read_tree oid) f fs = f es fs" for f :: "_ \<Rightarrow> ('a, inode_id) fs_op"
    using assms(3) by (simp add: read_tree_def read_through_def seq_apply)
  then show ?thesis
    using assms by (auto simp: pinned_name_def fs_lookup_def reads_seq get_inode_seq throw_def panic_def split: option.split)
qed

text \<open>
  C8: A check-out that succeeds makes the root show exactly the new tree: a name of the tree resolves
  to a fresh inode with that entry's node, any other name is not found; \<^verbatim>\<open>.git\<close> and a pinned \<^verbatim>\<open>.jj\<close>
  answer as before, and no other inode changes. A check-out that fails leaves the mount as it was,
  apart from objects added to the store.
\<close>

theorem check_out_shows_tree:
  assumes inv: "fs_inv rt fs" and run: "fs_check_out t mt fs = (r, fs')"
  shows "case r of
     Ok _ \<Rightarrow> \<exists>es. git_read_tree (store fs') t = Inr (Some es) \<and>
       (\<forall>n. \<not> pinned_name fs ROOT_INODE n \<longrightarrow>
         (case List.find (\<lambda>e. ename e = n) es of
            None \<Rightarrow> fs_lookup ROOT_INODE n fs' = (Err NotFound, fs')
          | Some e \<Rightarrow> \<exists>i k fs2. fs_lookup ROOT_INODE n fs' = (Ok i, fs2) \<and> inodes (fs_slab fs) i = None \<and>
              inodes (fs_slab fs2) i = Some k \<and> entry_to_node e = Some (node k))) \<and>
       (\<forall>n. pinned_name fs ROOT_INODE n \<longrightarrow> fst (fs_lookup ROOT_INODE n fs') = fst (fs_lookup ROOT_INODE n fs)) \<and>
       (\<forall>i. i \<noteq> ROOT_INODE \<longrightarrow> inodes (fs_slab fs') i = inodes (fs_slab fs) i)
   | Err _ \<Rightarrow> fs' = fs\<lparr>store := store fs'\<rparr> \<and> store_extends (store fs) (store fs')
   | _ \<Rightarrow> False"
proof -
  obtain x fs1 where x: "read_tree t fs = (x, fs1)" by fastforce
  note rt = read_tree_result [OF inv x]
  show ?thesis
  proof (cases x)
    case (Ok es)
    define fs2 where "fs2 = fs1\<lparr>fs_slab := swap_root t (fs_slab fs1), commit_mtime := (if mt \<noteq> 0 then mt else commit_mtime fs1),
       ignore_rules := load_gitignore_from_store (gitignore_chain fs1) (store fs1) t,
       redirections := load_redirections_from_store (store fs1) t\<rparr>"
    have r: "r = Ok ()" "fs' = fs2" using run x Ok by (auto simp: fs_check_out_def seq_apply modifies_def fs2_def)
    have es: "git_read_tree (store fs') t = Inr (Some es)" using rt Ok r by (simp add: fs2_def)
    have f1: "fs1 = fs\<lparr>store := store fs1\<rparr>" using rt by blast
    have sl: "fs_slab fs1 = fs_slab fs" "jj_subtree fs1 = jj_subtree fs" "git_file fs1 = git_file fs"
      by (subst f1, simp)+
    then have slab: "fs_slab fs' = swap_root t (fs_slab fs)" "jj_subtree fs' = jj_subtree fs" "git_file fs' = git_file fs"
      using r by (simp_all add: fs2_def)
    have laws: "git_laws (glib (store fs'))" using rt r by (simp add: fs2_def fs_inv_def)
    have root: "inodes (fs_slab fs') ROOT_INODE = Some \<lparr>parent = ROOT_INODE, iname = [], node = Tree t, ignored = False\<rparr>"
      using slab by (simp add: swap_root_def)
    have sinv: "slab_inv (fs_slab fs)" using inv by (simp add: fs_inv_def slab_ok_def)
    have "case List.find (\<lambda>e. ename e = n) es of
            None \<Rightarrow> fs_lookup ROOT_INODE n fs' = (Err NotFound, fs')
          | Some e \<Rightarrow> \<exists>i k fs2. fs_lookup ROOT_INODE n fs' = (Ok i, fs2) \<and> inodes (fs_slab fs) i = None \<and>
              inodes (fs_slab fs2) i = Some k \<and> entry_to_node e = Some (node k)"
      if np: "\<not> pinned_name fs ROOT_INODE n" for n
    proof (cases "List.find (\<lambda>e. ename e = n) es")
      case None
      then show ?thesis using lookup_tree [OF root _ es, of n] np slab by (simp add: pinned_name_def)
    next
      case (Some e)
      then have "e \<in> set es" by (auto simp: find_Some_iff)
      then have len: "length (eid e) = 20" using git_read_tree_ids [OF laws es] by blast
      then obtain nd where nd: "entry_to_node e = Some nd" by (auto simp: entry_to_node_def)
      have "intern_child ROOT_INODE n nd (fs_slab fs') = (next_id (fs_slab fs), snd (intern_child ROOT_INODE n nd (fs_slab fs')))"
        "inodes (snd (intern_child ROOT_INODE n nd (fs_slab fs'))) (next_id (fs_slab fs)) =
           Some \<lparr>parent = ROOT_INODE, iname = n, node = nd, ignored = False\<rparr>"
        using slab by (simp_all add: intern_child_def swap_root_def Let_def)
      then show ?thesis using lookup_tree [OF root _ es, of n] np slab Some nd slab_inv_next_fresh [OF sinv]
        by (auto simp: pinned_name_def on_slab_def split: prod.splits)
    qed
    moreover have "fst (fs_lookup ROOT_INODE n fs') = fst (fs_lookup ROOT_INODE n fs)" if "pinned_name fs ROOT_INODE n" for n
      using that slab by (auto simp: pinned_name_def fs_lookup_def reads_def seq_apply ret_def)
    moreover have "i \<noteq> ROOT_INODE \<Longrightarrow> inodes (fs_slab fs') i = inodes (fs_slab fs) i" for i
      using slab by (simp add: swap_root_def)
    ultimately show ?thesis using es r by simp
  next
    case (Err e)
    then show ?thesis using run x rt by (auto simp: fs_check_out_def seq_apply)
  qed (use rt in auto)
qed

theorem check_out_shows_tree_witness:
  "\<exists>es. git_read_tree (store (snd (fs_check_out (mem_id 2) 7 (snd (fs_snapshot ex_dirty))))) (mem_id 2) = Inr (Some es)"
proof -
  have inv: "fs_inv False (snd (fs_snapshot ex_dirty))"
    using evo_snapshot [OF ex_dirty_inv prod.collapse [symmetric]] by (simp add: evo_inv_def)
  have "fst (fs_check_out (mem_id 2) 7 (snd (fs_snapshot ex_dirty))) = Ok ()" by code_simp
  then have "fs_check_out (mem_id 2) 7 (snd (fs_snapshot ex_dirty)) =
      (Ok (), snd (fs_check_out (mem_id 2) 7 (snd (fs_snapshot ex_dirty))))" by (metis prod.collapse)
  from check_out_shows_tree [OF inv this] show ?thesis by auto
qed

end
