(* ===== verification/Kiki_Edges.thy ===== *)
theory Kiki_Edges
  imports Kiki_Moves
begin

text \<open>
  Behaviours of \<^verbatim>\<open>src/daemon/src/vfs/kiki_fs.rs\<close> at the edges of its contract:
  what a snapshot does to ignored entries, and what a rename of a directory below itself does.
\<close>

section \<open>Ignored entries\<close>

lemma snapshot_root_clean:
  assumes inv: "fs_inv rt fs" and run: "fs_snapshot fs = (Ok oid, fs')"
  shows "\<exists>k. inodes (fs_slab fs') ROOT_INODE = Some k \<and> node k = Tree oid"
proof -
  have pins: "ROOT_INODE \<noteq> git_file fs" "jj_subtree fs = Some j \<Longrightarrow> j \<noteq> git_file fs" for j
    using inv by (auto simp: fs_inv_def slab_ok_def pinned_ok_def)
  obtain fs1 where fs1: "snapshot_node (fs_fuel fs) ROOT_INODE fs = (Ok oid, fs1)"
      "case jj_subtree fs1 of Some j \<Rightarrow> snd (snapshot_node (fs_fuel fs1) j fs1) = fs' | None \<Rightarrow> fs1 = fs'"
    using run by (auto simp: fs_snapshot_def seq_apply reads_def ret_def split: outcome.splits prod.splits option.splits)
  from snapshot_node_spec [OF snap_inv_refl [OF inv] pins(1) fs1(1)] obtain t k where
      s1: "snap_inv rt fs fs1" and t: "overlay (fs_slab fs) ROOT_INODE t"
      and k: "inodes (fs_slab fs1) ROOT_INODE = Some k" "node k = clean_node (otree_kind t) oid"
    by (auto simp: snap_post_def)
  have inv1: "fs_inv rt fs1" using s1 by (simp add: snap_inv_def evo_inv_def)
  have dir: "node k = Tree oid"
    using k slab_inv_root [of "fs_slab fs1"] inv1 by (cases "otree_kind t") (auto simp: fs_inv_def slab_ok_def)
  show ?thesis
  proof (cases "jj_subtree fs1")
    case (Some j)
    then have "j \<noteq> git_file fs1" using inv1 by (auto simp: fs_inv_def slab_ok_def pinned_ok_def)
    then have "snap_inv rt fs1 fs'"
      using snapshot_node_spec [OF snap_inv_refl [OF inv1] _ prod.collapse [symmetric]] fs1(2) Some
      by (fastforce simp: snap_post_def)
    then have "snapped (fs_slab fs1) fs' ROOT_INODE" by (simp add: snap_inv_def)
    then show ?thesis using k(1) dir by (auto simp: snapped_def)
  qed (use fs1(2) k dir in auto)
qed

text \<open>What a directory that the snapshot stored answers: the entries the stored tree has, under their old ids.\<close>

lemma stored_dir_tree:
  assumes sn: "snapped (fs_slab fs) fs' p" and k: "inodes (fs_slab fs) p = Some k" "node k = DirtyTree cs"
    and k': "inodes (fs_slab fs') p = Some k'" "node k' = Tree oid"
  shows "\<exists>es. git_read_tree (store fs') oid = Inr (Some es) \<and>
    ename ` set es = fst ` set (filter (included (fs_slab fs) p) cs)"
proof -
  obtain t where t: "overlay (fs_slab fs) p t" "persists (store fs') oid t"
    using sn k k' by (fastforce simp: snapped_def elim: clean_node.elims)
  from t(1) obtain ts where ts: "t = ODir ts"
      "list_all2 (\<lambda>e t. fst t = fst e \<and> overlay (fs_slab fs) (snd e) (snd t)) (filter (included (fs_slab fs) p) cs) ts"
    using k by (cases rule: overlay.cases) auto
  from t(2) [unfolded ts(1) persists_ODir] obtain es' es where es: "git_read_tree (store fs') oid = Inr (Some es')"
      "mset es' = mset es" "list_all2 (\<lambda>e t. ename e = fst t \<and> ekind e = otree_kind (snd t) \<and> persists (store fs') (eid e) (snd t)) es ts"
    by blast
  have "map ename es = map fst ts" using es(3) by (induction rule: list_all2_induct) auto
  moreover have "map fst ts = map fst (filter (included (fs_slab fs) p) cs)"
    using ts(2) by (induction rule: list_all2_induct) auto
  ultimately have "ename ` set es = fst ` set (filter (included (fs_slab fs) p) cs)" by (metis set_map)
  then show ?thesis using es(1) mset_eq_setD [OF es(2)] by auto
qed

definition stored_dir :: "inode_id \<Rightarrow> 'g kiki_fs \<Rightarrow> bool" where
  "stored_dir p fs \<longleftrightarrow> (\<exists>k oid. inodes (fs_slab fs) p = Some k \<and> node k = Tree oid)"

lemma stored_dir_lookup:
  assumes inv: "fs_inv rt fs" and s: "snap_inv rt fs fs'" and l: "lists p n c (fs_slab fs)" and d: "stored_dir p fs'"
    and pin: "\<not> pinned_name fs p n"
  shows "fs_lookup p n fs' = (if included (fs_slab fs) p (n, c) then Ok c else Err NotFound, fs')"
proof -
  obtain k cs where k: "inodes (fs_slab fs) p = Some k" "node k = DirtyTree cs" "map_of cs n = Some c"
    using l by (auto simp: lists_def)
  obtain k' oid where k': "inodes (fs_slab fs') p = Some k'" "node k' = Tree oid" using d by (auto simp: stored_dir_def)
  have "snapped (fs_slab fs) fs' p" using s by (simp add: snap_inv_def)
  from stored_dir_tree [OF this k(1,2) k'] obtain es where es: "git_read_tree (store fs') oid = Inr (Some es)"
      "ename ` set es = fst ` set (filter (included (fs_slab fs) p) cs)"
    by blast
  have slab: "slab_inv (fs_slab fs)" using inv by (simp add: fs_inv_def slab_ok_def)
  have byp: "by_parent (fs_slab fs') (p, n) = Some c"
    using slab_inv_kids [OF slab k(1,2)] k(3) s by (auto simp: snap_inv_def)
  have "git_laws (glib (store fs'))" using s by (simp add: snap_inv_def evo_inv_def fs_inv_def)
  then have ids: "\<forall>e \<in> set es. length (eid e) = 20" using git_read_tree_ids es(1) by blast
  have "distinct (map fst cs)" using slab_inv_kids [OF slab k(1,2)] bt_wf_distinct by blast
  then have uniq: "(n, c') \<in> set cs \<Longrightarrow> c' = c" for c' using k(3) by (auto dest: map_of_is_SomeI)
  have "n \<in> ename ` set es \<longleftrightarrow> included (fs_slab fs) p (n, c)"
  proof -
    have "n \<in> ename ` set es \<longleftrightarrow> (\<exists>c'. (n, c') \<in> set cs \<and> included (fs_slab fs) p (n, c'))"
      unfolding es(2) by (auto simp: image_iff)
    then show ?thesis using uniq map_of_SomeD [OF k(3)] by blast
  qed
  note here = this
  have "\<not> pinned_name fs' p n" using pin s by (simp add: pinned_name_def snap_inv_def)
  note look = lookup_tree [OF k' es(1) this]
  show ?thesis
  proof (cases "List.find (\<lambda>e. ename e = n) es")
    case None
    then have "n \<notin> ename ` set es" by (auto simp: find_None_iff)
    then show ?thesis using look None here by simp
  next
    case (Some e)
    then have "ename e = n" "e \<in> set es" by (auto simp: find_Some_iff)
    then show ?thesis using look Some here ids byp by (auto simp: entry_to_node_def on_slab_def intern_child_def)
  qed
qed

text \<open>
  C39: A snapshot makes ignored entries unreachable by name. Let a modified directory list an entry that
  matched the ignore rules when it was created, and let a snapshot store that directory (it always stores
  the root). Before the snapshot the name leads to the entry's inode; afterwards it is not found,
  although nobody removed it, while every other entry of the directory that is not ignored still leads to the
  inode it had, and the lost inode, and so a handle that is still open, keeps its content.
\<close>

theorem ignored_entry_lost_by_snapshot:
  assumes "fs_inv rt fs" and "lists p n c (fs_slab fs)" and "inodes (fs_slab fs) c = Some k" and "ignored k"
    and "\<not> pinned_name fs p n" and "fs_snapshot fs = (Ok oid, fs')" and "p = ROOT_INODE \<or> stored_dir p fs'"
  shows "fs_lookup p n fs = (Ok c, fs) \<and> fs_lookup p n fs' = (Err NotFound, fs') \<and>
    (\<forall>m d j. lists p m d (fs_slab fs) \<longrightarrow> inodes (fs_slab fs) d = Some j \<longrightarrow> \<not> ignored j \<longrightarrow>
       \<not> (p = ROOT_INODE \<and> m \<in> {JJ_DIR, GIT_FILE}) \<longrightarrow> fs_lookup p m fs' = (Ok d, fs')) \<and>
    (\<forall>b off cnt. local_file c b fs \<longrightarrow> fs_read c off cnt fs' = (Ok (slice_read b off cnt), fs'))"
proof -
  have s: "snap_inv rt fs fs'" using fs_snapshot_post [OF assms(1,6)] by blast
  have d: "stored_dir p fs'" using assms(7) snapshot_root_clean [OF assms(1,6)] by (auto simp: stored_dir_def)
  note found = stored_dir_lookup [OF assms(1) s _ d]
  have "fs_lookup p m fs' = (Ok e, fs')" if "lists p m e (fs_slab fs)" "inodes (fs_slab fs) e = Some j" "\<not> ignored j"
      "\<not> (p = ROOT_INODE \<and> m \<in> {JJ_DIR, GIT_FILE})" for m e j
    using found [OF that(1)] that(2-4) by (auto simp: included_def pinned_name_def is_git_file_def is_jj_root_def)
  moreover have "fs_read c off cnt fs' = (Ok (slice_read b off cnt), fs')" if "local_file c b fs" for b off cnt
    using s snapped_local_file [of fs fs' c b] local_file_read that by (simp add: snap_inv_def)
  ultimately show ?thesis
    using lookup_lists [OF assms(2,5)] found [OF assms(2,5)] assms(3,4) by (auto simp: included_def)
qed

definition ex_ignored :: "mem_db kiki_fs" where
  "ex_ignored = run_calls [CreateFile 1 ''.gitignore'' False, Write 3 0 ''log'', CreateFile 1 ''log'' False, Write 4 0 ''data''] ex_fs"

theorem ignored_entry_lost_by_snapshot_witness:
  "fs_lookup 1 ''log'' ex_ignored = (Ok 4, ex_ignored) \<and>
   fs_lookup 1 ''log'' (snd (fs_snapshot ex_ignored)) = (Err NotFound, snd (fs_snapshot ex_ignored)) \<and>
   fs_lookup 1 ''.gitignore'' (snd (fs_snapshot ex_ignored)) = (Ok 3, snd (fs_snapshot ex_ignored)) \<and>
   fs_read 4 0 9 (snd (fs_snapshot ex_ignored)) = (Ok (''data'', True), snd (fs_snapshot ex_ignored))"
proof -
  have inv: "fs_inv False ex_ignored" unfolding ex_ignored_def by (intro ex_run_inv ex_reach) simp
  have "map_option (\<lambda>k. node k = DirtyTree [(''.gitignore'', 3), (''log'', 4)]) (inodes (fs_slab ex_ignored) ROOT_INODE) = Some True"
    by code_simp
  then have l: "lists ROOT_INODE ''log'' 4 (fs_slab ex_ignored)" "lists ROOT_INODE ''.gitignore'' 3 (fs_slab ex_ignored)"
    by (auto simp: lists_def)
  have "map_option (\<lambda>k. node k = DirtyFile ''data'' False \<and> ignored k) (inodes (fs_slab ex_ignored) 4) = Some True"
      "map_option ignored (inodes (fs_slab ex_ignored) 3) = Some False"
    by code_simp+
  then obtain k j where k: "inodes (fs_slab ex_ignored) 4 = Some k" "node k = DirtyFile ''data'' False" "ignored k"
    and j: "inodes (fs_slab ex_ignored) 3 = Some j" "\<not> ignored j" by auto
  have "map_option (\<lambda>_. ()) (case fst (fs_snapshot ex_ignored) of Ok x \<Rightarrow> Some x | _ \<Rightarrow> None) = Some ()" by code_simp
  then obtain oid where run: "fs_snapshot ex_ignored = (Ok oid, snd (fs_snapshot ex_ignored))"
    by (cases "fs_snapshot ex_ignored") (auto split: outcome.splits)
  have pin: "\<not> pinned_name ex_ignored ROOT_INODE ''log''" by (simp add: pinned_name_def is_git_file_def is_jj_root_def JJ_DIR_def GIT_FILE_def)
  note lost = ignored_entry_lost_by_snapshot [OF inv l(1) k(1,3) pin run]
  have "local_file 4 ''data'' ex_ignored" using k by (auto simp: local_file_def)
  moreover have "slice_read ''data'' 0 9 = (''data'', True)" by code_simp
  moreover have "\<not> (ROOT_INODE = ROOT_INODE \<and> ''.gitignore'' \<in> {JJ_DIR, GIT_FILE})" by (simp add: JJ_DIR_def GIT_FILE_def)
  ultimately show ?thesis using lost l(2) j unfolding ROOT_INODE_def by metis
qed

section \<open>A directory below itself\<close>

definition ex_cycle :: "mem_db kiki_fs" where
  "ex_cycle = run_calls [Mkdir 1 ''a'', Mkdir 3 ''b'', Rename 1 ''a'' 4 ''c''] ex_fs"

lemma ex_cycle_pointers:
  "map_option (\<lambda>k. (parent k, iname k)) (inodes (fs_slab ex_cycle) 3) = Some (4, ''c'') \<and>
   map_option (\<lambda>k. (parent k, iname k)) (inodes (fs_slab ex_cycle) 4) = Some (3, ''b'')"
  by code_simp

lemma ex_cycle_walk: "i \<in> {3, 4} \<Longrightarrow> repo_path_loop fuel (fs_slab ex_cycle) i cs = None"
proof (induction fuel arbitrary: i cs)
  case (Suc fuel)
  have "\<exists>k. inodes (fs_slab ex_cycle) i = Some k \<and> parent k \<noteq> i \<and> parent k \<in> {3, 4}"
    using Suc.prems ex_cycle_pointers by auto
  then show ?case using Suc by (auto simp: slab_get_def ROOT_INODE_def)
qed simp

text \<open>
  C40: A rename of a directory to a place below itself is accepted. The directory and its descendants then
  point at each other, the walk that computes a path ends with no number of steps, and the next
  call that creates an entry there does not return.
\<close>

theorem rename_below_itself_loops:
  "fst (fs_exec (Rename 1 ''a'' 4 ''c'') (run_calls [Mkdir 1 ''a'', Mkdir 3 ''b''] ex_fs)) = Ok RUnit \<and>
   repo_path_loop fuel (fs_slab ex_cycle) 3 cs = None \<and>
   fst (fs_exec (CreateFile 3 ''x'' False) ex_cycle) = Diverge"
proof (intro conjI)
  show "fst (fs_exec (Rename 1 ''a'' 4 ''c'') (run_calls [Mkdir 1 ''a'', Mkdir 3 ''b''] ex_fs)) = Ok RUnit" by code_simp
  show "repo_path_loop fuel (fs_slab ex_cycle) 3 cs = None" by (rule ex_cycle_walk) simp
  show "fst (fs_exec (CreateFile 3 ''x'' False) ex_cycle) = Diverge" by code_simp
qed

end
