(* ===== verification/Host_Fs.thy ===== *)
theory Host_Fs
  imports Rust_Std "HOL-Library.Word"
begin

text \<open>
  The part of \<^verbatim>\<open>std::fs\<close> and \<^verbatim>\<open>std::path\<close> that the sources use for files they own on the host: whole-file
  reads, create + write + sync, rename, removal, directory creation and listing. A file is a path with
  its bytes; a rename replaces its target in one step. Every call can fail: \<open>h_fault\<close> says which do, so
  a theorem that holds for every \<open>host\<close> holds for every pattern of failures. A write that fails leaves an
  empty file behind, the worst a caller can find.
\<close>

section \<open>Computations that may fail\<close>

type_synonym ('s, 'e, 'a) io = "'s \<Rightarrow> ('e + 'a) \<times> 's"

definition io_seq :: "('s, 'e, 'a) io \<Rightarrow> ('a \<Rightarrow> ('s, 'e, 'b) io) \<Rightarrow> ('s, 'e, 'b) io" where
  "io_seq m f = (\<lambda>s. case m s of (Inl e, s') \<Rightarrow> (Inl e, s') | (Inr a, s') \<Rightarrow> f a s')"

definition io_ret :: "'a \<Rightarrow> ('s, 'e, 'a) io" where
  "io_ret a = (\<lambda>s. (Inr a, s))"

definition io_err :: "'e \<Rightarrow> ('s, 'e, 'a) io" where
  "io_err e = (\<lambda>s. (Inl e, s))"

text \<open>\<^verbatim>\<open>with_context\<close> and \<^verbatim>\<open>map_err\<close>; and a call whose result is matched on.\<close>

definition io_context :: "('e \<Rightarrow> 'f) \<Rightarrow> ('s, 'e, 'a) io \<Rightarrow> ('s, 'f, 'a) io" where
  "io_context c m = (\<lambda>s. case m s of (Inl e, s') \<Rightarrow> (Inl (c e), s') | (Inr a, s') \<Rightarrow> (Inr a, s'))"

definition io_try :: "('s, 'e, 'a) io \<Rightarrow> ('s, 'f, 'e + 'a) io" where
  "io_try m = (\<lambda>s. case m s of (r, s') \<Rightarrow> (Inr r, s'))"

lemmas io_defs = io_seq_def io_ret_def io_err_def io_context_def io_try_def

lemma io_seq_Inr_E:
  assumes "io_seq m f s = (Inr b, s')"
  obtains a t where "m s = (Inr a, t)" and "f a t = (Inr b, s')"
  using assms by (auto simp: io_seq_def split: prod.splits sum.splits)

section \<open>Paths\<close>

text \<open>A name that is one component of a path.\<close>

definition component :: "string \<Rightarrow> bool" where
  "component n \<longleftrightarrow> n \<noteq> [] \<and> CHR ''/'' \<notin> set n"

lemma component_not_abs: "component n \<Longrightarrow> \<not> starts_with ''/'' n"
  by (cases n) (auto simp: component_def starts_with_iff)

lemma last_path_join: "component n \<Longrightarrow> last (path_join base n) \<noteq> CHR ''/'' \<and> path_join base n \<noteq> []"
proof -
  assume n: "component n"
  then have "n \<noteq> []" "last n \<noteq> CHR ''/''" using last_in_set unfolding component_def by metis+
  then show ?thesis using component_not_abs [OF n] by (simp add: path_join_def)
qed

lemma path_join_inject:
  assumes "component a" and "component b"
  shows "path_join base a = path_join base b \<longleftrightarrow> a = b"
  using assms by (simp add: path_join_def component_not_abs)

lemma slash_split_unique:
  assumes "xs @ CHR ''/'' # n = ys @ CHR ''/'' # m" and "CHR ''/'' \<notin> set n" and "CHR ''/'' \<notin> set m"
  shows "xs = ys \<and> n = m"
proof -
  have r: "rev n @ CHR ''/'' # rev xs = rev m @ CHR ''/'' # rev ys"
    using arg_cong [OF assms(1), of rev] by simp
  have t: "takeWhile (\<lambda>c. c \<noteq> CHR ''/'') (rev k @ CHR ''/'' # z) = rev k" if "CHR ''/'' \<notin> set k" for k z
    using that by (subst takeWhile_append2) auto
  have "rev n = rev m" using arg_cong [OF r, of "takeWhile (\<lambda>c. c \<noteq> CHR ''/'')"] by (simp only: t [OF assms(2)] t [OF assms(3)])
  then show ?thesis using r by simp
qed

text \<open>Different directories have no file in common.\<close>

lemma path_join_dirs:
  assumes "component a" and "component b" and "component p" and "component q"
    and "path_join (path_join base p) a = path_join (path_join base q) b"
  shows "p = q \<and> a = b"
proof -
  have j: "path_join (path_join base x) n = path_join base x @ ''/'' @ n" if "component x" "component n" for x n
    using last_path_join [OF that(1), of base] component_not_abs [OF that(2)] by (simp add: path_join_def)
  have "path_join base p = path_join base q \<and> a = b"
    using assms(5) unfolding j [OF assms(3,1)] j [OF assms(4,2)]
    by (intro slash_split_unique) (use assms(1,2) in \<open>auto simp: component_def\<close>)
  then show ?thesis using path_join_inject [OF assms(3,4)] by simp
qed

section \<open>The host\<close>

datatype io_error = IoNotFound | IoOther

datatype io_call = IoRead | IoStat | IoMkdir | IoCreate | IoWrite | IoSync | IoRename | IoRemove | IoReadDir | IoOpen | IoFlock

record host =
  h_files :: "(string, bytes) btree"
  h_dirs :: "string list"
  h_nfs :: "string \<Rightarrow> bool"
  h_fault :: "io_call \<Rightarrow> string \<Rightarrow> bool"
  h_rand :: "nat \<Rightarrow> 64 word"
  h_draws :: nat

definition host_ok :: "host \<Rightarrow> bool" where
  "host_ok h \<longleftrightarrow> bt_wf (h_files h)"

definition no_fault :: "host \<Rightarrow> bool" where
  "no_fault h \<longleftrightarrow> h_fault h = (\<lambda>_ _. False)"

type_synonym 'a host_io = "(host, io_error, 'a) io"

definition file_at :: "host \<Rightarrow> string \<Rightarrow> bytes option" where
  "file_at h p = map_of (h_files h) p"

definition put_file :: "string \<Rightarrow> bytes \<Rightarrow> host \<Rightarrow> host" where
  "put_file p b h = h\<lparr>h_files := bt_insert p b (h_files h)\<rparr>"

definition drop_file :: "string \<Rightarrow> host \<Rightarrow> host" where
  "drop_file p h = h\<lparr>h_files := bt_remove p (h_files h)\<rparr>"

definition fault_or :: "io_call \<Rightarrow> string \<Rightarrow> 'a host_io \<Rightarrow> 'a host_io" where
  "fault_or c p m = (\<lambda>h. if h_fault h c p then (Inl IoOther, h) else m h)"

definition host_read :: "string \<Rightarrow> bytes host_io" where
  "host_read p = fault_or IoRead p (\<lambda>h. case file_at h p of None \<Rightarrow> (Inl IoNotFound, h) | Some b \<Rightarrow> (Inr b, h))"

definition host_stat :: "string \<Rightarrow> unit host_io" where
  "host_stat p = fault_or IoStat p (\<lambda>h. case file_at h p of None \<Rightarrow> (Inl IoNotFound, h) | Some _ \<Rightarrow> (Inr (), h))"

text \<open>\<^verbatim>\<open>Path::exists\<close> answers false when it cannot find out.\<close>

definition host_exists :: "host \<Rightarrow> string \<Rightarrow> bool" where
  "host_exists h p \<longleftrightarrow> \<not> h_fault h IoStat p \<and> (file_at h p \<noteq> None \<or> p \<in> set (h_dirs h))"

definition host_create_dir_all :: "string \<Rightarrow> unit host_io" where
  "host_create_dir_all p = fault_or IoMkdir p (\<lambda>h. (Inr (), h\<lparr>h_dirs := List.insert p (h_dirs h)\<rparr>))"

text \<open>\<^verbatim>\<open>File::create\<close>, \<^verbatim>\<open>write_all\<close>, \<^verbatim>\<open>sync_all\<close>; opening for append-free writing without truncation.\<close>

definition host_create :: "string \<Rightarrow> unit host_io" where
  "host_create p = fault_or IoCreate p (\<lambda>h. (Inr (), put_file p [] h))"

definition host_write_all :: "string \<Rightarrow> bytes \<Rightarrow> unit host_io" where
  "host_write_all p b = fault_or IoWrite p (\<lambda>h. (Inr (), put_file p b h))"

definition host_sync :: "string \<Rightarrow> unit host_io" where
  "host_sync p = fault_or IoSync p (\<lambda>h. (Inr (), h))"

definition host_open :: "string \<Rightarrow> unit host_io" where
  "host_open p = fault_or IoOpen p (\<lambda>h. (Inr (), if file_at h p = None then put_file p [] h else h))"

definition host_rename :: "string \<Rightarrow> string \<Rightarrow> unit host_io" where
  "host_rename src dst = fault_or IoRename dst (\<lambda>h.
     case file_at h src of None \<Rightarrow> (Inl IoNotFound, h) | Some b \<Rightarrow> (Inr (), put_file dst b (drop_file src h)))"

definition host_remove :: "string \<Rightarrow> unit host_io" where
  "host_remove p = fault_or IoRemove p (\<lambda>h.
     case file_at h p of None \<Rightarrow> (Inl IoNotFound, h) | Some _ \<Rightarrow> (Inr (), drop_file p h))"

text \<open>The names of the files directly below a directory.\<close>

definition host_read_dir :: "string \<Rightarrow> string list host_io" where
  "host_read_dir d = fault_or IoReadDir d (\<lambda>h.
     if d \<notin> set (h_dirs h) then (Inl IoNotFound, h)
     else (Inr [n. (p, _) \<leftarrow> h_files h, n \<leftarrow> (case strip_prefix (path_join d []) p of Some n \<Rightarrow> [n] | None \<Rightarrow> []), component n], h))"

definition host_random :: "host \<Rightarrow> 64 word \<times> host" where
  "host_random h = (h_rand h (h_draws h), h\<lparr>h_draws := Suc (h_draws h)\<rparr>)"

section \<open>Files after a call\<close>

lemma file_at_put [simp]: "host_ok h \<Longrightarrow> file_at (put_file p b h) = (file_at h)(p \<mapsto> b)"
  by (simp add: file_at_def put_file_def host_ok_def fun_eq_iff)

lemma file_at_drop [simp]: "file_at (drop_file p h) = (file_at h)(p := None)"
  by (simp add: file_at_def drop_file_def fun_eq_iff)

lemma host_ok_put [simp]: "host_ok h \<Longrightarrow> host_ok (put_file p b h)"
  by (simp add: put_file_def host_ok_def)

lemma host_ok_drop [simp]: "host_ok h \<Longrightarrow> host_ok (drop_file p h)"
  by (simp add: drop_file_def host_ok_def)

lemma host_ok_more [simp]:
  "host_ok (h\<lparr>h_draws := n\<rparr>) = host_ok h" "host_ok (h\<lparr>h_dirs := ds\<rparr>) = host_ok h"
  "file_at (h\<lparr>h_draws := n\<rparr>) = file_at h" "file_at (h\<lparr>h_dirs := ds\<rparr>) = file_at h"
  by (simp_all add: host_ok_def file_at_def fun_eq_iff)

lemma host_same [simp]:
  "h_fault (put_file p b h) = h_fault h" "h_fault (drop_file p h) = h_fault h"
  "h_dirs (put_file p b h) = h_dirs h" "h_dirs (drop_file p h) = h_dirs h"
  "h_nfs (put_file p b h) = h_nfs h" "h_nfs (drop_file p h) = h_nfs h"
  by (simp_all add: put_file_def drop_file_def)

lemmas host_defs = fault_or_def host_read_def host_stat_def host_create_dir_all_def host_create_def host_write_all_def
  host_sync_def host_open_def host_rename_def host_remove_def

end
