(* ===== verification/Repo_Meta.thy ===== *)
theory Repo_Meta
  imports Host_Fs
begin

unbundle bit_operations_syntax

text \<open>
  \<^verbatim>\<open>src/daemon/src/repo_meta.rs\<close>: the storage layout of managed workspaces, the registry \<^verbatim>\<open>repos.toml\<close> with
  its slot allocator, and the per-workspace \<^verbatim>\<open>workspace.toml\<close>. Serde's derived code is written out as the
  translation between the configuration records and TOML tables; the TOML printer and parser are
  parameters (\<open>toml_lib\<close>) with the law that a printed table parses to the same table.
\<close>

section \<open>Configuration records\<close>

datatype WorkspaceState = Pending | Active

record WorkspaceConfig =
  cfg_state :: WorkspaceState
  cfg_slot :: "32 word"
  cfg_op_id :: bytes
  cfg_workspace_id :: bytes
  cfg_root_tree_id :: bytes
  cfg_commit_mtime_millis :: int

record ReposConfig =
  rc_next_slot :: "32 word"
  rc_repos :: "(string, string) btree"

definition repos_config_default :: ReposConfig where
  "repos_config_default = \<lparr>rc_next_slot = 1, rc_repos = []\<rparr>"

text \<open>\<open>None\<close> is the panic of the \<^verbatim>\<open>expect\<close> after \<^verbatim>\<open>checked_add\<close>.\<close>

definition repos_alloc_slot :: "ReposConfig \<Rightarrow> (32 word \<times> ReposConfig) option" where
  "repos_alloc_slot cfg =
     (let slot = rc_next_slot cfg
      in if slot = - 1 then None else Some (slot, cfg\<lparr>rc_next_slot := slot + 1\<rparr>))"

section \<open>The hexadecimal form of byte strings\<close>

definition hex_bytes_serialize :: "bytes \<Rightarrow> string" where
  "hex_bytes_serialize bs = concat (map hex_byte bs)"

definition decode_nibble :: "byte \<Rightarrow> nat option" where
  "decode_nibble b =
     (if byte_in 48 57 b then Some (byte_val b - 48)
      else if byte_in 97 102 b then Some (byte_val b - 97 + 10)
      else if byte_in 65 70 b then Some (byte_val b - 65 + 10)
      else None)"

fun hex_pairs :: "string \<Rightarrow> bytes option" where
  "hex_pairs [] = Some []"
| "hex_pairs [_] = None"
| "hex_pairs (a # b # s) =
     (case decode_nibble a of
        None \<Rightarrow> None
      | Some hi \<Rightarrow>
          (case decode_nibble b of
             None \<Rightarrow> None
           | Some lo \<Rightarrow> map_option (Cons (char_of (hi * 16 + lo))) (hex_pairs s)))"

definition hex_bytes_deserialize :: "string \<Rightarrow> string + bytes" where
  "hex_bytes_deserialize s =
     (if s = [] then Inr []
      else if length s mod 2 \<noteq> 0 then Inl ''hex string length must be even''
      else case hex_pairs s of None \<Rightarrow> Inl ''invalid hex digit'' | Some bs \<Rightarrow> Inr bs)"

section \<open>TOML\<close>

datatype toml = TStr string | TInt int | TTable "(string \<times> toml) list"

record toml_lib =
  toml_print :: "(string \<times> toml) list \<Rightarrow> string + bytes"
  toml_parse :: "bytes \<Rightarrow> string + (string \<times> toml) list"

definition toml_law :: "toml_lib \<Rightarrow> bool" where
  "toml_law L \<longleftrightarrow> (\<forall>t b. toml_print L t = Inr b \<longrightarrow> utf8_valid b \<and> toml_parse L b = Inr t)"

fun state_str :: "WorkspaceState \<Rightarrow> string" where
  "state_str Pending = ''pending''"
| "state_str Active = ''active''"

definition state_of_str :: "string \<Rightarrow> string + WorkspaceState" where
  "state_of_str s = (if s = ''pending'' then Inr Pending else if s = ''active'' then Inr Active else Inl ''unknown variant'')"

definition workspace_config_to_toml :: "WorkspaceConfig \<Rightarrow> (string \<times> toml) list" where
  "workspace_config_to_toml c =
     [(''state'', TStr (state_str (cfg_state c))),
      (''slot'', TInt (uint (cfg_slot c))),
      (''op_id'', TStr (hex_bytes_serialize (cfg_op_id c))),
      (''workspace_id'', TStr (hex_bytes_serialize (cfg_workspace_id c))),
      (''root_tree_id'', TStr (hex_bytes_serialize (cfg_root_tree_id c))),
      (''commit_mtime_millis'', TInt (cfg_commit_mtime_millis c))]"

text \<open>A required field, a byte field and an integer field with \<^verbatim>\<open>serde(default)\<close>.\<close>

definition u32_field :: "toml \<Rightarrow> string + 32 word" where
  "u32_field v = (case v of TInt i \<Rightarrow> if 0 \<le> i \<and> i < 2 ^ 32 then Inr (word_of_int i) else Inl ''invalid u32'' | _ \<Rightarrow> Inl ''invalid type'')"

definition bytes_field :: "toml option \<Rightarrow> string + bytes" where
  "bytes_field v = (case v of None \<Rightarrow> Inr [] | Some (TStr s) \<Rightarrow> hex_bytes_deserialize s | Some _ \<Rightarrow> Inl ''invalid type'')"

definition int_field :: "toml option \<Rightarrow> string + int" where
  "int_field v = (case v of None \<Rightarrow> Inr 0 | Some (TInt i) \<Rightarrow> Inr i | Some _ \<Rightarrow> Inl ''invalid type'')"

definition sum_bind :: "'e + 'a \<Rightarrow> ('a \<Rightarrow> 'e + 'b) \<Rightarrow> 'e + 'b" where
  "sum_bind r f = (case r of Inl e \<Rightarrow> Inl e | Inr a \<Rightarrow> f a)"

definition workspace_config_of_toml :: "(string \<times> toml) list \<Rightarrow> string + WorkspaceConfig" where
  "workspace_config_of_toml t =
     sum_bind (case map_of t ''state'' of Some (TStr s) \<Rightarrow> state_of_str s | Some _ \<Rightarrow> Inl ''invalid type'' | None \<Rightarrow> Inl ''missing field state'') (\<lambda>st.
     sum_bind (case map_of t ''slot'' of Some v \<Rightarrow> u32_field v | None \<Rightarrow> Inl ''missing field slot'') (\<lambda>sl.
     sum_bind (bytes_field (map_of t ''op_id'')) (\<lambda>op.
     sum_bind (bytes_field (map_of t ''workspace_id'')) (\<lambda>ws.
     sum_bind (bytes_field (map_of t ''root_tree_id'')) (\<lambda>rt.
     sum_bind (int_field (map_of t ''commit_mtime_millis'')) (\<lambda>mt.
     Inr \<lparr>cfg_state = st, cfg_slot = sl, cfg_op_id = op, cfg_workspace_id = ws, cfg_root_tree_id = rt, cfg_commit_mtime_millis = mt\<rparr>))))))"

definition repos_config_to_toml :: "ReposConfig \<Rightarrow> (string \<times> toml) list" where
  "repos_config_to_toml c =
     [(''next_slot'', TInt (uint (rc_next_slot c))),
      (''repos'', TTable (map (\<lambda>(n, url). (n, TTable [(''url'', TStr url)])) (rc_repos c)))]"

fun repo_entries_of_toml :: "(string \<times> toml) list \<Rightarrow> string + (string, string) btree" where
  "repo_entries_of_toml [] = Inr []"
| "repo_entries_of_toml ((n, v) # t) =
     (case v of
        TTable e \<Rightarrow>
          (case map_of e ''url'' of
             Some (TStr url) \<Rightarrow> sum_bind (repo_entries_of_toml t) (\<lambda>r. Inr (bt_insert n url r))
           | _ \<Rightarrow> Inl ''missing field url'')
      | _ \<Rightarrow> Inl ''invalid type'')"

definition repos_config_of_toml :: "(string \<times> toml) list \<Rightarrow> string + ReposConfig" where
  "repos_config_of_toml t =
     sum_bind (case map_of t ''next_slot'' of Some v \<Rightarrow> u32_field v | None \<Rightarrow> Inr 1) (\<lambda>ns.
     sum_bind (case map_of t ''repos'' of Some (TTable rs) \<Rightarrow> repo_entries_of_toml rs | Some _ \<Rightarrow> Inl ''invalid type'' | None \<Rightarrow> Inr []) (\<lambda>rs.
     Inr \<lparr>rc_next_slot = ns, rc_repos = rs\<rparr>))"

section \<open>Paths\<close>

definition repos_config_path :: "string \<Rightarrow> string" where
  "repos_config_path storage = path_join storage ''repos.toml''"

definition repo_dir :: "string \<Rightarrow> string \<Rightarrow> string" where
  "repo_dir storage repo = path_join (path_join storage ''repos'') repo"

definition repo_git_store_path :: "string \<Rightarrow> string \<Rightarrow> string" where
  "repo_git_store_path storage repo = path_join (repo_dir storage repo) ''git_store''"

definition repo_redb_path :: "string \<Rightarrow> string \<Rightarrow> string" where
  "repo_redb_path storage repo = path_join (repo_dir storage repo) ''store.redb''"

definition workspace_dir :: "string \<Rightarrow> string \<Rightarrow> string \<Rightarrow> string" where
  "workspace_dir storage repo ws = path_join (path_join (repo_dir storage repo) ''workspaces'') ws"

definition workspace_config_path :: "string \<Rightarrow> string \<Rightarrow> string \<Rightarrow> string" where
  "workspace_config_path storage repo ws = path_join (workspace_dir storage repo ws) ''workspace.toml''"

definition workspace_worktree_gitdir :: "string \<Rightarrow> string \<Rightarrow> string \<Rightarrow> string" where
  "workspace_worktree_gitdir storage repo ws =
     path_join (path_join (path_join (repo_git_store_path storage repo) ''git'') ''worktrees'') ws"

definition workspace_scratch_dir :: "string \<Rightarrow> string \<Rightarrow> string \<Rightarrow> string" where
  "workspace_scratch_dir storage repo ws = path_join (workspace_dir storage repo ws) ''scratch''"

datatype name_error = NameEmpty | NameDots | NameHidden | NameSeparator

definition validate_name :: "string \<Rightarrow> name_error + unit" where
  "validate_name name =
     (if name = [] then Inl NameEmpty
      else if name = ''.'' \<or> name = ''..'' then Inl NameDots
      else if starts_with ''.'' name then Inl NameHidden
      else if CHR ''/'' \<in> set name \<or> CHR 0x5C \<in> set name then Inl NameSeparator
      else Inr ())"

section \<open>Reading and writing the files\<close>

text \<open>\<^verbatim>\<open>Path::parent\<close>, and \<^verbatim>\<open>Path::with_extension\<close> on the last component.\<close>

definition split_last :: "string \<Rightarrow> string \<times> string" where
  "split_last p = (let n = takeWhile (\<lambda>c. c \<noteq> CHR ''/'') (rev p)
                   in (rev (drop (Suc (length n)) (rev p)), rev n))"

definition path_parent :: "string \<Rightarrow> string" where
  "path_parent p = (if fst (split_last p) = [] \<and> starts_with ''/'' p then ''/'' else fst (split_last p))"

definition file_stem :: "string \<Rightarrow> string" where
  "file_stem n = (let s = dropWhile (\<lambda>c. c \<noteq> CHR ''.'') (rev n)
                  in if length s \<le> 1 then n else rev (tl s))"

definition with_extension :: "string \<Rightarrow> string \<Rightarrow> string" where
  "with_extension p ext =
     take (length p - length (snd (split_last p))) p @ file_stem (snd (split_last p)) @ ''.'' @ ext"

text \<open>The tail shared by both \<^verbatim>\<open>write_to\<close> methods.\<close>

definition write_toml :: "string \<Rightarrow> string \<Rightarrow> string + bytes \<Rightarrow> (host, string, unit) io" where
  "write_toml path label body =
     io_seq (io_context (\<lambda>_. ''creating '' @ path_parent path) (host_create_dir_all (path_parent path))) (\<lambda>_.
     case body of
       Inl e \<Rightarrow> io_err (''serializing '' @ label)
     | Inr b \<Rightarrow>
         let tmp = with_extension path ''toml.tmp''
         in io_seq (io_context (\<lambda>_. ''writing '' @ tmp) (io_seq (host_create tmp) (\<lambda>_. host_write_all tmp b))) (\<lambda>_.
            io_context (\<lambda>_. ''renaming '' @ tmp @ '' -> '' @ path) (host_rename tmp path)))"

definition workspace_write_to :: "toml_lib \<Rightarrow> WorkspaceConfig \<Rightarrow> string \<Rightarrow> (host, string, unit) io" where
  "workspace_write_to L c path = write_toml path ''workspace.toml'' (toml_print L (workspace_config_to_toml c))"

definition repos_write_to :: "toml_lib \<Rightarrow> ReposConfig \<Rightarrow> string \<Rightarrow> (host, string, unit) io" where
  "repos_write_to L c path = write_toml path ''repos.toml'' (toml_print L (repos_config_to_toml c))"

definition read_to_string :: "string \<Rightarrow> (host, string, string) io" where
  "read_to_string path =
     io_seq (io_context (\<lambda>_. ''reading '' @ path) (host_read path)) (\<lambda>b.
     if utf8_valid b then io_ret b else io_err (''reading '' @ path))"

definition workspace_read_from :: "toml_lib \<Rightarrow> string \<Rightarrow> (host, string, WorkspaceConfig) io" where
  "workspace_read_from L path =
     io_seq (read_to_string path) (\<lambda>body.
     case sum_bind (toml_parse L body) workspace_config_of_toml of
       Inl e \<Rightarrow> io_err (''parsing '' @ path)
     | Inr c \<Rightarrow> io_ret c)"

definition repos_read_or_default :: "toml_lib \<Rightarrow> string \<Rightarrow> (host, string, ReposConfig) io" where
  "repos_read_or_default L path = (\<lambda>h.
     if \<not> host_exists h path then (Inr repos_config_default, h)
     else io_seq (read_to_string path) (\<lambda>body.
       case sum_bind (toml_parse L body) repos_config_of_toml of
         Inl e \<Rightarrow> io_err (''parsing '' @ path)
       | Inr c \<Rightarrow> io_ret c) h)"

section \<open>Round trips\<close>

lemma decode_hex_digit: "d < 16 \<Longrightarrow> decode_nibble (hex_digit d) = Some d"
  by (auto simp: decode_nibble_def hex_digit_def byte_in_def byte_val_def)

lemma hex_pairs_byte: "hex_pairs (hex_byte b @ s) = map_option (Cons b) (hex_pairs s)"
proof -
  have lt: "byte_val b < 256" by (rule byte_val_lt)
  have "byte_val b div 16 < 16" using lt by (simp add: less_mult_imp_div_less)
  moreover have "char_of (byte_val b div 16 * 16 + byte_val b mod 16) = b" by (simp add: byte_val_def)
  ultimately show ?thesis by (simp add: hex_byte_def decode_hex_digit)
qed

lemma hex_pairs_serialize: "hex_pairs (hex_bytes_serialize bs) = Some bs"
  by (induction bs) (simp_all add: hex_bytes_serialize_def hex_pairs_byte)

lemma hex_serialize_length: "length (hex_bytes_serialize bs) = 2 * length bs"
  by (induction bs) (simp_all add: hex_bytes_serialize_def hex_byte_def)

lemma hex_bytes_roundtrip: "hex_bytes_deserialize (hex_bytes_serialize bs) = Inr bs"
proof (cases bs)
  case (Cons b r)
  then have "hex_bytes_serialize bs \<noteq> []" using hex_serialize_length [of bs] by auto
  then show ?thesis by (simp add: hex_bytes_deserialize_def hex_serialize_length hex_pairs_serialize)
qed (simp add: hex_bytes_serialize_def hex_bytes_deserialize_def)

lemma state_of_state_str [simp]: "state_of_str (state_str st) = Inr st"
  by (cases st) (simp_all add: state_of_str_def)

lemma u32_field_uint [simp]: "u32_field (TInt (uint w)) = Inr w"
  using uint_lt2p [of w] by (simp add: u32_field_def)

lemma sum_bind_simps [simp]: "sum_bind (Inr a) f = f a" "sum_bind (Inl e) f = Inl e"
  by (simp_all add: sum_bind_def)

lemma workspace_config_toml: "workspace_config_of_toml (workspace_config_to_toml c) = Inr c"
  by (cases c) (simp add: workspace_config_of_toml_def workspace_config_to_toml_def bytes_field_def int_field_def hex_bytes_roundtrip)

lemma repo_entries_toml:
  "bt_wf rs \<Longrightarrow> repo_entries_of_toml (map (\<lambda>(n, url). (n, TTable [(''url'', TStr url)])) rs) = Inr rs"
proof (induction rs)
  case (Cons e rs)
  obtain n url where e: "e = (n, url)" by (cases e)
  have "bt_insert n url rs = (n, url) # rs" using Cons.prems e by (cases rs) auto
  then show ?case using Cons e by simp
qed simp

lemma repos_config_toml: "bt_wf (rc_repos c) \<Longrightarrow> repos_config_of_toml (repos_config_to_toml c) = Inr c"
  by (cases c) (simp add: repos_config_of_toml_def repos_config_to_toml_def repo_entries_toml)

section \<open>Atomic replacement\<close>

lemma with_extension_neq: "last p \<noteq> CHR ''p'' \<Longrightarrow> with_extension p ''toml.tmp'' \<noteq> p"
  by (metis append_is_Nil_conv last.simps last_appendR list.distinct(1) with_extension_def)

text \<open>
  The file at the target changes in one step, when everything has succeeded; a failed write leaves it
  as it was, and no other file but the temporary one is touched either way.
\<close>

lemma write_toml_spec:
  assumes ok: "host_ok h" and neq: "with_extension path ''toml.tmp'' \<noteq> path" and run: "write_toml path l body h = (r, h')"
  shows "host_ok h' \<and> h_fault h' = h_fault h \<and>
    (\<forall>p. p \<noteq> path \<longrightarrow> p \<noteq> with_extension path ''toml.tmp'' \<longrightarrow> file_at h' p = file_at h p) \<and>
    (case r of Inl _ \<Rightarrow> file_at h' path = file_at h path | Inr _ \<Rightarrow> \<exists>b. body = Inr b \<and> file_at h' path = Some b)"
proof -
  define tmp where "tmp = with_extension path ''toml.tmp''"
  have "tmp \<noteq> path" using neq by (simp add: tmp_def)
  then show ?thesis
    using run ok unfolding write_toml_def tmp_def [symmetric]
    by (cases body) (auto simp: io_defs host_defs Let_def split: if_splits option.splits)
qed

lemma write_toml_succeeds:
  assumes "host_ok h" and "no_fault h" and "body = Inr b"
  shows "\<exists>h'. write_toml path l body h = (Inr (), h')"
  using assms by (auto simp: write_toml_def io_defs host_defs no_fault_def Let_def)

section \<open>Names and paths\<close>

lemma validate_name_component: "validate_name n = Inr () \<Longrightarrow> component n"
  by (auto simp: validate_name_def component_def split: if_splits)

lemma const_components [simp]:
  "component ''repos''" "component ''workspaces''" "component ''workspace.toml''" "component ''scratch''" "component ''repos.toml''"
  by (simp_all add: component_def)

lemma join_component: "component x \<Longrightarrow> component n \<Longrightarrow> path_join (path_join base x) n = path_join base x @ ''/'' @ n"
  using last_path_join [of x base] component_not_abs [of n] by (simp add: path_join_def)

lemma join_inject:
  assumes "component a" "component b" "component x" "component y"
    and "path_join (path_join d x) a = path_join (path_join e y) b"
  shows "path_join d x = path_join e y \<and> a = b"
  using assms(5) unfolding join_component [OF assms(3,1)] join_component [OF assms(4,2)]
  by (intro slash_split_unique) (use assms(1,2) in \<open>auto simp: component_def\<close>)

lemma workspace_dir_inject:
  assumes "component r" "component w" "component r'" "component w'"
    and eq: "workspace_dir st r w = workspace_dir st r' w'"
  shows "r = r' \<and> w = w'"
proof -
  have 1: "path_join (repo_dir st r) ''workspaces'' = path_join (repo_dir st r') ''workspaces'' \<and> w = w'"
    using join_inject [OF assms(2,4) const_components(2,2) eq [unfolded workspace_dir_def]] .
  then have "path_join (path_join st ''repos'') r = path_join (path_join st ''repos'') r'"
    using join_inject [of "''workspaces''" "''workspaces''" r r' "path_join st ''repos''" "path_join st ''repos''"] assms(1,3)
    by (simp add: repo_dir_def)
  then show ?thesis using 1 path_join_inject [OF assms(1,3)] by simp
qed

lemma workspace_paths_inject:
  assumes "component r" "component w" "component r'" "component w'"
  shows "workspace_config_path st r w = workspace_config_path st r' w' \<longleftrightarrow> r = r' \<and> w = w'"
    and "workspace_scratch_dir st r w = workspace_scratch_dir st r' w' \<longleftrightarrow> r = r' \<and> w = w'"
proof -
  have "path_join (workspace_dir st r w) n = path_join (workspace_dir st r' w') n \<Longrightarrow> r = r' \<and> w = w'" if "component n" for n
    using join_inject [OF that that assms(2,4)] workspace_dir_inject [OF assms] unfolding workspace_dir_def by blast
  from this [OF const_components(3)] this [OF const_components(4)]
  show "workspace_config_path st r w = workspace_config_path st r' w' \<longleftrightarrow> r = r' \<and> w = w'"
    and "workspace_scratch_dir st r w = workspace_scratch_dir st r' w' \<longleftrightarrow> r = r' \<and> w = w'"
    unfolding workspace_config_path_def workspace_scratch_dir_def by auto
qed

section \<open>What the configuration files promise\<close>

lemma config_path_neq: "with_extension (workspace_config_path st r w) ''toml.tmp'' \<noteq> workspace_config_path st r w"
proof (rule with_extension_neq)
  have "\<exists>d. workspace_config_path st r w = d @ ''workspace.toml''"
    by (auto simp: workspace_config_path_def path_join_def starts_with_iff)
  then show "last (workspace_config_path st r w) \<noteq> CHR ''p''" by auto
qed

lemma read_config_of_file:
  "file_at h p = Some b \<Longrightarrow> \<not> h_fault h IoRead p \<Longrightarrow> utf8_valid b \<Longrightarrow> toml_parse L b = Inr t \<Longrightarrow>
   workspace_config_of_toml t = Inr c \<Longrightarrow> workspace_read_from L p h = (Inr c, h)"
  by (simp add: workspace_read_from_def read_to_string_def io_defs host_defs)

lemma config_write_atomic:
  assumes "toml_law L" and "host_ok h" and "workspace_write_to L c (workspace_config_path st r w) h = (res, h')"
  shows "case res of
      Inr _ \<Rightarrow> \<not> h_fault h' IoRead (workspace_config_path st r w) \<longrightarrow>
        workspace_read_from L (workspace_config_path st r w) h' = (Inr c, h')
    | Inl _ \<Rightarrow> file_at h' (workspace_config_path st r w) = file_at h (workspace_config_path st r w)"
proof (cases res)
  case (Inl e)
  then show ?thesis using write_toml_spec [OF assms(2) config_path_neq assms(3) [unfolded workspace_write_to_def]] by simp
next
  case (Inr u)
  then obtain b where b: "toml_print L (workspace_config_to_toml c) = Inr b"
      "file_at h' (workspace_config_path st r w) = Some b"
    using write_toml_spec [OF assms(2) config_path_neq assms(3) [unfolded workspace_write_to_def]] by auto
  then have "utf8_valid b" "toml_parse L b = Inr (workspace_config_to_toml c)" using assms(1) by (auto simp: toml_law_def)
  then show ?thesis using Inr read_config_of_file [OF b(2) _ _ _ workspace_config_toml] by auto
qed

text \<open>
  C17: Writing \<^verbatim>\<open>workspace.toml\<close> is atomic. When it succeeds, the next read that meets no I/O error returns
  exactly the configuration that was written, byte strings included; when it fails at any point, the
  file holds what it held before.
\<close>

theorem workspace_config_durable:
  assumes "toml_law L" and "host_ok h" and "workspace_write_to L c (workspace_config_path st r w) h = (res, h')"
  shows "case res of
      Inr _ \<Rightarrow> \<not> h_fault h' IoRead (workspace_config_path st r w) \<longrightarrow>
        workspace_read_from L (workspace_config_path st r w) h' = (Inr c, h')
    | Inl _ \<Rightarrow> file_at h' (workspace_config_path st r w) = file_at h (workspace_config_path st r w)"
  using config_write_atomic [OF assms] .

definition ex_config :: WorkspaceConfig where
  "ex_config = \<lparr>cfg_state = Active, cfg_slot = 7, cfg_op_id = [CHR 0xAB], cfg_workspace_id = [], cfg_root_tree_id = [],
     cfg_commit_mtime_millis = -5\<rparr>"

definition ex_toml :: toml_lib where
  "ex_toml = \<lparr>toml_print = (\<lambda>t. if t = workspace_config_to_toml ex_config then Inr ''config'' else Inl ''unsupported''),
     toml_parse = (\<lambda>b. if b = ''config'' then Inr (workspace_config_to_toml ex_config) else Inl ''unsupported'')\<rparr>"

definition ex_host :: host where
  "ex_host = \<lparr>h_files = [], h_dirs = [], h_nfs = (\<lambda>_. False), h_fault = (\<lambda>_ _. False), h_rand = of_nat, h_draws = 0\<rparr>"

lemma ex_toml_law: "toml_law ex_toml"
proof -
  have "utf8_valid ''config''" by code_simp
  then show ?thesis by (auto simp: toml_law_def ex_toml_def)
qed

theorem workspace_config_durable_witness:
  "workspace_read_from ex_toml (workspace_config_path ''/s'' ''r'' ''w'')
     (snd (workspace_write_to ex_toml ex_config (workspace_config_path ''/s'' ''r'' ''w'') ex_host)) =
   (Inr ex_config, snd (workspace_write_to ex_toml ex_config (workspace_config_path ''/s'' ''r'' ''w'') ex_host))"
proof -
  define p where "p = workspace_config_path ''/s'' ''r'' ''w''"
  have ok: "host_ok ex_host" "no_fault ex_host" by (simp_all add: ex_host_def host_ok_def no_fault_def)
  obtain h' where w: "workspace_write_to ex_toml ex_config p ex_host = (Inr (), h')"
    using write_toml_succeeds [OF ok, of _ "''config''" p] unfolding workspace_write_to_def by (auto simp: ex_toml_def)
  have "h_fault h' = h_fault ex_host"
    using write_toml_spec [OF ok(1) config_path_neq] w unfolding workspace_write_to_def p_def by blast
  then have "workspace_read_from ex_toml p h' = (Inr ex_config, h')"
    using workspace_config_durable [OF ex_toml_law ok(1) w [unfolded p_def]] unfolding p_def by (simp add: ex_host_def)
  then show ?thesis using w by (simp add: p_def)
qed

text \<open>
  Repositories and workspaces whose names pass validation never share a configuration file or a scratch
  directory.
\<close>

theorem workspace_paths_disjoint:
  assumes "\<forall>n \<in> {r, w, r', w'}. validate_name n = Inr ()" and "(r, w) \<noteq> (r', w')"
  shows "workspace_config_path st r w \<noteq> workspace_config_path st r' w' \<and>
    workspace_scratch_dir st r w \<noteq> workspace_scratch_dir st r' w'"
  using assms workspace_paths_inject [of r w r' w' st] by (auto simp: validate_name_component)

theorem workspace_paths_disjoint_witness:
  "workspace_config_path ''/s'' ''a'' ''bc'' \<noteq> workspace_config_path ''/s'' ''ab'' ''c''"
  using workspace_paths_disjoint [of "''a''" "''bc''" "''ab''" "''c''" "''/s''"]
  by (simp add: validate_name_def starts_with_iff)

end
