(* ===== verification/Root_Fs.thy ===== *)
theory Root_Fs
  imports Kiki_Trait Repo_Meta
begin

unbundle bit_operations_syntax

text \<open>
  \<^verbatim>\<open>src/daemon/src/vfs/root_fs.rs\<close>: the routing layer that serves every workspace under one mount. A global
  inode is a 64-bit word, the workspace slot in the upper 24 bits and the workspace's own inode below;
  slot 0 holds the synthetic directories (the root and one per repository). Workspaces become live on
  first use.

  A content store is shared by all workspaces of a repository (\<^verbatim>\<open>Arc<GitContentStore>\<close>), so the stores live
  in a heap (\<open>stores\<close>) and repositories and live workspaces hold references into it; an operation on a
  live workspace runs on the shared store and puts it back. Hash maps are ordered association lists:
  the code does not rely on their order. Each operation runs as one step; \<open>insert_live\<close> is the
  insert-if-absent that makes hydration safe against a second thread. The \<^verbatim>\<open>LocalRefs\<close> handle of a live
  workspace is a view of its store's database and the mount path is never read: neither is a field.
\<close>

section \<open>Inode encoding\<close>

type_synonym ginode = "64 word"
type_synonym slot = "32 word"

definition SLOT_BITS :: nat where
  "SLOT_BITS = 40"

definition SLOT_MASK :: ginode where
  "SLOT_MASK = push_bit SLOT_BITS 1 - 1"

definition slot_of :: "ginode \<Rightarrow> slot" where
  "slot_of ino = ucast (drop_bit SLOT_BITS ino)"

definition to_local :: "ginode \<Rightarrow> inode_id" where
  "to_local ino = unat (ino AND SLOT_MASK)"

definition to_global :: "slot \<Rightarrow> inode_id \<Rightarrow> ginode" where
  "to_global s l = push_bit SLOT_BITS (ucast s) OR word_of_nat l"

section \<open>State\<close>

text \<open>Attributes and directory entries that carry a global inode.\<close>

record gattr =
  ga_inode :: ginode
  ga_attr :: Attr

record gentry =
  ge_inode :: ginode
  ge_name :: string
  ge_kind :: FileKind

definition attr_to_global :: "slot \<Rightarrow> Attr \<Rightarrow> gattr" where
  "attr_to_global s a = \<lparr>ga_inode = to_global s (attr_inode a), ga_attr = a\<rparr>"

record synthetic_dir =
  sd_parent :: ginode
  sd_name :: string
  sd_children :: "(string, ginode) btree"

record workspace_entry =
  we_slot :: slot
  we_state :: WorkspaceState
  we_root_tree_id :: bytes
  we_op_id :: bytes
  we_workspace_id :: bytes
  we_commit_mtime_millis :: int

record repo_entry =
  re_url :: string
  re_inode :: ginode
  re_store :: nat
  re_remote :: "get_blob option"
  re_workspaces :: "(string, workspace_entry) btree"

record 'g workspace_live =
  lv_repo_name :: string
  lv_workspace_name :: string
  lv_fs :: "'g kiki_fs"
  lv_store :: nat
  lv_last_exported_head :: bytes
  lv_last_exported_bookmarks :: "(string \<times> bytes) list option"

record 'g root_fs =
  storage_dir :: string
  next_synthetic :: ginode
  synthetic_dirs :: "ginode \<rightharpoonup> synthetic_dir"
  repos :: "(string, repo_entry) btree"
  live :: "slot \<rightharpoonup> 'g workspace_live"
  next_slot :: slot
  boot_time_secs :: int
  stores :: "nat \<rightharpoonup> 'g git_store"
  store_paths :: "nat \<Rightarrow> string"
  worktree_ready :: "string \<Rightarrow> bool"
  root_host :: host
  root_toml :: toml_lib
  root_chain :: "bytes \<Rightarrow> (string \<Rightarrow> bool) option"
  root_mkdirs :: "string \<Rightarrow> string + unit"

type_synonym ('g, 'a) root_op = "('g root_fs, FsError, 'a) comp"

definition GROOT :: ginode where
  "GROOT = 1"

definition root_fs_new ::
  "string \<Rightarrow> slot \<Rightarrow> int \<Rightarrow> (nat \<rightharpoonup> 'g git_store) \<Rightarrow> (nat \<Rightarrow> string) \<Rightarrow> (string \<Rightarrow> bool) \<Rightarrow> host \<Rightarrow> toml_lib \<Rightarrow>
   (bytes \<Rightarrow> (string \<Rightarrow> bool) option) \<Rightarrow> (string \<Rightarrow> string + unit) \<Rightarrow> 'g root_fs" where
  "root_fs_new dir ns now sts paths ready h toml chain mkdirs =
     \<lparr>storage_dir = dir, next_synthetic = GROOT + 1,
      synthetic_dirs = [GROOT \<mapsto> \<lparr>sd_parent = GROOT, sd_name = [], sd_children = []\<rparr>],
      repos = [], live = Map.empty, next_slot = ns, boot_time_secs = now, stores = sts, store_paths = paths,
      worktree_ready = ready, root_host = h, root_toml = toml, root_chain = chain, root_mkdirs = mkdirs\<rparr>"

section \<open>Registration\<close>

definition add_child :: "ginode \<Rightarrow> string \<Rightarrow> ginode \<Rightarrow> 'g root_fs \<Rightarrow> 'g root_fs" where
  "add_child dir name child rf =
     (case synthetic_dirs rf dir of
        Some d \<Rightarrow> rf\<lparr>synthetic_dirs := (synthetic_dirs rf)(dir \<mapsto> d\<lparr>sd_children := bt_insert name child (sd_children d)\<rparr>)\<rparr>
      | None \<Rightarrow> rf)"

definition remove_child :: "ginode \<Rightarrow> string \<Rightarrow> 'g root_fs \<Rightarrow> 'g root_fs" where
  "remove_child dir name rf =
     (case synthetic_dirs rf dir of
        Some d \<Rightarrow> rf\<lparr>synthetic_dirs := (synthetic_dirs rf)(dir \<mapsto> d\<lparr>sd_children := bt_remove name (sd_children d)\<rparr>)\<rparr>
      | None \<Rightarrow> rf)"

definition register_repo :: "string \<Rightarrow> string \<Rightarrow> nat \<Rightarrow> get_blob option \<Rightarrow> 'g root_fs \<Rightarrow> 'g root_fs" where
  "register_repo name url st rem rf =
     (if map_of (repos rf) name \<noteq> None then rf
      else let i = next_synthetic rf;
               rf1 = rf\<lparr>next_synthetic := i + 1,
                        synthetic_dirs := (synthetic_dirs rf)(i \<mapsto> \<lparr>sd_parent = GROOT, sd_name = name, sd_children = []\<rparr>)\<rparr>;
               rf2 = add_child GROOT name i rf1
           in rf2\<lparr>repos := bt_insert name
                    \<lparr>re_url = url, re_inode = i, re_store = st, re_remote = rem, re_workspaces = []\<rparr> (repos rf2)\<rparr>)"

text \<open>
  The workspace named by a repository and a workspace name, and the update of a repository entry.
\<close>

definition get_repo :: "string \<Rightarrow> ('g, repo_entry) root_op" where
  "get_repo repo = fetch_or (\<lambda>rf. map_of (repos rf) repo) NotFound"

definition get_ws :: "string \<Rightarrow> string \<Rightarrow> ('g, workspace_entry) root_op" where
  "get_ws repo ws = seq (get_repo repo) (\<lambda>re. fetch_or (\<lambda>_. map_of (re_workspaces re) ws) NotFound)"

definition update_repo :: "string \<Rightarrow> (repo_entry \<Rightarrow> repo_entry) \<Rightarrow> 'g root_fs \<Rightarrow> 'g root_fs" where
  "update_repo repo f rf =
     (case map_of (repos rf) repo of
        Some re \<Rightarrow> rf\<lparr>repos := bt_insert repo (f re) (repos rf)\<rparr>
      | None \<Rightarrow> rf)"

definition update_ws :: "string \<Rightarrow> string \<Rightarrow> (workspace_entry \<Rightarrow> workspace_entry) \<Rightarrow> 'g root_fs \<Rightarrow> 'g root_fs" where
  "update_ws repo ws f =
     update_repo repo (\<lambda>re. case map_of (re_workspaces re) ws of
        Some we \<Rightarrow> re\<lparr>re_workspaces := bt_insert ws (f we) (re_workspaces re)\<rparr>
      | None \<Rightarrow> re)"

text \<open>\<^verbatim>\<open>reg.slot + 1\<close> wraps in a release build.\<close>

definition register_workspace :: "string \<Rightarrow> string \<Rightarrow> workspace_entry \<Rightarrow> ('g, unit) root_op" where
  "register_workspace repo name reg =
     seq (get_repo repo) (\<lambda>re.
     if map_of (re_workspaces re) name \<noteq> None then throw AlreadyExists
     else modifies (\<lambda>rf.
       let rf1 = update_repo repo (\<lambda>re. re\<lparr>re_workspaces := bt_insert name reg (re_workspaces re)\<rparr>) rf;
           rf2 = add_child (re_inode re) name (to_global (we_slot reg) ROOT_INODE) rf1
       in if we_slot reg \<ge> next_slot rf2 then rf2\<lparr>next_slot := we_slot reg + 1\<rparr> else rf2))"

definition finalize_workspace :: "string \<Rightarrow> string \<Rightarrow> ('g, unit) root_op" where
  "finalize_workspace repo ws =
     seq (get_repo repo) (\<lambda>re.
     seq (get_ws repo ws) (\<lambda>we.
     if we_state we = Active then ret ()
     else modifies (\<lambda>rf.
       add_child (re_inode re) ws (to_global (we_slot we) ROOT_INODE)
         (update_ws repo ws (\<lambda>w. w\<lparr>we_state := Active\<rparr>) rf))))"

definition remove_workspace :: "string \<Rightarrow> string \<Rightarrow> ('g, slot) root_op" where
  "remove_workspace repo ws =
     seq (get_repo repo) (\<lambda>re.
     seq (get_ws repo ws) (\<lambda>we.
     seq (modifies (\<lambda>rf.
       let rf1 = remove_child (re_inode re) ws
                   (update_repo repo (\<lambda>re. re\<lparr>re_workspaces := bt_remove ws (re_workspaces re)\<rparr>) rf)
       in rf1\<lparr>live := (live rf1)(we_slot we := None)\<rparr>)) (\<lambda>_.
     ret (we_slot we))))"

definition remove_repo :: "string \<Rightarrow> ('g, slot list) root_op" where
  "remove_repo repo =
     seq (get_repo repo) (\<lambda>re.
     seq (modifies (\<lambda>rf.
       let retired = map (we_slot \<circ> snd) (re_workspaces re);
           rf1 = rf\<lparr>repos := bt_remove repo (repos rf),
                    live := (\<lambda>s. if s \<in> set retired then None else live rf s),
                    synthetic_dirs := (synthetic_dirs rf)(re_inode re := None)\<rparr>
       in remove_child GROOT repo rf1)) (\<lambda>_.
     ret (map (we_slot \<circ> snd) (re_workspaces re))))"

definition alloc_slot :: "('g, slot) root_op" where
  "alloc_slot =
     seq (reads next_slot) (\<lambda>s.
     if s = - 1 then panic
     else seq (modifies (\<lambda>rf. rf\<lparr>next_slot := s + 1\<rparr>)) (\<lambda>_. ret s))"

section \<open>Workspace metadata\<close>

text \<open>The part common to \<^verbatim>\<open>set_checkout_state\<close> and \<^verbatim>\<open>set_root_tree_id\<close>: persist, then update in memory.\<close>

definition entry_config :: "workspace_entry \<Rightarrow> WorkspaceConfig" where
  "entry_config we = \<lparr>cfg_state = we_state we, cfg_slot = we_slot we, cfg_op_id = we_op_id we,
     cfg_workspace_id = we_workspace_id we, cfg_root_tree_id = we_root_tree_id we,
     cfg_commit_mtime_millis = we_commit_mtime_millis we\<rparr>"

definition persist_entry :: "string \<Rightarrow> string \<Rightarrow> workspace_entry \<Rightarrow> ('g, unit) root_op" where
  "persist_entry repo ws we = (\<lambda>rf.
     case workspace_write_to (root_toml rf) (entry_config we) (workspace_config_path (storage_dir rf) repo ws) (root_host rf) of
       (Inl e, h) \<Rightarrow> (Err (StoreError (''failed to persist workspace.toml: '' @ e)), rf\<lparr>root_host := h\<rparr>)
     | (Inr _, h) \<Rightarrow> (Ok (), rf\<lparr>root_host := h\<rparr>))"

definition set_checkout_state :: "string \<Rightarrow> string \<Rightarrow> bytes \<Rightarrow> bytes \<Rightarrow> ('g, unit) root_op" where
  "set_checkout_state repo ws op_id workspace_id =
     seq (get_ws repo ws) (\<lambda>we.
     let we' = we\<lparr>we_op_id := op_id, we_workspace_id := workspace_id\<rparr>
     in seq (persist_entry repo ws we') (\<lambda>_. modifies (update_ws repo ws (\<lambda>_. we'))))"

definition set_root_tree_id :: "string \<Rightarrow> string \<Rightarrow> bytes \<Rightarrow> int \<Rightarrow> ('g, unit) root_op" where
  "set_root_tree_id repo ws tree_id mtime =
     seq (get_ws repo ws) (\<lambda>we.
     let we' = we\<lparr>we_root_tree_id := tree_id,
                  we_commit_mtime_millis := (if mtime \<noteq> 0 then mtime else we_commit_mtime_millis we)\<rparr>
     in seq (persist_entry repo ws we') (\<lambda>_. modifies (update_ws repo ws (\<lambda>_. we'))))"

definition get_root_tree_id :: "string \<Rightarrow> string \<Rightarrow> ('g, bytes) root_op" where
  "get_root_tree_id repo ws = seq (get_ws repo ws) (\<lambda>we. ret (we_root_tree_id we))"

definition get_checkout_state :: "string \<Rightarrow> string \<Rightarrow> ('g, bytes \<times> bytes) root_op" where
  "get_checkout_state repo ws = seq (get_ws repo ws) (\<lambda>we. ret (we_op_id we, we_workspace_id we))"

definition find_ws :: "'g root_fs \<Rightarrow> string \<Rightarrow> string \<Rightarrow> workspace_entry option" where
  "find_ws rf repo ws = (case map_of (repos rf) repo of None \<Rightarrow> None | Some re \<Rightarrow> map_of (re_workspaces re) ws)"

definition find_live :: "'g root_fs \<Rightarrow> string \<Rightarrow> string \<Rightarrow> 'g workspace_live option" where
  "find_live rf repo ws = (case find_ws rf repo ws of None \<Rightarrow> None | Some we \<Rightarrow> live rf (we_slot we))"

definition get_last_exported_head :: "'g root_fs \<Rightarrow> string \<Rightarrow> string \<Rightarrow> bytes" where
  "get_last_exported_head rf repo ws = (case find_live rf repo ws of Some l \<Rightarrow> lv_last_exported_head l | None \<Rightarrow> [])"

definition update_live :: "string \<Rightarrow> string \<Rightarrow> ('g workspace_live \<Rightarrow> 'g workspace_live) \<Rightarrow> 'g root_fs \<Rightarrow> 'g root_fs" where
  "update_live repo ws f rf =
     (case find_ws rf repo ws of
        None \<Rightarrow> rf
      | Some we \<Rightarrow> (case live rf (we_slot we) of
            None \<Rightarrow> rf
          | Some l \<Rightarrow> rf\<lparr>live := (live rf)(we_slot we \<mapsto> f l)\<rparr>))"

definition set_last_exported_head :: "string \<Rightarrow> string \<Rightarrow> bytes \<Rightarrow> 'g root_fs \<Rightarrow> 'g root_fs" where
  "set_last_exported_head repo ws head = update_live repo ws (\<lambda>l. l\<lparr>lv_last_exported_head := head\<rparr>)"

definition get_last_exported_bookmarks :: "'g root_fs \<Rightarrow> string \<Rightarrow> string \<Rightarrow> (string \<times> bytes) list option" where
  "get_last_exported_bookmarks rf repo ws = (case find_live rf repo ws of Some l \<Rightarrow> lv_last_exported_bookmarks l | None \<Rightarrow> None)"

definition set_last_exported_bookmarks :: "string \<Rightarrow> string \<Rightarrow> (string \<times> bytes) list \<Rightarrow> 'g root_fs \<Rightarrow> 'g root_fs" where
  "set_last_exported_bookmarks repo ws bs = update_live repo ws (\<lambda>l. l\<lparr>lv_last_exported_bookmarks := Some bs\<rparr>)"

section \<open>Queries\<close>

definition list_repos :: "'g root_fs \<Rightarrow> (string \<times> string \<times> string list) list" where
  "list_repos rf =
     map (\<lambda>(name, re). (name, re_url re, map fst (filter (\<lambda>(_, we). we_state we = Active) (re_workspaces re)))) (repos rf)"

definition repo_store :: "'g root_fs \<Rightarrow> string \<Rightarrow> nat option" where
  "repo_store rf repo = map_option re_store (map_of (repos rf) repo)"

definition repo_remote_store :: "'g root_fs \<Rightarrow> string \<Rightarrow> get_blob option option" where
  "repo_remote_store rf repo = map_option re_remote (map_of (repos rf) repo)"

definition repo_url :: "'g root_fs \<Rightarrow> string \<Rightarrow> string option" where
  "repo_url rf repo = map_option re_url (map_of (repos rf) repo)"

definition set_repo_remote :: "string \<Rightarrow> string \<Rightarrow> get_blob option \<Rightarrow> 'g root_fs \<Rightarrow> bool \<times> 'g root_fs" where
  "set_repo_remote repo url rem rf =
     (map_of (repos rf) repo \<noteq> None, update_repo repo (\<lambda>re. re\<lparr>re_url := url, re_remote := rem\<rparr>) rf)"

section \<open>Hydration\<close>

record hydration_info =
  hi_slot :: slot
  hi_root_tree_id :: bytes
  hi_commit_mtime_millis :: int
  hi_store :: nat
  hi_remote :: "get_blob option"
  hi_repo_name :: string
  hi_ws_name :: string

definition info_of :: "string \<Rightarrow> string \<Rightarrow> repo_entry \<Rightarrow> workspace_entry \<Rightarrow> hydration_info" where
  "info_of repo ws re we = \<lparr>hi_slot = we_slot we, hi_root_tree_id = we_root_tree_id we,
     hi_commit_mtime_millis = we_commit_mtime_millis we, hi_store = re_store re, hi_remote = re_remote re,
     hi_repo_name = repo, hi_ws_name = ws\<rparr>"

text \<open>\<^verbatim>\<open>i64\<close> division truncates towards zero.\<close>

definition trunc_div :: "int \<Rightarrow> int \<Rightarrow> int" where
  "trunc_div a b = (if a < 0 then - ((- a) div b) else a div b)"

text \<open>
  \<open>worktree_ready\<close> tells whether the worktree directory exists once \<^verbatim>\<open>init_worktree\<close> had its chance to
  create it.
\<close>

definition hydrate_workspace :: "hydration_info \<Rightarrow> ('g, 'g kiki_fs) root_op" where
  "hydrate_workspace info = (\<lambda>rf.
     case stores rf (hi_store info) of
       None \<Rightarrow> (Panic, rf)
     | Some st \<Rightarrow>
         let tree_id = (if length (hi_root_tree_id info) = 20 then hi_root_tree_id info else jj_empty_tree_id (glib st));
             scratch = workspace_scratch_dir (storage_dir rf) (hi_repo_name info) (hi_ws_name info);
             wt = workspace_worktree_gitdir (storage_dir rf) (hi_repo_name info) (hi_ws_name info)
         in (Ok (kiki_fs_new st (store_paths rf (hi_store info)) tree_id (hi_remote info) (Some scratch)
                   (if worktree_ready rf wt then Some wt else None)
                   (trunc_div (hi_commit_mtime_millis info) 1000) (root_chain rf) (root_mkdirs rf)), rf))"

text \<open>Phase 3: if another thread made the workspace live in the meantime, its instance stays.\<close>

definition insert_live :: "hydration_info \<Rightarrow> 'g kiki_fs \<Rightarrow> 'g root_fs \<Rightarrow> 'g root_fs" where
  "insert_live info fs rf =
     (case live rf (hi_slot info) of
        Some _ \<Rightarrow> rf
      | None \<Rightarrow> rf\<lparr>live := (live rf)(hi_slot info \<mapsto>
          \<lparr>lv_repo_name = hi_repo_name info, lv_workspace_name = hi_ws_name info, lv_fs = fs, lv_store = hi_store info,
           lv_last_exported_head = [], lv_last_exported_bookmarks = None\<rparr>)\<rparr>)"

definition get_workspace :: "string \<Rightarrow> string \<Rightarrow> ('g, slot \<times> nat \<times> get_blob option) root_op" where
  "get_workspace repo ws =
     seq (get_repo repo) (\<lambda>re.
     seq (get_ws repo ws) (\<lambda>we.
     seq (reads (\<lambda>rf. live rf (we_slot we) \<noteq> None)) (\<lambda>alive.
     if alive then ret (we_slot we, re_store re, re_remote re)
     else seq (hydrate_workspace (info_of repo ws re we)) (\<lambda>fs.
          seq (modifies (insert_live (info_of repo ws re we) fs)) (\<lambda>_.
          ret (we_slot we, re_store re, re_remote re))))))"

text \<open>The search for the workspace with a given slot.\<close>

definition find_slot :: "'g root_fs \<Rightarrow> slot \<Rightarrow> hydration_info option" where
  "find_slot rf s =
     (case [info_of repo ws re we. (repo, re) \<leftarrow> repos rf, (ws, we) \<leftarrow> re_workspaces re, we_slot we = s] of
        [] \<Rightarrow> None
      | i # _ \<Rightarrow> Some i)"

definition get_or_hydrate_by_slot :: "slot \<Rightarrow> ('g, unit) root_op" where
  "get_or_hydrate_by_slot s =
     seq (reads (\<lambda>rf. live rf s \<noteq> None)) (\<lambda>alive.
     if alive then ret ()
     else seq (fetch_or (\<lambda>rf. find_slot rf s) NotFound) (\<lambda>info.
          seq (hydrate_workspace info) (\<lambda>fs.
          modifies (insert_live info fs))))"

text \<open>An operation of a live workspace, on the store it shares.\<close>

definition live_view :: "'g root_fs \<Rightarrow> 'g workspace_live \<Rightarrow> 'g kiki_fs" where
  "live_view rf l = (case stores rf (lv_store l) of None \<Rightarrow> lv_fs l | Some st \<Rightarrow> (lv_fs l)\<lparr>store := st\<rparr>)"

definition on_live :: "slot \<Rightarrow> ('g, 'a) fs_op \<Rightarrow> ('g, 'a) root_op" where
  "on_live s m = (\<lambda>rf.
     case live rf s of
       None \<Rightarrow> (Err NotFound, rf)
     | Some l \<Rightarrow>
         (case m (live_view rf l) of
            (r, fs) \<Rightarrow> (r, rf\<lparr>live := (live rf)(s \<mapsto> l\<lparr>lv_fs := fs\<rparr>), stores := (stores rf)(lv_store l \<mapsto> store fs)\<rparr>)))"

definition in_workspace :: "slot \<Rightarrow> ('g, 'a) fs_op \<Rightarrow> ('g, 'a) root_op" where
  "in_workspace s m = seq (get_or_hydrate_by_slot s) (\<lambda>_. on_live s m)"

section \<open>Synthetic directories\<close>

definition get_synthetic :: "ginode \<Rightarrow> ('g, synthetic_dir) root_op" where
  "get_synthetic i = fetch_or (\<lambda>rf. synthetic_dirs rf i) NotFound"

definition synthetic_lookup :: "ginode \<Rightarrow> string \<Rightarrow> ('g, ginode) root_op" where
  "synthetic_lookup p n = seq (get_synthetic p) (\<lambda>d. fetch_or (\<lambda>_. map_of (sd_children d) n) NotFound)"

definition synthetic_getattr :: "ginode \<Rightarrow> ('g, gattr) root_op" where
  "synthetic_getattr i =
     seq (get_synthetic i) (\<lambda>_.
     reads (\<lambda>rf. \<lparr>ga_inode = i, ga_attr = \<lparr>attr_inode = unat i, attr_kind = Directory, attr_size = 0,
       attr_executable = False, attr_mtime_secs = boot_time_secs rf\<rparr>\<rparr>))"

definition pending_in :: "'g root_fs \<Rightarrow> string \<Rightarrow> slot \<Rightarrow> bool" where
  "pending_in rf name s \<longleftrightarrow> (\<exists>re \<in> snd ` set (repos rf).
     case map_of (re_workspaces re) name of Some we \<Rightarrow> we_slot we = s \<and> we_state we = Pending | None \<Rightarrow> False)"

definition synthetic_readdir :: "ginode \<Rightarrow> ('g, gentry list) root_op" where
  "synthetic_readdir dir =
     seq (get_synthetic dir) (\<lambda>d.
     reads (\<lambda>rf. [\<lparr>ge_inode = i, ge_name = n, ge_kind = Directory\<rparr>.
        (n, i) \<leftarrow> sd_children d, slot_of i = 0 \<or> \<not> pending_in rf n (slot_of i)]))"

section \<open>The trait\<close>

definition root_lookup :: "ginode \<Rightarrow> string \<Rightarrow> ('g, ginode) root_op" where
  "root_lookup p n =
     (if slot_of p = 0 then synthetic_lookup p n
      else seq (in_workspace (slot_of p) (fs_lookup (to_local p) n)) (\<lambda>l. ret (to_global (slot_of p) l)))"

definition root_getattr :: "ginode \<Rightarrow> ('g, gattr) root_op" where
  "root_getattr i =
     (if slot_of i = 0 then synthetic_getattr i
      else seq (in_workspace (slot_of i) (fs_getattr (to_local i))) (\<lambda>a. ret (attr_to_global (slot_of i) a)))"

definition root_read :: "ginode \<Rightarrow> nat \<Rightarrow> nat \<Rightarrow> ('g, bytes \<times> bool) root_op" where
  "root_read i off cnt =
     (if slot_of i = 0 then throw NotAFile
      else in_workspace (slot_of i) (fs_read (to_local i) off cnt))"

definition root_readdir :: "ginode \<Rightarrow> ('g, gentry list) root_op" where
  "root_readdir dir =
     (if slot_of dir = 0 then synthetic_readdir dir
      else seq (in_workspace (slot_of dir) (fs_readdir (to_local dir))) (\<lambda>es.
        ret (map (\<lambda>e. \<lparr>ge_inode = to_global (slot_of dir) (de_inode e), ge_name = de_name e, ge_kind = de_kind e\<rparr>) es)))"

definition root_readlink :: "ginode \<Rightarrow> ('g, string) root_op" where
  "root_readlink i =
     (if slot_of i = 0 then throw NotASymlink
      else in_workspace (slot_of i) (fs_readlink (to_local i)))"

definition root_check_out :: "oid \<Rightarrow> int \<Rightarrow> ('g, unit) root_op" where
  "root_check_out t mt = throw PermissionDenied"

definition new_entry :: "slot \<Rightarrow> ('g, inode_id \<times> Attr) fs_op \<Rightarrow> ('g, ginode \<times> gattr) root_op" where
  "new_entry s m =
     (if s = 0 then throw PermissionDenied
      else seq (in_workspace s m) (\<lambda>(i, a). ret (to_global s i, attr_to_global s a)))"

definition root_create_file :: "ginode \<Rightarrow> string \<Rightarrow> bool \<Rightarrow> ('g, ginode \<times> gattr) root_op" where
  "root_create_file p n x = new_entry (slot_of p) (fs_create_file (to_local p) n x)"

definition root_mkdir :: "ginode \<Rightarrow> string \<Rightarrow> ('g, ginode \<times> gattr) root_op" where
  "root_mkdir p n = new_entry (slot_of p) (fs_mkdir (to_local p) n)"

definition root_symlink :: "ginode \<Rightarrow> string \<Rightarrow> string \<Rightarrow> ('g, ginode \<times> gattr) root_op" where
  "root_symlink p n t = new_entry (slot_of p) (fs_symlink (to_local p) n t)"

definition root_write :: "ginode \<Rightarrow> nat \<Rightarrow> bytes \<Rightarrow> ('g, nat) root_op" where
  "root_write i off d =
     (if slot_of i = 0 then throw PermissionDenied
      else in_workspace (slot_of i) (fs_write (to_local i) off d))"

definition root_setattr :: "ginode \<Rightarrow> nat option \<Rightarrow> bool option \<Rightarrow> ('g, gattr) root_op" where
  "root_setattr i sz x =
     (if slot_of i = 0 then throw PermissionDenied
      else seq (in_workspace (slot_of i) (fs_setattr (to_local i) sz x)) (\<lambda>a. ret (attr_to_global (slot_of i) a)))"

definition root_remove :: "ginode \<Rightarrow> string \<Rightarrow> ('g, unit) root_op" where
  "root_remove p n =
     (if slot_of p = 0 then throw PermissionDenied
      else in_workspace (slot_of p) (fs_remove (to_local p) n))"

definition root_rename :: "ginode \<Rightarrow> string \<Rightarrow> ginode \<Rightarrow> string \<Rightarrow> ('g, unit) root_op" where
  "root_rename p n np nn =
     (if slot_of p \<noteq> slot_of np then throw CrossDevice
      else if slot_of p = 0 then throw PermissionDenied
      else in_workspace (slot_of p) (fs_rename (to_local p) n (to_local np) nn))"

definition root_snapshot :: "('g, oid) root_op" where
  "root_snapshot = throw PermissionDenied"

end
