(* ===== verification/Root_Props.thy ===== *)
theory Root_Props
  imports Root_Fs Git_Model
begin

unbundle bit_operations_syntax

text \<open>
  What the routing layer (\<^verbatim>\<open>src/daemon/src/vfs/root_fs.rs\<close>) guarantees: the inode encoding loses nothing
  within its bounds, every call reaches exactly the workspace its inode names and behaves there as on
  the workspace's own filesystem, synthetic directories cannot be changed through the mount, listings
  leave pending workspaces out, and slots are not handed out twice.
\<close>

section \<open>Inode encoding\<close>

lemma bit_small_nat: "(m::nat) < 2 ^ k \<Longrightarrow> k \<le> n \<Longrightarrow> \<not> bit m n"
  by (metis bit_take_bit_iff not_less take_bit_nat_eq_self_iff)

lemma bit_less_nat: "(m::nat) < 2 ^ k \<Longrightarrow> bit m n \<Longrightarrow> n < k"
  using bit_small_nat not_le by blast

lemma bit_small_word: "unat (w::'a::len word) < 2 ^ k \<Longrightarrow> k \<le> n \<Longrightarrow> \<not> bit w n"
  using bit_small_nat [of "unat w" k n] by (simp add: unsigned_of_nat bit_simps)

lemma bit_less_word: "unat (w::'a::len word) < 2 ^ k \<Longrightarrow> bit w n \<Longrightarrow> n < k"
  using bit_small_word not_le by blast

lemma slot_mask: "SLOT_MASK = mask 40"
  by (simp add: SLOT_MASK_def SLOT_BITS_def mask_eq_exp_minus_1 push_bit_eq_mult)

text \<open>
  Within the bounds of the encoding, 24 bits of slot and 40 bits of local inode, a global inode determines
  the slot and the local inode it was made from.
\<close>

theorem inode_encoding_roundtrip:
  assumes "unat s < 2 ^ 24" and "l < 2 ^ 40"
  shows "slot_of (to_global s l) = s \<and> to_local (to_global s l) = l"
proof
  show "slot_of (to_global s l) = s"
  proof (rule bit_word_eqI)
    fix n assume "n < LENGTH(32)"
    then show "bit (slot_of (to_global s l)) n \<longleftrightarrow> bit s n"
      using bit_less_word [OF assms(1), of n] bit_small_nat [OF assms(2), of "40 + n"]
      by (auto simp: slot_of_def to_global_def SLOT_BITS_def bit_simps)
  qed
  have "to_global s l AND SLOT_MASK = word_of_nat l"
  proof (rule bit_word_eqI)
    fix n assume "n < LENGTH(64)"
    then show "bit (to_global s l AND SLOT_MASK) n \<longleftrightarrow> bit (word_of_nat l :: 64 word) n"
      using bit_less_nat [OF assms(2), of n]
      by (auto simp: slot_mask to_global_def SLOT_BITS_def bit_simps)
  qed
  then show "to_local (to_global s l) = l"
    using assms(2) by (simp add: to_local_def unsigned_of_nat take_bit_nat_eq_self)
qed

theorem inode_encoding_roundtrip_witness: "slot_of (to_global 3 77) = 3 \<and> to_local (to_global 3 77) = 77"
  by (rule inode_encoding_roundtrip) simp_all

lemma to_global_wraps: "to_global s l = to_global (take_bit 24 s) l"
proof -
  have "push_bit 40 (ucast s) = push_bit 40 (ucast (take_bit 24 s) :: ginode)"
    by (rule bit_word_eqI) (auto simp: bit_simps)
  then show ?thesis by (simp add: to_global_def SLOT_BITS_def)
qed

text \<open>
  C38: Past 24 bits the encoding overlaps, and the allocator does not stop there. A workspace that is given a slot
  of \<open>2 ^ 24\<close> or more has, for every file, the global inode of the workspace whose slot agrees in the lower
  24 bits, and a call with that inode is routed to that other slot. Where these bits are zero the call goes to
  the synthetic directories: the workspace's root is the root of the mount, and writes are refused.
\<close>

theorem slot_overflow_hits_root:
  assumes "next_slot rf = s" and "2 ^ 24 \<le> s" and "s \<noteq> - 1" and "l < 2 ^ 40"
  shows "fst (alloc_slot rf) = Ok s \<and> take_bit 24 s \<noteq> s \<and> to_global s l = to_global (take_bit 24 s) l \<and>
    slot_of (to_global s l) = take_bit 24 s \<and> to_local (to_global s l) = l \<and>
    (take_bit 24 s = 0 \<longrightarrow> to_global s ROOT_INODE = GROOT \<and> root_write (to_global s l) off d rf' = (Err PermissionDenied, rf'))"
proof -
  have low: "unat (take_bit 24 s) < 2 ^ 24"
    using take_bit_nat_less_exp [of 24 "unat s"] by (simp add: unsigned_take_bit_eq)
  have ne: "take_bit 24 s \<noteq> s" using assms(2) low by (auto simp: word_le_nat_alt)
  have alloc: "fst (alloc_slot rf) = Ok s"
    using assms(1,3) by (simp add: alloc_slot_def seq_apply reads_def modifies_def ret_def)
  have dec: "slot_of (to_global s l) = take_bit 24 s" "to_local (to_global s l) = l"
    using inode_encoding_roundtrip [OF low assms(4)] to_global_wraps [of s l] by simp_all
  have "take_bit 24 s = 0 \<Longrightarrow> to_global s ROOT_INODE = GROOT"
    using to_global_wraps [of s ROOT_INODE] by (simp add: to_global_def ROOT_INODE_def GROOT_def)
  moreover have "take_bit 24 s = 0 \<Longrightarrow> root_write (to_global s l) off d rf' = (Err PermissionDenied, rf')"
    using dec(1) by (simp add: root_write_def throw_def)
  ultimately show ?thesis using ne alloc dec to_global_wraps [of s l] by blast
qed

definition ex_full :: "slot \<Rightarrow> mem_db root_fs" where
  "ex_full ns = root_fs_new ''/s'' ns 0 Map.empty (\<lambda>_. ''/s/git'') (\<lambda>_. False) ex_host ex_toml (\<lambda>_. None) (\<lambda>_. Inr ())"

theorem slot_overflow_hits_root_witness:
  "fst (alloc_slot (ex_full (2 ^ 24 + 5))) = Ok (2 ^ 24 + 5) \<and> to_global (2 ^ 24 + 5) 77 = to_global 5 77 \<and>
   slot_of (to_global (2 ^ 24 + 5) 77) = 5 \<and> to_global (2 ^ 24) ROOT_INODE = GROOT"
proof -
  have ns: "next_slot (ex_full (2 ^ 24 + 5)) = 2 ^ 24 + 5" "next_slot (ex_full (2 ^ 24)) = 2 ^ 24"
    by (simp_all add: ex_full_def root_fs_new_def)
  note run = slot_overflow_hits_root [OF ns(1), of 77] slot_overflow_hits_root [OF ns(2), of 77 0 "[]" "ex_full 1"]
  have low: "take_bit 24 (2 ^ 24 + 5 :: slot) = 5" "take_bit 24 (2 ^ 24 :: slot) = 0" by simp_all
  have "fst (alloc_slot (ex_full (2 ^ 24 + 5))) = Ok (2 ^ 24 + 5) \<and> to_global (2 ^ 24 + 5) 77 = to_global 5 77 \<and>
      slot_of (to_global (2 ^ 24 + 5) 77) = 5"
    using run(1) unfolding low(1) by auto
  moreover have "to_global (2 ^ 24) ROOT_INODE = GROOT" using run(2) unfolding low(2) by simp
  ultimately show ?thesis by blast
qed

section \<open>Calls through the mount\<close>

lemma fetch_or_seq:
  "f s = Some a \<Longrightarrow> seq (fetch_or f e) g s = g a s" "f s = None \<Longrightarrow> seq (fetch_or f e) g s = (Err e, s)"
  by (simp_all add: seq_apply fetch_or_def)


text \<open>
  The calls of \<open>fs_call\<close> with global inodes, given and returned as numbers below \<open>2 ^ 64\<close>.
\<close>

definition gattr_reply :: "gattr \<Rightarrow> Attr" where
  "gattr_reply a = (ga_attr a)\<lparr>attr_inode := unat (ga_inode a)\<rparr>"

definition gentry_reply :: "gentry \<Rightarrow> DirEntry" where
  "gentry_reply e = \<lparr>de_inode = unat (ge_inode e), de_name = ge_name e, de_kind = ge_kind e\<rparr>"

definition greply :: "('a \<Rightarrow> fs_reply) \<Rightarrow> ('g, 'a) root_op \<Rightarrow> ('g, fs_reply) root_op" where
  "greply f m = seq m (\<lambda>a. ret (f a))"

fun root_exec :: "fs_call \<Rightarrow> ('g, fs_reply) root_op" where
  "root_exec (Lookup p n) = greply (\<lambda>g. RInode (unat g)) (root_lookup (word_of_nat p) n)"
| "root_exec (Getattr i) = greply (\<lambda>a. RAttr (gattr_reply a)) (root_getattr (word_of_nat i))"
| "root_exec (Read i off cnt) = greply (\<lambda>(d, eof). RData d eof) (root_read (word_of_nat i) off cnt)"
| "root_exec (Readdir d) = greply (\<lambda>es. REntries (map gentry_reply es)) (root_readdir (word_of_nat d))"
| "root_exec (Readlink i) = greply RTarget (root_readlink (word_of_nat i))"
| "root_exec (CheckOut t mt) = greply (\<lambda>_. RUnit) (root_check_out t mt)"
| "root_exec (CreateFile p n x) = greply (\<lambda>(g, a). RNew (unat g) (gattr_reply a)) (root_create_file (word_of_nat p) n x)"
| "root_exec (Mkdir p n) = greply (\<lambda>(g, a). RNew (unat g) (gattr_reply a)) (root_mkdir (word_of_nat p) n)"
| "root_exec (MkSymlink p n t) = greply (\<lambda>(g, a). RNew (unat g) (gattr_reply a)) (root_symlink (word_of_nat p) n t)"
| "root_exec (Write i off d) = greply RCount (root_write (word_of_nat i) off d)"
| "root_exec (Setattr i sz x) = greply (\<lambda>a. RAttr (gattr_reply a)) (root_setattr (word_of_nat i) sz x)"
| "root_exec (Remove p n) = greply (\<lambda>_. RUnit) (root_remove (word_of_nat p) n)"
| "root_exec (Rename p n np nn) = greply (\<lambda>_. RUnit) (root_rename (word_of_nat p) n (word_of_nat np) nn)"
| "root_exec Snapshot = greply RId root_snapshot"

abbreviation "slot_at i \<equiv> slot_of (word_of_nat i)"
abbreviation "local_at i \<equiv> to_local (word_of_nat i)"

text \<open>The slot a call is addressed to, if it is addressed to one slot only.\<close>

fun call_slot :: "fs_call \<Rightarrow> slot option" where
  "call_slot (Lookup p n) = Some (slot_at p)"
| "call_slot (Getattr i) = Some (slot_at i)"
| "call_slot (Read i off cnt) = Some (slot_at i)"
| "call_slot (Readdir d) = Some (slot_at d)"
| "call_slot (Readlink i) = Some (slot_at i)"
| "call_slot (CheckOut t mt) = None"
| "call_slot (CreateFile p n x) = Some (slot_at p)"
| "call_slot (Mkdir p n) = Some (slot_at p)"
| "call_slot (MkSymlink p n t) = Some (slot_at p)"
| "call_slot (Write i off d) = Some (slot_at i)"
| "call_slot (Setattr i sz x) = Some (slot_at i)"
| "call_slot (Remove p n) = Some (slot_at p)"
| "call_slot (Rename p n np nn) = (if slot_at p = slot_at np then Some (slot_at p) else None)"
| "call_slot Snapshot = None"

fun localize :: "fs_call \<Rightarrow> fs_call" where
  "localize (Lookup p n) = Lookup (local_at p) n"
| "localize (Getattr i) = Getattr (local_at i)"
| "localize (Read i off cnt) = Read (local_at i) off cnt"
| "localize (Readdir d) = Readdir (local_at d)"
| "localize (Readlink i) = Readlink (local_at i)"
| "localize (CreateFile p n x) = CreateFile (local_at p) n x"
| "localize (Mkdir p n) = Mkdir (local_at p) n"
| "localize (MkSymlink p n t) = MkSymlink (local_at p) n t"
| "localize (Write i off d) = Write (local_at i) off d"
| "localize (Setattr i sz x) = Setattr (local_at i) sz x"
| "localize (Remove p n) = Remove (local_at p) n"
| "localize (Rename p n np nn) = Rename (local_at p) n (local_at np) nn"
| "localize c = c"

definition glob :: "slot \<Rightarrow> inode_id \<Rightarrow> inode_id" where
  "glob s i = unat (to_global s i)"

fun globalize :: "slot \<Rightarrow> fs_reply \<Rightarrow> fs_reply" where
  "globalize s (RInode i) = RInode (glob s i)"
| "globalize s (RAttr a) = RAttr (a\<lparr>attr_inode := glob s (attr_inode a)\<rparr>)"
| "globalize s (REntries es) = REntries (map (\<lambda>e. e\<lparr>de_inode := glob s (de_inode e)\<rparr>) es)"
| "globalize s (RNew i a) = RNew (glob s i) (a\<lparr>attr_inode := glob s (attr_inode a)\<rparr>)"
| "globalize s r = r"

text \<open>A routed call is the workspace's own call, with its inodes translated both ways.\<close>

lemma seq_map: "seq (seq m (\<lambda>a. ret (f a))) (\<lambda>b. ret (g b)) = seq m (\<lambda>a. ret (g (f a)))"
  by (simp add: seq_assoc)

lemma on_live_map: "on_live s (seq m (\<lambda>a. ret (f a))) = seq (on_live s m) (\<lambda>a. ret (f a))"
  by (rule ext) (auto simp: on_live_def seq_apply ret_def split: option.splits prod.splits outcome.splits)

lemma in_workspace_map: "seq (in_workspace s m) (\<lambda>a. ret (f a)) = in_workspace s (seq m (\<lambda>a. ret (f a)))"
  by (simp add: in_workspace_def on_live_map seq_assoc)

lemma attr_global_reply: "gattr_reply (attr_to_global s a) = a\<lparr>attr_inode := glob s (attr_inode a)\<rparr>"
  by (simp add: gattr_reply_def attr_to_global_def glob_def)

lemma entry_global_reply:
  "gentry_reply \<lparr>ge_inode = to_global s (de_inode e), ge_name = de_name e, ge_kind = de_kind e\<rparr> = e\<lparr>de_inode := glob s (de_inode e)\<rparr>"
  by (cases e) (simp add: gentry_reply_def glob_def)

lemma routed_call:
  assumes "call_slot c = Some s" and "s \<noteq> 0"
  shows "root_exec c = in_workspace s (seq (fs_exec (localize c)) (\<lambda>r. ret (globalize s r)))"
proof -
  show ?thesis
    using assms
    by (cases c)
      (auto simp: greply_def root_lookup_def root_getattr_def root_read_def root_readdir_def root_readlink_def root_create_file_def
        root_mkdir_def root_symlink_def new_entry_def root_write_def root_setattr_def root_remove_def root_rename_def
        in_workspace_map reply_def seq_map glob_def attr_global_reply entry_global_reply comp_def split_def
        split: if_splits intro!: arg_cong [where f = "in_workspace s"] arg_cong [where f = "seq _"])
qed

text \<open>
  C12: A call through the mount whose inodes lie in the slot of a live workspace does exactly what the
  workspace's own filesystem does on the local inodes: the same result with the inodes translated back,
  the same effect on the workspace and its shared store, and no effect on anything else.
\<close>

theorem routed_call_refines:
  assumes "call_slot c = Some s" and "s \<noteq> 0" and "live rf s = Some l" and "fs_exec (localize c) (live_view rf l) = (r, fs)"
  shows "root_exec c rf =
    (case r of Ok a \<Rightarrow> Ok (globalize s a) | Err e \<Rightarrow> Err e | Panic \<Rightarrow> Panic | Diverge \<Rightarrow> Diverge,
     rf\<lparr>live := (live rf)(s \<mapsto> l\<lparr>lv_fs := fs\<rparr>), stores := (stores rf)(lv_store l \<mapsto> store fs)\<rparr>)"
proof -
  have "get_or_hydrate_by_slot s rf = (Ok (), rf)" using assms(3) by (simp add: get_or_hydrate_by_slot_def reads_seq ret_def)
  then show ?thesis
    using assms(3,4) unfolding routed_call [OF assms(1,2)] in_workspace_def
    by (cases r) (simp_all add: seq_apply on_live_def ret_def)
qed

lemma insert_live_frame:
  "repos (insert_live i fs rf) = repos rf" "synthetic_dirs (insert_live i fs rf) = synthetic_dirs rf"
  "next_slot (insert_live i fs rf) = next_slot rf" "stores (insert_live i fs rf) = stores rf"
  "next_synthetic (insert_live i fs rf) = next_synthetic rf"
  "s \<noteq> hi_slot i \<Longrightarrow> live (insert_live i fs rf) s = live rf s"
  by (auto simp: insert_live_def split: option.splits)

text \<open>What an operation addressed to one workspace leaves alone.\<close>

definition same_elsewhere :: "slot \<Rightarrow> 'g root_fs \<Rightarrow> 'g root_fs \<Rightarrow> bool" where
  "same_elsewhere s rf rf' \<longleftrightarrow> repos rf' = repos rf \<and> synthetic_dirs rf' = synthetic_dirs rf \<and> next_slot rf' = next_slot rf \<and>
     next_synthetic rf' = next_synthetic rf \<and> (\<forall>s'. s' \<noteq> s \<longrightarrow> live rf' s' = live rf s') \<and>
     (\<forall>a. (\<forall>l. live rf' s = Some l \<longrightarrow> lv_store l \<noteq> a) \<longrightarrow> stores rf' a = stores rf a)"

lemma case_head: "(case xs of [] \<Rightarrow> None | x # _ \<Rightarrow> Some x) = Some y \<Longrightarrow> y \<in> set xs"
  by (cases xs) auto

lemma find_slot_slot: "find_slot rf s = Some i \<Longrightarrow> hi_slot i = s"
proof -
  assume "find_slot rf s = Some i"
  then have "i \<in> set [info_of repo ws re we. (repo, re) \<leftarrow> repos rf, (ws, we) \<leftarrow> re_workspaces re, we_slot we = s]"
    unfolding find_slot_def by (rule case_head)
  then show ?thesis by (auto simp: info_of_def)
qed

lemma hydrate_workspace_state: "hydrate_workspace i rf = (r, rf') \<Longrightarrow> rf' = rf"
  by (auto simp: hydrate_workspace_def Let_def split: option.splits)

lemma get_or_hydrate_cases:
  assumes "get_or_hydrate_by_slot s rf = (r, rf')"
  obtains "rf' = rf" | i fs where "find_slot rf s = Some i" "hydrate_workspace i rf = (Ok fs, rf)" "rf' = insert_live i fs rf" "live rf s = None" "r = Ok ()"
proof (cases "live rf s")
  case (Some l)
  then show ?thesis using assms that(1) by (simp add: get_or_hydrate_by_slot_def reads_seq ret_def)
next
  case None
  show ?thesis
  proof (cases "find_slot rf s")
    case None
    then show ?thesis using assms \<open>live rf s = None\<close> that(1)
      by (simp add: get_or_hydrate_by_slot_def seq_apply reads_def fetch_or_def)
  next
    case (Some i)
    obtain h rf1 where h: "hydrate_workspace i rf = (h, rf1)" by fastforce
    then have "rf1 = rf" by (rule hydrate_workspace_state)
    have run: "seq (hydrate_workspace i) (\<lambda>fs. modifies (insert_live i fs)) rf = (r, rf')"
      using assms None Some by (simp add: get_or_hydrate_by_slot_def reads_seq fetch_or_seq)
    show ?thesis
    proof (cases h)
      case (Ok fs)
      then have "r = Ok () \<and> rf' = insert_live i fs rf" using run h \<open>rf1 = rf\<close> by (simp add: seq_apply modifies_def)
      then show ?thesis using that(2) [OF Some] h Ok \<open>rf1 = rf\<close> None by simp
    qed (use run h \<open>rf1 = rf\<close> that(1) in \<open>simp_all add: seq_apply\<close>)
  qed
qed

lemma in_workspace_elsewhere:
  assumes "in_workspace s m rf = (r, rf')"
  shows "same_elsewhere s rf rf'"
proof -
  obtain x rf1 where x: "get_or_hydrate_by_slot s rf = (x, rf1)" by fastforce
  have s1: "same_elsewhere s rf rf1"
    by (rule get_or_hydrate_cases [OF x]) (auto simp: same_elsewhere_def insert_live_frame dest: find_slot_slot)
  show ?thesis
  proof (cases x)
    case (Ok u)
    then have run: "on_live s m rf1 = (r, rf')" using assms x by (simp add: in_workspace_def seq_apply)
    show ?thesis
    proof (cases "live rf1 s")
      case None
      then show ?thesis using run s1 by (simp add: on_live_def)
    next
      case (Some l)
      obtain y fs where "m (live_view rf1 l) = (y, fs)" by fastforce
      then have "rf' = rf1\<lparr>live := (live rf1)(s \<mapsto> l\<lparr>lv_fs := fs\<rparr>), stores := (stores rf1)(lv_store l \<mapsto> store fs)\<rparr>"
        using run Some by (simp add: on_live_def)
      then show ?thesis using s1 Some by (simp add: same_elsewhere_def)
    qed
  qed (use assms x s1 in \<open>simp_all add: in_workspace_def seq_apply\<close>)
qed

lemma throw_apply: "throw e s = (Err e, s)"
  by (simp add: throw_def)

fun mutating :: "fs_call \<Rightarrow> bool" where
  "mutating (Lookup p n) = False"
| "mutating (Getattr i) = False"
| "mutating (Read i off cnt) = False"
| "mutating (Readdir d) = False"
| "mutating (Readlink i) = False"
| "mutating _ = True"

lemma same_elsewhere_refl [simp]: "same_elsewhere s rf rf"
  by (simp add: same_elsewhere_def)

lemma synthetic_state:
  "synthetic_lookup p n rf = (r, rf') \<Longrightarrow> rf' = rf" "synthetic_getattr i rf = (r1, rf') \<Longrightarrow> rf' = rf"
  "synthetic_readdir d rf = (r2, rf') \<Longrightarrow> rf' = rf"
  by (auto simp: synthetic_lookup_def synthetic_getattr_def synthetic_readdir_def get_synthetic_def seq_apply fetch_or_def reads_def
      split: option.splits)

lemma synthetic_call:
  assumes "call_slot c = Some 0 \<or> call_slot c = None" and "root_exec c rf = (r, rf')"
  shows "rf' = rf \<and> (mutating c \<longrightarrow> r \<in> {Err PermissionDenied, Err CrossDevice})"
proof (cases c)
  case (Lookup p n)
  then show ?thesis using assms
    by (cases "synthetic_lookup (word_of_nat p) n rf") (auto simp: greply_def root_lookup_def seq_apply ret_def dest: synthetic_state split: outcome.splits)
next
  case (Getattr i)
  then show ?thesis using assms
    by (cases "synthetic_getattr (word_of_nat i) rf") (auto simp: greply_def root_getattr_def seq_apply ret_def dest: synthetic_state split: outcome.splits)
next
  case (Readdir d)
  then show ?thesis using assms
    by (cases "synthetic_readdir (word_of_nat d) rf") (auto simp: greply_def root_readdir_def seq_apply ret_def dest: synthetic_state split: outcome.splits)
qed (use assms in \<open>auto simp: greply_def root_read_def root_readlink_def root_check_out_def root_create_file_def root_mkdir_def root_symlink_def
      new_entry_def root_write_def root_setattr_def root_remove_def root_rename_def root_snapshot_def throw_apply split: if_splits\<close>)

text \<open>
  C13: No call through the mount changes the namespace, and a call changes at most the one workspace it is
  addressed to and the store of that workspace's repository. Mutating calls on synthetic directories,
  check-outs, snapshots and renames across workspaces fail and change nothing.
\<close>

theorem mount_calls_isolated:
  assumes "root_exec c rf = (r, rf')"
  shows "(case call_slot c of
      Some s \<Rightarrow> same_elsewhere s rf rf' \<and> (s = 0 \<longrightarrow> rf' = rf)
    | None \<Rightarrow> rf' = rf) \<and>
    (mutating c \<and> (call_slot c = Some 0 \<or> call_slot c = None) \<longrightarrow> r \<in> {Err PermissionDenied, Err CrossDevice})"
proof (cases "call_slot c = Some 0 \<or> call_slot c = None")
  case True
  then show ?thesis using synthetic_call [OF True assms] by auto
next
  case False
  then obtain s where s: "call_slot c = Some s" "s \<noteq> 0" by auto
  have "same_elsewhere s rf rf'"
    using in_workspace_elsewhere assms unfolding routed_call [OF s] by blast
  then show ?thesis using s by auto
qed

end
