(* ===== verification/Root_Inv.thy ===== *)
theory Root_Inv
  imports Root_Props
begin

text \<open>
  The invariants of the routing layer under every sequence of calls through the mount, registrations and
  removals of repositories and workspaces, and requests of the daemon's service on a live workspace:
  every live workspace satisfies the invariant of its filesystem, and the synthetic directories name
  exactly the registered repositories and workspaces, each workspace in a slot of its own.
\<close>

section \<open>Actions\<close>

datatype root_action =
    ACall fs_call
  | AService slot fs_call
  | ARegisterRepo string string nat "get_blob option"
  | ARegisterWs string string workspace_entry
  | AFinalize string string
  | ARemoveWs string string
  | ARemoveRepo string
  | AAllocSlot
  | ASetCheckout string string bytes bytes
  | ASetRootTree string string bytes int
  | AGetWorkspace string string
  | ASetRemote string string "get_blob option"
  | ASetHead string string bytes
  | ASetBookmarks string string "(string \<times> bytes) list"

definition ignore :: "('g, 'a) root_op \<Rightarrow> ('g, unit) root_op" where
  "ignore m = seq m (\<lambda>_. ret ())"

fun root_act :: "root_action \<Rightarrow> ('g, unit) root_op" where
  "root_act (ACall c) = ignore (root_exec c)"
| "root_act (AService s c) = ignore (on_live s (fs_exec c))"
| "root_act (ARegisterRepo n url st rem) = modifies (register_repo n url st rem)"
| "root_act (ARegisterWs r w we) = register_workspace r w we"
| "root_act (AFinalize r w) = finalize_workspace r w"
| "root_act (ARemoveWs r w) = ignore (remove_workspace r w)"
| "root_act (ARemoveRepo r) = ignore (remove_repo r)"
| "root_act AAllocSlot = ignore alloc_slot"
| "root_act (ASetCheckout r w a b) = set_checkout_state r w a b"
| "root_act (ASetRootTree r w t m) = set_root_tree_id r w t m"
| "root_act (AGetWorkspace r w) = ignore (get_workspace r w)"
| "root_act (ASetRemote r url rem) = modifies (\<lambda>rf. snd (set_repo_remote r url rem rf))"
| "root_act (ASetHead r w h) = modifies (set_last_exported_head r w h)"
| "root_act (ASetBookmarks r w b) = modifies (set_last_exported_bookmarks r w b)"

text \<open>
  What the callers provide: a store that exists, ids of 20 bytes, and for a new workspace a slot within
  24 bits that no registered workspace has. The synthetic inodes stay below slot 1.
\<close>

fun action_ok :: "'g root_fs \<Rightarrow> root_action \<Rightarrow> bool" where
  "action_ok rf (AService s c) \<longleftrightarrow> call_typed c"
| "action_ok rf (ARegisterRepo n url st rem) \<longleftrightarrow> stores rf st \<noteq> None \<and> unat (next_synthetic rf) < 2 ^ 40 - 1"
| "action_ok rf (ARegisterWs r w we) \<longleftrightarrow> we_slot we \<noteq> 0 \<and> unat (we_slot we) < 2 ^ 24 \<and>
     (\<forall>r' w' we'. find_ws rf r' w' = Some we' \<longrightarrow> we_slot we' \<noteq> we_slot we)"
| "action_ok rf _ \<longleftrightarrow> True"

inductive root_reach :: "'g root_fs \<Rightarrow> 'g root_fs \<Rightarrow> bool" for rf0 where
  rr_init: "root_reach rf0 rf0"
| rr_step: "root_reach rf0 rf \<Longrightarrow> action_ok rf a \<Longrightarrow> root_act a rf = (r, rf') \<Longrightarrow> root_reach rf0 rf'"

lemma ignore_state: "ignore m rf = (r, rf') \<Longrightarrow> \<exists>x. m rf = (x, rf')"
  by (auto simp: ignore_def seq_apply ret_def split: prod.splits outcome.splits)

section \<open>Live workspaces\<close>

definition live_ok :: "'g root_fs \<Rightarrow> bool" where
  "live_ok rf \<longleftrightarrow>
     (\<forall>a st. stores rf a = Some st \<longrightarrow> git_laws (glib st)) \<and>
     (\<forall>r re. map_of (repos rf) r = Some re \<longrightarrow> stores rf (re_store re) \<noteq> None) \<and>
     (\<forall>s l. live rf s = Some l \<longrightarrow> stores rf (lv_store l) \<noteq> None \<and> fs_inv False (live_view rf l))"

lemma live_okD:
  assumes "live_ok rf"
  shows "stores rf a = Some st \<Longrightarrow> git_laws (glib st)"
    and "map_of (repos rf) r = Some re \<Longrightarrow> stores rf (re_store re) \<noteq> None"
    and "live rf s = Some l \<Longrightarrow> stores rf (lv_store l) \<noteq> None \<and> fs_inv False (live_view rf l)"
  using assms unfolding live_ok_def by blast+

lemma live_okI:
  assumes "\<And>a st. stores rf a = Some st \<Longrightarrow> git_laws (glib st)"
    and "\<And>r re. map_of (repos rf) r = Some re \<Longrightarrow> stores rf (re_store re) \<noteq> None"
    and "\<And>s l. live rf s = Some l \<Longrightarrow> stores rf (lv_store l) \<noteq> None \<and> fs_inv False (live_view rf l)"
  shows "live_ok rf"
  using assms unfolding live_ok_def by blast

lemma fs_inv_store: "fs_inv rt fs \<Longrightarrow> git_laws (glib st) \<Longrightarrow> fs_inv rt (fs\<lparr>store := st\<rparr>)"
  by (simp add: fs_inv_def)

lemma fs_inv_weaken: "fs_inv True fs \<Longrightarrow> fs_inv False fs"
  by (simp add: fs_inv_def slab_ok_def)

text \<open>A step that keeps the stores and shrinks the other two maps, or moves live entries without touching their view.\<close>

lemma live_ok_mono:
  assumes "live_ok rf" and "stores rf' = stores rf"
    and "\<And>r re. map_of (repos rf') r = Some re \<Longrightarrow> \<exists>q re0. map_of (repos rf) q = Some re0 \<and> re_store re = re_store re0"
    and "\<And>s l. live rf' s = Some l \<Longrightarrow> \<exists>l0. live rf s = Some l0 \<and> lv_fs l = lv_fs l0 \<and> lv_store l = lv_store l0"
  shows "live_ok rf'"
proof (rule live_okI)
  show "git_laws (glib st)" if "stores rf' a = Some st" for a st using that assms(1,2) live_okD(1) by metis
  show "stores rf' (re_store re) \<noteq> None" if "map_of (repos rf') r = Some re" for r re
    using assms(3) [OF that] live_okD(2) [OF assms(1)] assms(2) by metis
  show "stores rf' (lv_store l) \<noteq> None \<and> fs_inv False (live_view rf' l)" if l: "live rf' s = Some l" for s l
  proof -
    obtain l0 where l0: "live rf s = Some l0" "lv_fs l = lv_fs l0" "lv_store l = lv_store l0" using assms(4) [OF l] by blast
    then have "live_view rf' l = live_view rf l0" by (simp add: live_view_def assms(2) split: option.split)
    then show ?thesis using live_okD(3) [OF assms(1) l0(1)] l0(3) assms(2) by simp
  qed
qed

lemma live_ok_on_live:
  assumes ok: "live_ok rf" and m: "\<And>fs r fs'. fs_inv False fs \<Longrightarrow> m fs = (r, fs') \<Longrightarrow> evo_inv False fs fs'"
    and run: "on_live s m rf = (r, rf')"
  shows "live_ok rf'"
proof (cases "live rf s")
  case None
  then show ?thesis using run ok by (simp add: on_live_def)
next
  case (Some l)
  obtain x fs where x: "m (live_view rf l) = (x, fs)" by fastforce
  have e: "evo_inv False (live_view rf l) fs" using m [OF _ x] live_okD(3) [OF ok Some] by blast
  have rf': "rf' = rf\<lparr>live := (live rf)(s \<mapsto> l\<lparr>lv_fs := fs\<rparr>), stores := (stores rf)(lv_store l \<mapsto> store fs)\<rparr>"
    using run Some x by (simp add: on_live_def)
  have laws: "git_laws (glib (store fs))" using e by (simp add: evo_inv_def fs_inv_def)
  show ?thesis
  proof (rule live_okI)
    show "git_laws (glib st)" if "stores rf' a = Some st" for a st
      using that laws live_okD(1) [OF ok] by (auto simp: rf' split: if_splits)
    show "stores rf' (re_store re) \<noteq> None" if "map_of (repos rf') q = Some re" for q re
      using that live_okD(2) [OF ok, of q re] by (simp add: rf')
    show "stores rf' (lv_store l') \<noteq> None \<and> fs_inv False (live_view rf' l')" if l': "live rf' s' = Some l'" for s' l'
    proof (cases "s' = s")
      case True
      then have "l' = l\<lparr>lv_fs := fs\<rparr>" using l' by (simp add: rf')
      then show ?thesis using e by (simp add: rf' live_view_def evo_inv_def)
    next
      case False
      then have l0: "live rf s' = Some l'" using l' by (simp add: rf')
      then have "fs_inv False (live_view rf l')" "stores rf (lv_store l') \<noteq> None" using live_okD(3) [OF ok] by blast+
      moreover have "live_view rf' l' = live_view rf l' \<or> live_view rf' l' = (lv_fs l')\<lparr>store := store fs\<rparr>"
        by (auto simp: live_view_def rf')
      moreover have "(lv_fs l')\<lparr>store := store fs\<rparr> = (live_view rf l')\<lparr>store := store fs\<rparr>" by (simp add: live_view_def split: option.split)
      ultimately show ?thesis using fs_inv_store [OF _ laws] by (auto simp: rf')
    qed
  qed
qed

lemma store_kiki_fs_new: "store (kiki_fs_new st rp t rm sc wt mt chain mk) = st"
  by (simp add: kiki_fs_new_def Let_def split: prod.split)

lemma hydrated_inv:
  assumes "live_ok rf" and "hydrate_workspace i rf = (Ok fs, rf')"
  shows "stores rf (hi_store i) = Some (store fs) \<and> fs_inv False fs"
proof -
  obtain st where st: "stores rf (hi_store i) = Some st"
    using assms(2) by (cases "stores rf (hi_store i)") (auto simp: hydrate_workspace_def)
  have laws: "git_laws (glib st)" using live_okD(1) [OF assms(1) st] .
  obtain t sc wt mt where fs: "fs = kiki_fs_new st (store_paths rf (hi_store i)) t (hi_remote i) sc wt mt (root_chain rf) (root_mkdirs rf)"
      "length t = 20"
    using assms(2) st git_laws_empty_tree [OF laws] by (auto simp: hydrate_workspace_def Let_def split: if_splits)
  then show ?thesis using st fs_inv_weaken [OF fs_inv_new [OF laws fs(2)]] by (simp add: store_kiki_fs_new)
qed

lemma live_ok_insert:
  assumes ok: "live_ok rf" and h: "hydrate_workspace i rf = (Ok fs, rf1)"
  shows "live_ok (insert_live i fs rf)"
proof (cases "live rf (hi_slot i)")
  case (Some l)
  then show ?thesis using ok by (simp add: insert_live_def)
next
  case None
  have st: "stores rf (hi_store i) = Some (store fs)" "fs_inv False fs" using hydrated_inv [OF ok h] by auto
  show ?thesis
  proof (rule live_okI)
    fix s l assume "live (insert_live i fs rf) s = Some l"
    then consider "live rf s = Some l" | "lv_fs l = fs" "lv_store l = hi_store i"
      by (auto simp: insert_live_def None split: if_splits)
    then show "stores (insert_live i fs rf) (lv_store l) \<noteq> None \<and> fs_inv False (live_view (insert_live i fs rf) l)"
      using st live_okD(3) [OF ok, of s l] by cases (auto simp: live_view_def insert_live_frame)
  qed (use live_okD(1,2) [OF ok] in \<open>auto simp: insert_live_frame\<close>)
qed

lemma fs_exec_evo: "call_typed c \<Longrightarrow> fs_inv False fs \<Longrightarrow> fs_exec c fs = (r, fs') \<Longrightarrow> evo_inv False fs fs'"
  using fs_exec_evolves [of False fs c r fs'] by blast

lemma localize_typed: "call_slot c = Some s \<Longrightarrow> call_typed (localize c)"
  by (cases c) auto

section \<open>The namespace\<close>

text \<open>
  \<open>ns_ok\<close>: the root directory lists the repositories and nothing else, the directory of a repository
  lists its workspaces, pending ones too, by the global inode of their root; repositories have
  directories of their own below slot 1, and every workspace has a slot of its own that the allocator has passed.
\<close>

definition repo_ok :: "'g root_fs \<Rightarrow> repo_entry \<Rightarrow> bool" where
  "repo_ok rf re \<longleftrightarrow> GROOT < re_inode re \<and> re_inode re < next_synthetic rf \<and> bt_wf (re_workspaces re) \<and>
     (\<exists>d. synthetic_dirs rf (re_inode re) = Some d \<and> bt_wf (sd_children d) \<and>
        map_of (sd_children d) = map_option (\<lambda>we. to_global (we_slot we) ROOT_INODE) \<circ> map_of (re_workspaces re))"

definition ns_ok :: "'g root_fs \<Rightarrow> bool" where
  "ns_ok rf \<longleftrightarrow> bt_wf (repos rf) \<and> GROOT < next_synthetic rf \<and> unat (next_synthetic rf) < 2 ^ 40 \<and>
     (\<exists>d. synthetic_dirs rf GROOT = Some d \<and> bt_wf (sd_children d) \<and>
        map_of (sd_children d) = map_option re_inode \<circ> map_of (repos rf)) \<and>
     (\<forall>r re. map_of (repos rf) r = Some re \<longrightarrow> repo_ok rf re) \<and>
     (\<forall>r re r' re'. map_of (repos rf) r = Some re \<longrightarrow> map_of (repos rf) r' = Some re' \<longrightarrow>
        re_inode re = re_inode re' \<longrightarrow> r = r')"

definition slots_ok :: "'g root_fs \<Rightarrow> bool" where
  "slots_ok rf \<longleftrightarrow>
     (\<forall>r w we. find_ws rf r w = Some we \<longrightarrow> we_slot we \<noteq> 0 \<and> unat (we_slot we) < 2 ^ 24 \<and> we_slot we < next_slot rf) \<and>
     (\<forall>r w we r' w' we'. find_ws rf r w = Some we \<longrightarrow> find_ws rf r' w' = Some we' \<longrightarrow>
        we_slot we = we_slot we' \<longrightarrow> r = r' \<and> w = w')"

lemma ns_okD:
  assumes "ns_ok rf"
  shows "bt_wf (repos rf)" and "GROOT < next_synthetic rf" and "unat (next_synthetic rf) < 2 ^ 40"
    and "\<exists>d. synthetic_dirs rf GROOT = Some d \<and> bt_wf (sd_children d) \<and> map_of (sd_children d) = map_option re_inode \<circ> map_of (repos rf)"
    and "map_of (repos rf) r = Some re \<Longrightarrow> repo_ok rf re"
    and "map_of (repos rf) r = Some re \<Longrightarrow> map_of (repos rf) r' = Some re' \<Longrightarrow> re_inode re = re_inode re' \<Longrightarrow> r = r'"
  using assms unfolding ns_ok_def by blast+

lemma ns_okI:
  assumes "bt_wf (repos rf)" and "GROOT < next_synthetic rf" and "unat (next_synthetic rf) < 2 ^ 40"
    and "\<exists>d. synthetic_dirs rf GROOT = Some d \<and> bt_wf (sd_children d) \<and> map_of (sd_children d) = map_option re_inode \<circ> map_of (repos rf)"
    and "\<And>r re. map_of (repos rf) r = Some re \<Longrightarrow> repo_ok rf re"
    and "\<And>r re r' re'. map_of (repos rf) r = Some re \<Longrightarrow> map_of (repos rf) r' = Some re' \<Longrightarrow> re_inode re = re_inode re' \<Longrightarrow> r = r'"
  shows "ns_ok rf"
  unfolding ns_ok_def using assms by blast

lemma ns_ok_cong:
  assumes "ns_ok rf" and "repos rf' = repos rf" and "synthetic_dirs rf' = synthetic_dirs rf" and "next_synthetic rf' = next_synthetic rf"
  shows "ns_ok rf'"
  using assms by (simp add: ns_ok_def repo_ok_def)

lemma slots_ok_cong:
  assumes "slots_ok rf" and "repos rf' = repos rf" and "next_slot rf \<le> next_slot rf'"
  shows "slots_ok rf'"
  using assms unfolding slots_ok_def find_ws_def by (auto intro: less_le_trans)

text \<open>An update of one workspace entry that keeps its slot.\<close>

lemma map_of_update_repo:
  "bt_wf (repos rf) \<Longrightarrow> map_of (repos (update_repo r f rf)) =
     (case map_of (repos rf) r of Some re \<Rightarrow> (map_of (repos rf))(r \<mapsto> f re) | None \<Rightarrow> map_of (repos rf))"
  by (simp add: update_repo_def split: option.split)

lemma update_repo_frame:
  "synthetic_dirs (update_repo r f rf) = synthetic_dirs rf" "next_synthetic (update_repo r f rf) = next_synthetic rf"
  "next_slot (update_repo r f rf) = next_slot rf" "live (update_repo r f rf) = live rf" "stores (update_repo r f rf) = stores rf"
  by (simp_all add: update_repo_def split: option.split)

lemma bt_wf_update_repo: "bt_wf (repos rf) \<Longrightarrow> bt_wf (repos (update_repo r f rf))"
  by (auto simp: update_repo_def split: option.split)

lemma ns_ok_update_repo:
  assumes ns: "ns_ok rf"
    and f: "\<And>re. map_of (repos rf) r = Some re \<Longrightarrow> re_inode (f re) = re_inode re \<and> bt_wf (re_workspaces (f re)) \<and>
      map_option we_slot \<circ> map_of (re_workspaces (f re)) = map_option we_slot \<circ> map_of (re_workspaces re)"
  shows "ns_ok (update_repo r f rf)"
proof (cases "map_of (repos rf) r")
  case None
  then show ?thesis using ns by (simp add: update_repo_def)
next
  case (Some re)
  note wf = ns_okD(1) [OF ns]
  have m: "map_of (repos (update_repo r f rf)) = (map_of (repos rf))(r \<mapsto> f re)" using map_of_update_repo [OF wf] Some by simp
  have slots: "map_option (\<lambda>we. to_global (we_slot we) ROOT_INODE) \<circ> map_of (re_workspaces (f re)) =
      map_option (\<lambda>we. to_global (we_slot we) ROOT_INODE) \<circ> map_of (re_workspaces re)"
  proof
    fix w
    have "map_option we_slot (map_of (re_workspaces (f re)) w) = map_option we_slot (map_of (re_workspaces re) w)"
      using f [OF Some] by (metis comp_apply)
    then show "(map_option (\<lambda>we. to_global (we_slot we) ROOT_INODE) \<circ> map_of (re_workspaces (f re))) w =
      (map_option (\<lambda>we. to_global (we_slot we) ROOT_INODE) \<circ> map_of (re_workspaces re)) w"
      by (cases "map_of (re_workspaces re) w"; cases "map_of (re_workspaces (f re)) w") auto
  qed
  have repo: "repo_ok (update_repo r f rf) re'" if "map_of (repos (update_repo r f rf)) q = Some re'" for q re'
  proof (cases "q = r")
    case True
    then have re': "re' = f re" using that m by simp
    have fr: "re_inode (f re) = re_inode re" "bt_wf (re_workspaces (f re))" using f [OF Some] by simp_all
    show ?thesis
      using ns_okD(5) [OF ns Some] fr(2) unfolding repo_ok_def re' update_repo_frame fr(1) slots by blast
  next
    case False
    then have "map_of (repos rf) q = Some re'" using that m by simp
    from ns_okD(5) [OF ns this] show ?thesis unfolding repo_ok_def update_repo_frame .
  qed
  have root: "map_option re_inode \<circ> map_of (repos (update_repo r f rf)) = map_option re_inode \<circ> map_of (repos rf)"
  proof -
    have "re_inode (f re) = re_inode re" using f [OF Some] by simp
    then show ?thesis using m Some by (simp add: fun_eq_iff)
  qed
  have inj: "q = q'" if "map_of (repos (update_repo r f rf)) q = Some a" "map_of (repos (update_repo r f rf)) q' = Some b"
      "re_inode a = re_inode b" for q q' a b
  proof -
    have "\<exists>a0. map_of (repos rf) x = Some a0 \<and> re_inode a0 = re_inode y" if "map_of (repos (update_repo r f rf)) x = Some y" for x y
    proof (cases "x = r")
      case True
      then show ?thesis using that m Some f [OF Some] by (intro exI [of _ re]) simp
    qed (use that m in simp)
    then show ?thesis using that ns_okD(6) [OF ns] by metis
  qed
  show ?thesis
  proof (rule ns_okI)
    show "bt_wf (repos (update_repo r f rf))" by (rule bt_wf_update_repo [OF wf])
    show "GROOT < next_synthetic (update_repo r f rf)" "unat (next_synthetic (update_repo r f rf)) < 2 ^ 40"
      unfolding update_repo_frame by (rule ns_okD(2,3) [OF ns])+
    show "\<exists>d. synthetic_dirs (update_repo r f rf) GROOT = Some d \<and> bt_wf (sd_children d) \<and>
        map_of (sd_children d) = map_option re_inode \<circ> map_of (repos (update_repo r f rf))"
      unfolding update_repo_frame root by (rule ns_okD(4) [OF ns])
  qed (rule repo inj; assumption)+
qed

section \<open>Registration\<close>

lemma add_child_frame:
  "repos (add_child d n c rf) = repos rf" "next_synthetic (add_child d n c rf) = next_synthetic rf"
  "next_slot (add_child d n c rf) = next_slot rf" "live (add_child d n c rf) = live rf" "stores (add_child d n c rf) = stores rf"
  "d' \<noteq> d \<Longrightarrow> synthetic_dirs (add_child d n c rf) d' = synthetic_dirs rf d'"
  "synthetic_dirs rf d = Some sd \<Longrightarrow>
     synthetic_dirs (add_child d n c rf) d = Some (sd\<lparr>sd_children := bt_insert n c (sd_children sd)\<rparr>)"
  by (simp_all add: add_child_def split: option.split)

lemma remove_child_frame:
  "repos (remove_child d n rf) = repos rf" "next_synthetic (remove_child d n rf) = next_synthetic rf"
  "next_slot (remove_child d n rf) = next_slot rf" "live (remove_child d n rf) = live rf" "stores (remove_child d n rf) = stores rf"
  "d' \<noteq> d \<Longrightarrow> synthetic_dirs (remove_child d n rf) d' = synthetic_dirs rf d'"
  "synthetic_dirs rf d = Some sd \<Longrightarrow>
     synthetic_dirs (remove_child d n rf) d = Some (sd\<lparr>sd_children := bt_remove n (sd_children sd)\<rparr>)"
  by (simp_all add: remove_child_def split: option.split)

text \<open>A change of one repository's workspaces together with its directory.\<close>

lemma ns_ok_workspaces:
  assumes ns: "ns_ok rf" and re: "map_of (repos rf) r = Some re"
    and repos: "map_of (repos rf') = (map_of (repos rf))(r \<mapsto> re\<lparr>re_workspaces := ws\<rparr>)" "bt_wf (repos rf')" "bt_wf ws"
    and dirs: "\<And>i. i \<noteq> re_inode re \<Longrightarrow> synthetic_dirs rf' i = synthetic_dirs rf i" "next_synthetic rf' = next_synthetic rf"
    and dir: "\<exists>d. synthetic_dirs rf' (re_inode re) = Some d \<and> bt_wf (sd_children d) \<and>
        map_of (sd_children d) = map_option (\<lambda>we. to_global (we_slot we) ROOT_INODE) \<circ> map_of ws"
  shows "ns_ok rf'"
proof (rule ns_okI)
  have ok: "GROOT < re_inode re" using ns_okD(5) [OF ns re] by (simp add: repo_ok_def)
  have "map_option re_inode \<circ> map_of (repos rf') = map_option re_inode \<circ> map_of (repos rf)"
    using repos(1) re by (auto simp: fun_eq_iff)
  then show "\<exists>d. synthetic_dirs rf' GROOT = Some d \<and> bt_wf (sd_children d) \<and> map_of (sd_children d) = map_option re_inode \<circ> map_of (repos rf')"
    using ns_okD(4) [OF ns] dirs(1) [of GROOT] ok by simp
  show "GROOT < next_synthetic rf'" "unat (next_synthetic rf') < 2 ^ 40" using ns_okD(2,3) [OF ns] dirs(2) by simp_all
  show "repo_ok rf' re'" if q: "map_of (repos rf') q = Some re'" for q re'
  proof (cases "q = r")
    case True
    then have "re' = re\<lparr>re_workspaces := ws\<rparr>" using q repos(1) by simp
    then show ?thesis using ns_okD(5) [OF ns re] dir repos(3) dirs(2) by (simp add: repo_ok_def)
  next
    case False
    then have q0: "map_of (repos rf) q = Some re'" using q repos(1) by simp
    then have "re_inode re' \<noteq> re_inode re" using ns_okD(6) [OF ns q0 re] False by blast
    then show ?thesis using ns_okD(5) [OF ns q0] dirs by (simp add: repo_ok_def)
  qed
  show "q = q'" if "map_of (repos rf') q = Some a" "map_of (repos rf') q' = Some b" "re_inode a = re_inode b" for q q' a b
  proof -
    have "\<exists>a0. map_of (repos rf) x = Some a0 \<and> re_inode a0 = re_inode y" if "map_of (repos rf') x = Some y" for x y
      using that repos(1) re by (cases "x = r") auto
    then show ?thesis using that ns_okD(6) [OF ns] by metis
  qed
qed (rule repos(2))

lemma repo_okD:
  assumes "repo_ok rf re"
  shows "bt_wf (re_workspaces re)"
    and "\<exists>d. synthetic_dirs rf (re_inode re) = Some d \<and> bt_wf (sd_children d) \<and>
        map_of (sd_children d) = map_option (\<lambda>we. to_global (we_slot we) ROOT_INODE) \<circ> map_of (re_workspaces re)"
  using assms unfolding repo_ok_def by blast+

lemma map_option_upd: "map_option g \<circ> (f(k \<mapsto> v)) = (map_option g \<circ> f)(k \<mapsto> g v)" "map_option g \<circ> (f(k := None)) = (map_option g \<circ> f)(k := None)"
  by (auto simp: fun_eq_iff)

definition register_state :: "string \<Rightarrow> string \<Rightarrow> workspace_entry \<Rightarrow> repo_entry \<Rightarrow> 'g root_fs \<Rightarrow> 'g root_fs" where
  "register_state r w we re rf = add_child (re_inode re) w (to_global (we_slot we) ROOT_INODE)
     (update_repo r (\<lambda>re. re\<lparr>re_workspaces := bt_insert w we (re_workspaces re)\<rparr>) rf)"

lemma ns_ok_insert_ws:
  assumes ns: "ns_ok rf" and re: "map_of (repos rf) r = Some re"
  shows "ns_ok (register_state r w we re rf)" and "map_of (repos (register_state r w we re rf)) =
      (map_of (repos rf))(r \<mapsto> re\<lparr>re_workspaces := bt_insert w we (re_workspaces re)\<rparr>)"
proof -
  note wf = ns_okD(1) [OF ns] and ok = ns_okD(5) [OF ns re]
  obtain d where d: "synthetic_dirs rf (re_inode re) = Some d" "bt_wf (sd_children d)"
      "map_of (sd_children d) = map_option (\<lambda>we. to_global (we_slot we) ROOT_INODE) \<circ> map_of (re_workspaces re)"
    using repo_okD(2) [OF ok] by blast
  show m: "map_of (repos (register_state r w we re rf)) =
      (map_of (repos rf))(r \<mapsto> re\<lparr>re_workspaces := bt_insert w we (re_workspaces re)\<rparr>)"
    unfolding register_state_def add_child_frame map_of_update_repo [OF wf] using re by simp
  show "ns_ok (register_state r w we re rf)"
    by (rule ns_ok_workspaces [OF ns re m])
      (use d repo_okD(1) [OF ok] bt_wf_update_repo [OF wf] in \<open>simp_all add: register_state_def add_child_frame update_repo_frame map_option_upd\<close>)
qed

definition unregister_state :: "string \<Rightarrow> string \<Rightarrow> repo_entry \<Rightarrow> 'g root_fs \<Rightarrow> 'g root_fs" where
  "unregister_state r w re rf = remove_child (re_inode re) w
     (update_repo r (\<lambda>re. re\<lparr>re_workspaces := bt_remove w (re_workspaces re)\<rparr>) rf)"

lemma ns_ok_remove_ws:
  assumes ns: "ns_ok rf" and re: "map_of (repos rf) r = Some re"
  shows "ns_ok (unregister_state r w re rf)" and "map_of (repos (unregister_state r w re rf)) =
      (map_of (repos rf))(r \<mapsto> re\<lparr>re_workspaces := bt_remove w (re_workspaces re)\<rparr>)"
proof -
  note wf = ns_okD(1) [OF ns] and ok = ns_okD(5) [OF ns re]
  obtain d where d: "synthetic_dirs rf (re_inode re) = Some d" "bt_wf (sd_children d)"
      "map_of (sd_children d) = map_option (\<lambda>we. to_global (we_slot we) ROOT_INODE) \<circ> map_of (re_workspaces re)"
    using repo_okD(2) [OF ok] by blast
  show m: "map_of (repos (unregister_state r w re rf)) =
      (map_of (repos rf))(r \<mapsto> re\<lparr>re_workspaces := bt_remove w (re_workspaces re)\<rparr>)"
    unfolding unregister_state_def remove_child_frame map_of_update_repo [OF wf] using re by simp
  show "ns_ok (unregister_state r w re rf)"
    by (rule ns_ok_workspaces [OF ns re m])
      (use d repo_okD(1) [OF ok] bt_wf_update_repo [OF wf] in \<open>simp_all add: unregister_state_def remove_child_frame update_repo_frame map_option_upd\<close>)
qed

lemma ns_ok_update_ws:
  assumes ns: "ns_ok rf" and f: "\<And>we. we_slot (f we) = we_slot we"
  shows "ns_ok (update_ws r w f rf)"
  unfolding update_ws_def
proof (rule ns_ok_update_repo [OF ns], goal_cases)
  case (1 re)
  have wf: "bt_wf (re_workspaces re)" using ns_okD(5) [OF ns 1] by (simp add: repo_ok_def)
  show ?case
  proof (cases "map_of (re_workspaces re) w")
    case (Some we)
    have "map_option we_slot \<circ> (map_of (re_workspaces re))(w \<mapsto> f we) = map_option we_slot \<circ> map_of (re_workspaces re)"
      using Some f [of we] by (simp add: fun_eq_iff)
    then show ?thesis using Some wf by simp
  qed (use wf in simp)
qed

lemma unat_suc_lt: "unat (a::64 word) < 2 ^ 40 \<Longrightarrow> unat (a + 1) = unat a + 1"
  by (simp add: unat_word_ariths)

lemma ns_ok_register_repo:
  assumes ns: "ns_ok rf" and small: "unat (next_synthetic rf) < 2 ^ 40 - 1"
  shows "ns_ok (register_repo n url st rem rf)"
proof (cases "map_of (repos rf) n")
  case (Some re)
  then show ?thesis using ns by (simp add: register_repo_def)
next
  case None
  note wf = ns_okD(1) [OF ns]
  define i where "i = next_synthetic rf"
  define e where "e = \<lparr>re_url = url, re_inode = i, re_store = st, re_remote = rem, re_workspaces = []\<rparr>"
  define rf1 where "rf1 = rf\<lparr>next_synthetic := i + 1, synthetic_dirs := (synthetic_dirs rf)(i \<mapsto> \<lparr>sd_parent = GROOT, sd_name = n, sd_children = []\<rparr>)\<rparr>"
  define rf' where "rf' = register_repo n url st rem rf"
  obtain d where d: "synthetic_dirs rf GROOT = Some d" "bt_wf (sd_children d)" "map_of (sd_children d) = map_option re_inode \<circ> map_of (repos rf)"
    using ns_okD(4) [OF ns] by blast
  have nr: "GROOT \<noteq> i" using ns_okD(2) [OF ns] by (auto simp: i_def)
  have rf': "rf' = (add_child GROOT n i rf1)\<lparr>repos := bt_insert n e (repos (add_child GROOT n i rf1))\<rparr>"
    using None by (simp add: rf'_def register_repo_def Let_def i_def rf1_def e_def)
  have r1: "repos rf1 = repos rf" "synthetic_dirs rf1 GROOT = Some d" using nr d(1) by (simp_all add: rf1_def)
  have m: "map_of (repos rf') = (map_of (repos rf))(n \<mapsto> e)" "bt_wf (repos rf')"
    using wf by (simp_all add: rf' add_child_frame r1)
  have dirs: "synthetic_dirs rf' GROOT = Some (d\<lparr>sd_children := bt_insert n i (sd_children d)\<rparr>)"
      "synthetic_dirs rf' i = Some \<lparr>sd_parent = GROOT, sd_name = n, sd_children = []\<rparr>"
      "\<And>j. j \<noteq> GROOT \<Longrightarrow> j \<noteq> i \<Longrightarrow> synthetic_dirs rf' j = synthetic_dirs rf j"
    using nr r1 by (simp_all add: rf' add_child_frame) (simp_all add: rf1_def)
  have nx: "next_synthetic rf' = i + 1" by (simp add: rf' add_child_frame rf1_def)
  have lt: "unat (i + 1) = unat i + 1" using small by (intro unat_suc_lt) (simp add: i_def)
  have up: "a < i + 1" if "a < i" for a :: ginode using that lt by (simp add: word_less_nat_alt)
  have fresh: "map_of (repos rf) q = Some re \<Longrightarrow> re_inode re \<noteq> i \<and> re_inode re \<noteq> GROOT" for q re
    using ns_okD(5) [OF ns, of q re] by (auto simp: repo_ok_def i_def)
  show ?thesis unfolding rf'_def [symmetric]
  proof (rule ns_okI)
    show "bt_wf (repos rf')" by (rule m(2))
    show "GROOT < next_synthetic rf'" using ns_okD(2) [OF ns] up by (simp add: nx i_def)
    show "unat (next_synthetic rf') < 2 ^ 40" using small lt by (simp add: nx i_def)
    show "\<exists>d. synthetic_dirs rf' GROOT = Some d \<and> bt_wf (sd_children d) \<and> map_of (sd_children d) = map_option re_inode \<circ> map_of (repos rf')"
      using dirs(1) d m(1) by (simp add: map_option_upd e_def)
    show "repo_ok rf' re" if q: "map_of (repos rf') q = Some re" for q re
    proof (cases "q = n")
      case True
      then have "re = e" using q m(1) by simp
      moreover have "GROOT < i" "i < i + 1" using ns_okD(2) [OF ns] lt by (simp_all add: i_def word_less_nat_alt)
      ultimately show ?thesis using dirs(2) nx by (simp add: repo_ok_def e_def fun_eq_iff)
    next
      case False
      then have q0: "map_of (repos rf) q = Some re" using q m(1) by simp
      have "repo_ok rf re" using ns_okD(5) [OF ns q0] .
      moreover have "synthetic_dirs rf' (re_inode re) = synthetic_dirs rf (re_inode re)" using dirs(3) fresh [OF q0] by simp
      ultimately show ?thesis using up nx by (simp add: repo_ok_def i_def)
    qed
    show "q = q'" if "map_of (repos rf') q = Some a" "map_of (repos rf') q' = Some b" "re_inode a = re_inode b" for q q' a b
      using that m(1) fresh [of q a] fresh [of q' b] ns_okD(6) [OF ns, of q a q' b]
      by (cases "q = n"; cases "q' = n") (auto simp: e_def)
  qed
qed

definition drop_repo_state :: "string \<Rightarrow> repo_entry \<Rightarrow> 'g root_fs \<Rightarrow> 'g root_fs" where
  "drop_repo_state r re rf = remove_child GROOT r
     (rf\<lparr>repos := bt_remove r (repos rf), live := (\<lambda>s. if s \<in> set (map (we_slot \<circ> snd) (re_workspaces re)) then None else live rf s),
         synthetic_dirs := (synthetic_dirs rf)(re_inode re := None)\<rparr>)"

lemma ns_ok_remove_repo:
  assumes ns: "ns_ok rf" and re: "map_of (repos rf) r = Some re"
  shows "ns_ok (drop_repo_state r re rf)" and "map_of (repos (drop_repo_state r re rf)) = (map_of (repos rf))(r := None)"
proof -
  define rf' where "rf' = drop_repo_state r re rf"
  note wf = ns_okD(1) [OF ns]
  have nr: "re_inode re \<noteq> GROOT" using ns_okD(5) [OF ns re] by (auto simp: repo_ok_def)
  obtain d where d: "synthetic_dirs rf GROOT = Some d" "bt_wf (sd_children d)" "map_of (sd_children d) = map_option re_inode \<circ> map_of (repos rf)"
    using ns_okD(4) [OF ns] by blast
  show "map_of (repos (drop_repo_state r re rf)) = (map_of (repos rf))(r := None)"
    by (simp add: drop_repo_state_def remove_child_frame)
  then have m: "map_of (repos rf') = (map_of (repos rf))(r := None)" by (simp add: rf'_def)
  have dirs: "synthetic_dirs rf' GROOT = Some (d\<lparr>sd_children := bt_remove r (sd_children d)\<rparr>)"
      "\<And>j. j \<noteq> GROOT \<Longrightarrow> j \<noteq> re_inode re \<Longrightarrow> synthetic_dirs rf' j = synthetic_dirs rf j" "next_synthetic rf' = next_synthetic rf"
    using d nr by (simp_all add: rf'_def drop_repo_state_def remove_child_frame)
  show "ns_ok (drop_repo_state r re rf)" unfolding rf'_def [symmetric]
  proof (rule ns_okI)
    show "bt_wf (repos rf')" using wf by (simp add: rf'_def drop_repo_state_def remove_child_frame)
    show "GROOT < next_synthetic rf'" "unat (next_synthetic rf') < 2 ^ 40" using ns_okD(2,3) [OF ns] dirs(3) by simp_all
    show "\<exists>d. synthetic_dirs rf' GROOT = Some d \<and> bt_wf (sd_children d) \<and> map_of (sd_children d) = map_option re_inode \<circ> map_of (repos rf')"
      using dirs(1) d m by (simp add: map_option_upd)
    show "repo_ok rf' re'" if q: "map_of (repos rf') q = Some re'" for q re'
    proof -
      have q0: "map_of (repos rf) q = Some re'" "q \<noteq> r" using q m by (auto split: if_splits)
      then have "re_inode re' \<noteq> re_inode re" using ns_okD(6) [OF ns q0(1) re] by blast
      moreover have "re_inode re' \<noteq> GROOT" "repo_ok rf re'" using ns_okD(5) [OF ns q0(1)] by (auto simp: repo_ok_def)
      ultimately show ?thesis using dirs by (simp add: repo_ok_def)
    qed
    show "q = q'" if "map_of (repos rf') q = Some a" "map_of (repos rf') q' = Some b" "re_inode a = re_inode b" for q q' a b
      using that m ns_okD(6) [OF ns, of q a q' b] by (auto split: if_splits)
  qed
qed

section \<open>The invariant\<close>

definition live_named :: "'g root_fs \<Rightarrow> bool" where
  "live_named rf \<longleftrightarrow> (\<forall>s l. live rf s = Some l \<longrightarrow>
     (\<exists>we. find_ws rf (lv_repo_name l) (lv_workspace_name l) = Some we \<and> we_slot we = s))"

definition root_inv :: "'g root_fs \<Rightarrow> bool" where
  "root_inv rf \<longleftrightarrow> live_ok rf \<and> ns_ok rf \<and> slots_ok rf \<and> live_named rf"

lemma slots_okD:
  assumes "slots_ok rf"
  shows "find_ws rf r w = Some we \<Longrightarrow> we_slot we \<noteq> 0 \<and> unat (we_slot we) < 2 ^ 24 \<and> we_slot we < next_slot rf"
    and "find_ws rf r w = Some we \<Longrightarrow> find_ws rf r' w' = Some we' \<Longrightarrow> we_slot we = we_slot we' \<Longrightarrow> r = r' \<and> w = w'"
  using assms unfolding slots_ok_def by blast+

lemma live_namedD:
  "live_named rf \<Longrightarrow> live rf s = Some l \<Longrightarrow> \<exists>we. find_ws rf (lv_repo_name l) (lv_workspace_name l) = Some we \<and> we_slot we = s"
  unfolding live_named_def by blast

lemma slots_ok_sub:
  assumes ok: "slots_ok rf" and ns: "next_slot rf \<le> next_slot rf'"
    and sub: "\<And>r w we'. find_ws rf' r w = Some we' \<Longrightarrow> \<exists>we. find_ws rf r w = Some we \<and> we_slot we = we_slot we'"
  shows "slots_ok rf'"
  unfolding slots_ok_def
proof (intro conjI allI impI)
  fix r w we' assume "find_ws rf' r w = Some we'"
  then obtain we where we: "find_ws rf r w = Some we" "we_slot we = we_slot we'" using sub by blast
  show "we_slot we' \<noteq> 0" "unat (we_slot we') < 2 ^ 24" "we_slot we' < next_slot rf'"
    using slots_okD(1) [OF ok we(1)] we(2) ns by auto
next
  fix r w we r' w' we' assume "find_ws rf' r w = Some we" "find_ws rf' r' w' = Some we'" "we_slot we = we_slot we'"
  then show "r = r'" "w = w'" using sub slots_okD(2) [OF ok] by metis+
qed

lemma live_named_sub:
  assumes "live_named rf"
    and live: "\<And>s l'. live rf' s = Some l' \<Longrightarrow> \<exists>l. live rf s = Some l \<and> lv_repo_name l' = lv_repo_name l \<and> lv_workspace_name l' = lv_workspace_name l"
    and keep: "\<And>s l' r w we. live rf' s = Some l' \<Longrightarrow> find_ws rf r w = Some we \<Longrightarrow> we_slot we = s \<Longrightarrow> \<exists>we'. find_ws rf' r w = Some we' \<and> we_slot we' = s"
  shows "live_named rf'"
  unfolding live_named_def
proof (intro allI impI)
  fix s l' assume l': "live rf' s = Some l'"
  then obtain l where l: "live rf s = Some l" "lv_repo_name l' = lv_repo_name l" "lv_workspace_name l' = lv_workspace_name l"
    using live by blast
  show "\<exists>we. find_ws rf' (lv_repo_name l') (lv_workspace_name l') = Some we \<and> we_slot we = s"
    using live_namedD [OF assms(1) l(1)] keep [OF l'] l(2,3) by auto
qed

lemma root_inv_cong:
  assumes "root_inv rf" and "repos rf' = repos rf" and "synthetic_dirs rf' = synthetic_dirs rf" and "next_synthetic rf' = next_synthetic rf"
    and "stores rf' = stores rf" and "live rf' = live rf" and "next_slot rf \<le> next_slot rf'"
  shows "root_inv rf'"
proof -
  have f: "find_ws rf' = find_ws rf" using assms(2) by (simp add: fun_eq_iff find_ws_def)
  have "live_ok rf'" by (rule live_ok_mono [of rf]) (use assms in \<open>auto simp: root_inv_def\<close>)
  moreover have "ns_ok rf'" using assms ns_ok_cong by (auto simp: root_inv_def)
  moreover have "slots_ok rf'" using assms slots_ok_cong by (auto simp: root_inv_def)
  moreover have "live_named rf'" using assms(1,6) f by (simp add: root_inv_def live_named_def)
  ultimately show ?thesis by (simp add: root_inv_def)
qed

text \<open>A change of \<open>live\<close> and \<open>stores\<close> only.\<close>

lemma root_inv_live:
  assumes "root_inv rf" and "live_ok rf'" and "live_named rf'"
    and "repos rf' = repos rf" and "synthetic_dirs rf' = synthetic_dirs rf" and "next_synthetic rf' = next_synthetic rf"
    and "next_slot rf' = next_slot rf"
  shows "root_inv rf'"
  using assms ns_ok_cong [of rf rf'] slots_ok_cong [of rf rf'] by (auto simp: root_inv_def)

lemma find_slot_ws:
  assumes ns: "ns_ok rf" and "find_slot rf s = Some i"
  shows "\<exists>we. find_ws rf (hi_repo_name i) (hi_ws_name i) = Some we \<and> we_slot we = s"
proof -
  have "i \<in> set [info_of repo ws re we. (repo, re) \<leftarrow> repos rf, (ws, we) \<leftarrow> re_workspaces re, we_slot we = s]"
    using assms(2) unfolding find_slot_def by (rule case_head)
  then obtain repo re ws we where i: "i = info_of repo ws re we" "(repo, re) \<in> set (repos rf)" "(ws, we) \<in> set (re_workspaces re)" "we_slot we = s"
    by auto
  have r: "map_of (repos rf) repo = Some re" using i(2) bt_wf_map_of_iff [OF ns_okD(1) [OF ns]] by simp
  then have "bt_wf (re_workspaces re)" using ns_okD(5) [OF ns r] by (simp add: repo_ok_def)
  then have "map_of (re_workspaces re) ws = Some we" using i(3) bt_wf_map_of_iff by metis
  then show ?thesis using r i by (auto simp: find_ws_def info_of_def)
qed

lemma live_named_insert:
  assumes "live_named rf" and "\<exists>we. find_ws rf (hi_repo_name i) (hi_ws_name i) = Some we \<and> we_slot we = hi_slot i"
  shows "live_named (insert_live i fs rf)"
proof (cases "live rf (hi_slot i)")
  case None
  have f: "find_ws (insert_live i fs rf) = find_ws rf" by (simp add: fun_eq_iff find_ws_def insert_live_frame)
  show ?thesis unfolding live_named_def f
    using assms live_namedD [OF assms(1)] None by (auto simp: insert_live_def)
qed (use assms(1) in \<open>simp add: insert_live_def\<close>)

lemma root_inv_insert:
  assumes inv: "root_inv rf" and h: "hydrate_workspace i rf = (Ok fs, rf1)"
    and "\<exists>we. find_ws rf (hi_repo_name i) (hi_ws_name i) = Some we \<and> we_slot we = hi_slot i"
  shows "root_inv (insert_live i fs rf)"
  by (rule root_inv_live [OF inv]) (use assms in \<open>auto simp: root_inv_def insert_live_frame intro: live_ok_insert live_named_insert\<close>)

lemma root_inv_hydrate:
  assumes inv: "root_inv rf" and run: "get_or_hydrate_by_slot s rf = (r, rf')"
  shows "root_inv rf'"
proof (cases rule: get_or_hydrate_cases [OF run])
  case 1
  then show ?thesis using inv by simp
next
  case (2 i fs)
  have "\<exists>we. find_ws rf (hi_repo_name i) (hi_ws_name i) = Some we \<and> we_slot we = hi_slot i"
    using find_slot_ws [OF _ 2(1)] find_slot_slot [OF 2(1)] inv by (simp add: root_inv_def)
  then show ?thesis using root_inv_insert [OF inv 2(2)] 2(3) by simp
qed

lemma on_live_frame:
  assumes "on_live s m rf = (r, rf')"
  shows "repos rf' = repos rf" and "synthetic_dirs rf' = synthetic_dirs rf" and "next_synthetic rf' = next_synthetic rf"
    and "next_slot rf' = next_slot rf" and "live_named rf \<Longrightarrow> live_named rf'"
proof -
  have c: "(\<exists>l fs. live rf s = Some l \<and>
      rf' = rf\<lparr>live := (live rf)(s \<mapsto> l\<lparr>lv_fs := fs\<rparr>), stores := (stores rf)(lv_store l \<mapsto> store fs)\<rparr>) \<or> rf' = rf"
    using assms by (auto simp: on_live_def split: option.splits prod.splits)
  then show "repos rf' = repos rf" "synthetic_dirs rf' = synthetic_dirs rf" "next_synthetic rf' = next_synthetic rf" "next_slot rf' = next_slot rf"
    by auto
  assume named: "live_named rf"
  have f: "find_ws rf' = find_ws rf" using \<open>repos rf' = repos rf\<close> by (simp add: fun_eq_iff find_ws_def)
  have "\<exists>l. live rf t = Some l \<and> lv_repo_name l' = lv_repo_name l \<and> lv_workspace_name l' = lv_workspace_name l"
    if "live rf' t = Some l'" for t l'
    using that c by (cases "t = s") auto
  then show "live_named rf'" by (rule live_named_sub [OF named]) (simp_all add: f)
qed

lemma root_inv_on_live:
  assumes inv: "root_inv rf" and m: "\<And>fs r fs'. fs_inv False fs \<Longrightarrow> m fs = (r, fs') \<Longrightarrow> evo_inv False fs fs'"
    and run: "on_live s m rf = (r, rf')"
  shows "root_inv rf'"
proof (rule root_inv_live [OF inv])
  show "live_ok rf'" using live_ok_on_live [OF _ m run] inv by (simp add: root_inv_def)
  show "live_named rf'" using on_live_frame(5) [OF run] inv by (simp add: root_inv_def)
qed (rule on_live_frame [OF run])+

lemma root_inv_call:
  assumes inv: "root_inv rf" and run: "root_exec c rf = (r, rf')"
  shows "root_inv rf'"
proof (cases "call_slot c = Some 0 \<or> call_slot c = None")
  case True
  then show ?thesis using synthetic_call [OF True run] inv by simp
next
  case False
  then obtain s where s: "call_slot c = Some s" "s \<noteq> 0" by auto
  define m where "m = seq (fs_exec (localize c)) (\<lambda>r. ret (globalize s r) :: ('a, fs_reply) fs_op)"
  obtain x rf1 where x: "get_or_hydrate_by_slot s rf = (x, rf1)" by fastforce
  have inv1: "root_inv rf1" using root_inv_hydrate [OF inv x] .
  have m: "evo_inv False fs fs'" if "fs_inv False fs" "m fs = (y, fs')" for fs y fs'
  proof -
    have "\<exists>z. fs_exec (localize c) fs = (z, fs')"
      using that(2) by (auto simp: m_def seq_apply ret_def split: prod.splits outcome.splits)
    then show ?thesis using fs_exec_evo [OF localize_typed [OF s(1)] that(1)] by blast
  qed
  have "in_workspace s m rf = (r, rf')" using run unfolding routed_call [OF s] m_def .
  moreover have "root_inv rf'" if "on_live s m rf1 = (r, rf')" using root_inv_on_live [OF inv1 m that] .
  ultimately show ?thesis using x inv1 by (cases x) (auto simp: in_workspace_def seq_apply)
qed

section \<open>The invariant, action by action\<close>

lemma find_ws_repo:
  "find_ws rf r w = Some we \<longleftrightarrow> (\<exists>re. map_of (repos rf) r = Some re \<and> map_of (re_workspaces re) w = Some we)"
  by (simp add: find_ws_def split: option.split)

lemma get_repo_seq:
  "map_of (repos rf) r = Some re \<Longrightarrow> seq (get_repo r) f rf = f re rf" "map_of (repos rf) r = None \<Longrightarrow> seq (get_repo r) f rf = (Err NotFound, rf)"
  by (simp_all add: get_repo_def fetch_or_seq)

lemma get_ws_seq:
  "find_ws rf r w = Some we \<Longrightarrow> seq (get_ws r w) f rf = f we rf" "find_ws rf r w = None \<Longrightarrow> seq (get_ws r w) f rf = (Err NotFound, rf)"
proof -
  show "seq (get_ws r w) f rf = f we rf" if w: "find_ws rf r w = Some we"
  proof -
    obtain re where "map_of (repos rf) r = Some re" "map_of (re_workspaces re) w = Some we" using w by (auto simp: find_ws_repo)
    then show ?thesis by (simp add: get_ws_def seq_assoc get_repo_seq fetch_or_seq)
  qed
  show "seq (get_ws r w) f rf = (Err NotFound, rf)" if "find_ws rf r w = None"
    using that by (cases "map_of (repos rf) r") (simp_all add: get_ws_def seq_assoc get_repo_seq fetch_or_seq find_ws_def)
qed

lemma find_ws_upd:
  "map_of (repos rf') = (map_of (repos rf))(r \<mapsto> re\<lparr>re_workspaces := ws\<rparr>) \<Longrightarrow>
   find_ws rf' q w = (if q = r then map_of ws w else find_ws rf q w)"
  by (simp add: find_ws_def)

lemma live_ok_repos:
  assumes "live_ok rf" and "stores rf' = stores rf" and "\<And>s l. live rf' s = Some l \<Longrightarrow> live rf s = Some l"
    and "\<And>q re'. map_of (repos rf') q = Some re' \<Longrightarrow> \<exists>re0. map_of (repos rf) q = Some re0 \<and> re_store re' = re_store re0"
  shows "live_ok rf'"
  by (rule live_ok_mono [OF assms(1,2)]) (use assms(3,4) in blast)+

lemma root_inv_register:
  assumes inv: "root_inv rf" and ok: "action_ok rf (ARegisterWs r w we)" and re: "map_of (repos rf) r = Some re"
    and free: "map_of (re_workspaces re) w = None"
    and rf': "rf' = (register_state r w we re rf)\<lparr>next_slot := ns\<rparr>" and ns: "next_slot rf \<le> ns" "we_slot we < ns"
  shows "root_inv rf'"
proof -
  have nsok: "ns_ok rf" and sl: "slots_ok rf" and named: "live_named rf" and lok: "live_ok rf" using inv by (auto simp: root_inv_def)
  note m = ns_ok_insert_ws(2) [OF nsok re, of w we]
  have m': "map_of (repos rf') = (map_of (repos rf))(r \<mapsto> re\<lparr>re_workspaces := bt_insert w we (re_workspaces re)\<rparr>)" using m by (simp add: rf')
  have wf: "bt_wf (re_workspaces re)" using ns_okD(5) [OF nsok re] by (simp add: repo_ok_def)
  have f: "find_ws rf' q x = (if q = r \<and> x = w then Some we else find_ws rf q x)" for q x
    using m wf re by (auto simp: rf' find_ws_def)
  have none: "find_ws rf r w = None" using re free by (simp add: find_ws_def)
  have same: "live rf' = live rf" "stores rf' = stores rf"
    by (simp_all add: rf' register_state_def add_child_frame update_repo_frame)
  have "slots_ok rf'" unfolding slots_ok_def
  proof (intro conjI allI impI)
    fix q x e assume "find_ws rf' q x = Some e"
    then have "e = we \<or> find_ws rf q x = Some e" using f by (auto split: if_splits)
    then show "we_slot e \<noteq> 0" "unat (we_slot e) < 2 ^ 24" "we_slot e < next_slot rf'"
      using ok ns slots_okD(1) [OF sl] by (auto simp: rf' intro: less_le_trans)
  next
    fix q x e q' x' e' assume "find_ws rf' q x = Some e" "find_ws rf' q' x' = Some e'" "we_slot e = we_slot e'"
    moreover have "find_ws rf a b = Some c \<Longrightarrow> we_slot c \<noteq> we_slot we" for a b c using ok by simp
    moreover have "find_ws rf' a b = Some c \<Longrightarrow> find_ws rf a b = Some c \<or> a = r \<and> b = w \<and> c = we" for a b c
      using f [of a b] by (simp split: if_splits)
    ultimately show "q = q'" "x = x'" using slots_okD(2) [OF sl, of q x e q' x' e'] by metis+
  qed
  moreover have "ns_ok rf'" using ns_ok_insert_ws(1) [OF nsok re] by (rule ns_ok_cong) (simp_all add: rf')
  moreover have "live_named rf'" by (rule live_named_sub [OF named]) (use f none in \<open>auto simp: same\<close>)
  moreover have "live_ok rf'" by (rule live_ok_repos [OF lok]) (use m' re in \<open>auto simp: same split: if_splits\<close>)
  ultimately show ?thesis by (simp add: root_inv_def)
qed

lemma root_inv_unregister:
  assumes inv: "root_inv rf" and re: "map_of (repos rf) r = Some re" and we: "map_of (re_workspaces re) w = Some we"
    and rf': "rf' = (unregister_state r w re rf)\<lparr>live := (live rf)(we_slot we := None)\<rparr>"
  shows "root_inv rf'"
proof -
  have nsok: "ns_ok rf" and sl: "slots_ok rf" and named: "live_named rf" and lok: "live_ok rf" using inv by (auto simp: root_inv_def)
  note m = ns_ok_remove_ws(2) [OF nsok re, of w]
  have m': "map_of (repos rf') = (map_of (repos rf))(r \<mapsto> re\<lparr>re_workspaces := bt_remove w (re_workspaces re)\<rparr>)" using m by (simp add: rf')
  have f: "find_ws rf' q x = (if q = r \<and> x = w then None else find_ws rf q x)" for q x
    using m re by (auto simp: rf' find_ws_def)
  have same: "live rf' = (live rf)(we_slot we := None)" "stores rf' = stores rf" "next_slot rf' = next_slot rf"
    by (simp_all add: rf' unregister_state_def remove_child_frame update_repo_frame)
  have here: "find_ws rf r w = Some we" using re we by (simp add: find_ws_def)
  have "slots_ok rf'" by (rule slots_ok_sub [OF sl]) (use f same in \<open>auto split: if_splits\<close>)
  moreover have "ns_ok rf'" using ns_ok_remove_ws(1) [OF nsok re] by (rule ns_ok_cong) (simp_all add: rf')
  moreover have "live_named rf'"
    by (rule live_named_sub [OF named]) (use f here same in \<open>auto split: if_splits\<close>)
  moreover have "live_ok rf'" by (rule live_ok_repos [OF lok]) (use m' re in \<open>auto simp: same split: if_splits\<close>)
  ultimately show ?thesis by (simp add: root_inv_def)
qed

lemma root_inv_drop_repo:
  assumes inv: "root_inv rf" and re: "map_of (repos rf) r = Some re"
  shows "root_inv (drop_repo_state r re rf)"
proof -
  define rf' where "rf' = drop_repo_state r re rf"
  have nsok: "ns_ok rf" and sl: "slots_ok rf" and named: "live_named rf" and lok: "live_ok rf" using inv by (auto simp: root_inv_def)
  note m = ns_ok_remove_repo(2) [OF nsok re, folded rf'_def]
  have f: "find_ws rf' q x = (if q = r then None else find_ws rf q x)" for q x using m by (simp add: find_ws_def)
  have same: "live rf' = (\<lambda>s. if s \<in> set (map (we_slot \<circ> snd) (re_workspaces re)) then None else live rf s)" "stores rf' = stores rf"
      "next_slot rf' = next_slot rf"
    by (simp_all add: rf'_def drop_repo_state_def remove_child_frame)
  have retired: "we_slot we \<in> set (map (we_slot \<circ> snd) (re_workspaces re))" if "find_ws rf r x = Some we" for x we
  proof -
    have "(x, we) \<in> set (re_workspaces re)" using that re by (simp add: find_ws_def map_of_SomeD)
    then show ?thesis by force
  qed
  have "slots_ok rf'" by (rule slots_ok_sub [OF sl]) (use f same in \<open>auto split: if_splits\<close>)
  moreover have "ns_ok rf'" using ns_ok_remove_repo(1) [OF nsok re] by (simp add: rf'_def)
  moreover have "live_named rf'"
    by (rule live_named_sub [OF named]) (use f retired in \<open>auto simp: same(1) split: if_splits\<close>)
  moreover have "live_ok rf'" by (rule live_ok_repos [OF lok]) (use m in \<open>auto simp: same split: if_splits\<close>)
  ultimately show ?thesis by (simp add: root_inv_def rf'_def)
qed

lemma find_ws_update:
  assumes "bt_wf (repos rf)" and "\<And>re. map_of (repos rf) r = Some re \<Longrightarrow> bt_wf (re_workspaces re)"
  shows "find_ws (update_ws r w f rf) q x = (if q = r \<and> x = w then map_option f (find_ws rf r w) else find_ws rf q x)"
proof (cases "map_of (repos rf) r")
  case None
  then show ?thesis by (auto simp: update_ws_def update_repo_def find_ws_def)
next
  case (Some re)
  then show ?thesis
    using assms(2) [OF Some] by (auto simp: update_ws_def find_ws_def map_of_update_repo [OF assms(1)] split: option.split)
qed

lemma root_inv_update_ws:
  assumes inv: "root_inv rf" and f: "\<And>we. find_ws rf r w = Some we \<Longrightarrow> we_slot (f we) = we_slot we"
  shows "root_inv (update_ws r w f rf)"
proof -
  have nsok: "ns_ok rf" and sl: "slots_ok rf" and named: "live_named rf" and lok: "live_ok rf" using inv by (auto simp: root_inv_def)
  define g where "g = (\<lambda>we. if we_slot (f we) = we_slot we then f we else we)"
  have g: "update_ws r w f rf = update_ws r w g rf"
    using f by (auto simp: update_ws_def update_repo_def g_def find_ws_def split: option.split)
  have fw: "find_ws (update_ws r w g rf) q x = (if q = r \<and> x = w then map_option g (find_ws rf r w) else find_ws rf q x)" for q x
    by (rule find_ws_update [OF ns_okD(1) [OF nsok]]) (use ns_okD(5) [OF nsok] in \<open>auto simp: repo_ok_def\<close>)
  have gs: "we_slot (g we) = we_slot we" for we by (simp add: g_def)
  have same: "live (update_ws r w g rf) = live rf" "stores (update_ws r w g rf) = stores rf" "next_slot (update_ws r w g rf) = next_slot rf"
    by (simp_all add: update_ws_def update_repo_frame)
  have "slots_ok (update_ws r w g rf)" by (rule slots_ok_sub [OF sl]) (auto simp: fw gs same split: if_splits)
  moreover have "ns_ok (update_ws r w g rf)" by (rule ns_ok_update_ws [OF nsok gs])
  moreover have "live_named (update_ws r w g rf)" by (rule live_named_sub [OF named]) (auto simp: fw gs same)
  moreover have "live_ok (update_ws r w g rf)"
  proof (rule live_ok_repos [OF lok])
    show "\<exists>re0. map_of (repos rf) q = Some re0 \<and> re_store re' = re_store re0" if "map_of (repos (update_ws r w g rf)) q = Some re'" for q re'
      using that unfolding update_ws_def map_of_update_repo [OF ns_okD(1) [OF nsok]] by (auto split: option.splits if_splits)
  qed (simp_all add: same)
  ultimately show ?thesis unfolding g by (simp add: root_inv_def)
qed

lemma register_ws_cases:
  assumes "register_workspace r w we rf = (x, rf')"
  obtains "rf' = rf" | re where "map_of (repos rf) r = Some re" "map_of (re_workspaces re) w = None"
    "rf' = (register_state r w we re rf)\<lparr>next_slot := (if we_slot we \<ge> next_slot rf then we_slot we + 1 else next_slot rf)\<rparr>"
proof (cases "map_of (repos rf) r")
  case None
  then show ?thesis using assms that(1) by (simp add: register_workspace_def get_repo_seq)
next
  case (Some re)
  have ns: "next_slot (register_state r w we re rf) = next_slot rf" by (simp add: register_state_def add_child_frame update_repo_frame)
  show ?thesis
  proof (cases "map_of (re_workspaces re) w")
    case None
    have "rf' = (register_state r w we re rf)\<lparr>next_slot := (if we_slot we \<ge> next_slot rf then we_slot we + 1 else next_slot rf)\<rparr>"
      using assms Some None ns by (auto simp: register_workspace_def get_repo_seq modifies_def Let_def register_state_def)
    then show ?thesis using that(2) [OF Some None] by blast
  next
    case (Some e)
    then show ?thesis using assms \<open>map_of (repos rf) r = Some re\<close> that(1) by (simp add: register_workspace_def get_repo_seq throw_apply)
  qed
qed

lemma root_inv_register_ws:
  assumes inv: "root_inv rf" and ok: "action_ok rf (ARegisterWs r w we)" and run: "register_workspace r w we rf = (x, rf')"
  shows "root_inv rf'"
proof (cases rule: register_ws_cases [OF run])
  case 1
  then show ?thesis using inv by simp
next
  case (2 re)
  have "unat (we_slot we + 1) = unat (we_slot we) + 1" using ok by (simp add: unat_word_ariths)
  then have "we_slot we < (if we_slot we \<ge> next_slot rf then we_slot we + 1 else next_slot rf)"
    "next_slot rf \<le> (if we_slot we \<ge> next_slot rf then we_slot we + 1 else next_slot rf)"
    by (simp_all add: word_less_nat_alt word_le_nat_alt)
  then show ?thesis using root_inv_register [OF inv ok 2] by blast
qed

lemma finalize_register:
  assumes "map_of (repos rf) r = Some re" and "map_of (re_workspaces re) w = Some we"
  shows "add_child (re_inode re) w (to_global (we_slot we) ROOT_INODE) (update_ws r w (\<lambda>w. w\<lparr>we_state := Active\<rparr>) rf) =
    register_state r w (we\<lparr>we_state := Active\<rparr>) re rf"
  using assms by (simp add: register_state_def update_ws_def update_repo_def)

lemma root_inv_finalize:
  assumes inv: "root_inv rf" and run: "finalize_workspace r w rf = (x, rf')"
  shows "root_inv rf'"
proof (cases "find_ws rf r w")
  case None
  then show ?thesis using run inv
    by (cases "map_of (repos rf) r") (simp_all add: finalize_workspace_def get_repo_seq get_ws_seq)
next
  case (Some we)
  then obtain re where re: "map_of (repos rf) r = Some re" "map_of (re_workspaces re) w = Some we" by (auto simp: find_ws_repo)
  define f where "f = (\<lambda>w. w\<lparr>we_state := Active\<rparr> :: workspace_entry)"
  have up: "root_inv (update_ws r w f rf)" by (rule root_inv_update_ws [OF inv]) (simp add: f_def)
  define rf2 where "rf2 = add_child (re_inode re) w (to_global (we_slot we) ROOT_INODE) (update_ws r w f rf)"
  have "ns_ok rf2"
    using ns_ok_insert_ws(1) [OF _ re(1)] inv unfolding rf2_def f_def finalize_register [OF re] by (simp add: root_inv_def)
  moreover have "live_ok rf2" by (rule live_ok_mono [of "update_ws r w f rf"]) (use up in \<open>auto simp: root_inv_def rf2_def add_child_frame\<close>)
  moreover have "slots_ok rf2" by (rule slots_ok_cong [of "update_ws r w f rf"]) (use up in \<open>auto simp: root_inv_def rf2_def add_child_frame\<close>)
  moreover have "live_named rf2" using up by (simp add: root_inv_def live_named_def find_ws_def rf2_def add_child_frame)
  ultimately have "root_inv rf2" by (simp add: root_inv_def)
  moreover have "rf' = rf \<or> rf' = rf2"
    using run re Some by (auto simp: finalize_workspace_def get_repo_seq get_ws_seq ret_def modifies_def rf2_def f_def split: if_splits)
  ultimately show ?thesis using inv by auto
qed

lemma root_inv_remove_ws:
  assumes inv: "root_inv rf" and run: "remove_workspace r w rf = (x, rf')"
  shows "root_inv rf'"
proof (cases "find_ws rf r w")
  case None
  then show ?thesis using run inv
    by (cases "map_of (repos rf) r") (simp_all add: remove_workspace_def get_repo_seq get_ws_seq)
next
  case (Some we)
  then obtain re where re: "map_of (repos rf) r = Some re" "map_of (re_workspaces re) w = Some we" by (auto simp: find_ws_repo)
  have "rf' = (unregister_state r w re rf)\<lparr>live := (live rf)(we_slot we := None)\<rparr>"
    using run re Some
    by (auto simp: remove_workspace_def get_repo_seq get_ws_seq modifies_seq ret_def Let_def unregister_state_def remove_child_frame update_repo_frame)
  then show ?thesis using root_inv_unregister [OF inv re] by blast
qed

lemma root_inv_remove_repo:
  assumes inv: "root_inv rf" and run: "remove_repo r rf = (x, rf')"
  shows "root_inv rf'"
proof (cases "map_of (repos rf) r")
  case None
  then show ?thesis using run inv by (simp add: remove_repo_def get_repo_seq)
next
  case (Some re)
  have "rf' = drop_repo_state r re rf"
    using run Some by (simp add: remove_repo_def get_repo_seq modifies_seq ret_def Let_def drop_repo_state_def)
  then show ?thesis using root_inv_drop_repo [OF inv Some] by simp
qed

lemma root_inv_host: "root_inv rf \<Longrightarrow> root_inv (rf\<lparr>root_host := h\<rparr>)"
  by (erule root_inv_cong) auto

lemma root_inv_persist:
  assumes inv: "root_inv rf" and slot: "\<And>we. find_ws rf r w = Some we \<Longrightarrow> we_slot (f we) = we_slot we"
    and run: "seq (get_ws r w) (\<lambda>we. seq (persist_entry r w (f we)) (\<lambda>_. modifies (update_ws r w (\<lambda>_. f we)))) rf = (x, rf')"
  shows "root_inv rf'"
proof (cases "find_ws rf r w")
  case None
  then show ?thesis using run inv by (simp add: get_ws_seq)
next
  case (Some we)
  obtain y h where y: "workspace_write_to (root_toml rf) (entry_config (f we)) (workspace_config_path (storage_dir rf) r w) (root_host rf) = (y, h)"
    by fastforce
  have "root_inv (update_ws r w (\<lambda>_. f we) (rf\<lparr>root_host := h\<rparr>))"
    by (rule root_inv_update_ws [OF root_inv_host [OF inv]]) (use slot Some in \<open>auto simp: find_ws_def\<close>)
  moreover have "rf' = rf\<lparr>root_host := h\<rparr> \<or> rf' = update_ws r w (\<lambda>_. f we) (rf\<lparr>root_host := h\<rparr>)"
    using run y unfolding get_ws_seq(1) [OF Some] by (cases y) (auto simp: seq_apply persist_entry_def modifies_def)
  ultimately show ?thesis using root_inv_host [OF inv] by auto
qed

lemma root_inv_get_workspace:
  assumes inv: "root_inv rf" and run: "get_workspace r w rf = (x, rf')"
  shows "root_inv rf'"
proof (cases "find_ws rf r w")
  case None
  then show ?thesis using run inv
    by (cases "map_of (repos rf) r") (simp_all add: get_workspace_def get_repo_seq get_ws_seq)
next
  case (Some we)
  then obtain re where re: "map_of (repos rf) r = Some re" "map_of (re_workspaces re) w = Some we" by (auto simp: find_ws_repo)
  define i where "i = info_of r w re we"
  obtain h rf1 where h: "hydrate_workspace i rf = (h, rf1)" by fastforce
  then have rf1: "rf1 = rf" by (rule hydrate_workspace_state)
  have "rf' = rf \<or> (\<exists>fs. h = Ok fs \<and> rf' = insert_live i fs rf)"
    using run re Some h rf1 unfolding get_workspace_def get_repo_seq(1) [OF re(1)] get_ws_seq(1) [OF Some] reads_seq i_def [symmetric]
    by (cases h) (auto simp: ret_def seq_apply modifies_def split: if_splits)
  moreover have "root_inv (insert_live i fs rf)" if "h = Ok fs" for fs
    by (rule root_inv_insert [OF inv h [unfolded that]]) (use Some in \<open>auto simp: i_def info_of_def\<close>)
  ultimately show ?thesis using inv by auto
qed

lemma root_inv_update_live:
  assumes inv: "root_inv rf" and f: "\<And>l. lv_fs (f l) = lv_fs l \<and> lv_store (f l) = lv_store l \<and>
      lv_repo_name (f l) = lv_repo_name l \<and> lv_workspace_name (f l) = lv_workspace_name l"
  shows "root_inv (update_live r w f rf)"
proof -
  define rf' where "rf' = update_live r w f rf"
  have fr: "repos rf' = repos rf" "synthetic_dirs rf' = synthetic_dirs rf" "next_synthetic rf' = next_synthetic rf" "next_slot rf' = next_slot rf"
      "stores rf' = stores rf"
    by (auto simp: rf'_def update_live_def split: option.split)
  have l: "\<exists>l. live rf s = Some l \<and> (l' = l \<or> l' = f l)" if "live rf' s = Some l'" for s l'
    using that by (auto simp: rf'_def update_live_def split: option.splits if_splits)
  have "live_ok rf'"
  proof (rule live_ok_mono [OF _ fr(5)])
    show "\<exists>l0. live rf s = Some l0 \<and> lv_fs l' = lv_fs l0 \<and> lv_store l' = lv_store l0" if "live rf' s = Some l'" for s l'
      using l [OF that] f by metis
  qed (use inv fr in \<open>auto simp: root_inv_def\<close>)
  moreover have "live_named rf'"
  proof (rule live_named_sub [of rf])
    show "\<exists>l. live rf s = Some l \<and> lv_repo_name l' = lv_repo_name l \<and> lv_workspace_name l' = lv_workspace_name l" if "live rf' s = Some l'" for s l'
      using l [OF that] f by metis
  qed (use inv fr in \<open>auto simp: root_inv_def find_ws_def\<close>)
  ultimately show ?thesis unfolding rf'_def [symmetric] by (rule root_inv_live [OF inv]) (rule fr)+
qed

lemma root_inv_register_repo:
  assumes inv: "root_inv rf" and ok: "stores rf st \<noteq> None" "unat (next_synthetic rf) < 2 ^ 40 - 1"
  shows "root_inv (register_repo n url st rem rf)"
proof (cases "map_of (repos rf) n")
  case (Some re)
  then show ?thesis using inv by (simp add: register_repo_def)
next
  case None
  define rf' where "rf' = register_repo n url st rem rf"
  have nsok: "ns_ok rf" using inv by (simp add: root_inv_def)
  have fr: "next_slot rf' = next_slot rf" "stores rf' = stores rf" "live rf' = live rf"
    using None by (simp_all add: rf'_def register_repo_def Let_def add_child_frame)
  obtain e where m: "map_of (repos rf') = (map_of (repos rf))(n \<mapsto> e)" "re_store e = st" "re_workspaces e = []"
    using None ns_okD(1) [OF nsok] by (auto simp: rf'_def register_repo_def Let_def add_child_frame)
  have f: "find_ws rf' q x = find_ws rf q x" for q x using m None by (simp add: find_ws_def)
  have "live_ok rf'"
  proof (rule live_okI)
    show "stores rf' (re_store re) \<noteq> None" if "map_of (repos rf') q = Some re" for q re
      using that m ok(1) live_okD(2) [of rf q re] inv by (auto simp: fr root_inv_def split: if_splits)
    show "stores rf' (lv_store l) \<noteq> None \<and> fs_inv False (live_view rf' l)" if "live rf' s = Some l" for s l
      using that live_okD(3) [of rf s l] inv by (simp add: fr root_inv_def live_view_def)
    show "git_laws (glib x)" if "stores rf' a = Some x" for a x using that live_okD(1) [of rf a x] inv by (simp add: fr root_inv_def)
  qed
  moreover have "ns_ok rf'" unfolding rf'_def by (rule ns_ok_register_repo [OF nsok ok(2)])
  moreover have "slots_ok rf'" by (rule slots_ok_sub [of rf]) (use inv in \<open>auto simp: f fr root_inv_def\<close>)
  moreover have "live_named rf'" using inv by (simp add: live_named_def f fr root_inv_def)
  ultimately show ?thesis by (simp add: root_inv_def rf'_def)
qed

lemma root_inv_set_remote:
  assumes inv: "root_inv rf" shows "root_inv (snd (set_repo_remote r url rem rf))"
proof -
  define g where "g = (\<lambda>re. re\<lparr>re_url := url, re_remote := rem\<rparr> :: repo_entry)"
  define rf' where "rf' = update_repo r g rf"
  have nsok: "ns_ok rf" using inv by (simp add: root_inv_def)
  have m: "map_of (repos rf') = (case map_of (repos rf) r of Some re \<Rightarrow> (map_of (repos rf))(r \<mapsto> g re) | None \<Rightarrow> map_of (repos rf))"
    unfolding rf'_def by (rule map_of_update_repo [OF ns_okD(1) [OF nsok]])
  have f: "find_ws rf' q x = find_ws rf q x" for q x using m by (auto simp: find_ws_def g_def split: option.split)
  have fr: "next_slot rf' = next_slot rf" "stores rf' = stores rf" "live rf' = live rf" by (simp_all add: rf'_def update_repo_frame)
  have "ns_ok rf'" unfolding rf'_def
    by (rule ns_ok_update_repo [OF nsok]) (use ns_okD(5) [OF nsok] in \<open>auto simp: g_def repo_ok_def\<close>)
  moreover have "live_ok rf'"
    by (rule live_ok_repos [of rf]) (use inv m in \<open>auto simp: fr root_inv_def g_def split: option.splits if_splits\<close>)
  moreover have "slots_ok rf'" by (rule slots_ok_sub [of rf]) (use inv in \<open>auto simp: f fr root_inv_def\<close>)
  moreover have "live_named rf'" using inv by (simp add: live_named_def f fr root_inv_def)
  ultimately show ?thesis by (simp add: root_inv_def rf'_def set_repo_remote_def g_def)
qed

lemma root_inv_alloc:
  assumes inv: "root_inv rf" and run: "alloc_slot rf = (x, rf')"
  shows "root_inv rf'"
proof (cases "next_slot rf = - 1")
  case True
  then show ?thesis using run inv by (simp add: alloc_slot_def reads_seq panic_def)
next
  case False
  then have "1 + next_slot rf \<noteq> 0" by (metis add.commute add_eq_0_iff)
  then have "unat (next_slot rf + 1) = unat (next_slot rf) + 1" using unatSuc [of "next_slot rf"] by (simp add: add.commute)
  then have "next_slot rf \<le> next_slot rf + 1" by (simp add: word_le_nat_alt)
  moreover have "rf' = rf\<lparr>next_slot := next_slot rf + 1\<rparr>" using run False by (simp add: alloc_slot_def reads_seq modifies_seq ret_def)
  ultimately show ?thesis using root_inv_cong [OF inv, of rf'] by simp
qed

lemma root_act_inv:
  assumes inv: "root_inv rf" and ok: "action_ok rf a" and run: "root_act a rf = (x, rf')"
  shows "root_inv rf'"
proof (cases a)
  case (ACall c)
  then show ?thesis using run root_inv_call [OF inv] ignore_state by (metis root_act.simps(1))
next
  case (AService s c)
  then obtain y where y: "on_live s (fs_exec c) rf = (y, rf')" using run ignore_state by (metis root_act.simps(2))
  show ?thesis by (rule root_inv_on_live [OF inv _ y]) (use ok AService in \<open>auto intro: fs_exec_evo\<close>)
next
  case (ARegisterRepo n url st rem)
  then have "stores rf st \<noteq> None" "unat (next_synthetic rf) < 2 ^ 40 - 1" using ok by simp_all
  from root_inv_register_repo [OF inv this] show ?thesis using run ARegisterRepo by (auto simp: modifies_def)
next
  case (ARegisterWs r w we)
  then show ?thesis using run ok root_inv_register_ws [OF inv, of r w we] by simp
next
  case (AFinalize r w)
  then show ?thesis using run root_inv_finalize [OF inv] by simp
next
  case (ARemoveWs r w)
  then show ?thesis using run root_inv_remove_ws [OF inv] ignore_state by (metis root_act.simps(6))
next
  case (ARemoveRepo r)
  then show ?thesis using run root_inv_remove_repo [OF inv] ignore_state by (metis root_act.simps(7))
next
  case AAllocSlot
  then show ?thesis using run root_inv_alloc [OF inv] ignore_state by (metis root_act.simps(8))
next
  case (ASetCheckout r w p q)
  have "seq (get_ws r w) (\<lambda>we. seq (persist_entry r w (we\<lparr>we_op_id := p, we_workspace_id := q\<rparr>)) (\<lambda>_.
      modifies (update_ws r w (\<lambda>_. we\<lparr>we_op_id := p, we_workspace_id := q\<rparr>)))) rf = (x, rf')"
    using run ASetCheckout by (simp add: set_checkout_state_def Let_def)
  from root_inv_persist [OF inv _ this] show ?thesis by simp
next
  case (ASetRootTree r w t m)
  define f where "f = (\<lambda>we :: workspace_entry. we\<lparr>we_root_tree_id := t, we_commit_mtime_millis := (if m \<noteq> 0 then m else we_commit_mtime_millis we)\<rparr>)"
  have "seq (get_ws r w) (\<lambda>we. seq (persist_entry r w (f we)) (\<lambda>_. modifies (update_ws r w (\<lambda>_. f we)))) rf = (x, rf')"
    using run ASetRootTree by (simp add: set_root_tree_id_def Let_def f_def)
  from root_inv_persist [OF inv _ this] show ?thesis by (simp add: f_def)
next
  case (AGetWorkspace r w)
  then show ?thesis using run root_inv_get_workspace [OF inv] ignore_state by (metis root_act.simps(11))
next
  case (ASetRemote r url rem)
  then show ?thesis using run root_inv_set_remote [OF inv] by (auto simp: modifies_def)
next
  case (ASetHead r w h)
  then show ?thesis using run root_inv_update_live [OF inv] by (auto simp: modifies_def set_last_exported_head_def)
next
  case (ASetBookmarks r w b)
  then show ?thesis using run root_inv_update_live [OF inv] by (auto simp: modifies_def set_last_exported_bookmarks_def)
qed

end
