(* ===== verification/Root_Spec.thy ===== *)
theory Root_Spec
  imports Root_Inv Kiki_Moves
begin

text \<open>
  Properties of the routing layer over every reachable state: its invariant, what the synthetic
  directories show, the life of a workspace's slot, and the order in which workspace metadata is
  persisted and published (\<^verbatim>\<open>src/daemon/src/vfs/root_fs.rs\<close>).
\<close>

section \<open>Reachable states\<close>

lemma root_inv_new:
  assumes "\<forall>a st. sts a = Some st \<longrightarrow> git_laws (glib st)"
  shows "root_inv (root_fs_new dir ns now sts paths ready h toml chain mkdirs)"
  using assms
  by (auto simp: root_inv_def live_ok_def ns_ok_def slots_ok_def live_named_def find_ws_def root_fs_new_def GROOT_def)

lemma root_reach_inv: "root_reach rf0 rf \<Longrightarrow> root_inv rf0 \<Longrightarrow> root_inv rf"
  by (induction rule: root_reach.induct) (auto intro: root_act_inv)

text \<open>
  C11: Whatever sequence of calls through the mount, registrations, removals and service requests the daemon
  has served, every live workspace satisfies the invariant of its own filesystem over the store it
  shares, it is a registered workspace in its own slot, and the synthetic directories list exactly the
  registered repositories and workspaces.
\<close>

theorem routing_invariant:
  assumes "\<forall>a st. sts a = Some st \<longrightarrow> git_laws (glib st)"
    and "root_reach (root_fs_new dir ns now sts paths ready h toml chain mkdirs) rf"
  shows "root_inv rf"
  using root_reach_inv [OF assms(2) root_inv_new [OF assms(1)]] .

definition ex_we :: workspace_entry where
  "ex_we = \<lparr>we_slot = 1, we_state = Pending, we_root_tree_id = [], we_op_id = [], we_workspace_id = [], we_commit_mtime_millis = 0\<rparr>"

definition ex_root0 :: "mem_db root_fs" where
  "ex_root0 = root_fs_new ''/s'' 1 0 [0 \<mapsto> ex_store] (\<lambda>_. ''/s/git'') (\<lambda>_. False) ex_host ex_toml (\<lambda>_. None) (\<lambda>_. Inr ())"

definition ex_root1 :: "mem_db root_fs" where
  "ex_root1 = register_repo ''r'' ''dir:///x'' 0 None ex_root0"

definition ex_root :: "mem_db root_fs" where
  "ex_root = snd (register_workspace ''r'' ''w'' ex_we ex_root1)"

lemma ex_stores: "\<forall>a st. [0 \<mapsto> ex_store] a = Some st \<longrightarrow> git_laws (glib st)"
  using ex_laws by auto

lemma ex_root_reach: "root_reach ex_root0 ex_root"
proof -
  have "root_reach ex_root0 ex_root1"
    by (rule rr_step [OF rr_init, of _ "ARegisterRepo ''r'' ''dir:///x'' 0 None" "Ok ()"])
      (simp_all add: ex_root0_def root_fs_new_def GROOT_def ex_root1_def modifies_def)
  then show ?thesis
    by (rule rr_step [of _ _ "ARegisterWs ''r'' ''w'' ex_we" "fst (register_workspace ''r'' ''w'' ex_we ex_root1)"])
      (simp_all add: ex_we_def ex_root_def ex_root1_def ex_root0_def root_fs_new_def register_repo_def Let_def add_child_def find_ws_def)
qed

theorem routing_invariant_witness: "root_inv ex_root"
  by (rule routing_invariant [OF ex_stores]) (rule ex_root_reach [unfolded ex_root0_def])

lemma ex_root_inv: "root_inv ex_root"
  using root_reach_inv [OF ex_root_reach] root_inv_new [OF ex_stores] by (simp add: ex_root0_def)

section \<open>What the synthetic directories show\<close>

lemma slot_of_small: "unat g < 2 ^ 40 \<Longrightarrow> slot_of g = 0"
proof -
  assume "unat g < 2 ^ 40"
  then have "drop_bit SLOT_BITS g = 0"
    by (intro bit_word_eqI) (use bit_small_word [of g 40] in \<open>auto simp: SLOT_BITS_def bit_simps\<close>)
  then show ?thesis by (simp add: slot_of_def)
qed

lemma repo_inode_slot:
  assumes "ns_ok rf" and "map_of (repos rf) r = Some re"
  shows "slot_of (re_inode re) = 0"
proof -
  have "unat (re_inode re) < unat (next_synthetic rf)" using ns_okD(5) [OF assms] by (simp add: repo_ok_def word_less_nat_alt)
  then show ?thesis using ns_okD(3) [OF assms(1)] by (intro slot_of_small) simp
qed

lemma synthetic_lookup_dir:
  "synthetic_dirs rf p = Some d \<Longrightarrow> synthetic_lookup p n rf = (case map_of (sd_children d) n of Some c \<Rightarrow> (Ok c, rf) | None \<Rightarrow> (Err NotFound, rf))"
  by (simp add: synthetic_lookup_def get_synthetic_def fetch_or_def seq_apply split: option.split)

lemma slot_of_root: "unat s < 2 ^ 24 \<Longrightarrow> slot_of (to_global s ROOT_INODE) = s"
  using bit_less_word [of s 24] bit_small_nat [of ROOT_INODE 40]
  by (intro bit_word_eqI) (auto simp: slot_of_def to_global_def SLOT_BITS_def bit_simps ROOT_INODE_def)

lemma pending_in_iff:
  assumes ns: "ns_ok rf" and sl: "slots_ok rf" and here: "find_ws rf r w = Some we"
  shows "pending_in rf w (we_slot we) \<longleftrightarrow> we_state we = Pending"
proof
  assume "pending_in rf w (we_slot we)"
  then obtain q re' where q: "(q, re') \<in> set (repos rf)"
      "case map_of (re_workspaces re') w of Some we' \<Rightarrow> we_slot we' = we_slot we \<and> we_state we' = Pending | None \<Rightarrow> False"
    unfolding pending_in_def by force
  then obtain we' where m: "(q, re') \<in> set (repos rf)" "map_of (re_workspaces re') w = Some we'"
      "we_slot we' = we_slot we" "we_state we' = Pending"
    by (cases "map_of (re_workspaces re') w") simp_all
  have "find_ws rf q w = Some we'" using m bt_wf_map_of_iff [OF ns_okD(1) [OF ns]] unfolding find_ws_repo by blast
  then show "we_state we = Pending" using here m slots_okD(2) [OF sl, of q w we' r w we] by simp
next
  assume "we_state we = Pending"
  moreover obtain re where "map_of (repos rf) r = Some re" "map_of (re_workspaces re) w = Some we"
    using here by (auto simp: find_ws_repo)
  ultimately show "pending_in rf w (we_slot we)" using map_of_SomeD [of "repos rf" r re]
    by (force simp: pending_in_def)
qed

lemma repo_lists_active:
  assumes ns: "ns_ok rf" and sl: "slots_ok rf" and re: "map_of (repos rf) r = Some re"
    and e: "synthetic_dirs rf (re_inode re) = Some e" "bt_wf (sd_children e)"
      "map_of (sd_children e) = map_option (\<lambda>we. to_global (we_slot we) ROOT_INODE) \<circ> map_of (re_workspaces re)"
  shows "\<exists>es. root_readdir (re_inode re) rf = (Ok es, rf) \<and>
    (w \<in> ge_name ` set es \<longleftrightarrow> (\<exists>we. map_of (re_workspaces re) w = Some we \<and> we_state we = Active))"
proof -
  define es where "es = [\<lparr>ge_inode = i, ge_name = n, ge_kind = Directory\<rparr>. (n, i) \<leftarrow> sd_children e, slot_of i = 0 \<or> \<not> pending_in rf n (slot_of i)]"
  have run: "root_readdir (re_inode re) rf = (Ok es, rf)"
    using e(1) repo_inode_slot [OF ns re]
    by (simp add: root_readdir_def synthetic_readdir_def get_synthetic_def fetch_or_seq(1) reads_def es_def)
  have mem: "w \<in> ge_name ` set es \<longleftrightarrow> (\<exists>i. map_of (sd_children e) w = Some i \<and> (slot_of i = 0 \<or> \<not> pending_in rf w (slot_of i)))"
    unfolding bt_wf_map_of_iff [OF e(2)] es_def by force
  have ws: "slot_of (to_global (we_slot we) ROOT_INODE) = we_slot we" "we_slot we \<noteq> 0"
      "pending_in rf w (we_slot we) \<longleftrightarrow> we_state we = Pending" if "map_of (re_workspaces re) w = Some we" for we
    using slots_okD(1) [OF sl, of r w we] re that slot_of_root pending_in_iff [OF ns sl, of r w we] by (auto simp: find_ws_repo)
  have active: "we_state we = Active \<longleftrightarrow> we_state we \<noteq> Pending" for we :: workspace_entry
    by (cases "we_state we") simp_all
  have "w \<in> ge_name ` set es \<longleftrightarrow> (\<exists>we. map_of (re_workspaces re) w = Some we \<and> we_state we = Active)"
    unfolding mem e(3) active using ws by (cases "map_of (re_workspaces re) w") simp_all
  then show ?thesis using run by blast
qed

text \<open>
  C14: In every state that satisfies the invariant, the name of a repository resolves to its directory and the name
  of a workspace to the root inode of its slot, whether the workspace is pending or active; every other
  name is not found. A repository's listing shows a workspace exactly when it is active. (The comments on
  \<^verbatim>\<open>register_workspace\<close> and \<^verbatim>\<open>finalize_workspace\<close> say that a pending workspace is hidden from lookup as well; the code
  needs it there, so that the command line can fill the workspace before it is finalized.)
\<close>

theorem namespace_lookup:
  assumes inv: "root_inv rf"
  shows "root_lookup GROOT r rf = (case map_of (repos rf) r of Some re \<Rightarrow> (Ok (re_inode re), rf) | None \<Rightarrow> (Err NotFound, rf)) \<and>
    (\<forall>re. map_of (repos rf) r = Some re \<longrightarrow>
       root_lookup (re_inode re) w rf = (case map_of (re_workspaces re) w of
           Some we \<Rightarrow> (Ok (to_global (we_slot we) ROOT_INODE), rf) | None \<Rightarrow> (Err NotFound, rf)) \<and>
       (\<exists>es. root_readdir (re_inode re) rf = (Ok es, rf) \<and>
         (w \<in> ge_name ` set es \<longleftrightarrow> (\<exists>we. map_of (re_workspaces re) w = Some we \<and> we_state we = Active))))"
proof -
  have ns: "ns_ok rf" and sl: "slots_ok rf" using inv by (auto simp: root_inv_def)
  obtain d where d: "synthetic_dirs rf GROOT = Some d" "map_of (sd_children d) = map_option re_inode \<circ> map_of (repos rf)"
    using ns_okD(4) [OF ns] by blast
  have "slot_of GROOT = 0" by (rule slot_of_small) (simp add: GROOT_def)
  then have "root_lookup GROOT r rf = (case map_of (repos rf) r of Some re \<Rightarrow> (Ok (re_inode re), rf) | None \<Rightarrow> (Err NotFound, rf))"
    using synthetic_lookup_dir [OF d(1)] d(2) by (simp add: root_lookup_def split: option.split)
  moreover have "root_lookup (re_inode re) w rf = (case map_of (re_workspaces re) w of
           Some we \<Rightarrow> (Ok (to_global (we_slot we) ROOT_INODE), rf) | None \<Rightarrow> (Err NotFound, rf)) \<and>
       (\<exists>es. root_readdir (re_inode re) rf = (Ok es, rf) \<and>
         (w \<in> ge_name ` set es \<longleftrightarrow> (\<exists>we. map_of (re_workspaces re) w = Some we \<and> we_state we = Active)))"
    if re: "map_of (repos rf) r = Some re" for re
  proof -
    obtain e where e: "synthetic_dirs rf (re_inode re) = Some e" "bt_wf (sd_children e)"
        "map_of (sd_children e) = map_option (\<lambda>we. to_global (we_slot we) ROOT_INODE) \<circ> map_of (re_workspaces re)"
      using repo_okD(2) [OF ns_okD(5) [OF ns re]] by blast
    show ?thesis using repo_lists_active [OF ns sl re e] synthetic_lookup_dir [OF e(1)] e(3) repo_inode_slot [OF ns re]
      by (simp add: root_lookup_def split: option.split)
  qed
  ultimately show ?thesis by blast
qed

section \<open>A workspace for the witnesses\<close>

definition ex_live :: "mem_db root_fs" where
  "ex_live = snd (get_workspace ''r'' ''w'' ex_root)"

lemmas ex_root_defs = ex_root_def ex_root1_def ex_root0_def ex_we_def root_fs_new_def register_repo_def register_workspace_def Let_def
  add_child_def get_repo_def fetch_or_def seq_apply modifies_def update_repo_def GROOT_def

lemma ex_root_ws: "find_ws ex_root ''r'' ''w'' = Some ex_we" "map_of (repos ex_root) ''r'' = Some \<lparr>re_url = ''dir:///x'', re_inode = 2, re_store = 0, re_remote = None, re_workspaces = [(''w'', ex_we)]\<rparr>"
    "live ex_root = Map.empty" "stores ex_root = [0 \<mapsto> ex_store]"
  by (simp_all add: find_ws_def ex_root_defs)

theorem namespace_lookup_witness:
  "root_lookup GROOT ''r'' ex_root = (Ok 2, ex_root) \<and>
   root_lookup 2 ''w'' ex_root = (Ok (to_global 1 ROOT_INODE), ex_root) \<and>
   root_lookup 2 ''v'' ex_root = (Err NotFound, ex_root) \<and> root_lookup GROOT ''q'' ex_root = (Err NotFound, ex_root) \<and>
   we_state ex_we = Pending \<and> (\<exists>es. root_readdir 2 ex_root = (Ok es, ex_root) \<and> ''w'' \<notin> ge_name ` set es)"
proof -
  have q: "map_of (repos ex_root) ''q'' = None" by (simp add: ex_root_defs)
  have we: "we_slot ex_we = 1" "we_state ex_we = Pending" by (simp_all add: ex_we_def)
  note look = namespace_lookup [OF ex_root_inv]
  have "root_lookup GROOT ''r'' ex_root = (Ok 2, ex_root)" using look [of "''r''"] ex_root_ws(2) by simp
  moreover have "root_lookup GROOT ''q'' ex_root = (Err NotFound, ex_root)" using look [of "''q''"] q by simp
  moreover have "root_lookup 2 ''v'' ex_root = (Err NotFound, ex_root)" using look [of "''r''" "''v''"] ex_root_ws(2) by simp
  moreover have "root_lookup 2 ''w'' ex_root = (Ok (to_global 1 ROOT_INODE), ex_root)"
      "\<exists>es. root_readdir 2 ex_root = (Ok es, ex_root) \<and> ''w'' \<notin> ge_name ` set es"
    using look [of "''r''" "''w''"] ex_root_ws(2) we by auto
  ultimately show ?thesis using we by blast
qed

lemma ex_live_slot: "\<exists>l. live ex_live 1 = Some l"
  unfolding ex_live_def get_workspace_def get_repo_seq(1) [OF ex_root_ws(2)] get_ws_seq(1) [OF ex_root_ws(1)] reads_seq
  by (simp add: ex_root_ws ex_we_def info_of_def hydrate_workspace_def Let_def seq_apply modifies_def ret_def insert_live_def)

theorem routed_call_refines_witness:
  "\<exists>r fs. fs_exec (Getattr ROOT_INODE) (live_view ex_live (the (live ex_live 1))) = (r, fs) \<and>
     fst (root_exec (Getattr (unat (to_global 1 ROOT_INODE))) ex_live) =
       (case r of Ok a \<Rightarrow> Ok (globalize 1 a) | Err e \<Rightarrow> Err e | Panic \<Rightarrow> Panic | Diverge \<Rightarrow> Diverge)"
proof -
  obtain r fs where run: "fs_exec (Getattr ROOT_INODE) (live_view ex_live (the (live ex_live 1))) = (r, fs)" by fastforce
  obtain l where l: "live ex_live 1 = Some l" using ex_live_slot by blast
  have "call_slot (Getattr (unat (to_global 1 ROOT_INODE))) = Some 1" "localize (Getattr (unat (to_global 1 ROOT_INODE))) = Getattr ROOT_INODE"
    by (simp_all, code_simp+)
  from routed_call_refines [OF this(1) _ l, unfolded this(2), of r fs] run l show ?thesis by simp
qed

theorem mount_calls_isolated_witness: "root_exec (Mkdir 1 ''x'') ex_root = (Err PermissionDenied, ex_root)"
proof -
  obtain r rf' where run: "root_exec (Mkdir 1 ''x'') ex_root = (r, rf')" by fastforce
  have "call_slot (Mkdir 1 ''x'') = Some 0" by (simp, code_simp)
  then show ?thesis using mount_calls_isolated [OF run] run
    by (auto simp: greply_def root_mkdir_def new_entry_def throw_apply)
qed

section \<open>Slots\<close>

lemma next_slot_update [simp]:
  "next_slot (update_repo r f rf) = next_slot rf" "next_slot (add_child d n i rf) = next_slot rf" "next_slot (remove_child d n rf) = next_slot rf"
  "next_slot (update_ws r w g rf) = next_slot rf" "next_slot (update_live r w h rf) = next_slot rf"
  "next_slot (register_repo n url st rem rf) = next_slot rf" "next_slot (snd (set_repo_remote n url rem rf)) = next_slot rf"
  by (auto simp: update_repo_def add_child_def remove_child_def update_ws_def update_live_def register_repo_def Let_def set_repo_remote_def
      split: option.split)

lemma next_slot_call: "root_exec c rf = (r, rf') \<Longrightarrow> next_slot rf' = next_slot rf"
proof (cases "call_slot c = Some 0 \<or> call_slot c = None")
  case True
  then show "root_exec c rf = (r, rf') \<Longrightarrow> next_slot rf' = next_slot rf" using synthetic_call [OF True] by blast
next
  case False
  then obtain s where s: "call_slot c = Some s" "s \<noteq> 0" by auto
  assume "root_exec c rf = (r, rf')"
  then have "same_elsewhere s rf rf'" using in_workspace_elsewhere unfolding routed_call [OF s] by blast
  then show "next_slot rf' = next_slot rf" by (simp add: same_elsewhere_def)
qed

lemma next_slot_persist:
  assumes "seq (get_ws r w) (\<lambda>we. seq (persist_entry r w (f we)) (\<lambda>_. modifies (update_ws r w (\<lambda>_. f we)))) rf = (x, rf')"
  shows "next_slot rf' = next_slot rf"
proof (cases "find_ws rf r w")
  case None
  then show ?thesis using assms by (simp add: get_ws_seq)
next
  case (Some we)
  show ?thesis using assms unfolding get_ws_seq(1) [OF Some]
    by (auto simp: seq_apply persist_entry_def modifies_def split: prod.splits sum.splits)
qed

lemma suc_gt: "(s::slot) \<noteq> - 1 \<Longrightarrow> s < s + 1"
proof -
  assume "s \<noteq> - 1"
  then have "1 + s \<noteq> 0" by (metis add.commute add_eq_0_iff)
  then show ?thesis using unatSuc [of s] by (simp add: add.commute word_less_nat_alt)
qed

lemma small_not_max: "unat (s::slot) < 2 ^ 24 \<Longrightarrow> s \<noteq> - 1"
  by (auto simp: unsigned_minus_1_eq_mask mask_eq_exp_minus_1)

lemma next_slot_register:
  assumes "register_workspace r w we rf = (x, rf')" and "unat (we_slot we) < 2 ^ 24"
  shows "next_slot rf \<le> next_slot rf'"
  using assms suc_gt [OF small_not_max [OF assms(2)]]
  by (cases "map_of (repos rf) r") (auto simp: register_workspace_def get_repo_seq throw_apply modifies_def Let_def split: if_splits)

lemma next_slot_hydrate:
  assumes "get_workspace r w rf = (x, rf')"
  shows "next_slot rf' = next_slot rf"
proof (cases "find_ws rf r w")
  case None
  then show ?thesis using assms by (cases "map_of (repos rf) r") (simp_all add: get_workspace_def get_repo_seq get_ws_seq)
next
  case (Some we)
  then obtain re where re: "map_of (repos rf) r = Some re" by (auto simp: find_ws_repo)
  show ?thesis using assms unfolding get_workspace_def get_repo_seq(1) [OF re] get_ws_seq(1) [OF Some] reads_seq
    by (auto simp: ret_def seq_apply modifies_def insert_live_frame dest: hydrate_workspace_state split: if_splits prod.splits outcome.splits)
qed

lemma next_slot_mono:
  assumes ok: "action_ok rf a" and run: "root_act a rf = (r, rf')"
  shows "next_slot rf \<le> next_slot rf'"
proof (cases a)
  case (ACall c)
  then show ?thesis using run next_slot_call ignore_state by (metis order_refl root_act.simps(1))
next
  case (AService s c)
  then obtain x where "on_live s (fs_exec c) rf = (x, rf')" using run ignore_state by (metis root_act.simps(2))
  then show ?thesis by (auto simp: on_live_def split: option.splits prod.splits)
next
  case (ARegisterWs q w we)
  then show ?thesis using run ok next_slot_register [of q w we rf r rf'] by simp
next
  case (AFinalize q w)
  then show ?thesis using run
    by (auto simp: finalize_workspace_def seq_apply get_repo_def get_ws_def fetch_or_def ret_def modifies_def split: option.splits if_splits)
next
  case (ARemoveWs q w)
  then show ?thesis using run
    by (auto simp: ignore_def remove_workspace_def seq_apply get_repo_def get_ws_def fetch_or_def ret_def modifies_def Let_def split: option.splits)
next
  case (ARemoveRepo q)
  then show ?thesis using run
    by (auto simp: ignore_def remove_repo_def seq_apply get_repo_def fetch_or_def ret_def modifies_def Let_def split: option.splits)
next
  case AAllocSlot
  then show ?thesis using run suc_gt [of "next_slot rf"]
    by (auto simp: ignore_def alloc_slot_def seq_apply reads_def panic_def modifies_def ret_def split: if_splits)
next
  case (ASetCheckout q w p i)
  then show ?thesis
    using run next_slot_persist [of q w "\<lambda>we. we\<lparr>we_op_id := p, we_workspace_id := i\<rparr>" rf r rf'] by (simp add: set_checkout_state_def Let_def)
next
  case (ASetRootTree q w t m)
  then show ?thesis
    using run next_slot_persist [of q w "\<lambda>we. we\<lparr>we_root_tree_id := t, we_commit_mtime_millis := (if m \<noteq> 0 then m else we_commit_mtime_millis we)\<rparr>" rf r rf']
    by (simp add: set_root_tree_id_def Let_def)
next
  case (AGetWorkspace q w)
  then show ?thesis using run next_slot_hydrate ignore_state by (metis order_refl root_act.simps(11))
qed (use run in \<open>auto simp: modifies_def set_last_exported_head_def set_last_exported_bookmarks_def\<close>)

lemma next_slot_reach: "root_reach rf0 rf \<Longrightarrow> next_slot rf0 \<le> next_slot rf"
  by (induction rule: root_reach.induct) (auto intro: order_trans next_slot_mono)

text \<open>
  C15: The daemon never hands out a slot twice: a slot allocated after any further activity is larger than one
  allocated before, and the slot just allocated belongs to no registered workspace.
\<close>

theorem slots_never_reused:
  assumes inv: "root_inv rf1" and a1: "alloc_slot rf1 = (Ok s1, rf1')" and reach: "root_reach rf1' rf2"
    and a2: "alloc_slot rf2 = (Ok s2, rf2')"
  shows "s1 < s2 \<and> (\<forall>r w we. find_ws rf2 r w = Some we \<longrightarrow> we_slot we \<noteq> s2)"
proof -
  have s: "s = next_slot rf \<and> s \<noteq> - 1 \<and> next_slot rf' = s + 1" if "alloc_slot rf = (Ok s, rf')" for s and rf rf' :: "'a root_fs"
    using that by (auto simp: alloc_slot_def reads_seq panic_def modifies_seq ret_def split: if_splits)
  have "s1 < s1 + 1" using s [OF a1] suc_gt by blast
  then have "s1 < s2" using s [OF a1] s [OF a2] next_slot_reach [OF reach] by simp
  moreover have "slots_ok rf2" using root_reach_inv [OF reach root_inv_alloc [OF inv a1]] by (simp add: root_inv_def)
  ultimately show ?thesis using slots_okD(1) [of rf2] s [OF a2] by (metis less_irrefl)
qed

theorem slots_never_reused_witness:
  "fst (alloc_slot ex_root) = Ok 2 \<and> fst (alloc_slot (snd (alloc_slot ex_root))) = Ok 3 \<and> (2::slot) < 3"
proof -
  have ns: "next_slot ex_root = 2" by (simp add: ex_root_defs)
  then have a: "alloc_slot ex_root = (Ok 2, ex_root\<lparr>next_slot := 3\<rparr>)" "alloc_slot (ex_root\<lparr>next_slot := 3\<rparr>) = (Ok 3, ex_root\<lparr>next_slot := 4\<rparr>)"
    by (simp_all add: alloc_slot_def reads_seq modifies_seq ret_def)
  then show ?thesis using slots_never_reused [OF ex_root_inv a(1) rr_init a(2)] by simp
qed

section \<open>Workspace metadata on disk and in memory\<close>

text \<open>
  What an update of a workspace's metadata promises: on success the entry in memory is the new one and
  reading the file back gives it; on failure both are what they were.
\<close>

definition durable_update :: "string \<Rightarrow> string \<Rightarrow> workspace_entry \<Rightarrow> 'g root_fs \<Rightarrow> (FsError, unit) outcome \<Rightarrow> 'g root_fs \<Rightarrow> bool" where
  "durable_update r w new rf x rf' \<longleftrightarrow>
     (let p = workspace_config_path (storage_dir rf) r w
      in if x = Ok ()
         then find_ws rf' r w = Some new \<and>
           (\<not> h_fault (root_host rf') IoRead p \<longrightarrow>
              workspace_read_from (root_toml rf) p (root_host rf') = (Inr (entry_config new), root_host rf'))
         else repos rf' = repos rf \<and> file_at (root_host rf') p = file_at (root_host rf) p)"

lemma persist_then_publish:
  assumes inv: "root_inv rf" and lib: "toml_law (root_toml rf)" and h: "host_ok (root_host rf)" and we: "find_ws rf r w = Some we"
    and run: "seq (get_ws r w) (\<lambda>we. seq (persist_entry r w (f we)) (\<lambda>_. modifies (update_ws r w (\<lambda>_. f we)))) rf = (x, rf')"
  shows "durable_update r w (f we) rf x rf'"
proof -
  obtain y h' where y: "workspace_write_to (root_toml rf) (entry_config (f we)) (workspace_config_path (storage_dir rf) r w) (root_host rf) = (y, h')"
    by fastforce
  have nsok: "ns_ok rf" using inv by (simp add: root_inv_def)
  have "find_ws (rf\<lparr>root_host := h'\<rparr>) r w = Some we" using we by (simp add: find_ws_def)
  then have ok: "find_ws (update_ws r w (\<lambda>_. f we) (rf\<lparr>root_host := h'\<rparr>)) r w = Some (f we)"
    using find_ws_update [of "rf\<lparr>root_host := h'\<rparr>" r w "\<lambda>_. f we" r w] ns_okD(1) [OF nsok] repo_okD(1) [OF ns_okD(5) [OF nsok]] by simp
  have host: "root_host (update_ws r w g rf1) = root_host rf1" for g and rf1 :: "'a root_fs"
    by (simp add: update_ws_def update_repo_def split: option.split)
  show ?thesis using run y config_write_atomic [OF lib h y] ok host unfolding get_ws_seq(1) [OF we]
    by (cases y) (auto simp: seq_apply persist_entry_def modifies_def durable_update_def Let_def)
qed

text \<open>
  C16: The id of a check-out's tree, its operation and its workspace are written to disk before they are published in memory.
  When the update returns success, the registered entry and the file agree on the new values, the mount
  time changing only when a new one is given; when it fails, neither has changed.
\<close>

theorem metadata_persisted_first:
  assumes "root_inv rf" and "toml_law (root_toml rf)" and "host_ok (root_host rf)" and "find_ws rf r w = Some we"
  shows "(set_root_tree_id r w t m rf = (x, rf') \<longrightarrow>
      durable_update r w (we\<lparr>we_root_tree_id := t, we_commit_mtime_millis := (if m \<noteq> 0 then m else we_commit_mtime_millis we)\<rparr>) rf x rf') \<and>
    (set_checkout_state r w op_id ws_id rf = (x, rf') \<longrightarrow>
      durable_update r w (we\<lparr>we_op_id := op_id, we_workspace_id := ws_id\<rparr>) rf x rf')"
proof (intro conjI impI)
  assume "set_root_tree_id r w t m rf = (x, rf')"
  then show "durable_update r w (we\<lparr>we_root_tree_id := t, we_commit_mtime_millis := (if m \<noteq> 0 then m else we_commit_mtime_millis we)\<rparr>) rf x rf'"
    by (intro persist_then_publish [OF assms, of "\<lambda>we. we\<lparr>we_root_tree_id := t, we_commit_mtime_millis := (if m \<noteq> 0 then m else we_commit_mtime_millis we)\<rparr>"])
      (simp add: set_root_tree_id_def Let_def)
next
  assume "set_checkout_state r w op_id ws_id rf = (x, rf')"
  then show "durable_update r w (we\<lparr>we_op_id := op_id, we_workspace_id := ws_id\<rparr>) rf x rf'"
    by (intro persist_then_publish [OF assms, of "\<lambda>we. we\<lparr>we_op_id := op_id, we_workspace_id := ws_id\<rparr>"])
      (simp add: set_checkout_state_def Let_def)
qed

definition full_disk :: host where
  "full_disk = ex_host\<lparr>h_fault := (\<lambda>c _. c = IoWrite)\<rparr>"

theorem metadata_persisted_first_witness:
  "\<exists>x rf'. set_checkout_state ''r'' ''w'' ''op'' ''ws'' (ex_root\<lparr>root_host := full_disk\<rparr>) = (x, rf') \<and>
     durable_update ''r'' ''w'' (ex_we\<lparr>we_op_id := ''op'', we_workspace_id := ''ws''\<rparr>) (ex_root\<lparr>root_host := full_disk\<rparr>) x rf'"
proof -
  define rf where "rf = ex_root\<lparr>root_host := full_disk\<rparr>"
  obtain x rf' where run: "set_checkout_state ''r'' ''w'' ''op'' ''ws'' rf = (x, rf')" by fastforce
  have "root_inv rf" unfolding rf_def by (rule root_inv_host [OF ex_root_inv])
  moreover have "toml_law (root_toml rf)" using ex_toml_law by (simp add: rf_def ex_root_defs)
  moreover have "host_ok (root_host rf)" by (simp add: rf_def full_disk_def ex_host_def host_ok_def)
  moreover have "find_ws rf ''r'' ''w'' = Some ex_we" using ex_root_ws(1) by (simp add: rf_def find_ws_def)
  ultimately show ?thesis using metadata_persisted_first [of rf "''r''" "''w''" ex_we] run unfolding rf_def by blast
qed

end
