(* ===== verification/Mount_Meta.thy ===== *)
theory Mount_Meta
  imports Repo_Meta
begin

text \<open>
  \<^verbatim>\<open>src/daemon/src/mount_meta.rs\<close>: the file \<^verbatim>\<open>mount.toml\<close> of an ad-hoc mount and where it lives. The directory of a
  mount is named after the BLAKE3 hash of its path, a parameter. The file is replaced in the same way as
  \<^verbatim>\<open>workspace.toml\<close>, and its byte fields have the same hexadecimal form.
\<close>

section \<open>Layout\<close>

definition MOUNTS_DIR :: string where
  "MOUNTS_DIR = ''mounts''"

definition META_FILE :: string where
  "META_FILE = ''mount.toml''"

definition STORE_FILE :: string where
  "STORE_FILE = ''store.redb''"

definition mount_dir_name :: "(string \<Rightarrow> bytes) \<Rightarrow> string \<Rightarrow> string" where
  "mount_dir_name blake3 working_copy_path = ''wc-'' @ concat (map hex_byte (take 16 (blake3 working_copy_path)))"

definition mount_dir :: "(string \<Rightarrow> bytes) \<Rightarrow> string \<Rightarrow> string \<Rightarrow> string" where
  "mount_dir blake3 storage_dir wc = path_join (path_join storage_dir MOUNTS_DIR) (mount_dir_name blake3 wc)"

definition meta_path :: "(string \<Rightarrow> bytes) \<Rightarrow> string \<Rightarrow> string \<Rightarrow> string" where
  "meta_path blake3 storage_dir wc = path_join (mount_dir blake3 storage_dir wc) META_FILE"

definition store_path :: "(string \<Rightarrow> bytes) \<Rightarrow> string \<Rightarrow> string \<Rightarrow> string" where
  "store_path blake3 storage_dir wc = path_join (mount_dir blake3 storage_dir wc) STORE_FILE"

section \<open>Directories\<close>

text \<open>
  A directory exists when something is at or below it: \<^verbatim>\<open>create_dir_all\<close> makes the ancestors too. The children
  of a directory that are directories themselves, in no particular order.
\<close>

definition below :: "string \<Rightarrow> string \<Rightarrow> bool" where
  "below d p \<longleftrightarrow> p = d \<or> starts_with (d @ ''/'') p"

definition dir_exists :: "host \<Rightarrow> string \<Rightarrow> bool" where
  "dir_exists h d \<longleftrightarrow> \<not> h_fault h IoStat d \<and> list_ex (below d) (h_dirs h @ map fst (h_files h))"

definition rel_path :: "string \<Rightarrow> string \<Rightarrow> string list" where
  "rel_path d p = (case strip_prefix (d @ ''/'') p of Some n \<Rightarrow> if n = [] then [] else [n] | None \<Rightarrow> [])"

definition child_dirs :: "host \<Rightarrow> string \<Rightarrow> string list" where
  "child_dirs h d = map (takeWhile (\<lambda>c. c \<noteq> CHR ''/''))
     (concat (map (rel_path d) (h_dirs h)) @ filter (\<lambda>n. CHR ''/'' \<in> set n) (concat (map (rel_path d \<circ> fst) (h_files h))))"

definition subdirs :: "host \<Rightarrow> string \<Rightarrow> string list" where
  "subdirs h d = remdups (filter (\<lambda>n. n \<noteq> []) (child_dirs h d))"

section \<open>The file\<close>

record MountMetadata =
  mm_working_copy_path :: string
  mm_remote :: string
  mm_op_id :: bytes
  mm_workspace_id :: bytes
  mm_root_tree_id :: bytes

definition mount_metadata_to_toml :: "MountMetadata \<Rightarrow> (string \<times> toml) list" where
  "mount_metadata_to_toml m =
     [(''working_copy_path'', TStr (mm_working_copy_path m)),
      (''remote'', TStr (mm_remote m)),
      (''op_id'', TStr (hex_bytes_serialize (mm_op_id m))),
      (''workspace_id'', TStr (hex_bytes_serialize (mm_workspace_id m))),
      (''root_tree_id'', TStr (hex_bytes_serialize (mm_root_tree_id m)))]"

definition string_field :: "string \<Rightarrow> toml option \<Rightarrow> string + string" where
  "string_field name v = (case v of Some (TStr s) \<Rightarrow> Inr s | Some _ \<Rightarrow> Inl ''invalid type'' | None \<Rightarrow> Inl (''missing field '' @ name))"

definition mount_metadata_of_toml :: "(string \<times> toml) list \<Rightarrow> string + MountMetadata" where
  "mount_metadata_of_toml t =
     sum_bind (string_field ''working_copy_path'' (map_of t ''working_copy_path'')) (\<lambda>wc.
     sum_bind (string_field ''remote'' (map_of t ''remote'')) (\<lambda>rm.
     sum_bind (bytes_field (map_of t ''op_id'')) (\<lambda>op.
     sum_bind (bytes_field (map_of t ''workspace_id'')) (\<lambda>ws.
     sum_bind (bytes_field (map_of t ''root_tree_id'')) (\<lambda>rt.
     Inr \<lparr>mm_working_copy_path = wc, mm_remote = rm, mm_op_id = op, mm_workspace_id = ws, mm_root_tree_id = rt\<rparr>)))))"

definition mount_write_to :: "toml_lib \<Rightarrow> MountMetadata \<Rightarrow> string \<Rightarrow> (host, string, unit) io" where
  "mount_write_to L m path = write_toml path ''mount.toml'' (toml_print L (mount_metadata_to_toml m))"

definition mount_read_from :: "toml_lib \<Rightarrow> string \<Rightarrow> (host, string, MountMetadata) io" where
  "mount_read_from L path =
     io_seq (read_to_string path) (\<lambda>body.
     case sum_bind (toml_parse L body) mount_metadata_of_toml of
       Inl e \<Rightarrow> io_err (''parsing '' @ path)
     | Inr m \<Rightarrow> io_ret m)"

text \<open>
  The start-up scan: the subdirectories of \<^verbatim>\<open>mounts\<close> that have a readable \<^verbatim>\<open>mount.toml\<close>, ordered by
  working-copy path; a file that cannot be read or parsed is skipped.
\<close>

fun read_mounts :: "toml_lib \<Rightarrow> string list \<Rightarrow> host \<Rightarrow> (string \<times> MountMetadata) list" where
  "read_mounts L [] h = []"
| "read_mounts L (d # ds) h =
     (let f = path_join d META_FILE
      in if \<not> host_exists h f then read_mounts L ds h
         else (case mount_read_from L f h of
             (Inl _, _) \<Rightarrow> read_mounts L ds h
           | (Inr m, _) \<Rightarrow> (d, m) # read_mounts L ds h))"

definition list_persisted :: "toml_lib \<Rightarrow> string \<Rightarrow> (host, string, (string \<times> MountMetadata) list) io" where
  "list_persisted L storage_dir = (\<lambda>h.
     let mounts_dir = path_join storage_dir MOUNTS_DIR
     in if \<not> dir_exists h mounts_dir then (Inr [], h)
        else if h_fault h IoReadDir mounts_dir then (Inl (''reading '' @ mounts_dir), h)
        else (Inr (sort_key (mm_working_copy_path \<circ> snd) (read_mounts L (map (path_join mounts_dir) (subdirs h mounts_dir)) h)), h))"

section \<open>Round trip\<close>

lemma mount_metadata_toml: "mount_metadata_of_toml (mount_metadata_to_toml m) = Inr m"
  by (cases m) (simp add: mount_metadata_of_toml_def mount_metadata_to_toml_def string_field_def bytes_field_def hex_bytes_roundtrip)

lemma meta_path_neq: "with_extension (meta_path b st wc) ''toml.tmp'' \<noteq> meta_path b st wc"
proof (rule with_extension_neq)
  have "\<exists>d. meta_path b st wc = d @ ''mount.toml''"
    by (auto simp: meta_path_def META_FILE_def path_join_def starts_with_iff)
  then show "last (meta_path b st wc) \<noteq> CHR ''p''" by auto
qed

lemma mount_write_atomic:
  assumes "toml_law L" and "host_ok h" and "mount_write_to L m (meta_path b st wc) h = (res, h')"
  shows "case res of
      Inr _ \<Rightarrow> \<not> h_fault h' IoRead (meta_path b st wc) \<longrightarrow> mount_read_from L (meta_path b st wc) h' = (Inr m, h')
    | Inl _ \<Rightarrow> file_at h' (meta_path b st wc) = file_at h (meta_path b st wc)"
proof (cases res)
  case (Inl e)
  then show ?thesis using write_toml_spec [OF assms(2) meta_path_neq assms(3) [unfolded mount_write_to_def]] by simp
next
  case (Inr u)
  then obtain bs where "toml_print L (mount_metadata_to_toml m) = Inr bs" "file_at h' (meta_path b st wc) = Some bs"
    using write_toml_spec [OF assms(2) meta_path_neq assms(3) [unfolded mount_write_to_def]] by auto
  moreover from this have "utf8_valid bs" "toml_parse L bs = Inr (mount_metadata_to_toml m)" using assms(1) by (auto simp: toml_law_def)
  ultimately show ?thesis using Inr by (simp add: mount_read_from_def read_to_string_def io_defs host_defs mount_metadata_toml)
qed

end
