(* ===== verification/Local_Refs.thy ===== *)
theory Local_Refs
  imports Remote_Store
begin

text \<open>
  \<^verbatim>\<open>src/daemon/src/local_refs.rs\<close>: the catalog of a mount without a remote, one redb table
  \<^verbatim>\<open>refs_v1\<close> from ref names to values. A redb table is an ordered map; it does not exist until the
  first write transaction that opens it commits. A write transaction that is dropped without a commit
  leaves the database as it was. Each redb call can fail; \<open>redb_fault\<close> says which ones do, so the
  failure branches are part of the model.
\<close>

section \<open>State\<close>

record local_refs =
  refs_v1 :: "(string, bytes) btree option"
  redb_fault :: "redb_call \<Rightarrow> bool"

definition local_refs_new :: "(redb_call \<Rightarrow> bool) \<Rightarrow> local_refs" where
  "local_refs_new fault = \<lparr>refs_v1 = None, redb_fault = fault\<rparr>"

section \<open>Operations\<close>

definition local_get_ref :: "string \<Rightarrow> local_refs \<Rightarrow> catalog_error + bytes option" where
  "local_get_ref name s =
     (case validate_ref_name name of
        Inl e \<Rightarrow> Inl (BadRefName e)
      | Inr _ \<Rightarrow>
          if redb_fault s BeginRead then Inl (Backend ''redb begin_read (refs)'')
          else (case refs_v1 s of
              None \<Rightarrow> Inr None
            | Some tbl \<Rightarrow>
                if redb_fault s OpenTable then Inl (Backend ''open refs table for read'')
                else if redb_fault s GetRow then Inl (Backend ''redb get (refs)'')
                else Inr (map_of tbl name)))"

text \<open>
  The whole read-compare-write runs in one write transaction. \<^verbatim>\<open>open_table\<close> creates the table, and the
  transaction commits on the conflict path as well, so a conflict on a fresh database leaves an empty
  table behind.
\<close>

definition local_cas_ref ::
  "string \<Rightarrow> bytes option \<Rightarrow> bytes option \<Rightarrow> local_refs \<Rightarrow> (catalog_error + CasOutcome) \<times> local_refs" where
  "local_cas_ref name expected new s =
     (case validate_ref_name name of
        Inl e \<Rightarrow> (Inl (BadRefName e), s)
      | Inr _ \<Rightarrow>
          if redb_fault s BeginWrite then (Inl (Backend ''redb begin_write (refs)''), s)
          else if redb_fault s OpenTable then (Inl (Backend ''open refs table for write''), s)
          else if redb_fault s GetRow then (Inl (Backend ''redb get (refs CAS)''), s)
          else
            let tbl = (case refs_v1 s of None \<Rightarrow> [] | Some t \<Rightarrow> t);
                actual = map_of tbl name
            in if actual \<noteq> expected then
                 (if redb_fault s CommitTxn then (Inl (Backend ''redb commit (refs CAS)''), s)
                  else (Inr (Conflict actual), s\<lparr>refs_v1 := Some tbl\<rparr>))
               else (case new of
                   Some value \<Rightarrow>
                     if redb_fault s InsertRow then (Inl (Backend ''redb insert (refs CAS)''), s)
                     else if redb_fault s CommitTxn then (Inl (Backend ''redb commit (refs CAS)''), s)
                     else (Inr Updated, s\<lparr>refs_v1 := Some (bt_insert name value tbl)\<rparr>)
                 | None \<Rightarrow>
                     if redb_fault s RemoveRow then (Inl (Backend ''redb remove (refs CAS)''), s)
                     else if redb_fault s CommitTxn then (Inl (Backend ''redb commit (refs CAS)''), s)
                     else (Inr Updated, s\<lparr>refs_v1 := Some (bt_remove name tbl)\<rparr>)))"

definition local_list_refs :: "local_refs \<Rightarrow> catalog_error + string list" where
  "local_list_refs s =
     (if redb_fault s BeginRead then Inl (Backend ''redb begin_read (refs)'')
      else (case refs_v1 s of
          None \<Rightarrow> Inr []
        | Some tbl \<Rightarrow>
            if redb_fault s OpenTable then Inl (Backend ''open refs table for list'')
            else if redb_fault s IterRows then Inl (Backend ''redb iter (refs)'')
            else Inr (sort (map fst tbl))))"

section \<open>The abstract catalog and the invariant\<close>

definition local_abs :: "local_refs \<Rightarrow> string \<Rightarrow> bytes option" where
  "local_abs s = (case refs_v1 s of None \<Rightarrow> Map.empty | Some tbl \<Rightarrow> map_of tbl)"

definition local_inv :: "local_refs \<Rightarrow> bool" where
  "local_inv s \<longleftrightarrow> (case refs_v1 s of None \<Rightarrow> True
     | Some tbl \<Rightarrow> bt_wf tbl \<and> (\<forall>n \<in> fst ` set tbl. valid_ref_name n))"

definition local_healthy :: "local_refs \<Rightarrow> bool" where
  "local_healthy s \<longleftrightarrow> redb_fault s = (\<lambda>_. False)"

lemma local_abs_tbl: "map_of (case refs_v1 s of None \<Rightarrow> [] | Some t \<Rightarrow> t) = local_abs s"
  by (simp add: local_abs_def split: option.splits)

lemma local_inv_tbl: "local_inv s \<Longrightarrow> bt_wf (case refs_v1 s of None \<Rightarrow> [] | Some t \<Rightarrow> t)"
  by (simp add: local_inv_def split: option.splits)

lemmas local_cas_unfold = local_cas_ref_def Let_def local_abs_tbl valid_ref_name_def

lemma local_cas_Updated:
  assumes "local_inv s" and "local_cas_ref n e v s = (Inr Updated, s')"
  shows "local_abs s n = e \<and> local_abs s' = (local_abs s)(n := v)"
  using assms local_inv_tbl [OF assms(1)]
  by (auto simp: local_cas_unfold split: sum.splits if_splits option.splits)
     (simp_all add: local_abs_def split: option.splits)

lemma local_cas_inv:
  assumes "local_inv s" shows "local_inv (snd (local_cas_ref n e v s))"
proof -
  define tbl where "tbl = (case refs_v1 s of None \<Rightarrow> [] | Some t \<Rightarrow> t)"
  have wf: "bt_wf tbl" and keys: "\<forall>m \<in> fst ` set tbl. valid_ref_name m"
    using assms by (auto simp: tbl_def local_inv_def split: option.splits)
  have set_tbl: "local_inv (s\<lparr>refs_v1 := Some t\<rparr>)"
    if "bt_wf t" "\<forall>m \<in> fst ` set t. valid_ref_name m" for t
    using that by (simp add: local_inv_def)
  have "local_inv (s\<lparr>refs_v1 := Some (bt_insert n x tbl)\<rparr>)" if "valid_ref_name n" for x
    using that wf keys by (intro set_tbl) (simp_all only: bt_wf_insert fst_set_bt_insert ball_simps simp_thms)
  moreover have "local_inv (s\<lparr>refs_v1 := Some (bt_remove n tbl)\<rparr>)"
    using wf keys by (intro set_tbl) auto
  ultimately show ?thesis
    unfolding local_cas_ref_def Let_def tbl_def [symmetric]
    using assms set_tbl [OF wf keys] by (simp add: valid_ref_name_def split: sum.split option.split)
qed

lemma local_list_sound:
  assumes "local_inv s" and "local_list_refs s = Inr ns"
  shows "sorted ns \<and> distinct ns \<and> set ns = {n. valid_ref_name n \<and> local_abs s n \<noteq> None}"
proof (cases "refs_v1 s")
  case None
  then show ?thesis using assms by (auto simp: local_list_refs_def local_abs_def split: if_splits)
next
  case (Some tbl)
  then have wf: "bt_wf tbl" and valid: "\<forall>n \<in> fst ` set tbl. valid_ref_name n"
    using assms(1) by (simp_all add: local_inv_def)
  have ns: "ns = sort (map fst tbl)"
    using assms(2) Some by (auto simp: local_list_refs_def split: if_splits)
  have "set ns = {n. valid_ref_name n \<and> local_abs s n \<noteq> None}"
    unfolding ns using valid Some by (auto simp: local_abs_def map_of_eq_None_iff)
  then show ?thesis using bt_wf_distinct [OF wf] by (simp add: ns)
qed

interpretation lr: ref_catalog local_get_ref local_cas_ref local_list_refs local_abs valid_ref_name
  local_inv local_healthy
proof (unfold_locales, goal_cases)
  case (1 s n r)
  then show ?case
    by (auto simp: local_get_ref_def valid_ref_name_def local_abs_def split: if_splits option.splits)
next
  case (2 s n)
  then show ?case
    by (auto simp: local_get_ref_def valid_ref_name_def local_healthy_def split: option.splits)
next
  case (3 s n e v)
  then show ?case using local_cas_inv by blast
next
  case (4 s n e v s')
  then show ?case using local_cas_Updated by blast
next
  case (5 s n e v a s')
  then show ?case
    by (auto simp: local_cas_unfold split: sum.splits if_splits option.splits)
       (simp add: local_abs_def split: option.splits)+
next
  case (6 s n e v err s')
  then show ?case
    by (auto simp: local_cas_unfold split: sum.splits if_splits option.splits)
next
  case (7 s n e v)
  then show ?case
    by (auto simp: local_cas_unfold local_healthy_def split: sum.splits option.splits)
next
  case (8 s ns)
  then show ?case using local_list_sound by blast
qed

end
