(* ===== verification/Remote_Blobs.thy ===== *)
theory Remote_Blobs
  imports Remote_Store
begin

text \<open>
  A remote as its clients see it: \<^verbatim>\<open>&dyn RemoteStore\<close> is the table of the six methods of the trait
  (\<^verbatim>\<open>src/store/src/lib.rs\<close>) over a backend state. The locale \<open>blob_remote\<close> is what a backend promises of
  its blobs, next to \<open>ref_catalog\<close> for its refs. Blobs are only ever added: a put of an id that is already
  there may keep the old bytes, which by the naming of blobs are the same ones. A put that reports an error
  either stored nothing or stored the blob: over a network the reply can be lost.
\<close>

record 's remote_ops =
  rm_get_blob :: "BlobKind \<Rightarrow> bytes \<Rightarrow> 's \<Rightarrow> string + bytes option"
  rm_put_blob :: "BlobKind \<Rightarrow> bytes \<Rightarrow> bytes \<Rightarrow> 's \<Rightarrow> (string + unit) \<times> 's"
  rm_has_blob :: "BlobKind \<Rightarrow> bytes \<Rightarrow> 's \<Rightarrow> string + bool"
  rm_get_ref :: "string \<Rightarrow> 's \<Rightarrow> catalog_error + bytes option"
  rm_cas_ref :: "string \<Rightarrow> bytes option \<Rightarrow> bytes option \<Rightarrow> 's \<Rightarrow> (catalog_error + CasOutcome) \<times> 's"
  rm_list_refs :: "'s \<Rightarrow> catalog_error + string list"

locale blob_remote =
  fixes R :: "'s remote_ops"
    and blobs :: "'s \<Rightarrow> BlobKind \<Rightarrow> bytes \<Rightarrow> bytes option"
    and ok_id :: "bytes \<Rightarrow> bool"
    and inv :: "'s \<Rightarrow> bool"
  assumes get_sound: "inv s \<Longrightarrow> ok_id i \<Longrightarrow> rm_get_blob R k i s = Inr r \<Longrightarrow> r = blobs s k i"
    and has_sound: "inv s \<Longrightarrow> ok_id i \<Longrightarrow> rm_has_blob R k i s = Inr present \<Longrightarrow> present = (blobs s k i \<noteq> None)"
    and put_inv: "inv s \<Longrightarrow> ok_id i \<Longrightarrow> inv (snd (rm_put_blob R k i b s))"
    and put_stored: "inv s \<Longrightarrow> ok_id i \<Longrightarrow> rm_put_blob R k i b s = (Inr u, s') \<Longrightarrow>
          blobs s' k i = Some b \<or> (blobs s k i \<noteq> None \<and> blobs s' k i = blobs s k i)"
    and put_frame: "inv s \<Longrightarrow> ok_id i \<Longrightarrow> ok_id j \<Longrightarrow> (k', j) \<noteq> (k, i) \<Longrightarrow>
          blobs (snd (rm_put_blob R k i b s)) k' j = blobs s k' j"
    and put_failed: "inv s \<Longrightarrow> ok_id i \<Longrightarrow> rm_put_blob R k i b s = (Inl e, s') \<Longrightarrow>
          blobs s' k i = blobs s k i \<or> blobs s' k i = Some b"
begin

lemma put_present: "inv s \<Longrightarrow> ok_id i \<Longrightarrow> rm_put_blob R k i b s = (Inr u, s') \<Longrightarrow> blobs s' k i \<noteq> None"
  using put_stored by fastforce

text \<open>Whatever a put returns, no blob disappears.\<close>

lemma put_keeps:
  assumes "inv s" "ok_id i" "ok_id j" and "blobs s k' j \<noteq> None"
  shows "blobs (snd (rm_put_blob R k i b s)) k' j \<noteq> None"
proof (cases "(k', j) = (k, i)")
  case True
  obtain r s' where eq: "rm_put_blob R k i b s = (r, s')" by fastforce
  then show ?thesis
    using True assms put_present [OF assms(1,2)] put_failed [OF assms(1,2), of k b _ s'] by (cases r) auto
next
  case False
  then show ?thesis using put_frame [OF assms(1-3), of k' k b] assms(4) by simp
qed

lemma put_then_get:
  assumes "inv s" "ok_id i" "blobs s k i = None" and "rm_put_blob R k i b s = (Inr u, s')" and "rm_get_blob R k i s' = Inr r"
  shows "r = Some b"
  using put_stored [OF assms(1,2,4)] put_inv [OF assms(1,2), of k b] get_sound [of s' i k r] assms by auto

end

end
