(* ===== verification/Fs_Remote.thy ===== *)
theory Fs_Remote
  imports Remote_Blobs Repo_Meta
begin

text \<open>
  \<^verbatim>\<open>src/store/src/fs.rs\<close>: the \<^verbatim>\<open>dir://\<close> remote. A blob is the file \<open><root>/<kind>/<hex id>\<close>, a ref the file
  \<open><root>/refs/<name>\<close>; both are written to a temporary file in the same directory, synced and renamed into
  place. Compare-and-swap holds an exclusive \<^verbatim>\<open>flock\<close> on \<^verbatim>\<open>refs/.lock\<close> from the read to the rename and is one
  function here; \<^verbatim>\<open>Refs_Lock\<close> takes it apart into its steps and shows that the lock makes it atomic. The root
  is an argument of every operation and the state is the host's file system.
\<close>

section \<open>Paths\<close>

definition kind_dir :: "string \<Rightarrow> BlobKind \<Rightarrow> string" where
  "kind_dir root kind = path_join root (as_str kind)"

definition fs_hex_bytes :: "bytes \<Rightarrow> string" where
  "fs_hex_bytes i = concat (map hex_byte i)"

definition blob_path :: "string \<Rightarrow> BlobKind \<Rightarrow> bytes \<Rightarrow> string" where
  "blob_path root kind i = path_join (kind_dir root kind) (fs_hex_bytes i)"

definition refs_dir :: "string \<Rightarrow> string" where
  "refs_dir root = path_join root ''refs''"

definition ref_path :: "string \<Rightarrow> string \<Rightarrow> string" where
  "ref_path root name = path_join (refs_dir root) name"

text \<open>\<^verbatim>\<open>format!(".tmp.{:016x}", rand)\<close>.\<close>

definition hex16 :: "64 word \<Rightarrow> string" where
  "hex16 w = map (\<lambda>i. hex_digit (unat w div 16 ^ i mod 16)) (rev [0..<16])"

definition tmp_name :: "64 word \<Rightarrow> string" where
  "tmp_name w = ''.tmp.'' @ hex16 w"

section \<open>Temporary file and rename\<close>

definition write_tmp :: "string \<Rightarrow> bytes \<Rightarrow> (host, string, unit) io" where
  "write_tmp tmp b =
     io_seq (io_context (\<lambda>_. ''creating '' @ tmp) (host_create tmp)) (\<lambda>_.
     io_seq (io_context (\<lambda>_. ''writing '' @ tmp) (host_write_all tmp b)) (\<lambda>_.
     io_context (\<lambda>_. ''fsync '' @ tmp) (host_sync tmp)))"

text \<open>A failed rename removes the temporary file, ignoring a failure to do so.\<close>

definition publish :: "string \<Rightarrow> string \<Rightarrow> (host, string, unit) io" where
  "publish tmp final = (\<lambda>h.
     case host_rename tmp final h of
       (Inr u, h') \<Rightarrow> (Inr u, h')
     | (Inl e, h') \<Rightarrow> (Inl (''renaming '' @ tmp @ '' -> '' @ final), snd (host_remove tmp h')))"

definition replace_file :: "string \<Rightarrow> string \<Rightarrow> bytes \<Rightarrow> (host, string, unit) io" where
  "replace_file dir final b = (\<lambda>h.
     case host_random h of
       (w, h1) \<Rightarrow> io_seq (write_tmp (path_join dir (tmp_name w)) b) (\<lambda>_. publish (path_join dir (tmp_name w)) final) h1)"

section \<open>Blobs\<close>

text \<open>\<^verbatim>\<open>fs::read\<close> with a missing file as \<^verbatim>\<open>None\<close>.\<close>

definition read_opt :: "string \<Rightarrow> string \<Rightarrow> host \<Rightarrow> string + bytes option" where
  "read_opt label p h =
     (case fst (host_read p h) of
        Inr b \<Rightarrow> Inr (Some b)
      | Inl IoNotFound \<Rightarrow> Inr None
      | Inl IoOther \<Rightarrow> Inl (label @ p))"

definition fs_get_blob :: "string \<Rightarrow> BlobKind \<Rightarrow> bytes \<Rightarrow> host \<Rightarrow> string + bytes option" where
  "fs_get_blob root kind i h = read_opt ''reading '' (blob_path root kind i) h"

definition fs_put_blob :: "string \<Rightarrow> BlobKind \<Rightarrow> bytes \<Rightarrow> bytes \<Rightarrow> (host, string, unit) io" where
  "fs_put_blob root kind i b = (\<lambda>h.
     if host_exists h (blob_path root kind i) then (Inr (), h)
     else io_seq (io_context (\<lambda>_. ''creating '' @ kind_dir root kind) (host_create_dir_all (kind_dir root kind))) (\<lambda>_.
          replace_file (kind_dir root kind) (blob_path root kind i) b) h)"

definition fs_has_blob :: "string \<Rightarrow> BlobKind \<Rightarrow> bytes \<Rightarrow> host \<Rightarrow> string + bool" where
  "fs_has_blob root kind i h =
     (case fst (host_stat (blob_path root kind i) h) of
        Inr _ \<Rightarrow> Inr True
      | Inl IoNotFound \<Rightarrow> Inr False
      | Inl IoOther \<Rightarrow> Inl (''stat '' @ blob_path root kind i))"

section \<open>Refs\<close>

definition refs_lock_acquire :: "string \<Rightarrow> (host, string, unit) io" where
  "refs_lock_acquire dir = (\<lambda>h.
     if h_nfs h dir then (Inl (''dir:// remote at '' @ dir @ '' is on an NFS mount''), h)
     else io_seq (io_context (\<lambda>_. ''creating '' @ dir) (host_create_dir_all dir)) (\<lambda>_.
          io_seq (io_context (\<lambda>_. ''opening '' @ path_join dir ''.lock'') (host_open (path_join dir ''.lock''))) (\<lambda>_.
          io_context (\<lambda>_. ''flock LOCK_EX on '' @ path_join dir ''.lock'')
            (fault_or IoFlock (path_join dir ''.lock'') (io_ret ())))) h)"

definition fs_get_ref :: "string \<Rightarrow> string \<Rightarrow> host \<Rightarrow> catalog_error + bytes option" where
  "fs_get_ref root name h =
     (case validate_ref_name name of
        Inl e \<Rightarrow> Inl (BadRefName e)
      | Inr _ \<Rightarrow> map_sum Backend (\<lambda>r. r) (read_opt ''reading ref '' (ref_path root name) h))"

text \<open>The body under the lock.\<close>

definition cas_locked :: "string \<Rightarrow> string \<Rightarrow> bytes option \<Rightarrow> bytes option \<Rightarrow> (host, string, CasOutcome) io" where
  "cas_locked root name expected new = (\<lambda>h.
     case read_opt ''reading ref '' (ref_path root name) h of
       Inl e \<Rightarrow> (Inl e, h)
     | Inr current \<Rightarrow>
         if current \<noteq> expected then (Inr (Conflict current), h)
         else (case new of
             Some v \<Rightarrow> io_seq (replace_file (refs_dir root) (ref_path root name) v) (\<lambda>_. io_ret Updated) h
           | None \<Rightarrow>
               (case host_remove (ref_path root name) h of
                  (Inl IoOther, h') \<Rightarrow> (Inl (''removing '' @ ref_path root name), h')
                | (_, h') \<Rightarrow> (Inr Updated, h'))))"

definition fs_cas_ref ::
  "string \<Rightarrow> string \<Rightarrow> bytes option \<Rightarrow> bytes option \<Rightarrow> host \<Rightarrow> (catalog_error + CasOutcome) \<times> host" where
  "fs_cas_ref root name expected new =
     (case validate_ref_name name of
        Inl e \<Rightarrow> io_err (BadRefName e)
      | Inr _ \<Rightarrow> io_context Backend
          (io_seq (refs_lock_acquire (refs_dir root)) (\<lambda>_. cas_locked root name expected new)))"

definition internal_name :: "string \<Rightarrow> bool" where
  "internal_name n \<longleftrightarrow> n = ''.lock'' \<or> starts_with ''.tmp.'' n"

definition fs_list_refs :: "string \<Rightarrow> host \<Rightarrow> catalog_error + string list" where
  "fs_list_refs root h =
     (case fst (host_read_dir (refs_dir root) h) of
        Inl IoNotFound \<Rightarrow> Inr []
      | Inl IoOther \<Rightarrow> Inl (Backend (''reading '' @ refs_dir root))
      | Inr names \<Rightarrow>
          if list_ex (\<lambda>n. \<not> utf8_valid n) names then Inl (Backend (''non-UTF-8 ref name in '' @ refs_dir root))
          else Inr (sort (filter (\<lambda>n. \<not> internal_name n) names)))"

definition fs_remote :: "string \<Rightarrow> host remote_ops" where
  "fs_remote root = \<lparr>rm_get_blob = fs_get_blob root, rm_put_blob = fs_put_blob root, rm_has_blob = fs_has_blob root,
     rm_get_ref = fs_get_ref root, rm_cas_ref = fs_cas_ref root, rm_list_refs = fs_list_refs root\<rparr>"

section \<open>Names in a directory of the store\<close>

definition plain_char :: "char \<Rightarrow> bool" where
  "plain_char c \<longleftrightarrow> c \<noteq> CHR ''/'' \<and> c \<noteq> CHR ''.'' \<and> c \<noteq> CHR 0x00"

lemma hex_digit_plain: "d < 16 \<Longrightarrow> plain_char (hex_digit d)"
proof -
  assume "d < 16"
  then have "decode_nibble (hex_digit d) \<noteq> None" by (simp add: decode_hex_digit)
  moreover have "decode_nibble CHR ''/'' = None" "decode_nibble CHR ''.'' = None" "decode_nibble CHR 0x00 = None" by code_simp+
  ultimately show ?thesis unfolding plain_char_def by metis
qed

lemma hex_byte_plain: "c \<in> set (hex_byte b) \<Longrightarrow> plain_char c"
proof -
  assume "c \<in> set (hex_byte b)"
  then have "c = hex_digit (byte_val b div 16) \<or> c = hex_digit (byte_val b mod 16)" by (simp add: hex_byte_def)
  moreover have "byte_val b div 16 < 16" using byte_val_lt [of b] by (simp add: less_mult_imp_div_less)
  moreover have "byte_val b mod 16 < 16" by simp
  ultimately show ?thesis using hex_digit_plain by blast
qed

lemma fs_hex_plain: "c \<in> set (fs_hex_bytes i) \<Longrightarrow> plain_char c"
  using hex_byte_plain by (auto simp: fs_hex_bytes_def)

lemma fs_hex_empty: "fs_hex_bytes i = [] \<longleftrightarrow> i = []"
  by (cases i) (auto simp: fs_hex_bytes_def hex_byte_def)

lemma fs_hex_component: "i \<noteq> [] \<Longrightarrow> component (fs_hex_bytes i)"
  using fs_hex_plain [of "CHR ''/''" i] by (auto simp: component_def fs_hex_empty plain_char_def)

lemma fs_hex_inject [simp]: "fs_hex_bytes i = fs_hex_bytes j \<longleftrightarrow> i = j"
  using hex_pairs_serialize unfolding fs_hex_bytes_def hex_bytes_serialize_def by (metis option.inject)

lemma hex16_plain: "c \<in> set (hex16 w) \<Longrightarrow> plain_char c"
proof -
  assume "c \<in> set (hex16 w)"
  then obtain i where "c = hex_digit (unat w div 16 ^ i mod 16)" by (auto simp: hex16_def)
  then show ?thesis using hex_digit_plain [of "unat w div 16 ^ i mod 16"] by simp
qed

lemma tmp_name_valid: "valid_ref_name (tmp_name w)" "internal_name (tmp_name w)" "component (tmp_name w)"
  using hex16_plain [of "CHR ''/''" w] hex16_plain [of "CHR 0x00" w]
  by (auto simp: valid_ref_name_iff internal_name_def component_def tmp_name_def starts_with_iff plain_char_def)

lemma tmp_name_not_hex: "tmp_name w \<noteq> fs_hex_bytes i"
proof
  assume "tmp_name w = fs_hex_bytes i"
  then have "CHR ''.'' \<in> set (fs_hex_bytes i)" by (metis append_Cons list.set_intros(1) tmp_name_def)
  then have "plain_char CHR ''.''" by (rule fs_hex_plain)
  then show False by (simp add: plain_char_def)
qed

lemma lock_name_valid: "valid_ref_name ''.lock''" "internal_name ''.lock''" "component ''.lock''"
  by (simp_all add: valid_ref_name_iff internal_name_def component_def)

lemma valid_ref_component: "valid_ref_name n \<Longrightarrow> component n"
  by (simp add: valid_ref_name_iff component_def)

lemma dir_components [simp]: "component (as_str k)" "component ''refs''"
  by (cases k) (simp_all add: component_def)

lemma refs_dir_join: "component n \<Longrightarrow> path_join (refs_dir root) n = refs_dir root @ ''/'' @ n"
  unfolding refs_dir_def by (rule join_component) simp_all

lemma ref_path_eq: "component n \<Longrightarrow> component m \<Longrightarrow> path_join (refs_dir root) n = path_join (refs_dir root) m \<longleftrightarrow> n = m"
  by (rule path_join_inject)

lemma blob_path_eq:
  assumes "i \<noteq> []" "j \<noteq> []"
  shows "blob_path root k i = blob_path root k' j \<longleftrightarrow> k = k' \<and> i = j"
proof
  assume "blob_path root k i = blob_path root k' j"
  then have "as_str k = as_str k' \<and> fs_hex_bytes i = fs_hex_bytes j"
    unfolding blob_path_def kind_dir_def by (intro path_join_dirs) (use assms fs_hex_component in auto)
  then show "k = k' \<and> i = j" by simp
qed simp

lemma blob_path_tmp: "i \<noteq> [] \<Longrightarrow> blob_path root k i \<noteq> path_join (kind_dir root k') (tmp_name w)"
proof
  assume i: "i \<noteq> []" and "blob_path root k i = path_join (kind_dir root k') (tmp_name w)"
  then have "as_str k = as_str k' \<and> fs_hex_bytes i = tmp_name w"
    unfolding blob_path_def kind_dir_def by (intro path_join_dirs) (use fs_hex_component tmp_name_valid in auto)
  then show False using tmp_name_not_hex by metis
qed

lemma blob_ref_disjoint:
  assumes "i \<noteq> []" "component n"
  shows "blob_path root k i \<noteq> path_join (refs_dir root) n"
proof
  assume "blob_path root k i = path_join (refs_dir root) n"
  then have "as_str k = ''refs''"
    unfolding blob_path_def kind_dir_def refs_dir_def using path_join_dirs fs_hex_component assms dir_components by metis
  then show False by (cases k) simp_all
qed

section \<open>What a replacement does\<close>

lemma replace_file_spec:
  assumes "host_ok h" and "\<And>w. path_join dir (tmp_name w) \<noteq> final" and "replace_file dir final b h = (r, h')"
  shows "host_ok h' \<and> h_dirs h' = h_dirs h \<and> h_nfs h' = h_nfs h \<and> h_fault h' = h_fault h \<and>
    (\<exists>w. \<forall>p. p \<noteq> final \<longrightarrow> p \<noteq> path_join dir (tmp_name w) \<longrightarrow> file_at h' p = file_at h p) \<and>
    file_at h' final = (case r of Inl _ \<Rightarrow> file_at h final | Inr _ \<Rightarrow> Some b)"
proof -
  obtain w h1 where w: "host_random h = (w, h1)" by fastforce
  define tmp where "tmp = path_join dir (tmp_name w)"
  have h1: "host_ok h1" "file_at h1 = file_at h" "h_dirs h1 = h_dirs h" "h_nfs h1 = h_nfs h" "h_fault h1 = h_fault h"
    using w assms(1) by (auto simp: host_random_def)
  have "tmp \<noteq> final" using assms(2) by (simp add: tmp_def)
  have run: "io_seq (write_tmp tmp b) (\<lambda>_. publish tmp final) h1 = (r, h')"
    using assms(3) w by (simp add: replace_file_def tmp_def)
  have "host_ok h' \<and> h_dirs h' = h_dirs h1 \<and> h_nfs h' = h_nfs h1 \<and> h_fault h' = h_fault h1 \<and>
    (\<forall>p. p \<noteq> final \<longrightarrow> p \<noteq> tmp \<longrightarrow> file_at h' p = file_at h1 p) \<and>
    file_at h' final = (case r of Inl _ \<Rightarrow> file_at h1 final | Inr _ \<Rightarrow> Some b)"
    using run h1(1) \<open>tmp \<noteq> final\<close>
    by (auto simp: write_tmp_def publish_def io_defs host_defs split: if_splits option.splits)
  then show ?thesis unfolding h1 tmp_def by blast
qed

lemma replace_file_live: "host_ok h \<Longrightarrow> no_fault h \<Longrightarrow> \<exists>h'. replace_file dir final b h = (Inr (), h')"
  by (auto simp: replace_file_def write_tmp_def publish_def io_defs host_defs host_random_def no_fault_def)

section \<open>The invariant of a store directory\<close>

text \<open>
  No directory has the name of a blob, and below \<^verbatim>\<open>refs\<close> there are only files with legal names, and none
  as long as the directory itself does not exist.
\<close>

definition fs_store_inv :: "string \<Rightarrow> host \<Rightarrow> bool" where
  "fs_store_inv root h \<longleftrightarrow> host_ok h \<and>
     (\<forall>k i. i \<noteq> [] \<longrightarrow> blob_path root k i \<notin> set (h_dirs h)) \<and>
     (\<forall>n. component n \<longrightarrow> file_at h (path_join (refs_dir root) n) \<noteq> None \<longrightarrow>
        valid_ref_name n \<and> refs_dir root \<in> set (h_dirs h))"

definition fs_blobs :: "string \<Rightarrow> host \<Rightarrow> BlobKind \<Rightarrow> bytes \<Rightarrow> bytes option" where
  "fs_blobs root h k i = (if i = [] then None else file_at h (blob_path root k i))"

definition fs_ref_ok :: "string \<Rightarrow> bool" where
  "fs_ref_ok n \<longleftrightarrow> valid_ref_name n \<and> \<not> internal_name n"

definition fs_refs :: "string \<Rightarrow> host \<Rightarrow> string \<Rightarrow> bytes option" where
  "fs_refs root h n = (if fs_ref_ok n then file_at h (ref_path root n) else None)"

definition fs_healthy :: "string \<Rightarrow> host \<Rightarrow> bool" where
  "fs_healthy root h \<longleftrightarrow> no_fault h \<and> \<not> h_nfs h (refs_dir root)"

lemma fs_store_invD:
  assumes "fs_store_inv root h"
  shows "host_ok h" and "i \<noteq> [] \<Longrightarrow> blob_path root k i \<notin> set (h_dirs h)"
    and "component n \<Longrightarrow> file_at h (path_join (refs_dir root) n) \<noteq> None \<Longrightarrow> valid_ref_name n \<and> refs_dir root \<in> set (h_dirs h)"
  using assms unfolding fs_store_inv_def by blast+

lemma path_join_tail:
  assumes "component n"
  shows "path_join root n = n \<or> (\<exists>pre. path_join root n = pre @ ''/'' @ n)"
proof (cases "root \<noteq> [] \<and> last root = CHR ''/''")
  case True
  then have "root = butlast root @ ''/''" by (metis append_butlast_last_id)
  then have "path_join root n = butlast root @ ''/'' @ n"
    using True component_not_abs [OF assms] by (metis append.assoc path_join_def)
  then show ?thesis by blast
next
  case False
  then show ?thesis using component_not_abs [OF assms] by (auto simp: path_join_def)
qed

lemma blob_path_slash: "i \<noteq> [] \<Longrightarrow> blob_path root k i = kind_dir root k @ ''/'' @ fs_hex_bytes i"
  unfolding blob_path_def kind_dir_def by (rule join_component) (simp_all add: fs_hex_component)

lemma kind_not_hex: "as_str k \<noteq> fs_hex_bytes i"
proof
  assume eq: "as_str k = fs_hex_bytes i"
  then have "hex_pairs (as_str k) = Some i" using hex_pairs_serialize [of i] by (simp add: fs_hex_bytes_def hex_bytes_serialize_def)
  moreover have "hex_pairs (as_str k) = None" by (cases k; simp only: as_str.simps; code_simp)
  ultimately show False by simp
qed

lemma refs_not_hex: "''refs'' \<noteq> fs_hex_bytes i"
proof
  assume "''refs'' = fs_hex_bytes i"
  then have "hex_pairs ''refs'' = Some i" using hex_pairs_serialize [of i] by (simp add: fs_hex_bytes_def hex_bytes_serialize_def)
  moreover have "hex_pairs ''refs'' = None" by code_simp
  ultimately show False by simp
qed

lemma dir_not_blob:
  assumes "component d" and "\<And>j. d \<noteq> fs_hex_bytes j" and "i \<noteq> []"
  shows "path_join root d \<noteq> blob_path root' k i"
proof
  assume eq: "path_join root d = blob_path root' k i"
  have c: "CHR ''/'' \<notin> set d" "CHR ''/'' \<notin> set (fs_hex_bytes i)"
    using assms(1) fs_hex_component [OF assms(3)] by (auto simp: component_def)
  from path_join_tail [OF assms(1), of root] show False
  proof
    assume "path_join root d = d"
    then show False using eq blob_path_slash [OF assms(3), of root' k] c(1) by auto
  next
    assume "\<exists>pre. path_join root d = pre @ ''/'' @ d"
    then obtain pre where "pre @ CHR ''/'' # d = kind_dir root' k @ CHR ''/'' # fs_hex_bytes i"
      using eq blob_path_slash [OF assms(3)] by auto
    then show False using slash_split_unique [OF _ c] assms(2) by blast
  qed
qed

lemma kind_dir_not_blob: "i \<noteq> [] \<Longrightarrow> kind_dir root k' \<noteq> blob_path root k i"
  unfolding kind_dir_def by (rule dir_not_blob) (simp_all add: kind_not_hex)

lemma refs_dir_not_blob: "i \<noteq> [] \<Longrightarrow> refs_dir root \<noteq> blob_path root k i"
  unfolding refs_dir_def by (rule dir_not_blob) (simp_all add: refs_not_hex)

lemma kind_refs_disjoint:
  assumes "component a" "component b"
  shows "path_join (kind_dir root k) a \<noteq> path_join (refs_dir root) b"
proof
  assume "path_join (kind_dir root k) a = path_join (refs_dir root) b"
  then have "as_str k = ''refs''" unfolding kind_dir_def refs_dir_def
    using path_join_dirs assms dir_components by metis
  then show False by (cases k) simp_all
qed

section \<open>Puts\<close>

lemma fs_put_spec:
  assumes inv: "fs_store_inv root h" and i: "i \<noteq> []" and run: "fs_put_blob root k i b h = (r, h')"
  shows "fs_store_inv root h' \<and> (\<forall>n. component n \<longrightarrow> file_at h' (path_join (refs_dir root) n) = file_at h (path_join (refs_dir root) n)) \<and>
    (\<forall>k' j. j \<noteq> [] \<longrightarrow> (k', j) \<noteq> (k, i) \<longrightarrow> file_at h' (blob_path root k' j) = file_at h (blob_path root k' j)) \<and>
    file_at h' (blob_path root k i) = (case r of Inl _ \<Rightarrow> file_at h (blob_path root k i)
      | Inr _ \<Rightarrow> if host_exists h (blob_path root k i) then file_at h (blob_path root k i) else Some b)"
proof (cases "host_exists h (blob_path root k i) \<or> h_fault h IoMkdir (kind_dir root k)")
  case True
  then show ?thesis using run inv by (auto simp: fs_put_blob_def io_defs host_create_dir_all_def fault_or_def split: if_splits)
next
  case False
  define h1 where "h1 = h\<lparr>h_dirs := List.insert (kind_dir root k) (h_dirs h)\<rparr>"
  have run1: "replace_file (kind_dir root k) (blob_path root k i) b h1 = (r, h')"
    using run False by (simp add: fs_put_blob_def io_defs host_create_dir_all_def fault_or_def h1_def)
  have ok: "host_ok h1" "file_at h1 = file_at h" using fs_store_invD(1) [OF inv] by (simp_all add: h1_def)
  have tmp: "path_join (kind_dir root k) (tmp_name w) \<noteq> blob_path root k' j" if "j \<noteq> []" for w k' j
    using blob_path_tmp [OF that, of root k' k w] by metis
  note spec = replace_file_spec [OF ok(1) tmp [OF i] run1]
  then obtain w where w: "\<And>p. p \<noteq> blob_path root k i \<Longrightarrow> p \<noteq> path_join (kind_dir root k) (tmp_name w) \<Longrightarrow> file_at h' p = file_at h p"
    unfolding ok(2) by blast
  have refs: "file_at h' (path_join (refs_dir root) n) = file_at h (path_join (refs_dir root) n)" if "component n" for n
    by (rule w) (use blob_ref_disjoint [OF i that, of root k] kind_refs_disjoint [OF tmp_name_valid(3) that, of root k w] in \<open>metis+\<close>)
  have blobs: "file_at h' (blob_path root k' j) = file_at h (blob_path root k' j)" if "j \<noteq> []" "(k', j) \<noteq> (k, i)" for k' j
    by (rule w) (use tmp [OF that(1)] blob_path_eq [OF that(1) i] that(2) in \<open>metis+\<close>)
  have dirs: "h_dirs h' = List.insert (kind_dir root k) (h_dirs h)" "host_ok h'" using spec by (simp_all add: h1_def)
  have "fs_store_inv root h'"
    unfolding fs_store_inv_def dirs(1)
    using dirs(2) refs fs_store_invD(2,3) [OF inv] kind_dir_not_blob [of _ root k, symmetric] by (auto simp del: not_None_eq)
  then show ?thesis using refs blobs spec False ok(2) by (auto split: sum.split)
qed

interpretation fb: blob_remote "fs_remote root" "fs_blobs root" "\<lambda>i. i \<noteq> []" "fs_store_inv root" for root
proof (unfold_locales, goal_cases)
  case (1 s i k r)
  then show ?case
    by (auto simp: fs_remote_def fs_get_blob_def read_opt_def fs_blobs_def host_read_def fault_or_def split: if_splits option.splits)
next
  case (2 s i k b)
  then show ?case
    by (auto simp: fs_remote_def fs_has_blob_def fs_blobs_def host_stat_def fault_or_def split: if_splits option.splits)
next
  case (3 s i k b)
  then show ?case using fs_put_spec [OF 3, of k b] by (cases "fs_put_blob root k i b s") (simp add: fs_remote_def)
next
  case (4 s i k b u s')
  then have "fs_put_blob root k i b s = (Inr u, s')" by (simp add: fs_remote_def)
  from fs_put_spec [OF 4(1,2) this] show ?case
    using 4 fs_store_invD(2) [OF 4(1,2), of k] by (auto simp: fs_blobs_def host_exists_def split: if_splits)
next
  case (5 s i j k' k b)
  then show ?case using fs_put_spec [OF 5(1,2), of k b]
    by (cases "fs_put_blob root k i b s") (auto simp: fs_remote_def fs_blobs_def)
next
  case (6 s i k b e s')
  then have "fs_put_blob root k i b s = (Inl e, s')" by (simp add: fs_remote_def)
  from fs_put_spec [OF 6(1,2) this] show ?case by (simp add: fs_blobs_def)
qed

section \<open>Compare-and-swap\<close>

text \<open>A change below \<^verbatim>\<open>refs\<close>: only the named files change, to legal names, and the directory is there.\<close>

lemma refs_change_inv:
  assumes inv: "fs_store_inv root h" and ok: "host_ok h'" and dirs: "set (h_dirs h') = insert (refs_dir root) (set (h_dirs h))"
    and same: "\<And>p. file_at h' p \<noteq> file_at h p \<Longrightarrow> \<exists>n \<in> N. p = path_join (refs_dir root) n" and N: "\<And>n. n \<in> N \<Longrightarrow> valid_ref_name n"
  shows "fs_store_inv root h' \<and> fs_blobs root h' = fs_blobs root h"
proof -
  have ref: "valid_ref_name n" if "component n" "file_at h' (path_join (refs_dir root) n) \<noteq> None" for n
  proof (cases "file_at h' (path_join (refs_dir root) n) = file_at h (path_join (refs_dir root) n)")
    case True
    then show ?thesis using fs_store_invD(3) [OF inv that(1)] that(2) by simp
  next
    case False
    then obtain m where "m \<in> N" "path_join (refs_dir root) n = path_join (refs_dir root) m" using same by blast
    then show ?thesis using ref_path_eq [OF that(1) valid_ref_component] N by metis
  qed
  have blob: "file_at h' (blob_path root k i) = file_at h (blob_path root k i)" if "i \<noteq> []" for k i
    using same [of "blob_path root k i"] blob_ref_disjoint [OF that valid_ref_component] N by metis
  have "fs_store_inv root h'"
    unfolding fs_store_inv_def dirs using ok ref fs_store_invD(2) [OF inv] refs_dir_not_blob [of _ root, symmetric]
    by (auto simp del: not_None_eq)
  then show ?thesis using blob by (simp add: fs_blobs_def fun_eq_iff)
qed

lemma refs_change_refs:
  assumes same: "\<And>p. file_at h' p \<noteq> file_at h p \<Longrightarrow> \<exists>n \<in> N. p = path_join (refs_dir root) n" and N: "\<And>n. n \<in> N \<Longrightarrow> valid_ref_name n"
    and m: "m \<notin> N"
  shows "fs_refs root h' m = fs_refs root h m"
proof (cases "fs_ref_ok m")
  case True
  then have c: "component m" by (simp add: fs_ref_ok_def valid_ref_component)
  have "file_at h' (ref_path root m) = file_at h (ref_path root m)"
    using same [of "ref_path root m"] m ref_path_eq [OF c valid_ref_component] N unfolding ref_path_def by metis
  then show ?thesis by (simp add: fs_refs_def)
qed (simp add: fs_refs_def)

lemma acquire_spec:
  assumes inv: "fs_store_inv root h" and run: "refs_lock_acquire (refs_dir root) h = (r, h')"
  shows "fs_store_inv root h' \<and> fs_blobs root h' = fs_blobs root h \<and> fs_refs root h' = fs_refs root h \<and>
    h_fault h' = h_fault h \<and> h_nfs h' = h_nfs h \<and> (r = Inr () \<longrightarrow> refs_dir root \<in> set (h_dirs h'))"
proof (cases "h_nfs h (refs_dir root) \<or> h_fault h IoMkdir (refs_dir root)")
  case True
  then show ?thesis using run inv
    by (auto simp: refs_lock_acquire_def io_defs host_create_dir_all_def fault_or_def split: if_splits)
next
  case False
  have ok: "host_ok h" by (rule fs_store_invD(1) [OF inv])
  have h': "host_ok h' \<and> h_dirs h' = List.insert (refs_dir root) (h_dirs h) \<and> h_fault h' = h_fault h \<and> h_nfs h' = h_nfs h \<and>
      (\<forall>p. file_at h' p \<noteq> file_at h p \<longrightarrow> p = path_join (refs_dir root) ''.lock'')"
    using run False ok by (auto simp: refs_lock_acquire_def io_defs host_defs split: if_splits)
  then have same: "\<exists>n \<in> {''.lock''}. p = path_join (refs_dir root) n" if "file_at h' p \<noteq> file_at h p" for p using that by blast
  have v: "valid_ref_name n" if "n \<in> {''.lock''}" for n using that lock_name_valid by blast
  have "fs_store_inv root h' \<and> fs_blobs root h' = fs_blobs root h"
    by (rule refs_change_inv [OF inv _ _ same v]) (use h' in auto)
  moreover have "fs_refs root h' = fs_refs root h"
  proof
    fix m show "fs_refs root h' m = fs_refs root h m"
      using refs_change_refs [OF same v, where m = m] lock_name_valid(2) by (cases "m = ''.lock''") (auto simp: fs_refs_def fs_ref_ok_def)
  qed
  ultimately show ?thesis using h' by simp
qed

lemma acquire_live:
  "fs_healthy root h \<Longrightarrow> \<exists>h'. refs_lock_acquire (refs_dir root) h = (Inr (), h')"
  by (auto simp: refs_lock_acquire_def io_defs host_defs fs_healthy_def no_fault_def)

lemma read_opt_sound: "fs_ref_ok n \<Longrightarrow> read_opt l (ref_path root n) h = Inr r \<Longrightarrow> r = fs_refs root h n"
  by (auto simp: read_opt_def host_read_def fault_or_def fs_refs_def split: if_splits option.splits)

lemma read_opt_live: "fs_healthy root h \<Longrightarrow> \<exists>r. read_opt l p h = Inr r"
  by (auto simp: read_opt_def host_read_def fault_or_def fs_healthy_def no_fault_def split: option.splits)

lemma write_ref_spec:
  assumes inv: "fs_store_inv root h" and n: "fs_ref_ok n" and d: "refs_dir root \<in> set (h_dirs h)"
    and run: "replace_file (refs_dir root) (ref_path root n) v h = (r, h')"
  shows "fs_store_inv root h' \<and> fs_blobs root h' = fs_blobs root h \<and> h_fault h' = h_fault h \<and> h_nfs h' = h_nfs h \<and>
    fs_refs root h' = (case r of Inl _ \<Rightarrow> fs_refs root h | Inr _ \<Rightarrow> (fs_refs root h)(n \<mapsto> v))"
proof -
  have vn: "valid_ref_name n" "\<not> internal_name n" using n by (simp_all add: fs_ref_ok_def)
  have ne: "path_join (refs_dir root) (tmp_name w) \<noteq> ref_path root n" for w
    unfolding ref_path_def using ref_path_eq [OF tmp_name_valid(3) valid_ref_component [OF vn(1)]] tmp_name_valid(2) vn(2) by metis
  note spec = replace_file_spec [OF fs_store_invD(1) [OF inv] ne run]
  then obtain w where w: "\<And>p. p \<noteq> ref_path root n \<Longrightarrow> p \<noteq> path_join (refs_dir root) (tmp_name w) \<Longrightarrow> file_at h' p = file_at h p" by blast
  have same: "\<exists>m \<in> {n, tmp_name w}. p = path_join (refs_dir root) m" if "file_at h' p \<noteq> file_at h p" for p
    using that w [of p] unfolding ref_path_def by blast
  have v: "valid_ref_name m" if "m \<in> {n, tmp_name w}" for m using that vn tmp_name_valid by blast
  have 1: "fs_store_inv root h' \<and> fs_blobs root h' = fs_blobs root h"
    by (rule refs_change_inv [OF inv _ _ same v]) (use spec d in auto)
  have 2: "fs_refs root h' m = (case r of Inl _ \<Rightarrow> fs_refs root h | Inr _ \<Rightarrow> (fs_refs root h)(n \<mapsto> v)) m" for m
  proof (cases "m = n")
    case True
    then show ?thesis using spec n by (auto simp: fs_refs_def split: sum.split)
  next
    case False
    then have "fs_refs root h' m = fs_refs root h m"
      using refs_change_refs [OF same v, where m = m] tmp_name_valid(2) [of w] by (cases "m = tmp_name w") (auto simp: fs_refs_def fs_ref_ok_def)
    then show ?thesis using False by (simp split: sum.split)
  qed
  then show ?thesis using 1 spec by auto
qed

lemma remove_ref_spec:
  assumes inv: "fs_store_inv root h" and n: "fs_ref_ok n" and d: "refs_dir root \<in> set (h_dirs h)"
    and run: "host_remove (ref_path root n) h = (r, h')"
  shows "fs_store_inv root h' \<and> fs_blobs root h' = fs_blobs root h \<and> h_fault h' = h_fault h \<and> h_nfs h' = h_nfs h \<and>
    fs_refs root h' = (if r = Inl IoOther then fs_refs root h else (fs_refs root h)(n := None))"
proof -
  have vn: "valid_ref_name n" using n by (simp add: fs_ref_ok_def)
  have h': "host_ok h' \<and> h_dirs h' = h_dirs h \<and> h_fault h' = h_fault h \<and> h_nfs h' = h_nfs h \<and>
      (\<forall>p. p \<noteq> ref_path root n \<longrightarrow> file_at h' p = file_at h p) \<and>
      file_at h' (ref_path root n) = (if r = Inl IoOther then file_at h (ref_path root n) else None)"
    using run fs_store_invD(1) [OF inv] by (auto simp: host_remove_def fault_or_def split: if_splits option.splits)
  have same: "\<exists>m \<in> {n}. p = path_join (refs_dir root) m" if "file_at h' p \<noteq> file_at h p" for p
    using that h' unfolding ref_path_def by blast
  have v: "valid_ref_name m" if "m \<in> {n}" for m using that vn by blast
  have 1: "fs_store_inv root h' \<and> fs_blobs root h' = fs_blobs root h"
    by (rule refs_change_inv [OF inv _ _ same v]) (use h' d in auto)
  have 2: "fs_refs root h' m = (if r = Inl IoOther then fs_refs root h else (fs_refs root h)(n := None)) m" for m
    using refs_change_refs [OF same v, where m = m] h' n by (cases "m = n") (auto simp: fs_refs_def)
  then show ?thesis using 1 h' by auto
qed

lemma cas_locked_spec:
  assumes inv: "fs_store_inv root h" and n: "fs_ref_ok n" and d: "refs_dir root \<in> set (h_dirs h)"
    and run: "cas_locked root n e v h = (r, h')"
  shows "fs_store_inv root h' \<and> fs_blobs root h' = fs_blobs root h \<and> h_fault h' = h_fault h \<and> h_nfs h' = h_nfs h \<and>
    (case r of Inl _ \<Rightarrow> fs_refs root h' = fs_refs root h
     | Inr Updated \<Rightarrow> fs_refs root h n = e \<and> fs_refs root h' = (fs_refs root h)(n := v)
     | Inr (Conflict a) \<Rightarrow> a = fs_refs root h n \<and> a \<noteq> e \<and> fs_refs root h' = fs_refs root h)"
proof (cases "read_opt ''reading ref '' (ref_path root n) h")
  case (Inl x)
  then show ?thesis using run inv by (auto simp: cas_locked_def)
next
  case (Inr cur)
  have cur: "cur = fs_refs root h n" using read_opt_sound [OF n Inr] .
  show ?thesis
  proof (cases "cur = e")
    case False
    then show ?thesis using run inv Inr cur by (auto simp: cas_locked_def)
  next
    case True
    show ?thesis
    proof (cases v)
      case (Some b)
      obtain x h1 where x: "replace_file (refs_dir root) (ref_path root n) b h = (x, h1)" by fastforce
      show ?thesis using write_ref_spec [OF inv n d x] run Inr True cur Some x
        by (cases x) (auto simp: cas_locked_def io_defs)
    next
      case None
      obtain x h1 where x: "host_remove (ref_path root n) h = (x, h1)" by fastforce
      show ?thesis using remove_ref_spec [OF inv n d x] run Inr True cur None x
        by (cases x) (auto simp: cas_locked_def split: io_error.splits if_splits)
    qed
  qed
qed

lemma fs_cas_spec:
  assumes inv: "fs_store_inv root h" and n: "fs_ref_ok n" and run: "fs_cas_ref root n e v h = (r, h')"
  shows "fs_store_inv root h' \<and> fs_blobs root h' = fs_blobs root h \<and> h_fault h' = h_fault h \<and> h_nfs h' = h_nfs h \<and>
    (case r of Inl _ \<Rightarrow> fs_refs root h' = fs_refs root h
     | Inr Updated \<Rightarrow> fs_refs root h n = e \<and> fs_refs root h' = (fs_refs root h)(n := v)
     | Inr (Conflict a) \<Rightarrow> a = fs_refs root h n \<and> a \<noteq> e \<and> fs_refs root h' = fs_refs root h)"
proof -
  obtain x h1 where a: "refs_lock_acquire (refs_dir root) h = (x, h1)" by fastforce
  note acq = acquire_spec [OF inv a]
  have vn: "validate_ref_name n = Inr ()" using n by (simp add: fs_ref_ok_def valid_ref_name_def)
  show ?thesis
  proof (cases x)
    case (Inl err)
    then show ?thesis using run vn a acq by (auto simp: fs_cas_ref_def io_defs)
  next
    case (Inr u)
    obtain y h2 where y: "cas_locked root n e v h1 = (y, h2)" by fastforce
    have "fs_store_inv root h1" "refs_dir root \<in> set (h_dirs h1)" using acq Inr by simp_all
    from cas_locked_spec [OF this(1) n this(2) y] show ?thesis
      using run vn a Inr acq y by (cases y) (auto simp: fs_cas_ref_def io_defs split: CasOutcome.split)
  qed
qed

lemma fs_cas_live:
  assumes inv: "fs_store_inv root h" and n: "fs_ref_ok n" and hl: "fs_healthy root h"
  shows "\<exists>out h'. fs_cas_ref root n e v h = (Inr out, h')"
proof -
  obtain h1 where a: "refs_lock_acquire (refs_dir root) h = (Inr (), h1)" using acquire_live [OF hl] by blast
  note acq = acquire_spec [OF inv a]
  have hl1: "fs_healthy root h1" "host_ok h1" "no_fault h1" using hl acq fs_store_invD(1) by (auto simp: fs_healthy_def no_fault_def)
  obtain cur where cur: "read_opt ''reading ref '' (ref_path root n) h1 = Inr cur" using read_opt_live [OF hl1(1)] by blast
  have vn: "validate_ref_name n = Inr ()" using n by (simp add: fs_ref_ok_def valid_ref_name_def)
  have "\<exists>out h'. cas_locked root n e v h1 = (Inr out, h')"
  proof (cases v)
    case None
    then show ?thesis using cur hl1(3) by (auto simp: cas_locked_def host_remove_def fault_or_def no_fault_def split: option.splits)
  next
    case (Some b)
    obtain h2 where "replace_file (refs_dir root) (ref_path root n) b h1 = (Inr (), h2)" using replace_file_live [OF hl1(2,3)] by blast
    then show ?thesis using cur Some by (simp add: cas_locked_def io_defs)
  qed
  then show ?thesis using vn a by (auto simp: fs_cas_ref_def io_defs)
qed

lemma dir_names_iff:
  "n \<in> set [n. (p, _) \<leftarrow> xs, n \<leftarrow> (case strip_prefix d p of Some n \<Rightarrow> [n] | None \<Rightarrow> []), component n] \<longleftrightarrow>
   component n \<and> d @ n \<in> fst ` set xs"
proof (induction xs)
  case (Cons x xs)
  obtain p b where x: "x = (p, b)" by (cases x)
  show ?case
  proof (cases "strip_prefix d p")
    case None
    then have "p \<noteq> d @ n" using strip_prefix_Some_iff [of d p n] by auto
    then show ?thesis using Cons.IH None by (auto simp: x)
  next
    case (Some r)
    then have "p = d @ r" by (simp add: strip_prefix_Some_iff)
    then show ?thesis using Cons.IH Some by (auto simp: x)
  qed
qed simp

lemma dir_names_distinct:
  "distinct (map fst xs) \<Longrightarrow>
   distinct [n. (p, _) \<leftarrow> xs, n \<leftarrow> (case strip_prefix d p of Some n \<Rightarrow> [n] | None \<Rightarrow> []), component n]"
proof (induction xs)
  case (Cons x xs)
  obtain p b where x: "x = (p, b)" by (cases x)
  show ?case
  proof (cases "strip_prefix d p")
    case None
    then show ?thesis using Cons by (simp add: x)
  next
    case (Some n)
    then have "p = d @ n" by (simp add: strip_prefix_Some_iff)
    then have "n \<notin> set [n. (p, _) \<leftarrow> xs, n \<leftarrow> (case strip_prefix d p of Some n \<Rightarrow> [n] | None \<Rightarrow> []), component n]"
      using Cons.prems unfolding dir_names_iff by (simp add: x)
    then show ?thesis using Cons Some by (auto simp: x)
  qed
qed simp

lemma read_dir_names:
  assumes "host_ok h" and "host_read_dir (refs_dir root) h = (Inr names, h')"
  shows "distinct names \<and> set names = {n. component n \<and> file_at h (path_join (refs_dir root) n) \<noteq> None}"
proof -
  define d where "d = path_join (refs_dir root) []"
  have "last (refs_dir root) \<noteq> CHR ''/''" "refs_dir root \<noteq> []"
    using last_path_join [OF dir_components(2), of root] by (simp_all add: refs_dir_def)
  then have "d = refs_dir root @ ''/''" by (simp add: d_def path_join_def starts_with_def)
  then have join: "path_join (refs_dir root) n = d @ n" if "component n" for n using refs_dir_join [OF that] by simp
  have names: "names = [n. (p, _) \<leftarrow> h_files h, n \<leftarrow> (case strip_prefix d p of Some n \<Rightarrow> [n] | None \<Rightarrow> []), component n]"
    using assms(2) by (auto simp: host_read_dir_def fault_or_def d_def split: if_splits)
  have "n \<in> set names \<longleftrightarrow> component n \<and> d @ n \<in> fst ` set (h_files h)" for n
    unfolding names by (rule dir_names_iff)
  moreover have "d @ n \<in> fst ` set (h_files h) \<longleftrightarrow> file_at h (d @ n) \<noteq> None" for n
    unfolding file_at_def by (simp add: map_of_eq_None_iff)
  moreover have "distinct names"
    unfolding names by (rule dir_names_distinct) (use assms(1) bt_wf_distinct in \<open>auto simp: host_ok_def\<close>)
  ultimately show ?thesis using join by auto
qed

lemma fs_list_sound:
  assumes inv: "fs_store_inv root h" and run: "fs_list_refs root h = Inr ns"
  shows "sorted ns \<and> distinct ns \<and> set ns = {n. fs_ref_ok n \<and> fs_refs root h n \<noteq> None}"
proof -
  obtain x h' where d: "host_read_dir (refs_dir root) h = (x, h')" by fastforce
  have served: "{n. fs_ref_ok n \<and> fs_refs root h n \<noteq> None} = {n. component n \<and> file_at h (path_join (refs_dir root) n) \<noteq> None \<and> \<not> internal_name n}"
    using fs_store_invD(3) [OF inv] valid_ref_component by (auto simp: fs_ref_ok_def fs_refs_def ref_path_def)
  show ?thesis
  proof (cases x)
    case (Inl err)
    then have "refs_dir root \<notin> set (h_dirs h)" "ns = []" using run d
      by (auto simp: fs_list_refs_def host_read_dir_def fault_or_def split: if_splits)
    then show ?thesis unfolding served using fs_store_invD(3) [OF inv] by (auto simp del: not_None_eq)
  next
    case (Inr names)
    have ns: "ns = sort (filter (\<lambda>n. \<not> internal_name n) names)" using run d Inr by (auto simp: fs_list_refs_def split: if_splits)
    then show ?thesis unfolding served ns using read_dir_names [OF fs_store_invD(1) [OF inv]] d Inr by auto
  qed
qed

interpretation fr: ref_catalog "fs_get_ref root" "fs_cas_ref root" "fs_list_refs root" "fs_refs root" fs_ref_ok
  "fs_store_inv root" "fs_healthy root" for root
proof (unfold_locales, goal_cases)
  case (1 s n r)
  then show ?case using read_opt_sound [OF 1(2), of _ root s]
    by (cases "read_opt ''reading ref '' (ref_path root n) s") (auto simp: fs_get_ref_def fs_ref_ok_def valid_ref_name_def)
next
  case (2 s n)
  then show ?case using read_opt_live [OF 2(3), of "''reading ref ''" "ref_path root n"]
    by (auto simp: fs_get_ref_def fs_ref_ok_def valid_ref_name_def)
next
  case (3 s n e v)
  then show ?case using fs_cas_spec [OF 3, of e v] by (cases "fs_cas_ref root n e v s") simp
next
  case (4 s n e v s')
  then show ?case using fs_cas_spec [OF 4] by simp
next
  case (5 s n e v a s')
  then show ?case using fs_cas_spec [OF 5] by auto
next
  case (6 s n e v err s')
  then show ?case using fs_cas_spec [OF 6] by simp
next
  case (7 s n e v)
  then show ?case using fs_cas_live [OF 7, of e v] fs_cas_spec [OF 7(1,2), of e v] by (auto simp: fs_healthy_def no_fault_def)
next
  case (8 s ns)
  then show ?case by (rule fs_list_sound)
qed

section \<open>What the remote promises\<close>

definition reads_ok :: "host \<Rightarrow> bool" where
  "reads_ok h \<longleftrightarrow> (\<forall>p. \<not> h_fault h IoRead p \<and> \<not> h_fault h IoStat p)"

lemma get_blob_eq: "reads_ok h \<Longrightarrow> i \<noteq> [] \<Longrightarrow> fs_get_blob root k i h = Inr (fs_blobs root h k i)"
  by (simp add: fs_get_blob_def read_opt_def host_read_def fault_or_def fs_blobs_def reads_ok_def split: option.split)

lemma put_keeps_faults:
  assumes "host_ok h" and "fs_put_blob root k i b h = (r, h')" and "i \<noteq> []"
  shows "h_fault h' = h_fault h"
proof (cases "host_exists h (blob_path root k i) \<or> h_fault h IoMkdir (kind_dir root k)")
  case True
  then show ?thesis using assms by (auto simp: fs_put_blob_def io_defs host_create_dir_all_def fault_or_def split: if_splits)
next
  case False
  define h1 where "h1 = h\<lparr>h_dirs := List.insert (kind_dir root k) (h_dirs h)\<rparr>"
  have run: "replace_file (kind_dir root k) (blob_path root k i) b h1 = (r, h')"
    using assms(2) False by (simp add: fs_put_blob_def io_defs host_create_dir_all_def fault_or_def h1_def)
  have "path_join (kind_dir root k) (tmp_name w) \<noteq> blob_path root k i" for w using blob_path_tmp [OF assms(3)] by metis
  from replace_file_spec [OF _ this run] show ?thesis using assms(1) by (simp add: h1_def)
qed

text \<open>
  C32: Putting a blob into a directory remote is atomic and isolated, whatever host calls fail on the way. A failed put leaves what is
  stored under the id as it was. A successful one leaves the bytes that were already there, or, where
  nothing was there or the check for it failed, exactly the bytes put. Every other blob of any kind and
  every ref is as before in both cases. What a reader gets, unless its own read fails, is what is stored.
\<close>

theorem blob_put_atomic:
  assumes inv: "fs_store_inv root h" and i: "i \<noteq> []" and run: "fs_put_blob root k i b h = (r, h')"
  shows "fs_blobs root h' k i =
      (if r = Inr () \<and> (fs_blobs root h k i = None \<or> h_fault h IoStat (blob_path root k i)) then Some b else fs_blobs root h k i) \<and>
    (\<forall>k' j. (k', j) \<noteq> (k, i) \<longrightarrow> fs_blobs root h' k' j = fs_blobs root h k' j) \<and> fs_refs root h' = fs_refs root h \<and>
    (\<forall>k' j x. j \<noteq> [] \<and> fs_get_blob root k' j h' = Inr x \<longrightarrow> x = fs_blobs root h' k' j) \<and>
    (\<forall>n x. fs_ref_ok n \<and> fs_get_ref root n h' = Inr x \<longrightarrow> x = fs_refs root h' n)"
proof -
  note spec = fs_put_spec [OF inv i run]
  have ex: "host_exists h (blob_path root k i) \<longleftrightarrow> fs_blobs root h k i \<noteq> None \<and> \<not> h_fault h IoStat (blob_path root k i)"
    using fs_store_invD(2) [OF inv i] i by (auto simp: host_exists_def fs_blobs_def)
  have "fs_refs root h' = fs_refs root h"
    using spec by (auto simp: fs_refs_def fs_ref_ok_def ref_path_def valid_ref_component fun_eq_iff)
  moreover have "x = fs_blobs root h' k' j" if "j \<noteq> []" "fs_get_blob root k' j h' = Inr x" for k' j x
    using that by (auto simp: fs_get_blob_def read_opt_def host_read_def fault_or_def fs_blobs_def split: if_splits option.splits)
  moreover have "x = fs_refs root h' n" if "fs_ref_ok n" "fs_get_ref root n h' = Inr x" for n x
    using that fr.get_sound [of root h' n x] spec by blast
  ultimately show ?thesis using spec ex i by (auto simp: fs_blobs_def split: sum.splits)
qed

definition torn_disk :: host where
  "torn_disk = \<lparr>h_files = [], h_dirs = [], h_nfs = (\<lambda>_. False), h_fault = (\<lambda>c _. c = IoSync), h_rand = of_nat, h_draws = 0\<rparr>"

lemma empty_store_inv: "h_files h = [] \<Longrightarrow> h_dirs h = [] \<Longrightarrow> fs_store_inv root h"
  by (simp add: fs_store_inv_def host_ok_def file_at_def)

theorem blob_put_atomic_witness:
  "fs_blobs ''/srv'' (snd (fs_put_blob ''/srv'' KBlob ''ab'' ''data'' ex_host)) KBlob ''ab'' = Some ''data'' \<and>
   fs_blobs ''/srv'' (snd (fs_put_blob ''/srv'' KBlob ''ab'' ''data'' torn_disk)) KBlob ''ab'' = None"
proof -
  have inv: "fs_store_inv ''/srv'' ex_host" "fs_store_inv ''/srv'' torn_disk" by (simp_all add: empty_store_inv ex_host_def torn_disk_def)
  obtain r1 h1 r2 h2 where run: "fs_put_blob ''/srv'' KBlob ''ab'' ''data'' ex_host = (r1, h1)"
      "fs_put_blob ''/srv'' KBlob ''ab'' ''data'' torn_disk = (r2, h2)" by fastforce
  have none: "fs_blobs ''/srv'' ex_host KBlob ''ab'' = None" "fs_blobs ''/srv'' torn_disk KBlob ''ab'' = None"
    by (simp_all add: fs_blobs_def file_at_def ex_host_def torn_disk_def)
  have r: "r1 = Inr ()" "r2 \<noteq> Inr ()"
    using run by (auto simp: fs_put_blob_def host_exists_def file_at_def ex_host_def torn_disk_def io_defs host_defs replace_file_def write_tmp_def
        publish_def host_random_def put_file_def drop_file_def bt_remove_def)
  show ?thesis using blob_put_atomic [OF inv(1) _ run(1)] blob_put_atomic [OF inv(2) _ run(2)] run none r by simp
qed

lemma swap_creates_lock:
  assumes inv: "fs_store_inv root h" and hl: "fs_healthy root h" and n: "fs_ref_ok n" and new: "file_at h (ref_path root ''.lock'') = None"
    and run: "fs_cas_ref root n (fs_refs root h n) (Some v) h = (r, h')"
  shows "file_at h' (ref_path root ''.lock'') = Some []"
proof -
  obtain h1 where a: "refs_lock_acquire (refs_dir root) h = (Inr (), h1)" using acquire_live [OF hl] by blast
  note acq = acquire_spec [OF inv a]
  have ok: "host_ok h" by (rule fs_store_invD(1) [OF inv])
  have lock: "file_at h1 (ref_path root ''.lock'') = Some []"
    using a hl ok new by (auto simp: refs_lock_acquire_def io_defs host_defs fs_healthy_def no_fault_def ref_path_def)
  have nn: "component n" "n \<noteq> ''.lock''" "\<not> internal_name n" using n by (auto simp: fs_ref_ok_def internal_name_def valid_ref_component)
  obtain x h2 where x: "replace_file (refs_dir root) (ref_path root n) v h1 = (x, h2)" by fastforce
  have ne: "path_join (refs_dir root) (tmp_name w) \<noteq> ref_path root n" for w
    unfolding ref_path_def using ref_path_eq [OF tmp_name_valid(3) nn(1)] tmp_name_valid(2) nn(3) by metis
  have "''.lock'' \<noteq> tmp_name w" for w by (simp add: tmp_name_def)
  then have "file_at h2 (ref_path root ''.lock'') = Some []"
    using replace_file_spec [OF _ ne x] acq fs_store_invD(1) lock ref_path_eq [OF lock_name_valid(3) nn(1)]
      ref_path_eq [OF lock_name_valid(3) tmp_name_valid(3)] nn(2) unfolding ref_path_def by metis
  moreover obtain cur where cur: "read_opt ''reading ref '' (ref_path root n) h1 = Inr cur"
    using read_opt_live [of root h1] acq hl by (auto simp: fs_healthy_def no_fault_def)
  moreover have "cur = fs_refs root h n" using read_opt_sound [OF n cur] acq by simp
  ultimately show ?thesis using run a x n
    by (cases x) (auto simp: fs_cas_ref_def fs_ref_ok_def valid_ref_name_def io_defs cas_locked_def)
qed

text \<open>
  The lock file of a directory remote is itself a ref: its name passes the check, it does not exist on an empty
  remote, and it reads as an existing empty ref after the first swap of any other ref, while the listing
  leaves it out.
\<close>

theorem lock_file_is_a_ref:
  "validate_ref_name ''.lock'' = Inr () \<and> fs_get_ref ''/srv'' ''.lock'' ex_host = Inr None \<and>
   (let h1 = snd (fs_cas_ref ''/srv'' ''head'' None (Some ''v'') ex_host)
    in fs_get_ref ''/srv'' ''.lock'' h1 = Inr (Some []) \<and>
       ''.lock'' \<notin> set (case fs_list_refs ''/srv'' h1 of Inr ns \<Rightarrow> ns | Inl _ \<Rightarrow> []))"
proof -
  obtain r h1 where run: "fs_cas_ref ''/srv'' ''head'' None (Some ''v'') ex_host = (r, h1)" by fastforce
  have inv: "fs_store_inv ''/srv'' ex_host" "fs_healthy ''/srv'' ex_host" "fs_ref_ok ''head''"
    by (simp_all add: empty_store_inv ex_host_def fs_healthy_def no_fault_def fs_ref_ok_def valid_ref_name_iff internal_name_def starts_with_def)
  have none: "file_at ex_host = Map.empty" by (simp add: file_at_def ex_host_def fun_eq_iff)
  have "file_at h1 (ref_path ''/srv'' ''.lock'') = Some []"
    by (rule swap_creates_lock [OF inv]) (use none run in \<open>simp_all add: fs_refs_def\<close>)
  moreover have "h_fault h1 = (\<lambda>_ _. False)" using fs_cas_spec [OF inv(1,3) run] by (simp add: ex_host_def)
  moreover have "''.lock'' \<notin> set (case fs_list_refs ''/srv'' h1 of Inr ns \<Rightarrow> ns | Inl _ \<Rightarrow> [])"
    by (auto simp: fs_list_refs_def internal_name_def split: sum.split io_error.split)
  ultimately show ?thesis using lock_name_valid(1) none run
    by (simp add: valid_ref_name_def fs_get_ref_def read_opt_def host_read_def fault_or_def ex_host_def Let_def)
qed

end
