(* ===== verification/Catalog.thy ===== *)
theory Catalog
  imports Local_Refs Fs_Remote
begin

text \<open>
  The refs of a mount as the daemon serves them (\<^verbatim>\<open>src/daemon/src/service.rs\<close>): the handle that picks the
  remote's refs when the mount has a remote and the mount's own table otherwise, and the three RPC
  handlers. The state of a handle is the pair of the remote and the local table.
\<close>

section \<open>Status codes\<close>

datatype code = InvalidArgument | NotFoundCode | FailedPrecondition | AlreadyExistsCode | Internal | DataLossCode | Unavailable

datatype status = Status code string

section \<open>The handle\<close>

datatype 's CatalogHandle = CatRemote "'s remote_ops" | CatLocal

fun catalog_for :: "'s remote_ops option \<Rightarrow> 's CatalogHandle" where
  "catalog_for (Some r) = CatRemote r"
| "catalog_for None = CatLocal"

fun catalog_get_ref :: "'s CatalogHandle \<Rightarrow> string \<Rightarrow> 's \<times> local_refs \<Rightarrow> catalog_error + bytes option" where
  "catalog_get_ref (CatRemote r) name (s, l) = rm_get_ref r name s"
| "catalog_get_ref CatLocal name (s, l) = local_get_ref name l"

fun catalog_cas_ref ::
  "'s CatalogHandle \<Rightarrow> string \<Rightarrow> bytes option \<Rightarrow> bytes option \<Rightarrow> 's \<times> local_refs \<Rightarrow> (catalog_error + CasOutcome) \<times> 's \<times> local_refs" where
  "catalog_cas_ref (CatRemote r) name expected new (s, l) = (case rm_cas_ref r name expected new s of (x, s') \<Rightarrow> (x, s', l))"
| "catalog_cas_ref CatLocal name expected new (s, l) = (case local_cas_ref name expected new l of (x, l') \<Rightarrow> (x, s, l'))"

fun catalog_list_refs :: "'s CatalogHandle \<Rightarrow> 's \<times> local_refs \<Rightarrow> catalog_error + string list" where
  "catalog_list_refs (CatRemote r) (s, l) = rm_list_refs r s"
| "catalog_list_refs CatLocal (s, l) = local_list_refs l"

section \<open>The handlers\<close>

record GetCatalogRefReply =
  reply_found :: bool
  reply_value :: bytes

record CasCatalogRefReply =
  reply_updated :: bool
  reply_actual :: "bytes option"

text \<open>
  The first argument of a handler is the outcome of \<^verbatim>\<open>resolve_catalog\<close> for the path of the request: an error, or
  the method of the handle.
\<close>

definition get_catalog_ref :: "status + (string \<Rightarrow> 's \<Rightarrow> catalog_error + bytes option) \<Rightarrow> string \<Rightarrow> 's \<Rightarrow> status + GetCatalogRefReply" where
  "get_catalog_ref catalog name s =
     (case validate_ref_name name of
        Inl _ \<Rightarrow> Inl (Status InvalidArgument ''ref name'')
      | Inr _ \<Rightarrow>
          (case catalog of
             Inl e \<Rightarrow> Inl e
           | Inr get \<Rightarrow>
               (case get name s of
                  Inl _ \<Rightarrow> Inl (Status Internal ''catalog get_ref'')
                | Inr (Some b) \<Rightarrow> Inr \<lparr>reply_found = True, reply_value = b\<rparr>
                | Inr None \<Rightarrow> Inr \<lparr>reply_found = False, reply_value = []\<rparr>)))"

definition cas_catalog_ref ::
  "status + (string \<Rightarrow> bytes option \<Rightarrow> bytes option \<Rightarrow> 's \<Rightarrow> (catalog_error + CasOutcome) \<times> 's) \<Rightarrow>
   string \<Rightarrow> bytes option \<Rightarrow> bytes option \<Rightarrow> 's \<Rightarrow> (status + CasCatalogRefReply) \<times> 's" where
  "cas_catalog_ref catalog name expected new s =
     (case validate_ref_name name of
        Inl _ \<Rightarrow> (Inl (Status InvalidArgument ''ref name''), s)
      | Inr _ \<Rightarrow>
          (case catalog of
             Inl e \<Rightarrow> (Inl e, s)
           | Inr cas \<Rightarrow>
               (case cas name expected new s of
                  (Inl _, s') \<Rightarrow> (Inl (Status Internal ''catalog cas_ref''), s')
                | (Inr Updated, s') \<Rightarrow> (Inr \<lparr>reply_updated = True, reply_actual = None\<rparr>, s')
                | (Inr (Conflict a), s') \<Rightarrow> (Inr \<lparr>reply_updated = False, reply_actual = a\<rparr>, s'))))"

definition list_catalog_refs :: "status + ('s \<Rightarrow> catalog_error + string list) \<Rightarrow> 's \<Rightarrow> status + string list" where
  "list_catalog_refs catalog s =
     (case catalog of
        Inl e \<Rightarrow> Inl e
      | Inr list_refs \<Rightarrow> (case list_refs s of Inl _ \<Rightarrow> Inl (Status Internal ''catalog list_refs'') | Inr ns \<Rightarrow> Inr ns))"

section \<open>Both handles keep the contract\<close>

interpretation cl: ref_catalog "catalog_get_ref CatLocal" "catalog_cas_ref CatLocal" "catalog_list_refs CatLocal"
  "\<lambda>(s, l). local_abs l" valid_ref_name "\<lambda>(s, l). local_inv l" "\<lambda>(s, l). local_healthy l"
proof (unfold_locales, goal_cases)
  case (1 s n r)
  then show ?case using lr.get_sound by (cases s) auto
next
  case (2 s n)
  then show ?case using lr.get_live by (cases s) auto
next
  case (3 s n e v)
  then show ?case using lr.cas_inv [of "snd s" n e v] by (cases s; cases "local_cas_ref n e v (snd s)") auto
next
  case (4 s n e v s')
  then show ?case using lr.cas_updated by (cases s) (auto split: prod.splits)
next
  case (5 s n e v a s')
  then show ?case using lr.cas_conflict by (cases s) (fastforce split: prod.splits)
next
  case (6 s n e v err s')
  then show ?case using lr.cas_failed by (cases s) (fastforce split: prod.splits)
next
  case (7 s n e v)
  then show ?case using lr.cas_live [of "snd s" n e v] by (cases s; cases "local_cas_ref n e v (snd s)") auto
next
  case (8 s ns)
  then show ?case using lr.list_sound by (cases s) auto
qed

text \<open>A remote that keeps the contract keeps it behind the handle.\<close>

lemma remote_catalog:
  assumes "ref_catalog (rm_get_ref R) (rm_cas_ref R) (rm_list_refs R) refs ok_name store_ok healthy"
  shows "ref_catalog (catalog_get_ref (CatRemote R)) (catalog_cas_ref (CatRemote R)) (catalog_list_refs (CatRemote R))
    (\<lambda>(s, l). refs s) ok_name (\<lambda>(s, l). store_ok s) (\<lambda>(s, l). healthy s)"
proof (rule ref_catalog.intro, goal_cases)
  case (1 s n r)
  then show ?case using ref_catalog.get_sound [OF assms] by (cases s) auto
next
  case (2 s n)
  then show ?case using ref_catalog.get_live [OF assms] by (cases s) auto
next
  case (3 s n e v)
  then show ?case using ref_catalog.cas_inv [OF assms, of "fst s" n e v] by (cases s; cases "rm_cas_ref R n e v (fst s)") auto
next
  case (4 s n e v s')
  then show ?case using ref_catalog.cas_updated [OF assms] by (cases s) (auto split: prod.splits)
next
  case (5 s n e v a s')
  then show ?case using ref_catalog.cas_conflict [OF assms] by (cases s) (fastforce split: prod.splits)
next
  case (6 s n e v err s')
  then show ?case using ref_catalog.cas_failed [OF assms, of "fst s" n e v err "fst s'"] by (cases s) (auto split: prod.splits)
next
  case (7 s n e v)
  then show ?case using ref_catalog.cas_live [OF assms, of "fst s" n e v] by (cases s; cases "rm_cas_ref R n e v (fst s)") auto
next
  case (8 s ns)
  then show ?case using ref_catalog.list_sound [OF assms] by (cases s) auto
qed

lemma fs_remote_refs [simp]:
  "rm_get_ref (fs_remote dir) = fs_get_ref dir" "rm_cas_ref (fs_remote dir) = fs_cas_ref dir" "rm_list_refs (fs_remote dir) = fs_list_refs dir"
  by (simp_all add: fs_remote_def)

interpretation cr: ref_catalog "catalog_get_ref (CatRemote (fs_remote dir))" "catalog_cas_ref (CatRemote (fs_remote dir))"
  "catalog_list_refs (CatRemote (fs_remote dir))" "\<lambda>(s, l). fs_refs dir s" fs_ref_ok "\<lambda>(s, l). fs_store_inv dir s" "\<lambda>(s, l). fs_healthy dir s" for dir
  by (rule remote_catalog) (simp add: fr.ref_catalog_axioms)

end
