(* ===== verification/Service.thy ===== *)
theory Service
  imports Root_Spec Mount_Meta Catalog
begin

text \<open>
  The daemon's service object (\<^verbatim>\<open>src/daemon/src/service.rs\<close>): the registry of ad-hoc mounts beside the routing
  filesystem of the managed workspaces, the resolution of a working-copy path, and the RPCs that manage
  repositories and workspaces and their persisted state. The host's files are shared by everything the
  service does: \<open>sv_host\<close> is handed to the routing filesystem for each of its calls and taken back.
  Registering git worktrees and removing directories is best effort in the code; the first is left out.
\<close>

section \<open>State\<close>

datatype StorageConfig = OnDisk string | InMemory

record 'g mount =
  mt_working_copy_path :: string
  mt_remote :: string
  mt_op_id :: bytes
  mt_workspace_id :: bytes
  mt_root_tree_id :: bytes
  mt_fs :: "'g kiki_fs"
  mt_git_repo_path :: string
  mt_meta_path :: "string option"
  mt_last_exported_head :: bytes
  mt_last_exported_bookmarks :: "(string \<times> bytes) list option"

record 'g service =
  sv_mounts :: "(string, 'g mount) btree"
  sv_root_fs :: "'g root_fs option"
  sv_mount_root :: "string option"
  sv_storage :: StorageConfig
  sv_vfs_handle :: bool
  sv_mount_attachment :: bool
  sv_host :: host
  sv_toml :: toml_lib

type_synonym ('g, 'a) svc = "('g service, status, 'a) comp"

text \<open>\<^verbatim>\<open>require_root_fs\<close>, then a method of the routing filesystem with its errors mapped.\<close>

definition not_configured :: status where
  "not_configured = Status FailedPrecondition ''managed workspaces not configured''"

definition require_root_fs :: "('g, unit) svc" where
  "require_root_fs = (\<lambda>sv. case sv_root_fs sv of None \<Rightarrow> (Err not_configured, sv) | Some _ \<Rightarrow> (Ok (), sv))"

definition on_root :: "(FsError \<Rightarrow> status) \<Rightarrow> ('g, 'a) root_op \<Rightarrow> ('g, 'a) svc" where
  "on_root f m = (\<lambda>sv.
     case sv_root_fs sv of
       None \<Rightarrow> (Err not_configured, sv)
     | Some rf \<Rightarrow>
         (case m (rf\<lparr>root_host := sv_host sv\<rparr>) of
            (r, rf') \<Rightarrow>
              (case r of Ok a \<Rightarrow> Ok a | Err e \<Rightarrow> Err (f e) | Panic \<Rightarrow> Panic | Diverge \<Rightarrow> Diverge,
               sv\<lparr>sv_root_fs := Some rf', sv_host := root_host rf'\<rparr>)))"

definition ask_root :: "('g root_fs \<Rightarrow> 'a) \<Rightarrow> ('g, 'a) svc" where
  "ask_root f = (\<lambda>sv. case sv_root_fs sv of None \<Rightarrow> (Err not_configured, sv) | Some rf \<Rightarrow> (Ok (f rf), sv))"

definition on_host :: "(string \<Rightarrow> status) \<Rightarrow> (toml_lib \<Rightarrow> (host, string, 'a) io) \<Rightarrow> ('g, 'a) svc" where
  "on_host f m = (\<lambda>sv.
     case m (sv_toml sv) (sv_host sv) of
       (Inl e, h) \<Rightarrow> (Err (f e), sv\<lparr>sv_host := h\<rparr>)
     | (Inr a, h) \<Rightarrow> (Ok a, sv\<lparr>sv_host := h\<rparr>))"

definition metadata_status :: "string \<Rightarrow> string \<Rightarrow> status" where
  "metadata_status context e = Status Internal (context @ '': '' @ e)"

definition storage_root :: "string \<Rightarrow> ('g, string) svc" where
  "storage_root what = (\<lambda>sv.
     case sv_storage sv of
       OnDisk root \<Rightarrow> (Ok root, sv)
     | InMemory \<Rightarrow> (Err (Status FailedPrecondition (what @ '' requires on-disk storage'')), sv))"

section \<open>Paths\<close>

text \<open>\<^verbatim>\<open>Path::components\<close>: the root, then the pieces between slashes without empty ones and single dots.\<close>

definition path_components :: "string \<Rightarrow> string list" where
  "path_components p =
     (let pieces = split_char (CHR ''/'') p
      in (if starts_with ''/'' p then [''/''] else if hd pieces = ''.'' then [''.''] else []) @
         filter (\<lambda>c. c \<noteq> [] \<and> c \<noteq> ''.'') pieces)"

definition path_strip_prefix :: "string \<Rightarrow> string \<Rightarrow> string list option" where
  "path_strip_prefix base p =
     (if take (length (path_components base)) (path_components p) = path_components base
      then Some (drop (length (path_components base)) (path_components p)) else None)"

definition resolve_workspace :: "'g service \<Rightarrow> string \<Rightarrow> status + string \<times> string" where
  "resolve_workspace sv working_copy_path =
     (case sv_mount_root sv of
        None \<Rightarrow> Inl not_configured
      | Some root \<Rightarrow>
          (case path_strip_prefix root working_copy_path of
             None \<Rightarrow> Inl (Status NotFoundCode (''path '' @ working_copy_path @ '' is not under mount root '' @ root))
           | Some [] \<Rightarrow> Inl (Status InvalidArgument ''missing repo component'')
           | Some [_] \<Rightarrow> Inl (Status InvalidArgument ''missing workspace component'')
           | Some (repo # ws # _) \<Rightarrow> Inr (repo, ws)))"

definition workspace_path :: "'g service \<Rightarrow> string \<Rightarrow> string \<Rightarrow> status + string" where
  "workspace_path sv repo ws =
     (case sv_mount_root sv of
        None \<Rightarrow> Inl not_configured
      | Some root \<Rightarrow> Inr (path_join (path_join root repo) ws))"

definition is_managed :: "'g service \<Rightarrow> string \<Rightarrow> (string \<times> string) option" where
  "is_managed sv p =
     (if sv_root_fs sv = None then None
      else case resolve_workspace sv p of Inl _ \<Rightarrow> None | Inr x \<Rightarrow> Some x)"

definition require_mount_active :: "('g, unit) svc" where
  "require_mount_active = (\<lambda>sv.
     if \<not> sv_vfs_handle sv \<or> sv_mount_attachment sv then (Ok (), sv)
     else (Err (Status FailedPrecondition ''the workspace mount is not active''), sv))"

section \<open>Working-copy state\<close>

definition mount_metadata :: "'g mount \<Rightarrow> MountMetadata" where
  "mount_metadata m = \<lparr>mm_working_copy_path = mt_working_copy_path m, mm_remote = mt_remote m, mm_op_id = mt_op_id m,
     mm_workspace_id = mt_workspace_id m, mm_root_tree_id = mt_root_tree_id m\<rparr>"

definition persist_metadata_snapshot :: "string option \<Rightarrow> MountMetadata \<Rightarrow> toml_lib \<Rightarrow> (host, string, unit) io" where
  "persist_metadata_snapshot path m L =
     (case path of None \<Rightarrow> io_ret () | Some p \<Rightarrow> io_context (\<lambda>e. ''persisting '' @ p @ '': '' @ e) (mount_write_to L m p))"

definition get_mount :: "string \<Rightarrow> ('g, 'g mount) svc" where
  "get_mount p = fetch_or (\<lambda>sv. map_of (sv_mounts sv) p) (Status NotFoundCode (''no mount at '' @ p))"

definition put_mount :: "string \<Rightarrow> 'g mount \<Rightarrow> ('g, unit) svc" where
  "put_mount p m = modifies (\<lambda>sv. sv\<lparr>sv_mounts := bt_insert p m (sv_mounts sv)\<rparr>)"

definition ws_not_found :: "string \<Rightarrow> string \<Rightarrow> status" where
  "ws_not_found repo ws = Status NotFoundCode (''workspace '' @ repo @ ''/'' @ ws @ '' not found'')"

definition svc_get_tree_state :: "string \<Rightarrow> ('g, bytes) svc" where
  "svc_get_tree_state p =
     seq (reads (\<lambda>sv. is_managed sv p)) (\<lambda>managed.
     case managed of
       Some (repo, ws) \<Rightarrow> on_root (\<lambda>_. ws_not_found repo ws) (get_root_tree_id repo ws)
     | None \<Rightarrow> seq (get_mount p) (\<lambda>m. ret (mt_root_tree_id m)))"

definition checkout_reply :: "string \<Rightarrow> bytes \<times> bytes \<Rightarrow> ('g, bytes \<times> bytes) svc" where
  "checkout_reply p x =
     (if fst x = [] \<and> snd x = [] then throw (Status FailedPrecondition (''checkout state not yet set for '' @ p)) else ret x)"

definition svc_get_checkout_state :: "string \<Rightarrow> ('g, bytes \<times> bytes) svc" where
  "svc_get_checkout_state p =
     seq (reads (\<lambda>sv. is_managed sv p)) (\<lambda>managed.
     case managed of
       Some (repo, ws) \<Rightarrow> seq (on_root (\<lambda>_. ws_not_found repo ws) (get_checkout_state repo ws)) (checkout_reply p)
     | None \<Rightarrow> seq (get_mount p) (\<lambda>m. checkout_reply p (mt_op_id m, mt_workspace_id m)))"

definition svc_set_checkout_state :: "string \<Rightarrow> (bytes \<times> bytes) option \<Rightarrow> ('g, unit) svc" where
  "svc_set_checkout_state p checkout_state =
     (case checkout_state of
        None \<Rightarrow> throw (Status InvalidArgument ''SetCheckoutStateReq.checkout_state is required'')
      | Some (op_id, workspace_id) \<Rightarrow>
          seq (reads (\<lambda>sv. is_managed sv p)) (\<lambda>managed.
          case managed of
            Some (repo, ws) \<Rightarrow>
              on_root (\<lambda>e. if e = NotFound then ws_not_found repo ws else Status Internal (''SetCheckoutState for '' @ repo @ ''/'' @ ws))
                (set_checkout_state repo ws op_id workspace_id)
          | None \<Rightarrow>
              seq (get_mount p) (\<lambda>m.
              seq (on_host (metadata_status ''persist checkout state'')
                     (persist_metadata_snapshot (mt_meta_path m) ((mount_metadata m)\<lparr>mm_op_id := op_id, mm_workspace_id := workspace_id\<rparr>))) (\<lambda>_.
              put_mount p (m\<lparr>mt_op_id := op_id, mt_workspace_id := workspace_id\<rparr>)))))"

section \<open>Repositories and workspaces\<close>

text \<open>The read-modify-write of \<^verbatim>\<open>repos.toml\<close>.\<close>

definition update_repos_toml :: "string \<Rightarrow> ('g root_fs \<Rightarrow> ReposConfig \<Rightarrow> ReposConfig) \<Rightarrow> ('g, unit) svc" where
  "update_repos_toml dir f =
     seq (on_host (metadata_status ''reading repos.toml'') (\<lambda>L. repos_read_or_default L (repos_config_path dir))) (\<lambda>cfg.
     seq (ask_root (\<lambda>rf. f rf cfg)) (\<lambda>cfg'.
     on_host (metadata_status ''persisting repos.toml'') (\<lambda>L. repos_write_to L cfg' (repos_config_path dir))))"

definition repo_missing :: "string \<Rightarrow> status" where
  "repo_missing repo = Status NotFoundCode (''repo '' @ repo @ '' not registered'')"

definition store_empty_tree :: "nat \<Rightarrow> ('g, bytes) svc" where
  "store_empty_tree st = (\<lambda>sv.
     case sv_root_fs sv of
       None \<Rightarrow> (Err not_configured, sv)
     | Some rf \<Rightarrow> (case stores rf st of None \<Rightarrow> (Panic, sv) | Some s \<Rightarrow> (Ok (jj_empty_tree_id (glib s)), sv)))"

text \<open>The configuration and the scratch directory of a new workspace, on disk.\<close>

definition create_workspace_files :: "string \<Rightarrow> string \<Rightarrow> string \<Rightarrow> WorkspaceConfig \<Rightarrow> ('g, unit) svc" where
  "create_workspace_files dir repo ws cfg =
     seq (on_host (metadata_status ''persisting workspace.toml'') (\<lambda>L. workspace_write_to L cfg (workspace_config_path dir repo ws))) (\<lambda>_.
     on_host (\<lambda>e. Status Internal (''creating scratch dir: '' @ e))
       (\<lambda>_. io_context (\<lambda>_. ''create_dir_all'') (host_create_dir_all (workspace_scratch_dir dir repo ws))))"

definition new_config :: "WorkspaceState \<Rightarrow> slot \<Rightarrow> bytes \<Rightarrow> WorkspaceConfig" where
  "new_config state sl empty_tree = \<lparr>cfg_state = state, cfg_slot = sl, cfg_op_id = [], cfg_workspace_id = [],
     cfg_root_tree_id = empty_tree, cfg_commit_mtime_millis = 0\<rparr>"

definition new_entry_of :: "WorkspaceState \<Rightarrow> slot \<Rightarrow> bytes \<Rightarrow> workspace_entry" where
  "new_entry_of state sl empty_tree = \<lparr>we_slot = sl, we_state = state, we_root_tree_id = empty_tree, we_op_id = [],
     we_workspace_id = [], we_commit_mtime_millis = 0\<rparr>"

definition svc_workspace_create :: "string \<Rightarrow> string \<Rightarrow> ('g, string) svc" where
  "svc_workspace_create repo ws =
     seq require_mount_active (\<lambda>_.
     seq require_root_fs (\<lambda>_.
     case validate_name ws of
       Inl _ \<Rightarrow> throw (Status InvalidArgument ''invalid workspace name'')
     | Inr _ \<Rightarrow>
         seq (ask_root (\<lambda>rf. repo_store rf repo)) (\<lambda>st.
         case st of
           None \<Rightarrow> throw (repo_missing repo)
         | Some st \<Rightarrow>
             seq (storage_root ''WorkspaceCreate'') (\<lambda>dir.
             seq (on_root (\<lambda>_. not_configured) alloc_slot) (\<lambda>sl.
             seq (store_empty_tree st) (\<lambda>empty_tree.
             seq (create_workspace_files dir repo ws (new_config Pending sl empty_tree)) (\<lambda>_.
             seq (on_root (\<lambda>e. if e = AlreadyExists then Status AlreadyExistsCode (''workspace '' @ ws @ '' already exists in repo '' @ repo)
                               else Status Internal ''registering workspace'')
                    (register_workspace repo ws (new_entry_of Pending sl empty_tree))) (\<lambda>_.
             seq (update_repos_toml dir (\<lambda>rf cfg. cfg\<lparr>rc_next_slot := next_slot rf\<rparr>)) (\<lambda>_.
             (\<lambda>sv. of_sum (workspace_path sv repo ws) sv)))))))))) "

definition svc_workspace_finalize :: "string \<Rightarrow> string \<Rightarrow> ('g, unit) svc" where
  "svc_workspace_finalize repo ws =
     seq (on_root (\<lambda>e. if e = NotFound then ws_not_found repo ws else Status Internal ''finalizing workspace'')
            (finalize_workspace repo ws)) (\<lambda>_.
     seq (reads sv_storage) (\<lambda>storage.
     case storage of
       InMemory \<Rightarrow> ret ()
     | OnDisk root \<Rightarrow>
         let path = workspace_config_path root repo ws
         in seq (on_host (metadata_status ''reading workspace.toml'') (\<lambda>L. workspace_read_from L path)) (\<lambda>cfg.
            on_host (metadata_status ''persisting workspace.toml state'') (\<lambda>L. workspace_write_to L (cfg\<lparr>cfg_state := Active\<rparr>) path))))"

definition svc_repo_list :: "('g, (string \<times> string \<times> string list) list) svc" where
  "svc_repo_list = ask_root list_repos"

definition svc_workspace_list :: "string \<Rightarrow> ('g, (string \<times> string) list) svc" where
  "svc_workspace_list repo =
     seq (ask_root list_repos) (\<lambda>rs.
     case List.find (\<lambda>(name, _, _). name = repo) rs of
       None \<Rightarrow> throw (repo_missing repo)
     | Some (_, _, ws_names) \<Rightarrow>
         seq (fetch_or sv_mount_root not_configured) (\<lambda>root.
         ret (map (\<lambda>ws. (ws, path_join (path_join root repo) ws)) ws_names)))"

text \<open>\<^verbatim>\<open>remove_dir_all\<close>: everything at and below the directory is gone, or nothing when it fails.\<close>

definition host_remove_dir_all :: "string \<Rightarrow> unit host_io" where
  "host_remove_dir_all d = fault_or IoRemove d (\<lambda>h.
     (Inr (), h\<lparr>h_files := filter (\<lambda>(p, _). \<not> below d p) (h_files h), h_dirs := filter (\<lambda>p. \<not> below d p) (h_dirs h)\<rparr>))"

text \<open>The best-effort removal: only when it exists, and a failure is only logged.\<close>

definition try_remove_dir :: "string \<Rightarrow> ('g, unit) svc" where
  "try_remove_dir d = modifies (\<lambda>sv. if dir_exists (sv_host sv) d then sv\<lparr>sv_host := snd (host_remove_dir_all d (sv_host sv))\<rparr> else sv)"

definition svc_workspace_delete :: "string \<Rightarrow> string \<Rightarrow> ('g, unit) svc" where
  "svc_workspace_delete repo ws =
     seq (on_root (\<lambda>e. if e = NotFound then ws_not_found repo ws else Status Internal ''removing workspace'')
            (remove_workspace repo ws)) (\<lambda>_.
     seq (reads sv_storage) (\<lambda>storage.
     case storage of InMemory \<Rightarrow> ret () | OnDisk root \<Rightarrow> try_remove_dir (workspace_dir root repo ws)))"

text \<open>The best-effort update of \<^verbatim>\<open>repos.toml\<close> after a repository is gone.\<close>

definition forget_in_repos_toml :: "string \<Rightarrow> string \<Rightarrow> ('g, unit) svc" where
  "forget_in_repos_toml root name = (\<lambda>sv.
     (Ok (), snd (update_repos_toml root (\<lambda>rf cfg. cfg\<lparr>rc_repos := bt_remove name (rc_repos cfg), rc_next_slot := next_slot rf\<rparr>) sv)))"

definition repo_not_found :: "FsError \<Rightarrow> string \<Rightarrow> status" where
  "repo_not_found e name = (if e = NotFound then Status NotFoundCode (''repo '' @ name @ '' not found'') else Status Internal ''removing repo'')"

definition svc_repo_delete :: "string \<Rightarrow> ('g, unit) svc" where
  "svc_repo_delete name =
     seq (on_root (\<lambda>e. repo_not_found e name) (remove_repo name)) (\<lambda>_.
     seq (reads sv_storage) (\<lambda>storage.
     case storage of
       InMemory \<Rightarrow> ret ()
     | OnDisk root \<Rightarrow> seq (try_remove_dir (repo_dir root name)) (\<lambda>_. forget_in_repos_toml root name)))"

definition svc_repo_forget :: "string \<Rightarrow> ('g, 32 word) svc" where
  "svc_repo_forget name =
     seq (on_root (\<lambda>e. repo_not_found e name) (remove_repo name)) (\<lambda>retired.
     seq (reads sv_storage) (\<lambda>storage.
     seq (case storage of InMemory \<Rightarrow> ret () | OnDisk root \<Rightarrow> forget_in_repos_toml root name) (\<lambda>_.
     ret (word_of_nat (length retired)))))"

definition svc_remote_remove :: "string \<Rightarrow> ('g, unit) svc" where
  "svc_remote_remove repo =
     seq (ask_root (\<lambda>rf. repo_store rf repo)) (\<lambda>st.
     if st = None then throw (repo_missing repo)
     else seq (on_root (\<lambda>_. not_configured) (modifies (\<lambda>rf. snd (set_repo_remote repo [] None rf)))) (\<lambda>_.
          seq (storage_root ''RemoteRemove'') (\<lambda>dir.
          update_repos_toml dir (\<lambda>rf cfg. if map_of (rc_repos cfg) repo = None then cfg
            else cfg\<lparr>rc_repos := bt_insert repo [] (rc_repos cfg)\<rparr>))))"

definition svc_remote_show :: "string \<Rightarrow> ('g, string) svc" where
  "svc_remote_show repo =
     seq (ask_root (\<lambda>rf. repo_url rf repo)) (\<lambda>u. case u of None \<Rightarrow> throw (repo_missing repo) | Some url \<Rightarrow> ret url)"

definition svc_daemon_status :: "('g, (string \<times> string) list \<times> bool) svc" where
  "svc_daemon_status = (\<lambda>sv.
     (Ok (sort_key fst
          ((case sv_root_fs sv of
              None \<Rightarrow> []
            | Some rf \<Rightarrow> [(case workspace_path sv repo ws of Inl _ \<Rightarrow> [] | Inr p \<Rightarrow> p, url). (repo, url, wss) \<leftarrow> list_repos rf, ws \<leftarrow> wss]) @
           map (\<lambda>(_, m). (mt_working_copy_path m, mt_remote m)) (sv_mounts sv)),
          \<not> sv_vfs_handle sv \<or> sv_mount_attachment sv), sv))"

end
