(* ===== verification/Service_Sync.thy ===== *)
theory Service_Sync
  imports Service
begin

text \<open>
  What the service's requests keep: the files on disk describe the registered workspaces.
\<close>

section \<open>Configuration files as a map\<close>

definition on_disk :: "toml_lib \<Rightarrow> host \<Rightarrow> string \<Rightarrow> WorkspaceConfig option" where
  "on_disk L h p =
     (case file_at h p of
        None \<Rightarrow> None
      | Some b \<Rightarrow> if utf8_valid b
          then (case sum_bind (toml_parse L b) workspace_config_of_toml of Inl _ \<Rightarrow> None | Inr c \<Rightarrow> Some c)
          else None)"

lemma on_disk_cong: "file_at h' p = file_at h p \<Longrightarrow> on_disk L h' p = on_disk L h p"
  by (simp add: on_disk_def)

lemma on_disk_read: "workspace_read_from L p h = (Inr c, h') \<Longrightarrow> h' = h \<and> on_disk L h p = Some c"
  by (auto simp: workspace_read_from_def read_to_string_def io_defs host_defs on_disk_def split: if_splits option.splits sum.splits)

lemma read_on_disk: "on_disk L h p = Some c \<Longrightarrow> \<not> h_fault h IoRead p \<Longrightarrow> workspace_read_from L p h = (Inr c, h)"
  by (auto simp: workspace_read_from_def read_to_string_def io_defs host_defs on_disk_def split: if_splits option.splits sum.splits)

lemma with_extension_last: "last (with_extension p ''toml.tmp'') = CHR ''p''"
  by (simp add: with_extension_def)

lemma path_join_suffix: "\<exists>d. path_join base n = d @ n"
  by (auto simp: path_join_def)

lemma config_path_last: "last (workspace_config_path st r w) = CHR ''l''"
  using path_join_suffix [of "workspace_dir st r w" "''workspace.toml''"] by (auto simp: workspace_config_path_def)

lemma config_not_tmp: "workspace_config_path st r w \<noteq> with_extension p ''toml.tmp''"
  using config_path_last [of st r w] with_extension_last [of p] by auto

lemma write_toml_other:
  assumes "host_ok h" and "last path \<noteq> CHR ''p''" and "write_toml path l body h = (res, h')"
  shows "host_ok h'" and "workspace_config_path st r w \<noteq> path \<Longrightarrow>
    file_at h' (workspace_config_path st r w) = file_at h (workspace_config_path st r w)"
  using write_toml_spec [OF assms(1) with_extension_neq [OF assms(2)] assms(3)] config_not_tmp by blast+

lemma config_written:
  assumes "toml_law L" and "host_ok h" and "workspace_write_to L c (workspace_config_path st r w) h = (Inr u, h')"
  shows "on_disk L h' (workspace_config_path st r w) = Some c"
proof -
  obtain b where b: "toml_print L (workspace_config_to_toml c) = Inr b" "file_at h' (workspace_config_path st r w) = Some b"
    using write_toml_spec [OF assms(2) config_path_neq assms(3) [unfolded workspace_write_to_def]] by auto
  then have "utf8_valid b" "toml_parse L b = Inr (workspace_config_to_toml c)" using assms(1) by (auto simp: toml_law_def)
  then show ?thesis using b(2) by (simp add: on_disk_def workspace_config_toml)
qed

lemma suffix_neq: "take 10 (rev p) \<noteq> take 10 (rev q) \<Longrightarrow> p \<noteq> q"
  by auto

lemma config_not_repos: "workspace_config_path st r w \<noteq> repos_config_path d"
proof (rule suffix_neq)
  obtain x y where "workspace_config_path st r w = x @ ''workspace.toml''" "repos_config_path d = y @ ''repos.toml''"
    using path_join_suffix unfolding workspace_config_path_def repos_config_path_def by metis
  then show "take 10 (rev (workspace_config_path st r w)) \<noteq> take 10 (rev (repos_config_path d))" by simp
qed

lemma repos_path_last: "last (repos_config_path d) \<noteq> CHR ''p''"
  using path_join_suffix [of d "''repos.toml''"] by (auto simp: repos_config_path_def)

section \<open>Directories\<close>

lemma slash_split_first:
  assumes "n @ CHR ''/'' # xs = m @ CHR ''/'' # ys" and "CHR ''/'' \<notin> set n" and "CHR ''/'' \<notin> set m"
  shows "n = m \<and> xs = ys"
proof -
  have t: "takeWhile (\<lambda>c. c \<noteq> CHR ''/'') (k @ CHR ''/'' # z) = k" if "CHR ''/'' \<notin> set k" for k z
    using that by (subst takeWhile_append2) auto
  have "n = m" using arg_cong [OF assms(1), of "takeWhile (\<lambda>c. c \<noteq> CHR ''/'')"] by (simp only: t [OF assms(2)] t [OF assms(3)])
  then show ?thesis using assms(1) by simp
qed

lemma repo_dir_eq: "component r \<Longrightarrow> repo_dir st r = path_join st ''repos'' @ ''/'' @ r"
  unfolding repo_dir_def by (rule join_component) simp_all

lemma workspace_dir_eq:
  assumes "component r" and "component w"
  shows "workspace_dir st r w = path_join st ''repos'' @ ''/'' @ r @ ''/'' @ ''workspaces/'' @ w"
proof -
  have "path_join (repo_dir st r) ''workspaces'' = repo_dir st r @ ''/'' @ ''workspaces''"
    unfolding repo_dir_def by (rule join_component) (use assms in simp_all)
  moreover have "workspace_dir st r w = path_join (repo_dir st r) ''workspaces'' @ ''/'' @ w"
    unfolding workspace_dir_def by (rule join_component) (use assms in simp_all)
  ultimately show ?thesis by (simp add: repo_dir_eq [OF assms(1)])
qed

lemma config_path_eq:
  assumes "component r" and "component w"
  shows "workspace_config_path st r w = path_join st ''repos'' @ ''/'' @ r @ ''/'' @ ''workspaces/'' @ w @ ''/'' @ ''workspace.toml''"
proof -
  have "workspace_config_path st r w = workspace_dir st r w @ ''/'' @ ''workspace.toml''"
    unfolding workspace_config_path_def workspace_dir_def by (rule join_component) (use assms in simp_all)
  then show ?thesis by (simp add: workspace_dir_eq [OF assms])
qed

lemma below_workspace:
  assumes "component r" "component w" "component r'" "component w'"
    and b: "below (workspace_dir st r w) (workspace_config_path st r' w')"
  shows "r = r' \<and> w = w'"
proof -
  have ns: "CHR ''/'' \<notin> set r" "CHR ''/'' \<notin> set r'" "CHR ''/'' \<notin> set w" "CHR ''/'' \<notin> set w'" using assms(1-4) by (auto simp: component_def)
  obtain z where z: "z = [] \<or> (\<exists>y. z = CHR ''/'' # y)"
      "r' @ CHR ''/'' # (''workspaces/'' @ w' @ ''/'' @ ''workspace.toml'') = r @ CHR ''/'' # (''workspaces/'' @ w @ z)"
    using b unfolding below_def starts_with_iff workspace_dir_eq [OF assms(1,2)] config_path_eq [OF assms(3,4)] by force
  then have r: "r' = r" "w' @ CHR ''/'' # ''workspace.toml'' = w @ z" using slash_split_first [OF z(2) ns(2,1)] by simp_all
  then obtain y where "z = CHR ''/'' # y" using z(1) ns(3) by (metis append_Nil2 in_set_conv_decomp)
  then show ?thesis using r slash_split_first [of w' "''workspace.toml''" w y] ns by simp
qed

lemma below_repo:
  assumes "component r" "component r'" "component w'"
    and b: "below (repo_dir st r) (workspace_config_path st r' w')"
  shows "r = r'"
proof -
  have ns: "CHR ''/'' \<notin> set r" "CHR ''/'' \<notin> set r'" using assms(1,2) by (auto simp: component_def)
  obtain z where z: "z = [] \<or> (\<exists>y. z = CHR ''/'' # y)"
      "r' @ CHR ''/'' # (''workspaces/'' @ w' @ ''/'' @ ''workspace.toml'') = r @ z"
    using b unfolding below_def starts_with_iff repo_dir_eq [OF assms(1)] config_path_eq [OF assms(2,3)] by force
  then obtain y where "z = CHR ''/'' # y" using ns(1) by (metis append_Nil2 in_set_conv_decomp)
  then show ?thesis using z(2) slash_split_first ns by blast
qed

lemma map_of_filter_key: "map_of (filter (\<lambda>(p, _). P p) xs) k = (if P k then map_of xs k else None)"
  by (induction xs) auto

lemma bt_wf_filter: "bt_wf xs \<Longrightarrow> bt_wf (filter P xs)"
  by (induction xs) auto

lemma remove_dir_files:
  assumes "host_ok h" and "host_remove_dir_all d h = (res, h')"
  shows "host_ok h'" and "\<not> below d p \<Longrightarrow> file_at h' p = file_at h p"
  using assms bt_wf_filter [of "h_files h"]
  by (auto simp: host_remove_dir_all_def fault_or_def host_ok_def file_at_def map_of_filter_key split: if_splits)

section \<open>The invariant\<close>

text \<open>
  \<open>svc_ok\<close>: the routing filesystem satisfies its own invariant and shares the service's storage directory
  and TOML library; registered names are single path components; an ad-hoc mount's metadata file is a
  \<^verbatim>\<open>mount.toml\<close>. \<open>synced\<close>: every registered workspace has a \<^verbatim>\<open>workspace.toml\<close> that describes its entry.
\<close>

definition root_ok :: "'g service \<Rightarrow> 'g root_fs \<Rightarrow> bool" where
  "root_ok sv rf \<longleftrightarrow> root_inv rf \<and> 0 < next_slot rf \<and> root_toml rf = sv_toml sv \<and> sv_storage sv = OnDisk (storage_dir rf) \<and>
     (\<forall>r re. map_of (repos rf) r = Some re \<longrightarrow> component r) \<and>
     (\<forall>r w we. find_ws rf r w = Some we \<longrightarrow> component w)"

definition svc_ok :: "'g service \<Rightarrow> bool" where
  "svc_ok sv \<longleftrightarrow> host_ok (sv_host sv) \<and> toml_law (sv_toml sv) \<and> bt_wf (sv_mounts sv) \<and>
     (\<forall>p m mp. map_of (sv_mounts sv) p = Some m \<longrightarrow> mt_meta_path m = Some mp \<longrightarrow> (\<exists>d. mp = path_join d META_FILE)) \<and>
     (\<forall>rf. sv_root_fs sv = Some rf \<longrightarrow> root_ok sv rf)"

definition synced :: "'g service \<Rightarrow> bool" where
  "synced sv \<longleftrightarrow> (\<forall>rf r w we. sv_root_fs sv = Some rf \<longrightarrow> find_ws rf r w = Some we \<longrightarrow>
     on_disk (sv_toml sv) (sv_host sv) (workspace_config_path (storage_dir rf) r w) = Some (entry_config we))"

lemma svc_okD:
  assumes "svc_ok sv"
  shows "host_ok (sv_host sv)" and "toml_law (sv_toml sv)" and "bt_wf (sv_mounts sv)"
    and "map_of (sv_mounts sv) p = Some m \<Longrightarrow> mt_meta_path m = Some mp \<Longrightarrow> \<exists>d. mp = path_join d META_FILE"
    and "sv_root_fs sv = Some rf \<Longrightarrow> root_ok sv rf"
  using assms unfolding svc_ok_def by blast+

lemma root_okD:
  assumes "root_ok sv rf"
  shows "root_inv rf" and "0 < next_slot rf" and "root_toml rf = sv_toml sv" and "sv_storage sv = OnDisk (storage_dir rf)"
    and "map_of (repos rf) r = Some re \<Longrightarrow> component r" and "find_ws rf r w = Some we \<Longrightarrow> component w"
    and "find_ws rf r w = Some we \<Longrightarrow> component r"
  using assms unfolding root_ok_def find_ws_repo by blast+

lemma syncedD:
  "synced sv \<Longrightarrow> sv_root_fs sv = Some rf \<Longrightarrow> find_ws rf r w = Some we \<Longrightarrow>
   on_disk (sv_toml sv) (sv_host sv) (workspace_config_path (storage_dir rf) r w) = Some (entry_config we)"
  unfolding synced_def by blast

definition svc_inv :: "'g service \<Rightarrow> bool" where
  "svc_inv sv \<longleftrightarrow> svc_ok sv \<and> synced sv"

text \<open>A step that changes the host only, away from the registered workspaces' files.\<close>

lemma svc_inv_host:
  assumes "svc_inv sv" and "host_ok h"
    and "\<And>rf r w we. sv_root_fs sv = Some rf \<Longrightarrow> find_ws rf r w = Some we \<Longrightarrow>
      file_at h (workspace_config_path (storage_dir rf) r w) = file_at (sv_host sv) (workspace_config_path (storage_dir rf) r w)"
  shows "svc_inv (sv\<lparr>sv_host := h\<rparr>)"
proof -
  have "synced (sv\<lparr>sv_host := h\<rparr>)"
    using assms(1) on_disk_cong [OF assms(3)] unfolding svc_inv_def synced_def by simp
  moreover have "svc_ok (sv\<lparr>sv_host := h\<rparr>)"
    using assms(1,2) by (simp add: svc_inv_def svc_ok_def root_ok_def)
  ultimately show ?thesis by (simp add: svc_inv_def)
qed

text \<open>A step of the routing filesystem: its registered workspaces, old and new, are described by the files.\<close>

lemma svc_inv_root:
  assumes ok: "svc_ok sv" and rf: "sv_root_fs sv = Some rf" and h: "host_ok hn"
    and keep: "root_inv rf'" "0 < next_slot rf'" "root_toml rf' = root_toml rf" "storage_dir rf' = storage_dir rf"
    and names: "\<And>r re. map_of (repos rf') r = Some re \<Longrightarrow> component r" "\<And>r w we. find_ws rf' r w = Some we \<Longrightarrow> component w"
    and sync: "\<And>r w we. find_ws rf' r w = Some we \<Longrightarrow>
      on_disk (sv_toml sv) hn (workspace_config_path (storage_dir rf) r w) = Some (entry_config we)"
  shows "svc_inv (sv\<lparr>sv_root_fs := Some rf', sv_host := hn\<rparr>)"
proof -
  have "root_ok (sv\<lparr>sv_root_fs := Some rf', sv_host := hn\<rparr>) rf'"
    unfolding root_ok_def using keep names root_okD(3,4) [OF svc_okD(5) [OF ok rf]] by simp
  then have "svc_ok (sv\<lparr>sv_root_fs := Some rf', sv_host := hn\<rparr>)"
    using ok h unfolding svc_ok_def by simp
  moreover have "synced (sv\<lparr>sv_root_fs := Some rf', sv_host := hn\<rparr>)"
    unfolding synced_def using sync keep(4) by simp
  ultimately show ?thesis by (simp add: svc_inv_def)
qed

section \<open>Steps\<close>

lemma on_root_Ok:
  assumes "on_root f m sv = (Ok a, sv')"
  obtains rf rf' where "sv_root_fs sv = Some rf" and "m (rf\<lparr>root_host := sv_host sv\<rparr>) = (Ok a, rf')"
    and "sv' = sv\<lparr>sv_root_fs := Some rf', sv_host := root_host rf'\<rparr>"
  using assms by (auto simp: on_root_def split: option.splits prod.splits outcome.splits)

lemma sv_host_same: "sv\<lparr>sv_host := sv_host sv\<rparr> = sv"
  by (cases sv) simp

lemma keeps_on_host:
  fixes f :: "string \<Rightarrow> status" and m :: "toml_lib \<Rightarrow> (host, string, 'a) io"
  assumes "\<And>(sv :: 'g service) res h. svc_inv sv \<Longrightarrow> m (sv_toml sv) (sv_host sv) = (res, h) \<Longrightarrow> svc_inv (sv\<lparr>sv_host := h\<rparr>)"
  shows "keeps svc_inv (on_host f m :: ('g, 'a) svc)"
proof (rule keepsI)
  fix sv sv' :: "'g service" and x assume I: "svc_inv sv" and run: "on_host f m sv = (x, sv')"
  obtain res h where r: "m (sv_toml sv) (sv_host sv) = (res, h)" by fastforce
  then have "sv' = sv\<lparr>sv_host := h\<rparr>" using run by (cases res) (simp_all add: on_host_def)
  then show "svc_inv sv'" using assms [OF I r] by simp
qed

lemma repos_read_host: "repos_read_or_default L p h = (res, h') \<Longrightarrow> h' = h"
  by (auto simp: repos_read_or_default_def read_to_string_def io_defs host_defs split: if_splits option.splits sum.splits)

lemma svc_inv_repos_write:
  assumes I: "svc_inv sv" and w: "repos_write_to (sv_toml sv) c (repos_config_path dir) (sv_host sv) = (res, h)"
  shows "svc_inv (sv\<lparr>sv_host := h\<rparr>)"
proof -
  have "host_ok (sv_host sv)" using I svc_okD(1) by (auto simp: svc_inv_def)
  note other = write_toml_other [OF this repos_path_last w [unfolded repos_write_to_def]]
  show ?thesis by (rule svc_inv_host [OF I other(1) other(2) [OF config_not_repos]])
qed

lemma keeps_update_repos_toml: "keeps svc_inv (update_repos_toml dir f)"
  unfolding update_repos_toml_def
proof (intro keeps_seq)
  show "keeps svc_inv (on_host g (\<lambda>L. repos_read_or_default L (repos_config_path dir)) :: ('g, ReposConfig) svc)" for g
    by (rule keeps_on_host) (metis repos_read_host sv_host_same)
  show "keeps svc_inv (on_host g (\<lambda>L. repos_write_to L c (repos_config_path dir)) :: ('g, unit) svc)" for c g
    by (rule keeps_on_host) (rule svc_inv_repos_write)
  show "keeps svc_inv (ask_root g)" for g :: "'g root_fs \<Rightarrow> ReposConfig"
    unfolding ask_root_def by (rule keepsI) (simp split: option.splits)
qed

lemma svc_inv_forget: "svc_inv sv \<Longrightarrow> forget_in_repos_toml root n sv = (x, sv') \<Longrightarrow> svc_inv sv'"
  unfolding forget_in_repos_toml_def by (auto intro: keepsD [OF keeps_update_repos_toml _ surjective_pairing])

lemma svc_inv_try_remove:
  assumes I: "svc_inv sv" and run: "try_remove_dir d sv = (x, sv')"
    and out: "\<And>rf r w we. sv_root_fs sv = Some rf \<Longrightarrow> find_ws rf r w = Some we \<Longrightarrow> \<not> below d (workspace_config_path (storage_dir rf) r w)"
  shows "svc_inv sv'"
proof (cases "dir_exists (sv_host sv) d")
  case True
  obtain res h where h: "host_remove_dir_all d (sv_host sv) = (res, h)" by fastforce
  have "host_ok (sv_host sv)" using I svc_okD(1) by (auto simp: svc_inv_def)
  note r = remove_dir_files [OF this h]
  have "svc_inv (sv\<lparr>sv_host := h\<rparr>)" by (rule svc_inv_host [OF I r(1)]) (use r(2) out in blast)
  then show ?thesis using run True h by (auto simp: try_remove_dir_def modifies_def)
next
  case False
  then show ?thesis using run I by (simp add: try_remove_dir_def modifies_def)
qed

section \<open>What a call on the routing filesystem changes\<close>

text \<open>The parts no operation on the registry touches, and the registered names.\<close>

definition same_frame :: "'g root_fs \<Rightarrow> 'g root_fs \<Rightarrow> bool" where
  "same_frame rf rf' \<longleftrightarrow> root_toml rf' = root_toml rf \<and> storage_dir rf' = storage_dir rf \<and> root_host rf' = root_host rf \<and>
     next_slot rf' = next_slot rf \<and> dom (map_of (repos rf')) \<subseteq> dom (map_of (repos rf))"

lemma add_child_same [simp]:
  "root_toml (add_child d n c rf) = root_toml rf" "storage_dir (add_child d n c rf) = storage_dir rf" "root_host (add_child d n c rf) = root_host rf"
  by (simp_all add: add_child_def split: option.split)

lemma remove_child_same [simp]:
  "root_toml (remove_child d n rf) = root_toml rf" "storage_dir (remove_child d n rf) = storage_dir rf" "root_host (remove_child d n rf) = root_host rf"
  by (simp_all add: remove_child_def split: option.split)

lemma update_repo_same [simp]:
  "root_toml (update_repo r f rf) = root_toml rf" "storage_dir (update_repo r f rf) = storage_dir rf" "root_host (update_repo r f rf) = root_host rf"
  by (simp_all add: update_repo_def split: option.split)

lemma register_state_find:
  assumes "root_inv rf" and "map_of (repos rf) r = Some re"
  shows "find_ws (register_state r w we re rf) q x = (if q = r \<and> x = w then Some we else find_ws rf q x)"
    and "same_frame rf (register_state r w we re rf)"
proof -
  have ns: "ns_ok rf" using assms(1) by (simp add: root_inv_def)
  note m = ns_ok_insert_ws(2) [OF ns assms(2)]
  show "find_ws (register_state r w we re rf) q x = (if q = r \<and> x = w then Some we else find_ws rf q x)"
    unfolding find_ws_upd [OF m] using repo_okD(1) [OF ns_okD(5) [OF ns assms(2)]] assms(2) by (auto simp: find_ws_def)
  show "same_frame rf (register_state r w we re rf)"
    unfolding same_frame_def m using assms(2) by (auto simp: register_state_def add_child_frame update_repo_frame)
qed

lemma register_workspace_Ok:
  assumes run: "register_workspace r w we rf = (Ok u, rf')"
  obtains re where "map_of (repos rf) r = Some re" "find_ws rf r w = None"
    "rf' = (register_state r w we re rf)\<lparr>next_slot := (if we_slot we \<ge> next_slot rf then we_slot we + 1 else next_slot rf)\<rparr>"
proof (cases "find_ws rf r w")
  case (Some e)
  then obtain re where "map_of (repos rf) r = Some re" "map_of (re_workspaces re) w = Some e" by (auto simp: find_ws_repo)
  then show ?thesis using run by (simp add: register_workspace_def get_repo_seq throw_apply)
next
  case None
  show ?thesis
  proof (cases rule: register_ws_cases [OF run])
    case 1
    show ?thesis
    proof (cases "map_of (repos rf) r")
      case None
      then show ?thesis using run by (simp add: register_workspace_def get_repo_seq)
    next
      case (Some re)
      then have "map_of (re_workspaces re) w = None" using None by (simp add: find_ws_def)
      then have "rf' = (register_state r w we re rf)\<lparr>next_slot := (if we_slot we \<ge> next_slot rf then we_slot we + 1 else next_slot rf)\<rparr>"
        using run Some by (auto simp: register_workspace_def get_repo_seq modifies_def Let_def register_state_def add_child_frame update_repo_frame)
      then show ?thesis using that Some None by blast
    qed
  next
    case (2 re)
    then show ?thesis using that None by blast
  qed
qed

lemma finalize_workspace_Ok:
  assumes inv: "root_inv rf" and run: "finalize_workspace r w rf = (Ok u, rf')"
  obtains we where "find_ws rf r w = Some we" and "same_frame rf rf'"
    and "\<And>q x. find_ws rf' q x = (if q = r \<and> x = w then Some (we\<lparr>we_state := Active\<rparr>) else find_ws rf q x)"
proof (cases "find_ws rf r w")
  case None
  then show ?thesis using run by (cases "map_of (repos rf) r") (simp_all add: finalize_workspace_def get_repo_seq get_ws_seq)
next
  case (Some we)
  then obtain re where re: "map_of (repos rf) r = Some re" "map_of (re_workspaces re) w = Some we" by (auto simp: find_ws_repo)
  show ?thesis
  proof (cases "we_state we = Active")
    case True
    then have "rf' = rf" using run re Some by (simp add: finalize_workspace_def get_repo_seq get_ws_seq ret_def)
    moreover have "we\<lparr>we_state := Active\<rparr> = we" using True by (cases we) simp
    ultimately show ?thesis using that [OF Some] Some by (simp add: same_frame_def)
  next
    case False
    then have "rf' = register_state r w (we\<lparr>we_state := Active\<rparr>) re rf"
      using run re Some finalize_register [OF re] by (simp add: finalize_workspace_def get_repo_seq get_ws_seq modifies_def)
    then show ?thesis using that [OF Some] register_state_find [OF inv re(1)] by blast
  qed
qed

lemma remove_workspace_Ok:
  assumes inv: "root_inv rf" and run: "remove_workspace r w rf = (Ok s, rf')"
  obtains we where "find_ws rf r w = Some we" and "same_frame rf rf'"
    and "\<And>q x. find_ws rf' q x = (if q = r \<and> x = w then None else find_ws rf q x)"
proof (cases "find_ws rf r w")
  case None
  then show ?thesis using run by (cases "map_of (repos rf) r") (simp_all add: remove_workspace_def get_repo_seq get_ws_seq)
next
  case (Some we)
  then obtain re where re: "map_of (repos rf) r = Some re" "map_of (re_workspaces re) w = Some we" by (auto simp: find_ws_repo)
  have rf': "rf' = (unregister_state r w re rf)\<lparr>live := (live rf)(we_slot we := None)\<rparr>"
    using run re Some
    by (auto simp: remove_workspace_def get_repo_seq get_ws_seq modifies_seq ret_def Let_def unregister_state_def remove_child_frame update_repo_frame)
  have ns: "ns_ok rf" using inv by (simp add: root_inv_def)
  have m: "map_of (repos rf') = (map_of (repos rf))(r \<mapsto> re\<lparr>re_workspaces := bt_remove w (re_workspaces re)\<rparr>)"
    unfolding rf' using ns_ok_remove_ws(2) [OF ns re(1)] by simp
  have "find_ws rf' q x = (if q = r \<and> x = w then None else find_ws rf q x)" for q x
    unfolding find_ws_upd [OF m] using re(1) by (auto simp: find_ws_def)
  moreover have "same_frame rf rf'"
    unfolding same_frame_def m using re(1) by (auto simp: rf' unregister_state_def remove_child_frame update_repo_frame)
  ultimately show ?thesis using that [OF Some] by blast
qed

lemma remove_repo_Ok:
  assumes inv: "root_inv rf" and run: "remove_repo r rf = (Ok s, rf')"
  obtains re where "map_of (repos rf) r = Some re" and "same_frame rf rf'"
    and "\<And>q x. find_ws rf' q x = (if q = r then None else find_ws rf q x)"
proof (cases "map_of (repos rf) r")
  case None
  then show ?thesis using run by (simp add: remove_repo_def get_repo_seq)
next
  case (Some re)
  have rf': "rf' = drop_repo_state r re rf"
    using run Some by (auto simp: remove_repo_def get_repo_seq modifies_seq ret_def Let_def drop_repo_state_def)
  have ns: "ns_ok rf" using inv by (simp add: root_inv_def)
  have m: "map_of (repos rf') = (map_of (repos rf))(r := None)" unfolding rf' by (rule ns_ok_remove_repo(2) [OF ns Some])
  have "same_frame rf rf'" unfolding same_frame_def m by (auto simp: rf' drop_repo_state_def remove_child_frame)
  moreover have "find_ws rf' q x = (if q = r then None else find_ws rf q x)" for q x by (simp add: find_ws_def m)
  ultimately show ?thesis using that [OF Some] by blast
qed

section \<open>The requests\<close>

lemma svc_inv_frame:
  assumes I: "svc_inv sv" and rf: "sv_root_fs sv = Some rf" and inv: "root_inv rf'"
    and fr: "same_frame (rf\<lparr>root_host := sv_host sv\<rparr>) rf'"
    and sub: "\<And>q x we. find_ws rf' q x = Some we \<Longrightarrow> find_ws rf q x = Some we"
  shows "svc_inv (sv\<lparr>sv_root_fs := Some rf', sv_host := root_host rf'\<rparr>)"
proof (rule svc_inv_root [OF _ rf _ inv])
  have ok: "svc_ok sv" "synced sv" using I by (simp_all add: svc_inv_def)
  note rok = svc_okD(5) [OF ok(1) rf]
  have same: "root_toml rf' = root_toml rf" "storage_dir rf' = storage_dir rf" "root_host rf' = sv_host sv" "next_slot rf' = next_slot rf"
    using fr by (simp_all add: same_frame_def)
  show "svc_ok sv" "host_ok (root_host rf')" "0 < next_slot rf'" "root_toml rf' = root_toml rf" "storage_dir rf' = storage_dir rf"
    using ok(1) svc_okD(1) [OF ok(1)] root_okD(2) [OF rok] same by simp_all
  show "component r" if "map_of (repos rf') r = Some re" for r re
    using that fr root_okD(5) [OF rok, of r] by (auto simp: same_frame_def)
  show "component w" if "find_ws rf' r w = Some we" for r w we using root_okD(6) [OF rok sub [OF that]] .
  show "on_disk (sv_toml sv) (root_host rf') (workspace_config_path (storage_dir rf) r w) = Some (entry_config we)"
    if "find_ws rf' r w = Some we" for r w we
    using syncedD [OF ok(2) rf sub [OF that]] same by simp
qed

lemma svc_inv_root_ok: "svc_inv sv \<Longrightarrow> sv_root_fs sv = Some rf \<Longrightarrow> root_ok sv rf"
  unfolding svc_inv_def using svc_okD(5) by blast

lemma root_inv_of:
  assumes "svc_inv sv" and "sv_root_fs sv = Some rf"
  shows "root_inv (rf\<lparr>root_host := h\<rparr>)" and "find_ws (rf\<lparr>root_host := h\<rparr>) = find_ws rf"
  using root_inv_host [OF root_okD(1) [OF svc_okD(5)]] assms by (auto simp: svc_inv_def find_ws_def fun_eq_iff)

lemma svc_workspace_delete_inv:
  assumes I: "svc_inv sv" and run: "svc_workspace_delete r w sv = (Ok (), sv')"
  shows "svc_inv sv'"
proof -
  obtain s sv1 where 1: "on_root (\<lambda>e. if e = NotFound then ws_not_found r w else Status Internal ''removing workspace'') (remove_workspace r w) sv = (Ok s, sv1)"
    and 2: "seq (reads sv_storage) (\<lambda>storage. case storage of InMemory \<Rightarrow> ret () | OnDisk root \<Rightarrow> try_remove_dir (workspace_dir root r w)) sv1 = (Ok (), sv')"
    using run unfolding svc_workspace_delete_def by (rule seq_Ok_E)
  obtain rf rf' where rf: "sv_root_fs sv = Some rf" and m: "remove_workspace r w (rf\<lparr>root_host := sv_host sv\<rparr>) = (Ok s, rf')"
    and sv1: "sv1 = sv\<lparr>sv_root_fs := Some rf', sv_host := root_host rf'\<rparr>" by (rule on_root_Ok [OF 1])
  note ri = root_inv_of [OF I rf]
  obtain we where we: "find_ws rf r w = Some we" and fr: "same_frame (rf\<lparr>root_host := sv_host sv\<rparr>) rf'"
    and f: "\<And>q x. find_ws rf' q x = (if q = r \<and> x = w then None else find_ws rf q x)"
    using remove_workspace_Ok [OF ri(1) m] unfolding ri(2) by metis
  have I1: "svc_inv sv1" unfolding sv1
    by (rule svc_inv_frame [OF I rf root_inv_remove_ws [OF ri(1) m] fr]) (auto simp: f split: if_splits)
  have rf1: "sv_root_fs sv1 = Some rf'" by (simp add: sv1)
  note rok = svc_inv_root_ok [OF I rf] svc_inv_root_ok [OF I1 rf1]
  show ?thesis
  proof (rule svc_inv_try_remove [OF I1])
    show "try_remove_dir (workspace_dir (storage_dir rf') r w) sv1 = (Ok (), sv')"
      using 2 root_okD(4) [OF rok(2)] by (simp add: reads_seq)
    show "\<not> below (workspace_dir (storage_dir rf') r w) (workspace_config_path (storage_dir rg) q x)"
      if "sv_root_fs sv1 = Some rg" "find_ws rg q x = Some we'" for rg q x we'
    proof -
      have rg: "rg = rf'" using that(1) by (simp add: sv1)
      then have "component r" "component w" "component q" "component x" "\<not> (r = q \<and> w = x)"
        using that(2) f [of q x] root_okD(6,7) [OF rok(1) we] root_okD(6,7) [OF rok(2), of q x we'] by (auto split: if_splits)
      then show ?thesis using below_workspace rg by blast
    qed
  qed
qed

lemma remove_repo_step:
  assumes I: "svc_inv sv" and run: "on_root f (remove_repo n) sv = (Ok s, sv1)"
  shows "\<exists>rf'. svc_inv sv1 \<and> sv_root_fs sv1 = Some rf' \<and> component n \<and> (\<forall>x. find_ws rf' n x = None)"
proof -
  obtain rf rf' where rf: "sv_root_fs sv = Some rf" and m: "remove_repo n (rf\<lparr>root_host := sv_host sv\<rparr>) = (Ok s, rf')"
    and sv1: "sv1 = sv\<lparr>sv_root_fs := Some rf', sv_host := root_host rf'\<rparr>" by (rule on_root_Ok [OF run])
  note ri = root_inv_of [OF I rf]
  obtain re where re: "map_of (repos rf) n = Some re" and fr: "same_frame (rf\<lparr>root_host := sv_host sv\<rparr>) rf'"
    and f: "\<And>q x. find_ws rf' q x = (if q = n then None else find_ws rf q x)"
    by (rule remove_repo_Ok [OF ri(1) m, unfolded ri(2)]) simp
  have "svc_inv sv1" unfolding sv1
    by (rule svc_inv_frame [OF I rf root_inv_remove_repo [OF ri(1) m] fr]) (auto simp: f split: if_splits)
  then show ?thesis using root_okD(5) [OF svc_inv_root_ok [OF I rf] re] f by (simp add: sv1)
qed

lemma svc_repo_delete_inv:
  assumes I: "svc_inv sv" and run: "svc_repo_delete n sv = (Ok (), sv')"
  shows "svc_inv sv'"
proof -
  obtain s sv1 where 1: "on_root (\<lambda>e. repo_not_found e n) (remove_repo n) sv = (Ok s, sv1)"
    and 2: "seq (reads sv_storage) (\<lambda>storage. case storage of InMemory \<Rightarrow> ret ()
      | OnDisk root \<Rightarrow> seq (try_remove_dir (repo_dir root n)) (\<lambda>_. forget_in_repos_toml root n)) sv1 = (Ok (), sv')"
    using run unfolding svc_repo_delete_def by (rule seq_Ok_E)
  obtain rf' where I1: "svc_inv sv1" and rf1: "sv_root_fs sv1 = Some rf'" and n: "component n" and gone: "\<And>x. find_ws rf' n x = None"
    using remove_repo_step [OF I 1] by blast
  note rok = svc_inv_root_ok [OF I1 rf1]
  have "seq (try_remove_dir (repo_dir (storage_dir rf') n)) (\<lambda>_. forget_in_repos_toml (storage_dir rf') n) sv1 = (Ok (), sv')"
    using 2 root_okD(4) [OF rok] by (simp add: reads_seq)
  then obtain u sv2 where 3: "try_remove_dir (repo_dir (storage_dir rf') n) sv1 = (Ok u, sv2)" and 4: "forget_in_repos_toml (storage_dir rf') n sv2 = (Ok (), sv')"
    by (rule seq_Ok_E)
  have "svc_inv sv2"
  proof (rule svc_inv_try_remove [OF I1 3])
    show "\<not> below (repo_dir (storage_dir rf') n) (workspace_config_path (storage_dir rg) q x)"
      if "sv_root_fs sv1 = Some rg" "find_ws rg q x = Some we" for rg q x we
    proof -
      have rg: "rg = rf'" using that(1) rf1 by simp
      then have "component q" "component x" "q \<noteq> n" using that(2) gone root_okD(6,7) [OF rok] by auto
      then show ?thesis using below_repo [OF n] rg by blast
    qed
  qed
  then show ?thesis using svc_inv_forget 4 by blast
qed

lemma svc_repo_forget_inv:
  assumes I: "svc_inv sv" and run: "svc_repo_forget n sv = (Ok k, sv')"
  shows "svc_inv sv'"
proof -
  obtain s sv1 where 1: "on_root (\<lambda>e. repo_not_found e n) (remove_repo n) sv = (Ok s, sv1)"
    and 2: "seq (reads sv_storage) (\<lambda>storage. seq (case storage of InMemory \<Rightarrow> ret () | OnDisk root \<Rightarrow> forget_in_repos_toml root n)
      (\<lambda>_. ret (word_of_nat (length s)))) sv1 = (Ok k, sv')"
    using run unfolding svc_repo_forget_def by (rule seq_Ok_E)
  obtain rf' where I1: "svc_inv sv1" and rf1: "sv_root_fs sv1 = Some rf'" using remove_repo_step [OF I 1] by blast
  have "seq (forget_in_repos_toml (storage_dir rf') n) (\<lambda>_. ret (word_of_nat (length s))) sv1 = (Ok k, sv')"
    using 2 root_okD(4) [OF svc_inv_root_ok [OF I1 rf1]] by (simp add: reads_seq)
  then obtain x where "forget_in_repos_toml (storage_dir rf') n sv1 = (x, sv')" by (auto elim: seq_Ok_E simp: ret_def)
  then show ?thesis using svc_inv_forget I1 by blast
qed

text \<open>A new or changed entry whose file has been written just before.\<close>

lemma svc_inv_entry:
  assumes I: "svc_inv sv" and rf: "sv_root_fs sv = Some rf" and inv: "root_inv rf'" and h: "host_ok hn"
    and fr: "root_toml rf' = root_toml rf" "storage_dir rf' = storage_dir rf" "0 < next_slot rf'" "dom (map_of (repos rf')) \<subseteq> dom (map_of (repos rf))"
    and f: "\<And>q x. find_ws rf' q x = (if q = r \<and> x = w then Some we else find_ws rf q x)"
    and names: "component r" "component w"
    and new: "on_disk (sv_toml sv) hn (workspace_config_path (storage_dir rf) r w) = Some (entry_config we)"
    and other: "\<And>q x. workspace_config_path (storage_dir rf) q x \<noteq> workspace_config_path (storage_dir rf) r w \<Longrightarrow>
      file_at hn (workspace_config_path (storage_dir rf) q x) = file_at (sv_host sv) (workspace_config_path (storage_dir rf) q x)"
  shows "svc_inv (sv\<lparr>sv_root_fs := Some rf', sv_host := hn\<rparr>)"
proof (rule svc_inv_root [OF _ rf h inv])
  have ok: "svc_ok sv" "synced sv" using I by (simp_all add: svc_inv_def)
  note rok = svc_inv_root_ok [OF I rf]
  show "svc_ok sv" "0 < next_slot rf'" "root_toml rf' = root_toml rf" "storage_dir rf' = storage_dir rf" using ok fr by simp_all
  show "component q" if "map_of (repos rf') q = Some re" for q re using that fr(4) root_okD(5) [OF rok, of q] by auto
  show "component x" if "find_ws rf' q x = Some e" for q x e using that f [of q x] names root_okD(6) [OF rok, of q x e] by (auto split: if_splits)
  show "on_disk (sv_toml sv) hn (workspace_config_path (storage_dir rf) q x) = Some (entry_config e)"
    if e: "find_ws rf' q x = Some e" for q x e
  proof (cases "q = r \<and> x = w")
    case True
    then show ?thesis using e f new by simp
  next
    case False
    then have old: "find_ws rf q x = Some e" using e f [of q x] by (simp split: if_splits)
    have "workspace_config_path (storage_dir rf) q x \<noteq> workspace_config_path (storage_dir rf) r w"
      using False workspace_paths_inject(1) [OF root_okD(7) [OF rok old] root_okD(6) [OF rok old] names] by blast
    then show ?thesis using syncedD [OF ok(2) rf old] on_disk_cong [OF other] by simp
  qed
qed

lemma config_write_step:
  assumes "toml_law L" and "host_ok h" and "workspace_write_to L c (workspace_config_path st r w) h = (Inr u, h')"
  shows "host_ok h'" and "on_disk L h' (workspace_config_path st r w) = Some c"
    and "workspace_config_path st q x \<noteq> workspace_config_path st r w \<Longrightarrow>
      file_at h' (workspace_config_path st q x) = file_at h (workspace_config_path st q x)"
proof -
  have l: "last (workspace_config_path st r w) \<noteq> CHR ''p''" by (simp add: config_path_last)
  note o = write_toml_other [OF assms(2) l assms(3) [unfolded workspace_write_to_def]]
  show "host_ok h'" by (rule o(1))
  show "on_disk L h' (workspace_config_path st r w) = Some c" by (rule config_written [OF assms])
  show "file_at h' (workspace_config_path st q x) = file_at h (workspace_config_path st q x)"
    if "workspace_config_path st q x \<noteq> workspace_config_path st r w" using o(2) [OF that] .
qed

lemma on_host_Ok:
  assumes "on_host f m sv = (Ok a, sv')"
  obtains h where "m (sv_toml sv) (sv_host sv) = (Inr a, h)" and "sv' = sv\<lparr>sv_host := h\<rparr>"
  using assms by (auto simp: on_host_def split: prod.splits sum.splits)

lemma create_files_Ok:
  assumes ok: "toml_law (sv_toml sv)" "host_ok (sv_host sv)" and run: "create_workspace_files dir r w c sv = (Ok (), sv')"
  obtains h where "sv' = sv\<lparr>sv_host := h\<rparr>" and "host_ok h" and "on_disk (sv_toml sv) h (workspace_config_path dir r w) = Some c"
    and "\<And>q x. workspace_config_path dir q x \<noteq> workspace_config_path dir r w \<Longrightarrow>
      file_at h (workspace_config_path dir q x) = file_at (sv_host sv) (workspace_config_path dir q x)"
proof -
  obtain u sv1 where 1: "on_host (metadata_status ''persisting workspace.toml'') (\<lambda>L. workspace_write_to L c (workspace_config_path dir r w)) sv = (Ok u, sv1)"
    and 2: "on_host (\<lambda>e. Status Internal (''creating scratch dir: '' @ e))
       (\<lambda>_. io_context (\<lambda>_. ''create_dir_all'') (host_create_dir_all (workspace_scratch_dir dir r w))) sv1 = (Ok (), sv')"
    using run unfolding create_workspace_files_def by (rule seq_Ok_E)
  obtain h1 where h1: "workspace_write_to (sv_toml sv) c (workspace_config_path dir r w) (sv_host sv) = (Inr u, h1)" "sv1 = sv\<lparr>sv_host := h1\<rparr>"
    by (rule on_host_Ok [OF 1])
  obtain h2 where h2: "io_context (\<lambda>_. ''create_dir_all'') (host_create_dir_all (workspace_scratch_dir dir r w)) (sv_host sv1) = (Inr (), h2)" "sv' = sv1\<lparr>sv_host := h2\<rparr>"
    by (rule on_host_Ok [OF 2])
  have same: "host_ok h2 = host_ok h1" "file_at h2 = file_at h1"
    using h2(1) h1(2) by (auto simp: io_defs host_defs split: if_splits)
  note w = config_write_step [OF ok h1(1)]
  show ?thesis
    by (rule that [of h2]) (use h2(2) h1(2) w same in \<open>simp_all add: on_disk_def\<close>)
qed

lemma ask_root_Ok: "ask_root f sv = (Ok a, sv') \<Longrightarrow> \<exists>rf. sv_root_fs sv = Some rf \<and> a = f rf \<and> sv' = sv"
  by (auto simp: ask_root_def split: option.splits)

lemma storage_root_Ok: "storage_root what sv = (Ok a, sv') \<Longrightarrow> sv_storage sv = OnDisk a \<and> sv' = sv"
  by (auto simp: storage_root_def split: StorageConfig.splits)

lemma alloc_slot_Ok:
  "alloc_slot rf = (Ok s, rf') \<Longrightarrow> s = next_slot rf \<and> s \<noteq> - 1 \<and> rf' = rf\<lparr>next_slot := s + 1\<rparr>"
  by (auto simp: alloc_slot_def reads_seq modifies_seq ret_def panic_def split: if_splits)

lemma suc_pos: "(s::slot) \<noteq> - 1 \<Longrightarrow> 0 < s + 1"
  using suc_gt [of s] by (metis word_gt_0 word_not_simps(1))

lemma svc_create_Ok:
  assumes run: "svc_workspace_create r w sv = (Ok p, sv')"
  obtains rf dir sl tree sv1 sv2 sv3 where "validate_name w = Inr ()" and "sv_root_fs sv = Some rf" and "sv_storage sv = OnDisk dir"
    and "on_root (\<lambda>_. not_configured) alloc_slot sv = (Ok sl, sv1)"
    and "create_workspace_files dir r w (new_config Pending sl tree) sv1 = (Ok (), sv2)"
    and "on_root (\<lambda>e. if e = AlreadyExists then Status AlreadyExistsCode (''workspace '' @ w @ '' already exists in repo '' @ r)
           else Status Internal ''registering workspace'') (register_workspace r w (new_entry_of Pending sl tree)) sv2 = (Ok (), sv3)"
    and "update_repos_toml dir (\<lambda>rf cfg. cfg\<lparr>rc_next_slot := next_slot rf\<rparr>) sv3 = (Ok (), sv')"
proof -
  have v: "validate_name w = Inr ()"
    using run by (cases "validate_name w") (auto simp: svc_workspace_create_def seq_apply throw_def split: prod.splits outcome.splits)
  have mount: "sv'' = sv" if "require_mount_active sv = (Ok u, sv'')" for u sv''
    using that by (auto simp: require_mount_active_def split: if_splits)
  have root: "sv'' = sv" if "require_root_fs sv = (Ok u, sv'')" for u sv''
    using that by (auto simp: require_root_fs_def split: option.splits)
  have tree: "sv'' = sv1" if "store_empty_tree st sv1 = (Ok t, sv'')" for st t sv1 and sv'' :: "'a service"
    using that by (auto simp: store_empty_tree_def split: option.splits)
  have path: "sv'' = sv1" if "of_sum (workspace_path sv1 r w) sv1 = (Ok p, sv'')" for sv1 and sv'' :: "'a service"
    using that by (auto simp: of_sum_def split: sum.splits)
  show ?thesis
    using run unfolding svc_workspace_create_def v
    by (auto elim!: seq_Ok_E dest!: mount root ask_root_Ok storage_root_Ok tree path simp: throw_def split: option.splits)
      (rule that [OF v]; assumption)
qed

lemma register_step_inv:
  assumes inv: "root_inv rf" and sl: "next_slot rf \<noteq> - 1" "0 < next_slot rf" "unat (next_slot rf) < 2 ^ 24"
    and we: "we_slot we = next_slot rf"
    and run: "register_workspace r w we (rf\<lparr>next_slot := next_slot rf + 1, root_host := h\<rparr>) = (Ok (), rf')"
  shows "root_inv rf'" and "next_slot rf' = next_slot rf + 1" and "root_host rf' = h" and "find_ws rf r w = None"
    and "\<exists>re. map_of (repos rf) r = Some re"
    and "root_toml rf' = root_toml rf" and "storage_dir rf' = storage_dir rf" and "dom (map_of (repos rf')) \<subseteq> dom (map_of (repos rf))"
    and "find_ws rf' q x = (if q = r \<and> x = w then Some we else find_ws rf q x)"
proof -
  define rf1 where "rf1 = rf\<lparr>next_slot := next_slot rf + 1, root_host := h\<rparr>"
  have gt: "next_slot rf < next_slot rf + 1" using suc_gt [OF sl(1)] .
  have f1: "find_ws rf1 = find_ws rf" by (simp add: rf1_def find_ws_def fun_eq_iff)
  have inv1: "root_inv rf1" unfolding rf1_def by (rule root_inv_cong [OF inv]) (use gt in auto)
  have "slots_ok rf" using inv by (simp add: root_inv_def)
  then have "we_slot e \<noteq> next_slot rf" if "find_ws rf q x = Some e" for q x e using slots_okD(1) [OF _ that] by fastforce
  then have "action_ok rf1 (ARegisterWs r w we)"
    using sl f1 we by (simp add: word_gt_0)
  from root_inv_register_ws [OF inv1 this run [folded rf1_def]] show "root_inv rf'" .
  obtain re where re: "map_of (repos rf1) r = Some re" "find_ws rf1 r w = None" and
    rf': "rf' = (register_state r w we re rf1)\<lparr>next_slot := (if we_slot we \<ge> next_slot rf1 then we_slot we + 1 else next_slot rf1)\<rparr>"
    by (rule register_workspace_Ok [OF run [folded rf1_def]])
  note st = register_state_find [OF inv1 re(1), where w = w and we = we]
  have "\<not> we_slot we \<ge> next_slot rf1" using gt we by (simp add: rf1_def)
  then show "next_slot rf' = next_slot rf + 1" by (simp add: rf' rf1_def)
  show "root_host rf' = h" "root_toml rf' = root_toml rf" "storage_dir rf' = storage_dir rf" "dom (map_of (repos rf')) \<subseteq> dom (map_of (repos rf))"
    using st(2) by (simp_all add: rf' same_frame_def rf1_def)
  show "find_ws rf r w = None" "\<exists>re. map_of (repos rf) r = Some re" using re f1 by (simp_all add: rf1_def)
  show "find_ws rf' q x = (if q = r \<and> x = w then Some we else find_ws rf q x)"
    using st(1) [of q x] f1 by (simp add: rf' find_ws_def)
qed

lemma entry_config_new: "entry_config (new_entry_of st sl t) = new_config st sl t"
  by (simp add: entry_config_def new_entry_of_def new_config_def)

text \<open>A new workspace: a slot, its files, its registration.\<close>

lemma register_new_ws:
  assumes I: "svc_inv sv" and rf: "sv_root_fs sv = Some rf" and room: "unat (next_slot rf) < 2 ^ 24" and w: "component w"
    and a: "on_root (\<lambda>_. not_configured) alloc_slot sv = (Ok sl, sv1)"
    and c: "create_workspace_files (storage_dir rf) r w (new_config state sl tree) sv1 = (Ok (), sv2)"
    and g: "on_root err (register_workspace r w (new_entry_of state sl tree)) sv2 = (Ok (), sv3)"
  shows "svc_inv sv3 \<and> sl = next_slot rf \<and> find_ws rf r w = None \<and> component r \<and> sv_toml sv3 = sv_toml sv \<and>
    (\<exists>rf'. sv_root_fs sv3 = Some rf' \<and> next_slot rf' = next_slot rf + 1 \<and> storage_dir rf' = storage_dir rf \<and>
      (\<forall>q x. find_ws rf' q x = (if q = r \<and> x = w then Some (new_entry_of state sl tree) else find_ws rf q x)))"
proof -
  note rok = svc_inv_root_ok [OF I rf]
  have al: "alloc_slot (rf\<lparr>root_host := sv_host sv\<rparr>) = (Ok sl, (rf\<lparr>root_host := sv_host sv\<rparr>)\<lparr>next_slot := sl + 1\<rparr>)"
    and sl: "sl = next_slot rf" "sl \<noteq> - 1" and sv1: "sv1 = sv\<lparr>sv_root_fs := Some (rf\<lparr>root_host := sv_host sv, next_slot := sl + 1\<rparr>), sv_host := sv_host sv\<rparr>"
    using a rf by (auto elim!: on_root_Ok dest: alloc_slot_Ok)
  have ok1: "toml_law (sv_toml sv1)" "host_ok (sv_host sv1)" using I svc_okD(1,2) by (auto simp: svc_inv_def sv1)
  obtain h where sv2: "sv2 = sv1\<lparr>sv_host := h\<rparr>" and h: "host_ok h"
    and new: "on_disk (sv_toml sv1) h (workspace_config_path (storage_dir rf) r w) = Some (new_config state sl tree)"
    and other: "\<And>q x. workspace_config_path (storage_dir rf) q x \<noteq> workspace_config_path (storage_dir rf) r w \<Longrightarrow>
      file_at h (workspace_config_path (storage_dir rf) q x) = file_at (sv_host sv1) (workspace_config_path (storage_dir rf) q x)"
    using create_files_Ok [OF ok1 c] by blast
  obtain rf' where rg: "register_workspace r w (new_entry_of state sl tree) (rf\<lparr>next_slot := next_slot rf + 1, root_host := h\<rparr>) = (Ok (), rf')"
    and sv3: "sv3 = sv\<lparr>sv_root_fs := Some rf', sv_host := root_host rf'\<rparr>"
    using g sl(1) by (auto elim!: on_root_Ok simp: sv2 sv1)
  have wes: "we_slot (new_entry_of state sl tree) = next_slot rf" by (simp add: new_entry_of_def sl(1))
  note st = register_step_inv [OF root_okD(1) [OF rok] sl(2) [unfolded sl(1)] root_okD(2) [OF rok] room wes rg]
  have names: "component r" using st(5) root_okD(5) [OF rok] by auto
  have "svc_inv sv3" unfolding sv3
    by (rule svc_inv_entry [OF I rf st(1) _ st(6,7) _ st(8) st(9) names w])
      (use h new other suc_pos [OF sl(2)] in \<open>simp_all add: st(2,3) sl(1) entry_config_new sv1\<close>)
  moreover have "sv_root_fs sv3 = Some rf'" "sv_toml sv3 = sv_toml sv" by (simp_all add: sv3)
  ultimately show ?thesis using st(2,4,7) st(9) names sl(1) by blast
qed

text \<open>The state of the service after a workspace is registered, before \<^verbatim>\<open>repos.toml\<close> is updated.\<close>

lemma svc_create_registers:
  assumes I: "svc_inv sv" and run: "svc_workspace_create r w sv = (Ok p, sv')"
    and rf: "sv_root_fs sv = Some rf" and room: "unat (next_slot rf) < 2 ^ 24"
  obtains rf' tree sv3 where "svc_inv sv3" and "sv_root_fs sv3 = Some rf'" and "next_slot rf' = next_slot rf + 1"
    and "find_ws rf r w = None" and "\<And>q x. find_ws rf' q x = (if q = r \<and> x = w then Some (new_entry_of Pending (next_slot rf) tree) else find_ws rf q x)"
    and "update_repos_toml (storage_dir rf) (\<lambda>rf cfg. cfg\<lparr>rc_next_slot := next_slot rf\<rparr>) sv3 = (Ok (), sv')"
    and "component r" and "component w" and "storage_dir rf' = storage_dir rf" and "sv_toml sv3 = sv_toml sv"
proof -
  obtain rf0 dir sl tree sv1 sv2 sv3 where v: "validate_name w = Inr ()" and rf0: "sv_root_fs sv = Some rf0" and dir: "sv_storage sv = OnDisk dir"
    and a: "on_root (\<lambda>_. not_configured) alloc_slot sv = (Ok sl, sv1)"
    and c: "create_workspace_files dir r w (new_config Pending sl tree) sv1 = (Ok (), sv2)"
    and g: "on_root (\<lambda>e. if e = AlreadyExists then Status AlreadyExistsCode (''workspace '' @ w @ '' already exists in repo '' @ r)
           else Status Internal ''registering workspace'') (register_workspace r w (new_entry_of Pending sl tree)) sv2 = (Ok (), sv3)"
    and u: "update_repos_toml dir (\<lambda>rf cfg. cfg\<lparr>rc_next_slot := next_slot rf\<rparr>) sv3 = (Ok (), sv')"
    by (rule svc_create_Ok [OF run])
  have dir': "dir = storage_dir rf" using dir root_okD(4) [OF svc_inv_root_ok [OF I rf]] by simp
  note w = validate_name_component [OF v]
  from register_new_ws [OF I rf room w a c [unfolded dir'] g] show ?thesis using that u w unfolding dir' by metis
qed

lemma repo_entries_wf: "repo_entries_of_toml t = Inr rs \<Longrightarrow> bt_wf rs"
proof (induction t arbitrary: rs)
  case (Cons e t)
  obtain n v where e: "e = (n, v)" by (cases e)
  then show ?case using Cons by (auto simp: sum_bind_def split: toml.splits option.splits sum.splits)
qed simp

lemma repos_config_wf: "repos_config_of_toml t = Inr c \<Longrightarrow> bt_wf (rc_repos c)"
  by (auto simp: repos_config_of_toml_def sum_bind_def dest: repo_entries_wf split: sum.splits option.splits toml.splits)

lemma repos_read_wf: "repos_read_or_default L p h = (Inr c, h') \<Longrightarrow> bt_wf (rc_repos c)"
  by (auto simp: repos_read_or_default_def repos_config_default_def read_to_string_def io_defs host_defs sum_bind_def
    dest: repos_config_wf split: if_splits option.splits sum.splits)

text \<open>A host call that is not failing: the file's presence is seen and it can be read.\<close>

definition readable :: "host \<Rightarrow> string \<Rightarrow> bool" where
  "readable h p \<longleftrightarrow> \<not> h_fault h IoRead p \<and> \<not> h_fault h IoStat p"

lemma svc_workspace_finalize_inv:
  assumes I: "svc_inv sv" and run: "svc_workspace_finalize r w sv = (Ok (), sv')"
  obtains rf rf' we where "svc_inv sv'" and "sv_root_fs sv = Some rf" and "sv_root_fs sv' = Some rf'" and "find_ws rf r w = Some we"
    and "find_ws rf' r w = Some (we\<lparr>we_state := Active\<rparr>)"
proof -
  obtain u sv1 where 1: "on_root (\<lambda>e. if e = NotFound then ws_not_found r w else Status Internal ''finalizing workspace'') (finalize_workspace r w) sv = (Ok u, sv1)"
    and 2: "seq (reads sv_storage) (\<lambda>storage. case storage of InMemory \<Rightarrow> ret ()
       | OnDisk root \<Rightarrow> let path = workspace_config_path root r w
           in seq (on_host (metadata_status ''reading workspace.toml'') (\<lambda>L. workspace_read_from L path)) (\<lambda>cfg.
              on_host (metadata_status ''persisting workspace.toml state'') (\<lambda>L. workspace_write_to L (cfg\<lparr>cfg_state := Active\<rparr>) path))) sv1 = (Ok (), sv')"
    using run unfolding svc_workspace_finalize_def by (rule seq_Ok_E)
  obtain rf rf' where rf: "sv_root_fs sv = Some rf" and m: "finalize_workspace r w (rf\<lparr>root_host := sv_host sv\<rparr>) = (Ok u, rf')"
    and sv1: "sv1 = sv\<lparr>sv_root_fs := Some rf', sv_host := root_host rf'\<rparr>" by (rule on_root_Ok [OF 1])
  note ri = root_inv_of [OF I rf] and rok = svc_inv_root_ok [OF I rf]
  obtain we where we: "find_ws rf r w = Some we" and fr: "same_frame (rf\<lparr>root_host := sv_host sv\<rparr>) rf'"
    and f: "\<And>q x. find_ws rf' q x = (if q = r \<and> x = w then Some (we\<lparr>we_state := Active\<rparr>) else find_ws rf q x)"
    using finalize_workspace_Ok [OF ri(1) m, unfolded ri(2)] by blast
  define path where "path = workspace_config_path (storage_dir rf) r w"
  have hs: "root_host rf' = sv_host sv" using fr by (simp add: same_frame_def)
  have "seq (on_host (metadata_status ''reading workspace.toml'') (\<lambda>L. workspace_read_from L path)) (\<lambda>cfg.
      on_host (metadata_status ''persisting workspace.toml state'') (\<lambda>L. workspace_write_to L (cfg\<lparr>cfg_state := Active\<rparr>) path)) sv1 = (Ok (), sv')"
    using 2 root_okD(4) [OF rok] by (simp add: reads_seq sv1 Let_def path_def)
  then obtain cfg sv2 where 3: "on_host (metadata_status ''reading workspace.toml'') (\<lambda>L. workspace_read_from L path) sv1 = (Ok cfg, sv2)"
    and 4: "on_host (metadata_status ''persisting workspace.toml state'') (\<lambda>L. workspace_write_to L (cfg\<lparr>cfg_state := Active\<rparr>) path) sv2 = (Ok (), sv')"
    by (rule seq_Ok_E)
  have sv2: "sv2 = sv1" and cfg: "on_disk (sv_toml sv) (sv_host sv) path = Some cfg"
    using 3 by (auto elim!: on_host_Ok dest!: on_disk_read simp: sv_host_same sv1 hs)
  have synced: "synced sv" "host_ok (sv_host sv)" "toml_law (sv_toml sv)" using I svc_okD(1,2) by (auto simp: svc_inv_def)
  have ce: "cfg = entry_config we" using cfg syncedD [OF synced(1) rf we] by (simp add: path_def)
  obtain h where h: "workspace_write_to (sv_toml sv) (cfg\<lparr>cfg_state := Active\<rparr>) path (sv_host sv) = (Inr (), h)" and sv': "sv' = sv1\<lparr>sv_host := h\<rparr>"
    using 4 by (auto elim!: on_host_Ok simp: sv2 sv1 hs)
  note w = config_write_step [OF synced(3,2) h [unfolded path_def]]
  have new: "cfg\<lparr>cfg_state := Active\<rparr> = entry_config (we\<lparr>we_state := Active\<rparr>)" by (simp add: ce entry_config_def)
  have "svc_inv (sv\<lparr>sv_root_fs := Some rf', sv_host := h\<rparr>)"
    by (rule svc_inv_entry [OF I rf root_inv_finalize [OF ri(1) m], where we = "we\<lparr>we_state := Active\<rparr>" and r = r and w = w])
      (use w fr f new root_okD(2) [OF rok] root_okD(6,7) [OF rok we] in \<open>simp_all add: same_frame_def\<close>)
  then have "svc_inv sv'" by (simp add: sv' sv1)
  then show ?thesis using that rf we f by (simp add: sv' sv1)
qed

lemma update_ws_same [simp]:
  "root_toml (update_ws r w f rf) = root_toml rf" "storage_dir (update_ws r w f rf) = storage_dir rf" "root_host (update_ws r w f rf) = root_host rf"
  by (simp_all add: update_ws_def update_repo_def split: option.split)

text \<open>The step common to the updates of a managed workspace's metadata: persist, then publish.\<close>

lemma persist_update_step:
  assumes I: "svc_inv sv" and slot: "\<And>we. we_slot (f we) = we_slot we"
    and run: "on_root g (seq (get_ws r w) (\<lambda>we. seq (persist_entry r w (f we)) (\<lambda>_. modifies (update_ws r w (\<lambda>_. f we))))) sv = (Ok (), sv')"
  shows "\<exists>rf rf' we. svc_inv sv' \<and> sv_root_fs sv = Some rf \<and> sv_root_fs sv' = Some rf' \<and> find_ws rf r w = Some we \<and>
    find_ws rf' r w = Some (f we) \<and> stores rf' = stores rf"
proof -
  obtain rf rf' where rf: "sv_root_fs sv = Some rf"
    and m: "seq (get_ws r w) (\<lambda>we. seq (persist_entry r w (f we)) (\<lambda>_. modifies (update_ws r w (\<lambda>_. f we)))) (rf\<lparr>root_host := sv_host sv\<rparr>) = (Ok (), rf')"
    and sv': "sv' = sv\<lparr>sv_root_fs := Some rf', sv_host := root_host rf'\<rparr>" by (rule on_root_Ok [OF run])
  define rf1 where "rf1 = rf\<lparr>root_host := sv_host sv\<rparr>"
  note ri = root_inv_of [OF I rf, of "sv_host sv", folded rf1_def] and rok = svc_inv_root_ok [OF I rf] and m1 = m [folded rf1_def]
  obtain we where we: "find_ws rf1 r w = Some we" using m1 by (cases "find_ws rf1 r w") (simp_all add: get_ws_seq)
  obtain h where h: "workspace_write_to (root_toml rf1) (entry_config (f we)) (workspace_config_path (storage_dir rf1) r w) (root_host rf1) = (Inr (), h)"
    and rf': "rf' = update_ws r w (\<lambda>_. f we) (rf1\<lparr>root_host := h\<rparr>)"
    using m1 by (auto simp: get_ws_seq(1) [OF we] persist_entry_def modifies_def elim!: seq_Ok_E split: prod.splits sum.splits)
  have ok: "host_ok (sv_host sv)" "toml_law (sv_toml sv)" using I svc_okD(1,2) by (auto simp: svc_inv_def)
  have h2: "workspace_write_to (sv_toml sv) (entry_config (f we)) (workspace_config_path (storage_dir rf) r w) (sv_host sv) = (Inr (), h)"
    using h root_okD(3) [OF rok] by (simp add: rf1_def)
  note ws = config_write_step [OF ok(2,1) h2]
  have we0: "find_ws rf r w = Some we" using we ri(2) by simp
  have nsok: "ns_ok rf1" using ri(1) by (simp add: root_inv_def)
  have inv': "root_inv rf'" unfolding rf' by (rule root_inv_update_ws [OF root_inv_host [OF ri(1)]]) (use we slot in \<open>auto simp: find_ws_def\<close>)
  have fw: "find_ws rf' q x = (if q = r \<and> x = w then Some (f we) else find_ws rf q x)" for q x
    using find_ws_update [of "rf1\<lparr>root_host := h\<rparr>" r w "\<lambda>_. f we" q x] ns_okD(1) [OF nsok] repo_okD(1) [OF ns_okD(5) [OF nsok]] we ri(2)
    by (simp add: rf' find_ws_def rf1_def)
  have d: "dom (map_of (repos rf')) \<subseteq> dom (map_of (repos rf))"
    unfolding rf' update_ws_def using map_of_update_repo [of "rf1\<lparr>root_host := h\<rparr>"] ns_okD(1) [OF nsok]
    by (auto simp: rf1_def split: option.splits)
  have ns: "next_slot rf' = next_slot rf" by (simp add: rf' rf1_def)
  have "svc_inv sv'" unfolding sv'
    by (intro svc_inv_entry [OF I rf inv' _ _ _ _ d fw])
      (use ws ns root_okD(2) [OF rok] root_okD(6,7) [OF rok we0] in \<open>simp_all add: rf' rf1_def\<close>)
  moreover have "stores rf' = stores rf" by (simp add: rf' rf1_def update_ws_def update_repo_def split: option.split)
  ultimately show ?thesis using rf we0 fw by (auto simp: sv')
qed

lemma set_checkout_managed_inv:
  assumes "svc_inv sv" and "on_root g (set_checkout_state r w a b) sv = (Ok (), sv')"
  shows "svc_inv sv'"
  using persist_update_step [OF assms(1), of "\<lambda>we. we\<lparr>we_op_id := a, we_workspace_id := b\<rparr>" g r w sv'] assms(2)
  by (auto simp: set_checkout_state_def Let_def)

lemma meta_not_config: "workspace_config_path st r w \<noteq> path_join d META_FILE"
proof (rule suffix_neq)
  obtain x y where "workspace_config_path st r w = x @ ''workspace.toml''" "path_join d META_FILE = y @ ''mount.toml''"
    using path_join_suffix unfolding workspace_config_path_def META_FILE_def by metis
  then show "take 10 (rev (workspace_config_path st r w)) \<noteq> take 10 (rev (path_join d META_FILE))" by simp
qed

lemma meta_path_last: "last (path_join d META_FILE) \<noteq> CHR ''p''"
  using path_join_suffix [of d META_FILE] by (auto simp: META_FILE_def)

lemma persist_snapshot_inv:
  assumes I: "svc_inv sv" and mp: "mp = None \<or> (\<exists>d. mp = Some (path_join d META_FILE))"
    and run: "persist_metadata_snapshot mp md (sv_toml sv) (sv_host sv) = (res, h)"
  shows "svc_inv (sv\<lparr>sv_host := h\<rparr>)"
proof (cases mp)
  case None
  then have "h = sv_host sv" using run by (simp add: persist_metadata_snapshot_def io_ret_def)
  then show ?thesis using I by (simp add: sv_host_same)
next
  case (Some p)
  then obtain d where p: "p = path_join d META_FILE" using mp by auto
  obtain y where w: "mount_write_to (sv_toml sv) md p (sv_host sv) = (y, h)"
    using run Some by (auto simp: persist_metadata_snapshot_def io_context_def split: prod.splits sum.splits)
  have "host_ok (sv_host sv)" using I svc_okD(1) by (auto simp: svc_inv_def)
  note o = write_toml_other [OF this meta_path_last w [unfolded p mount_write_to_def]]
  show ?thesis by (rule svc_inv_host [OF I o(1) o(2) [OF meta_not_config]])
qed

lemma svc_inv_mounts:
  assumes I: "svc_inv sv" and old: "map_of (sv_mounts sv) p = Some m" and same: "mt_meta_path m' = mt_meta_path m"
  shows "svc_inv (sv\<lparr>sv_mounts := bt_insert p m' (sv_mounts sv)\<rparr>)"
proof -
  have ok: "svc_ok sv" using I by (simp add: svc_inv_def)
  have "root_ok (sv\<lparr>sv_mounts := x\<rparr>) rf = root_ok sv rf" for rf x by (simp add: root_ok_def)
  then show ?thesis using I old same svc_okD(3) [OF ok] by (auto simp: svc_inv_def svc_ok_def synced_def)
qed

lemma mount_persist_inv:
  assumes I: "svc_inv sv" and m: "map_of (sv_mounts sv) p = Some m" and 1: "on_host f (persist_metadata_snapshot (mt_meta_path m) md) sv = (Ok (), sv1)"
    and 2: "put_mount p m' sv1 = (Ok (), sv')" and same: "mt_meta_path m' = mt_meta_path m"
  shows "svc_inv sv'"
proof -
  obtain h where h: "persist_metadata_snapshot (mt_meta_path m) md (sv_toml sv) (sv_host sv) = (Inr (), h)"
    and sv1: "sv1 = sv\<lparr>sv_host := h\<rparr>" by (rule on_host_Ok [OF 1])
  have "mt_meta_path m = None \<or> (\<exists>d. mt_meta_path m = Some (path_join d META_FILE))"
    using I svc_okD(4) [OF _ m] by (cases "mt_meta_path m") (auto simp: svc_inv_def)
  from persist_snapshot_inv [OF I this h] have I1: "svc_inv sv1" unfolding sv1 .
  have "map_of (sv_mounts sv1) p = Some m" using m by (simp add: sv1)
  from svc_inv_mounts [OF I1 this same] show ?thesis using 2 by (auto simp: put_mount_def modifies_def)
qed

lemma svc_set_checkout_state_inv:
  assumes I: "svc_inv sv" and run: "svc_set_checkout_state p cs sv = (Ok (), sv')"
  shows "svc_inv sv'"
proof -
  obtain a b where cs: "cs = Some (a, b)" using run by (cases cs) (auto simp: svc_set_checkout_state_def throw_def)
  show ?thesis
  proof (cases "is_managed sv p")
    case (Some rw)
    obtain r w where "rw = (r, w)" by (cases rw)
    then show ?thesis using run Some set_checkout_managed_inv [OF I] by (simp add: svc_set_checkout_state_def cs reads_seq)
  next
    case None
    obtain m sv1 where m: "map_of (sv_mounts sv) p = Some m"
      and 1: "on_host (metadata_status ''persist checkout state'')
        (persist_metadata_snapshot (mt_meta_path m) ((mount_metadata m)\<lparr>mm_op_id := a, mm_workspace_id := b\<rparr>)) sv = (Ok (), sv1)"
      and 2: "put_mount p (m\<lparr>mt_op_id := a, mt_workspace_id := b\<rparr>) sv1 = (Ok (), sv')"
      using run None by (auto simp: svc_set_checkout_state_def cs reads_seq get_mount_def fetch_or_def elim!: seq_Ok_E split: option.splits)
    from mount_persist_inv [OF I m 1 2] show ?thesis by simp
  qed
qed

lemma svc_remote_remove_inv:
  assumes I: "svc_inv sv" and run: "svc_remote_remove r sv = (Ok (), sv')"
  shows "svc_inv sv'"
proof -
  obtain dir sv1 where 1: "on_root (\<lambda>_. not_configured) (modifies (\<lambda>rf. snd (set_repo_remote r [] None rf))) sv = (Ok (), sv1)"
    and 2: "update_repos_toml dir (\<lambda>rf cfg. if map_of (rc_repos cfg) r = None then cfg else cfg\<lparr>rc_repos := bt_insert r [] (rc_repos cfg)\<rparr>) sv1 = (Ok (), sv')"
    using run by (auto simp: svc_remote_remove_def throw_def elim!: seq_Ok_E dest!: ask_root_Ok storage_root_Ok split: if_splits)
  obtain rf rf' where rf: "sv_root_fs sv = Some rf" and rf': "rf' = snd (set_repo_remote r [] None (rf\<lparr>root_host := sv_host sv\<rparr>))"
    and sv1: "sv1 = sv\<lparr>sv_root_fs := Some rf', sv_host := root_host rf'\<rparr>" using 1 by (auto elim!: on_root_Ok simp: modifies_def)
  note ri = root_inv_of [OF I rf]
  have nsok: "ns_ok rf" using root_okD(1) [OF svc_inv_root_ok [OF I rf]] by (simp add: root_inv_def)
  have mp: "map_of (repos rf') = (case map_of (repos rf) r of Some re \<Rightarrow> (map_of (repos rf))(r \<mapsto> re\<lparr>re_url := [], re_remote := None\<rparr>) | None \<Rightarrow> map_of (repos rf))"
    using map_of_update_repo [of "rf\<lparr>root_host := sv_host sv\<rparr>"] ns_okD(1) [OF nsok] by (simp add: rf' set_repo_remote_def split: option.split)
  have f: "find_ws rf' q x = find_ws rf q x" for q x using mp by (auto simp: find_ws_def split: option.split)
  have inv': "root_inv rf'" unfolding rf' by (rule root_inv_set_remote [OF ri(1)])
  have "same_frame (rf\<lparr>root_host := sv_host sv\<rparr>) rf'"
    using mp by (auto simp: same_frame_def rf' set_repo_remote_def update_repo_frame split: option.splits)
  from svc_inv_frame [OF I rf inv' this] have "svc_inv sv1" by (simp add: sv1 f)
  then show ?thesis using keepsD [OF keeps_update_repos_toml _ 2] by blast
qed

section \<open>Every request\<close>

datatype svc_request =
    QCreate string string
  | QFinalize string string
  | QSetCheckout string "(bytes \<times> bytes) option"
  | QDelete string string
  | QRepoDelete string
  | QRepoForget string
  | QRemoteRemove string
  | QGetTree string
  | QGetCheckout string
  | QRepoList
  | QWorkspaceList string
  | QRemoteShow string
  | QStatus

fun svc_run :: "svc_request \<Rightarrow> ('g, unit) svc" where
  "svc_run (QCreate r w) = seq (svc_workspace_create r w) (\<lambda>_. ret ())"
| "svc_run (QFinalize r w) = svc_workspace_finalize r w"
| "svc_run (QSetCheckout p cs) = svc_set_checkout_state p cs"
| "svc_run (QDelete r w) = svc_workspace_delete r w"
| "svc_run (QRepoDelete n) = svc_repo_delete n"
| "svc_run (QRepoForget n) = seq (svc_repo_forget n) (\<lambda>_. ret ())"
| "svc_run (QRemoteRemove r) = svc_remote_remove r"
| "svc_run (QGetTree p) = seq (svc_get_tree_state p) (\<lambda>_. ret ())"
| "svc_run (QGetCheckout p) = seq (svc_get_checkout_state p) (\<lambda>_. ret ())"
| "svc_run QRepoList = seq svc_repo_list (\<lambda>_. ret ())"
| "svc_run (QWorkspaceList r) = seq (svc_workspace_list r) (\<lambda>_. ret ())"
| "svc_run (QRemoteShow r) = seq (svc_remote_show r) (\<lambda>_. ret ())"
| "svc_run QStatus = seq svc_daemon_status (\<lambda>_. ret ())"

text \<open>The slot counter is within the 24 bits of the inode encoding.\<close>

definition slot_room :: "'g service \<Rightarrow> bool" where
  "slot_room sv \<longleftrightarrow> (\<forall>rf. sv_root_fs sv = Some rf \<longrightarrow> unat (next_slot rf) < 2 ^ 24)"

lemma on_root_query:
  assumes I: "svc_inv sv" and q: "\<And>rf a rf'. m rf = (Ok a, rf') \<Longrightarrow> rf' = rf" and run: "on_root f m sv = (Ok a, sv')"
  shows "svc_inv sv'"
proof -
  obtain rf rf' where rf: "sv_root_fs sv = Some rf" and m: "m (rf\<lparr>root_host := sv_host sv\<rparr>) = (Ok a, rf')"
    and sv': "sv' = sv\<lparr>sv_root_fs := Some rf', sv_host := root_host rf'\<rparr>" by (rule on_root_Ok [OF run])
  note ri = root_inv_of [OF I rf, of "sv_host sv"]
  show ?thesis unfolding sv' q [OF m] by (rule svc_inv_frame [OF I rf ri(1)]) (simp_all add: same_frame_def ri(2))
qed

lemma get_state_query:
  "get_root_tree_id r w rf = (Ok t, rf') \<Longrightarrow> rf' = rf" "get_checkout_state r w rf = (Ok c, rf') \<Longrightarrow> rf' = rf"
  by (cases "find_ws rf r w"; simp add: get_root_tree_id_def get_checkout_state_def get_ws_seq ret_def)+

lemma query_inv:
  assumes I: "svc_inv sv"
  shows "svc_get_tree_state p sv = (Ok t, sv') \<Longrightarrow> svc_inv sv'"
    and "svc_get_checkout_state p sv = (Ok c, sv') \<Longrightarrow> svc_inv sv'"
proof -
  show "svc_inv sv'" if "svc_get_tree_state p sv = (Ok t, sv')"
    using that I on_root_query [OF I get_state_query(1)]
    by (auto simp: svc_get_tree_state_def reads_seq get_mount_def fetch_or_def ret_def elim!: seq_Ok_E split: option.splits prod.splits)
  show "svc_inv sv'" if "svc_get_checkout_state p sv = (Ok c, sv')"
    using that I on_root_query [OF I get_state_query(2)]
    by (auto simp: svc_get_checkout_state_def checkout_reply_def reads_seq get_mount_def fetch_or_def ret_def throw_def elim!: seq_Ok_E split: option.splits prod.splits if_splits)
qed

lemma svc_create_inv:
  assumes I: "svc_inv sv" and room: "slot_room sv" and run: "svc_workspace_create r w sv = (Ok p, sv')"
  shows "svc_inv sv'"
proof -
  obtain rf where rf: "sv_root_fs sv = Some rf" by (rule svc_create_Ok [OF run])
  then have r: "unat (next_slot rf) < 2 ^ 24" using room by (simp add: slot_room_def)
  show ?thesis
  proof (rule svc_create_registers [OF I run rf r])
    fix sv3 assume "svc_inv sv3" and "update_repos_toml (storage_dir rf) (\<lambda>rf cfg. cfg\<lparr>rc_next_slot := next_slot rf\<rparr>) sv3 = (Ok (), sv')"
    then show ?thesis by (rule keepsD [OF keeps_update_repos_toml])
  qed
qed

lemma svc_run_inv:
  assumes I: "svc_inv sv" and room: "slot_room sv" and run: "svc_run q sv = (Ok (), sv')"
  shows "svc_inv sv'"
proof (cases q)
  case (QCreate r w)
  then show ?thesis using run svc_create_inv [OF I room] by (auto elim!: seq_Ok_E simp: ret_def)
next
  case (QFinalize r w)
  then show ?thesis using run svc_workspace_finalize_inv [OF I] by auto
next
  case (QSetCheckout p cs)
  then show ?thesis using run svc_set_checkout_state_inv [OF I] by simp
next
  case (QDelete r w)
  then show ?thesis using run svc_workspace_delete_inv [OF I] by simp
next
  case (QRepoDelete n)
  then show ?thesis using run svc_repo_delete_inv [OF I] by simp
next
  case (QRepoForget n)
  then show ?thesis using run svc_repo_forget_inv [OF I] by (auto elim!: seq_Ok_E simp: ret_def)
next
  case (QRemoteRemove r)
  then show ?thesis using run svc_remote_remove_inv [OF I] by simp
next
  case (QGetTree p)
  then show ?thesis using run query_inv(1) [OF I] by (auto elim!: seq_Ok_E simp: ret_def)
next
  case (QGetCheckout p)
  then show ?thesis using run query_inv(2) [OF I] by (auto elim!: seq_Ok_E simp: ret_def)
next
  case QRepoList
  then show ?thesis using run I by (auto elim!: seq_Ok_E dest!: ask_root_Ok simp: svc_repo_list_def ret_def)
next
  case (QWorkspaceList r)
  then show ?thesis using run I
    by (auto elim!: seq_Ok_E dest!: ask_root_Ok simp: svc_workspace_list_def ret_def fetch_or_def throw_def split: option.splits)
next
  case (QRemoteShow r)
  then show ?thesis using run I by (auto elim!: seq_Ok_E dest!: ask_root_Ok simp: svc_remote_show_def ret_def throw_def split: option.splits)
next
  case QStatus
  then show ?thesis using run I by (auto elim!: seq_Ok_E simp: svc_daemon_status_def ret_def)
qed

end
