(* ===== verification/Startup.thy ===== *)
theory Startup
  imports Service_Sync
begin

text \<open>
  Starting the daemon on what an earlier one left on disk: the workspaces of a repository
  (\<^verbatim>\<open>list_workspace_configs\<close> of \<^verbatim>\<open>src/daemon/src/repo_meta.rs\<close>) and the routing filesystem built from them
  (\<^verbatim>\<open>rehydrate_root_fs\<close> of \<^verbatim>\<open>src/daemon/src/lib.rs\<close>). Opening a repository's git store and parsing its remote URL are
  parameters; a repository whose store cannot be opened is skipped, as in the code.
\<close>

section \<open>The workspaces of a repository\<close>

fun read_configs :: "toml_lib \<Rightarrow> string \<Rightarrow> string list \<Rightarrow> host \<Rightarrow> (string \<times> WorkspaceConfig) list" where
  "read_configs L d [] h = []"
| "read_configs L d (n # ns) h =
     (let f = path_join (path_join d n) ''workspace.toml''
      in if \<not> host_exists h f then read_configs L d ns h
         else (case workspace_read_from L f h of
             (Inl _, _) \<Rightarrow> read_configs L d ns h
           | (Inr c, _) \<Rightarrow> (n, c) # read_configs L d ns h))"

definition list_workspace_configs :: "toml_lib \<Rightarrow> string \<Rightarrow> string \<Rightarrow> (host, string, (string \<times> WorkspaceConfig) list) io" where
  "list_workspace_configs L st repo = (\<lambda>h.
     let d = path_join (repo_dir st repo) ''workspaces''
     in if \<not> dir_exists h d then (Inr [], h)
        else if h_fault h IoReadDir d then (Inl (''reading '' @ d), h)
        else (Inr (sort_key fst (read_configs L d (subdirs h d) h)), h))"

section \<open>Rebuilding the routing filesystem\<close>

definition config_entry :: "WorkspaceConfig \<Rightarrow> workspace_entry" where
  "config_entry c = \<lparr>we_slot = cfg_slot c, we_state = cfg_state c, we_root_tree_id = cfg_root_tree_id c, we_op_id = cfg_op_id c,
     we_workspace_id = cfg_workspace_id c, we_commit_mtime_millis = cfg_commit_mtime_millis c\<rparr>"

text \<open>A workspace that was never finalized is left out; a registration that fails is logged.\<close>

fun rehydrate_workspaces :: "string \<Rightarrow> (string \<times> WorkspaceConfig) list \<Rightarrow> 'g root_fs \<Rightarrow> 'g root_fs" where
  "rehydrate_workspaces repo [] rf = rf"
| "rehydrate_workspaces repo ((w, c) # ws) rf =
     rehydrate_workspaces repo ws
       (if cfg_state c = Pending then rf else snd (register_workspace repo w (config_entry c) rf))"

fun rehydrate_repos ::
  "(string \<Rightarrow> string + nat) \<Rightarrow> (string \<Rightarrow> string + get_blob option) \<Rightarrow> (string \<times> string) list \<Rightarrow> 'g root_fs \<Rightarrow> 'g root_fs" where
  "rehydrate_repos open_store parse_url [] rf = rf"
| "rehydrate_repos open_store parse_url ((name, url) # rs) rf =
     rehydrate_repos open_store parse_url rs
       (case open_store name of
          Inl _ \<Rightarrow> rf
        | Inr st \<Rightarrow>
            let rf1 = register_repo name url st (case parse_url url of Inl _ \<Rightarrow> None | Inr rem \<Rightarrow> rem) rf
            in case list_workspace_configs (root_toml rf) (storage_dir rf) name (root_host rf) of
                 (Inl _, _) \<Rightarrow> rf1
               | (Inr ws, _) \<Rightarrow> rehydrate_workspaces name ws rf1)"

text \<open>\<open>new\<close> is \<^verbatim>\<open>RootFs::new\<close> with the slot counter left open.\<close>

definition rehydrate_root_fs ::
  "(slot \<Rightarrow> 'g root_fs) \<Rightarrow> (string \<Rightarrow> string + nat) \<Rightarrow> (string \<Rightarrow> string + get_blob option) \<Rightarrow> toml_lib \<Rightarrow> string \<Rightarrow> host \<Rightarrow> string + 'g root_fs" where
  "rehydrate_root_fs new open_store parse_url L dir h =
     (case repos_read_or_default L (repos_config_path dir) h of
        (Inl e, _) \<Rightarrow> Inl (''reading repos.toml: '' @ e)
      | (Inr cfg, _) \<Rightarrow> Inr (rehydrate_repos open_store parse_url (rc_repos cfg) (new (rc_next_slot cfg))))"

section \<open>The listing is what the files say\<close>

definition listable :: "host \<Rightarrow> bool" where
  "listable h \<longleftrightarrow> (\<forall>p. \<not> h_fault h IoRead p \<and> \<not> h_fault h IoStat p \<and> \<not> h_fault h IoReadDir p)"

lemma on_disk_file: "on_disk L h p = Some c \<Longrightarrow> file_at h p \<noteq> None"
  by (auto simp: on_disk_def split: option.splits)

lemma read_configs_spec:
  assumes "listable h"
  shows "(n, c) \<in> set (read_configs L d ns h) \<longleftrightarrow> n \<in> set ns \<and> on_disk L h (path_join (path_join d n) ''workspace.toml'') = Some c"
proof (induction ns)
  case (Cons m ns)
  define f where "f = path_join (path_join d m) ''workspace.toml''"
  have ex: "host_exists h f" if "on_disk L h f = Some x" for x
    using on_disk_file [OF that] assms by (auto simp: host_exists_def listable_def)
  have rd: "workspace_read_from L f h = (Inr x, h')  \<Longrightarrow> on_disk L h f = Some x" for x h' using on_disk_read by blast
  have rd': "on_disk L h f = Some x \<Longrightarrow> workspace_read_from L f h = (Inr x, h)" for x
    using read_on_disk assms by (auto simp: listable_def)
  obtain res h' where r: "workspace_read_from L f h = (res, h')" by fastforce
  show ?case
  proof (cases res)
    case (Inl e)
    then have "on_disk L h f = None" using r rd' by (cases "on_disk L h f") auto
    then show ?thesis using Cons Inl r by (auto simp: f_def [symmetric])
  next
    case (Inr x)
    then show ?thesis using Cons r rd [of x h'] ex [of x] by (auto simp: f_def [symmetric])
  qed
qed simp

lemma read_configs_Cons:
  "\<exists>c. read_configs L d (n # ns) h = read_configs L d ns h \<or> read_configs L d (n # ns) h = (n, c) # read_configs L d ns h"
  by (cases "workspace_read_from L (path_join (path_join d n) ''workspace.toml'') h"; cases "fst (workspace_read_from L (path_join (path_join d n) ''workspace.toml'') h)") (auto simp: Let_def)

declare read_configs.simps(2) [simp del]

lemma read_configs_keys: "fst ` set (read_configs L d ns h) \<subseteq> set ns"
proof (induction ns)
  case (Cons n ns)
  then have "fst ` set (read_configs L d ns h) \<subseteq> set (n # ns)" by auto
  then show ?case using read_configs_Cons [of L d n ns h] by (metis image_insert insert_subset fst_conv list.set(2) list.set_intros(1))
qed simp

lemma read_configs_distinct: "distinct ns \<Longrightarrow> distinct (map fst (read_configs L d ns h))"
proof (induction ns)
  case (Cons n ns)
  then show ?case using read_configs_Cons [of L d n ns h] read_configs_keys [of L d ns h] by auto
qed simp

lemma workspaces_dir_eq: "component r \<Longrightarrow> path_join (repo_dir st r) ''workspaces'' = path_join st ''repos'' @ ''/'' @ r @ ''/'' @ ''workspaces''"
proof -
  assume r: "component r"
  have "path_join (repo_dir st r) ''workspaces'' = repo_dir st r @ ''/'' @ ''workspaces''"
    unfolding repo_dir_def by (rule join_component) (use r in simp_all)
  then show ?thesis by (simp add: repo_dir_eq [OF r])
qed

lemma config_in_subdirs:
  assumes "component r" "component w" and "file_at h (workspace_config_path st r w) \<noteq> None"
  shows "w \<in> set (subdirs h (path_join (repo_dir st r) ''workspaces''))" and "\<not> h_fault h IoStat d \<Longrightarrow> d = path_join (repo_dir st r) ''workspaces'' \<Longrightarrow> dir_exists h d"
proof -
  define e where "e = path_join (repo_dir st r) ''workspaces''"
  have p: "workspace_config_path st r w = (e @ ''/'') @ w @ ''/workspace.toml''"
    unfolding e_def workspaces_dir_eq [OF assms(1)] config_path_eq [OF assms(1,2)] by simp
  obtain b where b: "((e @ ''/'') @ w @ ''/workspace.toml'', b) \<in> set (h_files h)"
    using assms(3) map_of_SomeD unfolding p file_at_def by fastforce
  have w: "w \<noteq> []" "CHR ''/'' \<notin> set w" using assms(2) by (simp_all add: component_def)
  have "rel_path e ((e @ ''/'') @ w @ ''/workspace.toml'') = [w @ ''/workspace.toml'']"
    using w(1) unfolding rel_path_def strip_prefix_Some_iff [THEN iffD2, OF refl] by simp
  then have "w @ ''/workspace.toml'' \<in> set (filter (\<lambda>n. CHR ''/'' \<in> set n) (concat (map (rel_path e \<circ> fst) (h_files h))))"
    using b by force
  moreover have "takeWhile (\<lambda>c. c \<noteq> CHR ''/'') (w @ ''/workspace.toml'') = w" using w(2) by (subst takeWhile_append2) auto
  ultimately show "w \<in> set (subdirs h (path_join (repo_dir st r) ''workspaces''))"
    using w(1) unfolding subdirs_def child_dirs_def e_def [symmetric] by (force simp: image_iff)
  show "dir_exists h d" if "\<not> h_fault h IoStat d" "d = path_join (repo_dir st r) ''workspaces''"
  proof -
    have "below e ((e @ ''/'') @ w @ ''/workspace.toml'')" unfolding below_def starts_with_iff by blast
    then show ?thesis using that b unfolding dir_exists_def e_def [symmetric] list_ex_iff by force
  qed
qed

lemma subdirs_component: "n \<in> set (subdirs h d) \<Longrightarrow> component n"
  by (auto simp: subdirs_def child_dirs_def component_def dest: set_takeWhileD)

lemma list_configs_spec:
  assumes "listable h" and "component r"
  obtains ws where "list_workspace_configs L st r h = (Inr ws, h)" and "distinct (map fst ws)"
    and "\<And>w c. (w, c) \<in> set ws \<longleftrightarrow> component w \<and> on_disk L h (workspace_config_path st r w) = Some c"
proof -
  define d where "d = path_join (repo_dir st r) ''workspaces''"
  have f: "path_join (path_join d n) ''workspace.toml'' = workspace_config_path st r n" for n
    by (simp add: d_def workspace_config_path_def workspace_dir_def)
  have nf: "\<not> h_fault h IoStat d" "\<not> h_fault h IoReadDir d" using assms(1) by (auto simp: listable_def)
  show ?thesis
  proof (cases "dir_exists h d")
    case True
    define ws where "ws = sort_key fst (read_configs L d (subdirs h d) h)"
    show ?thesis
    proof (rule that [of ws])
      show "list_workspace_configs L st r h = (Inr ws, h)" using True nf by (simp add: list_workspace_configs_def d_def [symmetric] ws_def)
      have "mset (map fst ws) = mset (map fst (read_configs L d (subdirs h d) h))" by (simp add: ws_def)
      then show "distinct (map fst ws)" using read_configs_distinct [of "subdirs h d"] by (metis distinct_remdups mset_eq_imp_distinct_iff subdirs_def)
      show "(w, c) \<in> set ws \<longleftrightarrow> component w \<and> on_disk L h (workspace_config_path st r w) = Some c" for w c
        using read_configs_spec [OF assms(1), of w c L d "subdirs h d"] subdirs_component [of w h d]
          config_in_subdirs(1) [OF assms(2), of w h st] on_disk_file [of L h "workspace_config_path st r w" c]
        by (auto simp: ws_def f d_def [symmetric])
    qed
  next
    case False
    then have "\<not> (component w \<and> on_disk L h (workspace_config_path st r w) = Some c)" for w c
      using config_in_subdirs(2) [OF assms(2), of w h st d] on_disk_file nf(1) by (auto simp: d_def)
    then show ?thesis using that [of "[]"] False by (simp add: list_workspace_configs_def d_def [symmetric])
  qed
qed

section \<open>The rebuilt registry\<close>

text \<open>The maps of the routing filesystem are well formed, and where it reads its files.\<close>

definition maps_wf :: "'g root_fs \<Rightarrow> bool" where
  "maps_wf rf \<longleftrightarrow> bt_wf (repos rf) \<and> (\<forall>r re. map_of (repos rf) r = Some re \<longrightarrow> bt_wf (re_workspaces re))"

definition same_disk :: "'g root_fs \<Rightarrow> 'g root_fs \<Rightarrow> bool" where
  "same_disk rf rf' \<longleftrightarrow> storage_dir rf' = storage_dir rf \<and> root_toml rf' = root_toml rf \<and> root_host rf' = root_host rf"

lemma same_disk_trans: "same_disk a b \<Longrightarrow> same_disk b c \<Longrightarrow> same_disk a c"
  by (simp add: same_disk_def)

definition registered :: "'g root_fs \<Rightarrow> string \<Rightarrow> bool" where
  "registered rf r \<longleftrightarrow> map_of (repos rf) r \<noteq> None"

lemma register_ws_effect:
  assumes wf: "maps_wf rf" and reg: "registered rf r" and rf': "rf' = snd (register_workspace r w we rf)"
  shows "maps_wf rf'" and "same_disk rf rf'" and "registered rf' q = registered rf q"
    and "find_ws rf' q x = (if q = r \<and> x = w \<and> find_ws rf r w = None then Some we else find_ws rf q x)"
proof -
  obtain y where run: "register_workspace r w we rf = (y, rf')" unfolding rf' by (metis prod.collapse)
  obtain re where re: "map_of (repos rf) r = Some re" using reg by (auto simp: registered_def)
  have "maps_wf rf' \<and> same_disk rf rf' \<and> registered rf' q = registered rf q \<and>
      find_ws rf' q x = (if q = r \<and> x = w \<and> find_ws rf r w = None then Some we else find_ws rf q x)"
  proof (cases "map_of (re_workspaces re) w")
    case (Some e)
    then have "rf' = rf" using run re by (simp add: register_workspace_def get_repo_seq throw_apply)
    then show ?thesis using wf Some re by (simp add: same_disk_def find_ws_def)
  next
    case None
    have "rf' = (register_state r w we re rf)\<lparr>next_slot := (if we_slot we \<ge> next_slot rf then we_slot we + 1 else next_slot rf)\<rparr>"
      using run re None by (auto simp: register_workspace_def get_repo_seq modifies_def Let_def register_state_def add_child_frame update_repo_frame)
    moreover have "repos (register_state r w we re rf) = bt_insert r (re\<lparr>re_workspaces := bt_insert w we (re_workspaces re)\<rparr>) (repos rf)"
      using re by (simp add: register_state_def add_child_frame update_repo_def)
    ultimately show ?thesis
      using wf re None by (auto simp: maps_wf_def same_disk_def registered_def find_ws_def register_state_def)
  qed
  then show "maps_wf rf'" "same_disk rf rf'" "registered rf' q = registered rf q"
      "find_ws rf' q x = (if q = r \<and> x = w \<and> find_ws rf r w = None then Some we else find_ws rf q x)"
    by simp_all
qed

lemma rehydrate_workspaces_effect:
  assumes "maps_wf rf" and "registered rf r" and "distinct (map fst ws)" and "\<And>w. w \<in> fst ` set ws \<Longrightarrow> find_ws rf r w = None"
  shows "maps_wf (rehydrate_workspaces r ws rf) \<and> same_disk rf (rehydrate_workspaces r ws rf) \<and>
    (\<forall>q. registered (rehydrate_workspaces r ws rf) q = registered rf q) \<and>
    (\<forall>q x. find_ws (rehydrate_workspaces r ws rf) q x =
       (case map_of ws x of Some c \<Rightarrow> if q = r \<and> cfg_state c = Active then Some (config_entry c) else find_ws rf q x | None \<Rightarrow> find_ws rf q x))"
  using assms
proof (induction ws arbitrary: rf)
  case Nil
  then show ?case by (simp add: same_disk_def)
next
  case (Cons e ws)
  obtain w c where e: "e = (w, c)" by (cases e)
  have new: "map_of ws w = None" using Cons.prems(3) e by (simp add: map_of_eq_None_iff)
  show ?case
  proof (cases "cfg_state c")
    case Pending
    then show ?thesis using Cons.IH [OF Cons.prems(1,2)] Cons.prems(3,4) e new by (simp split: option.split)
  next
    case Active
    define rf1 where "rf1 = snd (register_workspace r w (config_entry c) rf)"
    note eff = register_ws_effect [OF Cons.prems(1,2) rf1_def]
    have none: "find_ws rf r w = None" using Cons.prems(4) e by simp
    have ih: "maps_wf (rehydrate_workspaces r ws rf1) \<and> same_disk rf1 (rehydrate_workspaces r ws rf1) \<and>
      (\<forall>q. registered (rehydrate_workspaces r ws rf1) q = registered rf1 q) \<and>
      (\<forall>q x. find_ws (rehydrate_workspaces r ws rf1) q x =
       (case map_of ws x of Some c \<Rightarrow> if q = r \<and> cfg_state c = Active then Some (config_entry c) else find_ws rf1 q x | None \<Rightarrow> find_ws rf1 q x))"
    proof (rule Cons.IH [OF eff(1)])
      show "registered rf1 r" using eff(3) Cons.prems(2) by simp
      show "distinct (map fst ws)" using Cons.prems(3) by simp
      show "find_ws rf1 r x = None" if "x \<in> fst ` set ws" for x
        using that Cons.prems(3,4) e eff(4) [of r x] by auto
    qed
    show ?thesis
      using new ih eff(2,3) eff(4) none Active e same_disk_trans [OF eff(2)] by (auto simp: rf1_def [symmetric] split: option.splits)
  qed
qed

lemma register_repo_effect:
  assumes wf: "maps_wf rf" and new: "\<not> registered rf n"
  shows "maps_wf (register_repo n url st rem rf)" and "same_disk rf (register_repo n url st rem rf)"
    and "registered (register_repo n url st rem rf) q \<longleftrightarrow> q = n \<or> registered rf q"
    and "find_ws (register_repo n url st rem rf) q x = find_ws rf q x"
proof -
  define rf' where "rf' = register_repo n url st rem rf"
  obtain e where e: "repos rf' = bt_insert n e (repos rf)" "re_workspaces e = []"
    using new by (auto simp: rf'_def register_repo_def registered_def Let_def add_child_frame)
  show "maps_wf (register_repo n url st rem rf)" "registered (register_repo n url st rem rf) q \<longleftrightarrow> q = n \<or> registered rf q"
      "find_ws (register_repo n url st rem rf) q x = find_ws rf q x"
    unfolding rf'_def [symmetric] using e wf new by (auto simp: maps_wf_def registered_def find_ws_def)
  show "same_disk rf (register_repo n url st rem rf)"
    using new by (simp add: same_disk_def register_repo_def registered_def Let_def)
qed

text \<open>What the files say of a workspace: its entry when it was finalized.\<close>

definition disk_ws :: "toml_lib \<Rightarrow> string \<Rightarrow> host \<Rightarrow> string \<Rightarrow> string \<Rightarrow> workspace_entry option" where
  "disk_ws L st h r w =
     (case on_disk L h (workspace_config_path st r w) of
        Some c \<Rightarrow> if component w \<and> cfg_state c = Active then Some (config_entry c) else None
      | None \<Rightarrow> None)"

lemma rehydrate_repo_effect:
  assumes wf: "maps_wf rf" and new: "\<not> registered rf n" and n: "component n" and ls: "listable (root_host rf)" and op: "open_store n = Inr st"
    and rf'_def: "rf' = rehydrate_repos open_store parse_url [(n, url)] rf"
  shows "maps_wf rf'" and "same_disk rf rf'" and "registered rf' q \<longleftrightarrow> q = n \<or> registered rf q"
    and "find_ws rf' q x = (if q = n then disk_ws (root_toml rf) (storage_dir rf) (root_host rf) n x else find_ws rf q x)"
proof -
  define rf1 where "rf1 = register_repo n url st (case parse_url url of Inl _ \<Rightarrow> None | Inr rem \<Rightarrow> rem) rf"
  note eff = register_repo_effect [OF wf new, of url st "case parse_url url of Inl _ \<Rightarrow> None | Inr rem \<Rightarrow> rem", folded rf1_def]
  obtain ws where l: "list_workspace_configs (root_toml rf) (storage_dir rf) n (root_host rf) = (Inr ws, root_host rf)" and d: "distinct (map fst ws)"
    and m: "\<And>w c. (w, c) \<in> set ws \<longleftrightarrow> component w \<and> on_disk (root_toml rf) (root_host rf) (workspace_config_path (storage_dir rf) n w) = Some c"
    using list_configs_spec [OF ls n] by blast
  have none: "find_ws rf n w = None" for w using new by (simp add: find_ws_def registered_def)
  have rf': "rf' = rehydrate_workspaces n ws rf1" using op l by (simp add: rf'_def rf1_def)
  have w: "maps_wf rf' \<and> same_disk rf1 rf' \<and> (\<forall>q. registered rf' q = registered rf1 q) \<and>
    (\<forall>q x. find_ws rf' q x = (case map_of ws x of Some c \<Rightarrow> if q = n \<and> cfg_state c = Active then Some (config_entry c) else find_ws rf1 q x | None \<Rightarrow> find_ws rf1 q x))"
    unfolding rf' by (rule rehydrate_workspaces_effect [OF eff(1) _ d]) (use eff none in auto)
  show "maps_wf rf'" "same_disk rf rf'" "registered rf' q \<longleftrightarrow> q = n \<or> registered rf q"
    using w eff same_disk_trans [OF eff(2)] by auto
  have "map_of ws x = Some c \<longleftrightarrow> component x \<and> on_disk (root_toml rf) (root_host rf) (workspace_config_path (storage_dir rf) n x) = Some c" for c
    using m d by (simp add: map_of_eq_Some_iff)
  then have "map_of ws x = (if component x then on_disk (root_toml rf) (root_host rf) (workspace_config_path (storage_dir rf) n x) else None)"
    by (metis not_None_eq option.exhaust)
  then show "find_ws rf' q x = (if q = n then disk_ws (root_toml rf) (storage_dir rf) (root_host rf) n x else find_ws rf q x)"
    using w eff(4) none by (auto simp: disk_ws_def split: option.split)
qed

lemma rehydrate_repos_effect:
  assumes "maps_wf rf" and "distinct (map fst rs)" and "\<And>n. n \<in> fst ` set rs \<Longrightarrow> \<not> registered rf n \<and> component n" and "listable (root_host rf)"
  shows "find_ws (rehydrate_repos open_store parse_url rs rf) r w =
    (case map_of rs r of
       None \<Rightarrow> find_ws rf r w
     | Some _ \<Rightarrow> (case open_store r of Inl _ \<Rightarrow> None | Inr _ \<Rightarrow> disk_ws (root_toml rf) (storage_dir rf) (root_host rf) r w))"
  using assms
proof (induction rs arbitrary: rf)
  case (Cons e rs)
  obtain n url where e: "e = (n, url)" by (cases e)
  have nn: "\<not> registered rf n" "component n" using Cons.prems(3) e by auto
  have notin: "map_of rs n = None" "n \<notin> fst ` set rs" using Cons.prems(2) e by (auto simp: map_of_eq_None_iff)
  show ?case
  proof (cases "open_store n")
    case (Inl x)
    have "find_ws rf n w = None" for w using nn(1) by (simp add: find_ws_def registered_def)
    then show ?thesis using Cons.IH [of rf] Cons.prems Inl e notin by (auto split: option.split)
  next
    case (Inr st)
    define rf1 where "rf1 = rehydrate_repos open_store parse_url [(n, url)] rf"
    note eff = rehydrate_repo_effect [OF Cons.prems(1) nn Cons.prems(4) Inr rf1_def]
    have step: "rehydrate_repos open_store parse_url (e # rs) rf = rehydrate_repos open_store parse_url rs rf1"
      by (simp add: e rf1_def)
    have disk: "root_toml rf1 = root_toml rf" "storage_dir rf1 = storage_dir rf" "root_host rf1 = root_host rf"
      using eff(2) by (simp_all add: same_disk_def)
    have "find_ws (rehydrate_repos open_store parse_url rs rf1) r w =
      (case map_of rs r of None \<Rightarrow> find_ws rf1 r w
       | Some _ \<Rightarrow> (case open_store r of Inl _ \<Rightarrow> None | Inr _ \<Rightarrow> disk_ws (root_toml rf1) (storage_dir rf1) (root_host rf1) r w))"
      by (rule Cons.IH [OF eff(1)]) (use Cons.prems notin e eff(3) disk in auto)
    then show ?thesis unfolding step disk using eff(4) Inr notin e by (auto split: option.split)
  qed
qed simp

text \<open>The routing filesystem a daemon starts with holds exactly the finalized workspaces on disk.\<close>

lemma rehydrate_find_ws:
  assumes ls: "listable h" and cfg: "repos_read_or_default L (repos_config_path dir) h = (Inr cfg, h')" and names: "\<And>n url. map_of (rc_repos cfg) n = Some url \<Longrightarrow> component n"
  shows "\<exists>rf'. rehydrate_root_fs (\<lambda>ns. root_fs_new dir ns now sts paths ready h L chain mkdirs) open_store parse_url L dir h = Inr rf' \<and>
    (\<forall>r w. find_ws rf' r w = (if map_of (rc_repos cfg) r \<noteq> None \<and> \<not> isl (open_store r) then disk_ws L dir h r w else None))"
proof -
  define rf0 where "rf0 = root_fs_new dir (rc_next_slot cfg) now sts paths ready h L chain mkdirs"
  have 0: "maps_wf rf0" "\<not> registered rf0 n" "root_host rf0 = h" "root_toml rf0 = L" "storage_dir rf0 = dir" "find_ws rf0 r w = None" for n r w
    by (simp_all add: rf0_def root_fs_new_def maps_wf_def registered_def find_ws_def)
  have wf: "bt_wf (rc_repos cfg)" by (rule repos_read_wf [OF cfg])
  have "find_ws (rehydrate_repos open_store parse_url (rc_repos cfg) rf0) r w =
    (case map_of (rc_repos cfg) r of None \<Rightarrow> find_ws rf0 r w
     | Some _ \<Rightarrow> (case open_store r of Inl _ \<Rightarrow> None | Inr _ \<Rightarrow> disk_ws (root_toml rf0) (storage_dir rf0) (root_host rf0) r w))" for r w
  proof (rule rehydrate_repos_effect [OF 0(1) bt_wf_distinct [OF wf]])
    show "\<not> registered rf0 n \<and> component n" if "n \<in> fst ` set (rc_repos cfg)" for n
      using that names 0(2) wf by (metis map_of_eq_None_iff option.exhaust)
  qed (simp add: 0(3) ls)
  then have "find_ws (rehydrate_repos open_store parse_url (rc_repos cfg) rf0) r w =
      (if map_of (rc_repos cfg) r \<noteq> None \<and> \<not> isl (open_store r) then disk_ws L dir h r w else None)" for r w
    using 0 by (cases "open_store r") (auto split: option.split)
  then show ?thesis using cfg by (simp add: rehydrate_root_fs_def rf0_def)
qed

section \<open>The remotes of the rebuilt repositories\<close>

definition remote_of :: "'g root_fs \<Rightarrow> string \<Rightarrow> get_blob option option" where
  "remote_of rf r = map_option re_remote (map_of (repos rf) r)"

lemma register_ws_remotes:
  assumes "bt_wf (repos rf)"
  shows "bt_wf (repos (snd (register_workspace r w we rf))) \<and> remote_of (snd (register_workspace r w we rf)) = remote_of rf"
proof (cases "map_of (repos rf) r")
  case None
  then show ?thesis using assms by (simp add: register_workspace_def get_repo_seq)
next
  case (Some re)
  show ?thesis
  proof (cases "map_of (re_workspaces re) w")
    case None
    then show ?thesis using Some assms
      by (auto simp: register_workspace_def get_repo_seq modifies_def Let_def add_child_frame update_repo_def remote_of_def fun_eq_iff)
  next
    case (Some e)
    then show ?thesis using \<open>map_of (repos rf) r = Some re\<close> assms by (simp add: register_workspace_def get_repo_seq throw_apply)
  qed
qed

lemma rehydrate_workspaces_remotes:
  "bt_wf (repos rf) \<Longrightarrow> bt_wf (repos (rehydrate_workspaces r ws rf)) \<and> remote_of (rehydrate_workspaces r ws rf) = remote_of rf"
proof (induction ws arbitrary: rf)
  case (Cons e ws)
  obtain w c where e: "e = (w, c)" by (cases e)
  then show ?case using Cons register_ws_remotes [OF Cons.prems, of r w "config_entry c"] by simp
qed simp

text \<open>The remote a repository gets at start-up: none when its URL is refused.\<close>

definition startup_remote :: "(string \<Rightarrow> string + get_blob option) \<Rightarrow> string \<Rightarrow> get_blob option" where
  "startup_remote parse_url url = (case parse_url url of Inl _ \<Rightarrow> None | Inr rem \<Rightarrow> rem)"

lemma rehydrate_one_remotes:
  assumes wf: "bt_wf (repos rf)" and new: "remote_of rf n = None" and op: "open_store n = Inr st"
  shows "bt_wf (repos (rehydrate_repos open_store parse_url [(n, url)] rf)) \<and>
    remote_of (rehydrate_repos open_store parse_url [(n, url)] rf) = (remote_of rf)(n \<mapsto> startup_remote parse_url url)"
proof -
  define rf1 where "rf1 = register_repo n url st (startup_remote parse_url url) rf"
  have "repos rf1 = bt_insert n \<lparr>re_url = url, re_inode = next_synthetic rf, re_store = st, re_remote = startup_remote parse_url url, re_workspaces = []\<rparr> (repos rf)"
    using new by (simp add: rf1_def register_repo_def Let_def add_child_frame remote_of_def)
  then have 1: "bt_wf (repos rf1)" "remote_of rf1 = (remote_of rf)(n \<mapsto> startup_remote parse_url url)"
    using wf by (auto simp: remote_of_def fun_eq_iff)
  show ?thesis using op 1 rehydrate_workspaces_remotes [OF 1(1), of n] unfolding startup_remote_def [symmetric]
    by (auto simp: rf1_def startup_remote_def [symmetric] Let_def split: prod.split sum.split)
qed

lemma rehydrate_repos_split: "rehydrate_repos open_store parse_url (e # rs) rf = rehydrate_repos open_store parse_url rs (rehydrate_repos open_store parse_url [e] rf)"
  by (cases e) simp

lemma rehydrate_repos_remotes:
  assumes "bt_wf (repos rf)" and "distinct (map fst rs)" and "\<forall>n \<in> fst ` set rs. remote_of rf n = None"
  shows "remote_of (rehydrate_repos open_store parse_url rs rf) r =
    (case map_of rs r of Some url \<Rightarrow> if isl (open_store r) then None else Some (startup_remote parse_url url) | None \<Rightarrow> remote_of rf r)"
  using assms
proof (induction rs arbitrary: rf)
  case (Cons e rs)
  obtain n url where e: "e = (n, url)" by (cases e)
  have notin: "n \<notin> fst ` set rs" "map_of rs n = None" using Cons.prems(2) e by (auto simp: map_of_eq_None_iff)
  show ?case
  proof (cases "open_store n")
    case (Inl x)
    then show ?thesis using Cons e notin by (auto split: option.split)
  next
    case (Inr st)
    define rf1 where "rf1 = rehydrate_repos open_store parse_url [e] rf"
    have 1: "bt_wf (repos rf1)" "remote_of rf1 = (remote_of rf)(n \<mapsto> startup_remote parse_url url)"
      using rehydrate_one_remotes [where open_store = open_store, OF Cons.prems(1) _ Inr] Cons.prems(3) e by (auto simp: rf1_def)
    have ih: "remote_of (rehydrate_repos open_store parse_url rs rf1) r =
      (case map_of rs r of Some url \<Rightarrow> if isl (open_store r) then None else Some (startup_remote parse_url url) | None \<Rightarrow> remote_of rf1 r)"
      by (rule Cons.IH [OF 1(1)]) (use Cons.prems 1(2) notin e in auto)
    have "rehydrate_repos open_store parse_url (e # rs) rf = rehydrate_repos open_store parse_url rs rf1"
      unfolding rf1_def by (rule rehydrate_repos_split)
    then have "remote_of (rehydrate_repos open_store parse_url (e # rs) rf) r =
      (case map_of rs r of Some url \<Rightarrow> if isl (open_store r) then None else Some (startup_remote parse_url url) | None \<Rightarrow> remote_of rf1 r)"
      using ih by simp
    then show ?thesis using 1(2) notin(2) Inr unfolding e by (auto split: option.split)
  qed
qed simp

lemma rehydrate_remote:
  assumes cfg: "repos_read_or_default L (repos_config_path dir) h = (Inr cfg, h')" and r: "map_of (rc_repos cfg) r = Some url" "open_store r = Inr st"
    and run: "rehydrate_root_fs (\<lambda>ns. root_fs_new dir ns now sts paths ready h L chain mkdirs) open_store parse_url L dir h = Inr rf'"
  shows "remote_of rf' r = Some (startup_remote parse_url url)"
proof -
  define rf0 where "rf0 = root_fs_new dir (rc_next_slot cfg) now sts paths ready h L chain mkdirs"
  have 0: "bt_wf (repos rf0)" "remote_of rf0 n = None" for n by (simp_all add: rf0_def root_fs_new_def remote_of_def)
  have "rf' = rehydrate_repos open_store parse_url (rc_repos cfg) rf0" using run cfg by (simp add: rehydrate_root_fs_def rf0_def)
  then show ?thesis
    using rehydrate_repos_remotes [where open_store = open_store and parse_url = parse_url and r = r, OF 0(1) bt_wf_distinct [OF repos_read_wf [OF cfg]]] 0(2) r by simp
qed

end
