(* ===== verification/Remote_Url.thy ===== *)
theory Remote_Url
  imports Catalog
begin

text \<open>
  Remote URLs: the parsers of \<^verbatim>\<open>src/daemon/src/remote/mod.rs\<close>, \<^verbatim>\<open>src/daemon/src/remote/s3.rs\<close> and
  \<^verbatim>\<open>src/store/src/lib.rs\<close>, the name \<^verbatim>\<open>src/daemon/src/service.rs\<close> derives from a URL, and the choice of a backend in the requests that
  attach a remote. A remote store is represented by what it was built from. Establishing a connection (the tonic
  channel, the SSH tunnel) is a parameter that says whether it succeeds; building an S3 client does not fail.
\<close>

section \<open>The parsers\<close>

datatype remote_handle =
    DirRemote string
  | GrpcRemote string
  | SshRemote string string string
  | S3Remote string string

record connector =
  cn_grpc :: "string \<Rightarrow> string + unit"
  cn_tunnel :: "string \<Rightarrow> string \<Rightarrow> string \<Rightarrow> string + unit"
  cn_tunnels_dir :: bool

definition handle_of :: "remote_handle \<Rightarrow> string + unit \<Rightarrow> string + remote_handle option" where
  "handle_of h r = map_sum (\<lambda>e. e) (\<lambda>_. Some h) r"

definition parse_dir :: "string \<Rightarrow> string + remote_handle option" where
  "parse_dir remote =
     (if remote = [] then Inr None
      else case split_once ''://'' remote of
             None \<Rightarrow> Inl (''remote '' @ remote @ '' has no scheme'')
           | Some (scheme, rest) \<Rightarrow>
               if scheme = ''dir''
               then if \<not> starts_with ''/'' rest then Inl (''dir:// remote must use absolute path (got dir://'' @ rest @ '')'')
                    else Inr (Some (DirRemote rest))
               else Inl (''store::parse_dir only handles dir://; got scheme '' @ scheme))"

definition parse :: "connector \<Rightarrow> string \<Rightarrow> string + remote_handle option" where
  "parse C remote =
     (if remote = [] then Inr None
      else case split_once ''://'' remote of
             None \<Rightarrow> Inl (''remote '' @ remote @ '' has no scheme'')
           | Some (scheme, rest) \<Rightarrow>
               if scheme = ''dir''
               then if \<not> starts_with ''/'' rest then Inl (''dir:// remote must use absolute path (got dir://'' @ rest @ '')'')
                    else Inr (Some (DirRemote rest))
               else if scheme = ''kiki'' \<or> scheme = ''grpc''
               then if rest = [] then Inl (scheme @ '':// remote requires host:port (got empty endpoint)'')
                    else handle_of (GrpcRemote rest) (cn_grpc C rest)
               else if scheme = ''kiki+ssh''
               then Inl ''kiki+ssh:// remotes require async tunnel establishment; use establish_ssh_remote() instead of parse()''
               else if scheme = ''s3''
               then Inl ''s3:// remotes require async credential loading; use establish_s3_remote() instead of parse()''
               else Inl (''unsupported remote scheme '' @ scheme))"

definition parse_kiki_ssh_url :: "string \<Rightarrow> string + (string \<times> string \<times> string) option" where
  "parse_kiki_ssh_url remote =
     (case strip_prefix ''kiki+ssh://'' remote of
        None \<Rightarrow> Inr None
      | Some rest \<Rightarrow>
          (case split_once ''/'' rest of
             None \<Rightarrow> Inl (''kiki+ssh:// remote requires host/path (got kiki+ssh://'' @ rest @ '')'')
           | Some (authority, path) \<Rightarrow>
               if authority = [] then Inl ''kiki+ssh:// remote requires host (got empty authority)''
               else let (user, host) = (case split_once ''@'' authority of Some (u, h) \<Rightarrow> (u, h) | None \<Rightarrow> ([], authority))
                    in if host = [] then Inl ''kiki+ssh:// remote requires non-empty host''
                       else Inr (Some (user, host, ''/'' @ path))))"

definition establish_ssh_remote :: "connector \<Rightarrow> string \<Rightarrow> string + remote_handle option" where
  "establish_ssh_remote C remote =
     (case parse_kiki_ssh_url remote of
        Inl e \<Rightarrow> Inl e
      | Inr None \<Rightarrow> Inl (''not a kiki+ssh:// URL: '' @ remote)
      | Inr (Some (user, host, path)) \<Rightarrow> handle_of (SshRemote user host path) (cn_tunnel C user host path))"

definition is_s3_url :: "string \<Rightarrow> bool" where
  "is_s3_url remote \<longleftrightarrow> starts_with ''s3://'' remote"

definition parse_s3_url :: "string \<Rightarrow> string + (string \<times> string) option" where
  "parse_s3_url remote =
     (case strip_prefix ''s3://'' remote of
        None \<Rightarrow> Inr None
      | Some rest \<Rightarrow>
          if rest = [] then Inl ''s3:// remote requires a bucket name''
          else let (bucket, prefix) = (case split_once ''/'' rest of Some (b, p) \<Rightarrow> (b, p) | None \<Rightarrow> (rest, []))
               in if bucket = [] then Inl ''s3:// remote has empty bucket name'' else Inr (Some (bucket, prefix)))"

definition establish_s3_remote :: "string \<Rightarrow> string + remote_handle option" where
  "establish_s3_remote remote =
     (case parse_s3_url remote of
        Inl e \<Rightarrow> Inl e
      | Inr None \<Rightarrow> Inl (''not an s3:// URL: '' @ remote)
      | Inr (Some (bucket, prefix)) \<Rightarrow>
          Inr (Some (S3Remote bucket (trim_end_matches (CHR ''/'') prefix))))"

section \<open>Attaching a remote\<close>

definition invalid_remote :: "string + 'a \<Rightarrow> status + 'a" where
  "invalid_remote r = map_sum (\<lambda>e. Status InvalidArgument (''remote: '' @ e)) (\<lambda>x. x) r"

definition ssh_or :: "connector \<Rightarrow> string \<Rightarrow> status + remote_handle option \<Rightarrow> status + remote_handle option" where
  "ssh_or C url other =
     (case parse_kiki_ssh_url url of
        Inl e \<Rightarrow> Inl (Status InvalidArgument (''remote: '' @ e))
      | Inr None \<Rightarrow> other
      | Inr (Some _) \<Rightarrow>
          if \<not> cn_tunnels_dir C then Inl (Status Internal ''SSH tunnels not available in test mode'')
          else map_sum (\<lambda>e. Status Internal (''SSH tunnel: '' @ e)) (\<lambda>x. x) (establish_ssh_remote C url))"

text \<open>\<^verbatim>\<open>initialize\<close> and, apart from the empty URL, \<^verbatim>\<open>remote_add\<close>.\<close>

definition attach_remote :: "connector \<Rightarrow> string \<Rightarrow> status + remote_handle option" where
  "attach_remote C url =
     ssh_or C url
       (if is_s3_url url then map_sum (\<lambda>e. Status Internal (''S3 remote: '' @ e)) (\<lambda>x. x) (establish_s3_remote url)
        else invalid_remote (parse C url))"

definition add_remote :: "connector \<Rightarrow> string \<Rightarrow> status + remote_handle" where
  "add_remote C url =
     (case attach_remote C url of
        Inl e \<Rightarrow> Inl e
      | Inr None \<Rightarrow> Inl (Status InvalidArgument ''remote URL cannot be empty'')
      | Inr (Some h) \<Rightarrow> Inr h)"

text \<open>\<^verbatim>\<open>clone\<close>.\<close>

definition clone_remote :: "connector \<Rightarrow> string \<Rightarrow> status + remote_handle option" where
  "clone_remote C url = ssh_or C url (invalid_remote (parse C url))"

section \<open>The name of a repository\<close>

text \<open>\<^verbatim>\<open>rsplit_once\<close> at the last occurrence; only the part after it is used.\<close>

fun after_last :: "string \<Rightarrow> string \<Rightarrow> string option" where
  "after_last sep s =
     (case s of
        [] \<Rightarrow> strip_prefix sep []
      | c # cs \<Rightarrow> (case after_last sep cs of Some r \<Rightarrow> Some r | None \<Rightarrow> strip_prefix sep s))"

declare after_last.simps [simp del]

definition last_segment :: "nat \<Rightarrow> string \<Rightarrow> string option" where
  "last_segment least path =
     (let segments = filter (\<lambda>s. s \<noteq> []) (split_char (CHR ''/'') path)
      in if length segments < least \<or> segments = [] then None
         else let l = last segments;
                  name = (case strip_suffix ''.git'' l of Some n \<Rightarrow> n | None \<Rightarrow> l)
              in if name = [] then None else Some name)"

definition derive_repo_name :: "string \<Rightarrow> string option" where
  "derive_repo_name url =
     (case (after_last ''://'' url, split_once '':'' url) of
        (None, Some (_, path)) \<Rightarrow> last_segment 0 path
      | (after, _) \<Rightarrow>
          let after_scheme = (case after of Some rest \<Rightarrow> rest | None \<Rightarrow> url)
          in last_segment (if starts_with ''/'' after_scheme then 1 else 2) after_scheme)"

section \<open>Splitting\<close>

lemma split_once_first: "sep \<noteq> [] \<Longrightarrow> hd sep \<notin> set a \<Longrightarrow> split_once sep (a @ sep @ b) = Some (a, b)"
proof (induction a)
  case Nil
  then show ?case by (subst split_once.simps) (simp add: strip_prefix_Some_iff [THEN iffD2])
next
  case (Cons c a)
  have "strip_prefix sep (c # a @ sep @ b) = None"
    using Cons.prems by (cases sep) (auto simp: option.expand strip_prefix_Some_iff intro: ccontr)
  then show ?case using Cons by (subst split_once.simps) simp
qed

lemma split_char_once:
  "split_once [c] s = (if c \<in> set s then Some (takeWhile (\<lambda>x. x \<noteq> c) s, tl (dropWhile (\<lambda>x. x \<noteq> c) s)) else None)"
proof (induction s)
  case (Cons d s)
  then show ?case by (subst split_once.simps) (cases "c = d", auto)
qed (simp add: split_once.simps)

lemma split_char_some: "split_once [c] s = Some (a, b) \<longleftrightarrow> s = a @ c # b \<and> c \<notin> set a"
proof
  assume r: "split_once [c] s = Some (a, b)"
  then have "s = a @ c # b" using split_once_Some by fastforce
  moreover have "c \<notin> set a" using r unfolding split_char_once by (auto split: if_splits dest: set_takeWhileD)
  ultimately show "s = a @ c # b \<and> c \<notin> set a" by simp
next
  assume "s = a @ c # b \<and> c \<notin> set a"
  then show "split_once [c] s = Some (a, b)" using split_once_first [of "[c]" a b] by simp
qed

section \<open>Which URL gives which backend\<close>

fun print_remote :: "remote_handle \<Rightarrow> string" where
  "print_remote (DirRemote path) = ''dir://'' @ path"
| "print_remote (GrpcRemote endpoint) = ''grpc://'' @ endpoint"
| "print_remote (SshRemote user host path) = ''kiki+ssh://'' @ user @ ''@'' @ host @ path"
| "print_remote (S3Remote bucket prefix) = ''s3://'' @ bucket @ (if prefix = [] then [] else ''/'' @ prefix)"

fun remote_ok :: "remote_handle \<Rightarrow> bool" where
  "remote_ok (DirRemote path) \<longleftrightarrow> starts_with ''/'' path"
| "remote_ok (GrpcRemote endpoint) \<longleftrightarrow> endpoint \<noteq> []"
| "remote_ok (SshRemote user host path) \<longleftrightarrow>
     host \<noteq> [] \<and> CHR ''/'' \<notin> set user \<and> CHR ''@'' \<notin> set user \<and> CHR ''/'' \<notin> set host \<and> starts_with ''/'' path"
| "remote_ok (S3Remote bucket prefix) \<longleftrightarrow> bucket \<noteq> [] \<and> CHR ''/'' \<notin> set bucket \<and> (prefix = [] \<or> last prefix \<noteq> CHR ''/'')"

text \<open>The connection a backend needs can be established.\<close>

fun connects :: "connector \<Rightarrow> remote_handle \<Rightarrow> bool" where
  "connects C (GrpcRemote endpoint) \<longleftrightarrow> cn_grpc C endpoint = Inr ()"
| "connects C (SshRemote user host path) \<longleftrightarrow> cn_tunnels_dir C \<and> cn_tunnel C user host path = Inr ()"
| "connects C _ \<longleftrightarrow> True"

lemma not_ssh: "strip_prefix ''kiki+ssh://'' url = None \<Longrightarrow> parse_kiki_ssh_url url = Inr None"
  by (simp add: parse_kiki_ssh_url_def)

lemma map_sum_Inr_iff: "map_sum f g x = Inr y \<longleftrightarrow> (\<exists>z. x = Inr z \<and> y = g z)"
  by (cases x) auto

lemma strip_prefix_append [simp]: "strip_prefix p (p @ r) = Some r"
  by (simp add: strip_prefix_Some_iff)

lemma ssh_sound: "parse_kiki_ssh_url url = Inr (Some (u, h, p)) \<Longrightarrow> remote_ok (SshRemote u h p)"
  by (auto simp: parse_kiki_ssh_url_def split_char_some starts_with_iff split: option.splits if_splits prod.splits)

lemma ssh_print:
  assumes "remote_ok (SshRemote u h p)"
  shows "parse_kiki_ssh_url (print_remote (SshRemote u h p)) = Inr (Some (u, h, p))"
proof -
  obtain q where q: "p = CHR ''/'' # q" using assms by (auto simp: starts_with_iff)
  have "split_once ''/'' ((u @ ''@'' @ h) @ p) = Some (u @ ''@'' @ h, q)" "split_once ''@'' (u @ ''@'' @ h) = Some (u, h)"
    unfolding split_char_some using assms q by auto
  then show ?thesis using assms q unfolding parse_kiki_ssh_url_def print_remote.simps strip_prefix_append by (simp add: Let_def)
qed

lemma s3_sound: "parse_s3_url url = Inr (Some (b, p)) \<Longrightarrow> remote_ok (S3Remote b (trim_end_matches (CHR ''/'') p))"
  using trim_end_matches_last [of "CHR ''/''" p]
  by (auto simp: parse_s3_url_def split_char_once dest: set_takeWhileD split: option.splits if_splits prod.splits)

lemma trim_end_matches_same: "s = [] \<or> last s \<noteq> c \<Longrightarrow> trim_end_matches c s = s"
  by (cases "rev s") (auto simp: trim_end_matches_def)

lemma s3_print:
  assumes "remote_ok (S3Remote b p)"
  shows "parse_s3_url (print_remote (S3Remote b p)) = Inr (Some (b, p))"
proof (cases "p = []")
  case True
  then show ?thesis using assms by (simp add: parse_s3_url_def split_char_once)
next
  case False
  then have "split_once ''/'' (b @ ''/'' @ p) = Some (b, p)" unfolding split_char_some using assms by simp
  then show ?thesis using assms False unfolding parse_s3_url_def print_remote.simps strip_prefix_append by simp
qed

lemma scheme_split: "CHR '':'' \<notin> set scheme \<Longrightarrow> split_once ''://'' (scheme @ ''://'' @ rest) = Some (scheme, rest)"
  by (rule split_once_first) simp_all

lemma parse_sound:
  assumes "parse C url = Inr (Some h)"
  shows "remote_ok h \<and> connects C h"
  using assms by (auto simp: parse_def handle_of_def map_sum_Inr_iff split: option.splits if_splits)

lemma async_refused:
  assumes "is_s3_url url \<or> strip_prefix ''kiki+ssh://'' url \<noteq> None"
  shows "\<exists>e. parse C url = Inl e"
proof -
  obtain r where "url = ''s3'' @ ''://'' @ r \<or> url = ''kiki+ssh'' @ ''://'' @ r"
    using assms by (auto simp: is_s3_url_def starts_with_iff strip_prefix_Some_iff)
  then have "split_once ''://'' url = Some (''s3'', r) \<or> split_once ''://'' url = Some (''kiki+ssh'', r)"
    using scheme_split [of "''s3''" r] scheme_split [of "''kiki+ssh''" r] by auto
  moreover have "url \<noteq> []" using assms by (auto simp: is_s3_url_def starts_with_iff)
  ultimately show ?thesis by (auto simp: parse_def)
qed

text \<open>
  C27: A URL attaches a backend exactly as it is written: for every backend that can be reached there is a URL that
  attaches it and nothing else, a URL never attaches a backend whose parts are malformed or whose
  connection fails, and no remote is attached only for the empty URL.
\<close>

theorem remote_url_roundtrip:
  "((\<exists>url. attach_remote C url = Inr (Some h)) \<longleftrightarrow> remote_ok h \<and> connects C h) \<and>
   (attach_remote C (print_remote h) = Inr (Some h) \<longleftrightarrow> remote_ok h \<and> connects C h) \<and>
   (attach_remote C url = Inr None \<longleftrightarrow> url = [])"
proof -
  have sound: "remote_ok h \<and> connects C h" if a: "attach_remote C url = Inr (Some h)" for url
  proof (cases "parse_kiki_ssh_url url")
    case (Inr x)
    show ?thesis
    proof (cases x)
      case None
      show ?thesis
      proof (cases "is_s3_url url")
        case True
        then have "\<exists>b p. parse_s3_url url = Inr (Some (b, p)) \<and> h = S3Remote b (trim_end_matches (CHR ''/'') p)"
          using a Inr None by (auto simp: attach_remote_def ssh_or_def establish_s3_remote_def split: sum.splits option.splits)
        then show ?thesis using s3_sound by auto
      next
        case False
        then have "parse C url = Inr (Some h)"
          using a Inr None by (cases "parse C url") (auto simp: attach_remote_def ssh_or_def invalid_remote_def)
        then show ?thesis using parse_sound by blast
      qed
    next
      case (Some t)
      obtain u ho p where "t = (u, ho, p)" by (cases t)
      then show ?thesis using a Inr Some ssh_sound [of url u ho p]
        by (cases "cn_tunnel C u ho p") (auto simp: attach_remote_def ssh_or_def establish_ssh_remote_def handle_of_def split: if_splits)
    qed
  qed (use a in \<open>simp add: attach_remote_def ssh_or_def\<close>)
  have complete: "attach_remote C (print_remote h) = Inr (Some h)" if ok: "remote_ok h" "connects C h"
  proof (cases h)
    case (DirRemote p)
    then show ?thesis using ok scheme_split [of "''dir''" p]
      by (simp add: attach_remote_def ssh_or_def not_ssh is_s3_url_def starts_with_def parse_def invalid_remote_def)
  next
    case (GrpcRemote e)
    then show ?thesis using ok scheme_split [of "''grpc''" e]
      by (simp add: attach_remote_def ssh_or_def not_ssh is_s3_url_def starts_with_def parse_def invalid_remote_def handle_of_def)
  next
    case (SshRemote u ho p)
    then show ?thesis using ok ssh_print [of u ho p]
      by (simp add: attach_remote_def ssh_or_def establish_ssh_remote_def handle_of_def)
  next
    case (S3Remote b p)
    then show ?thesis using ok s3_print [of b p]
      by (simp add: attach_remote_def ssh_or_def not_ssh is_s3_url_def starts_with_def establish_s3_remote_def trim_end_matches_same)
  qed
  have "url = []" if a: "attach_remote C url = Inr None"
    using a by (auto simp: attach_remote_def ssh_or_def establish_ssh_remote_def establish_s3_remote_def invalid_remote_def handle_of_def parse_def map_sum_Inr_iff
      split: sum.splits option.splits if_splits prod.splits)
  moreover have "attach_remote C [] = Inr None"
    by (simp add: attach_remote_def ssh_or_def not_ssh is_s3_url_def starts_with_def parse_def invalid_remote_def)
  ultimately show ?thesis using sound complete by blast
qed

end
