(* ===== verification/Service_Clone.thy ===== *)
theory Service_Clone
  imports Service_Sync Remote_Url
begin

text \<open>
  The \<^verbatim>\<open>clone\<close> request of \<^verbatim>\<open>src/daemon/src/service.rs\<close>: a new repository with its default workspace. Opening the git
  store is a parameter that gives its place among the stores; the bytes a remote serves are one too. The
  best-effort seeding of git remotes and of the git worktree is left out.
\<close>

section \<open>The request\<close>

definition repo_name_for :: "string \<Rightarrow> string \<Rightarrow> status + string" where
  "repo_name_for url name =
     (case (if name = [] then derive_repo_name url else Some name) of
        None \<Rightarrow> Inl (Status InvalidArgument (''cannot derive repo name from URL '' @ url @ ''; pass --name explicitly''))
      | Some n \<Rightarrow> (case validate_name n of Inl _ \<Rightarrow> Inl (Status InvalidArgument ''invalid repo name'') | Inr _ \<Rightarrow> Inr n))"

text \<open>Everything after the store and the remote are there.\<close>

definition clone_repo :: "string \<Rightarrow> string \<Rightarrow> string \<Rightarrow> nat \<Rightarrow> get_blob option \<Rightarrow> ('g, string) svc" where
  "clone_repo dir name url a rem =
     seq (on_root (\<lambda>_. not_configured) (modifies (register_repo name url a rem))) (\<lambda>_.
     seq (on_root (\<lambda>_. not_configured) alloc_slot) (\<lambda>sl.
     seq (store_empty_tree a) (\<lambda>empty_tree.
     seq (create_workspace_files dir name ''default'' (new_config Active sl empty_tree)) (\<lambda>_.
     seq (on_root (\<lambda>_. Status Internal ''registering workspace'') (register_workspace name ''default'' (new_entry_of Active sl empty_tree))) (\<lambda>_.
     seq (update_repos_toml dir (\<lambda>rf cfg. cfg\<lparr>rc_repos := bt_insert name url (rc_repos cfg), rc_next_slot := next_slot rf\<rparr>)) (\<lambda>_.
     (\<lambda>sv. of_sum (workspace_path sv name ''default'') sv)))))))"

definition svc_clone :: "connector \<Rightarrow> (remote_handle \<Rightarrow> get_blob) \<Rightarrow> (string \<Rightarrow> string + nat) \<Rightarrow> string \<Rightarrow> string \<Rightarrow> ('g, string) svc" where
  "svc_clone C serve open_store url name =
     seq require_mount_active (\<lambda>_.
     seq require_root_fs (\<lambda>_.
     seq (of_sum (repo_name_for url name)) (\<lambda>n.
     seq (ask_root (\<lambda>rf. repo_store rf n)) (\<lambda>st.
     if st \<noteq> None then throw (Status AlreadyExistsCode (''repo '' @ n @ '' already registered''))
     else seq (storage_root ''Clone'') (\<lambda>dir.
          seq (of_sum (map_sum (\<lambda>e. Status Internal (''opening repo store: '' @ e)) (\<lambda>a. a) (open_store n))) (\<lambda>a.
          seq (of_sum (clone_remote C url)) (\<lambda>rem.
          clone_repo dir n url a (map_option serve rem))))))))"

section \<open>The invariant\<close>

text \<open>There is room for the directory inode of another repository.\<close>

definition repo_room :: "'g service \<Rightarrow> bool" where
  "repo_room sv \<longleftrightarrow> (\<forall>rf. sv_root_fs sv = Some rf \<longrightarrow> unat (next_synthetic rf) < 2 ^ 40 - 1)"

lemma of_sum_Ok: "of_sum r sv = (Ok x, sv') \<Longrightarrow> sv' = sv \<and> r = Inr x"
  by (auto simp: of_sum_def split: sum.splits)

lemma store_empty_tree_Ok:
  "store_empty_tree a sv = (Ok t, sv') \<Longrightarrow> sv' = sv \<and> (\<exists>rf st. sv_root_fs sv = Some rf \<and> stores rf a = Some st \<and> t = jj_empty_tree_id (glib st))"
  by (auto simp: store_empty_tree_def split: option.splits)

lemma svc_clone_Ok:
  assumes "svc_clone C serve open_store url name sv = (Ok p, sv')"
  shows "\<exists>n dir a rem rf. repo_name_for url name = Inr n \<and> sv_root_fs sv = Some rf \<and> repo_store rf n = None \<and> sv_storage sv = OnDisk dir \<and>
    open_store n = Inr a \<and> clone_remote C url = Inr rem \<and> clone_repo dir n url a (map_option serve rem) sv = (Ok p, sv')"
proof -
  have mount: "sv'' = sv" if "require_mount_active sv = (Ok u, sv'')" for u sv''
    using that by (auto simp: require_mount_active_def split: if_splits)
  have root: "sv'' = sv" if "require_root_fs sv = (Ok u, sv'')" for u sv''
    using that by (auto simp: require_root_fs_def split: option.splits)
  show ?thesis using assms unfolding svc_clone_def
    by (auto elim!: seq_Ok_E dest!: mount root of_sum_Ok ask_root_Ok storage_root_Ok simp: throw_def map_sum_Inr_iff split: if_splits)
qed

lemma register_repo_frame:
  assumes "map_of (repos rf) n = None" and "rf' = register_repo n url a rem rf"
  shows "\<exists>e. repos rf' = bt_insert n e (repos rf) \<and> re_workspaces e = [] \<and> re_remote e = rem \<and> re_url e = url \<and> re_store e = a"
    and "next_slot rf' = next_slot rf" and "root_toml rf' = root_toml rf" and "storage_dir rf' = storage_dir rf"
    and "stores rf' = stores rf" and "root_host rf' = root_host rf"
  using assms by (auto simp: register_repo_def Let_def add_child_frame
    intro!: exI [of _ "\<lparr>re_url = url, re_inode = next_synthetic rf, re_store = a, re_remote = rem, re_workspaces = []\<rparr>"])

lemma register_ws_remote:
  assumes "bt_wf (repos rf)" and "map_of (repos rf) r = Some re" and "register_workspace r w we rf = (Ok (), rf')"
  shows "\<exists>re'. map_of (repos rf') r = Some re' \<and> re_remote re' = re_remote re \<and> re_url re' = re_url re"
  using assms by (auto simp: register_workspace_def get_repo_seq modifies_def throw_def Let_def add_child_frame update_repo_def split: if_splits)

lemma clone_repo_spec:
  assumes I: "svc_inv sv" and rf: "sv_root_fs sv = Some rf" and new: "repo_store rf n = None" and n: "component n"
    and room: "slot_room sv" "repo_room sv" and run: "clone_repo (storage_dir rf) n url a rem sv = (Ok p, sv')"
  obtains sv3 rf' st re where "svc_inv sv3" and "sv_root_fs sv3 = Some rf'" and "stores rf a = Some st" and "sv_toml sv3 = sv_toml sv"
    and "storage_dir rf' = storage_dir rf" and "next_slot rf' = next_slot rf + 1"
    and "\<And>q x. find_ws rf' q x = (if q = n \<and> x = ''default'' then Some (new_entry_of Active (next_slot rf) (jj_empty_tree_id (glib st))) else find_ws rf q x)"
    and "map_of (repos rf') n = Some re" and "re_remote re = rem" and "re_url re = url"
    and "update_repos_toml (storage_dir rf) (\<lambda>rf cfg. cfg\<lparr>rc_repos := bt_insert n url (rc_repos cfg), rc_next_slot := next_slot rf\<rparr>) sv3 = (Ok (), sv')"
proof -
  obtain u0 sv0 sl sv1 tree sv1' sv2 sv3 where 0: "on_root (\<lambda>_. not_configured) (modifies (register_repo n url a rem)) sv = (Ok u0, sv0)"
    and 1: "on_root (\<lambda>_. not_configured) alloc_slot sv0 = (Ok sl, sv1)" and t: "store_empty_tree a sv1 = (Ok tree, sv1')"
    and 2: "create_workspace_files (storage_dir rf) n ''default'' (new_config Active sl tree) sv1' = (Ok (), sv2)"
    and 3: "on_root (\<lambda>_. Status Internal ''registering workspace'') (register_workspace n ''default'' (new_entry_of Active sl tree)) sv2 = (Ok (), sv3)"
    and 4: "update_repos_toml (storage_dir rf) (\<lambda>rf cfg. cfg\<lparr>rc_repos := bt_insert n url (rc_repos cfg), rc_next_slot := next_slot rf\<rparr>) sv3 = (Ok (), sv')"
    using run unfolding clone_repo_def by (elim seq_Ok_E) (auto dest!: of_sum_Ok intro: that)
  define rf0 where "rf0 = register_repo n url a rem (rf\<lparr>root_host := sv_host sv\<rparr>)"
  have sv0: "sv0 = sv\<lparr>sv_root_fs := Some rf0, sv_host := root_host rf0\<rparr>" using 0 rf by (auto elim!: on_root_Ok simp: modifies_def rf0_def)
  have none: "map_of (repos (rf\<lparr>root_host := sv_host sv\<rparr>)) n = None" using new by (simp add: repo_store_def split: option.splits)
  note fr = register_repo_frame [OF none rf0_def]
  obtain e where e: "repos rf0 = bt_insert n e (repos rf)" "re_workspaces e = []" "re_remote e = rem" "re_url e = url" using fr(1) by auto
  have sv1: "\<exists>rf1. sv_root_fs sv1 = Some rf1 \<and> stores rf1 = stores rf" using 1 fr(5) by (auto elim!: on_root_Ok dest!: alloc_slot_Ok simp: sv0)
  obtain st where st: "stores rf a = Some st" "tree = jj_empty_tree_id (glib st)" and sv1': "sv1' = sv1"
    using store_empty_tree_Ok [OF t] sv1 by auto
  note rok = svc_inv_root_ok [OF I rf]
  have ok: "svc_ok sv" "synced sv" using I by (simp_all add: svc_inv_def)
  have wf: "bt_wf (repos rf)" using root_okD(1) [OF rok] ns_okD(1) by (auto simp: root_inv_def)
  have f0: "find_ws rf0 q x = find_ws rf q x" for q x using e wf none by (auto simp: find_ws_def)
  have I0: "svc_inv sv0" unfolding sv0 fr(6)
  proof (rule svc_inv_root [OF ok(1) rf])
    show "host_ok (root_host (rf\<lparr>root_host := sv_host sv\<rparr>))" using svc_okD(1) [OF ok(1)] by simp
    show "root_inv rf0" unfolding rf0_def
      by (rule root_inv_register_repo [OF root_inv_of(1) [OF I rf]]) (use st(1) room(2) rf in \<open>simp_all add: repo_room_def\<close>)
    show "0 < next_slot rf0" "root_toml rf0 = root_toml rf" "storage_dir rf0 = storage_dir rf" using fr root_okD(2) [OF rok] by simp_all
    show "component r" if "map_of (repos rf0) r = Some re" for r re
      using that e(1) wf n root_okD(5) [OF rok] by (auto split: if_splits)
    show "component w" if "find_ws rf0 r w = Some we" for r w we using that f0 root_okD(6) [OF rok] by simp
    show "on_disk (sv_toml sv) (root_host (rf\<lparr>root_host := sv_host sv\<rparr>)) (workspace_config_path (storage_dir rf) r w) = Some (entry_config we)"
      if "find_ws rf0 r w = Some we" for r w we using that f0 syncedD [OF ok(2) rf] by simp
  qed
  have rf0: "sv_root_fs sv0 = Some rf0" by (simp add: sv0)
  have r0: "unat (next_slot rf0) < 2 ^ 24" using room(1) rf fr(2) by (simp add: slot_room_def)
  have cw: "component ''default''" by (simp add: component_def)
  have files: "create_workspace_files (storage_dir rf0) n ''default'' (new_config Active sl tree) sv1 = (Ok (), sv2)" using 2 fr(4) sv1' by simp
  from register_new_ws [OF I0 rf0 r0 cw 1 files 3] obtain rf' where I3: "svc_inv sv3" and rf': "sv_root_fs sv3 = Some rf'" "next_slot rf' = next_slot rf + 1"
      "storage_dir rf' = storage_dir rf" "sv_toml sv3 = sv_toml sv"
    and f: "\<And>q x. find_ws rf' q x = (if q = n \<and> x = ''default'' then Some (new_entry_of Active (next_slot rf) tree) else find_ws rf q x)"
    using fr(2,4) f0 by (auto simp: sv0)
  have "\<exists>re. map_of (repos rf') n = Some re \<and> re_remote re = rem \<and> re_url re = url"
  proof -
    obtain rf1 where rf1: "sv_root_fs sv1 = Some rf1" "repos rf1 = repos rf0" using 1 by (auto elim!: on_root_Ok dest!: alloc_slot_Ok simp: sv0)
    have "sv_root_fs sv2 = sv_root_fs sv1"
      using files by (auto simp: create_workspace_files_def on_host_def elim!: seq_Ok_E split: prod.splits sum.splits)
    then have "register_workspace n ''default'' (new_entry_of Active sl tree) (rf1\<lparr>root_host := sv_host sv2\<rparr>) = (Ok (), rf')"
      using 3 rf' rf1 by (auto elim!: on_root_Ok)
    from register_ws_remote [OF _ _ this] show ?thesis using rf1(2) e wf by simp
  qed
  then show ?thesis using that I3 rf' st f 4 by blast
qed

lemma repo_name_component: "repo_name_for url name = Inr n \<Longrightarrow> component n"
  by (auto simp: repo_name_for_def dest: validate_name_component split: option.splits sum.splits if_splits)

lemma svc_clone_spec:
  assumes I: "svc_inv sv" and room: "slot_room sv" "repo_room sv" and run: "svc_clone C serve open_store url name sv = (Ok p, sv')"
  obtains n a rem rf sv3 rf' st re where "repo_name_for url name = Inr n" and "component n" and "open_store n = Inr a" and "clone_remote C url = Inr rem"
    and "sv_root_fs sv = Some rf" and "stores rf a = Some st"
    and "svc_inv sv3" and "sv_root_fs sv3 = Some rf'" and "sv_toml sv3 = sv_toml sv" and "storage_dir rf' = storage_dir rf" and "next_slot rf' = next_slot rf + 1"
    and "\<And>q x. find_ws rf' q x = (if q = n \<and> x = ''default'' then Some (new_entry_of Active (next_slot rf) (jj_empty_tree_id (glib st))) else find_ws rf q x)"
    and "map_of (repos rf') n = Some re" and "re_remote re = map_option serve rem" and "re_url re = url"
    and "update_repos_toml (storage_dir rf) (\<lambda>rf cfg. cfg\<lparr>rc_repos := bt_insert n url (rc_repos cfg), rc_next_slot := next_slot rf\<rparr>) sv3 = (Ok (), sv')"
proof -
  obtain n dir a rem rf where c: "repo_name_for url name = Inr n" "sv_root_fs sv = Some rf" "repo_store rf n = None" "sv_storage sv = OnDisk dir"
      "open_store n = Inr a" "clone_remote C url = Inr rem" "clone_repo dir n url a (map_option serve rem) sv = (Ok p, sv')"
    using svc_clone_Ok [OF run] by blast
  have "dir = storage_dir rf" using c(4) root_okD(4) [OF svc_inv_root_ok [OF I c(2)]] by simp
  note run = c(7) [unfolded this]
  show ?thesis
    by (rule clone_repo_spec [OF I c(2,3) repo_name_component [OF c(1)] room run]) (rule that [OF c(1) repo_name_component [OF c(1)] c(5,6,2)])
qed

lemma svc_clone_inv:
  assumes "svc_inv sv" and "slot_room sv" "repo_room sv" and "svc_clone C serve open_store url name sv = (Ok p, sv')"
  shows "svc_inv sv'"
  by (rule svc_clone_spec [OF assms]) (rule keepsD [OF keeps_update_repos_toml])

end
