(* ===== verification/Push.thy ===== *)
theory Push
  imports Git_Model Fs_Remote
begin

text \<open>
  The push that follows a snapshot (\<^verbatim>\<open>push_reachable_blobs\<close> and \<^verbatim>\<open>push_git_object_if_missing\<close> of
  \<^verbatim>\<open>src/daemon/src/service.rs\<close>): a walk from the root tree with a stack and a set of visited trees that puts
  every object the remote lacks, fetching trees that were never read locally. The state is the pair of
  the remote and the local store. The loop is a partial function, so that not returning is the value
  \<open>None\<close>; it is shown to return.
\<close>

section \<open>The walk\<close>

type_synonym ('s, 'g, 'a) push_io = "('s \<times> 'g git_store, string, 'a) io"

definition push_git_object_if_missing :: "'s remote_ops \<Rightarrow> BlobKind \<Rightarrow> bytes \<Rightarrow> ('s, 'g, unit) push_io" where
  "push_git_object_if_missing R kind i = (\<lambda>(s, st).
     case rm_has_blob R kind i s of
       Inl e \<Rightarrow> (Inl e, s, st)
     | Inr found \<Rightarrow>
         if found then (Inr (), s, st)
         else (case read_git_object_bytes st i of
             Inl e \<Rightarrow> (Inl e, s, st)
           | Inr None \<Rightarrow> (Inl (''local store missing '' @ as_str kind @ '' '' @ hex_encode i @ '' during push walk''), s, st)
           | Inr (Some (_, data)) \<Rightarrow> (case rm_put_blob R kind i data s of (r, s') \<Rightarrow> (r, s', st))))"

definition tree_entries :: "'s remote_ops \<Rightarrow> bytes \<Rightarrow> ('s, 'g, GitTreeEntry list) push_io" where
  "tree_entries R t = (\<lambda>(s, st).
     case git_read_tree st t of
       Inl e \<Rightarrow> (Inl e, s, st)
     | Inr (Some es) \<Rightarrow> (Inr es, s, st)
     | Inr None \<Rightarrow>
         (case fetch_tree (\<lambda>k i. rm_get_blob R k i s) t st of
            (Inl _, st') \<Rightarrow> (Inl (''tree '' @ hex_encode t @ '' missing locally and remote fetch failed''), s, st')
          | (Inr es, st') \<Rightarrow> (Inr es, s, st')))"

fun push_entries :: "'s remote_ops \<Rightarrow> GitTreeEntry list \<Rightarrow> bytes list \<Rightarrow> ('s, 'g, bytes list) push_io" where
  "push_entries R [] stack = io_ret stack"
| "push_entries R (e # es) stack =
     (case ekind e of
        ETree \<Rightarrow> push_entries R es (eid e # stack)
      | EFile _ \<Rightarrow> io_seq (push_git_object_if_missing R KBlob (eid e)) (\<lambda>_. push_entries R es stack)
      | ESymlink \<Rightarrow> io_seq (push_git_object_if_missing R KBlob (eid e)) (\<lambda>_. push_entries R es stack)
      | ESubmodule \<Rightarrow> push_entries R es stack)"

definition push_tree :: "'s remote_ops \<Rightarrow> bytes \<Rightarrow> bytes list \<Rightarrow> ('s, 'g, bytes list) push_io" where
  "push_tree R t stack =
     io_seq (push_git_object_if_missing R KTree t) (\<lambda>_. io_seq (tree_entries R t) (\<lambda>es. push_entries R es stack))"

partial_function (option) push_loop ::
  "'s remote_ops \<Rightarrow> bytes list \<Rightarrow> bytes list \<Rightarrow> 's \<times> 'g git_store \<Rightarrow> ((string + unit) \<times> 's \<times> 'g git_store) option" where
  "push_loop R seen_trees tree_stack x =
     (case tree_stack of
        [] \<Rightarrow> Some (Inr (), x)
      | t # rest \<Rightarrow>
          if t \<in> set seen_trees then push_loop R seen_trees rest x
          else (case push_tree R t rest x of
              (Inl e, x') \<Rightarrow> Some (Inl e, x')
            | (Inr stack, x') \<Rightarrow> push_loop R (t # seen_trees) stack x'))"

definition push_reachable_blobs ::
  "'s remote_ops \<Rightarrow> bytes \<Rightarrow> 's \<times> 'g git_store \<Rightarrow> ((string + unit) \<times> 's \<times> 'g git_store) option" where
  "push_reachable_blobs R root_tree_id x = push_loop R [] [root_tree_id] x"

section \<open>What is reachable\<close>

inductive reachable :: "'g git_store \<Rightarrow> bytes \<Rightarrow> BlobKind \<Rightarrow> bytes \<Rightarrow> bool" for st root where
  reach_root: "reachable st root KTree root"
| reach_tree: "reachable st root KTree t \<Longrightarrow> git_read_tree st t = Inr (Some es) \<Longrightarrow> e \<in> set es \<Longrightarrow> ekind e = ETree \<Longrightarrow>
     reachable st root KTree (eid e)"
| reach_file: "reachable st root KTree t \<Longrightarrow> git_read_tree st t = Inr (Some es) \<Longrightarrow> e \<in> set es \<Longrightarrow> ekind e \<in> {EFile x, ESymlink} \<Longrightarrow>
     reachable st root KBlob (eid e)"

section \<open>The walk returns\<close>

lemma push_object_store: "push_git_object_if_missing R k i (s, st) = (r, s', st') \<Longrightarrow> st' = st"
  by (auto simp: push_git_object_if_missing_def split: sum.splits option.splits if_splits prod.splits)

lemma tree_entries_spec:
  assumes "git_laws (glib st)" and "tree_entries R t (s, st) = (r, s', st')"
  shows "s' = s \<and> store_extends st st' \<and> (\<forall>es. r = Inr es \<longrightarrow> git_read_tree st' t = Inr (Some es))"
  using assms fetch_extends(3) [OF assms(1), of "\<lambda>k i. rm_get_blob R k i s" t] fetch_tree_spec [OF assms(1)]
  by (auto simp: tree_entries_def split: sum.splits option.splits prod.splits)

lemma push_entries_store:
  "push_entries R es stack (s, st) = (r, s', st') \<Longrightarrow>
   st' = st \<and> (\<forall>stk. r = Inr stk \<longrightarrow> set stk = set stack \<union> {eid e | e. e \<in> set es \<and> ekind e = ETree})"
proof (induction es arbitrary: stack s)
  case (Cons e es)
  show ?case
  proof (cases "ekind e")
    case ETree
    then show ?thesis using Cons by (fastforce simp: ETree)
  next
    case ESubmodule
    then show ?thesis using Cons by fastforce
  next
    case (EFile x)
    obtain q s1 st1 where p: "push_git_object_if_missing R KBlob (eid e) (s, st) = (q, s1, st1)" by (metis prod_cases3)
    then show ?thesis using Cons push_object_store [OF p] EFile by (cases q) (fastforce simp: io_seq_def)+
  next
    case ESymlink
    obtain q s1 st1 where p: "push_git_object_if_missing R KBlob (eid e) (s, st) = (q, s1, st1)" by (metis prod_cases3)
    then show ?thesis using Cons push_object_store [OF p] ESymlink by (cases q) (fastforce simp: io_seq_def)+
  qed
qed (auto simp: io_ret_def)

lemma push_tree_store:
  assumes "git_laws (glib st)" and "push_tree R t stack (s, st) = (r, s', st')"
  shows "store_extends st st' \<and>
    (\<forall>stk. r = Inr stk \<longrightarrow> (\<exists>es. git_read_tree st' t = Inr (Some es) \<and> set stk = set stack \<union> {eid e | e. e \<in> set es \<and> ekind e = ETree}))"
proof -
  obtain q s1 st1 where p: "push_git_object_if_missing R KTree t (s, st) = (q, s1, st1)" by (metis prod_cases3)
  have "st1 = st" by (rule push_object_store [OF p])
  obtain q2 s2 st2 where e: "tree_entries R t (s1, st) = (q2, s2, st2)" by (metis prod_cases3)
  note te = tree_entries_spec [OF assms(1) e]
  show ?thesis
  proof (cases q)
    case (Inl x)
    then show ?thesis using assms(2) p \<open>st1 = st\<close> by (auto simp: push_tree_def io_seq_def)
  next
    case (Inr u)
    show ?thesis
    proof (cases q2)
      case (Inl x)
      then show ?thesis using assms(2) p \<open>st1 = st\<close> Inr e te by (auto simp: push_tree_def io_seq_def)
    next
      case (Inr es)
      then have "push_entries R es stack (s2, st2) = (r, s', st')"
        using assms(2) p \<open>st1 = st\<close> \<open>q = Inr u\<close> e by (simp add: push_tree_def io_seq_def)
      from push_entries_store [OF this] show ?thesis using te Inr by auto
    qed
  qed
qed

lemma ids_finite: "finite {i :: bytes. length i = 20}"
  using finite_lists_length_eq [of "UNIV :: char set" 20] by simp

lemmas walk_induct = wf_induct_rule [OF wf_lex_prod [OF wf_less_than wf_less_than]]

definition unseen :: "bytes list \<Rightarrow> nat" where
  "unseen seen = card ({i. length i = 20} - set seen)"

lemma unseen_less: "t \<notin> set seen \<Longrightarrow> length t = 20 \<Longrightarrow> unseen (t # seen) < unseen seen"
  unfolding unseen_def by (intro psubset_card_mono) (auto simp: ids_finite)

lemma push_tree_ids:
  assumes laws: "git_laws (glib st)" and "push_tree R t rest (s, st) = (Inr stk, s', st')" and "\<forall>t \<in> set rest. length t = 20"
  shows "git_laws (glib st') \<and> (\<forall>t \<in> set stk. length t = 20)"
proof -
  note st = push_tree_store [OF laws assms(2)]
  then have laws': "git_laws (glib st')" using laws by (simp add: store_extends_def)
  then show ?thesis using st assms(3) git_read_tree_ids [OF laws'] by blast
qed

lemma push_loop_returns:
  assumes "git_laws (glib (snd x))" and "\<forall>t \<in> set stack. length t = 20"
  shows "\<exists>y. push_loop R seen stack x = Some y \<and> store_extends (snd x) (snd (snd y))"
  using assms
proof (induction "(unseen seen, length stack)" arbitrary: seen stack x rule: walk_induct)
  case 1
  note IH = 1(1) and laws = 1(2) and ids = 1(3)
  show ?case
  proof (cases stack)
    case Nil
    then show ?thesis by (simp add: push_loop.simps)
  next
    case (Cons t rest)
    obtain s st where x: "x = (s, st)" by (cases x)
    show ?thesis
    proof (cases "t \<in> set seen")
      case True
      then have "\<exists>y. push_loop R seen rest x = Some y \<and> store_extends (snd x) (snd (snd y))" using IH laws ids Cons by auto
      then show ?thesis using True Cons by (simp add: push_loop.simps [of R seen "t # rest"])
    next
      case False
      obtain r s' st' where r: "push_tree R t rest (s, st) = (r, s', st')" by (metis prod_cases3)
      have ext: "store_extends st st'" using push_tree_store [of st R t rest s r s' st'] laws r x by simp
      have "\<exists>y. push_loop R (t # seen) stk (s', st') = Some y \<and> store_extends st' (snd (snd y))" if "r = Inr stk" for stk
        using IH [of "t # seen" stk "(s', st')"] unseen_less [OF False] push_tree_ids [of st R t rest s stk s' st'] laws ids Cons x r that by auto
      then show ?thesis using False Cons r x ext store_extends_trans [OF ext]
        by (cases r) (auto simp: push_loop.simps [of R seen "t # rest"])
    qed
  qed
qed

section \<open>What the walk leaves on the remote\<close>

definition push_grows :: "('s \<Rightarrow> BlobKind \<Rightarrow> bytes \<Rightarrow> bytes option) \<Rightarrow> ('s \<Rightarrow> bool) \<Rightarrow> 's \<times> 'g git_store \<Rightarrow> 's \<times> 'g git_store \<Rightarrow> bool" where
  "push_grows blobs ok x x' \<longleftrightarrow> ok (fst x') \<and> store_extends (snd x) (snd x') \<and>
     (\<forall>k j. length j = 20 \<longrightarrow> blobs (fst x) k j \<noteq> None \<longrightarrow> blobs (fst x') k j \<noteq> None)"

text \<open>
  What happened to the remote since the state \<open>s0\<close>: what was there is unchanged, and what is new has the bytes of
  the local store, where that has them.
\<close>

definition filled :: "('s \<Rightarrow> BlobKind \<Rightarrow> bytes \<Rightarrow> bytes option) \<Rightarrow> 'g git_store \<Rightarrow> 's \<Rightarrow> 's \<Rightarrow> bool" where
  "filled blobs st s0 s \<longleftrightarrow> (\<forall>k i. length i = 20 \<longrightarrow> (blobs s0 k i \<noteq> None \<longrightarrow> blobs s k i = blobs s0 k i) \<and>
     (\<forall>b gk b'. blobs s0 k i = None \<longrightarrow> blobs s k i = Some b \<longrightarrow> read_git_object_bytes st i = Inr (Some (gk, b')) \<longrightarrow> b' = b))"

lemma filled_refl: "filled blobs st s s"
  by (simp add: filled_def)

lemma read_object_extends:
  "store_extends st st' \<Longrightarrow> read_git_object_bytes st i = Inr (Some ob) \<Longrightarrow> read_git_object_bytes st' i = Inr (Some ob)"
  by (cases ob) (fastforce simp: read_git_object_bytes_def store_extends_def db_extends_def split: if_splits sum.splits)

lemma push_grows_trans: "push_grows B I a b \<Longrightarrow> push_grows B I b c \<Longrightarrow> push_grows B I a c"
  unfolding push_grows_def using store_extends_trans by blast

text \<open>The trees walked so far: on the remote, readable, with their files on the remote and their subtrees walked or waiting.\<close>

definition walked :: "('s \<Rightarrow> BlobKind \<Rightarrow> bytes \<Rightarrow> bytes option) \<Rightarrow> bytes set \<Rightarrow> bytes set \<Rightarrow> 's \<times> 'g git_store \<Rightarrow> bool" where
  "walked blobs visited waiting x \<longleftrightarrow> (\<forall>t \<in> visited. length t = 20 \<and> blobs (fst x) KTree t \<noteq> None \<and>
     (\<exists>es. git_read_tree (snd x) t = Inr (Some es) \<and> (\<forall>e \<in> set es. length (eid e) = 20 \<and>
        (ekind e = ETree \<longrightarrow> eid e \<in> visited \<union> waiting) \<and>
        (ekind e \<noteq> ETree \<and> ekind e \<noteq> ESubmodule \<longrightarrow> blobs (fst x) KBlob (eid e) \<noteq> None))))"

lemma walked_grows:
  assumes "walked B D W x" and "push_grows B I x x'" and "D \<union> W \<subseteq> D \<union> W'"
  shows "walked B D W' x'"
  unfolding walked_def
proof
  fix t assume "t \<in> D"
  then obtain es where es: "length t = 20" "B (fst x) KTree t \<noteq> None" "git_read_tree (snd x) t = Inr (Some es)"
      "\<forall>e \<in> set es. length (eid e) = 20 \<and> (ekind e = ETree \<longrightarrow> eid e \<in> D \<union> W) \<and>
        (ekind e \<noteq> ETree \<and> ekind e \<noteq> ESubmodule \<longrightarrow> B (fst x) KBlob (eid e) \<noteq> None)"
    using assms(1) unfolding walked_def by blast
  have "git_read_tree (snd x') t = Inr (Some es)" using es(3) assms(2) git_read_tree_extends unfolding push_grows_def by blast
  then show "length t = 20 \<and> B (fst x') KTree t \<noteq> None \<and>
     (\<exists>es. git_read_tree (snd x') t = Inr (Some es) \<and> (\<forall>e \<in> set es. length (eid e) = 20 \<and>
        (ekind e = ETree \<longrightarrow> eid e \<in> D \<union> W') \<and> (ekind e \<noteq> ETree \<and> ekind e \<noteq> ESubmodule \<longrightarrow> B (fst x') KBlob (eid e) \<noteq> None)))"
    using es assms(2,3) unfolding push_grows_def by blast
qed

lemma walked_insert:
  assumes "walked B D (insert t W) x" and "walked B {t} W x"
  shows "walked B (insert t D) W x"
proof -
  have mono: "walked B D' W' x \<Longrightarrow> D' \<subseteq> E \<Longrightarrow> D' \<union> W' \<subseteq> E \<union> W \<Longrightarrow> d \<in> D' \<Longrightarrow>
     length d = 20 \<and> B (fst x) KTree d \<noteq> None \<and> (\<exists>es. git_read_tree (snd x) d = Inr (Some es) \<and> (\<forall>e \<in> set es. length (eid e) = 20 \<and>
        (ekind e = ETree \<longrightarrow> eid e \<in> E \<union> W) \<and> (ekind e \<noteq> ETree \<and> ekind e \<noteq> ESubmodule \<longrightarrow> B (fst x) KBlob (eid e) \<noteq> None)))" for D' W' E d
    unfolding walked_def by blast
  show ?thesis using mono [OF assms(1), of "insert t D"] mono [OF assms(2), of "insert t D"]
    unfolding walked_def [of B "insert t D" W x] by blast
qed

lemma walked_reachable:
  assumes "walked B D {} x" and "root \<in> D" and "reachable (snd x) root k i"
  shows "B (fst x) k i \<noteq> None \<and> (k = KTree \<longrightarrow> i \<in> D)"
  using assms(3)
proof induction
  case reach_root
  then show ?case using assms(1,2) unfolding walked_def by blast
next
  case (reach_tree t es e)
  then have "eid e \<in> D" using assms(1) unfolding walked_def by fastforce
  then show ?case using assms(1) unfolding walked_def by blast
next
  case (reach_file t es e x)
  then show ?case using assms(1) unfolding walked_def by fastforce
qed

context blob_remote
begin

lemma push_object:
  assumes ids: "\<And>j. length j = 20 \<Longrightarrow> ok_id j" and inv: "inv s" and i: "length i = 20"
    and ext: "store_extends st0 st" and run: "push_git_object_if_missing R k i (s, st) = (r, x')"
  shows "push_grows blobs inv (s, st) x' \<and> snd x' = st \<and> (r = Inr () \<longrightarrow> blobs (fst x') k i \<noteq> None) \<and>
    (filled blobs st0 s0 s \<longrightarrow> filled blobs st0 s0 (fst x'))"
proof -
  have oki: "ok_id i" by (rule ids [OF i])
  consider (same) "x' = (s, st)" "r = Inr () \<longrightarrow> blobs s k i \<noteq> None"
    | (put) gk data s' where "blobs s k i = None" "read_git_object_bytes st i = Inr (Some (gk, data))"
        "rm_put_blob R k i data s = (r, s')" "x' = (s', st)"
    using run has_sound [OF inv oki, of k]
    by (auto simp: push_git_object_if_missing_def split: sum.splits option.splits if_splits prod.splits)
  then show ?thesis
  proof cases
    case same
    then show ?thesis using inv by (simp add: push_grows_def)
  next
    case put
    have inv': "inv s'" using put_inv [OF inv oki, of k data] put(3) by simp
    have keep: "blobs s' k' j \<noteq> None" if "length j = 20" "blobs s k' j \<noteq> None" for k' j
      using put_keeps [OF inv oki ids [OF that(1)] that(2), of k data] put(3) by simp
    have frame: "blobs s' k' j = blobs s k' j" if "length j = 20" "(k', j) \<noteq> (k, i)" for k' j
      using put_frame [OF inv oki ids [OF that(1)] that(2), of data] put(3) by simp
    have new: "blobs s' k i \<in> {None, Some data} \<and> (r = Inr () \<longrightarrow> blobs s' k i = Some data)"
      using put_stored [OF inv oki, of k data _ s'] put_failed [OF inv oki, of k data _ s'] put(1,3) by (cases r) auto
    have "filled blobs st0 s0 s'" if g: "filled blobs st0 s0 s"
      unfolding filled_def
    proof (intro allI impI)
      fix k' and j :: bytes assume j: "length j = 20"
      show "(blobs s0 k' j \<noteq> None \<longrightarrow> blobs s' k' j = blobs s0 k' j) \<and>
        (\<forall>b gk b'. blobs s0 k' j = None \<longrightarrow> blobs s' k' j = Some b \<longrightarrow> read_git_object_bytes st0 j = Inr (Some (gk, b')) \<longrightarrow> b' = b)"
      proof (cases "(k', j) = (k, i)")
        case True
        have "blobs s0 k' j \<noteq> None \<longrightarrow> blobs s k' j = blobs s0 k' j" using g j unfolding filled_def by blast
        then have "blobs s0 k' j = None" using True put(1) by auto
        then show ?thesis using True new put(2) read_object_extends [OF ext] by fastforce
      next
        case False
        then show ?thesis using g j frame [OF j False] unfolding filled_def by auto
      qed
    qed
    then show ?thesis using inv' keep new put(4) by (auto simp: push_grows_def)
  qed
qed

lemma push_entries_spec:
  assumes ids: "\<And>j. length j = 20 \<Longrightarrow> ok_id j"
  shows "inv s \<Longrightarrow> \<forall>e \<in> set es. length (eid e) = 20 \<Longrightarrow> store_extends st0 st \<Longrightarrow> push_entries R es stack (s, st) = (r, x') \<Longrightarrow>
    push_grows blobs inv (s, st) x' \<and> (filled blobs st0 s0 s \<longrightarrow> filled blobs st0 s0 (fst x')) \<and>
    (\<forall>stk. r = Inr stk \<longrightarrow> (\<forall>e \<in> set es. ekind e \<noteq> ETree \<and> ekind e \<noteq> ESubmodule \<longrightarrow> blobs (fst x') KBlob (eid e) \<noteq> None))"
proof (induction es arbitrary: stack s)
  case Nil
  then show ?case by (auto simp: io_ret_def push_grows_def)
next
  case (Cons e es)
  have blob: ?case if k: "ekind e \<noteq> ETree" "ekind e \<noteq> ESubmodule"
  proof -
    obtain q x1 where p: "push_git_object_if_missing R KBlob (eid e) (s, st) = (q, x1)" by (rule prod.exhaust)
    note po = push_object [OF ids Cons.prems(1) _ Cons.prems(3) p]
    have run: "io_seq (push_git_object_if_missing R KBlob (eid e)) (\<lambda>_. push_entries R es stack) (s, st) = (r, x')"
      using Cons.prems(4) k by (cases "ekind e") simp_all
    show ?thesis
    proof (cases q)
      case (Inl err)
      then show ?thesis using run p po Cons.prems(2) by (auto simp: io_seq_def)
    next
      case (Inr u)
      have po': "push_grows blobs inv (s, st) x1" "snd x1 = st" "blobs (fst x1) KBlob (eid e) \<noteq> None" "filled blobs st0 s0 s \<longrightarrow> filled blobs st0 s0 (fst x1)"
        using po Inr Cons.prems(2) by auto
      obtain s1 where x1: "x1 = (s1, st)" using po'(2) by (cases x1) simp
      have "push_entries R es stack (s1, st) = (r, x')" using run p Inr x1 by (simp add: io_seq_def)
      then have rest: "push_grows blobs inv (s1, st) x'" "filled blobs st0 s0 s1 \<longrightarrow> filled blobs st0 s0 (fst x')"
          "\<forall>stk. r = Inr stk \<longrightarrow> (\<forall>e \<in> set es. ekind e \<noteq> ETree \<and> ekind e \<noteq> ESubmodule \<longrightarrow> blobs (fst x') KBlob (eid e) \<noteq> None)"
        using Cons.IH [of s1 stack] po'(1) Cons.prems(2,3) x1 by (auto simp: push_grows_def)
      have "blobs (fst x') KBlob (eid e) \<noteq> None" using rest(1) po'(3) Cons.prems(2) x1 unfolding push_grows_def by auto
      then show ?thesis using push_grows_trans [OF po'(1)] rest po'(4) x1 by auto
    qed
  qed
  show ?case
  proof (cases "ekind e = ETree \<or> ekind e = ESubmodule")
    case True
    then show ?thesis using Cons.IH [OF Cons.prems(1)] Cons.prems(2-4) by auto
  qed (use blob in blast)
qed

lemma push_tree_spec:
  assumes ids: "\<And>j. length j = 20 \<Longrightarrow> ok_id j" and inv: "inv s" and laws: "git_laws (glib st)" and t: "length t = 20"
    and ext: "store_extends st0 st" and run: "push_tree R t rest (s, st) = (r, x')"
  shows "push_grows blobs inv (s, st) x' \<and> (filled blobs st0 s0 s \<longrightarrow> filled blobs st0 s0 (fst x')) \<and>
    (\<forall>stk. r = Inr stk \<longrightarrow> walked blobs {t} (set stk) x' \<and> set rest \<subseteq> set stk)"
proof -
  obtain q x1 where p: "push_git_object_if_missing R KTree t (s, st) = (q, x1)" by (rule prod.exhaust)
  note po = push_object [OF ids inv t ext p]
  show ?thesis
  proof (cases q)
    case (Inl err)
    then show ?thesis using run p po by (auto simp: push_tree_def io_seq_def)
  next
    case (Inr u)
    obtain s1 where x1: "x1 = (s1, st)" using po by (cases x1) simp
    have inv1: "inv s1" using po x1 by (simp add: push_grows_def)
    obtain q2 s2 st2 where e: "tree_entries R t (s1, st) = (q2, s2, st2)" by (metis prod_cases3)
    note te = tree_entries_spec [OF laws e]
    have g2: "push_grows blobs inv (s, st) (s1, st2)" using po te x1 by (auto simp: push_grows_def)
    show ?thesis
    proof (cases q2)
      case (Inl err)
      then show ?thesis using run p po \<open>q = Inr u\<close> e te x1 g2 by (auto simp: push_tree_def io_seq_def)
    next
      case (Inr es)
      have laws2: "git_laws (glib st2)" using te laws by (simp add: store_extends_def)
      have read: "git_read_tree st2 t = Inr (Some es)" using te Inr by simp
      note len = git_read_tree_ids [OF laws2 read]
      have run2: "push_entries R es rest (s1, st2) = (r, x')"
        using run p \<open>q = Inr u\<close> x1 e Inr te by (simp add: push_tree_def io_seq_def)
      have ext2: "store_extends st0 st2" using ext te store_extends_trans by blast
      note pe = push_entries_spec [OF ids inv1 len ext2 run2]
      have st': "snd x' = st2" "\<forall>stk. r = Inr stk \<longrightarrow> set stk = set rest \<union> {eid e | e. e \<in> set es \<and> ekind e = ETree}"
        using push_entries_store [of R es rest s1 st2 r "fst x'" "snd x'"] run2 by simp_all
      have "blobs (fst x') KTree t \<noteq> None" using pe po Inr \<open>q = Inr u\<close> t x1 unfolding push_grows_def by auto
      then have "walked blobs {t} (set stk) x' \<and> set rest \<subseteq> set stk" if "r = Inr stk" for stk
        using that st' pe read len t by (auto simp: walked_def)
      then show ?thesis using push_grows_trans [OF g2] pe po x1 by auto
    qed
  qed
qed

lemma push_loop_spec:
  assumes ids: "\<And>j. length j = 20 \<Longrightarrow> ok_id j"
    and "push_loop R seen stack x = Some (Inr (), x')" "inv (fst x)" "git_laws (glib (snd x))"
      "\<forall>t \<in> set stack. length t = 20" "store_extends st0 (snd x)" "walked blobs (set seen) (set stack) x"
  shows "push_grows blobs inv x x' \<and> (filled blobs st0 s0 (fst x) \<longrightarrow> filled blobs st0 s0 (fst x')) \<and>
    (\<exists>D. set seen \<union> set stack \<subseteq> D \<and> walked blobs D {} x')"
  using assms(2-)
proof (induction "(unseen seen, length stack)" arbitrary: seen stack x rule: walk_induct)
  case 1
  note IH = 1(1) and run = 1(2) and prems = 1(3-7)
  show ?case
  proof (cases stack)
    case Nil
    then have "x' = x" using run by (simp add: push_loop.simps)
    moreover have "push_grows blobs inv x x" using prems(1) by (simp add: push_grows_def)
    moreover have "walked blobs (set seen) {} x" using prems(5) Nil by simp
    ultimately show ?thesis using Nil by auto
  next
    case (Cons t rest)
    obtain s st where x: "x = (s, st)" by (cases x)
    show ?thesis
    proof (cases "t \<in> set seen")
      case True
      have "set seen \<union> set stack = set seen \<union> set rest" using True Cons by auto
      moreover have "walked blobs (set seen) (set rest) x"
        by (rule walked_grows [OF prems(5), of inv]) (use prems(1) True Cons in \<open>auto simp: push_grows_def\<close>)
      moreover have "push_loop R seen rest x = Some (Inr (), x')"
        using run True Cons by (simp add: push_loop.simps [of R seen "t # rest"])
      ultimately show ?thesis using IH [of seen rest x] prems Cons by auto
    next
      case False
      obtain r s1 st1 where r: "push_tree R t rest (s, st) = (r, s1, st1)" by (metis prod_cases3)
      obtain stk where stk: "r = Inr stk" "push_loop R (t # seen) stk (s1, st1) = Some (Inr (), x')"
        using run False Cons r x by (cases r) (simp_all add: push_loop.simps [of R seen "t # rest"])
      have pt: "push_grows blobs inv x (s1, st1)" "filled blobs st0 s0 s \<longrightarrow> filled blobs st0 s0 s1"
          "walked blobs {t} (set stk) (s1, st1)" "set rest \<subseteq> set stk"
        using push_tree_spec [OF ids _ _ _ _ r, of st0] prems stk(1) Cons x by auto
      have "walked blobs (set seen) (insert t (set stk)) (s1, st1)"
        by (rule walked_grows [OF prems(5) pt(1)]) (use Cons pt(4) in auto)
      then have w: "walked blobs (set (t # seen)) (set stk) (s1, st1)" using walked_insert [OF _ pt(3)] by simp
      have len: "git_laws (glib st1) \<and> (\<forall>t \<in> set stk. length t = 20)"
        using push_tree_ids [of st R t rest s stk s1 st1] prems(2,3) Cons x r stk(1) by simp
      have ext: "store_extends st0 st1" using pt(1) prems(4) store_extends_trans unfolding push_grows_def by fastforce
      have "push_grows blobs inv (s1, st1) x' \<and> (filled blobs st0 s0 s1 \<longrightarrow> filled blobs st0 s0 (fst x')) \<and>
          (\<exists>D. set (t # seen) \<union> set stk \<subseteq> D \<and> walked blobs D {} x')"
        using IH [OF _ stk(2)] unseen_less [OF False] w len ext pt(1) prems(3) Cons by (simp add: push_grows_def)
      then obtain D where D: "push_grows blobs inv (s1, st1) x'" "filled blobs st0 s0 s1 \<longrightarrow> filled blobs st0 s0 (fst x')"
          "set (t # seen) \<union> set stk \<subseteq> D" "walked blobs D {} x'" by blast
      have "set seen \<union> set stack \<subseteq> D" using D(3) pt(4) Cons by auto
      then show ?thesis using push_grows_trans [OF pt(1) D(1)] pt(2) D(2,4) x by auto
    qed
  qed
qed

lemma push_reachable_spec:
  assumes ids: "\<And>j. length j = 20 \<Longrightarrow> ok_id j" and "inv s" and "git_laws (glib st)" and "length root = 20"
    and "push_reachable_blobs R root (s, st) = Some (Inr (), s', st')"
  shows "inv s' \<and> store_extends st st' \<and> filled blobs st s s' \<and> (\<forall>k i. reachable st' root k i \<longrightarrow> blobs s' k i \<noteq> None)"
proof -
  have w: "walked blobs (set []) (set [root]) (s, st)" by (simp add: walked_def)
  have "push_grows blobs inv (s, st) (s', st') \<and> filled blobs st s s' \<and> (\<exists>D. root \<in> D \<and> walked blobs D {} (s', st'))"
    using push_loop_spec [OF ids _ _ _ _ _ w, of "(s', st')" st s] assms(2-) by (simp add: push_reachable_blobs_def filled_refl)
  then show ?thesis using walked_reachable [of blobs _ "(s', st')" root] by (fastforce simp: push_grows_def)
qed

end

section \<open>What a push promises\<close>

text \<open>
  C31: The push walk returns, whatever the remote answers, and whatever the trees it reads locally or fetches contain.
\<close>

theorem push_returns:
  assumes "git_laws (glib st)" and "length root = 20"
  shows "\<exists>r s' st'. push_reachable_blobs R root (s, st) = Some (r, s', st')"
  using push_loop_returns [of "(s, st)" "[root]" R "[]"] assms by (auto simp: push_reachable_blobs_def)

text \<open>
  C22: A push that reports success, to any remote with the contract of blobs (a directory, a peer over gRPC, an S3 bucket), leaves
  every object reachable from the root tree on the remote: every subtree, file and symlink, those included
  that are only fetched during the walk. What the remote had stays as it was; an object it did not have
  is there with exactly the bytes of the local store. The local store only grows.
\<close>

theorem push_complete:
  assumes "blob_remote R blobs ok_id sound" and "\<forall>i. length i = 20 \<longrightarrow> ok_id i" and "sound s" and "git_laws (glib st)" and "length root = 20"
    and "push_reachable_blobs R root (s, st) = Some (Inr (), s', st')"
  shows "store_extends st st' \<and>
    (\<forall>k i. reachable st' root k i \<longrightarrow> blobs s' k i \<noteq> None) \<and>
    (\<forall>k i. length i = 20 \<and> blobs s k i \<noteq> None \<longrightarrow> blobs s' k i = blobs s k i) \<and>
    (\<forall>k i gk b. reachable st' root k i \<and> blobs s k i = None \<and> read_git_object_bytes st i = Inr (Some (gk, b)) \<longrightarrow> blobs s' k i = Some b)"
proof -
  have spec: "store_extends st st' \<and> filled blobs st s s' \<and> (\<forall>k i. reachable st' root k i \<longrightarrow> blobs s' k i \<noteq> None)"
    using blob_remote.push_reachable_spec [OF assms(1) _ assms(3-6)] assms(2) by blast
  have "blobs s' k i = Some b" if re: "reachable st' root k i" and none: "blobs s k i = None" and ob: "read_git_object_bytes st i = Inr (Some (gk, b))" for k i gk b
  proof -
    obtain b' where b': "blobs s' k i = Some b'" using spec re by blast
    have "length i = 20" using ob by (auto simp: read_git_object_bytes_def bad_oid_def split: if_splits)
    then have "b = b'" using spec ob b' none unfolding filled_def by blast
    then show ?thesis using b' by simp
  qed
  then show ?thesis using spec unfolding filled_def by blast
qed

definition ex_tree :: "(string \<times> TreeValue) list" where
  "ex_tree = [(''a'', TVFile (mem_id 0) False)]"

definition ex_pushed :: "mem_db git_store" where
  "ex_pushed = ex_store\<lparr>gdb := [(GBlob, ''hi''), (GTree, mem_encode ex_tree)]\<rparr>"

lemma ex_pushed_objects:
  "read_git_object_bytes ex_pushed (mem_id 0) = Inr (Some (GBlob, ''hi''))"
  "read_git_object_bytes ex_pushed (mem_id 1) = Inr (Some (GTree, mem_encode ex_tree))"
  "git_read_tree ex_pushed (mem_id 1) = Inr (Some [\<lparr>ename = ''a'', ekind = EFile False, eid = mem_id 0\<rparr>])"
proof -
  have ok: "mem_component_ok ''a''" by code_simp
  have "collect_entries (mem_iter (mem_encode ex_tree)) = Inr [\<lparr>ename = ''a'', ekind = EFile False, eid = mem_id 0\<rparr>]"
    using mem_iter_encode [of ex_tree] ok by (simp add: ex_tree_def mem_value_id_def)
  moreover have "mem_id 1 \<noteq> jj_empty_tree_id mem_git" by code_simp
  ultimately show "git_read_tree ex_pushed (mem_id 1) = Inr (Some [\<lparr>ename = ''a'', ekind = EFile False, eid = mem_id 0\<rparr>])"
    using mem_find_id [of 1] by (simp add: git_read_tree_def ex_pushed_def ex_store_def bad_oid_def mem_git_def)
  show "read_git_object_bytes ex_pushed (mem_id 0) = Inr (Some (GBlob, ''hi''))"
    "read_git_object_bytes ex_pushed (mem_id 1) = Inr (Some (GTree, mem_encode ex_tree))"
    using mem_find_id [of 0] mem_find_id [of 1] by (simp_all add: read_git_object_bytes_def ex_pushed_def ex_store_def bad_oid_def mem_git_def)
qed

lemma put_live:
  assumes "fs_store_inv dir h" and "no_fault h" and "i \<noteq> []"
  obtains h' where "fs_put_blob dir k i b h = (Inr (), h')" "fs_store_inv dir h'" "no_fault h'"
proof -
  have "\<exists>h'. fs_put_blob dir k i b h = (Inr (), h')"
    using replace_file_live assms(2) fs_store_invD(1) [OF assms(1)]
    by (auto simp: fs_put_blob_def io_defs host_create_dir_all_def fault_or_def no_fault_def)
  then show ?thesis using that fs_put_spec [OF assms(1,3)] put_keeps_faults [OF fs_store_invD(1) [OF assms(1)] _ assms(3)] assms(2)
    unfolding no_fault_def by metis
qed

lemma push_object_live:
  assumes "fs_store_inv dir h" and "no_fault h" and "length i = 20" and "read_git_object_bytes st i = Inr (Some ob)"
  obtains h' where "push_git_object_if_missing (fs_remote dir) k i (h, st) = (Inr (), h', st)" "fs_store_inv dir h'" "no_fault h'"
proof -
  have i: "i \<noteq> []" using assms(3) by auto
  have has: "fs_has_blob dir k i h = Inr (file_at h (blob_path dir k i) \<noteq> None)"
    using assms(2) by (simp add: fs_has_blob_def host_stat_def fault_or_def no_fault_def split: option.split)
  obtain h' where "fs_put_blob dir k i (snd ob) h = (Inr (), h')" "fs_store_inv dir h'" "no_fault h'"
    using put_live [OF assms(1,2) i] by blast
  then show ?thesis
    using that has assms by (cases ob, cases "file_at h (blob_path dir k i)") (auto simp: push_git_object_if_missing_def fs_remote_def)
qed

lemma ex_push_run:
  obtains h where "push_reachable_blobs (fs_remote ''/srv'') (mem_id 1) (ex_host, ex_pushed) = Some (Inr (), h, ex_pushed)"
proof -
  have inv: "fs_store_inv ''/srv'' ex_host" "no_fault ex_host" by (simp_all add: empty_store_inv ex_host_def no_fault_def)
  obtain h1 where h1: "push_git_object_if_missing (fs_remote ''/srv'') KTree (mem_id 1) (ex_host, ex_pushed) = (Inr (), h1, ex_pushed)"
      "fs_store_inv ''/srv'' h1" "no_fault h1"
    by (rule push_object_live [OF inv length_mem_id ex_pushed_objects(2)])
  obtain h2 where h2: "push_git_object_if_missing (fs_remote ''/srv'') KBlob (mem_id 0) (h1, ex_pushed) = (Inr (), h2, ex_pushed)"
    by (rule push_object_live [OF h1(2,3) length_mem_id ex_pushed_objects(1)])
  have "push_reachable_blobs (fs_remote ''/srv'') (mem_id 1) (ex_host, ex_pushed) = Some (Inr (), h2, ex_pushed)"
    using h1(1) h2 ex_pushed_objects(3)
    by (simp add: push_reachable_blobs_def push_loop.simps [of _ _ "_ # _"] push_loop.simps [of _ _ "[]"] push_tree_def io_defs tree_entries_def)
  then show ?thesis by (rule that)
qed

theorem push_complete_witness:
  "\<exists>h' st'. push_reachable_blobs (fs_remote ''/srv'') (mem_id 1) (ex_host, ex_pushed) = Some (Inr (), h', st') \<and>
     fs_blobs ''/srv'' h' KBlob (mem_id 0) = Some ''hi''"
proof -
  have inv: "fs_store_inv ''/srv'' ex_host" by (simp add: empty_store_inv ex_host_def)
  obtain h where run: "push_reachable_blobs (fs_remote ''/srv'') (mem_id 1) (ex_host, ex_pushed) = Some (Inr (), h, ex_pushed)"
    by (rule ex_push_run)
  have none: "fs_blobs ''/srv'' ex_host KBlob (mem_id 0) = None" by (simp add: fs_blobs_def file_at_def ex_host_def)
  have laws: "git_laws (glib ex_pushed)" using ex_laws by (simp add: ex_pushed_def)
  have "reachable ex_pushed (mem_id 1) KBlob (mem_id 0)"
    using reach_file [OF reach_root ex_pushed_objects(3)] by force
  then have "fs_blobs ''/srv'' h KBlob (mem_id 0) = Some ''hi''"
    using push_complete [OF fb.blob_remote_axioms _ inv laws length_mem_id run] none ex_pushed_objects(1) by fastforce
  then show ?thesis using run by blast
qed

theorem push_returns_witness:
  "\<exists>r s' st'. push_reachable_blobs (fs_remote ''/srv'') (mem_id 1) (ex_host, ex_pushed) = Some (r, s', st')"
  by (rule push_returns) (use ex_laws in \<open>simp_all add: ex_pushed_def\<close>)

end
