(* ===== verification/Service_Tree.thy ===== *)
theory Service_Tree
  imports Service_Clone Push
begin

text \<open>
  The two requests that move a working copy between the mounted filesystem, the store, the remote and the
  persisted metadata: \<^verbatim>\<open>snapshot\<close> and \<^verbatim>\<open>check_out\<close> of \<^verbatim>\<open>src/daemon/src/service.rs\<close>. The state is the service and the
  remote the path resolves to, whose methods are an argument. Reading a git \<^verbatim>\<open>HEAD\<close> is an argument too; the
  best-effort rebuild of the git index after a check-out is left out.
\<close>

section \<open>The requests\<close>

type_synonym ('g, 's, 'a) wsvc = "('g service \<times> 's, status, 'a) comp"

definition on_service :: "('g, 'a) svc \<Rightarrow> ('g, 's, 'a) wsvc" where
  "on_service m = (\<lambda>(sv, s). case m sv of (r, sv') \<Rightarrow> (r, sv', s))"

definition worktree_gitdir_for :: "'g service \<Rightarrow> string \<Rightarrow> string option" where
  "worktree_gitdir_for sv p =
     (case is_managed sv p of
        None \<Rightarrow> None
      | Some (repo, ws) \<Rightarrow>
          (case sv_storage sv of
             InMemory \<Rightarrow> None
           | OnDisk root \<Rightarrow>
               let wt_dir = workspace_worktree_gitdir root repo ws
               in if dir_exists (sv_host sv) wt_dir then Some wt_dir else None))"

text \<open>The push of the objects reachable from a tree, when there is a remote; not returning is \<open>Diverge\<close>.\<close>

definition push_from :: "'s remote_ops option \<Rightarrow> bytes \<Rightarrow> 's \<times> 'g git_store \<Rightarrow> (status, unit) outcome \<times> 's \<times> 'g git_store" where
  "push_from rs root x =
     (case rs of
        None \<Rightarrow> (Ok (), x)
      | Some R \<Rightarrow>
          (case push_reachable_blobs R root x of
             None \<Rightarrow> (Diverge, x)
           | Some (Inl e, x') \<Rightarrow> (Err (Status Internal (''post-snapshot remote push: '' @ e)), x')
           | Some (Inr _, x') \<Rightarrow> (Ok (), x')))"

definition push_repo :: "'s remote_ops option \<Rightarrow> nat \<Rightarrow> bytes \<Rightarrow> ('g, 's, unit) wsvc" where
  "push_repo rs a root = (\<lambda>(sv, s).
     case sv_root_fs sv of
       None \<Rightarrow> (Err not_configured, sv, s)
     | Some rf \<Rightarrow>
         (case stores rf a of
            None \<Rightarrow> (Panic, sv, s)
          | Some st \<Rightarrow>
              (case push_from rs root (s, st) of
                 (r, s', st') \<Rightarrow> (r, sv\<lparr>sv_root_fs := Some (rf\<lparr>stores := (stores rf)(a \<mapsto> st')\<rparr>)\<rparr>, s'))))"

definition stamp_root :: "string \<Rightarrow> string \<Rightarrow> string \<Rightarrow> bytes \<Rightarrow> int \<Rightarrow> ('g, unit) svc" where
  "stamp_root what repo ws tree mtime =
     on_root (\<lambda>e. if e = NotFound then Status NotFoundCode (''workspace '' @ repo @ ''/'' @ ws @ '' disappeared during '' @ what)
                  else Status Internal (''persisting root_tree_id for '' @ repo @ ''/'' @ ws))
       (set_root_tree_id repo ws tree mtime)"

definition stamp_mount :: "string \<Rightarrow> string \<Rightarrow> string \<Rightarrow> bytes \<Rightarrow> ('g, unit) svc" where
  "stamp_mount context what p tree =
     seq (fetch_or (\<lambda>sv. map_of (sv_mounts sv) p) (Status NotFoundCode (''mount at '' @ p @ '' disappeared during '' @ what))) (\<lambda>m.
     seq (on_host (metadata_status context)
            (persist_metadata_snapshot (mt_meta_path m) ((mount_metadata m)\<lparr>mm_root_tree_id := tree\<rparr>))) (\<lambda>_.
     put_mount p (m\<lparr>mt_root_tree_id := tree\<rparr>)))"

text \<open>A call on the filesystem of an ad-hoc mount.\<close>

definition on_mount :: "(FsError \<Rightarrow> status) \<Rightarrow> string \<Rightarrow> 'g mount \<Rightarrow> ('g, 'a) fs_op \<Rightarrow> ('g, 'a) svc" where
  "on_mount f p m op = (\<lambda>sv.
     case op (mt_fs m) of
       (r, fs) \<Rightarrow>
         (case r of Ok a \<Rightarrow> Ok a | Err e \<Rightarrow> Err (f e) | Panic \<Rightarrow> Panic | Diverge \<Rightarrow> Diverge,
          sv\<lparr>sv_mounts := bt_insert p (m\<lparr>mt_fs := fs\<rparr>) (sv_mounts sv)\<rparr>))"

definition push_mount :: "'s remote_ops option \<Rightarrow> string \<Rightarrow> bytes \<Rightarrow> ('g, 's, unit) wsvc" where
  "push_mount rs p root = (\<lambda>(sv, s).
     case map_of (sv_mounts sv) p of
       None \<Rightarrow> (Panic, sv, s)
     | Some m \<Rightarrow>
         (case push_from rs root (s, store (mt_fs m)) of
            (r, s', st') \<Rightarrow> (r, sv\<lparr>sv_mounts := bt_insert p (m\<lparr>mt_fs := (mt_fs m)\<lparr>store := st'\<rparr>\<rparr>) (sv_mounts sv)\<rparr>, s')))"

definition snapshot_failed :: "string \<Rightarrow> FsError \<Rightarrow> status" where
  "snapshot_failed p e = Status Internal (''snapshot failed for '' @ p)"

text \<open>Both return the new tree, the head exported last and the path of the bare repository.\<close>

definition snapshot_managed :: "'s remote_ops option \<Rightarrow> string \<Rightarrow> string \<Rightarrow> string \<Rightarrow> ('g, 's, bytes \<times> bytes \<times> string) wsvc" where
  "snapshot_managed rs p repo ws =
     seq (on_service (on_root (\<lambda>_. ws_not_found repo ws) (get_workspace repo ws))) (\<lambda>(slot, a, _).
     seq (on_service (ask_root (\<lambda>rf. (get_last_exported_head rf repo ws, store_paths rf a)))) (\<lambda>(head, git_path).
     seq (on_service (on_root (snapshot_failed p) (on_live slot fs_snapshot))) (\<lambda>new_root.
     seq (push_repo rs a new_root) (\<lambda>_.
     seq (on_service (stamp_root ''snapshot'' repo ws new_root 0)) (\<lambda>_.
     ret (new_root, head, git_path))))))"

definition snapshot_adhoc :: "'s remote_ops option \<Rightarrow> string \<Rightarrow> ('g, 's, bytes \<times> bytes \<times> string) wsvc" where
  "snapshot_adhoc rs p =
     seq (on_service (get_mount p)) (\<lambda>m.
     seq (on_service (on_mount (snapshot_failed p) p m fs_snapshot)) (\<lambda>new_root.
     seq (push_mount rs p new_root) (\<lambda>_.
     seq (on_service (stamp_mount ''persist snapshot metadata'' ''snapshot'' p new_root)) (\<lambda>_.
     ret (new_root, mt_last_exported_head m, mt_git_repo_path m)))))"

definition external_git_head :: "(string \<Rightarrow> string + bytes option) \<Rightarrow> 'g service \<Rightarrow> string \<Rightarrow> bytes \<Rightarrow> string \<Rightarrow> bytes" where
  "external_git_head read_head sv p last_exported_head git_path =
     (if last_exported_head = [] then []
      else case read_head (case worktree_gitdir_for sv p of Some d \<Rightarrow> d | None \<Rightarrow> git_path) of
             Inr (Some current_head) \<Rightarrow> if current_head \<noteq> last_exported_head then current_head else []
           | _ \<Rightarrow> [])"

definition svc_snapshot :: "'s remote_ops option \<Rightarrow> (string \<Rightarrow> string + bytes option) \<Rightarrow> string \<Rightarrow> ('g, 's, bytes \<times> bytes) wsvc" where
  "svc_snapshot rs read_head p =
     seq (on_service (reads (\<lambda>sv. is_managed sv p))) (\<lambda>managed.
     seq (case managed of Some (repo, ws) \<Rightarrow> snapshot_managed rs p repo ws | None \<Rightarrow> snapshot_adhoc rs p) (\<lambda>(new_root, head, git_path).
     on_service (reads (\<lambda>sv. (new_root, external_git_head read_head sv p head git_path)))))"

definition check_out_failed :: "bytes \<Rightarrow> FsError \<Rightarrow> status" where
  "check_out_failed tree e =
     (if e = StoreMiss then Status FailedPrecondition (''tree '' @ hex_encode tree @ '' not in store; call WriteTree first'')
      else Status Internal ''check_out failed'')"

definition svc_check_out :: "string \<Rightarrow> bytes \<Rightarrow> int \<Rightarrow> ('g, unit) svc" where
  "svc_check_out p new_tree_id commit_timestamp_millis =
     (if length new_tree_id \<noteq> 20 then throw (Status InvalidArgument ''tree id: expected 20-byte id'')
      else
        let commit_mtime_secs = trunc_div commit_timestamp_millis 1000
        in seq (reads (\<lambda>sv. is_managed sv p)) (\<lambda>managed.
           case managed of
             Some (repo, ws) \<Rightarrow>
               seq (on_root (\<lambda>_. ws_not_found repo ws) (get_workspace repo ws)) (\<lambda>(slot, _, _).
               seq (on_root (check_out_failed new_tree_id) (on_live slot (fs_check_out new_tree_id commit_mtime_secs))) (\<lambda>_.
               stamp_root ''check_out'' repo ws new_tree_id commit_timestamp_millis))
           | None \<Rightarrow>
               seq (get_mount p) (\<lambda>m.
               seq (on_mount (check_out_failed new_tree_id) p m (fs_check_out new_tree_id commit_mtime_secs)) (\<lambda>_.
               stamp_mount ''persist checkout metadata'' ''check_out'' p new_tree_id))))"

section \<open>Steps\<close>

text \<open>A step of the routing filesystem that keeps the registry.\<close>

lemma svc_inv_repos:
  assumes I: "svc_inv sv" and rf: "sv_root_fs sv = Some rf" and inv: "root_inv rf'" and same: "repos rf' = repos rf" "next_slot rf' = next_slot rf"
      "root_toml rf' = root_toml rf" "storage_dir rf' = storage_dir rf"
  shows "svc_inv (sv\<lparr>sv_root_fs := Some rf', sv_host := sv_host sv\<rparr>)"
proof (rule svc_inv_root [OF _ rf _ inv])
  note rok = svc_inv_root_ok [OF I rf]
  have ok: "svc_ok sv" "synced sv" using I by (simp_all add: svc_inv_def)
  have f: "find_ws rf' q x = find_ws rf q x" for q x using same(1) by (simp add: find_ws_def)
  show "svc_ok sv" "host_ok (sv_host sv)" "0 < next_slot rf'" "root_toml rf' = root_toml rf" "storage_dir rf' = storage_dir rf"
    using ok(1) svc_okD(1) [OF ok(1)] root_okD(2) [OF rok] same by simp_all
  show "component r" if "map_of (repos rf') r = Some re" for r re using that same(1) root_okD(5) [OF rok] by simp
  show "component w" if "find_ws rf' r w = Some we" for r w we using that f root_okD(6) [OF rok] by simp
  show "on_disk (sv_toml sv) (sv_host sv) (workspace_config_path (storage_dir rf) r w) = Some (entry_config we)"
    if "find_ws rf' r w = Some we" for r w we using that f syncedD [OF ok(2) rf] by simp
qed

lemma get_workspace_Ok:
  assumes inv: "root_inv rf" and run: "get_workspace r w rf = (Ok (sl, a, rm), rf1)"
  obtains re we l where "map_of (repos rf) r = Some re" and "map_of (re_workspaces re) w = Some we" and "sl = we_slot we" and "a = re_store re"
    and "live rf1 sl = Some l" and "rf1 = rf \<or> lv_store l = a \<and> rf1 = rf\<lparr>live := (live rf)(sl \<mapsto> l)\<rparr>"
proof (cases "find_ws rf r w")
  case None
  then show ?thesis using run by (cases "map_of (repos rf) r") (simp_all add: get_workspace_def get_repo_seq get_ws_seq)
next
  case (Some we)
  then obtain re where re: "map_of (repos rf) r = Some re" "map_of (re_workspaces re) w = Some we" by (auto simp: find_ws_repo)
  show ?thesis
  proof (cases "live rf (we_slot we)")
    case (Some l)
    then have "sl = we_slot we" "a = re_store re" "rf1 = rf"
      using run re \<open>find_ws rf r w = Some we\<close> by (auto simp: get_workspace_def get_repo_seq get_ws_seq reads_seq ret_def)
    then show ?thesis using that re Some by blast
  next
    case None
    define i where "i = info_of r w re we"
    have run': "seq (hydrate_workspace i) (\<lambda>fs. seq (modifies (insert_live i fs)) (\<lambda>_. ret (we_slot we, re_store re, re_remote re))) rf = (Ok (sl, a, rm), rf1)"
      using run re \<open>find_ws rf r w = Some we\<close> None by (simp add: get_workspace_def get_repo_seq get_ws_seq reads_seq i_def)
    have i: "hi_slot i = we_slot we" "hi_store i = re_store re" by (simp_all add: i_def info_of_def)
    obtain fs where "rf1 = insert_live i fs rf" "sl = we_slot we" "a = re_store re"
      using run' by (auto elim!: seq_Ok_E dest: hydrate_workspace_state simp: modifies_def ret_def)
    then show ?thesis using that [OF re] None i by (auto simp: insert_live_def)
  qed
qed

lemma get_workspace_step:
  assumes I: "svc_inv sv" and run: "on_root g (get_workspace r w) sv = (Ok (sl, a, rm), sv')"
  shows "svc_inv sv'"
proof -
  obtain rf rf1 where rf: "sv_root_fs sv = Some rf" and m: "get_workspace r w (rf\<lparr>root_host := sv_host sv\<rparr>) = (Ok (sl, a, rm), rf1)"
    and sv': "sv' = sv\<lparr>sv_root_fs := Some rf1, sv_host := root_host rf1\<rparr>" by (rule on_root_Ok [OF run])
  note ri = root_inv_of [OF I rf]
  have same: "repos rf1 = repos rf \<and> next_slot rf1 = next_slot rf \<and> root_toml rf1 = root_toml rf \<and> storage_dir rf1 = storage_dir rf \<and> root_host rf1 = sv_host sv"
    by (rule get_workspace_Ok [OF ri(1) m]) auto
  show ?thesis using svc_inv_repos [OF I rf root_inv_get_workspace [OF ri(1) m]] same by (simp add: sv')
qed

definition evolving :: "('g, 'a) fs_op \<Rightarrow> bool" where
  "evolving op \<longleftrightarrow> (\<forall>fs r fs'. fs_inv False fs \<longrightarrow> op fs = (r, fs') \<longrightarrow> evo_inv False fs fs')"

lemma on_live_step:
  assumes I: "svc_inv sv" and ev: "evolving op"
    and run: "on_root g (on_live sl op) sv = (Ok a, sv')"
  shows "svc_inv sv'" and "\<exists>rf l fs. sv_root_fs sv = Some rf \<and> live rf sl = Some l \<and> op (live_view rf l) = (Ok a, fs) \<and> fs_inv False (live_view rf l) \<and>
    (\<exists>rf'. sv_root_fs sv' = Some rf' \<and> stores rf' = (stores rf)(lv_store l \<mapsto> store fs) \<and> repos rf' = repos rf)"
proof -
  obtain rf rf1 where rf: "sv_root_fs sv = Some rf" and o: "on_live sl op (rf\<lparr>root_host := sv_host sv\<rparr>) = (Ok a, rf1)"
    and sv': "sv' = sv\<lparr>sv_root_fs := Some rf1, sv_host := root_host rf1\<rparr>" by (rule on_root_Ok [OF run])
  note ri = root_inv_of [OF I rf]
  have m: "evo_inv False fs fs'" if "fs_inv False fs" "op fs = (r, fs')" for fs fs' r using ev that by (simp add: evolving_def)
  obtain l fs where l: "live rf sl = Some l" "op (live_view rf l) = (Ok a, fs)"
    and rf1: "rf1 = rf\<lparr>root_host := sv_host sv, live := (live rf)(sl \<mapsto> l\<lparr>lv_fs := fs\<rparr>), stores := (stores rf)(lv_store l \<mapsto> store fs)\<rparr>"
    using o by (auto simp: on_live_def live_view_def split: option.splits prod.splits)
  show "svc_inv sv'" using svc_inv_repos [OF I rf root_inv_on_live [OF ri(1) m o]] by (simp add: sv' rf1)
  have "live_ok rf" using root_okD(1) [OF svc_inv_root_ok [OF I rf]] by (simp add: root_inv_def)
  then have "fs_inv False (live_view rf l)" using live_okD(3) l(1) by blast
  then show "\<exists>rf l fs. sv_root_fs sv = Some rf \<and> live rf sl = Some l \<and> op (live_view rf l) = (Ok a, fs) \<and> fs_inv False (live_view rf l) \<and>
    (\<exists>rf'. sv_root_fs sv' = Some rf' \<and> stores rf' = (stores rf)(lv_store l \<mapsto> store fs) \<and> repos rf' = repos rf)"
    using rf l by (auto simp: sv' rf1)
qed

lemma reply_state: "snd (reply g c fs) = snd (c fs)"
  by (auto simp: reply_def seq_apply ret_def split: prod.split outcome.split)

lemma op_evo: "evolving fs_snapshot" "length t = 20 \<Longrightarrow> evolving (fs_check_out t m)"
proof -
  have "evo_inv False fs fs'" if "fs_inv False fs" "fs_snapshot fs = (r, fs')" for fs fs' :: "'a kiki_fs" and r
    using fs_exec_evo [of Snapshot fs "fst (fs_exec Snapshot fs)" fs'] that reply_state [of RId fs_snapshot fs] by (simp add: prod_eq_iff)
  then show "evolving (fs_snapshot :: ('a, oid) fs_op)" by (auto simp: evolving_def)
  have "evo_inv False fs fs'" if "length t = 20" "fs_inv False fs" "fs_check_out t m fs = (x, fs')" for fs fs' :: "'b kiki_fs" and x
    using fs_exec_evo [of "CheckOut t m" fs "fst (fs_exec (CheckOut t m) fs)" fs'] that reply_state [of "\<lambda>_. RUnit" "fs_check_out t m" fs] by (simp add: prod_eq_iff)
  then show "evolving (fs_check_out t m :: ('b, unit) fs_op)" if "length t = 20" using that by (auto simp: evolving_def)
qed

lemma push_from_store:
  assumes laws: "git_laws (glib st)" and len: "length root = 20" and run: "push_from rs root (s, st) = (Ok (), s', st')"
  shows "store_extends st st'"
proof (cases rs)
  case None
  then show ?thesis using run by (simp add: push_from_def)
next
  case (Some R)
  then have "push_loop R [] [root] (s, st) = Some (Inr (), s', st')"
    using run by (auto simp: push_from_def push_reachable_blobs_def split: option.splits prod.splits sum.splits)
  then show ?thesis using push_loop_returns [of "(s, st)" "[root]" R "[]"] laws len by auto
qed

lemma root_inv_extend:
  assumes inv: "root_inv rf" and st: "stores rf a = Some st" "store_extends st st'"
  shows "root_inv (rf\<lparr>stores := (stores rf)(a \<mapsto> st')\<rparr>)"
proof (rule root_inv_live [OF inv])
  have ok: "live_ok rf" using inv by (simp add: root_inv_def)
  have laws: "git_laws (glib st')" using live_okD(1) [OF ok st(1)] st(2) by (simp add: store_extends_def)
  show "live_ok (rf\<lparr>stores := (stores rf)(a \<mapsto> st')\<rparr>)"
  proof (rule live_okI)
    show "git_laws (glib x)" if "stores (rf\<lparr>stores := (stores rf)(a \<mapsto> st')\<rparr>) b = Some x" for b x
      using that laws live_okD(1) [OF ok] by (auto split: if_splits)
    show "stores (rf\<lparr>stores := (stores rf)(a \<mapsto> st')\<rparr>) (re_store re) \<noteq> None" if "map_of (repos (rf\<lparr>stores := (stores rf)(a \<mapsto> st')\<rparr>)) q = Some re" for q re
      using that live_okD(2) [OF ok, of q re] by auto
    show "stores (rf\<lparr>stores := (stores rf)(a \<mapsto> st')\<rparr>) (lv_store l) \<noteq> None \<and> fs_inv False (live_view (rf\<lparr>stores := (stores rf)(a \<mapsto> st')\<rparr>) l)"
      if "live (rf\<lparr>stores := (stores rf)(a \<mapsto> st')\<rparr>) s = Some l" for s l
    proof -
      have l: "stores rf (lv_store l) \<noteq> None" "fs_inv False (live_view rf l)" using that live_okD(3) [OF ok, of s l] by auto
      have "live_view (rf\<lparr>stores := (stores rf)(a \<mapsto> st')\<rparr>) l = (if lv_store l = a then (live_view rf l)\<lparr>store := st'\<rparr> else live_view rf l)"
        using st(1) by (simp add: live_view_def)
      then show ?thesis using l fs_inv_store [OF l(2) laws] by auto
    qed
  qed
  show "live_named (rf\<lparr>stores := (stores rf)(a \<mapsto> st')\<rparr>)" using inv by (simp add: root_inv_def live_named_def find_ws_def)
qed simp_all

lemma push_repo_step:
  assumes I: "svc_inv sv" and len: "length root = 20" and run: "push_repo rs a root (sv, s) = (Ok (), sv', s')"
  shows "svc_inv sv'" and "\<exists>rf st st'. sv_root_fs sv = Some rf \<and> stores rf a = Some st \<and> push_from rs root (s, st) = (Ok (), s', st') \<and>
    sv' = sv\<lparr>sv_root_fs := Some (rf\<lparr>stores := (stores rf)(a \<mapsto> st')\<rparr>)\<rparr> \<and> git_laws (glib st)"
proof -
  obtain rf st st' where rf: "sv_root_fs sv = Some rf" "stores rf a = Some st" and p: "push_from rs root (s, st) = (Ok (), s', st')"
    and sv': "sv' = sv\<lparr>sv_root_fs := Some (rf\<lparr>stores := (stores rf)(a \<mapsto> st')\<rparr>)\<rparr>"
    using run by (auto simp: push_repo_def split: option.splits prod.splits)
  note rok = svc_inv_root_ok [OF I rf(1)]
  have laws: "git_laws (glib st)" using live_okD(1) [OF _ rf(2)] root_okD(1) [OF rok] by (simp add: root_inv_def)
  have "root_inv (rf\<lparr>stores := (stores rf)(a \<mapsto> st')\<rparr>)" by (rule root_inv_extend [OF root_okD(1) [OF rok] rf(2) push_from_store [OF laws len p]])
  then have "svc_inv (sv\<lparr>sv_root_fs := Some (rf\<lparr>stores := (stores rf)(a \<mapsto> st')\<rparr>), sv_host := sv_host sv\<rparr>)"
    by (rule svc_inv_repos [OF I rf(1)]) simp_all
  moreover have "sv\<lparr>sv_root_fs := Some (rf\<lparr>stores := (stores rf)(a \<mapsto> st')\<rparr>), sv_host := sv_host sv\<rparr> = sv'" unfolding sv' by (cases sv) simp
  ultimately show "svc_inv sv'" by simp
  show "\<exists>rf st st'. sv_root_fs sv = Some rf \<and> stores rf a = Some st \<and> push_from rs root (s, st) = (Ok (), s', st') \<and>
    sv' = sv\<lparr>sv_root_fs := Some (rf\<lparr>stores := (stores rf)(a \<mapsto> st')\<rparr>)\<rparr> \<and> git_laws (glib st)"
    using rf p sv' laws by blast
qed

lemma stamp_root_step:
  assumes I: "svc_inv sv" and run: "stamp_root what r w tree mt sv = (Ok (), sv')"
  shows "\<exists>rf rf' we. svc_inv sv' \<and> sv_root_fs sv = Some rf \<and> sv_root_fs sv' = Some rf' \<and> find_ws rf r w = Some we \<and>
    find_ws rf' r w = Some (we\<lparr>we_root_tree_id := tree, we_commit_mtime_millis := (if mt \<noteq> 0 then mt else we_commit_mtime_millis we)\<rparr>) \<and> stores rf' = stores rf"
  using persist_update_step [OF I, of "\<lambda>we. we\<lparr>we_root_tree_id := tree, we_commit_mtime_millis := (if mt \<noteq> 0 then mt else we_commit_mtime_millis we)\<rparr>"] run
  by (simp add: stamp_root_def set_root_tree_id_def Let_def)

section \<open>The snapshot of a managed workspace\<close>

lemma on_service_Ok: "on_service m (sv, s) = (Ok a, x) \<Longrightarrow> \<exists>sv'. m sv = (Ok a, sv') \<and> x = (sv', s)"
  by (auto simp: on_service_def split: prod.splits)

lemma live_view_slab [simp]: "fs_slab (live_view rf l) = fs_slab (lv_fs l)"
  by (simp add: live_view_def split: option.split)

lemma snapshot_managed_Ok:
  assumes I: "svc_inv sv" and run: "snapshot_managed rs p r w (sv, s) = (Ok (tree, head, gp), sv', s')"
  shows "\<exists>rf rf1 sl a rm l t st st' rf' we. sv_root_fs sv = Some rf \<and> get_workspace r w (rf\<lparr>root_host := sv_host sv\<rparr>) = (Ok (sl, a, rm), rf1) \<and>
    live rf1 sl = Some l \<and> overlay (fs_slab (lv_fs l)) ROOT_INODE t \<and> length tree = 20 \<and> svc_inv sv' \<and> sv_root_fs sv' = Some rf' \<and>
    find_ws rf' r w = Some we \<and> we_root_tree_id we = tree \<and> (lv_store l = a \<longrightarrow> persists st tree t) \<and> git_laws (glib st) \<and>
    push_from rs tree (s, st) = (Ok (), s', st') \<and> store_extends st st' \<and> stores rf' a = Some st'"
proof -
  obtain sl a rm sv1 sv2 sv3 s3 where 1: "on_root (\<lambda>_. ws_not_found r w) (get_workspace r w) sv = (Ok (sl, a, rm), sv1)"
    and 2: "on_root (snapshot_failed p) (on_live sl fs_snapshot) sv1 = (Ok tree, sv2)"
    and 3: "push_repo rs a tree (sv2, s) = (Ok (), sv3, s')"
    and 4: "stamp_root ''snapshot'' r w tree 0 sv3 = (Ok (), sv')"
    using run unfolding snapshot_managed_def
    by (auto elim!: seq_Ok_E dest!: on_service_Ok ask_root_Ok simp: ret_def)
  obtain rf rf1 where rf: "sv_root_fs sv = Some rf" and g: "get_workspace r w (rf\<lparr>root_host := sv_host sv\<rparr>) = (Ok (sl, a, rm), rf1)"
    and sv1: "sv1 = sv\<lparr>sv_root_fs := Some rf1, sv_host := root_host rf1\<rparr>" by (rule on_root_Ok [OF 1])
  have I1: "svc_inv sv1" by (rule get_workspace_step [OF I 1])
  note ol = on_live_step [OF I1 op_evo(1) 2]
  obtain l fs rf2 where l: "live rf1 sl = Some l" "fs_snapshot (live_view rf1 l) = (Ok tree, fs)" "fs_inv False (live_view rf1 l)"
    and rf2: "sv_root_fs sv2 = Some rf2" "stores rf2 = (stores rf1)(lv_store l \<mapsto> store fs)"
    using ol(2) by (auto simp: sv1)
  obtain t where t: "overlay (fs_slab (lv_fs l)) ROOT_INODE t" "persists (store fs) tree t" "length tree = 20"
    using fs_snapshot_post [OF l(3,2)] by auto
  note pr = push_repo_step [OF ol(1) t(3) 3]
  obtain st st' where st: "stores rf2 a = Some st" "push_from rs tree (s, st) = (Ok (), s', st')" "git_laws (glib st)"
    and sv3: "sv3 = sv2\<lparr>sv_root_fs := Some (rf2\<lparr>stores := (stores rf2)(a \<mapsto> st')\<rparr>)\<rparr>"
    using pr(2) rf2(1) by auto
  obtain rf' we0 where s': "svc_inv sv'" "sv_root_fs sv' = Some rf'" "stores rf' = (stores rf2)(a \<mapsto> st')"
    and we: "find_ws rf' r w = Some (we0\<lparr>we_root_tree_id := tree, we_commit_mtime_millis := we_commit_mtime_millis we0\<rparr>)"
    using stamp_root_step [OF pr(1) 4] by (auto simp: sv3)
  have "persists st tree t" if "lv_store l = a" using t(2) st(1) rf2(2) that by simp
  then show ?thesis
    using rf g l(1) t(1,3) s' we st push_from_store [OF st(3) t(3) st(2)] by fastforce
qed

text \<open>A live workspace works on the store of its repository.\<close>

definition live_in_repo :: "'g root_fs \<Rightarrow> bool" where
  "live_in_repo rf \<longleftrightarrow> (\<forall>r w re we l. map_of (repos rf) r = Some re \<longrightarrow> map_of (re_workspaces re) w = Some we \<longrightarrow>
     live rf (we_slot we) = Some l \<longrightarrow> lv_store l = re_store re)"

lemma get_workspace_store:
  assumes "root_inv rf" and "live_in_repo rf" and "get_workspace r w rf = (Ok (sl, a, rm), rf1)" and "live rf1 sl = Some l"
  shows "lv_store l = a"
proof (rule get_workspace_Ok [OF assms(1,3)])
  fix re we l' assume re: "map_of (repos rf) r = Some re" "map_of (re_workspaces re) w = Some we" "sl = we_slot we" "a = re_store re"
    "live rf1 sl = Some l'" "rf1 = rf \<or> lv_store l' = a \<and> rf1 = rf\<lparr>live := (live rf)(sl \<mapsto> l')\<rparr>"
  then show ?thesis using assms(2,4) unfolding live_in_repo_def by (metis option.inject)
qed

section \<open>The invariant\<close>

lemma stamp_mount_inv:
  assumes I: "svc_inv sv" and run: "stamp_mount c what p tree sv = (Ok (), sv')"
  shows "svc_inv sv'"
proof -
  obtain m sv1 where m: "map_of (sv_mounts sv) p = Some m"
    and 1: "on_host (metadata_status c) (persist_metadata_snapshot (mt_meta_path m) ((mount_metadata m)\<lparr>mm_root_tree_id := tree\<rparr>)) sv = (Ok (), sv1)"
    and 2: "put_mount p (m\<lparr>mt_root_tree_id := tree\<rparr>) sv1 = (Ok (), sv')"
    using run by (auto simp: stamp_mount_def fetch_or_def elim!: seq_Ok_E split: option.splits)
  from mount_persist_inv [OF I m 1 2] show ?thesis by simp
qed

lemma get_mount_Ok: "get_mount p sv = (Ok m, sv') \<Longrightarrow> sv' = sv \<and> map_of (sv_mounts sv) p = Some m"
  by (auto simp: get_mount_def fetch_or_def split: option.splits)

lemma on_mount_inv:
  assumes "svc_inv sv" and "map_of (sv_mounts sv) p = Some m" and "on_mount f p m op sv = (x, sv')"
  shows "svc_inv sv'"
  using svc_inv_mounts [OF assms(1,2), of "m\<lparr>mt_fs := snd (op (mt_fs m))\<rparr>"] assms(3) by (auto simp: on_mount_def split: prod.splits)

lemma push_mount_inv:
  assumes "svc_inv sv" and "push_mount rs p root (sv, s) = (Ok (), sv', s')"
  shows "svc_inv sv'"
  using assms svc_inv_mounts [OF assms(1)] by (auto simp: push_mount_def split: option.splits prod.splits)

lemma svc_snapshot_inv:
  assumes I: "svc_inv sv" and run: "svc_snapshot rs rh p (sv, s) = (Ok x, sv', s')"
  shows "svc_inv sv'"
proof (cases "is_managed sv p")
  case (Some rw)
  obtain r w where rw: "rw = (r, w)" by (cases rw)
  then obtain tree hd gp where "snapshot_managed rs p r w (sv, s) = (Ok (tree, hd, gp), sv', s')"
    using run Some by (auto simp: svc_snapshot_def on_service_def reads_def elim!: seq_Ok_E)
  from snapshot_managed_Ok [OF I this] show ?thesis by blast
next
  case None
  then obtain tree hd gp where "snapshot_adhoc rs p (sv, s) = (Ok (tree, hd, gp), sv', s')"
    using run by (auto simp: svc_snapshot_def on_service_def reads_def elim!: seq_Ok_E)
  then obtain m sv1 sv2 where "map_of (sv_mounts sv) p = Some m" "on_mount (snapshot_failed p) p m fs_snapshot sv = (Ok tree, sv1)"
      "push_mount rs p tree (sv1, s) = (Ok (), sv2, s')" "stamp_mount ''persist snapshot metadata'' ''snapshot'' p tree sv2 = (Ok (), sv')"
    unfolding snapshot_adhoc_def by (auto elim!: seq_Ok_E dest!: on_service_Ok get_mount_Ok simp: ret_def)
  then show ?thesis using on_mount_inv [OF I] push_mount_inv stamp_mount_inv by metis
qed

lemma svc_check_out_inv:
  assumes I: "svc_inv sv" and run: "svc_check_out p t ms sv = (Ok (), sv')"
  shows "svc_inv sv'"
proof -
  have len: "length t = 20" using run by (auto simp: svc_check_out_def throw_def split: if_splits)
  show ?thesis
  proof (cases "is_managed sv p")
    case (Some rw)
    obtain r w where rw: "rw = (r, w)" by (cases rw)
    obtain sl a rm sv1 sv2 where 1: "on_root (\<lambda>_. ws_not_found r w) (get_workspace r w) sv = (Ok (sl, a, rm), sv1)"
      and 2: "on_root (check_out_failed t) (on_live sl (fs_check_out t (trunc_div ms 1000))) sv1 = (Ok (), sv2)"
      and 3: "stamp_root ''check_out'' r w t ms sv2 = (Ok (), sv')"
      using run Some rw len unfolding svc_check_out_def by (auto elim!: seq_Ok_E simp: reads_seq Let_def)
    have "svc_inv sv2" by (rule on_live_step(1) [OF get_workspace_step [OF I 1] op_evo(2) [OF len] 2])
    then show ?thesis using stamp_root_step [OF _ 3] by blast
  next
    case None
    obtain m sv1 where "map_of (sv_mounts sv) p = Some m" "on_mount (check_out_failed t) p m (fs_check_out t (trunc_div ms 1000)) sv = (Ok (), sv1)"
        "stamp_mount ''persist checkout metadata'' ''check_out'' p t sv1 = (Ok (), sv')"
      using run None len unfolding svc_check_out_def by (auto elim!: seq_Ok_E dest!: get_mount_Ok simp: reads_seq Let_def)
    then show ?thesis using on_mount_inv [OF I] stamp_mount_inv by metis
  qed
qed

text \<open>
  Requests that all succeed, one after the other; a snapshot may have any remote whose state is a host's
  files, as a directory remote has, and find it in any state.
\<close>

inductive served :: "'g service \<Rightarrow> 'g service \<Rightarrow> bool" for sv0 where
  sv_start: "served sv0 sv0"
| sv_step: "served sv0 sv \<Longrightarrow> slot_room sv \<Longrightarrow> svc_run q sv = (Ok (), sv') \<Longrightarrow> served sv0 sv'"
| sv_clone: "served sv0 sv \<Longrightarrow> slot_room sv \<Longrightarrow> repo_room sv \<Longrightarrow> svc_clone C serve open_store url name sv = (Ok p, sv') \<Longrightarrow> served sv0 sv'"
| sv_check_out: "served sv0 sv \<Longrightarrow> svc_check_out p t ms sv = (Ok (), sv') \<Longrightarrow> served sv0 sv'"
| sv_snapshot: "served sv0 sv \<Longrightarrow> svc_snapshot (rs :: host remote_ops option) read_head p (sv, s) = (Ok x, sv', s') \<Longrightarrow> served sv0 sv'"

lemma served_inv: "served sv0 sv \<Longrightarrow> svc_inv sv0 \<Longrightarrow> svc_inv sv"
  by (induction rule: served.induct) (auto intro: svc_run_inv svc_clone_inv svc_check_out_inv svc_snapshot_inv)

end
