(* ===== verification/Service_Listed.thy ===== *)
theory Service_Listed
  imports Startup Service_Tree
begin

text \<open>
  The repository list \<^verbatim>\<open>repos.toml\<close> and the requests of \<^verbatim>\<open>src/daemon/src/service.rs\<close>: which steps leave the file alone,
  what the read-modify-write of it does, and that it lists every registered repository after any sequence of
  successful requests.
\<close>

section \<open>The file\<close>

text \<open>The registry a repository list is read from.\<close>

definition registry :: "toml_lib \<Rightarrow> host \<Rightarrow> string \<Rightarrow> ReposConfig \<Rightarrow> bool" where
  "registry L h dir cfg \<longleftrightarrow>
     (\<exists>b. file_at h (repos_config_path dir) = Some b \<and> utf8_valid b \<and> sum_bind (toml_parse L b) repos_config_of_toml = Inr cfg)"

lemma registry_read: "registry L h dir cfg \<Longrightarrow> readable h (repos_config_path dir) \<Longrightarrow> repos_read_or_default L (repos_config_path dir) h = (Inr cfg, h)"
  by (auto simp: registry_def readable_def repos_read_or_default_def host_exists_def read_to_string_def io_defs host_defs)

lemma registry_cong: "file_at h' (repos_config_path dir) = file_at h (repos_config_path dir) \<Longrightarrow> registry L h' dir cfg = registry L h dir cfg"
  by (simp add: registry_def)

lemma registry_unique: "registry L h dir c \<Longrightarrow> registry L h dir c' \<Longrightarrow> c = c'"
  by (auto simp: registry_def)

text \<open>A missing file stands for the empty list.\<close>

definition recorded :: "toml_lib \<Rightarrow> host \<Rightarrow> string \<Rightarrow> ReposConfig \<Rightarrow> bool" where
  "recorded L h dir cfg \<longleftrightarrow> registry L h dir cfg \<or> file_at h (repos_config_path dir) = None \<and> cfg = repos_config_default"

lemma recorded_cong: "file_at h' (repos_config_path dir) = file_at h (repos_config_path dir) \<Longrightarrow> recorded L h' dir cfg = recorded L h dir cfg"
  by (simp add: recorded_def registry_def)

lemma recorded_read:
  assumes "recorded L h dir cfg" and "\<not> h_fault h IoStat (repos_config_path dir)"
    and "repos_read_or_default L (repos_config_path dir) h = (Inr c, h')"
  shows "c = cfg"
  using assms by (auto simp: recorded_def registry_def repos_read_or_default_def host_exists_def read_to_string_def io_defs host_defs
      split: if_splits option.splits sum.splits)

lemma repos_written:
  assumes "toml_law L" and "host_ok h" and "bt_wf (rc_repos c)" and "repos_write_to L c (repos_config_path dir) h = (Inr u, h')"
  shows "registry L h' dir c" and "h_fault h' = h_fault h"
proof -
  note spec = write_toml_spec [OF assms(2) with_extension_neq [OF repos_path_last] assms(4) [unfolded repos_write_to_def]]
  then obtain b where b: "toml_print L (repos_config_to_toml c) = Inr b" "file_at h' (repos_config_path dir) = Some b" by auto
  then have "utf8_valid b" "toml_parse L b = Inr (repos_config_to_toml c)" using assms(1) by (auto simp: toml_law_def)
  then show "registry L h' dir c" using b(2) repos_config_toml [OF assms(3)] by (simp add: registry_def)
  show "h_fault h' = h_fault h" using spec by simp
qed

section \<open>Steps that leave the file alone\<close>

definition repo_names :: "'g root_fs \<Rightarrow> string set" where
  "repo_names rf = fst ` set (repos rf)"

definition host_frame :: "string \<Rightarrow> host \<Rightarrow> host \<Rightarrow> bool" where
  "host_frame dir h h' \<longleftrightarrow> host_ok h' \<and> h_fault h' = h_fault h \<and>
     file_at h' (repos_config_path dir) = file_at h (repos_config_path dir)"

lemma write_frame:
  assumes "host_ok h" and "last path \<noteq> CHR ''p''" and "path \<noteq> repos_config_path dir" and "write_toml path l body h = (res, h')"
  shows "host_frame dir h h'"
proof -
  have "repos_config_path dir \<noteq> with_extension path ''toml.tmp''"
    using repos_path_last [of dir] with_extension_last [of path] by auto
  then have "file_at h' (repos_config_path dir) = file_at h (repos_config_path dir)"
    using write_toml_spec [OF assms(1) with_extension_neq [OF assms(2)] assms(4)] not_sym [OF assms(3)] by simp
  then show ?thesis
    using write_toml_spec [OF assms(1) with_extension_neq [OF assms(2)] assms(4)] by (simp add: host_frame_def)
qed

lemma workspace_write_frame:
  assumes "host_ok h" and "workspace_write_to L c (workspace_config_path st r w) h = (res, h')"
  shows "host_frame dir h h'"
  using write_frame [OF assms(1) _ config_not_repos assms(2) [unfolded workspace_write_to_def]] by (simp add: config_path_last)

lemma meta_not_repos: "path_join d META_FILE \<noteq> repos_config_path dir"
proof (rule suffix_neq)
  obtain x y where "path_join d META_FILE = x @ ''mount.toml''" "repos_config_path dir = y @ ''repos.toml''"
    using path_join_suffix unfolding META_FILE_def repos_config_path_def by metis
  then show "take 10 (rev (path_join d META_FILE)) \<noteq> take 10 (rev (repos_config_path dir))" by simp
qed

lemma not_below_repo:
  assumes "component r"
  shows "\<not> below (path_join st ''repos'' @ ''/'' @ r @ z) (repos_config_path st)"
proof -
  obtain x where "path_join st ''repos'' = x @ ''repos''" "repos_config_path st = x @ ''repos.toml''"
  proof
    let ?x = "if st = [] \<or> last st = CHR ''/'' then st else st @ ''/''"
    show "path_join st ''repos'' = ?x @ ''repos''" "repos_config_path st = ?x @ ''repos.toml''"
      by (simp_all add: path_join_def repos_config_path_def starts_with_iff)
  qed
  then show ?thesis by (auto simp: below_def starts_with_iff)
qed


text \<open>
  What a request does to the service as seen by \<^verbatim>\<open>repos.toml\<close>: the file is as it was, and the registered repositories are
  among the old ones and those of a given set.
\<close>

definition reg_frame :: "string set \<Rightarrow> 'g service \<Rightarrow> 'g service \<Rightarrow> bool" where
  "reg_frame A sv sv' \<longleftrightarrow> host_ok (sv_host sv') \<and> h_fault (sv_host sv') = h_fault (sv_host sv) \<and> sv_toml sv' = sv_toml sv \<and>
     (\<forall>rf'. sv_root_fs sv' = Some rf' \<longrightarrow> (\<exists>rf. sv_root_fs sv = Some rf \<and> storage_dir rf' = storage_dir rf \<and>
        file_at (sv_host sv') (repos_config_path (storage_dir rf)) = file_at (sv_host sv) (repos_config_path (storage_dir rf)) \<and>
        repo_names rf' \<subseteq> repo_names rf \<union> A))"

lemma reg_frameD:
  assumes "reg_frame A sv sv'" and "sv_root_fs sv' = Some rf'"
  obtains rf where "sv_root_fs sv = Some rf" and "storage_dir rf' = storage_dir rf"
    and "file_at (sv_host sv') (repos_config_path (storage_dir rf)) = file_at (sv_host sv) (repos_config_path (storage_dir rf))"
    and "repo_names rf' \<subseteq> repo_names rf \<union> A"
  using assms unfolding reg_frame_def by blast

lemma reg_frame_trans:
  assumes "reg_frame A sv sv1" and "reg_frame B sv1 sv2"
  shows "reg_frame (A \<union> B) sv sv2"
proof -
  have "\<exists>rf. sv_root_fs sv = Some rf \<and> storage_dir rf2 = storage_dir rf \<and>
        file_at (sv_host sv2) (repos_config_path (storage_dir rf)) = file_at (sv_host sv) (repos_config_path (storage_dir rf)) \<and>
        repo_names rf2 \<subseteq> repo_names rf \<union> (A \<union> B)" if rf2: "sv_root_fs sv2 = Some rf2" for rf2
  proof -
    obtain rf1 where 1: "sv_root_fs sv1 = Some rf1" "storage_dir rf2 = storage_dir rf1"
        "file_at (sv_host sv2) (repos_config_path (storage_dir rf1)) = file_at (sv_host sv1) (repos_config_path (storage_dir rf1))"
        "repo_names rf2 \<subseteq> repo_names rf1 \<union> B" by (rule reg_frameD [OF assms(2) rf2])
    obtain rf where 0: "sv_root_fs sv = Some rf" "storage_dir rf1 = storage_dir rf"
        "file_at (sv_host sv1) (repos_config_path (storage_dir rf)) = file_at (sv_host sv) (repos_config_path (storage_dir rf))"
        "repo_names rf1 \<subseteq> repo_names rf \<union> A" by (rule reg_frameD [OF assms(1) 1(1)])
    have "repo_names rf2 \<subseteq> repo_names rf \<union> (A \<union> B)" using 0(4) 1(4) by blast
    then show ?thesis using 0(1-3) 1(2,3) by (intro exI [of _ rf]) simp
  qed
  then show ?thesis using assms by (simp add: reg_frame_def)
qed

lemma reg_frame_host:
  "host_ok h \<Longrightarrow> (\<And>rf. sv_root_fs sv = Some rf \<Longrightarrow> host_frame (storage_dir rf) (sv_host sv) h) \<Longrightarrow> h_fault h = h_fault (sv_host sv) \<Longrightarrow>
   reg_frame A sv (sv\<lparr>sv_host := h\<rparr>)"
  by (auto simp: reg_frame_def host_frame_def)

definition svc_quiet :: "string set \<Rightarrow> ('g, 'a) svc \<Rightarrow> bool" where
  "svc_quiet A m \<longleftrightarrow> (\<forall>sv a sv'. host_ok (sv_host sv) \<longrightarrow> m sv = (Ok a, sv') \<longrightarrow> reg_frame A sv sv')"

lemma svc_quietD: "svc_quiet A m \<Longrightarrow> host_ok (sv_host sv) \<Longrightarrow> m sv = (Ok a, sv') \<Longrightarrow> reg_frame A sv sv'"
  by (simp add: svc_quiet_def)

named_theorems quiets \<open>operations that leave the repository list alone\<close>

lemma quiet_seq [quiets]:
  assumes "svc_quiet A m" and "\<And>a. svc_quiet A (f a)"
  shows "svc_quiet A (seq m f)"
  unfolding svc_quiet_def
proof (intro allI impI)
  fix sv b sv' assume h: "host_ok (sv_host sv)" and run: "seq m f sv = (Ok b, sv')"
  obtain a sv1 where 1: "m sv = (Ok a, sv1)" "f a sv1 = (Ok b, sv')" using run by (rule seq_Ok_E)
  note f1 = svc_quietD [OF assms(1) h 1(1)]
  have "host_ok (sv_host sv1)" using f1 by (simp add: reg_frame_def)
  from reg_frame_trans [OF f1 svc_quietD [OF assms(2) this 1(2)]] show "reg_frame A sv sv'" by simp
qed

lemma quiet_pure:
  assumes "\<And>sv a sv'. m sv = (Ok a, sv') \<Longrightarrow> sv' = sv"
  shows "svc_quiet A m"
  using assms by (fastforce simp: svc_quiet_def reg_frame_def)

lemma quiet_asks [quiets]: "svc_quiet A (reads g)" "svc_quiet A (ret b)" "svc_quiet A (ask_root f)"
  by (rule quiet_pure; auto simp: reads_def ret_def dest: ask_root_Ok)+

definition root_quiet :: "string set \<Rightarrow> ('g, 'a) root_op \<Rightarrow> bool" where
  "root_quiet A m \<longleftrightarrow> (\<forall>rf a rf'. host_ok (root_host rf) \<longrightarrow> m rf = (Ok a, rf') \<longrightarrow>
     host_frame (storage_dir rf) (root_host rf) (root_host rf') \<and> storage_dir rf' = storage_dir rf \<and>
     repo_names rf' \<subseteq> repo_names rf \<union> A)"

lemma quiet_on_root [quiets]:
  assumes "root_quiet A m"
  shows "svc_quiet A (on_root f m)"
  unfolding svc_quiet_def
proof (intro allI impI)
  fix sv a sv' assume h: "host_ok (sv_host sv)" and run: "on_root f m sv = (Ok a, sv')"
  obtain rf rf' where rf: "sv_root_fs sv = Some rf" and m: "m (rf\<lparr>root_host := sv_host sv\<rparr>) = (Ok a, rf')"
    and sv': "sv' = sv\<lparr>sv_root_fs := Some rf', sv_host := root_host rf'\<rparr>" by (rule on_root_Ok [OF run])
  have "host_frame (storage_dir rf) (sv_host sv) (root_host rf') \<and> storage_dir rf' = storage_dir rf \<and> repo_names rf' \<subseteq> repo_names rf \<union> A"
    using assms [unfolded root_quiet_def, rule_format, of "rf\<lparr>root_host := sv_host sv\<rparr>" a rf'] h m by (simp add: repo_names_def)
  then show "reg_frame A sv sv'" using rf by (auto simp: sv' reg_frame_def host_frame_def)
qed

lemma root_quietI:
  assumes "\<And>rf a rf'. m rf = (Ok a, rf') \<Longrightarrow> storage_dir rf' = storage_dir rf \<and> root_host rf' = root_host rf \<and> repo_names rf' \<subseteq> repo_names rf \<union> A"
  shows "root_quiet A m"
  using assms by (fastforce simp: root_quiet_def host_frame_def)

lemma update_repo_names [simp]: "repo_names (update_repo r f rf) = repo_names rf"
  by (auto simp: repo_names_def update_repo_def insert_absorb rev_image_eqI dest!: map_of_SomeD split: option.split)

lemma names_simps [simp]:
  "repo_names (add_child d n c rf) = repo_names rf" "repo_names (remove_child d n rf) = repo_names rf"
  "repo_names (update_ws r w g rf) = repo_names rf"
  "repo_names (rf\<lparr>next_slot := s\<rparr>) = repo_names rf" "repo_names (rf\<lparr>live := l\<rparr>) = repo_names rf" "repo_names (rf\<lparr>stores := ss\<rparr>) = repo_names rf"
  "repo_names (rf\<lparr>root_host := h\<rparr>) = repo_names rf" "repo_names (rf\<lparr>synthetic_dirs := sd\<rparr>) = repo_names rf" "repo_names (rf\<lparr>next_synthetic := i\<rparr>) = repo_names rf"
  "repo_names (rf\<lparr>repos := bt_insert n re (repos rf)\<rparr>) = insert n (repo_names rf)"
  "repo_names (rf\<lparr>repos := bt_remove n (repos rf)\<rparr>) = repo_names rf - {n}"
  by (simp_all add: update_ws_def) (simp_all add: repo_names_def add_child_def remove_child_def split: option.split)

lemma got_entry: "get_repo r rf = (Ok re, rf') \<Longrightarrow> rf' = rf" "get_ws r w rf = (Ok we, rf') \<Longrightarrow> rf' = rf"
  by (auto simp: get_ws_def get_repo_def fetch_or_def elim!: seq_Ok_E split: option.splits)

lemma quiet_registrations [quiets]:
  "root_quiet A alloc_slot" "root_quiet A (register_workspace r w we)" "root_quiet A (finalize_workspace r w)"
  "root_quiet A (remove_workspace r w)" "root_quiet A (remove_repo r)" "root_quiet A (modifies (\<lambda>rf. snd (set_repo_remote r u rm rf)))"
  "n \<in> A \<Longrightarrow> root_quiet A (modifies (register_repo n u a rm))"
  by (rule root_quietI;
      auto simp: alloc_slot_def register_workspace_def finalize_workspace_def remove_workspace_def remove_repo_def set_repo_remote_def
        register_repo_def modifies_def reads_def ret_def throw_def panic_def Let_def elim!: seq_Ok_E dest!: got_entry split: if_splits)+

lemma quiet_queries [quiets]:
  "root_quiet A (get_root_tree_id r w)" "root_quiet A (get_checkout_state r w)" "root_quiet A (get_workspace r w)" "root_quiet A (on_live s op)"
  by (rule root_quietI;
      auto simp: get_root_tree_id_def get_checkout_state_def get_workspace_def on_live_def modifies_def
        reads_def ret_def hydrate_workspace_def insert_live_def Let_def elim!: seq_Ok_E dest!: got_entry split: if_splits option.splits prod.splits)+

lemma quiet_persist:
  "root_quiet A (seq (get_ws r w) (\<lambda>we. seq (persist_entry r w (f we)) (\<lambda>_. modifies (update_ws r w (\<lambda>_. f we)))))"
  unfolding root_quiet_def
proof (intro allI impI)
  fix rf a rf' assume h: "host_ok (root_host rf)"
    and run: "seq (get_ws r w) (\<lambda>we. seq (persist_entry r w (f we)) (\<lambda>_. modifies (update_ws r w (\<lambda>_. f we)))) rf = (Ok a, rf')"
  obtain we h' where w: "workspace_write_to (root_toml rf) (entry_config (f we)) (workspace_config_path (storage_dir rf) r w) (root_host rf) = (Inr (), h')"
    and rf': "rf' = update_ws r w (\<lambda>_. f we) (rf\<lparr>root_host := h'\<rparr>)"
    using run by (auto simp: persist_entry_def modifies_def elim!: seq_Ok_E dest!: got_entry split: prod.splits sum.splits)
  show "host_frame (storage_dir rf) (root_host rf) (root_host rf') \<and> storage_dir rf' = storage_dir rf \<and> repo_names rf' \<subseteq> repo_names rf \<union> A"
    using workspace_write_frame [OF h w] by (simp add: rf')
qed

lemma quiet_stamps [quiets]:
  "root_quiet A (set_checkout_state r w op wid)" "root_quiet A (set_root_tree_id r w t mt)"
  unfolding set_checkout_state_def set_root_tree_id_def Let_def
  by (rule quiet_persist [where f = "\<lambda>we. we\<lparr>we_op_id := op, we_workspace_id := wid\<rparr>"])
    (rule quiet_persist [where f = "\<lambda>we. we\<lparr>we_root_tree_id := t, we_commit_mtime_millis := (if mt \<noteq> 0 then mt else we_commit_mtime_millis we)\<rparr>"])

lemma quiet_on_host:
  assumes "\<And>L h a h' dir. host_ok h \<Longrightarrow> m L h = (Inr a, h') \<Longrightarrow> host_frame dir h h'"
  shows "svc_quiet A (on_host f m)"
  unfolding svc_quiet_def
proof (intro allI impI)
  fix sv a sv' assume h: "host_ok (sv_host sv)" and run: "on_host f m sv = (Ok a, sv')"
  obtain h' where m: "m (sv_toml sv) (sv_host sv) = (Inr a, h')" and sv': "sv' = sv\<lparr>sv_host := h'\<rparr>" by (rule on_host_Ok [OF run])
  show "reg_frame A sv sv'" using assms [OF h m] by (auto simp: sv' reg_frame_def host_frame_def)
qed

lemma quiet_files [quiets]:
  "svc_quiet A (on_host f (\<lambda>L. workspace_write_to L c (workspace_config_path dir r w)))"
  "svc_quiet A (on_host f (\<lambda>L. workspace_read_from L p))"
  "svc_quiet A (on_host f (\<lambda>_. io_context g (host_create_dir_all d)))"
proof -
  show "svc_quiet A (on_host f (\<lambda>L. workspace_write_to L c (workspace_config_path dir r w)))"
    by (rule quiet_on_host) (rule workspace_write_frame)
  show "svc_quiet A (on_host f (\<lambda>L. workspace_read_from L p))"
    by (rule quiet_on_host) (auto dest: on_disk_read simp: host_frame_def)
  show "svc_quiet A (on_host f (\<lambda>_. io_context g (host_create_dir_all d)))"
    by (rule quiet_on_host) (auto simp: io_defs host_defs host_frame_def split: if_splits)
qed

lemma quiet_create_files [quiets]: "svc_quiet A (create_workspace_files dir r w c)"
  unfolding create_workspace_files_def by (intro quiets)

section \<open>Covered repositories\<close>

text \<open>
  The file lists every registered repository outside a given set, under names that are path components,
  and its presence can be seen.
\<close>

definition covered :: "string set \<Rightarrow> 'g service \<Rightarrow> bool" where
  "covered A sv \<longleftrightarrow> (\<forall>rf. sv_root_fs sv = Some rf \<longrightarrow> \<not> h_fault (sv_host sv) IoStat (repos_config_path (storage_dir rf)) \<and>
     (\<exists>cfg. recorded (sv_toml sv) (sv_host sv) (storage_dir rf) cfg \<and> repo_names rf \<subseteq> dom (map_of (rc_repos cfg)) \<union> A \<and>
        (\<forall>n \<in> dom (map_of (rc_repos cfg)). component n)))"

lemma coveredD:
  assumes "covered A sv" and "sv_root_fs sv = Some rf"
  obtains cfg where "\<not> h_fault (sv_host sv) IoStat (repos_config_path (storage_dir rf))" and "recorded (sv_toml sv) (sv_host sv) (storage_dir rf) cfg"
    and "repo_names rf \<subseteq> dom (map_of (rc_repos cfg)) \<union> A" and "\<forall>n \<in> dom (map_of (rc_repos cfg)). component n"
  using assms unfolding covered_def by blast

lemma covered_frame:
  assumes "covered A sv" and fr: "reg_frame B sv sv'"
  shows "covered (A \<union> B) sv'"
  unfolding covered_def
proof (intro allI impI)
  fix rf' assume rf': "sv_root_fs sv' = Some rf'"
  obtain rf where rf: "sv_root_fs sv = Some rf" "storage_dir rf' = storage_dir rf"
      "file_at (sv_host sv') (repos_config_path (storage_dir rf)) = file_at (sv_host sv) (repos_config_path (storage_dir rf))"
      "repo_names rf' \<subseteq> repo_names rf \<union> B" by (rule reg_frameD [OF fr rf'])
  obtain cfg where c: "\<not> h_fault (sv_host sv) IoStat (repos_config_path (storage_dir rf))" "recorded (sv_toml sv) (sv_host sv) (storage_dir rf) cfg"
      "repo_names rf \<subseteq> dom (map_of (rc_repos cfg)) \<union> A" "\<forall>n \<in> dom (map_of (rc_repos cfg)). component n" by (rule coveredD [OF assms(1) rf(1)])
  have same: "h_fault (sv_host sv') = h_fault (sv_host sv)" "sv_toml sv' = sv_toml sv" using fr by (simp_all add: reg_frame_def)
  have "repo_names rf' \<subseteq> dom (map_of (rc_repos cfg)) \<union> (A \<union> B)" using rf(4) c(3) by blast
  then show "\<not> h_fault (sv_host sv') IoStat (repos_config_path (storage_dir rf')) \<and>
     (\<exists>cfg. recorded (sv_toml sv') (sv_host sv') (storage_dir rf') cfg \<and> repo_names rf' \<subseteq> dom (map_of (rc_repos cfg)) \<union> (A \<union> B) \<and>
        (\<forall>n \<in> dom (map_of (rc_repos cfg)). component n))"
    using c(1,2,4) recorded_cong [OF rf(3)] rf(2) same by auto
qed

definition listed :: "'g service \<Rightarrow> bool" where
  "listed sv \<longleftrightarrow> covered {} sv"

lemma quiet_covered:
  assumes "covered A sv" and "svc_inv sv" and "svc_quiet B m" and "m sv = (Ok a, sv')"
  shows "covered (A \<union> B) sv'"
proof -
  have "host_ok (sv_host sv)" using assms(2) svc_okD(1) by (auto simp: svc_inv_def)
  from covered_frame [OF assms(1) svc_quietD [OF assms(3) this assms(4)]] show ?thesis .
qed

lemma quiet_listed: "listed sv \<Longrightarrow> svc_inv sv \<Longrightarrow> svc_quiet {} m \<Longrightarrow> m sv = (Ok a, sv') \<Longrightarrow> listed sv'"
  unfolding listed_def using quiet_covered [of "{}" sv "{}" m a sv'] by simp

text \<open>What the read-modify-write makes of the list, and that a failed one leaves it as it was.\<close>

lemma update_covered:
  assumes cov: "covered A sv" and h: "toml_law (sv_toml sv)" "host_ok (sv_host sv)" and rf: "sv_root_fs sv = Some rf"
    and run: "update_repos_toml (storage_dir rf) f sv = (x, sv')"
    and wf: "\<And>cfg. bt_wf (rc_repos cfg) \<Longrightarrow> bt_wf (rc_repos (f rf cfg))"
    and names: "\<And>cfg. bt_wf (rc_repos cfg) \<Longrightarrow> repo_names rf \<subseteq> dom (map_of (rc_repos cfg)) \<union> A \<Longrightarrow> \<forall>n \<in> dom (map_of (rc_repos cfg)). component n \<Longrightarrow>
      repo_names rf \<subseteq> dom (map_of (rc_repos (f rf cfg))) \<union> (if x = Ok () then B else A) \<and> (\<forall>n \<in> dom (map_of (rc_repos (f rf cfg))). component n)"
  shows "covered (if x = Ok () then B else A) sv'"
proof -
  obtain cfg where c: "\<not> h_fault (sv_host sv) IoStat (repos_config_path (storage_dir rf))" "recorded (sv_toml sv) (sv_host sv) (storage_dir rf) cfg"
      "repo_names rf \<subseteq> dom (map_of (rc_repos cfg)) \<union> A" "\<forall>n \<in> dom (map_of (rc_repos cfg)). component n" by (rule coveredD [OF cov rf])
  obtain res h1 where r: "repos_read_or_default (sv_toml sv) (repos_config_path (storage_dir rf)) (sv_host sv) = (res, h1)" by fastforce
  have h1: "h1 = sv_host sv" using repos_read_host [OF r] .
  show ?thesis
  proof (cases res)
    case (Inl e)
    then have "sv' = sv" "x \<noteq> Ok ()" using run r h1 by (auto simp: update_repos_toml_def seq_apply on_host_def sv_host_same)
    then show ?thesis using cov by simp
  next
    case (Inr c')
    then have c': "c' = cfg" "bt_wf (rc_repos cfg)" using recorded_read [OF c(2,1)] r repos_read_wf by blast+
    obtain w h2 where w: "repos_write_to (sv_toml sv) (f rf cfg) (repos_config_path (storage_dir rf)) (sv_host sv) = (w, h2)" by fastforce
    have sv': "sv' = sv\<lparr>sv_host := h2\<rparr>" "(x = Ok ()) = (\<exists>u. w = Inr u)"
      using run r Inr c' h1 rf w by (auto simp: update_repos_toml_def seq_apply on_host_def ask_root_def sv_host_same split: sum.splits)
    note spec = write_toml_spec [OF h(2) with_extension_neq [OF repos_path_last] w [unfolded repos_write_to_def]]
    show ?thesis
    proof (cases w)
      case (Inl e)
      then have "reg_frame {} sv sv'" using spec rf by (auto simp: sv'(1) reg_frame_def)
      then show ?thesis using covered_frame [OF cov] sv'(2) Inl by fastforce
    next
      case (Inr u)
      then have ok: "x = Ok ()" using sv'(2) by simp
      note wr = repos_written [OF h wf [OF c'(2)] w [unfolded Inr]]
      have "repo_names rf \<subseteq> dom (map_of (rc_repos (f rf cfg))) \<union> B \<and> (\<forall>n \<in> dom (map_of (rc_repos (f rf cfg))). component n)"
        using names [OF c'(2) c(3,4)] ok by simp
      then show ?thesis using wr c(1) rf ok unfolding covered_def by (auto simp: sv'(1) recorded_def)
    qed
  qed
qed

lemma update_listed:
  assumes "covered A sv" and "toml_law (sv_toml sv)" and "host_ok (sv_host sv)" and "sv_root_fs sv = Some rf"
    and "update_repos_toml (storage_dir rf) f sv = (Ok (), sv')"
    and "\<And>cfg. bt_wf (rc_repos cfg) \<Longrightarrow> bt_wf (rc_repos (f rf cfg))"
    and "\<And>cfg. bt_wf (rc_repos cfg) \<Longrightarrow> repo_names rf \<subseteq> dom (map_of (rc_repos cfg)) \<union> A \<Longrightarrow> \<forall>n \<in> dom (map_of (rc_repos cfg)). component n \<Longrightarrow>
      repo_names rf \<subseteq> dom (map_of (rc_repos (f rf cfg))) \<and> (\<forall>n \<in> dom (map_of (rc_repos (f rf cfg))). component n)"
  shows "listed sv'"
  using update_covered [OF assms(1-6), of "{}"] assms(7) by (simp add: listed_def)

lemma svc_inv_host_ok: "svc_inv sv \<Longrightarrow> toml_law (sv_toml sv) \<and> host_ok (sv_host sv)"
  using svc_okD(1,2) by (auto simp: svc_inv_def)

lemma reg_frame_ok: "reg_frame A sv sv' \<Longrightarrow> host_ok (sv_host sv') \<and> sv_toml sv' = sv_toml sv"
  by (simp add: reg_frame_def)

section \<open>The requests\<close>

lemma try_remove_covered:
  assumes cov: "covered A sv" and I: "svc_inv sv" and run: "try_remove_dir d sv = (Ok u, sv')"
    and out: "\<And>rf. sv_root_fs sv = Some rf \<Longrightarrow> \<not> below d (repos_config_path (storage_dir rf))"
  shows "covered A sv'"
proof (cases "dir_exists (sv_host sv) d")
  case True
  obtain res h where h: "host_remove_dir_all d (sv_host sv) = (res, h)" by fastforce
  have "host_ok (sv_host sv)" using I svc_okD(1) by (auto simp: svc_inv_def)
  note r = remove_dir_files [OF this h]
  have "h_fault h = h_fault (sv_host sv)" using h by (auto simp: host_remove_dir_all_def fault_or_def split: if_splits)
  then have "reg_frame {} sv (sv\<lparr>sv_host := h\<rparr>)" using r out by (auto simp: reg_frame_def)
  then show ?thesis using covered_frame [OF cov] run True h by (fastforce simp: try_remove_dir_def modifies_def)
next
  case False
  then show ?thesis using run cov by (simp add: try_remove_dir_def modifies_def)
qed

lemma delete_listed:
  assumes I: "svc_inv sv" and l: "listed sv" and run: "svc_workspace_delete r w sv = (Ok (), sv')"
  shows "listed sv'"
proof -
  obtain s sv1 where 1: "on_root (\<lambda>e. if e = NotFound then ws_not_found r w else Status Internal ''removing workspace'') (remove_workspace r w) sv = (Ok s, sv1)"
    and 2: "seq (reads sv_storage) (\<lambda>storage. case storage of InMemory \<Rightarrow> ret () | OnDisk root \<Rightarrow> try_remove_dir (workspace_dir root r w)) sv1 = (Ok (), sv')"
    using run unfolding svc_workspace_delete_def by (rule seq_Ok_E)
  obtain rf rf' where rf: "sv_root_fs sv = Some rf" and m: "remove_workspace r w (rf\<lparr>root_host := sv_host sv\<rparr>) = (Ok s, rf')"
    and sv1: "sv1 = sv\<lparr>sv_root_fs := Some rf', sv_host := root_host rf'\<rparr>" by (rule on_root_Ok [OF 1])
  note ri = root_inv_of [OF I rf]
  obtain we where we: "find_ws rf r w = Some we" and fr: "same_frame (rf\<lparr>root_host := sv_host sv\<rparr>) rf'"
    and f: "\<And>q x. find_ws rf' q x = (if q = r \<and> x = w then None else find_ws rf q x)"
    using remove_workspace_Ok [OF ri(1) m] unfolding ri(2) by metis
  have I1: "svc_inv sv1" unfolding sv1
    by (rule svc_inv_frame [OF I rf root_inv_remove_ws [OF ri(1) m] fr]) (auto simp: f split: if_splits)
  note names = root_okD(6,7) [OF svc_inv_root_ok [OF I rf] we]
  have cov: "covered {} sv1" using quiet_listed [OF l I quiet_on_root [OF quiet_registrations(4)] 1] by (simp add: listed_def)
  have dir: "storage_dir rf' = storage_dir rf" "sv_storage sv1 = OnDisk (storage_dir rf)"
    using fr root_okD(4) [OF svc_inv_root_ok [OF I rf]] by (simp_all add: same_frame_def sv1)
  have "try_remove_dir (workspace_dir (storage_dir rf) r w) sv1 = (Ok (), sv')" using 2 dir(2) by (simp add: reads_seq)
  from try_remove_covered [OF cov I1 this] show ?thesis
    using not_below_repo [OF names(2), of "storage_dir rf"] workspace_dir_eq [OF names(2,1), of "storage_dir rf"] dir(1)
    by (simp add: listed_def sv1)
qed

lemma forget_listed:
  assumes cov: "listed sv" and I: "svc_inv sv" and rf: "sv_root_fs sv = Some rf" and gone: "n \<notin> repo_names rf"
    and run: "forget_in_repos_toml (storage_dir rf) n sv = (x, sv')"
  shows "listed sv'"
proof -
  obtain y where u: "update_repos_toml (storage_dir rf) (\<lambda>rf cfg. cfg\<lparr>rc_repos := bt_remove n (rc_repos cfg), rc_next_slot := next_slot rf\<rparr>) sv = (y, sv')"
    using run by (cases "update_repos_toml (storage_dir rf) (\<lambda>rf cfg. cfg\<lparr>rc_repos := bt_remove n (rc_repos cfg), rc_next_slot := next_slot rf\<rparr>) sv")
      (simp add: forget_in_repos_toml_def)
  have "covered (if y = Ok () then {} else {}) sv'"
    by (rule update_covered [OF cov [unfolded listed_def] _ _ rf u]) (use gone svc_inv_host_ok [OF I] in auto)
  then show ?thesis by (simp add: listed_def)
qed

lemma remove_repo_gone:
  assumes "on_root f (remove_repo n) sv = (Ok s, sv1)" and "sv_root_fs sv1 = Some rf'"
  shows "n \<notin> repo_names rf'"
  using assms by (auto elim!: on_root_Ok seq_Ok_E simp: remove_repo_def modifies_def ret_def Let_def repo_names_def remove_child_frame set_bt_remove dest!: got_entry)

lemma repo_delete_listed:
  assumes I: "svc_inv sv" and l: "listed sv" and run: "svc_repo_delete n sv = (Ok (), sv')"
  shows "listed sv'"
proof -
  obtain s sv1 where 1: "on_root (\<lambda>e. repo_not_found e n) (remove_repo n) sv = (Ok s, sv1)"
    and 2: "seq (reads sv_storage) (\<lambda>storage. case storage of InMemory \<Rightarrow> ret ()
      | OnDisk root \<Rightarrow> seq (try_remove_dir (repo_dir root n)) (\<lambda>_. forget_in_repos_toml root n)) sv1 = (Ok (), sv')"
    using run unfolding svc_repo_delete_def by (rule seq_Ok_E)
  obtain rf' where I1: "svc_inv sv1" and rf1: "sv_root_fs sv1 = Some rf'" and n: "component n" and gone: "\<And>x. find_ws rf' n x = None"
    using remove_repo_step [OF I 1] by blast
  note rok = svc_inv_root_ok [OF I1 rf1]
  have "seq (try_remove_dir (repo_dir (storage_dir rf') n)) (\<lambda>_. forget_in_repos_toml (storage_dir rf') n) sv1 = (Ok (), sv')"
    using 2 root_okD(4) [OF rok] by (simp add: reads_seq)
  then obtain u sv2 where 3: "try_remove_dir (repo_dir (storage_dir rf') n) sv1 = (Ok u, sv2)" and 4: "forget_in_repos_toml (storage_dir rf') n sv2 = (Ok (), sv')"
    by (rule seq_Ok_E)
  have I2: "svc_inv sv2"
  proof (rule svc_inv_try_remove [OF I1 3])
    fix rg q x we assume "sv_root_fs sv1 = Some rg" "find_ws rg q x = Some we"
    then show "\<not> below (repo_dir (storage_dir rf') n) (workspace_config_path (storage_dir rg) q x)"
      using rf1 gone below_repo [OF n] root_okD(6,7) [OF rok] by (metis option.distinct(1) option.inject)
  qed
  have c1: "covered {} sv1" using quiet_listed [OF l I quiet_on_root [OF quiet_registrations(5)] 1] by (simp add: listed_def)
  have c2: "listed sv2" unfolding listed_def
    by (rule try_remove_covered [OF c1 I1 3]) (use not_below_repo [OF n, of _ "[]"] rf1 repo_dir_eq [OF n] in simp)
  have rf2: "sv_root_fs sv2 = Some rf'" using 3 rf1 by (auto simp: try_remove_dir_def modifies_def split: if_splits)
  show ?thesis by (rule forget_listed [OF c2 I2 rf2 remove_repo_gone [OF 1 rf1] 4])
qed

lemma repo_forget_listed:
  assumes I: "svc_inv sv" and l: "listed sv" and run: "svc_repo_forget n sv = (Ok k, sv')"
  shows "listed sv'"
proof -
  obtain s sv1 where 1: "on_root (\<lambda>e. repo_not_found e n) (remove_repo n) sv = (Ok s, sv1)"
    and 2: "seq (reads sv_storage) (\<lambda>storage. seq (case storage of InMemory \<Rightarrow> ret () | OnDisk root \<Rightarrow> forget_in_repos_toml root n)
      (\<lambda>_. ret (word_of_nat (length s)))) sv1 = (Ok k, sv')"
    using run unfolding svc_repo_forget_def by (rule seq_Ok_E)
  obtain rf' where I1: "svc_inv sv1" and rf1: "sv_root_fs sv1 = Some rf'" using remove_repo_step [OF I 1] by blast
  have "seq (forget_in_repos_toml (storage_dir rf') n) (\<lambda>_. ret (word_of_nat (length s))) sv1 = (Ok k, sv')"
    using 2 root_okD(4) [OF svc_inv_root_ok [OF I1 rf1]] by (simp add: reads_seq)
  then obtain x where x: "forget_in_repos_toml (storage_dir rf') n sv1 = (x, sv')" by (auto elim: seq_Ok_E simp: ret_def)
  have "listed sv1" by (rule quiet_listed [OF l I quiet_on_root [OF quiet_registrations(5)] 1])
  from forget_listed [OF this I1 rf1 remove_repo_gone [OF 1 rf1] x] show ?thesis .
qed

text \<open>The steps of a new workspace: its slot, its files, its registration.\<close>

lemma new_ws_frame:
  assumes h: "host_ok (sv_host sv)" and a: "on_root e alloc_slot sv = (Ok sl, sv1)" and c: "create_workspace_files dir r w cfg sv1 = (Ok (), sv2)"
    and g: "on_root err (register_workspace r w we) sv2 = (Ok (), sv3)"
  shows "reg_frame {} sv sv3" and "\<exists>rf'. sv_root_fs sv3 = Some rf'"
proof -
  have q1: "reg_frame {} sv sv1" by (rule svc_quietD [OF quiet_on_root [OF quiet_registrations(1)] h a])
  then have h1: "host_ok (sv_host sv1)" by (simp add: reg_frame_ok)
  have q2: "reg_frame {} sv1 sv2" by (rule svc_quietD [OF quiet_create_files h1 c])
  then have h2: "host_ok (sv_host sv2)" by (simp add: reg_frame_ok)
  have q3: "reg_frame {} sv2 sv3" by (rule svc_quietD [OF quiet_on_root [OF quiet_registrations(2)] h2 g])
  show "reg_frame {} sv sv3" using reg_frame_trans [OF reg_frame_trans [OF q1 q2] q3] by simp
  show "\<exists>rf'. sv_root_fs sv3 = Some rf'" using g by (auto elim!: on_root_Ok)
qed

lemma create_listed:
  assumes I: "svc_inv sv" and l: "listed sv" and run: "svc_workspace_create r w sv = (Ok p, sv')"
  shows "listed sv'"
proof -
  obtain rf dir sl tree sv1 sv2 sv3 where rf: "sv_root_fs sv = Some rf" and dir: "sv_storage sv = OnDisk dir"
    and a: "on_root (\<lambda>_. not_configured) alloc_slot sv = (Ok sl, sv1)"
    and c: "create_workspace_files dir r w (new_config Pending sl tree) sv1 = (Ok (), sv2)"
    and g: "on_root (\<lambda>e. if e = AlreadyExists then Status AlreadyExistsCode (''workspace '' @ w @ '' already exists in repo '' @ r)
           else Status Internal ''registering workspace'') (register_workspace r w (new_entry_of Pending sl tree)) sv2 = (Ok (), sv3)"
    and u: "update_repos_toml dir (\<lambda>rf cfg. cfg\<lparr>rc_next_slot := next_slot rf\<rparr>) sv3 = (Ok (), sv')"
    by (rule svc_create_Ok [OF run])
  have d: "dir = storage_dir rf" using dir root_okD(4) [OF svc_inv_root_ok [OF I rf]] by simp
  have h: "toml_law (sv_toml sv)" "host_ok (sv_host sv)" using svc_inv_host_ok [OF I] by auto
  note fr = new_ws_frame [OF h(2) a c g]
  obtain rf' where rf': "sv_root_fs sv3 = Some rf'" using fr(2) by blast
  have d': "dir = storage_dir rf'" by (rule reg_frameD [OF fr(1) rf']) (use rf d in simp)
  have h3: "toml_law (sv_toml sv3)" "host_ok (sv_host sv3)" using reg_frame_ok [OF fr(1)] h by simp_all
  have cov: "covered {} sv3" using covered_frame [OF l [unfolded listed_def] fr(1)] by simp
  show ?thesis by (rule update_listed [OF cov h3 rf' u [unfolded d']]) simp_all
qed

lemma clone_listed:
  assumes I: "svc_inv sv" and l: "listed sv" and run: "svc_clone C serve open_store url name sv = (Ok p, sv')"
  shows "listed sv'"
proof -
  obtain n dir a rem rf where c: "repo_name_for url name = Inr n" "sv_root_fs sv = Some rf" "repo_store rf n = None" "sv_storage sv = OnDisk dir"
      "open_store n = Inr a" "clone_remote C url = Inr rem" "clone_repo dir n url a (map_option serve rem) sv = (Ok p, sv')"
    using svc_clone_Ok [OF run] by blast
  have d: "dir = storage_dir rf" using c(4) root_okD(4) [OF svc_inv_root_ok [OF I c(2)]] by simp
  have h: "toml_law (sv_toml sv)" "host_ok (sv_host sv)" using svc_inv_host_ok [OF I] by auto
  obtain u0 sv0 sl sv1 tree sv2 sv3 where 0: "on_root (\<lambda>_. not_configured) (modifies (register_repo n url a (map_option serve rem))) sv = (Ok u0, sv0)"
    and 1: "on_root (\<lambda>_. not_configured) alloc_slot sv0 = (Ok sl, sv1)"
    and 2: "create_workspace_files dir n ''default'' (new_config Active sl tree) sv1 = (Ok (), sv2)"
    and 3: "on_root (\<lambda>_. Status Internal ''registering workspace'') (register_workspace n ''default'' (new_entry_of Active sl tree)) sv2 = (Ok (), sv3)"
    and 4: "update_repos_toml dir (\<lambda>rf cfg. cfg\<lparr>rc_repos := bt_insert n url (rc_repos cfg), rc_next_slot := next_slot rf\<rparr>) sv3 = (Ok (), sv')"
    using c(7) unfolding clone_repo_def by (elim seq_Ok_E) (auto dest!: of_sum_Ok store_empty_tree_Ok intro: that)
  have q: "reg_frame {n} sv sv0" by (rule svc_quietD [OF quiet_on_root [OF quiet_registrations(7)] h(2) 0]) simp
  then have h0: "host_ok (sv_host sv0)" by (simp add: reg_frame_ok)
  note fr = new_ws_frame [OF h0 1 2 3]
  have fr3: "reg_frame {n} sv sv3" using reg_frame_trans [OF q fr(1)] by simp
  obtain rf' where rf': "sv_root_fs sv3 = Some rf'" using fr(2) by blast
  have d': "dir = storage_dir rf'" by (rule reg_frameD [OF fr3 rf']) (use c(2) d in simp)
  have h3: "toml_law (sv_toml sv3)" "host_ok (sv_host sv3)" using reg_frame_ok [OF fr3] h by simp_all
  have cov: "covered {n} sv3" using covered_frame [OF l [unfolded listed_def] fr3] by simp
  show ?thesis
    by (rule update_listed [OF cov h3 rf' 4 [unfolded d']]) (use repo_name_component [OF c(1)] in auto)
qed

lemma finalize_listed:
  assumes "svc_inv sv" and "listed sv" and "svc_workspace_finalize r w sv = (Ok (), sv')"
  shows "listed sv'"
proof -
  have "svc_quiet {} (svc_workspace_finalize r w)"
    unfolding svc_workspace_finalize_def Let_def
    by (intro quiet_seq quiet_on_root quiet_registrations quiet_asks) (auto intro: quiets split: StorageConfig.split)
  from quiet_listed [OF assms(2,1) this assms(3)] show ?thesis .
qed

lemma remote_remove_listed:
  assumes I: "svc_inv sv" and l: "listed sv" and run: "svc_remote_remove r sv = (Ok (), sv')"
  shows "listed sv'"
proof -
  obtain dir sv1 where 1: "on_root (\<lambda>_. not_configured) (modifies (\<lambda>rf. snd (set_repo_remote r [] None rf))) sv = (Ok (), sv1)"
    and dir: "sv_storage sv1 = OnDisk dir"
    and 2: "update_repos_toml dir (\<lambda>rf cfg. if map_of (rc_repos cfg) r = None then cfg else cfg\<lparr>rc_repos := bt_insert r [] (rc_repos cfg)\<rparr>) sv1 = (Ok (), sv')"
    using run by (auto simp: svc_remote_remove_def throw_def elim!: seq_Ok_E dest!: ask_root_Ok storage_root_Ok split: if_splits)
  have h: "toml_law (sv_toml sv)" "host_ok (sv_host sv)" using svc_inv_host_ok [OF I] by auto
  have q: "reg_frame {} sv sv1" by (rule svc_quietD [OF quiet_on_root [OF quiet_registrations(6)] h(2) 1])
  obtain rf rf' where rf: "sv_root_fs sv = Some rf" "sv_root_fs sv1 = Some rf'" "sv_storage sv1 = sv_storage sv" using 1 by (auto elim!: on_root_Ok)
  have d': "dir = storage_dir rf'"
    by (rule reg_frameD [OF q rf(2)]) (use rf dir root_okD(4) [OF svc_inv_root_ok [OF I rf(1)]] in simp)
  have h1: "toml_law (sv_toml sv1)" "host_ok (sv_host sv1)" using reg_frame_ok [OF q] h by simp_all
  have cov: "covered {} sv1" using covered_frame [OF l [unfolded listed_def] q] by simp
  show ?thesis by (rule update_listed [OF cov h1 rf(2) 2 [unfolded d']]) (auto split: if_splits)
qed

text \<open>An ad-hoc mount only writes its own \<^verbatim>\<open>mount.toml\<close>.\<close>

lemma mounts_listed: "listed sv \<Longrightarrow> listed (sv\<lparr>sv_mounts := ms\<rparr>)"
  by (simp add: listed_def covered_def)

lemma mount_persist_listed:
  assumes I: "svc_inv sv" and l: "listed sv" and m: "map_of (sv_mounts sv) p = Some m"
    and 1: "on_host f (persist_metadata_snapshot (mt_meta_path m) md) sv = (Ok (), sv1)" and 2: "put_mount p m' sv1 = (Ok (), sv')"
  shows "listed sv'"
proof -
  obtain h where h: "persist_metadata_snapshot (mt_meta_path m) md (sv_toml sv) (sv_host sv) = (Inr (), h)"
    and sv1: "sv1 = sv\<lparr>sv_host := h\<rparr>" by (rule on_host_Ok [OF 1])
  have ok: "host_ok (sv_host sv)" using svc_inv_host_ok [OF I] by simp
  have "host_frame dir (sv_host sv) h" for dir
  proof (cases "mt_meta_path m")
    case None
    then show ?thesis using h ok by (simp add: persist_metadata_snapshot_def io_ret_def host_frame_def)
  next
    case (Some mp)
    then obtain d where mp: "mp = path_join d META_FILE" using I svc_okD(4) [OF _ m] by (auto simp: svc_inv_def)
    obtain y where "mount_write_to (sv_toml sv) md mp (sv_host sv) = (y, h)"
      using h Some by (auto simp: persist_metadata_snapshot_def io_context_def split: prod.splits sum.splits)
    from write_frame [OF ok meta_path_last meta_not_repos this [unfolded mp mount_write_to_def]] show ?thesis .
  qed
  then have "reg_frame {} sv sv1" by (auto simp: sv1 reg_frame_def host_frame_def)
  then have "listed sv1" using covered_frame [OF l [unfolded listed_def]] by (fastforce simp: listed_def)
  then show ?thesis using 2 mounts_listed by (auto simp: put_mount_def modifies_def)
qed

lemma set_checkout_listed:
  assumes I: "svc_inv sv" and l: "listed sv" and run: "svc_set_checkout_state p cs sv = (Ok (), sv')"
  shows "listed sv'"
proof -
  obtain a b where cs: "cs = Some (a, b)" using run by (cases cs) (auto simp: svc_set_checkout_state_def throw_def)
  show ?thesis
  proof (cases "is_managed sv p")
    case (Some rw)
    obtain r w where rw: "rw = (r, w)" by (cases rw)
    have "on_root (\<lambda>e. if e = NotFound then ws_not_found r w else Status Internal (''SetCheckoutState for '' @ r @ ''/'' @ w)) (set_checkout_state r w a b) sv = (Ok (), sv')"
      using run Some rw by (simp add: svc_set_checkout_state_def cs reads_seq)
    from quiet_listed [OF l I quiet_on_root [OF quiet_stamps(1)] this] show ?thesis .
  next
    case None
    obtain m sv1 where m: "map_of (sv_mounts sv) p = Some m"
      and 1: "on_host (metadata_status ''persist checkout state'')
        (persist_metadata_snapshot (mt_meta_path m) ((mount_metadata m)\<lparr>mm_op_id := a, mm_workspace_id := b\<rparr>)) sv = (Ok (), sv1)"
      and 2: "put_mount p (m\<lparr>mt_op_id := a, mt_workspace_id := b\<rparr>) sv1 = (Ok (), sv')"
      using run None by (auto simp: svc_set_checkout_state_def cs reads_seq get_mount_def fetch_or_def elim!: seq_Ok_E split: option.splits)
    from mount_persist_listed [OF I l m 1 2] show ?thesis .
  qed
qed

lemma stamp_mount_listed:
  assumes I: "svc_inv sv" and l: "listed sv" and run: "stamp_mount c what p tree sv = (Ok (), sv')"
  shows "listed sv'"
proof -
  obtain m sv1 where m: "map_of (sv_mounts sv) p = Some m"
    and 1: "on_host (metadata_status c) (persist_metadata_snapshot (mt_meta_path m) ((mount_metadata m)\<lparr>mm_root_tree_id := tree\<rparr>)) sv = (Ok (), sv1)"
    and 2: "put_mount p (m\<lparr>mt_root_tree_id := tree\<rparr>) sv1 = (Ok (), sv')"
    using run by (auto simp: stamp_mount_def fetch_or_def elim!: seq_Ok_E split: option.splits)
  from mount_persist_listed [OF I l m 1 2] show ?thesis .
qed

lemma on_mount_listed: "listed sv \<Longrightarrow> on_mount f p m op sv = (x, sv') \<Longrightarrow> listed sv'"
  using mounts_listed by (auto simp: on_mount_def split: prod.splits)

lemma push_mount_listed: "listed sv \<Longrightarrow> push_mount rs p root (sv, s) = (Ok (), sv', s') \<Longrightarrow> listed sv'"
  using mounts_listed by (auto simp: push_mount_def split: option.splits prod.splits)

lemma stores_listed: "listed sv \<Longrightarrow> sv_root_fs sv = Some rf \<Longrightarrow> listed (sv\<lparr>sv_root_fs := Some (rf\<lparr>stores := ss\<rparr>)\<rparr>)"
  by (simp add: listed_def covered_def)

lemma push_repo_listed: "listed sv \<Longrightarrow> push_repo rs a root (sv, s) = (Ok (), sv', s') \<Longrightarrow> listed sv'"
  using stores_listed by (auto simp: push_repo_def split: option.splits prod.splits)

lemma check_out_listed:
  assumes I: "svc_inv sv" and l: "listed sv" and run: "svc_check_out p t ms sv = (Ok (), sv')"
  shows "listed sv'"
proof -
  have len: "length t = 20" using run by (auto simp: svc_check_out_def throw_def split: if_splits)
  show ?thesis
  proof (cases "is_managed sv p")
    case (Some rw)
    obtain r w where rw: "rw = (r, w)" by (cases rw)
    have run': "seq (on_root (\<lambda>_. ws_not_found r w) (get_workspace r w)) (\<lambda>(slot, _, _).
        seq (on_root (check_out_failed t) (on_live slot (fs_check_out t (trunc_div ms 1000)))) (\<lambda>_. stamp_root ''check_out'' r w t ms)) sv = (Ok (), sv')"
      using run Some rw len by (simp add: svc_check_out_def reads_seq Let_def)
    have q: "svc_quiet {} (seq (on_root (\<lambda>_. ws_not_found r w) (get_workspace r w)) (\<lambda>(slot, _, _).
        seq (on_root (check_out_failed t) (on_live slot (fs_check_out t (trunc_div ms 1000)))) (\<lambda>_. stamp_root ''check_out'' r w t ms)))"
      unfolding stamp_root_def by (auto intro!: quiet_seq quiet_on_root quiet_queries quiet_stamps split: prod.split)
    show ?thesis by (rule quiet_listed [OF l I q run'])
  next
    case None
    obtain m sv1 where m: "map_of (sv_mounts sv) p = Some m" and 1: "on_mount (check_out_failed t) p m (fs_check_out t (trunc_div ms 1000)) sv = (Ok (), sv1)"
      and 2: "stamp_mount ''persist checkout metadata'' ''check_out'' p t sv1 = (Ok (), sv')"
      using run None len unfolding svc_check_out_def by (auto elim!: seq_Ok_E dest!: get_mount_Ok simp: reads_seq Let_def)
    from stamp_mount_listed [OF on_mount_inv [OF I m 1] on_mount_listed [OF l 1] 2] show ?thesis .
  qed
qed

lemma snapshot_listed:
  assumes I: "svc_inv sv" and l: "listed sv" and run: "svc_snapshot rs rh p (sv, s) = (Ok x, sv', s')"
  shows "listed sv'"
proof (cases "is_managed sv p")
  case (Some rw)
  obtain r w where rw: "rw = (r, w)" by (cases rw)
  then obtain tree hd gp where sm: "snapshot_managed rs p r w (sv, s) = (Ok (tree, hd, gp), sv', s')"
    using run Some by (auto simp: svc_snapshot_def on_service_def reads_def elim!: seq_Ok_E)
  obtain sl a rm sv1 sv2 sv3 where 1: "on_root (\<lambda>_. ws_not_found r w) (get_workspace r w) sv = (Ok (sl, a, rm), sv1)"
    and 2: "on_root (snapshot_failed p) (on_live sl fs_snapshot) sv1 = (Ok tree, sv2)"
    and 3: "push_repo rs a tree (sv2, s) = (Ok (), sv3, s')"
    and 4: "stamp_root ''snapshot'' r w tree 0 sv3 = (Ok (), sv')"
    using sm unfolding snapshot_managed_def by (auto elim!: seq_Ok_E dest!: on_service_Ok ask_root_Ok simp: ret_def)
  note I1 = get_workspace_step [OF I 1]
  note ol = on_live_step [OF I1 op_evo(1) 2]
  have "length tree = 20" using snapshot_managed_Ok [OF I sm] by blast
  note I3 = push_repo_step(1) [OF ol(1) this 3]
  have "listed sv1" by (rule quiet_listed [OF l I quiet_on_root [OF quiet_queries(3)] 1])
  then have "listed sv2" by (rule quiet_listed [OF _ I1 quiet_on_root [OF quiet_queries(4)] 2])
  then have "listed sv3" by (rule push_repo_listed [OF _ 3])
  then show ?thesis by (rule quiet_listed [OF _ I3 quiet_on_root [OF quiet_stamps(2)] 4 [unfolded stamp_root_def]])
next
  case None
  then obtain tree hd gp where "snapshot_adhoc rs p (sv, s) = (Ok (tree, hd, gp), sv', s')"
    using run by (auto simp: svc_snapshot_def on_service_def reads_def elim!: seq_Ok_E)
  then obtain m sv1 sv2 where m: "map_of (sv_mounts sv) p = Some m" and 1: "on_mount (snapshot_failed p) p m fs_snapshot sv = (Ok tree, sv1)"
    and 2: "push_mount rs p tree (sv1, s) = (Ok (), sv2, s')" and 3: "stamp_mount ''persist snapshot metadata'' ''snapshot'' p tree sv2 = (Ok (), sv')"
    unfolding snapshot_adhoc_def by (auto elim!: seq_Ok_E dest!: on_service_Ok get_mount_Ok simp: ret_def)
  note I2 = push_mount_inv [OF on_mount_inv [OF I m 1] 2]
  from stamp_mount_listed [OF I2 push_mount_listed [OF on_mount_listed [OF l 1] 2] 3] show ?thesis .
qed

lemma query_listed:
  assumes I: "svc_inv sv" and l: "listed sv"
  shows "svc_get_tree_state p sv = (Ok t, sv') \<Longrightarrow> listed sv'"
    and "svc_get_checkout_state p sv = (Ok c, sv') \<Longrightarrow> listed sv'"
proof -
  show "listed sv'" if "svc_get_tree_state p sv = (Ok t, sv')"
    using that l quiet_listed [OF l I quiet_on_root [OF quiet_queries(1)]]
    by (auto simp: svc_get_tree_state_def reads_seq get_mount_def fetch_or_def ret_def elim!: seq_Ok_E split: option.splits prod.splits)
  show "listed sv'" if "svc_get_checkout_state p sv = (Ok c, sv')"
    using that l quiet_listed [OF l I quiet_on_root [OF quiet_queries(2)]]
    by (auto simp: svc_get_checkout_state_def checkout_reply_def reads_seq get_mount_def fetch_or_def ret_def throw_def elim!: seq_Ok_E split: option.splits prod.splits if_splits)
qed

lemma run_listed:
  assumes I: "svc_inv sv" and l: "listed sv" and run: "svc_run q sv = (Ok (), sv')"
  shows "listed sv'"
proof (cases q)
  case (QWorkspaceList r)
  then show ?thesis using run l
    by (auto elim!: seq_Ok_E dest!: ask_root_Ok simp: svc_workspace_list_def ret_def fetch_or_def throw_def split: option.splits)
next
  case (QRemoteShow r)
  then show ?thesis using run l by (auto elim!: seq_Ok_E dest!: ask_root_Ok simp: svc_remote_show_def ret_def throw_def split: option.splits)
qed (use run l create_listed [OF I l] finalize_listed [OF I l] set_checkout_listed [OF I l] delete_listed [OF I l] repo_delete_listed [OF I l]
      repo_forget_listed [OF I l] remote_remove_listed [OF I l] query_listed [OF I l] in
    \<open>auto elim!: seq_Ok_E dest!: ask_root_Ok simp: ret_def svc_repo_list_def svc_daemon_status_def\<close>)

text \<open>The invariant of a daemon whose requests succeed: its files describe the workspaces and list the repositories.\<close>

lemma served_listed: "served sv0 sv \<Longrightarrow> svc_inv sv0 \<Longrightarrow> listed sv0 \<Longrightarrow> svc_inv sv \<and> listed sv"
  by (induction rule: served.induct)
    (auto intro: svc_run_inv svc_clone_inv svc_check_out_inv svc_snapshot_inv run_listed clone_listed check_out_listed snapshot_listed)

section \<open>A daemon that has just started\<close>

lemma rehydrate_workspaces_names: "repo_names (rehydrate_workspaces r ws rf) = repo_names rf \<and> storage_dir (rehydrate_workspaces r ws rf) = storage_dir rf"
proof (induction r ws rf rule: rehydrate_workspaces.induct)
  case (2 r w c ws rf)
  have "repo_names (snd (register_workspace r w we rf)) = repo_names rf \<and> storage_dir (snd (register_workspace r w we rf)) = storage_dir rf" for we
    by (simp add: register_workspace_def get_repo_def fetch_or_def seq_apply modifies_def throw_def Let_def split: option.split)
  then show ?case using 2 by simp
qed simp

lemma rehydrate_repos_names:
  "repo_names (rehydrate_repos os pu rs rf) \<subseteq> repo_names rf \<union> fst ` set rs \<and> storage_dir (rehydrate_repos os pu rs rf) = storage_dir rf"
proof (induction os pu rs rf rule: rehydrate_repos.induct)
  case (2 os pu name url rs rf)
  have one: "repo_names (register_repo name url st rem rf) \<subseteq> insert name (repo_names rf) \<and> storage_dir (register_repo name url st rem rf) = storage_dir rf" for st rem
    by (auto simp: register_repo_def Let_def)
  show ?case
    using 2 one rehydrate_workspaces_names by (fastforce simp: Let_def split: sum.splits prod.splits)
qed simp

lemma started_listed:
  assumes rf: "rehydrate_root_fs (\<lambda>ns. root_fs_new dir ns now sts paths ready h L chain mkdirs) os pu L dir h = Inr rf'"
    and sv: "sv_root_fs sv = Some rf'" "sv_host sv = h" "sv_toml sv = L"
    and fault: "\<not> h_fault h IoStat (repos_config_path dir)" and names: "\<And>cfg n. registry L h dir cfg \<Longrightarrow> n \<in> dom (map_of (rc_repos cfg)) \<Longrightarrow> component n"
  shows "listed sv"
proof -
  obtain cfg h' where cfg: "repos_read_or_default L (repos_config_path dir) h = (Inr cfg, h')"
    and rf': "rf' = rehydrate_repos os pu (rc_repos cfg) (root_fs_new dir (rc_next_slot cfg) now sts paths ready h L chain mkdirs)"
    using rf by (auto simp: rehydrate_root_fs_def split: prod.splits sum.splits)
  have "recorded L h dir cfg"
    using cfg fault by (auto simp: recorded_def registry_def repos_read_or_default_def host_exists_def read_to_string_def io_defs host_defs
        split: if_splits option.splits sum.splits)
  moreover have "\<forall>n \<in> dom (map_of (rc_repos cfg)). component n"
    using calculation names by (auto simp: recorded_def repos_config_default_def)
  moreover have "repo_names rf' \<subseteq> dom (map_of (rc_repos cfg))" "storage_dir rf' = dir"
    using rehydrate_repos_names [of os pu "rc_repos cfg" "root_fs_new dir (rc_next_slot cfg) now sts paths ready h L chain mkdirs"]
    by (auto simp: rf' dom_map_of_conv_image_fst) (auto simp: repo_names_def root_fs_new_def)
  ultimately show ?thesis using sv fault by (auto simp: listed_def covered_def)
qed

end
