(* ===== verification/Service_Props.thy ===== *)
theory Service_Props
  imports Service_Listed
begin

text \<open>
  Properties of the managed-workspace requests: creating a workspace, what the files on disk say of the
  registered workspaces, and what a restart makes of them.
\<close>

section \<open>Creating a workspace\<close>

text \<open>The state in which a request to create \<open>w\<close> in \<open>r\<close> gets past its guards and its files can be written.\<close>

definition can_create :: "string \<Rightarrow> string \<Rightarrow> bytes \<Rightarrow> 'g root_fs \<Rightarrow> 'g service \<Rightarrow> bool" where
  "can_create r w tree rf sv \<longleftrightarrow>
     sv_root_fs sv = Some rf \<and> (\<not> sv_vfs_handle sv \<or> sv_mount_attachment sv) \<and> validate_name w = Inr () \<and>
     (\<exists>st s. repo_store rf r = Some st \<and> stores rf st = Some s \<and> tree = jj_empty_tree_id (glib s)) \<and>
     no_fault (sv_host sv) \<and> next_slot rf \<noteq> - 1 \<and>
     (\<exists>b. toml_print (sv_toml sv) (workspace_config_to_toml (new_config Pending (next_slot rf) tree)) = Inr b)"

lemma create_files_succeed:
  assumes h: "host_ok (sv_host sv)" "no_fault (sv_host sv)" and b: "toml_print (sv_toml sv) (workspace_config_to_toml c) = Inr b"
  shows "\<exists>h. create_workspace_files dir r w c sv = (Ok (), sv\<lparr>sv_host := h\<rparr>) \<and> no_fault h \<and>
    file_at h (repos_config_path dir) = file_at (sv_host sv) (repos_config_path dir)"
proof -
  obtain h1 where w: "workspace_write_to (sv_toml sv) c (workspace_config_path dir r w) (sv_host sv) = (Inr (), h1)"
    using write_toml_succeeds [OF h b] unfolding workspace_write_to_def by blast
  have k: "file_at h1 (repos_config_path dir) = file_at (sv_host sv) (repos_config_path dir)" "h_fault h1 = h_fault (sv_host sv)"
    using workspace_write_frame [OF h(1) w] by (simp_all add: host_frame_def)
  define h2 where "h2 = h1\<lparr>h_dirs := List.insert (workspace_scratch_dir dir r w) (h_dirs h1)\<rparr>"
  have "io_context (\<lambda>_. ''create_dir_all'') (host_create_dir_all (workspace_scratch_dir dir r w)) h1 = (Inr (), h2)"
    using h(2) k(2) by (simp add: io_defs host_defs no_fault_def h2_def)
  then have "create_workspace_files dir r w c sv = (Ok (), sv\<lparr>sv_host := h2\<rparr>)"
    using w by (simp add: create_workspace_files_def seq_apply on_host_def)
  moreover have "no_fault h2" "file_at h2 (repos_config_path dir) = file_at (sv_host sv) (repos_config_path dir)"
    using h(2) k by (simp_all add: no_fault_def h2_def)
  ultimately show ?thesis by blast
qed

lemma create_runs_to_register:
  assumes ok: "svc_inv sv" and can: "can_create r w tree rf sv"
  defines "sl \<equiv> next_slot rf"
  defines "reg \<equiv> on_root (\<lambda>e. if e = AlreadyExists then Status AlreadyExistsCode (''workspace '' @ w @ '' already exists in repo '' @ r)
      else Status Internal ''registering workspace'') (register_workspace r w (new_entry_of Pending sl tree))"
  obtains h sv2 where "sv2 = sv\<lparr>sv_root_fs := Some (rf\<lparr>root_host := sv_host sv, next_slot := sl + 1\<rparr>), sv_host := h\<rparr>"
    and "svc_workspace_create r w sv = seq reg (\<lambda>_. seq (update_repos_toml (storage_dir rf) (\<lambda>rf cfg. cfg\<lparr>rc_next_slot := next_slot rf\<rparr>)) (\<lambda>_.
      (\<lambda>sv. of_sum (workspace_path sv r w) sv))) sv2"
    and "no_fault h" and "host_ok h" and "file_at h (repos_config_path (storage_dir rf)) = file_at (sv_host sv) (repos_config_path (storage_dir rf))"
    and "on_disk (sv_toml sv) h (workspace_config_path (storage_dir rf) r w) = Some (new_config Pending sl tree)"
proof -
  have rf: "sv_root_fs sv = Some rf" using can by (simp add: can_create_def)
  note rok = svc_inv_root_ok [OF ok rf]
  have so: "svc_ok sv" using ok by (simp add: svc_inv_def)
  define sv1 where "sv1 = sv\<lparr>sv_root_fs := Some (rf\<lparr>root_host := sv_host sv, next_slot := sl + 1\<rparr>), sv_host := sv_host sv\<rparr>"
  have s1: "host_ok (sv_host sv1)" "no_fault (sv_host sv1)" "sv_toml sv1 = sv_toml sv" "toml_law (sv_toml sv1)"
    using svc_okD(1,2) [OF so] can by (simp_all add: sv1_def can_create_def)
  obtain b where "toml_print (sv_toml sv1) (workspace_config_to_toml (new_config Pending sl tree)) = Inr b" using can s1(3) by (auto simp: can_create_def sl_def)
  from create_files_succeed [OF s1(1,2) this, of "storage_dir rf" r w]
  obtain h where c: "create_workspace_files (storage_dir rf) r w (new_config Pending sl tree) sv1 = (Ok (), sv1\<lparr>sv_host := h\<rparr>)" "no_fault h"
      "file_at h (repos_config_path (storage_dir rf)) = file_at (sv_host sv1) (repos_config_path (storage_dir rf))" by blast
  obtain h' where h': "sv1\<lparr>sv_host := h\<rparr> = sv1\<lparr>sv_host := h'\<rparr>" "host_ok h'" "on_disk (sv_toml sv1) h' (workspace_config_path (storage_dir rf) r w) = Some (new_config Pending sl tree)"
    by (rule create_files_Ok [OF s1(4,1) c(1)])
  have "h' = h" using arg_cong [OF h'(1), of sv_host] by simp
  note h = h'(2,3) [unfolded this]
  have a: "on_root (\<lambda>_. not_configured) alloc_slot sv = (Ok sl, sv1)"
    using can rf by (simp add: on_root_def alloc_slot_def reads_seq modifies_seq ret_def sl_def sv1_def can_create_def)
  obtain st s where st: "repo_store rf r = Some st" "stores rf st = Some s" "tree = jj_empty_tree_id (glib s)" using can by (auto simp: can_create_def)
  have t: "store_empty_tree st sv1 = (Ok tree, sv1)" using st by (simp add: store_empty_tree_def sv1_def)
  have g: "require_mount_active sv = (Ok (), sv)" "require_root_fs sv = (Ok (), sv)" "ask_root (\<lambda>rf. repo_store rf r) sv = (Ok (Some st), sv)"
      "storage_root what sv = (Ok (storage_dir rf), sv)" "validate_name w = Inr ()" for what
    using can rf st(1) root_okD(4) [OF rok] by (simp_all add: can_create_def require_mount_active_def require_root_fs_def ask_root_def storage_root_def)
  have "svc_workspace_create r w sv = seq reg (\<lambda>_. seq (update_repos_toml (storage_dir rf) (\<lambda>rf cfg. cfg\<lparr>rc_next_slot := next_slot rf\<rparr>)) (\<lambda>_.
      (\<lambda>sv. of_sum (workspace_path sv r w) sv))) (sv1\<lparr>sv_host := h\<rparr>)"
    unfolding svc_workspace_create_def reg_def
    by (simp add: seq_apply g a t c(1))
  then show ?thesis using that c(2,3) h by (simp add: sv1_def)
qed

lemma update_repos_succeed:
  assumes lib: "toml_law (sv_toml sv)" and h: "host_ok (sv_host sv)" "no_fault (sv_host sv)" and rf: "sv_root_fs sv = Some rf"
    and reg: "registry (sv_toml sv) (sv_host sv) dir cfg"
    and b: "toml_print (sv_toml sv) (repos_config_to_toml (f rf cfg)) = Inr b" and wf: "bt_wf (rc_repos (f rf cfg))"
  shows "\<exists>h'. update_repos_toml dir f sv = (Ok (), sv\<lparr>sv_host := h'\<rparr>) \<and> no_fault h' \<and> registry (sv_toml sv) h' dir (f rf cfg)"
proof -
  have r: "repos_read_or_default (sv_toml sv) (repos_config_path dir) (sv_host sv) = (Inr cfg, sv_host sv)"
    using registry_read [OF reg] h(2) by (simp add: readable_def no_fault_def)
  obtain h' where w: "repos_write_to (sv_toml sv) (f rf cfg) (repos_config_path dir) (sv_host sv) = (Inr (), h')"
    using write_toml_succeeds [OF h b] unfolding repos_write_to_def by blast
  then show ?thesis
    using repos_written [OF lib h(1) wf w] r rf h(2) by (auto simp: update_repos_toml_def seq_apply on_host_def ask_root_def sv_host_same no_fault_def)
qed

lemma create_succeeds:
  assumes I: "svc_inv sv" and can: "can_create r w tree rf sv" and new: "find_ws rf r w = None" and room: "unat (next_slot rf) < 2 ^ 24"
    and reg: "registry (sv_toml sv) (sv_host sv) (storage_dir rf) cfg"
    and b: "toml_print (sv_toml sv) (repos_config_to_toml (cfg\<lparr>rc_next_slot := next_slot rf + 1\<rparr>)) = Inr b"
    and root: "sv_mount_root sv = Some root" and wf: "bt_wf (rc_repos cfg)"
  obtains h' rf1 where "svc_workspace_create r w sv = (Ok (path_join (path_join root r) w), sv\<lparr>sv_root_fs := Some rf1, sv_host := h'\<rparr>)"
    and "no_fault h'" and "next_slot rf1 = next_slot rf + 1" and "storage_dir rf1 = storage_dir rf"
    and "registry (sv_toml sv) h' (storage_dir rf) (cfg\<lparr>rc_next_slot := next_slot rf + 1\<rparr>)"
    and "\<And>q x. find_ws rf1 q x = (if q = r \<and> x = w then Some (new_entry_of Pending (next_slot rf) tree) else find_ws rf q x)"
proof -
  have rf: "sv_root_fs sv = Some rf" using can by (simp add: can_create_def)
  note rok = svc_inv_root_ok [OF I rf]
  obtain h sv2 where sv2: "sv2 = sv\<lparr>sv_root_fs := Some (rf\<lparr>root_host := sv_host sv, next_slot := next_slot rf + 1\<rparr>), sv_host := h\<rparr>"
    and run: "svc_workspace_create r w sv = seq (on_root (\<lambda>e. if e = AlreadyExists then Status AlreadyExistsCode (''workspace '' @ w @ '' already exists in repo '' @ r)
        else Status Internal ''registering workspace'') (register_workspace r w (new_entry_of Pending (next_slot rf) tree)))
      (\<lambda>_. seq (update_repos_toml (storage_dir rf) (\<lambda>rf cfg. cfg\<lparr>rc_next_slot := next_slot rf\<rparr>)) (\<lambda>_. (\<lambda>sv. of_sum (workspace_path sv r w) sv))) sv2"
    and h: "no_fault h" "host_ok h" "file_at h (repos_config_path (storage_dir rf)) = file_at (sv_host sv) (repos_config_path (storage_dir rf))"
    by (rule create_runs_to_register [OF I can])
  obtain re where re: "map_of (repos rf) r = Some re" using can by (auto simp: can_create_def repo_store_def)
  then have "map_of (re_workspaces re) w = None" using new by (simp add: find_ws_def)
  then obtain rf1 where g: "register_workspace r w (new_entry_of Pending (next_slot rf) tree) (rf\<lparr>next_slot := next_slot rf + 1, root_host := h\<rparr>) = (Ok (), rf1)"
    using re by (simp add: register_workspace_def get_repo_seq modifies_def)
  have wes: "we_slot (new_entry_of Pending (next_slot rf) tree) = next_slot rf" by (simp add: new_entry_of_def)
  have nm: "next_slot rf \<noteq> - 1" using can by (simp add: can_create_def)
  note st = register_step_inv [OF root_okD(1) [OF rok] nm root_okD(2) [OF rok] room wes g]
  define sv3 where "sv3 = sv\<lparr>sv_root_fs := Some rf1, sv_host := h\<rparr>"
  have r3: "on_root e (register_workspace r w (new_entry_of Pending (next_slot rf) tree)) sv2 = (Ok (), sv3)" for e
    using g st(3) by (simp add: on_root_def sv2 sv3_def)
  have s3: "toml_law (sv_toml sv3)" "host_ok (sv_host sv3)" "no_fault (sv_host sv3)" "sv_root_fs sv3 = Some rf1"
      "registry (sv_toml sv3) (sv_host sv3) (storage_dir rf) cfg" "sv_toml sv3 = sv_toml sv" "sv_mount_root sv3 = Some root"
    using h reg registry_cong [OF h(3)] I svc_okD(2) root by (auto simp: sv3_def svc_inv_def)
  obtain h' where u: "update_repos_toml (storage_dir rf) (\<lambda>rf cfg. cfg\<lparr>rc_next_slot := next_slot rf\<rparr>) sv3 = (Ok (), sv3\<lparr>sv_host := h'\<rparr>)" "no_fault h'"
      "registry (sv_toml sv) h' (storage_dir rf) (cfg\<lparr>rc_next_slot := next_slot rf + 1\<rparr>)"
    using update_repos_succeed [OF s3(1-5), of "\<lambda>rf cfg. cfg\<lparr>rc_next_slot := next_slot rf\<rparr>" b] b wf st(2) s3(6) by auto
  have "svc_workspace_create r w sv = (Ok (path_join (path_join root r) w), sv3\<lparr>sv_host := h'\<rparr>)"
    unfolding run using s3(7) by (simp add: seq_apply r3 u(1) workspace_path_def of_sum_def)
  then show ?thesis using that st(2,7,9) u by (simp add: sv3_def)
qed

text \<open>
  C19: On a host without faults, a request to create a workspace that does not exist succeeds. The workspace is registered as pending, in
  the next slot and with the empty tree, and every other workspace is as it was; its \<^verbatim>\<open>workspace.toml\<close>
  describes it; and the slot counter in \<^verbatim>\<open>repos.toml\<close> is beyond the slot of every registered workspace, so a
  restarted daemon does not give one of them out again.
\<close>

theorem workspace_create_registers:
  assumes "svc_ok sv" and "synced sv" and "can_create r w tree rf sv" and "find_ws rf r w = None" and "unat (next_slot rf) < 2 ^ 24"
    and "registry (sv_toml sv) (sv_host sv) (storage_dir rf) cfg"
    and "toml_print (sv_toml sv) (repos_config_to_toml (cfg\<lparr>rc_next_slot := next_slot rf + 1\<rparr>)) = Inr b"
    and "sv_mount_root sv = Some root" and "bt_wf (rc_repos cfg)"
  shows "\<exists>sv' rf'. svc_workspace_create r w sv = (Ok (path_join (path_join root r) w), sv') \<and> sv_root_fs sv' = Some rf' \<and>
    (\<forall>q x. find_ws rf' q x = (if q = r \<and> x = w then Some (new_entry_of Pending (next_slot rf) tree) else find_ws rf q x)) \<and>
    fst (workspace_read_from (sv_toml sv) (workspace_config_path (storage_dir rf) r w) (sv_host sv')) = Inr (new_config Pending (next_slot rf) tree) \<and>
    fst (repos_read_or_default (sv_toml sv) (repos_config_path (storage_dir rf)) (sv_host sv')) = Inr (cfg\<lparr>rc_next_slot := next_slot rf + 1\<rparr>) \<and>
    (\<forall>q x we. find_ws rf' q x = Some we \<longrightarrow> we_slot we < next_slot rf + 1)"
proof -
  have I: "svc_inv sv" using assms(1,2) by (simp add: svc_inv_def)
  have rf: "sv_root_fs sv = Some rf" using assms(3) by (simp add: can_create_def)
  obtain h' rf1 where out: "svc_workspace_create r w sv = (Ok (path_join (path_join root r) w), sv\<lparr>sv_root_fs := Some rf1, sv_host := h'\<rparr>)"
    and nf: "no_fault h'" and ns: "next_slot rf1 = next_slot rf + 1" and dir: "storage_dir rf1 = storage_dir rf"
    and reg: "registry (sv_toml sv) h' (storage_dir rf) (cfg\<lparr>rc_next_slot := next_slot rf + 1\<rparr>)"
    and f: "\<And>q x. find_ws rf1 q x = (if q = r \<and> x = w then Some (new_entry_of Pending (next_slot rf) tree) else find_ws rf q x)"
    using create_succeeds [OF I assms(3-9)] by metis
  define sv' where "sv' = sv\<lparr>sv_root_fs := Some rf1, sv_host := h'\<rparr>"
  have sv': "sv_root_fs sv' = Some rf1" "sv_toml sv' = sv_toml sv" "sv_host sv' = h'" by (simp_all add: sv'_def)
  have I': "svc_inv sv'" by (rule svc_create_inv [OF I _ out [folded sv'_def]]) (use assms(5) rf in \<open>simp add: slot_room_def\<close>)
  have fault: "readable h' p" for p using nf by (simp add: readable_def no_fault_def)
  have "on_disk (sv_toml sv') (sv_host sv') (workspace_config_path (storage_dir rf1) r w) = Some (entry_config (new_entry_of Pending (next_slot rf) tree))"
    by (rule syncedD [OF _ sv'(1)]) (use I' f in \<open>simp_all add: svc_inv_def\<close>)
  then have "fst (workspace_read_from (sv_toml sv) (workspace_config_path (storage_dir rf) r w) h') = Inr (new_config Pending (next_slot rf) tree)"
    using read_on_disk fault by (simp add: dir entry_config_new sv' readable_def)
  moreover have "fst (repos_read_or_default (sv_toml sv) (repos_config_path (storage_dir rf)) h') = Inr (cfg\<lparr>rc_next_slot := next_slot rf + 1\<rparr>)"
    using registry_read [OF reg fault] by simp
  moreover have "we_slot we < next_slot rf + 1" if "find_ws rf1 q x = Some we" for q x we
    using slots_okD(1) [OF _ that] root_okD(1) [OF svc_inv_root_ok [OF I' sv'(1)]] ns by (simp add: root_inv_def)
  ultimately show ?thesis using out [folded sv'_def] sv' f by blast
qed

section \<open>The files describe the registry, and a restart reads them\<close>

text \<open>
  As long as its requests succeed, the files describe what the service has registered: reading the
  \<^verbatim>\<open>workspace.toml\<close> of any registered workspace gives its slot, its state and everything the service knows of its check-out.
\<close>

theorem registered_workspaces_on_disk:
  assumes "svc_ok sv0" and "synced sv0" and "served sv0 sv" and "sv_root_fs sv = Some rf" and "find_ws rf r w = Some we"
    and "\<not> h_fault (sv_host sv) IoRead (workspace_config_path (storage_dir rf) r w)"
  shows "workspace_read_from (sv_toml sv) (workspace_config_path (storage_dir rf) r w) (sv_host sv) = (Inr (entry_config we), sv_host sv)"
proof -
  have "svc_inv sv" using served_inv [OF assms(3)] assms(1,2) by (simp add: svc_inv_def)
  then have "synced sv" by (simp add: svc_inv_def)
  from read_on_disk [OF syncedD [OF this assms(4,5)] assms(6)] show ?thesis .
qed

lemma config_entry_config [simp]: "config_entry (entry_config we) = we"
  by (cases we) (simp add: config_entry_def entry_config_def)

lemma disk_ws_active:
  assumes "svc_inv sv" and "sv_root_fs sv = Some rf" and "find_ws rf r w = Some we" and "we_state we = Active"
  shows "disk_ws (sv_toml sv) (storage_dir rf) (sv_host sv) r w = Some we"
proof -
  have "component w" using root_okD(6) [OF svc_inv_root_ok [OF assms(1,2)] assms(3)] .
  then show ?thesis using syncedD [OF _ assms(2,3)] assms(1,4) by (simp add: svc_inv_def disk_ws_def entry_config_def config_entry_def)
qed

text \<open>
  C18: A restart loses no finalized workspace. Start from a service whose files describe it: \<^verbatim>\<open>repos.toml\<close> lists the
  registered repositories and each registered workspace has its \<^verbatim>\<open>workspace.toml\<close>. After any sequence of successful requests,
  of clones, creations, removals, check-outs and snapshots, the routing filesystem a new daemon builds from the files has,
  for every repository whose store opens, each registered active workspace with the same entry, its slot and check-out
  included. The host must not fail to read what is there.
\<close>

theorem restart_recovers_workspaces:
  assumes "svc_ok sv0" and "synced sv0" and "listed sv0" and "served sv0 sv" and "sv_root_fs sv = Some rf"
    and "find_ws rf r w = Some we" and "we_state we = Active" and "listable (sv_host sv)" and "open_store r = Inr st"
  shows "\<exists>rf'. rehydrate_root_fs (\<lambda>ns. root_fs_new (storage_dir rf) ns now sts paths ready (sv_host sv) (sv_toml sv) chain mkdirs)
      open_store parse_url (sv_toml sv) (storage_dir rf) (sv_host sv) = Inr rf' \<and> find_ws rf' r w = Some we"
proof -
  have I: "svc_inv sv" "listed sv" using served_listed [OF assms(4)] assms(1-3) by (simp_all add: svc_inv_def)
  obtain cfg where cfg: "recorded (sv_toml sv) (sv_host sv) (storage_dir rf) cfg" "repo_names rf \<subseteq> dom (map_of (rc_repos cfg))"
      "\<forall>n \<in> dom (map_of (rc_repos cfg)). component n"
    by (rule coveredD [OF I(2) [unfolded listed_def] assms(5)]) (use that in simp)
  have "r \<in> repo_names rf"
    using assms(6) by (auto simp: find_ws_repo repo_names_def dest!: map_of_SomeD intro: rev_image_eqI)
  then have r: "map_of (rc_repos cfg) r \<noteq> None" using cfg(2) by (auto simp: dom_def)
  then have reg: "registry (sv_toml sv) (sv_host sv) (storage_dir rf) cfg"
    using cfg(1) by (auto simp: recorded_def repos_config_default_def)
  have "readable (sv_host sv) (repos_config_path (storage_dir rf))" using assms(8) by (simp add: listable_def readable_def)
  note read = registry_read [OF reg this]
  have names: "map_of (rc_repos cfg) n = Some url \<Longrightarrow> component n" for n url using cfg(3) by blast
  obtain rf' where "rehydrate_root_fs (\<lambda>ns. root_fs_new (storage_dir rf) ns now sts paths ready (sv_host sv) (sv_toml sv) chain mkdirs)
      open_store parse_url (sv_toml sv) (storage_dir rf) (sv_host sv) = Inr rf'"
    and "\<forall>r w. find_ws rf' r w = (if map_of (rc_repos cfg) r \<noteq> None \<and> \<not> isl (open_store r) then disk_ws (sv_toml sv) (storage_dir rf) (sv_host sv) r w else None)"
    using rehydrate_find_ws [OF assms(8) read] names by blast
  then show ?thesis using disk_ws_active [OF I(1) assms(5-7)] r assms(9) by auto
qed

text \<open>
  C37: A request to create a workspace that exists already is refused, but only after its \<^verbatim>\<open>workspace.toml\<close> has been
  replaced by that of a fresh pending one: the running daemon still has the active workspace with its
  check-out, and a daemon started from the files afterwards does not know it any more.
\<close>

theorem duplicate_create_loses_workspace:
  assumes "svc_ok sv" and "synced sv" and "can_create r w tree rf sv" and "find_ws rf r w = Some we" and "we_state we = Active"
    and "registry (sv_toml sv) (sv_host sv) (storage_dir rf) cfg" and "\<forall>n url. map_of (rc_repos cfg) n = Some url \<longrightarrow> component n"
  shows "\<exists>sv' rf1 rf'. svc_workspace_create r w sv = (Err (Status AlreadyExistsCode (''workspace '' @ w @ '' already exists in repo '' @ r)), sv') \<and>
    sv_root_fs sv' = Some rf1 \<and> find_ws rf1 r w = Some we \<and>
    rehydrate_root_fs (\<lambda>ns. root_fs_new (storage_dir rf) ns now sts paths ready (sv_host sv') (sv_toml sv) chain mkdirs)
      open_store parse_url (sv_toml sv) (storage_dir rf) (sv_host sv') = Inr rf' \<and> find_ws rf' r w = None"
proof -
  have I: "svc_inv sv" using assms(1,2) by (simp add: svc_inv_def)
  obtain h sv2 where sv2: "sv2 = sv\<lparr>sv_root_fs := Some (rf\<lparr>root_host := sv_host sv, next_slot := next_slot rf + 1\<rparr>), sv_host := h\<rparr>"
    and run: "svc_workspace_create r w sv = seq (on_root (\<lambda>e. if e = AlreadyExists then Status AlreadyExistsCode (''workspace '' @ w @ '' already exists in repo '' @ r)
        else Status Internal ''registering workspace'') (register_workspace r w (new_entry_of Pending (next_slot rf) tree)))
      (\<lambda>_. seq (update_repos_toml (storage_dir rf) (\<lambda>rf cfg. cfg\<lparr>rc_next_slot := next_slot rf\<rparr>)) (\<lambda>_. (\<lambda>sv. of_sum (workspace_path sv r w) sv))) sv2"
    and h: "no_fault h" "file_at h (repos_config_path (storage_dir rf)) = file_at (sv_host sv) (repos_config_path (storage_dir rf))"
      "on_disk (sv_toml sv) h (workspace_config_path (storage_dir rf) r w) = Some (new_config Pending (next_slot rf) tree)"
    by (rule create_runs_to_register [OF I assms(3)])
  obtain re where re: "map_of (repos rf) r = Some re" "map_of (re_workspaces re) w = Some we" using assms(4) by (auto simp: find_ws_repo)
  define rf1 where "rf1 = rf\<lparr>next_slot := next_slot rf + 1, root_host := h\<rparr>"
  define sv' where "sv' = sv\<lparr>sv_root_fs := Some rf1, sv_host := h\<rparr>"
  have g: "register_workspace r w e rf1 = (Err AlreadyExists, rf1)" for e
    using re by (simp add: register_workspace_def get_repo_seq throw_apply rf1_def)
  have on: "on_root f (register_workspace r w e) sv2 = (Err (f AlreadyExists), sv')" for f e
    using g [unfolded rf1_def] by (simp add: on_root_def sv2 sv'_def rf1_def)
  have "svc_workspace_create r w sv = (Err (Status AlreadyExistsCode (''workspace '' @ w @ '' already exists in repo '' @ r)), sv')"
    unfolding run seq_apply [of "on_root _ _"] on by simp
  moreover have "sv_root_fs sv' = Some rf1" "find_ws rf1 r w = Some we" "sv_host sv' = h"
    using assms(4) by (simp_all add: sv'_def rf1_def find_ws_def)
  moreover obtain rf' where "rehydrate_root_fs (\<lambda>ns. root_fs_new (storage_dir rf) ns now sts paths ready h (sv_toml sv) chain mkdirs)
      open_store parse_url (sv_toml sv) (storage_dir rf) h = Inr rf'" and "find_ws rf' r w = None"
  proof -
    have "registry (sv_toml sv) h (storage_dir rf) cfg" using assms(6) registry_cong [OF h(2)] by blast
    then have read: "repos_read_or_default (sv_toml sv) (repos_config_path (storage_dir rf)) h = (Inr cfg, h)"
      using registry_read h(1) by (simp add: readable_def no_fault_def)
    have "disk_ws (sv_toml sv) (storage_dir rf) h r w = None" using h(3) by (simp add: disk_ws_def new_config_def)
    moreover have "listable h" using h(1) by (simp add: listable_def no_fault_def)
    ultimately show ?thesis
      using rehydrate_find_ws [OF _ read, of now sts paths ready chain mkdirs open_store parse_url] assms(7) that by (metis (no_types, lifting))
  qed
  ultimately show ?thesis by metis
qed

section \<open>Cloning, and what a restart makes of it\<close>

text \<open>The remote of a repository at start-up: the synchronous parser on its URL.\<close>

definition parse_url_with :: "connector \<Rightarrow> (remote_handle \<Rightarrow> get_blob) \<Rightarrow> string \<Rightarrow> string + get_blob option" where
  "parse_url_with C serve url = map_sum (\<lambda>e. e) (map_option serve) (parse C url)"

definition is_ssh_url :: "string \<Rightarrow> bool" where
  "is_ssh_url url \<longleftrightarrow> strip_prefix ''kiki+ssh://'' url \<noteq> None"

lemma startup_parse:
  assumes "clone_remote C url = Inr rem"
  shows "startup_remote (parse_url_with C serve) url = (if is_ssh_url url then None else map_option serve rem)"
proof (cases "is_ssh_url url")
  case True
  then obtain e where "parse C url = Inl e" using async_refused [of url C] by (auto simp: is_ssh_url_def)
  then show ?thesis using True by (simp add: startup_remote_def parse_url_with_def)
next
  case False
  then have "parse C url = Inr rem"
    using assms by (auto simp: clone_remote_def ssh_or_def not_ssh is_ssh_url_def invalid_remote_def map_sum_Inr_iff)
  then show ?thesis using False by (simp add: startup_remote_def parse_url_with_def)
qed

lemma update_repos_written:
  assumes I: "svc_inv sv" and rf: "sv_root_fs sv = Some rf" and run: "update_repos_toml dir f sv = (Ok (), sv')"
    and wf: "\<And>cfg. bt_wf (rc_repos cfg) \<Longrightarrow> bt_wf (rc_repos (f rf cfg))"
  shows "\<exists>cfg. bt_wf (rc_repos cfg) \<and> registry (sv_toml sv) (sv_host sv') dir (f rf cfg) \<and> sv_root_fs sv' = sv_root_fs sv \<and> sv_toml sv' = sv_toml sv"
proof -
  obtain cfg h1 h2 where r: "repos_read_or_default (sv_toml sv) (repos_config_path dir) (sv_host sv) = (Inr cfg, h1)"
    and w: "repos_write_to (sv_toml sv) (f rf cfg) (repos_config_path dir) h1 = (Inr (), h2)" and sv': "sv' = sv\<lparr>sv_host := h2\<rparr>"
    using run rf by (auto simp: update_repos_toml_def ask_root_def elim!: seq_Ok_E on_host_Ok)
  have h: "toml_law (sv_toml sv)" "host_ok h1" using I svc_okD(1,2) repos_read_host [OF r] by (auto simp: svc_inv_def)
  have "bt_wf (rc_repos cfg)" by (rule repos_read_wf [OF r])
  then show ?thesis using repos_written(1) [OF h wf w] sv' by auto
qed

text \<open>A healthy host lets a clone run to its end.\<close>

lemma clone_runs:
  assumes I: "svc_inv sv" and rf: "sv_root_fs sv = Some rf" and new: "map_of (repos rf) n = None" and nf: "no_fault (sv_host sv)" and sl: "next_slot rf \<noteq> - 1"
    and st: "stores rf a = Some st" and reg: "registry (sv_toml sv) (sv_host sv) (storage_dir rf) cfg" and root: "sv_mount_root sv = Some mnt"
    and b: "toml_print (sv_toml sv) (workspace_config_to_toml (new_config Active (next_slot rf) (jj_empty_tree_id (glib st)))) = Inr b"
    and b': "toml_print (sv_toml sv) (repos_config_to_toml (cfg\<lparr>rc_repos := bt_insert n url (rc_repos cfg), rc_next_slot := next_slot rf + 1\<rparr>)) = Inr b'"
    and wf: "bt_wf (rc_repos cfg)"
  shows "\<exists>sv'. clone_repo (storage_dir rf) n url a rem sv = (Ok (path_join (path_join mnt n) ''default''), sv') \<and> no_fault (sv_host sv') \<and>
    registry (sv_toml sv) (sv_host sv') (storage_dir rf) (cfg\<lparr>rc_repos := bt_insert n url (rc_repos cfg), rc_next_slot := next_slot rf + 1\<rparr>)"
proof -
  have ok: "host_ok (sv_host sv)" "toml_law (sv_toml sv)" using I svc_okD(1,2) by (auto simp: svc_inv_def)
  define rf0 where "rf0 = register_repo n url a rem (rf\<lparr>root_host := sv_host sv\<rparr>)"
  have none: "map_of (repos (rf\<lparr>root_host := sv_host sv\<rparr>)) n = None" using new by simp
  note fr = register_repo_frame [OF none rf0_def]
  obtain e where e: "repos rf0 = bt_insert n e (repos rf)" "re_workspaces e = []" using fr(1) by auto
  define sv0 where "sv0 = sv\<lparr>sv_root_fs := Some rf0\<rparr>"
  have 0: "on_root (\<lambda>_. not_configured) (modifies (register_repo n url a rem)) sv = (Ok (), sv0)"
    using rf fr(6) by (simp add: on_root_def modifies_def rf0_def [symmetric] sv0_def)
  define rf1 where "rf1 = rf0\<lparr>root_host := sv_host sv, next_slot := next_slot rf + 1\<rparr>"
  define sv1 where "sv1 = sv\<lparr>sv_root_fs := Some rf1\<rparr>"
  have 1: "on_root (\<lambda>_. not_configured) alloc_slot sv0 = (Ok (next_slot rf), sv1)"
    using sl fr(2) by (simp add: on_root_def alloc_slot_def reads_seq modifies_seq ret_def sv0_def sv1_def rf1_def)
  have t: "store_empty_tree a sv1 = (Ok (jj_empty_tree_id (glib st)), sv1)" using st fr(5) by (simp add: store_empty_tree_def sv1_def rf1_def)
  obtain h where 2: "create_workspace_files (storage_dir rf) n ''default'' (new_config Active (next_slot rf) (jj_empty_tree_id (glib st))) sv1 = (Ok (), sv1\<lparr>sv_host := h\<rparr>)"
      "no_fault h" "file_at h (repos_config_path (storage_dir rf)) = file_at (sv_host sv) (repos_config_path (storage_dir rf))"
    using create_files_succeed [of sv1 _ b "storage_dir rf" n "''default''"] ok nf b by (auto simp: sv1_def)
  have "toml_law (sv_toml sv1)" "host_ok (sv_host sv1)" using ok by (simp_all add: sv1_def)
  then obtain h' where h': "sv1\<lparr>sv_host := h\<rparr> = sv1\<lparr>sv_host := h'\<rparr>" "host_ok h'" by (rule create_files_Ok [OF _ _ 2(1)])
  then have h: "host_ok h" using arg_cong [OF h'(1), of sv_host] by simp
  have "bt_wf (repos rf)" using I rf svc_inv_root_ok root_okD(1) ns_okD(1) by (fastforce simp: root_inv_def)
  then have "map_of (repos (rf1\<lparr>root_host := h\<rparr>)) n = Some e" using e by (simp add: rf1_def)
  then obtain rf3 where g: "register_workspace n ''default'' (new_entry_of Active (next_slot rf) (jj_empty_tree_id (glib st))) (rf1\<lparr>root_host := h\<rparr>) = (Ok (), rf3)"
      "next_slot rf3 = next_slot rf + 1" "root_host rf3 = h"
    using e(2) suc_gt [OF sl] by (simp add: register_workspace_def get_repo_seq modifies_def Let_def add_child_frame update_repo_frame rf1_def new_entry_of_def)
  define sv3 where "sv3 = sv\<lparr>sv_root_fs := Some rf3, sv_host := h\<rparr>"
  have 3: "on_root err (register_workspace n ''default'' (new_entry_of Active (next_slot rf) (jj_empty_tree_id (glib st)))) (sv1\<lparr>sv_host := h\<rparr>) = (Ok (), sv3)" for err
    using g by (simp add: on_root_def sv1_def sv3_def)
  define f where "f = (\<lambda>(rf :: 'a root_fs) (cfg :: ReposConfig). cfg\<lparr>rc_repos := bt_insert n url (rc_repos cfg), rc_next_slot := next_slot rf\<rparr>)"
  have f: "f rf3 cfg = cfg\<lparr>rc_repos := bt_insert n url (rc_repos cfg), rc_next_slot := next_slot rf + 1\<rparr>" by (simp add: f_def g(2))
  have s3: "toml_law (sv_toml sv3)" "host_ok (sv_host sv3)" "no_fault (sv_host sv3)" "sv_root_fs sv3 = Some rf3" "registry (sv_toml sv3) (sv_host sv3) (storage_dir rf) cfg"
    using ok h 2(2) reg registry_cong [OF 2(3)] by (simp_all add: sv3_def)
  obtain h2 where 4: "update_repos_toml (storage_dir rf) f sv3 = (Ok (), sv3\<lparr>sv_host := h2\<rparr>)" "no_fault h2" "registry (sv_toml sv) h2 (storage_dir rf) (f rf3 cfg)"
    using update_repos_succeed [OF s3, of f b'] b' wf f by (auto simp: sv3_def)
  have root3: "sv_mount_root sv3 = Some mnt" using root by (simp add: sv3_def)
  have "clone_repo (storage_dir rf) n url a rem sv = (Ok (path_join (path_join mnt n) ''default''), sv3\<lparr>sv_host := h2\<rparr>)"
    unfolding clone_repo_def f_def [symmetric] using root3 by (simp add: seq_apply 0 1 t 2(1) 3 4(1) workspace_path_def of_sum_def)
  then show ?thesis using 4(2,3) f by auto
qed

text \<open>
  C20: A cloned repository survives a restart: a daemon started from the files after a successful clone has the repository
  with its default workspace, active, in the slot it was given and on the empty tree. Its remote comes back too, except that
  of a \<^verbatim>\<open>kiki+ssh://\<close> URL, which the running daemon has and the restarted one has not.
\<close>

theorem clone_survives_restart:
  assumes "svc_ok sv" and "synced sv" and "slot_room sv" and "repo_room sv" and "svc_clone C serve open_store url name sv = (Ok p, sv')"
    and "sv_root_fs sv = Some rf" and "listable (sv_host sv')" and "registry (sv_toml sv) (sv_host sv') (storage_dir rf) cfg"
    and "\<forall>n url. map_of (rc_repos cfg) n = Some url \<longrightarrow> component n"
  shows "\<exists>n a st rem rf1 rf'. repo_name_for url name = Inr n \<and> open_store n = Inr a \<and> stores rf a = Some st \<and> clone_remote C url = Inr rem \<and>
    sv_root_fs sv' = Some rf1 \<and> remote_of rf1 n = Some (map_option serve rem) \<and>
    rehydrate_root_fs (\<lambda>ns. root_fs_new (storage_dir rf) ns now sts paths ready (sv_host sv') (sv_toml sv) chain mkdirs)
      open_store (parse_url_with C serve) (sv_toml sv) (storage_dir rf) (sv_host sv') = Inr rf' \<and>
    find_ws rf' n ''default'' = Some (new_entry_of Active (next_slot rf) (jj_empty_tree_id (glib st))) \<and>
    remote_of rf' n = Some (if is_ssh_url url then None else map_option serve rem)"
proof -
  have I: "svc_inv sv" using assms(1,2) by (simp add: svc_inv_def)
  note I' = svc_clone_inv [OF I assms(3-5)]
  obtain n a rem rf0 sv3 rf1 st re where n: "repo_name_for url name = Inr n" "component n" "open_store n = Inr a" "clone_remote C url = Inr rem"
    and rf0: "sv_root_fs sv = Some rf0" and st: "stores rf0 a = Some st"
    and s3: "svc_inv sv3" "sv_root_fs sv3 = Some rf1" "sv_toml sv3 = sv_toml sv" "storage_dir rf1 = storage_dir rf0" "next_slot rf1 = next_slot rf0 + 1"
    and f: "\<And>q x. find_ws rf1 q x = (if q = n \<and> x = ''default'' then Some (new_entry_of Active (next_slot rf0) (jj_empty_tree_id (glib st))) else find_ws rf0 q x)"
    and re: "map_of (repos rf1) n = Some re" "re_remote re = map_option serve rem" "re_url re = url"
    and u: "update_repos_toml (storage_dir rf0) (\<lambda>rf cfg. cfg\<lparr>rc_repos := bt_insert n url (rc_repos cfg), rc_next_slot := next_slot rf\<rparr>) sv3 = (Ok (), sv')"
    by (rule svc_clone_spec [OF I assms(3-5)]) (rule that)
  have eq: "rf0 = rf" using rf0 assms(6) by simp
  obtain c where c: "bt_wf (rc_repos c)" "registry (sv_toml sv) (sv_host sv') (storage_dir rf) (c\<lparr>rc_repos := bt_insert n url (rc_repos c), rc_next_slot := next_slot rf1\<rparr>)"
    and s': "sv_root_fs sv' = Some rf1" "sv_toml sv' = sv_toml sv"
    using update_repos_written [OF s3(1,2) u] s3(2,3) eq by auto
  have m: "map_of (rc_repos cfg) n = Some url" using registry_unique [OF assms(8) c(2)] c(1) by simp
  have read: "repos_read_or_default (sv_toml sv) (repos_config_path (storage_dir rf)) (sv_host sv') = (Inr cfg, sv_host sv')"
    using registry_read [OF assms(8)] assms(7) by (simp add: listable_def readable_def)
  obtain rf' where rf': "rehydrate_root_fs (\<lambda>ns. root_fs_new (storage_dir rf) ns now sts paths ready (sv_host sv') (sv_toml sv) chain mkdirs)
      open_store (parse_url_with C serve) (sv_toml sv) (storage_dir rf) (sv_host sv') = Inr rf'"
    and ws: "\<forall>r w. find_ws rf' r w = (if map_of (rc_repos cfg) r \<noteq> None \<and> \<not> isl (open_store r) then disk_ws (sv_toml sv) (storage_dir rf) (sv_host sv') r w else None)"
    using rehydrate_find_ws [OF assms(7) read] assms(9) by blast
  have "find_ws rf1 n ''default'' = Some (new_entry_of Active (next_slot rf) (jj_empty_tree_id (glib st)))" using f eq by simp
  from disk_ws_active [OF I' s'(1) this] have "find_ws rf' n ''default'' = Some (new_entry_of Active (next_slot rf) (jj_empty_tree_id (glib st)))"
    using ws m n(3) s3(4) s'(2) eq by (simp add: new_entry_of_def)
  moreover have "remote_of rf' n = Some (if is_ssh_url url then None else map_option serve rem)"
    using rehydrate_remote [OF read m n(3) rf'] startup_parse [OF n(4)] by simp
  moreover have "remote_of rf1 n = Some (map_option serve rem)" using re by (simp add: remote_of_def)
  ultimately show ?thesis using n st s'(1) rf' eq by blast
qed

section \<open>The snapshot request\<close>

text \<open>
  C21: When the snapshot request of a managed workspace with a directory remote succeeds, the tree it returns is in the
  repository's store and is exactly what the user saw in the mount; every object reachable from it is on
  the remote; and the workspace's entry and its \<^verbatim>\<open>workspace.toml\<close> both name it.
\<close>

theorem snapshot_request_durable:
  assumes "svc_ok sv" and "synced sv" and "is_managed sv p = Some (r, w)" and "sv_root_fs sv = Some rf" and "live_in_repo rf"
    and "fs_store_inv dir h" and "svc_snapshot (Some (fs_remote dir)) read_head p (sv, h) = (Ok (tree, head), sv', h')"
  shows "\<exists>sl a rm rf1 l t rf' we st'. get_workspace r w (rf\<lparr>root_host := sv_host sv\<rparr>) = (Ok (sl, a, rm), rf1) \<and> live rf1 sl = Some l \<and>
    overlay (fs_slab (lv_fs l)) ROOT_INODE t \<and> sv_root_fs sv' = Some rf' \<and> stores rf' a = Some st' \<and> persists st' tree t \<and>
    (\<forall>k i. reachable st' tree k i \<longrightarrow> fs_blobs dir h' k i \<noteq> None) \<and>
    find_ws rf' r w = Some we \<and> we_root_tree_id we = tree \<and>
    on_disk (sv_toml sv') (sv_host sv') (workspace_config_path (storage_dir rf') r w) = Some (entry_config we)"
proof -
  have I: "svc_inv sv" using assms(1,2) by (simp add: svc_inv_def)
  obtain hd gp where run: "snapshot_managed (Some (fs_remote dir)) p r w (sv, h) = (Ok (tree, hd, gp), sv', h')"
    using assms(3,7) by (auto simp: svc_snapshot_def on_service_def reads_def elim!: seq_Ok_E)
  obtain rf0 rf1 sl a rm l t st st' rf' we where rf0: "sv_root_fs sv = Some rf0" and s: "get_workspace r w (rf0\<lparr>root_host := sv_host sv\<rparr>) = (Ok (sl, a, rm), rf1)" "live rf1 sl = Some l"
      "overlay (fs_slab (lv_fs l)) ROOT_INODE t" "length tree = 20" "svc_inv sv'" "sv_root_fs sv' = Some rf'"
    and we: "find_ws rf' r w = Some we" "we_root_tree_id we = tree"
    and st: "lv_store l = a \<longrightarrow> persists st tree t" "git_laws (glib st)" "push_from (Some (fs_remote dir)) tree (h, st) = (Ok (), h', st')" "store_extends st st'" "stores rf' a = Some st'"
    using snapshot_managed_Ok [OF I run] by (elim exE conjE) (rule that)
  have "rf0 = rf" using rf0 assms(4) by simp
  note s = s [unfolded this]
  note ri = root_inv_of [OF I assms(4), of "sv_host sv"]
  have "live_in_repo (rf\<lparr>root_host := sv_host sv\<rparr>)" using assms(5) by (simp add: live_in_repo_def)
  from get_workspace_store [OF ri(1) this s(1,2)] have p: "persists st' tree t" using st(1,4) persists_extends by blast
  have "push_reachable_blobs (fs_remote dir) tree (h, st) = Some (Inr (), h', st')"
    using st(3) by (auto simp: push_from_def split: option.splits prod.splits sum.splits)
  then have "\<forall>k i. reachable st' tree k i \<longrightarrow> fs_blobs dir h' k i \<noteq> None"
    using fb.push_reachable_spec [OF _ assms(6) st(2) s(4)] by fastforce
  moreover have "on_disk (sv_toml sv') (sv_host sv') (workspace_config_path (storage_dir rf') r w) = Some (entry_config we)"
    using syncedD [OF _ s(6) we(1)] s(5) by (simp add: svc_inv_def)
  ultimately show ?thesis using s we st(5) p by blast
qed

section \<open>An example service\<close>

text \<open>One repository with one active workspace, its files on disk, and a TOML library for the tables that occur.\<close>

definition ex_act :: workspace_entry where
  "ex_act = ex_we\<lparr>we_state := Active, we_root_tree_id := mem_id 1, we_op_id := ''op''\<rparr>"

definition ex_new_root :: "mem_db root_fs" where
  "ex_new_root = root_fs_new ''/s'' 1 0 [0 \<mapsto> ex_pushed] (\<lambda>_. ''/s/git'') (\<lambda>_. False) ex_host ex_toml (\<lambda>_. None) (\<lambda>_. Inr ())"

definition ex_repo_root :: "mem_db root_fs" where
  "ex_repo_root = register_repo ''r'' ''dir:///x'' 0 None ex_new_root"

definition ex_act_root :: "mem_db root_fs" where
  "ex_act_root = snd (register_workspace ''r'' ''w'' ex_act ex_repo_root)"

definition ex_repos :: "slot \<Rightarrow> ReposConfig" where
  "ex_repos n = \<lparr>rc_next_slot = n, rc_repos = [(''r'', ''dir:///x'')]\<rparr>"

definition ex_url :: string where
  "ex_url = ''kiki+ssh://me@host/v''"

definition ex_cloned :: ReposConfig where
  "ex_cloned = \<lparr>rc_next_slot = 3, rc_repos = [(''r'', ''dir:///x''), (''v'', ex_url)]\<rparr>"

definition ex_tables :: "(string \<times> (string \<times> toml) list) list" where
  "ex_tables = [(''a'', workspace_config_to_toml (entry_config ex_act)), (''b'', repos_config_to_toml (ex_repos 2)),
     (''c'', workspace_config_to_toml (new_config Pending 2 (jj_empty_tree_id mem_git))), (''d'', repos_config_to_toml (ex_repos 3)),
     (''e'', workspace_config_to_toml (new_config Active 2 (jj_empty_tree_id mem_git))), (''f'', repos_config_to_toml ex_cloned)]"

definition ex_svc_toml :: toml_lib where
  "ex_svc_toml = \<lparr>toml_print = (\<lambda>t. case List.find (\<lambda>e. snd e = t) ex_tables of Some e \<Rightarrow> Inr (fst e) | None \<Rightarrow> Inl ''unsupported''),
     toml_parse = (\<lambda>b. case map_of ex_tables b of Some t \<Rightarrow> Inr t | None \<Rightarrow> Inl ''unsupported'')\<rparr>"

definition ex_svc_host :: host where
  "ex_svc_host = put_file (repos_config_path ''/s'') ''b'' (put_file (workspace_config_path ''/s'' ''r'' ''w'') ''a'' ex_host)"

definition ex_svc :: "mem_db service" where
  "ex_svc = \<lparr>sv_mounts = [], sv_root_fs = Some (ex_act_root\<lparr>root_toml := ex_svc_toml\<rparr>), sv_mount_root = Some ''/mnt'', sv_storage = OnDisk ''/s'',
     sv_vfs_handle = False, sv_mount_attachment = False, sv_host = ex_svc_host, sv_toml = ex_svc_toml\<rparr>"

lemma ex_tables_law:
  assumes "distinct (map fst tb)" and "list_all (utf8_valid \<circ> fst) tb"
  shows "toml_law \<lparr>toml_print = (\<lambda>t. case List.find (\<lambda>e. snd e = t) tb of Some e \<Rightarrow> Inr (fst e) | None \<Rightarrow> Inl ''unsupported''),
     toml_parse = (\<lambda>b. case map_of tb b of Some t \<Rightarrow> Inr t | None \<Rightarrow> Inl ''unsupported'')\<rparr>"
proof -
  have "utf8_valid (fst e) \<and> map_of tb (fst e) = Some t" if "List.find (\<lambda>e. snd e = t) tb = Some e" for t e
  proof -
    have "e \<in> set tb" "snd e = t" using that by (auto simp: find_Some_iff)
    then show ?thesis using assms map_of_is_SomeI [OF assms(1), of "fst e" "snd e"] by (auto simp: list_all_iff)
  qed
  then show ?thesis by (auto simp: toml_law_def split: option.splits)
qed

lemma ex_svc_toml_law: "toml_law ex_svc_toml"
proof -
  have "utf8_valid ''a''" "utf8_valid ''b''" "utf8_valid ''c''" "utf8_valid ''d''" "utf8_valid ''e''" "utf8_valid ''f''" by code_simp+
  then show ?thesis unfolding ex_svc_toml_def by (intro ex_tables_law) (simp_all add: ex_tables_def)
qed

lemma ex_act_inv: "root_inv ex_act_root"
proof -
  have "root_reach ex_new_root ex_repo_root"
    by (rule rr_step [OF rr_init, of _ "ARegisterRepo ''r'' ''dir:///x'' 0 None" "Ok ()"])
      (simp_all add: ex_new_root_def root_fs_new_def GROOT_def ex_repo_root_def modifies_def)
  then have "root_reach ex_new_root ex_act_root"
    by (rule rr_step [of _ _ "ARegisterWs ''r'' ''w'' ex_act" "fst (register_workspace ''r'' ''w'' ex_act ex_repo_root)"])
      (simp_all add: ex_we_def ex_act_def ex_act_root_def ex_repo_root_def ex_new_root_def root_fs_new_def register_repo_def Let_def add_child_def find_ws_def)
  moreover have "\<forall>a st. [0 \<mapsto> ex_pushed] a = Some st \<longrightarrow> git_laws (glib st)" using ex_laws by (simp add: ex_pushed_def)
  ultimately show ?thesis using root_reach_inv [OF _ root_inv_new] by (metis ex_new_root_def)
qed

lemma ex_act_find: "find_ws ex_act_root q x = (if q = ''r'' \<and> x = ''w'' then Some ex_act else None)"
  and ex_act_root_simps: "next_slot ex_act_root = 2" "storage_dir ex_act_root = ''/s''" "stores ex_act_root = [0 \<mapsto> ex_pushed]" "repo_store ex_act_root ''r'' = Some 0"
    "dom (map_of (repos ex_act_root)) = {''r''}"
  by (auto simp: ex_act_root_def ex_act_def ex_repo_root_def ex_new_root_def find_ws_def repo_store_def ex_root_defs)

abbreviation "ex_rf \<equiv> ex_act_root\<lparr>root_toml := ex_svc_toml\<rparr>"

lemma ex_components: "component ''r''" "component ''w''" "component ''v''"
  by (simp_all add: component_def)

lemma ex_svc_files:
  "file_at ex_svc_host (workspace_config_path ''/s'' ''r'' ''w'') = Some ''a''" "file_at ex_svc_host (repos_config_path ''/s'') = Some ''b''"
  "host_ok ex_svc_host" "no_fault ex_svc_host"
proof -
  have ok: "host_ok ex_host" by (simp add: ex_host_def host_ok_def)
  have "repos_config_path ''/s'' \<noteq> workspace_config_path ''/s'' ''r'' ''w''" using config_not_repos by metis
  then show "file_at ex_svc_host (workspace_config_path ''/s'' ''r'' ''w'') = Some ''a''" "file_at ex_svc_host (repos_config_path ''/s'') = Some ''b''"
    using ok by (simp_all add: ex_svc_host_def)
  show "host_ok ex_svc_host" "no_fault ex_svc_host" using ok by (simp_all add: ex_svc_host_def no_fault_def ex_host_def)
qed

lemma ex_svc_parse:
  "toml_parse ex_svc_toml ''a'' = Inr (workspace_config_to_toml (entry_config ex_act))" "toml_parse ex_svc_toml ''b'' = Inr (repos_config_to_toml (ex_repos 2))"
  by (simp_all add: ex_svc_toml_def ex_tables_def)

lemma ex_svc_on_disk: "on_disk ex_svc_toml ex_svc_host (workspace_config_path ''/s'' ''r'' ''w'') = Some (entry_config ex_act)"
proof -
  have "utf8_valid ''a''" by code_simp
  then show ?thesis by (simp add: on_disk_def ex_svc_files ex_svc_parse workspace_config_toml)
qed

lemma ex_svc_registry: "registry ex_svc_toml ex_svc_host ''/s'' (ex_repos 2)"
proof -
  have "utf8_valid ''b''" by code_simp
  moreover have "repos_config_of_toml (repos_config_to_toml (ex_repos 2)) = Inr (ex_repos 2)" by (rule repos_config_toml) (simp add: ex_repos_def)
  ultimately show ?thesis by (simp add: registry_def ex_svc_files ex_svc_parse)
qed

lemma ex_rf_find: "find_ws ex_rf q x = (if q = ''r'' \<and> x = ''w'' then Some ex_act else None)"
  using ex_act_find [of q x] by (simp add: find_ws_def)

lemma ex_svc_ok: "svc_ok ex_svc" "synced ex_svc"
proof -
  have "root_inv ex_rf" by (rule root_inv_cong [OF ex_act_inv]) auto
  moreover have "component r" if "map_of (repos ex_rf) r = Some re" for r re
    using that domI [of "map_of (repos ex_act_root)" r re] ex_components ex_act_root_simps(5) by simp
  moreover have "component w" if "find_ws ex_rf r w = Some we" for r w we
    using that ex_components unfolding ex_rf_find by (simp split: if_splits)
  ultimately have "root_ok ex_svc ex_rf"
    unfolding root_ok_def by (simp add: ex_svc_def ex_act_root_simps)
  then show "svc_ok ex_svc"
    using ex_svc_files(3) ex_svc_toml_law unfolding svc_ok_def by (simp add: ex_svc_def)
  show "synced ex_svc" unfolding synced_def
  proof (intro allI impI)
    fix rf r w we assume "sv_root_fs ex_svc = Some rf" and f: "find_ws rf r w = Some we"
    then have "rf = ex_rf" by (simp add: ex_svc_def)
    moreover from this f have "r = ''r'' \<and> w = ''w'' \<and> we = ex_act" by (simp add: ex_rf_find split: if_splits)
    ultimately show "on_disk (sv_toml ex_svc) (sv_host ex_svc) (workspace_config_path (storage_dir rf) r w) = Some (entry_config we)"
      using ex_svc_on_disk by (simp add: ex_svc_def ex_act_root_simps)
  qed
qed

lemma ex_svc_prints:
  "\<exists>b. toml_print ex_svc_toml (workspace_config_to_toml (new_config Pending 2 (jj_empty_tree_id mem_git))) = Inr b"
  "\<exists>b. toml_print ex_svc_toml (repos_config_to_toml (ex_repos 3)) = Inr b"
  "\<exists>b. toml_print ex_svc_toml (workspace_config_to_toml (new_config Active 2 (jj_empty_tree_id mem_git))) = Inr b"
  "\<exists>b. toml_print ex_svc_toml (repos_config_to_toml ex_cloned) = Inr b"
proof -
  have "List.find (\<lambda>e. snd e = t) tb \<noteq> None" if "t \<in> snd ` set tb" for t and tb :: "(string \<times> (string \<times> toml) list) list"
    using that by (auto simp: find_None_iff)
  then show "\<exists>b. toml_print ex_svc_toml (workspace_config_to_toml (new_config Pending 2 (jj_empty_tree_id mem_git))) = Inr b"
    "\<exists>b. toml_print ex_svc_toml (repos_config_to_toml (ex_repos 3)) = Inr b"
    "\<exists>b. toml_print ex_svc_toml (workspace_config_to_toml (new_config Active 2 (jj_empty_tree_id mem_git))) = Inr b"
    "\<exists>b. toml_print ex_svc_toml (repos_config_to_toml ex_cloned) = Inr b"
    by (fastforce simp: ex_svc_toml_def ex_tables_def split: option.split)+
qed

lemma ex_can_create: "validate_name n = Inr () \<Longrightarrow> can_create ''r'' n (jj_empty_tree_id mem_git) ex_rf ex_svc"
  using ex_svc_prints(1) ex_svc_files(4) by (simp add: can_create_def ex_svc_def repo_store_def [of ex_rf] repo_store_def [of ex_act_root, symmetric] ex_act_root_simps ex_pushed_def ex_store_def)

lemma ex_svc_fields:
  "sv_toml ex_svc = ex_svc_toml" "sv_host ex_svc = ex_svc_host" "sv_root_fs ex_svc = Some ex_rf" "sv_mount_root ex_svc = Some ''/mnt''"
  "storage_dir ex_rf = ''/s''" "next_slot ex_rf = 2"
  by (simp_all add: ex_svc_def ex_act_root_simps)

lemma ex_names_ok: "\<forall>n url. map_of (rc_repos (ex_repos k)) n = Some url \<longrightarrow> component n"
  using ex_components(1) by (simp add: ex_repos_def)

theorem workspace_create_registers_witness:
  "\<exists>sv' rf'. svc_workspace_create ''r'' ''v'' ex_svc = (Ok (path_join (path_join ''/mnt'' ''r'') ''v''), sv') \<and> sv_root_fs sv' = Some rf' \<and>
     find_ws rf' ''r'' ''w'' = Some ex_act \<and> find_ws rf' ''r'' ''v'' = Some (new_entry_of Pending 2 (jj_empty_tree_id mem_git)) \<and>
     fst (repos_read_or_default ex_svc_toml (repos_config_path ''/s'') (sv_host sv')) = Inr (ex_repos 3)"
proof -
  have can: "can_create ''r'' ''v'' (jj_empty_tree_id mem_git) ex_rf ex_svc" by (rule ex_can_create) (simp add: validate_name_def starts_with_iff)
  obtain b where b: "toml_print ex_svc_toml (repos_config_to_toml (ex_repos 3)) = Inr b" using ex_svc_prints(2) by blast
  have up: "(ex_repos 2)\<lparr>rc_next_slot := 2 + 1\<rparr> = ex_repos 3" "bt_wf (rc_repos (ex_repos 2))" by (simp_all add: ex_repos_def)
  have "find_ws ex_rf ''r'' ''v'' = None" "unat (next_slot ex_rf) < 2 ^ 24" by (simp_all add: ex_rf_find ex_act_root_simps)
  from workspace_create_registers [OF ex_svc_ok can this, of "ex_repos 2" b "''/mnt''", unfolded ex_svc_fields up(1)]
  obtain sv' rf' where run: "svc_workspace_create ''r'' ''v'' ex_svc = (Ok (path_join (path_join ''/mnt'' ''r'') ''v''), sv')" "sv_root_fs sv' = Some rf'"
    and f: "\<forall>q x. find_ws rf' q x = (if q = ''r'' \<and> x = ''v'' then Some (new_entry_of Pending 2 (jj_empty_tree_id mem_git)) else find_ws ex_rf q x)"
    and r: "fst (repos_read_or_default ex_svc_toml (repos_config_path ''/s'') (sv_host sv')) = Inr (ex_repos 3)"
    using ex_svc_registry b up(2) by blast
  have "find_ws rf' ''r'' ''w'' = Some ex_act" "find_ws rf' ''r'' ''v'' = Some (new_entry_of Pending 2 (jj_empty_tree_id mem_git))"
    using f by (simp_all add: ex_rf_find)
  then show ?thesis using run r by blast
qed

text \<open>The example after a second workspace has been created.\<close>

lemma ex_created:
  obtains h' rf1 where "served ex_svc (ex_svc\<lparr>sv_root_fs := Some rf1, sv_host := h'\<rparr>)" and "no_fault h'" and "find_ws rf1 ''r'' ''w'' = Some ex_act"
    and "storage_dir rf1 = ''/s''" and "registry ex_svc_toml h' ''/s'' (ex_repos 3)"
proof -
  have can: "can_create ''r'' ''v'' (jj_empty_tree_id mem_git) ex_rf ex_svc" by (rule ex_can_create) (simp add: validate_name_def starts_with_iff)
  obtain b where b: "toml_print ex_svc_toml (repos_config_to_toml (ex_repos 3)) = Inr b" using ex_svc_prints(2) by blast
  have up: "(ex_repos 2)\<lparr>rc_next_slot := 2 + 1\<rparr> = ex_repos 3" "bt_wf (rc_repos (ex_repos 2))" by (simp_all add: ex_repos_def)
  have room: "find_ws ex_rf ''r'' ''v'' = None" "unat (next_slot ex_rf) < 2 ^ 24" by (simp_all add: ex_rf_find ex_act_root_simps)
  have I: "svc_inv ex_svc" using ex_svc_ok by (simp add: svc_inv_def)
  obtain h' rf1 where run: "svc_workspace_create ''r'' ''v'' ex_svc = (Ok (path_join (path_join ''/mnt'' ''r'') ''v''), ex_svc\<lparr>sv_root_fs := Some rf1, sv_host := h'\<rparr>)"
    and h: "no_fault h'" "storage_dir rf1 = ''/s''" "registry ex_svc_toml h' ''/s'' (ex_repos 3)"
    and f: "\<And>q x. find_ws rf1 q x = (if q = ''r'' \<and> x = ''v'' then Some (new_entry_of Pending 2 (jj_empty_tree_id mem_git)) else find_ws ex_rf q x)"
    using create_succeeds [OF I can room, of "ex_repos 2" b "''/mnt''", unfolded ex_svc_fields up(1)] ex_svc_registry b up(2) by metis
  have "slot_room ex_svc" using room(2) by (simp add: slot_room_def ex_svc_fields(3))
  moreover have "svc_run (QCreate ''r'' ''v'') ex_svc = (Ok (), ex_svc\<lparr>sv_root_fs := Some rf1, sv_host := h'\<rparr>)" by (simp add: seq_apply run ret_def)
  ultimately have "served ex_svc (ex_svc\<lparr>sv_root_fs := Some rf1, sv_host := h'\<rparr>)" by (rule sv_step [OF sv_start])
  then show ?thesis by (rule that) (use h f in \<open>simp_all add: ex_rf_find\<close>)
qed

theorem registered_workspaces_on_disk_witness:
  "\<exists>sv. served ex_svc sv \<and> sv_host sv \<noteq> ex_svc_host \<and>
     workspace_read_from ex_svc_toml (workspace_config_path ''/s'' ''r'' ''w'') (sv_host sv) = (Inr (entry_config ex_act), sv_host sv)"
proof -
  obtain h' rf1 where s: "served ex_svc (ex_svc\<lparr>sv_root_fs := Some rf1, sv_host := h'\<rparr>)" and h: "no_fault h'" "find_ws rf1 ''r'' ''w'' = Some ex_act"
    "storage_dir rf1 = ''/s''" "registry ex_svc_toml h' ''/s'' (ex_repos 3)" by (rule ex_created)
  define sv where "sv = ex_svc\<lparr>sv_root_fs := Some rf1, sv_host := h'\<rparr>"
  have sv: "sv_root_fs sv = Some rf1" "sv_host sv = h'" "sv_toml sv = ex_svc_toml" by (simp_all add: sv_def ex_svc_fields)
  have "\<not> h_fault (sv_host sv) IoRead (workspace_config_path (storage_dir rf1) ''r'' ''w'')" using h(1) by (simp add: sv no_fault_def)
  from registered_workspaces_on_disk [OF ex_svc_ok s [folded sv_def] sv(1) h(2) this]
  have "workspace_read_from ex_svc_toml (workspace_config_path ''/s'' ''r'' ''w'') (sv_host sv) = (Inr (entry_config ex_act), sv_host sv)"
    unfolding sv h(3) .
  moreover have "h' \<noteq> ex_svc_host" using h(4) ex_svc_registry by (auto simp: registry_def ex_repos_def)
  ultimately show ?thesis using s [folded sv_def] sv(2) by blast
qed

theorem duplicate_create_loses_workspace_witness:
  "\<exists>sv' rf1 rf'. svc_workspace_create ''r'' ''w'' ex_svc = (Err (Status AlreadyExistsCode (''workspace '' @ ''w'' @ '' already exists in repo '' @ ''r'')), sv') \<and>
     sv_root_fs sv' = Some rf1 \<and> find_ws rf1 ''r'' ''w'' = Some ex_act \<and>
     rehydrate_root_fs (\<lambda>ns. root_fs_new ''/s'' ns 0 [0 \<mapsto> ex_pushed] (\<lambda>_. ''/s/git'') (\<lambda>_. False) (sv_host sv') ex_svc_toml (\<lambda>_. None) (\<lambda>_. Inr ()))
       (\<lambda>_. Inr 0) (\<lambda>_. Inr None) ex_svc_toml ''/s'' (sv_host sv') = Inr rf' \<and> find_ws rf' ''r'' ''w'' = None"
proof -
  have can: "can_create ''r'' ''w'' (jj_empty_tree_id mem_git) ex_rf ex_svc" by (rule ex_can_create) (simp add: validate_name_def starts_with_iff)
  have f: "find_ws ex_rf ''r'' ''w'' = Some ex_act" "we_state ex_act = Active" by (simp_all add: ex_rf_find ex_act_def)
  show ?thesis
    by (rule duplicate_create_loses_workspace [OF ex_svc_ok can f, unfolded ex_svc_fields, OF ex_svc_registry ex_names_ok])
qed

text \<open>The snapshot request of a workspace that is not live yet: nothing is modified, so its tree stays.\<close>

lemma snapshot_new_fs: "fs_snapshot (kiki_fs_new st gp t rem sc wt mt ch mk) = (Ok t, kiki_fs_new st gp t rem sc wt mt ch mk)"
proof -
  define fs where "fs = kiki_fs_new st gp t rem sc wt mt ch mk"
  have "\<exists>k. inodes (fs_slab fs) ROOT_INODE = Some k \<and> node k = Tree t" "jj_subtree fs = None"
    by (simp_all add: fs_def kiki_fs_new_def alloc_def alloc_with_ignored_def slab_new_def Let_def split: prod.split)
  then show ?thesis
    by (fold fs_def) (auto simp: fs_snapshot_def seq_apply reads_def ret_def fs_fuel_def get_inode_def fetch_or_def slab_get_def)
qed

lemma snapshot_clean_managed:
  assumes rf: "sv_root_fs sv = Some rf" "map_of (repos rf) r = Some re" "map_of (re_workspaces re) w = Some we" "live rf (we_slot we) = None"
    and st: "stores rf (re_store re) = Some st" "length (we_root_tree_id we) = 20"
    and push: "push_from rs (we_root_tree_id we) (s, st) = (Ok (), s', st)"
    and h: "host_ok (sv_host sv)" "no_fault (sv_host sv)"
    and b: "toml_print (root_toml rf) (workspace_config_to_toml (entry_config we)) = Inr b"
  shows "\<exists>sv'. snapshot_managed rs p r w (sv, s) = (Ok (we_root_tree_id we, [], store_paths rf (re_store re)), sv', s')"
proof -
  define i where "i = info_of r w re we"
  obtain fs where fs: "hydrate_workspace i (rf\<lparr>root_host := sv_host sv\<rparr>) = (Ok fs, rf\<lparr>root_host := sv_host sv\<rparr>)"
      "fs_snapshot fs = (Ok (we_root_tree_id we), fs)" "store fs = st"
    using st by (simp add: hydrate_workspace_def i_def info_of_def Let_def snapshot_new_fs) (simp add: kiki_fs_new_def Let_def split: prod.split)
  define l where "l = \<lparr>lv_repo_name = r, lv_workspace_name = w, lv_fs = fs, lv_store = re_store re, lv_last_exported_head = [], lv_last_exported_bookmarks = None\<rparr>"
  define rf1 where "rf1 = rf\<lparr>root_host := sv_host sv, live := (live rf)(we_slot we \<mapsto> l)\<rparr>"
  have f: "find_ws rf1 r w = Some we" using rf by (simp add: rf1_def find_ws_def)
  have 1: "on_root g (get_workspace r w) sv = (Ok (we_slot we, re_store re, re_remote re), sv\<lparr>sv_root_fs := Some rf1\<rparr>)" for g
    using rf fs(1) by (simp add: on_root_def get_workspace_def get_repo_seq get_ws_seq find_ws_def reads_seq seq_apply [of "hydrate_workspace _"] i_def [symmetric]
      modifies_seq ret_def insert_live_def rf1_def l_def) (simp add: i_def info_of_def)
  define rf2 where "rf2 = rf1\<lparr>live := (live rf1)(we_slot we \<mapsto> l), stores := (stores rf)(re_store re \<mapsto> st)\<rparr>"
  have same: "fs_snapshot (fs\<lparr>store := st\<rparr>) = (Ok (we_root_tree_id we), fs)" using fs(2,3) by (cases fs) simp
  have 2: "on_root (snapshot_failed p) (on_live (we_slot we) fs_snapshot) (sv\<lparr>sv_root_fs := Some rf1\<rparr>)
      = (Ok (we_root_tree_id we), sv\<lparr>sv_root_fs := Some rf2\<rparr>)"
    using st(1) same by (simp add: on_root_def on_live_def rf1_def rf2_def live_view_def l_def fs(3))
  have 3: "push_repo rs (re_store re) (we_root_tree_id we) (sv\<lparr>sv_root_fs := Some rf2\<rparr>, s)
      = (Ok (), sv\<lparr>sv_root_fs := Some (rf2\<lparr>stores := (stores rf2)(re_store re \<mapsto> st)\<rparr>)\<rparr>, s')"
    using push by (simp add: push_repo_def rf2_def)
  obtain h' where w: "workspace_write_to (root_toml rf) (entry_config we) (workspace_config_path (storage_dir rf) r w) (sv_host sv) = (Inr (), h')"
    using write_toml_succeeds [OF h b] unfolding workspace_write_to_def by blast
  have 4: "\<exists>sv'. stamp_root ''snapshot'' r w (we_root_tree_id we) 0 (sv\<lparr>sv_root_fs := Some (rf2\<lparr>stores := (stores rf2)(re_store re \<mapsto> st)\<rparr>)\<rparr>) = (Ok (), sv')"
  proof -
    have "we\<lparr>we_root_tree_id := we_root_tree_id we\<rparr> = we" by simp
    then show ?thesis
      using w rf by (simp add: stamp_root_def on_root_def set_root_tree_id_def get_ws_seq find_ws_def persist_entry_def modifies_def rf2_def rf1_def Let_def)
        (simp add: seq_apply)
  qed
  have 5: "get_last_exported_head rf1 r w = []" using f by (simp add: get_last_exported_head_def find_live_def rf1_def l_def)
  have 6: "store_paths rf1 = store_paths rf" by (simp add: rf1_def)
  show ?thesis
    using 4 unfolding snapshot_managed_def
    by (auto simp: seq_apply on_service_def 1 ask_root_def 5 2 3 6 ret_def)
qed

lemma ex_svc_managed: "is_managed ex_svc ''/mnt/r/w'' = Some (''r'', ''w'')"
proof -
  have "path_components ''/mnt/r/w'' = [''/'', ''mnt'', ''r'', ''w'']" "path_components ''/mnt'' = [''/'', ''mnt'']" by code_simp+
  then show ?thesis by (simp add: is_managed_def resolve_workspace_def path_strip_prefix_def ex_svc_fields)
qed

lemma ex_snapshot_runs:
  "\<exists>sv' h'. svc_snapshot (Some (fs_remote ''/srv'')) (\<lambda>_. Inr None) ''/mnt/r/w'' (ex_svc, ex_host) = (Ok (mem_id 1, []), sv', h')"
proof -
  obtain h' where "push_reachable_blobs (fs_remote ''/srv'') (mem_id 1) (ex_host, ex_pushed) = Some (Inr (), h', ex_pushed)" by (rule ex_push_run)
  then have push: "push_from (Some (fs_remote ''/srv'')) (we_root_tree_id ex_act) (ex_host, ex_pushed) = (Ok (), h', ex_pushed)"
    by (simp add: push_from_def ex_act_def)
  obtain re where re: "map_of (repos ex_rf) ''r'' = Some re" "map_of (re_workspaces re) ''w'' = Some ex_act" "re_store re = 0"
    using ex_rf_find [of "''r''" "''w''"] ex_act_root_simps(4) by (auto simp: find_ws_repo repo_store_def)
  have rf: "live ex_rf (we_slot ex_act) = None" "stores ex_rf (re_store re) = Some ex_pushed" "length (we_root_tree_id ex_act) = 20" "root_toml ex_rf = sv_toml ex_svc"
    using re(3) by (simp_all add: ex_act_root_simps ex_svc_fields ex_act_def)
      (simp add: ex_act_root_def ex_repo_root_def ex_new_root_def ex_root_defs)
  have h: "host_ok (sv_host ex_svc)" "no_fault (sv_host ex_svc)" using ex_svc_files by (simp_all add: ex_svc_fields)
  have b: "toml_print (root_toml ex_rf) (workspace_config_to_toml (entry_config ex_act)) = Inr ''a''" by (simp add: ex_svc_toml_def ex_tables_def)
  obtain sv' gp where "snapshot_managed (Some (fs_remote ''/srv'')) ''/mnt/r/w'' ''r'' ''w'' (ex_svc, ex_host) = (Ok (mem_id 1, [], gp), sv', h')"
    using snapshot_clean_managed [OF ex_svc_fields(3) re(1,2) rf(1-3) push h b, of "''/mnt/r/w''"] by (auto simp: ex_act_def)
  then show ?thesis
    by (simp add: svc_snapshot_def seq_apply on_service_def reads_def ex_svc_managed external_git_head_def)
qed

theorem snapshot_request_durable_witness:
  "\<exists>sv' h' rf' we. svc_snapshot (Some (fs_remote ''/srv'')) (\<lambda>_. Inr None) ''/mnt/r/w'' (ex_svc, ex_host) = (Ok (mem_id 1, []), sv', h') \<and>
     sv_root_fs sv' = Some rf' \<and> find_ws rf' ''r'' ''w'' = Some we \<and> we_root_tree_id we = mem_id 1 \<and> fs_blobs ''/srv'' h' KTree (mem_id 1) \<noteq> None"
proof -
  obtain sv' h' where run: "svc_snapshot (Some (fs_remote ''/srv'')) (\<lambda>_. Inr None) ''/mnt/r/w'' (ex_svc, ex_host) = (Ok (mem_id 1, []), sv', h')"
    using ex_snapshot_runs by blast
  have live: "live_in_repo ex_rf" by (simp add: live_in_repo_def ex_act_root_def ex_repo_root_def ex_new_root_def ex_root_defs)
  have "fs_store_inv ''/srv'' ex_host" by (simp add: empty_store_inv ex_host_def)
  from snapshot_request_durable [OF ex_svc_ok ex_svc_managed ex_svc_fields(3) live this run]
  show ?thesis using run reach_root by blast
qed

text \<open>A clone through an SSH tunnel.\<close>

definition ex_connector :: connector where
  "ex_connector = \<lparr>cn_grpc = (\<lambda>_. Inr ()), cn_tunnel = (\<lambda>_ _ _. Inr ()), cn_tunnels_dir = True\<rparr>"

definition ex_serve :: "remote_handle \<Rightarrow> get_blob" where
  "ex_serve h = (\<lambda>_ _. Inr None)"

lemma ex_clone_runs:
  obtains sv' where "svc_clone ex_connector ex_serve (\<lambda>_. Inr 0) ex_url ''v'' ex_svc = (Ok (path_join (path_join ''/mnt'' ''v'') ''default''), sv')"
    and "no_fault (sv_host sv')" and "registry ex_svc_toml (sv_host sv') ''/s'' ex_cloned" and "is_ssh_url ex_url"
    and "clone_remote ex_connector ex_url = Inr (Some (SshRemote ''me'' ''host'' ''/v''))"
proof -
  have ssh: "parse_kiki_ssh_url ex_url = Inr (Some (''me'', ''host'', ''/v''))" "is_ssh_url ex_url" by code_simp+
  then have rem: "clone_remote ex_connector ex_url = Inr (Some (SshRemote ''me'' ''host'' ''/v''))"
    by (simp add: clone_remote_def ssh_or_def establish_ssh_remote_def handle_of_def ex_connector_def)
  have I: "svc_inv ex_svc" using ex_svc_ok by (simp add: svc_inv_def)
  have new: "map_of (repos ex_rf) ''v'' = None"
  proof -
    have "''v'' \<notin> dom (map_of (repos ex_act_root))" unfolding ex_act_root_simps by simp
    then show ?thesis by (simp add: domIff)
  qed
  have up: "(ex_repos 2)\<lparr>rc_repos := bt_insert ''v'' ex_url (rc_repos (ex_repos 2)), rc_next_slot := next_slot ex_rf + 1\<rparr> = ex_cloned"
    by (simp add: ex_repos_def ex_cloned_def ex_svc_fields)
  have glib: "glib ex_pushed = mem_git" by (simp add: ex_pushed_def ex_store_def)
  obtain b b' where b: "toml_print ex_svc_toml (workspace_config_to_toml (new_config Active 2 (jj_empty_tree_id mem_git))) = Inr b"
    "toml_print ex_svc_toml (repos_config_to_toml ex_cloned) = Inr b'" using ex_svc_prints(3,4) by blast
  have pre: "no_fault (sv_host ex_svc)" "next_slot ex_rf \<noteq> - 1" "stores ex_rf 0 = Some ex_pushed" "registry (sv_toml ex_svc) (sv_host ex_svc) (storage_dir ex_rf) (ex_repos 2)"
    using ex_svc_files(4) ex_svc_registry by (simp_all add: ex_svc_fields ex_act_root_simps)
  have b1: "toml_print (sv_toml ex_svc) (workspace_config_to_toml (new_config Active (next_slot ex_rf) (jj_empty_tree_id (glib ex_pushed)))) = Inr b"
    unfolding ex_svc_fields glib by (rule b(1))
  have b2: "toml_print (sv_toml ex_svc) (repos_config_to_toml ((ex_repos 2)\<lparr>rc_repos := bt_insert ''v'' ex_url (rc_repos (ex_repos 2)), rc_next_slot := next_slot ex_rf + 1\<rparr>)) = Inr b'"
    by (simp only: up ex_svc_fields(1) b(2))
  have wf: "bt_wf (rc_repos (ex_repos 2))" by (simp add: ex_repos_def)
  note run = clone_runs [OF I ex_svc_fields(3) new pre(1-4) ex_svc_fields(4) b1 b2 wf, of "Some (ex_serve (SshRemote ''me'' ''host'' ''/v''))"]
  obtain sv' where c: "clone_repo ''/s'' ''v'' ex_url 0 (Some (ex_serve (SshRemote ''me'' ''host'' ''/v''))) ex_svc =
      (Ok (path_join (path_join ''/mnt'' ''v'') ''default''), sv')" "no_fault (sv_host sv')" "registry ex_svc_toml (sv_host sv') ''/s'' ex_cloned"
    using run [unfolded up, unfolded ex_svc_fields] by blast
  have g: "require_mount_active ex_svc = (Ok (), ex_svc)" "require_root_fs ex_svc = (Ok (), ex_svc)" "ask_root (\<lambda>rf. repo_store rf ''v'') ex_svc = (Ok None, ex_svc)"
      "storage_root ''Clone'' ex_svc = (Ok ''/s'', ex_svc)"
    using new by (simp_all add: require_mount_active_def require_root_fs_def ask_root_def storage_root_def repo_store_def ex_svc_def)
  have "validate_name ''v'' = Inr ()" by (simp add: validate_name_def starts_with_iff)
  then have n: "repo_name_for ex_url ''v'' = Inr ''v''" by (simp add: repo_name_for_def)
  have "svc_clone ex_connector ex_serve (\<lambda>_. Inr 0) ex_url ''v'' ex_svc = (Ok (path_join (path_join ''/mnt'' ''v'') ''default''), sv')"
    by (simp add: svc_clone_def seq_apply g n of_sum_def rem c(1))
  then show ?thesis using that c(2,3) ssh(2) rem by blast
qed

theorem clone_survives_restart_witness:
  "\<exists>sv' rf1 rf'. svc_clone ex_connector ex_serve (\<lambda>_. Inr 0) ex_url ''v'' ex_svc = (Ok (path_join (path_join ''/mnt'' ''v'') ''default''), sv') \<and>
     sv_root_fs sv' = Some rf1 \<and> remote_of rf1 ''v'' = Some (Some (ex_serve (SshRemote ''me'' ''host'' ''/v''))) \<and>
     rehydrate_root_fs (\<lambda>ns. root_fs_new ''/s'' ns 0 [0 \<mapsto> ex_pushed] (\<lambda>_. ''/s/git'') (\<lambda>_. False) (sv_host sv') ex_svc_toml (\<lambda>_. None) (\<lambda>_. Inr ()))
       (\<lambda>_. Inr 0) (parse_url_with ex_connector ex_serve) ex_svc_toml ''/s'' (sv_host sv') = Inr rf' \<and>
     find_ws rf' ''v'' ''default'' = Some (new_entry_of Active 2 (jj_empty_tree_id mem_git)) \<and> remote_of rf' ''v'' = Some None"
proof -
  obtain sv' where run: "svc_clone ex_connector ex_serve (\<lambda>_. Inr 0) ex_url ''v'' ex_svc = (Ok (path_join (path_join ''/mnt'' ''v'') ''default''), sv')"
    and h: "no_fault (sv_host sv')" "registry ex_svc_toml (sv_host sv') ''/s'' ex_cloned" and ssh: "is_ssh_url ex_url"
    and rem: "clone_remote ex_connector ex_url = Inr (Some (SshRemote ''me'' ''host'' ''/v''))" by (rule ex_clone_runs)
  have room: "slot_room ex_svc" "repo_room ex_svc"
    by (simp_all add: slot_room_def repo_room_def ex_svc_fields) (simp add: ex_act_root_def ex_repo_root_def ex_new_root_def ex_root_defs add_child_def)
  have ls: "listable (sv_host sv')" using h(1) by (simp add: listable_def no_fault_def)
  have names: "\<forall>n url. map_of (rc_repos ex_cloned) n = Some url \<longrightarrow> component n" using ex_components by (simp add: ex_cloned_def)
  have "repo_name_for ex_url ''v'' = Inr ''v''" by (simp add: repo_name_for_def validate_name_def starts_with_iff)
  moreover have "stores ex_rf 0 = Some ex_pushed" "glib ex_pushed = mem_git" by (simp_all add: ex_act_root_simps ex_pushed_def ex_store_def)
  ultimately show ?thesis
    using clone_survives_restart [OF ex_svc_ok room run ex_svc_fields(3) ls, unfolded ex_svc_fields, OF h(2) names] run ssh rem by auto
qed

lemma ex_svc_listed: "listed ex_svc"
proof -
  have "repo_names ex_rf = {''r''}"
    by (simp add: repo_names_def ex_act_root_def ex_repo_root_def ex_new_root_def ex_root_defs)
  then have "repo_names ex_rf \<subseteq> dom (map_of (rc_repos (ex_repos 2)))" by (simp add: ex_repos_def)
  moreover have "\<forall>n \<in> dom (map_of (rc_repos (ex_repos 2))). component n" using ex_names_ok [of 2] by blast
  moreover have "recorded ex_svc_toml ex_svc_host ''/s'' (ex_repos 2)" using ex_svc_registry by (simp add: recorded_def)
  moreover have "\<not> h_fault ex_svc_host IoStat p" for p using ex_svc_files(4) by (simp add: no_fault_def)
  ultimately show ?thesis unfolding listed_def covered_def by (auto simp: ex_svc_fields simp del: fun_upd_apply)
qed

theorem restart_recovers_workspaces_witness:
  "\<exists>sv rf rf'. served ex_svc sv \<and> sv_root_fs sv = Some rf \<and> find_ws ex_rf ''v'' ''default'' = None \<and>
     rehydrate_root_fs (\<lambda>ns. root_fs_new ''/s'' ns 0 [0 \<mapsto> ex_pushed] (\<lambda>_. ''/s/git'') (\<lambda>_. False) (sv_host sv) ex_svc_toml (\<lambda>_. None) (\<lambda>_. Inr ()))
       (\<lambda>_. Inr 0) (\<lambda>_. Inr None) ex_svc_toml ''/s'' (sv_host sv) = Inr rf' \<and>
     find_ws rf' ''v'' ''default'' = Some (new_entry_of Active 2 (jj_empty_tree_id mem_git))"
proof -
  obtain sv where run: "svc_clone ex_connector ex_serve (\<lambda>_. Inr 0) ex_url ''v'' ex_svc = (Ok (path_join (path_join ''/mnt'' ''v'') ''default''), sv)"
    and h: "no_fault (sv_host sv)" by (rule ex_clone_runs)
  have room: "slot_room ex_svc" "repo_room ex_svc"
    by (simp_all add: slot_room_def repo_room_def ex_svc_fields) (simp add: ex_act_root_def ex_repo_root_def ex_new_root_def ex_root_defs add_child_def)
  note served = sv_clone [OF sv_start room run]
  have I: "svc_inv ex_svc" using ex_svc_ok by (simp add: svc_inv_def)
  have ls: "listable (sv_host sv)" using h by (simp add: listable_def no_fault_def)
  have v: "repo_name_for ex_url ''v'' = Inr ''v''" by (simp add: repo_name_for_def validate_name_def starts_with_iff)
  have st: "stores ex_rf 0 = Some ex_pushed" "glib ex_pushed = mem_git" by (simp_all add: ex_act_root_simps ex_pushed_def ex_store_def)
  obtain rf where rf: "sv_root_fs sv = Some rf" "storage_dir rf = ''/s''" "sv_toml sv = ex_svc_toml"
    and f: "find_ws rf ''v'' ''default'' = Some (new_entry_of Active 2 (jj_empty_tree_id mem_git))"
  proof (rule svc_clone_spec [OF I room run])
    fix n a rem rf0 sv3 rf' stx re
    assume n: "repo_name_for ex_url ''v'' = Inr n" "Inr 0 = Inr a" and rf0: "sv_root_fs ex_svc = Some rf0" "stores rf0 a = Some stx"
      and s3: "svc_inv sv3" "sv_root_fs sv3 = Some rf'" "sv_toml sv3 = sv_toml ex_svc" "storage_dir rf' = storage_dir rf0"
      and fw: "\<And>q x. find_ws rf' q x = (if q = n \<and> x = ''default'' then Some (new_entry_of Active (next_slot rf0) (jj_empty_tree_id (glib stx))) else find_ws rf0 q x)"
      and u: "update_repos_toml (storage_dir rf0) (\<lambda>rf cfg. cfg\<lparr>rc_repos := bt_insert n ex_url (rc_repos cfg), rc_next_slot := next_slot rf\<rparr>) sv3 = (Ok (), sv)"
    have "sv_root_fs sv = sv_root_fs sv3" "sv_toml sv = sv_toml sv3" using update_repos_written [OF s3(1,2) u] by auto
    moreover have "rf0 = ex_rf" "n = ''v''" "stx = ex_pushed" using n v rf0 st(1) by (simp_all add: ex_svc_fields)
    ultimately show thesis using that s3 fw st(2) by (simp add: ex_svc_fields)
  qed
  have "find_ws ex_rf ''v'' ''default'' = None" by (simp add: ex_rf_find)
  moreover have "we_state (new_entry_of Active 2 (jj_empty_tree_id mem_git)) = Active" by (simp add: new_entry_of_def)
  moreover note restart_recovers_workspaces [OF ex_svc_ok ex_svc_listed served rf(1) f this ls, unfolded rf(2,3), of "\<lambda>_. Inr 0" 0]
  ultimately show ?thesis using served rf(1) by blast
qed

end
