(* ===== verification/Op_Heads.thy ===== *)
theory Op_Heads
  imports Catalog
begin

text \<open>
  \<^verbatim>\<open>src/cli/src/op_heads_store.rs\<close>: the set of operation heads as the value of the single ref \<^verbatim>\<open>op_heads\<close>,
  updated by compare-and-swap through the daemon. A \<^verbatim>\<open>BTreeSet<OperationId>\<close> is the strictly sorted list of
  its elements. Other processes use the same catalog: before every RPC of this client the catalog may
  change, which is the argument \<open>env\<close>. The client's state is the catalog and the list of the catalog states its
  RPCs met so far, the latest first, which nothing in the client reads: it is there so that theorems can
  name the instants of a run.
\<close>

section \<open>Wire format\<close>

definition be32 :: "nat \<Rightarrow> bytes" where
  "be32 n = [char_of (n div 2 ^ 24 mod 256), char_of (n div 2 ^ 16 mod 256), char_of (n div 2 ^ 8 mod 256), char_of (n mod 256)]"

fun of_be32 :: "bytes \<Rightarrow> nat" where
  "of_be32 [a, b, c, d] = of_char a * 2 ^ 24 + of_char b * 2 ^ 16 + of_char c * 2 ^ 8 + of_char d"
| "of_be32 _ = 0"

text \<open>\<^verbatim>\<open>encode\<close>; an id of \<open>2 ^ 32\<close> bytes or more panics, which is \<open>None\<close>.\<close>

fun op_encode :: "bytes list \<Rightarrow> bytes option" where
  "op_encode [] = Some []"
| "op_encode (i # is) =
     (if length i \<ge> 2 ^ 32 then None else map_option (\<lambda>r. be32 (length i) @ i @ r) (op_encode is))"

text \<open>\<open>OhPanic\<close> is a panic of the process, which no caller sees as an error.\<close>

datatype OpHeadsError = OhRead string | OhWrite bytes string | OhPanic

function op_decode_loop :: "bytes \<Rightarrow> bytes list \<Rightarrow> OpHeadsError + bytes list" where
  "op_decode_loop buf out =
     (if buf = [] then Inr out
      else if length buf < 4 then Inl (OhRead ''truncated op_heads value'')
      else let len = of_be32 (take 4 buf); rest = drop 4 buf
           in if length rest < len then Inl (OhRead ''truncated op_heads entry'')
              else op_decode_loop (drop len rest) (if len > 0 then insort_insert (take len rest) out else out))"
  by pat_completeness auto
termination by (relation "measure (\<lambda>(buf, out). length buf)") auto

declare op_decode_loop.simps [simp del]

definition op_decode :: "bytes \<Rightarrow> OpHeadsError + bytes list" where
  "op_decode buf = op_decode_loop buf []"

section \<open>The client\<close>

definition OP_HEADS_REF :: string where
  "OP_HEADS_REF = ''op_heads''"

record 's op_client =
  oc_get :: "string \<Rightarrow> 's \<Rightarrow> catalog_error + bytes option"
  oc_cas :: "string \<Rightarrow> bytes option \<Rightarrow> bytes option \<Rightarrow> 's \<Rightarrow> (catalog_error + CasOutcome) \<times> 's"
  oc_env :: "'s list \<Rightarrow> 's \<Rightarrow> 's"

type_synonym ('s, 'a) oc_io = "('s list \<times> 's, OpHeadsError, 'a) io"

text \<open>The two RPCs: the environment moves, then the daemon answers.\<close>

definition rpc_get :: "'s op_client \<Rightarrow> ('s, GetCatalogRefReply) oc_io" where
  "rpc_get C = (\<lambda>(h, s).
     case get_catalog_ref (Inr (oc_get C)) OP_HEADS_REF (oc_env C h s) of
       Inl _ \<Rightarrow> (Inl (OhRead ''daemon GetCatalogRef''), oc_env C h s # h, oc_env C h s)
     | Inr r \<Rightarrow> (Inr r, oc_env C h s # h, oc_env C h s))"

definition rpc_cas :: "'s op_client \<Rightarrow> bytes \<Rightarrow> bytes option \<Rightarrow> bytes \<Rightarrow> ('s, CasCatalogRefReply) oc_io" where
  "rpc_cas C new_id expected new = (\<lambda>(h, s).
     case cas_catalog_ref (Inr (oc_cas C)) OP_HEADS_REF expected (Some new) (oc_env C h s) of
       (Inl _, s') \<Rightarrow> (Inl (OhWrite new_id ''daemon CasCatalogRef''), oc_env C h s # h, s')
     | (Inr r, s') \<Rightarrow> (Inr r, oc_env C h s # h, s'))"

definition read_set :: "'s op_client \<Rightarrow> ('s, bytes list) oc_io" where
  "read_set C = io_seq (rpc_get C) (\<lambda>r.
     if \<not> reply_found r then io_ret []
     else (case op_decode (reply_value r) of Inl e \<Rightarrow> io_err e | Inr ids \<Rightarrow> io_ret ids))"

definition expected_for_empty :: "'s op_client \<Rightarrow> ('s, bytes option) oc_io" where
  "expected_for_empty C = io_seq (rpc_get C) (\<lambda>r. io_ret (if reply_found r then Some (reply_value r) else None))"

definition next_heads :: "bytes list \<Rightarrow> bytes \<Rightarrow> bytes list \<Rightarrow> bytes list" where
  "next_heads old new current = insort_insert new (fold remove1 old current)"

text \<open>The \<^verbatim>\<open>expect\<close> on the length of an id.\<close>

definition encode_or_panic :: "bytes list \<Rightarrow> ('s, bytes) oc_io" where
  "encode_or_panic ids = (case op_encode ids of None \<Rightarrow> io_err OhPanic | Some b \<Rightarrow> io_ret b)"

text \<open>One round of the retry loop: \<open>True\<close> when the swap was applied.\<close>

definition update_round :: "'s op_client \<Rightarrow> bytes list \<Rightarrow> bytes \<Rightarrow> ('s, bool) oc_io" where
  "update_round C old new =
     io_seq (read_set C) (\<lambda>current.
     io_seq (if current = [] then expected_for_empty C else io_seq (encode_or_panic current) (\<lambda>b. io_ret (Some b))) (\<lambda>expected.
     io_seq (encode_or_panic (next_heads old new current)) (\<lambda>new_bytes.
     io_seq (rpc_cas C new expected new_bytes) (\<lambda>r. io_ret (reply_updated r)))))"

fun update_loop :: "nat \<Rightarrow> 's op_client \<Rightarrow> bytes list \<Rightarrow> bytes \<Rightarrow> ('s, unit) oc_io" where
  "update_loop 0 C old new = io_err (OhWrite new ''op_heads CAS failed to converge'')"
| "update_loop (Suc k) C old new =
     io_seq (update_round C old new) (\<lambda>done. if done then io_ret () else update_loop k C old new)"

definition MAX_RETRIES :: nat where
  "MAX_RETRIES = 64"

text \<open>\<open>dbg\<close> says whether the build has debug assertions; with them an update whose old ids contain the new one panics.\<close>

definition update_op_heads :: "bool \<Rightarrow> 's op_client \<Rightarrow> bytes list \<Rightarrow> bytes \<Rightarrow> ('s, unit) oc_io" where
  "update_op_heads dbg C old new =
     (if dbg \<and> new \<in> set old then io_err OhPanic else update_loop MAX_RETRIES C old new)"

definition get_op_heads :: "'s op_client \<Rightarrow> ('s, bytes list) oc_io" where
  "get_op_heads C = read_set C"

section \<open>Round trip of the wire format\<close>

definition heads_ok :: "bytes list \<Rightarrow> bool" where
  "heads_ok ids \<longleftrightarrow> sorted_wrt (<) ids \<and> (\<forall>i \<in> set ids. i \<noteq> [] \<and> length i < 2 ^ 32)"

lemma be32_length [simp]: "length (be32 n) = 4"
  by (simp add: be32_def)

lemma of_be32_be32: "n < 2 ^ 32 \<Longrightarrow> of_be32 (be32 n) = n"
proof -
  assume n: "n < 2 ^ 32"
  have "n div 2 ^ 24 mod 256 * 2 ^ 24 + n div 2 ^ 16 mod 256 * 2 ^ 16 + n div 2 ^ 8 mod 256 * 2 ^ 8 + n mod 256 = n"
  proof -
    have a: "n = n div 256 * 256 + n mod 256" "n div 256 = n div 256 div 256 * 256 + n div 256 mod 256"
      "n div 256 div 256 = n div 256 div 256 div 256 * 256 + n div 256 div 256 mod 256" by simp_all
    have b: "n div 2 ^ 8 = n div 256" "n div 2 ^ 16 = n div 256 div 256" "n div 2 ^ 24 = n div 256 div 256 div 256"
      by (simp_all add: div_mult2_eq [symmetric])
    have "n div 256 div 256 div 256 < 256" using n by (simp add: div_mult2_eq [symmetric] less_mult_imp_div_less)
    moreover have "m = q1 * 256 + r0 \<Longrightarrow> q1 = q2 * 256 + r1 \<Longrightarrow> q2 = q3 * 256 + r2 \<Longrightarrow>
        q3 * 2 ^ 24 + r2 * 2 ^ 16 + r1 * 2 ^ 8 + r0 = m" for m q1 q2 q3 r0 r1 r2 :: nat by simp
    ultimately show ?thesis unfolding b using a by (metis mod_less)
  qed
  then show ?thesis unfolding be32_def of_be32.simps of_char_of mod_mod_trivial .
qed

lemma decode_entry:
  assumes "i \<noteq> []" and "length i < 2 ^ 32"
  shows "op_decode_loop (be32 (length i) @ i @ r) out = op_decode_loop r (insort_insert i out)"
  using assms of_be32_be32 [of "length i"] by (simp add: op_decode_loop.simps [of "be32 (length i) @ i @ r"])

lemma decode_encode:
  "\<forall>i \<in> set is. i \<noteq> [] \<and> length i < 2 ^ 32 \<Longrightarrow> op_encode is = Some b \<Longrightarrow> op_decode_loop b out = Inr (fold insort_insert is out)"
proof (induction "is" arbitrary: b out)
  case Nil
  then show ?case by (simp add: op_decode_loop.simps)
next
  case (Cons i "is")
  then show ?case using decode_entry by (auto split: if_splits)
qed

lemma encode_some: "\<forall>i \<in> set is. length i < 2 ^ 32 \<Longrightarrow> \<exists>b. op_encode is = Some b"
  by (induction "is") auto

lemma insort_insert_last: "\<forall>y \<in> set out. y < x \<Longrightarrow> insort_insert x out = out @ [x]"
proof -
  assume lt: "\<forall>y \<in> set out. y < x"
  then have "insort x out = out @ [x]" by (induction out) (auto simp: not_le)
  moreover have "x \<notin> set out" using lt by blast
  ultimately show ?thesis by (simp add: insort_insert_key_def)
qed

lemma fold_insort_sorted: "sorted_wrt (<) (out @ is) \<Longrightarrow> fold insort_insert is out = out @ is"
proof (induction "is" arbitrary: out)
  case (Cons i "is")
  then have "insort_insert i out = out @ [i]" by (intro insort_insert_last) (auto simp: sorted_wrt_append)
  then show ?case using Cons by simp
qed simp

lemma decode_canonical: "heads_ok ids \<Longrightarrow> op_encode ids = Some b \<Longrightarrow> op_decode b = Inr ids"
  using decode_encode [of ids b "[]"] fold_insort_sorted [of "[]" ids] by (simp add: heads_ok_def op_decode_def)

lemma set_insort_insert [simp]: "set (insort_insert x xs) = insert x (set xs)"
  by (auto simp: insort_insert_key_def set_insort_key)

lemma strict_insort_insert: "sorted_wrt (<) xs \<Longrightarrow> sorted_wrt (<) (insort_insert x xs)" for x :: bytes
  by (simp add: strict_sorted_iff insort_insert_key_def sorted_insort distinct_insort)

lemma of_be32_lt: "of_be32 b < 2 ^ 32"
proof (cases b rule: of_be32.cases)
  case (1 a b c d)
  have lt: "of_char x < (256::nat)" for x :: char by (metis of_char_mod_256 mod_less_divisor zero_less_numeral)
  have "p < 256 \<Longrightarrow> q < 256 \<Longrightarrow> r < 256 \<Longrightarrow> s < 256 \<Longrightarrow> p * 2 ^ 24 + q * 2 ^ 16 + r * 2 ^ 8 + s < 2 ^ 32" for p q r s :: nat by simp
  then show ?thesis unfolding 1 of_be32.simps using lt by blast
qed simp_all

lemma decode_heads_ok: "op_decode_loop buf out = Inr ids \<Longrightarrow> heads_ok out \<Longrightarrow> heads_ok ids"
proof (induction buf out rule: op_decode_loop.induct)
  case (1 buf out)
  define len where "len = of_be32 (take 4 buf)"
  define out' where "out' = (if len > 0 then insort_insert (take len (drop 4 buf)) out else out)"
  show ?case
  proof (cases "buf = []")
    case True
    then show ?thesis using "1.prems" by (simp add: op_decode_loop.simps)
  next
    case False
    then have run: "\<not> length buf < 4" "\<not> length (drop 4 buf) < len" "op_decode_loop (drop len (drop 4 buf)) out' = Inr ids"
      using "1.prems"(1) by (auto simp: op_decode_loop.simps [of buf] Let_def len_def out'_def split: if_splits)
    have "heads_ok out'"
      using "1.prems"(2) strict_insort_insert of_be32_lt [of "take 4 buf"] run(2) by (auto simp: heads_ok_def out'_def len_def min_def)
    then show ?thesis using "1.IH" [OF False run(1) len_def refl] run(2,3) by (simp add: out'_def)
  qed
qed

lemma decode_ok: "op_decode b = Inr ids \<Longrightarrow> heads_ok ids"
  using decode_heads_ok [of b "[]" ids] by (simp add: op_decode_def heads_ok_def)

lemma fold_remove1:
  "sorted_wrt (<) xs \<Longrightarrow> sorted_wrt (<) (fold remove1 old xs) \<and> set (fold remove1 old xs) = set xs - set old" for xs :: "bytes list"
proof (induction old arbitrary: xs)
  case (Cons x old)
  have "sorted_wrt (<) (remove1 x xs)" using Cons.prems by (simp add: strict_sorted_iff sorted_remove1 distinct_remove1)
  moreover have "set (remove1 x xs) = set xs - {x}" using Cons.prems by (simp add: strict_sorted_iff set_remove1_eq)
  ultimately show ?case using Cons.IH [of "remove1 x xs"] by auto
qed simp

lemma next_heads_ok:
  assumes "heads_ok current" and "new \<noteq> []" and "length new < 2 ^ 32"
  shows "heads_ok (next_heads old new current)" and "set (next_heads old new current) = insert new (set current - set old)"
  using assms fold_remove1 [of current old] strict_insort_insert by (auto simp: heads_ok_def next_heads_def)

lemma heads_ok_encode: "heads_ok ids \<Longrightarrow> \<exists>b. op_encode ids = Some b"
  by (rule encode_some) (simp add: heads_ok_def)

section \<open>The client on any catalog\<close>

lemma op_heads_valid: "validate_ref_name OP_HEADS_REF = Inr ()"
  by (simp add: OP_HEADS_REF_def validate_ref_name_def)

text \<open>The heads a ref value stands for.\<close>

definition heads_value :: "bytes option \<Rightarrow> OpHeadsError + bytes list" where
  "heads_value v = (case v of None \<Rightarrow> Inr [] | Some b \<Rightarrow> op_decode b)"

definition heads_nonempty :: "bytes option \<Rightarrow> bool" where
  "heads_nonempty v \<longleftrightarrow> (\<exists>ids. heads_value v = Inr ids \<and> ids \<noteq> [])"

definition with_env :: "(string \<Rightarrow> 's \<Rightarrow> catalog_error + bytes option) \<Rightarrow>
    (string \<Rightarrow> bytes option \<Rightarrow> bytes option \<Rightarrow> 's \<Rightarrow> (catalog_error + CasOutcome) \<times> 's) \<Rightarrow> ('s list \<Rightarrow> 's \<Rightarrow> 's) \<Rightarrow> 's op_client" where
  "with_env get cas env = \<lparr>oc_get = get, oc_cas = cas, oc_env = env\<rparr>"

text \<open>
  What a successful round did. Either it read heads in the state \<open>g\<close> and swapped in the state \<open>t\<close>, which had the same
  heads; or it read none, asked again in the state \<open>g\<close> for the value to expect, and swapped in a state
  with that value.
\<close>

definition swapped_at :: "'s list \<Rightarrow> ('s \<Rightarrow> string \<Rightarrow> bytes option) \<Rightarrow> bytes list \<Rightarrow> bytes \<Rightarrow> (string \<Rightarrow> bytes option) \<Rightarrow> bool" where
  "swapped_at h refs old new final \<longleftrightarrow> (\<exists>t g rest ids b. h = t # g # rest \<and> final = (refs t)(OP_HEADS_REF \<mapsto> b) \<and>
     op_encode (next_heads old new ids) = Some b \<and>
     (ids \<noteq> [] \<and> heads_value (refs g OP_HEADS_REF) = Inr ids \<and> heads_value (refs t OP_HEADS_REF) = Inr ids \<or>
      ids = [] \<and> refs g OP_HEADS_REF = refs t OP_HEADS_REF \<and>
      (\<exists>g0 rest'. rest = g0 # rest' \<and> heads_value (refs g0 OP_HEADS_REF) = Inr [])))"

context ref_catalog
begin

text \<open>Each RPC is one step on the state the environment left.\<close>

lemma read_set_step:
  assumes ok: "ok_name OP_HEADS_REF" and inv: "inv (env h s)"
    and run: "read_set (with_env get_ref cas_ref env) (h, s) = (r, x')"
  shows "x' = (env h s # h, env h s)" and "r = Inr ids \<Longrightarrow> heads_value (refs (env h s) OP_HEADS_REF) = Inr ids"
  using run get_sound [OF inv ok]
  by (auto simp: read_set_def rpc_get_def get_catalog_ref_def with_env_def op_heads_valid io_defs heads_value_def
      split: sum.splits option.splits if_splits)

lemma expected_step:
  assumes ok: "ok_name OP_HEADS_REF" and inv: "inv (env h s)"
    and run: "expected_for_empty (with_env get_ref cas_ref env) (h, s) = (r, x')"
  shows "x' = (env h s # h, env h s)" and "r = Inr e \<Longrightarrow> e = refs (env h s) OP_HEADS_REF"
  using run get_sound [OF inv ok]
  by (auto simp: expected_for_empty_def rpc_get_def get_catalog_ref_def with_env_def op_heads_valid io_defs
      split: sum.splits option.splits if_splits)

lemma cas_step:
  assumes ok: "ok_name OP_HEADS_REF" and inv: "inv (env h s)"
    and run: "rpc_cas (with_env get_ref cas_ref env) i e b (h, s) = (r, h', s')"
  shows "inv s'" and "h' = env h s # h"
    and "r = Inr rep \<Longrightarrow> reply_updated rep \<Longrightarrow> refs (env h s) OP_HEADS_REF = e \<and> refs s' = (refs (env h s))(OP_HEADS_REF \<mapsto> b)"
    and "r = Inr rep \<Longrightarrow> \<not> reply_updated rep \<Longrightarrow> refs s' = refs (env h s)"
proof -
  obtain q t where q: "cas_ref OP_HEADS_REF e (Some b) (env h s) = (q, t)" by fastforce
  have t: "inv t" using cas_inv [OF inv ok, of e "Some b"] q by simp
  have run': "rpc_cas (with_env get_ref cas_ref env) i e b (h, s) =
      (case q of Inl _ \<Rightarrow> Inl (OhWrite i ''daemon CasCatalogRef'') | Inr Updated \<Rightarrow> Inr \<lparr>reply_updated = True, reply_actual = None\<rparr>
       | Inr (Conflict a) \<Rightarrow> Inr \<lparr>reply_updated = False, reply_actual = a\<rparr>, env h s # h, t)"
    using q by (cases q) (simp_all add: rpc_cas_def cas_catalog_ref_def with_env_def op_heads_valid split: CasOutcome.split)
  show "inv s'" "h' = env h s # h" using run run' t by simp_all
  show "refs (env h s) OP_HEADS_REF = e \<and> refs s' = (refs (env h s))(OP_HEADS_REF \<mapsto> b)" if "r = Inr rep" "reply_updated rep"
    using run run' that cas_updated [OF inv ok] q by (auto split: sum.splits CasOutcome.splits)
  show "refs s' = refs (env h s)" if "r = Inr rep" "\<not> reply_updated rep"
    using run run' that cas_conflict [OF inv ok] q by (auto split: sum.splits CasOutcome.splits)
qed

text \<open>The swap of a round, in the state the environment leaves: the last state met is where it took effect.\<close>

lemma swap_step:
  assumes ok: "ok_name OP_HEADS_REF" and env: "\<And>h t. inv t \<Longrightarrow> inv (env h t)" and s: "inv s"
    and run: "io_seq (rpc_cas (with_env get_ref cas_ref env) new e b) (\<lambda>r. io_ret (reply_updated r)) (h, s) = (r, h', s')"
  shows "inv s' \<and> h' = env h s # h \<and> (r = Inr True \<longrightarrow> refs (env h s) OP_HEADS_REF = e \<and> refs s' = (refs (env h s))(OP_HEADS_REF \<mapsto> b))"
proof -
  obtain q h1 s1 where q: "rpc_cas (with_env get_ref cas_ref env) new e b (h, s) = (q, h1, s1)" by (metis prod_cases3)
  note c = cas_step [OF ok env [OF s] q]
  show ?thesis using run q c by (cases q) (auto simp: io_defs)
qed

lemma round_swaps:
  assumes ok: "ok_name OP_HEADS_REF" and env: "\<And>h t. inv t \<Longrightarrow> inv (env h t)" and s: "inv s"
    and run: "update_round (with_env get_ref cas_ref env) old new (h, s) = (r, h', s')"
  shows "inv s' \<and> (r = Inr True \<longrightarrow> swapped_at h' refs old new (refs s'))"
proof -
  define C where "C = with_env get_ref cas_ref env"
  define g where "g = env h s"
  have g: "inv g" using env [OF s] by (simp add: g_def)
  obtain r1 x1 where r1: "read_set C (h, s) = (r1, x1)" by (rule prod.exhaust)
  have x1: "x1 = (g # h, g)" using read_set_step(1) [OF ok _ r1 [unfolded C_def]] g by (simp add: g_def)
  show ?thesis
  proof (cases r1)
    case (Inl e)
    then show ?thesis using run r1 x1 g by (auto simp: update_round_def C_def io_seq_def)
  next
    case (Inr current)
    have cur: "heads_value (refs g OP_HEADS_REF) = Inr current"
      using read_set_step(2) [OF ok _ r1 [unfolded C_def]] g Inr by (simp add: g_def)
    then have cok: "heads_ok current" using decode_ok by (auto simp: heads_value_def heads_ok_def split: option.splits)
    then obtain cb where cb: "op_encode current = Some cb" using heads_ok_encode by blast
    show ?thesis
    proof (cases "op_encode (next_heads old new current)")
      case None
      obtain e2 x2 where e2: "expected_for_empty C (g # h, g) = (e2, x2)" by (rule prod.exhaust)
      have "inv (snd x2)" using expected_step(1) [OF ok env [OF g] e2 [unfolded C_def]] env [OF g] by simp
      then show ?thesis using run r1 x1 g Inr None cb e2
        by (cases e2) (auto simp: update_round_def C_def io_defs encode_or_panic_def split: if_splits)
    next
      case (Some b)
      show ?thesis
      proof (cases "current = []")
        case False
        then have run': "io_seq (rpc_cas C new (Some cb) b) (\<lambda>r. io_ret (reply_updated r)) (g # h, g) = (r, h', s')"
          using run r1 x1 Inr cb Some by (simp add: update_round_def C_def io_defs encode_or_panic_def)
        note st = swap_step [OF ok env g run' [unfolded C_def]]
        have "heads_value (Some cb) = Inr current" using decode_canonical [OF cok cb] by (simp add: heads_value_def)
        then show ?thesis using st False cur Some unfolding swapped_at_def by metis
      next
        case True
        obtain e2 x2 where e2: "expected_for_empty C (g # h, g) = (e2, x2)" by (rule prod.exhaust)
        define g2 where "g2 = env (g # h) g"
        have g2: "inv g2" using env [OF g] by (simp add: g2_def)
        have x2: "x2 = (g2 # g # h, g2)" using expected_step(1) [OF ok env [OF g] e2 [unfolded C_def]] by (simp add: g2_def)
        show ?thesis
        proof (cases e2)
          case (Inl x)
          then show ?thesis using run r1 x1 Inr True e2 x2 g2 by (auto simp: update_round_def C_def io_defs)
        next
          case e: (Inr e)
          have ev: "e = refs g2 OP_HEADS_REF" using expected_step(2) [OF ok env [OF g] e2 [unfolded C_def] e] by (simp add: g2_def)
          have run': "io_seq (rpc_cas C new e b) (\<lambda>r. io_ret (reply_updated r)) (g2 # g # h, g2) = (r, h', s')"
            using run r1 x1 Inr True e2 x2 e Some by (simp add: update_round_def C_def io_defs encode_or_panic_def)
          note st = swap_step [OF ok env g2 run' [unfolded C_def]]
          show ?thesis using st ev cur True Some unfolding swapped_at_def by metis
        qed
      qed
    qed
  qed
qed

lemma update_swaps:
  assumes ok: "ok_name OP_HEADS_REF" and env: "\<And>h t. inv t \<Longrightarrow> inv (env h t)"
  shows "inv s \<Longrightarrow> update_loop k (with_env get_ref cas_ref env) old new (h, s) = (Inr (), h', s') \<Longrightarrow> swapped_at h' refs old new (refs s')"
proof (induction k arbitrary: h s)
  case 0
  then show ?case by (simp add: io_err_def)
next
  case (Suc k)
  obtain r m t where r: "update_round (with_env get_ref cas_ref env) old new (h, s) = (r, m, t)" by (metis prod_cases3)
  note ra = round_swaps [OF ok env Suc.prems(1) r]
  then show ?case using Suc.prems(2) r Suc.IH [of t m] by (cases r) (auto simp: io_defs split: if_splits)
qed

text \<open>Without interference, on a healthy catalog.\<close>

lemma quiet_read:
  assumes "inv s" "ok_name OP_HEADS_REF" "healthy s" "heads_value (refs s OP_HEADS_REF) = Inr ids"
  shows "read_set (with_env get_ref cas_ref (\<lambda>_ t. t)) (n, s) = (Inr ids, s # n, s)"
    and "expected_for_empty (with_env get_ref cas_ref (\<lambda>_ t. t)) (n, s) = (Inr (refs s OP_HEADS_REF), s # n, s)"
  using get_ref_eq [OF assms(1-3)] assms(4)
  by (auto simp: read_set_def expected_for_empty_def rpc_get_def get_catalog_ref_def with_env_def op_heads_valid io_defs heads_value_def
      split: option.split)

lemma quiet_round:
  assumes "inv s" "ok_name OP_HEADS_REF" "healthy s" "heads_value (refs s OP_HEADS_REF) = Inr ids" "ids = [] \<or> op_encode ids = refs s OP_HEADS_REF"
    and "op_encode (next_heads old new ids) = Some b"
  shows "\<exists>m s'. update_round (with_env get_ref cas_ref (\<lambda>_ t. t)) old new (n, s) = (Inr True, m, s') \<and>
    inv s' \<and> healthy s' \<and> refs s' = (refs s)(OP_HEADS_REF \<mapsto> b)"
proof -
  obtain s' where s': "cas_ref OP_HEADS_REF (refs s OP_HEADS_REF) (Some b) s = (Inr Updated, s')"
      "refs s' = (refs s)(OP_HEADS_REF \<mapsto> b)" "inv s'" "healthy s'"
    using cas_hit [OF assms(1-3) refl] by blast
  then have "rpc_cas (with_env get_ref cas_ref (\<lambda>_ t. t)) new (refs s OP_HEADS_REF) b (m, s) =
      (Inr \<lparr>reply_updated = True, reply_actual = None\<rparr>, s # m, s')" for m
    by (simp add: rpc_cas_def cas_catalog_ref_def with_env_def op_heads_valid)
  then have "\<exists>m. update_round (with_env get_ref cas_ref (\<lambda>_ t. t)) old new (n, s) = (Inr True, m, s')"
    using quiet_read [OF assms(1-4)] assms(4-6) by (cases "ids = []") (auto simp: heads_value_def update_round_def io_defs encode_or_panic_def split: option.splits)
  then show ?thesis using s' by blast
qed

lemma quiet_update:
  assumes "inv s" "ok_name OP_HEADS_REF" "healthy s" "heads_value (refs s OP_HEADS_REF) = Inr ids" "ids = [] \<or> op_encode ids = refs s OP_HEADS_REF"
    and "new \<noteq> []" "length new < 2 ^ 32" "new \<notin> set old"
  shows "\<exists>m s' ids'. update_op_heads dbg (with_env get_ref cas_ref (\<lambda>_ t. t)) old new (n, s) = (Inr (), m, s') \<and> inv s' \<and> healthy s' \<and>
    op_encode ids' = refs s' OP_HEADS_REF \<and> heads_value (refs s' OP_HEADS_REF) = Inr ids' \<and> set ids' = insert new (set ids - set old) \<and>
    (\<forall>r. r \<noteq> OP_HEADS_REF \<longrightarrow> refs s' r = refs s r)"
proof -
  have "heads_ok ids" using assms(4) decode_ok by (auto simp: heads_value_def heads_ok_def split: option.splits)
  note nh = next_heads_ok [OF this assms(6,7), of old]
  obtain b where b: "op_encode (next_heads old new ids) = Some b" using heads_ok_encode [OF nh(1)] by blast
  obtain m s' where r: "update_round (with_env get_ref cas_ref (\<lambda>_ t. t)) old new (n, s) = (Inr True, m, s')" "inv s'" "healthy s'"
      "refs s' = (refs s)(OP_HEADS_REF \<mapsto> b)"
    using quiet_round [OF assms(1-5) b] by blast
  have "update_op_heads dbg (with_env get_ref cas_ref (\<lambda>_ t. t)) old new (n, s) = (Inr (), m, s')"
    using r(1) assms(8) by (simp add: update_op_heads_def MAX_RETRIES_def numeral_eq_Suc io_defs)
  moreover have "heads_value (refs s' OP_HEADS_REF) = Inr (next_heads old new ids)"
    using r(4) decode_canonical [OF nh(1) b] by (simp add: heads_value_def)
  ultimately show ?thesis using r b nh(2) by auto
qed

text \<open>A client that finds no heads while a rival stores some between its two reads.\<close>

lemma first_heads_race:
  assumes "ok_name OP_HEADS_REF" and s: "inv s" "healthy s" "refs s OP_HEADS_REF = None" and t: "rival s = t" "inv t" "healthy t"
    and new: "new \<noteq> []" "length new < 2 ^ 32" "new \<notin> set old"
  shows "\<exists>s'. update_op_heads dbg (with_env get_ref cas_ref (\<lambda>h x. if length h = 1 then rival x else x)) old new ([], s) = (Inr (), [t, t, s], s') \<and>
    refs s' OP_HEADS_REF = op_encode [new] \<and> (\<forall>r. r \<noteq> OP_HEADS_REF \<longrightarrow> refs s' r = refs t r)"
proof -
  have nh: "next_heads old new [] = [new]"
  proof -
    have "fold remove1 old [] = []" by (induction old) simp_all
    then show ?thesis by (simp add: next_heads_def insort_insert_key_def)
  qed
  have "heads_ok [new]" using new by (simp add: heads_ok_def)
  then obtain b where b: "op_encode [new] = Some b" using heads_ok_encode by blast
  obtain s' where s': "cas_ref OP_HEADS_REF (refs t OP_HEADS_REF) (Some b) t = (Inr Updated, s')" "refs s' = (refs t)(OP_HEADS_REF \<mapsto> b)"
    using cas_hit [OF t(2) assms(1) t(3) refl] by blast
  have get: "get_ref OP_HEADS_REF s = Inr None" "get_ref OP_HEADS_REF t = Inr (refs t OP_HEADS_REF)"
    using get_ref_eq [OF s(1) assms(1) s(2)] get_ref_eq [OF t(2) assms(1) t(3)] s(3) by simp_all
  have m: "MAX_RETRIES = Suc 63" by (simp add: MAX_RETRIES_def)
  have "update_op_heads dbg (with_env get_ref cas_ref (\<lambda>h x. if length h = 1 then rival x else x)) old new ([], s) = (Inr (), [t, t, s], s')"
    unfolding update_op_heads_def m update_loop.simps(2) using new(3) t(1) get s'(1) nh b
    by (cases "refs t OP_HEADS_REF") (simp_all add: with_env_def update_round_def read_set_def expected_for_empty_def rpc_get_def rpc_cas_def
        get_catalog_ref_def cas_catalog_ref_def io_defs encode_or_panic_def op_heads_valid del: op_encode.simps)
  then show ?thesis using s'(2) b by auto
qed

text \<open>A value that decodes but is not in canonical form is never replaced.\<close>

lemma stuck_round:
  assumes "inv s" "ok_name OP_HEADS_REF" "healthy s" "heads_value (refs s OP_HEADS_REF) = Inr ids" "ids \<noteq> []" "op_encode ids \<noteq> refs s OP_HEADS_REF"
    and "new \<noteq> []" "length new < 2 ^ 32"
  shows "\<exists>m s'. update_round (with_env get_ref cas_ref (\<lambda>_ t. t)) old new (n, s) = (Inr False, m, s') \<and> inv s' \<and> healthy s' \<and> refs s' = refs s"
proof -
  have ok: "heads_ok ids" using assms(4) decode_ok by (auto simp: heads_value_def heads_ok_def split: option.splits)
  obtain b where b: "op_encode (next_heads old new ids) = Some b" using heads_ok_encode [OF next_heads_ok(1) [OF ok assms(7,8)]] by blast
  obtain e where e: "op_encode ids = Some e" using heads_ok_encode [OF ok] by blast
  obtain s' where s': "cas_ref OP_HEADS_REF (Some e) (Some b) s = (Inr (Conflict (refs s OP_HEADS_REF)), s')" "refs s' = refs s" "inv s'" "healthy s'"
    using cas_miss [OF assms(1-3), of "Some e" "Some b"] assms(6) e by auto
  then have "rpc_cas (with_env get_ref cas_ref (\<lambda>_ t. t)) new (Some e) b (m, s) =
      (Inr \<lparr>reply_updated = False, reply_actual = refs s OP_HEADS_REF\<rparr>, s # m, s')" for m
    by (simp add: rpc_cas_def cas_catalog_ref_def with_env_def op_heads_valid)
  then have "\<exists>m. update_round (with_env get_ref cas_ref (\<lambda>_ t. t)) old new (n, s) = (Inr False, m, s')"
    using quiet_read [OF assms(1-4)] assms(5) b e by (auto simp: update_round_def io_defs encode_or_panic_def)
  then show ?thesis using s' by blast
qed

lemma stuck_update:
  assumes "ok_name OP_HEADS_REF" "new \<noteq> []" "length new < 2 ^ 32"
  shows "inv s \<Longrightarrow> healthy s \<Longrightarrow> heads_value (refs s OP_HEADS_REF) = Inr ids \<Longrightarrow> ids \<noteq> [] \<Longrightarrow> op_encode ids \<noteq> refs s OP_HEADS_REF \<Longrightarrow>
    \<exists>e m s'. update_loop k (with_env get_ref cas_ref (\<lambda>_ t. t)) old new (n, s) = (Inl (OhWrite new e), m, s') \<and> refs s' = refs s"
proof (induction k arbitrary: n s)
  case 0
  then show ?case by (simp add: io_err_def)
next
  case (Suc k)
  obtain m t where t: "update_round (with_env get_ref cas_ref (\<lambda>_ t. t)) old new (n, s) = (Inr False, m, t)" "inv t" "healthy t" "refs t = refs s"
    using stuck_round [OF Suc.prems(1) assms(1) Suc.prems(2-5) assms(2,3)] by blast
  then show ?case using Suc.IH [of t m] Suc.prems by (simp add: io_defs)
qed

end

section \<open>What the op-heads store promises\<close>

lemma op_heads_name: "fs_ref_ok OP_HEADS_REF" "valid_ref_name OP_HEADS_REF"
  by (simp_all add: fs_ref_ok_def valid_ref_name_iff OP_HEADS_REF_def internal_name_def starts_with_def)

definition dir_client :: "string \<Rightarrow> ((host \<times> local_refs) list \<Rightarrow> host \<times> local_refs \<Rightarrow> host \<times> local_refs) \<Rightarrow> (host \<times> local_refs) op_client" where
  "dir_client dir env = with_env (catalog_get_ref (catalog_for (Some (fs_remote dir)))) (catalog_cas_ref (catalog_for (Some (fs_remote dir)))) env"

definition local_client :: "((unit \<times> local_refs) list \<Rightarrow> unit \<times> local_refs \<Rightarrow> unit \<times> local_refs) \<Rightarrow> (unit \<times> local_refs) op_client" where
  "local_client env = with_env (catalog_get_ref (catalog_for None)) (catalog_cas_ref (catalog_for None)) env"

text \<open>
  Encoding a set of operation ids and decoding it gives the set back, and whatever bytes are decoded, the result is a
  set of non-empty ids or an error.
\<close>

theorem op_heads_format:
  assumes "heads_ok ids"
  shows "(\<exists>b. op_encode ids = Some b \<and> op_decode b = Inr ids) \<and> (\<forall>b ids'. op_decode b = Inr ids' \<longrightarrow> heads_ok ids')"
  using heads_ok_encode [OF assms] decode_canonical [OF assms] decode_ok by blast

theorem op_heads_format_witness: "\<exists>b. op_encode [''ab'', ''b''] = Some b \<and> op_decode b = Inr [''ab'', ''b'']"
proof -
  have "heads_ok [''ab'', ''b'']" by (simp add: heads_ok_def)
  then show ?thesis using op_heads_format [of "[''ab'', ''b'']"] by blast
qed

text \<open>
  C35: Without concurrent writers, an update of the heads through the daemon on a healthy directory remote succeeds when the new id
  is not among the old ones, as the trait requires and the debug assertion checks, and the stored value is
  absent, empty or in the form the code writes: the heads become the current ones without the old ids and
  with the new one, and no other ref changes.
\<close>

theorem update_op_heads_functional:
  assumes "fs_store_inv dir s" and "fs_healthy dir s" and "heads_value (fs_refs dir s OP_HEADS_REF) = Inr ids"
    and "ids = [] \<or> op_encode ids = fs_refs dir s OP_HEADS_REF" and "new \<noteq> []" and "length new < 2 ^ 32" and "new \<notin> set old"
  shows "\<exists>h' s' l' ids'. update_op_heads dbg (dir_client dir (\<lambda>_ t. t)) old new (h, s, l) = (Inr (), h', s', l') \<and>
    heads_value (fs_refs dir s' OP_HEADS_REF) = Inr ids' \<and> set ids' = insert new (set ids - set old) \<and>
    (\<forall>r. r \<noteq> OP_HEADS_REF \<longrightarrow> fs_refs dir s' r = fs_refs dir s r)"
proof -
  obtain m x ids' where "update_op_heads dbg (dir_client dir (\<lambda>_ t. t)) old new (h, s, l) = (Inr (), m, x)"
      "heads_value ((\<lambda>(s, l). fs_refs dir s) x OP_HEADS_REF) = Inr ids'" "set ids' = insert new (set ids - set old)"
      "\<forall>r. r \<noteq> OP_HEADS_REF \<longrightarrow> (\<lambda>(s, l). fs_refs dir s) x r = fs_refs dir s r"
    using cr.quiet_update [of dir "(s, l)" ids new old dbg h] assms op_heads_name(1) by (auto simp: dir_client_def)
  then show ?thesis by (cases x) auto
qed

lemma dir_env_example: "fs_store_inv ''/srv'' ex_host" "fs_healthy ''/srv'' ex_host" "fs_refs ''/srv'' ex_host OP_HEADS_REF = None"
  by (simp_all add: empty_store_inv ex_host_def fs_healthy_def no_fault_def fs_refs_def file_at_def)

theorem update_op_heads_functional_witness:
  "\<exists>h' s' l' ids'. update_op_heads True (dir_client ''/srv'' (\<lambda>_ t. t)) [''x''] ''op1'' ([], ex_host, local_refs_new (\<lambda>_. False)) = (Inr (), h', s', l') \<and>
     heads_value (fs_refs ''/srv'' s' OP_HEADS_REF) = Inr ids' \<and> set ids' = {''op1''}"
  using update_op_heads_functional [OF dir_env_example(1,2), of "[]" "''op1''" "[''x'']" True "[]" "local_refs_new (\<lambda>_. False)"] dir_env_example(3)
  by (auto simp: heads_value_def)

text \<open>
  C34: With other writers active between the calls, in any way that leaves the directory a store, a successful update took
  effect in the state its last RPC met, the first of the history: every other ref stays as it was there. If the
  last round read heads, then they were still the heads at that instant, and the update replaced them by
  those heads without the old ids and with the new one. If it read none, the new heads are the new id
  alone, and the value they replaced is the one the catalog had when the client asked for it again.
\<close>

theorem update_op_heads_atomic:
  assumes env: "\<forall>h t l. fs_store_inv dir t \<longrightarrow> fs_store_inv dir (fst (env h (t, l)))"
    and "fs_store_inv dir s" and "new \<noteq> []" and "length new < 2 ^ 32"
    and run: "update_op_heads dbg (dir_client dir env) old new ([], s, l) = (Inr (), h', s', l')"
  shows "\<exists>t g rest ids'. h' = t # g # rest \<and> heads_value (fs_refs dir s' OP_HEADS_REF) = Inr ids' \<and>
    (\<forall>r. r \<noteq> OP_HEADS_REF \<longrightarrow> fs_refs dir s' r = fs_refs dir (fst t) r) \<and>
    ((\<exists>ids. ids \<noteq> [] \<and> heads_value (fs_refs dir (fst g) OP_HEADS_REF) = Inr ids \<and> heads_value (fs_refs dir (fst t) OP_HEADS_REF) = Inr ids \<and>
        set ids' = insert new (set ids - set old)) \<or>
     (\<exists>g0 rest'. rest = g0 # rest' \<and> heads_value (fs_refs dir (fst g0) OP_HEADS_REF) = Inr [] \<and>
        fs_refs dir (fst g) OP_HEADS_REF = fs_refs dir (fst t) OP_HEADS_REF \<and> set ids' = {new}))"
proof -
  have env': "case env h t of (s, l) \<Rightarrow> fs_store_inv dir s" if "case t of (s, l) \<Rightarrow> fs_store_inv dir s" for h t
    using that env [rule_format, of "fst t" h "snd t"] by (simp add: case_prod_beta)
  have "swapped_at h' (\<lambda>(s, l). fs_refs dir s) old new (fs_refs dir s')"
    using cr.update_swaps [where env = env, OF op_heads_name(1) env', where s = "(s, l)" and k = MAX_RETRIES and h = "[]" and s' = "(s', l')"] assms(2) run
    by (auto simp: dir_client_def update_op_heads_def io_err_def split: if_splits)
  then obtain t g rest ids b where sw: "h' = t # g # rest" "fs_refs dir s' = (fs_refs dir (fst t))(OP_HEADS_REF \<mapsto> b)"
      "op_encode (next_heads old new ids) = Some b"
      "ids \<noteq> [] \<and> heads_value (fs_refs dir (fst g) OP_HEADS_REF) = Inr ids \<and> heads_value (fs_refs dir (fst t) OP_HEADS_REF) = Inr ids \<or>
       ids = [] \<and> fs_refs dir (fst g) OP_HEADS_REF = fs_refs dir (fst t) OP_HEADS_REF \<and>
       (\<exists>g0 rest'. rest = g0 # rest' \<and> heads_value (fs_refs dir (fst g0) OP_HEADS_REF) = Inr [])"
    unfolding swapped_at_def case_prod_beta by blast
  have "heads_ok ids" using sw(4) decode_ok by (auto simp: heads_value_def heads_ok_def split: option.splits)
  note nh = next_heads_ok [OF this assms(3,4), of old]
  have "heads_value (fs_refs dir s' OP_HEADS_REF) = Inr (next_heads old new ids)"
    using sw(2) decode_canonical [OF nh(1) sw(3)] by (simp add: heads_value_def)
  then show ?thesis using sw nh(2) by auto
qed

theorem update_op_heads_atomic_witness:
  "\<exists>t g rest s' l'. update_op_heads True (dir_client ''/srv'' (\<lambda>_ t. t)) [] ''op1'' ([], ex_host, local_refs_new (\<lambda>_. False)) = (Inr (), t # g # rest, s', l') \<and>
     (\<exists>ids'. heads_value (fs_refs ''/srv'' s' OP_HEADS_REF) = Inr ids' \<and> ''op1'' \<in> set ids')"
proof -
  obtain h' s' l' where run: "update_op_heads True (dir_client ''/srv'' (\<lambda>_ t. t)) [] ''op1'' ([], ex_host, local_refs_new (\<lambda>_. False)) = (Inr (), h', s', l')"
    using cr.quiet_update [of "''/srv''" "(ex_host, local_refs_new (\<lambda>_. False))" "[]" "''op1''" "[]" True "[]"] dir_env_example op_heads_name(1)
    by (auto simp: heads_value_def dir_client_def)
  have ok: "''op1'' \<noteq> []" "length ''op1'' < 2 ^ 32" by simp_all
  show ?thesis using update_op_heads_atomic [OF _ dir_env_example(1) ok run] run by fastforce
qed

text \<open>
  C36: Two clients that both store the first heads of a repository can lose one of them: the first reads that there are none, the
  second runs its whole update and is told it succeeded, with its id the only head; the first asks again
  for the value to expect, gets the second's, and replaces it. It succeeds too and its own id is then the
  only head.
\<close>

theorem first_heads_lost:
  fixes dir :: string and s :: host and l :: local_refs and dbg :: bool and theirs :: bytes
  assumes "fs_store_inv dir s" and "fs_healthy dir s" and "fs_refs dir s OP_HEADS_REF = None"
    and mine: "mine \<noteq> []" "length mine < 2 ^ 32" and theirs: "theirs \<noteq> []" "length theirs < 2 ^ 32"
  defines "rival \<equiv> (\<lambda>x. update_op_heads dbg (dir_client dir (\<lambda>_ t. t)) [] theirs ([], x))"
  shows "\<exists>h1 t1 k1 h' s' l'. rival (s, l) = (Inr (), h1, t1, k1) \<and> heads_value (fs_refs dir t1 OP_HEADS_REF) = Inr [theirs] \<and>
    update_op_heads dbg (dir_client dir (\<lambda>h x. if length h = 1 then snd (snd (rival x)) else x)) [] mine ([], s, l) = (Inr (), h', s', l') \<and>
    (t1, k1) \<in> set h' \<and> heads_value (fs_refs dir s' OP_HEADS_REF) = Inr [mine]"
proof -
  obtain h1 x ids' where r: "rival (s, l) = (Inr (), h1, x)" "case x of (t, k) \<Rightarrow> fs_store_inv dir t" "case x of (t, k) \<Rightarrow> fs_healthy dir t"
      "heads_value ((case x of (t, k) \<Rightarrow> fs_refs dir t) OP_HEADS_REF) = Inr ids'" "set ids' = {theirs}"
    using cr.quiet_update [of dir "(s, l)" "[]" theirs "[]" dbg "[]"] assms(1-3) theirs op_heads_name(1)
    by (auto simp: rival_def dir_client_def heads_value_def)
  obtain t1 k1 where x: "x = (t1, k1)" by (cases x)
  have "heads_ok ids'" using r(4) decode_ok by (auto simp: heads_value_def heads_ok_def split: option.splits)
  then have "sorted ids' \<and> distinct ids'" by (simp add: heads_ok_def strict_sorted_iff)
  then have ids: "ids' = [theirs]" using r(5) by (intro sorted_distinct_set_unique) auto
  obtain s' where s': "update_op_heads dbg (dir_client dir (\<lambda>h x. if length h = 1 then snd (snd (rival x)) else x)) [] mine ([], s, l) =
        (Inr (), [(t1, k1), (t1, k1), (s, l)], s')" "(case s' of (t, k) \<Rightarrow> fs_refs dir t) OP_HEADS_REF = op_encode [mine]"
    using cr.first_heads_race [of dir "(s, l)" "\<lambda>x. snd (snd (rival x))" "(t1, k1)" mine "[]" dbg] assms(1-3) mine op_heads_name(1) r x
    by (auto simp: dir_client_def)
  have m: "heads_ok [mine]" using mine by (simp add: heads_ok_def)
  obtain b where b: "op_encode [mine] = Some b" using heads_ok_encode [OF m] by blast
  have "heads_value (op_encode [mine]) = Inr [mine]" using decode_canonical [OF m b] b by (simp add: heads_value_def)
  then show ?thesis using r x ids s' by (cases s') auto
qed

theorem first_heads_lost_witness:
  "\<exists>env h' s' l'. update_op_heads True (dir_client ''/srv'' env) [] ''mine'' ([], ex_host, local_refs_new (\<lambda>_. False)) = (Inr (), h', s', l') \<and>
     (\<exists>x \<in> set h'. heads_value (fs_refs ''/srv'' (fst x) OP_HEADS_REF) = Inr [''theirs'']) \<and>
     heads_value (fs_refs ''/srv'' s' OP_HEADS_REF) = Inr [''mine'']"
proof -
  have ok: "''mine'' \<noteq> []" "length ''mine'' < 2 ^ 32" "''theirs'' \<noteq> []" "length ''theirs'' < 2 ^ 32" by simp_all
  obtain env h' s' l' t k where e: "update_op_heads True (dir_client ''/srv'' env) [] ''mine'' ([], ex_host, local_refs_new (\<lambda>_. False)) = (Inr (), h', s', l')"
      "(t, k) \<in> set h'" "heads_value (fs_refs ''/srv'' t OP_HEADS_REF) = Inr [''theirs'']" "heads_value (fs_refs ''/srv'' s' OP_HEADS_REF) = Inr [''mine'']"
    using first_heads_lost [OF dir_env_example ok, of True "local_refs_new (\<lambda>_. False)"] by blast
  then show ?thesis by (intro exI conjI bexI [of _ "(t, k)"]) auto
qed

text \<open>
  A stored value with a zero-length entry decodes to its heads, but no update replaces it: every attempt ends with the
  error that the swap did not converge and leaves the catalog as it was.
\<close>

definition padded :: local_refs where
  "padded = \<lparr>refs_v1 = Some [(OP_HEADS_REF, be32 0 @ be32 2 @ ''op'')], redb_fault = (\<lambda>_. False)\<rparr>"

theorem padded_heads_stuck:
  "heads_value (local_abs padded OP_HEADS_REF) = Inr [''op''] \<and>
   (\<exists>e m u l. update_op_heads dbg (local_client (\<lambda>_ t. t)) [''op''] ''new'' ([], (), padded) = (Inl (OhWrite ''new'' e), m, u, l) \<and>
      local_abs l = local_abs padded)"
proof -
  have two: "length ''op'' = 2" by simp
  have "op_decode (be32 0 @ be32 2 @ ''op'') = op_decode (be32 2 @ ''op'')"
    using of_be32_be32 [of 0] by (simp add: op_decode_def op_decode_loop.simps [of "be32 0 @ _"])
  also have "\<dots> = Inr [''op'']"
    using decode_entry [of "''op''" "[]" "[]"] unfolding two op_decode_def append_Nil2
    by (simp add: op_decode_loop.simps [of "[]"] insort_insert_key_def)
  finally have v: "heads_value (local_abs padded OP_HEADS_REF) = Inr [''op'']" by (simp add: heads_value_def local_abs_def padded_def)
  have "op_encode [''op''] = Some (be32 2 @ ''op'')" using two by (simp del: list.size)
  moreover have "length (be32 2 @ ''op'') \<noteq> length (be32 0 @ be32 2 @ ''op'')" by (simp only: length_append be32_length)
  moreover have "local_abs padded OP_HEADS_REF = Some (be32 0 @ be32 2 @ ''op'')" by (simp add: local_abs_def padded_def)
  ultimately have "op_encode [''op''] \<noteq> local_abs padded OP_HEADS_REF" by (metis option.inject)
  moreover have "local_inv padded" "local_healthy padded" using op_heads_name(2) by (simp_all add: local_inv_def local_healthy_def padded_def)
  ultimately obtain e m x where "update_loop MAX_RETRIES (local_client (\<lambda>_ t. t)) [''op''] ''new'' ([], (), padded) = (Inl (OhWrite ''new'' e), m, x)"
      "(\<lambda>(s, l). local_abs l) x = local_abs padded"
    using cl.stuck_update [OF op_heads_name(2), of "''new''" "((), padded)" "[''op'']" MAX_RETRIES "[''op'']" "[]"] v
    by (auto simp: local_client_def)
  then show ?thesis using v by (cases x) (auto simp: update_op_heads_def)
qed

end
