(* ===== verification/S3_Remote.thy ===== *)
theory S3_Remote
  imports Push Op_Heads Remote_Url
begin

text \<open>
  The S3 remote (\<^verbatim>\<open>src/daemon/src/remote/s3.rs\<close>). The service behind the AWS SDK is a parameter, a table of the five
  requests over a state of its own; \<open>s3_laws\<close> is what its documentation promises of one bucket. Other clients use
  the same bucket: before the request number \<open>n\<close> of a client the state may change, which is the argument \<open>env\<close>.
  The six methods of the trait are first defined with that interference; \<open>s3_remote\<close> is the table of the
  methods when each of them runs undisturbed, which is what the other components see of a remote.
\<close>

section \<open>Requests\<close>

datatype sdk_error = ServiceError nat string | ResponseError nat | OtherSdkError

datatype put_condition = Always | IfNoneMatch | IfMatch string

record 's s3_api =
  api_get :: "string \<Rightarrow> string \<Rightarrow> 's \<Rightarrow> sdk_error + (string + bytes) \<times> string option"
  api_put :: "string \<Rightarrow> string \<Rightarrow> bytes \<Rightarrow> put_condition \<Rightarrow> 's \<Rightarrow> (sdk_error + unit) \<times> 's"
  api_head :: "string \<Rightarrow> string \<Rightarrow> 's \<Rightarrow> sdk_error + unit"
  api_delete :: "string \<Rightarrow> string \<Rightarrow> string \<Rightarrow> 's \<Rightarrow> (sdk_error + unit) \<times> 's"
  api_list :: "string \<Rightarrow> string \<Rightarrow> string option \<Rightarrow> 's \<Rightarrow> sdk_error + string option list \<times> bool option \<times> string option"

record 's s3_store =
  s3_client :: "'s s3_api"
  s3_bucket :: string
  s3_prefix :: string

definition s3_new :: "'s s3_api \<Rightarrow> string \<Rightarrow> string \<Rightarrow> 's s3_store" where
  "s3_new client bucket prefix = \<lparr>s3_client = client, s3_bucket = bucket, s3_prefix = trim_end_matches (CHR ''/'') prefix\<rparr>"

section \<open>Keys\<close>

definition s3_hex :: "bytes \<Rightarrow> string" where
  "s3_hex i = concat (map hex_byte i)"

definition blob_key :: "'s s3_store \<Rightarrow> BlobKind \<Rightarrow> bytes \<Rightarrow> string" where
  "blob_key S kind i =
     (if s3_prefix S = [] then as_str kind @ ''/'' @ s3_hex i else s3_prefix S @ ''/'' @ as_str kind @ ''/'' @ s3_hex i)"

definition ref_key :: "'s s3_store \<Rightarrow> string \<Rightarrow> string" where
  "ref_key S name = (if s3_prefix S = [] then ''refs/'' @ name else s3_prefix S @ ''/refs/'' @ name)"

definition refs_prefix :: "'s s3_store \<Rightarrow> string" where
  "refs_prefix S = (if s3_prefix S = [] then ''refs/'' else s3_prefix S @ ''/refs/'')"

section \<open>The methods\<close>

fun is_no_such_key :: "sdk_error \<Rightarrow> bool" where
  "is_no_such_key (ServiceError _ c) = (c = ''NoSuchKey'')"
| "is_no_such_key _ = False"

fun is_not_found_head :: "sdk_error \<Rightarrow> bool" where
  "is_not_found_head (ServiceError _ c) = (c = ''NotFound'')"
| "is_not_found_head _ = False"

text \<open>\<^verbatim>\<open>is_precondition_failed\<close> and \<^verbatim>\<open>is_delete_precondition_failed\<close>.\<close>

fun is_precondition_failed :: "sdk_error \<Rightarrow> bool" where
  "is_precondition_failed (ServiceError st _) = (st = 412)"
| "is_precondition_failed (ResponseError st) = (st = 412)"
| "is_precondition_failed OtherSdkError = False"

definition s3_url :: "'s s3_store \<Rightarrow> string \<Rightarrow> string" where
  "s3_url S key = ''s3://'' @ s3_bucket S @ ''/'' @ key"

type_synonym ('s, 'e, 'a) s3_io = "(nat \<times> 's, 'e, 'a) io"

text \<open>A request: the environment moves, then the service answers.\<close>

definition send :: "(nat \<Rightarrow> 's \<Rightarrow> 's) \<Rightarrow> ('s \<Rightarrow> (sdk_error + 'a) \<times> 's) \<Rightarrow> ('s, 'e, sdk_error + 'a) s3_io" where
  "send env req = (\<lambda>(n, s). case req (env n s) of (r, s') \<Rightarrow> (Inr r, Suc n, s'))"

definition asks :: "('s \<Rightarrow> 'r) \<Rightarrow> 's \<Rightarrow> 'r \<times> 's" where
  "asks f s = (f s, s)"

definition get_object :: "(nat \<Rightarrow> 's \<Rightarrow> 's) \<Rightarrow> 's s3_store \<Rightarrow> string \<Rightarrow> ('s, string, (bytes \<times> string) option) s3_io" where
  "get_object env S key =
     io_seq (send env (asks (api_get (s3_client S) (s3_bucket S) key))) (\<lambda>r.
       case r of
         Inr (body, e_tag) \<Rightarrow>
           (case body of
              Inl _ \<Rightarrow> io_err (''reading body of '' @ s3_url S key)
            | Inr b \<Rightarrow> io_ret (Some (b, case e_tag of Some e \<Rightarrow> e | None \<Rightarrow> [])))
       | Inl err \<Rightarrow> if is_no_such_key err then io_ret None else io_err (''GetObject '' @ s3_url S key))"

definition s3_get_blob :: "(nat \<Rightarrow> 's \<Rightarrow> 's) \<Rightarrow> 's s3_store \<Rightarrow> BlobKind \<Rightarrow> bytes \<Rightarrow> ('s, string, bytes option) s3_io" where
  "s3_get_blob env S kind i = io_seq (get_object env S (blob_key S kind i)) (\<lambda>obj. io_ret (map_option fst obj))"

definition s3_put_blob :: "(nat \<Rightarrow> 's \<Rightarrow> 's) \<Rightarrow> 's s3_store \<Rightarrow> BlobKind \<Rightarrow> bytes \<Rightarrow> bytes \<Rightarrow> ('s, string, unit) s3_io" where
  "s3_put_blob env S kind i b =
     io_seq (send env (api_put (s3_client S) (s3_bucket S) (blob_key S kind i) b Always)) (\<lambda>r.
       case r of Inr _ \<Rightarrow> io_ret () | Inl _ \<Rightarrow> io_err (''PutObject '' @ s3_url S (blob_key S kind i)))"

definition s3_has_blob :: "(nat \<Rightarrow> 's \<Rightarrow> 's) \<Rightarrow> 's s3_store \<Rightarrow> BlobKind \<Rightarrow> bytes \<Rightarrow> ('s, string, bool) s3_io" where
  "s3_has_blob env S kind i =
     io_seq (send env (asks (api_head (s3_client S) (s3_bucket S) (blob_key S kind i)))) (\<lambda>r.
       case r of
         Inr _ \<Rightarrow> io_ret True
       | Inl err \<Rightarrow> if is_not_found_head err then io_ret False else io_err (''HeadObject '' @ s3_url S (blob_key S kind i)))"

text \<open>The check of the name in front of the ref methods.\<close>

definition with_ref :: "string \<Rightarrow> ('s, string, 'a) s3_io \<Rightarrow> ('s, catalog_error, 'a) s3_io" where
  "with_ref name m = (case validate_ref_name name of Inl e \<Rightarrow> io_err (BadRefName e) | Inr _ \<Rightarrow> io_context Backend m)"

definition s3_get_ref :: "(nat \<Rightarrow> 's \<Rightarrow> 's) \<Rightarrow> 's s3_store \<Rightarrow> string \<Rightarrow> ('s, catalog_error, bytes option) s3_io" where
  "s3_get_ref env S name =
     with_ref name (io_seq (get_object env S (ref_key S name)) (\<lambda>obj. io_ret (map_option fst obj)))"

text \<open>The outcome of the conditional write or delete.\<close>

definition swap_outcome :: "(nat \<Rightarrow> 's \<Rightarrow> 's) \<Rightarrow> 's s3_store \<Rightarrow> string \<Rightarrow> string \<Rightarrow> sdk_error + unit \<Rightarrow> ('s, string, CasOutcome) s3_io" where
  "swap_outcome env S key what r =
     (case r of
        Inr _ \<Rightarrow> io_ret Updated
      | Inl err \<Rightarrow>
          if is_precondition_failed err
          then io_seq (get_object env S key) (\<lambda>obj. io_ret (Conflict (map_option fst obj)))
          else io_err (what @ '' (CAS) '' @ s3_url S key))"

definition s3_swap :: "(nat \<Rightarrow> 's \<Rightarrow> 's) \<Rightarrow> 's s3_store \<Rightarrow> string \<Rightarrow> bytes option \<Rightarrow> bytes option \<Rightarrow> ('s, string, CasOutcome) s3_io" where
  "s3_swap env S key expected new =
     io_seq (get_object env S key) (\<lambda>current.
       if map_option fst current \<noteq> expected then io_ret (Conflict (map_option fst current))
       else case new of
              Some v \<Rightarrow>
                io_seq (send env (api_put (s3_client S) (s3_bucket S) key v
                          (case current of None \<Rightarrow> IfNoneMatch | Some (_, etag) \<Rightarrow> IfMatch etag)))
                  (swap_outcome env S key ''PutObject'')
            | None \<Rightarrow>
                (case current of
                   None \<Rightarrow> io_ret Updated
                 | Some (_, etag) \<Rightarrow>
                     io_seq (send env (api_delete (s3_client S) (s3_bucket S) key etag)) (swap_outcome env S key ''DeleteObject'')))"

definition s3_cas_ref ::
  "(nat \<Rightarrow> 's \<Rightarrow> 's) \<Rightarrow> 's s3_store \<Rightarrow> string \<Rightarrow> bytes option \<Rightarrow> bytes option \<Rightarrow> ('s, catalog_error, CasOutcome) s3_io" where
  "s3_cas_ref env S name expected new = with_ref name (s3_swap env S (ref_key S name) expected new)"

definition names_of :: "string \<Rightarrow> string option list \<Rightarrow> string list" where
  "names_of prefix contents =
     concat (map (\<lambda>obj. case obj of
         None \<Rightarrow> []
       | Some key \<Rightarrow>
           (case strip_prefix prefix key of
              None \<Rightarrow> []
            | Some name \<Rightarrow> if name \<noteq> [] \<and> CHR ''/'' \<notin> set name then [name] else [])) contents)"

text \<open>The loop over the pages may run forever when a truncated page has no continuation token; then it has no value.\<close>

partial_function (option) list_pages ::
  "(nat \<Rightarrow> 's \<Rightarrow> 's) \<Rightarrow> 's s3_store \<Rightarrow> string \<Rightarrow> string option \<Rightarrow> string list \<Rightarrow> nat \<times> 's \<Rightarrow> ((string + string list) \<times> nat \<times> 's) option" where
  "list_pages env S prefix token names x =
     (let t = env (fst x) (snd x)
      in case api_list (s3_client S) (s3_bucket S) prefix token t of
           Inl _ \<Rightarrow> Some (Inl (''ListObjectsV2 '' @ s3_url S prefix), Suc (fst x), t)
         | Inr (contents, truncated, next_token) \<Rightarrow>
             if truncated = Some True
             then list_pages env S prefix next_token (names @ names_of prefix contents) (Suc (fst x), t)
             else Some (Inr (names @ names_of prefix contents), Suc (fst x), t))"

definition s3_list_refs :: "(nat \<Rightarrow> 's \<Rightarrow> 's) \<Rightarrow> 's s3_store \<Rightarrow> nat \<times> 's \<Rightarrow> ((catalog_error + string list) \<times> nat \<times> 's) option" where
  "s3_list_refs env S x =
     map_option (\<lambda>(r, x'). (map_sum Backend sort r, x')) (list_pages env S (refs_prefix S) None [] x)"

section \<open>The remote of the other components\<close>

definition undisturbed :: "nat \<Rightarrow> 's \<Rightarrow> 's" where
  "undisturbed n s = s"

definition alone :: "('s, 'e, 'a) s3_io \<Rightarrow> ('s, 'e, 'a) io" where
  "alone m s = (case m (0, s) of (r, _, s') \<Rightarrow> (r, s'))"

definition s3_remote :: "'s s3_store \<Rightarrow> 's remote_ops" where
  "s3_remote S = \<lparr>
     rm_get_blob = (\<lambda>kind i s. fst (alone (s3_get_blob undisturbed S kind i) s)),
     rm_put_blob = (\<lambda>kind i b. alone (s3_put_blob undisturbed S kind i b)),
     rm_has_blob = (\<lambda>kind i s. fst (alone (s3_has_blob undisturbed S kind i) s)),
     rm_get_ref = (\<lambda>name s. fst (alone (s3_get_ref undisturbed S name) s)),
     rm_cas_ref = (\<lambda>name expected new. alone (s3_cas_ref undisturbed S name expected new)),
     rm_list_refs = (\<lambda>s. case s3_list_refs undisturbed S (0, s) of Some (r, _) \<Rightarrow> r | None \<Rightarrow> Inl (Backend ''no result''))\<rparr>"

section \<open>What the service promises\<close>

text \<open>
  \<open>objs s\<close> are the objects of the bucket with their ETags. A condition that does not hold is answered with status 412
  and nothing is written; any other error leaves open whether the write took place. An ETag identifies the
  content it was given for.
\<close>

type_synonym 's bucket = "'s \<Rightarrow> string \<Rightarrow> (bytes \<times> string) option"

fun holds :: "put_condition \<Rightarrow> (bytes \<times> string) option \<Rightarrow> bool" where
  "holds Always obj \<longleftrightarrow> True"
| "holds IfNoneMatch obj \<longleftrightarrow> obj = None"
| "holds (IfMatch e) obj \<longleftrightarrow> map_option snd obj = Some e"

definition stored :: "'s bucket \<Rightarrow> string \<Rightarrow> bytes option \<Rightarrow> 's \<Rightarrow> 's \<Rightarrow> bool" where
  "stored objs k v s s' \<longleftrightarrow> (\<forall>j. j \<noteq> k \<longrightarrow> objs s' j = objs s j) \<and> map_option fst (objs s' k) = v"

definition answered :: "'s bucket \<Rightarrow> string \<Rightarrow> put_condition \<Rightarrow> bytes option \<Rightarrow> 's \<Rightarrow> sdk_error + unit \<Rightarrow> 's \<Rightarrow> bool" where
  "answered objs k c v s r s' \<longleftrightarrow>
     (case r of
        Inr _ \<Rightarrow> holds c (objs s k) \<and> stored objs k v s s'
      | Inl e \<Rightarrow>
          if is_precondition_failed e then \<not> holds c (objs s k) \<and> objs s' = objs s
          else objs s' = objs s \<or> holds c (objs s k) \<and> stored objs k v s s')"

definition s3_reads :: "'s s3_api \<Rightarrow> string \<Rightarrow> 's bucket \<Rightarrow> bool" where
  "s3_reads A b objs \<longleftrightarrow>
     (\<forall>s k body t. api_get A b k s = Inr (Inr body, t) \<longrightarrow> (\<exists>e. t = Some e \<and> objs s k = Some (body, e))) \<and>
     (\<forall>s k e. api_get A b k s = Inl e \<longrightarrow> is_no_such_key e \<longrightarrow> objs s k = None) \<and>
     (\<forall>s k u. api_head A b k s = Inr u \<longrightarrow> objs s k \<noteq> None) \<and>
     (\<forall>s k e. api_head A b k s = Inl e \<longrightarrow> is_not_found_head e \<longrightarrow> objs s k = None)"

definition s3_writes :: "'s s3_api \<Rightarrow> string \<Rightarrow> 's bucket \<Rightarrow> bool" where
  "s3_writes A b objs \<longleftrightarrow>
     (\<forall>s k v c r s'. api_put A b k v c s = (r, s') \<longrightarrow> answered objs k c (Some v) s r s') \<and>
     (\<forall>s k e r s'. api_delete A b k e s = (r, s') \<longrightarrow> answered objs k (IfMatch e) None s r s')"

definition s3_etags :: "'s bucket \<Rightarrow> bool" where
  "s3_etags objs \<longleftrightarrow> (\<forall>s t j k v w e. objs s j = Some (v, e) \<longrightarrow> objs t k = Some (w, e) \<longrightarrow> v = w)"

definition s3_laws :: "'s s3_api \<Rightarrow> string \<Rightarrow> 's bucket \<Rightarrow> bool" where
  "s3_laws A b objs \<longleftrightarrow> s3_reads A b objs \<and> s3_writes A b objs \<and> s3_etags objs"

text \<open>Requests do not fail for other reasons than their conditions.\<close>

definition s3_live :: "'s s3_api \<Rightarrow> string \<Rightarrow> ('s \<Rightarrow> bool) \<Rightarrow> bool" where
  "s3_live A b live \<longleftrightarrow>
     (\<forall>s k. live s \<longrightarrow> (case api_get A b k s of Inr (body, _) \<Rightarrow> \<not> isl body | Inl e \<Rightarrow> is_no_such_key e)) \<and>
     (\<forall>s k v c r s'. live s \<longrightarrow> api_put A b k v c s = (r, s') \<longrightarrow> live s' \<and> (\<forall>e. r = Inl e \<longrightarrow> is_precondition_failed e)) \<and>
     (\<forall>s k t r s'. live s \<longrightarrow> api_delete A b k t s = (r, s') \<longrightarrow> live s' \<and> (\<forall>e. r = Inl e \<longrightarrow> is_precondition_failed e))"

text \<open>A listing is delivered in pages; the token of a truncated page leads to the next one.\<close>

definition s3_lists :: "'s s3_api \<Rightarrow> string \<Rightarrow> 's bucket \<Rightarrow> bool" where
  "s3_lists A b objs \<longleftrightarrow>
     (\<forall>s prefix. \<exists>pages token. pages \<noteq> [] \<and> token 0 = None \<and> distinct (concat pages) \<and>
        set (concat pages) = {k. objs s k \<noteq> None \<and> starts_with prefix k} \<and>
        (\<forall>i < length pages. isl (api_list A b prefix (token i) s) \<or>
           (\<exists>next. api_list A b prefix (token i) s = Inr (map Some (pages ! i), Some (Suc i < length pages), next) \<and>
              (Suc i < length pages \<longrightarrow> next = token (Suc i)))))"

lemma s3_get:
  assumes "s3_laws A b objs"
  shows "api_get A b k s = Inr (Inr body, t) \<Longrightarrow> \<exists>e. t = Some e \<and> objs s k = Some (body, e)"
    and "api_get A b k s = Inl err \<Longrightarrow> is_no_such_key err \<Longrightarrow> objs s k = None"
    and "api_head A b k s = Inr u \<Longrightarrow> objs s k \<noteq> None"
    and "api_head A b k s = Inl err \<Longrightarrow> is_not_found_head err \<Longrightarrow> objs s k = None"
  using assms by (simp_all add: s3_laws_def s3_reads_def)

lemma s3_put:
  assumes "s3_laws A b objs"
  shows "api_put A b k v c s = (r, s') \<Longrightarrow> answered objs k c (Some v) s r s'"
    and "api_delete A b k x s = (r, s') \<Longrightarrow> answered objs k (IfMatch x) None s r s'"
  using assms by (simp_all add: s3_laws_def s3_writes_def)

lemma s3_etag: "s3_laws A b objs \<Longrightarrow> objs s j = Some (v, x) \<Longrightarrow> objs s' k = Some (w, x) \<Longrightarrow> v = w"
  unfolding s3_laws_def s3_etags_def by blast

section \<open>Keys do not clash\<close>

lemma s3_hex_inject [simp]: "s3_hex i = s3_hex j \<longleftrightarrow> i = j"
  using fs_hex_inject [of i j] by (simp add: fs_hex_bytes_def s3_hex_def)

lemma as_str_slash: "CHR ''/'' \<notin> set (as_str k)" "as_str k \<noteq> ''refs''"
  by (cases k; simp)+

lemma append_slash_eq: "CHR ''/'' \<notin> set a \<Longrightarrow> CHR ''/'' \<notin> set b \<Longrightarrow> a @ CHR ''/'' # x = b @ CHR ''/'' # y \<longleftrightarrow> a = b \<and> x = y"
  by (metis split_char_some option.inject prod.inject)

lemma blob_key_inject: "blob_key S k i = blob_key S k' j \<longleftrightarrow> k = k' \<and> i = j"
  using append_slash_eq [OF as_str_slash(1) as_str_slash(1), of k "s3_hex i" k' "s3_hex j"] by (auto simp: blob_key_def)

lemma ref_key_prefix: "ref_key S n = refs_prefix S @ n"
  by (simp add: ref_key_def refs_prefix_def)

lemma blob_not_ref: "blob_key S k i \<noteq> refs_prefix S @ n"
proof -
  have "CHR ''/'' \<notin> set ''refs''" by simp
  from append_slash_eq [OF as_str_slash(1) this, of k "s3_hex i" n] have "as_str k @ ''/'' @ s3_hex i \<noteq> ''refs/'' @ n"
    using as_str_slash(2) [of k] by simp
  then show ?thesis by (simp add: blob_key_def refs_prefix_def)
qed

definition s3_refs :: "'s bucket \<Rightarrow> 's s3_store \<Rightarrow> 's \<Rightarrow> string \<Rightarrow> bytes option" where
  "s3_refs objs S s n = map_option fst (objs s (ref_key S n))"

definition s3_blobs :: "'s bucket \<Rightarrow> 's s3_store \<Rightarrow> 's \<Rightarrow> BlobKind \<Rightarrow> bytes \<Rightarrow> bytes option" where
  "s3_blobs objs S s k i = map_option fst (objs s (blob_key S k i))"

lemma stored_ref: "stored objs (ref_key S n) v s s' \<Longrightarrow> s3_refs objs S s' = (s3_refs objs S s)(n := v) \<and> s3_blobs objs S s' = s3_blobs objs S s"
  by (auto simp: stored_def s3_refs_def s3_blobs_def fun_eq_iff ref_key_prefix blob_not_ref)

lemma stored_blob:
  "stored objs (blob_key S k i) v s s' \<Longrightarrow> s3_refs objs S s' = s3_refs objs S s \<and> s3_blobs objs S s' k i = v \<and>
     (\<forall>k' j. (k', j) \<noteq> (k, i) \<longrightarrow> s3_blobs objs S s' k' j = s3_blobs objs S s k' j)"
  using blob_not_ref [of S k i] by (auto simp: stored_def s3_refs_def s3_blobs_def fun_eq_iff ref_key_prefix blob_key_inject) (metis+)?

section \<open>The swap under interference\<close>

lemma get_object_spec:
  assumes "s3_laws (s3_client S) (s3_bucket S) objs" and "get_object env S k (n, s) = (r, x)"
  shows "x = (Suc n, env n s)" and "r = Inr obj \<Longrightarrow> obj = objs (env n s) k"
  using assms(2) s3_get(1,2) [OF assms(1), of k "env n s"]
  by (auto simp: get_object_def send_def asks_def io_defs split: sum.splits prod.splits if_splits option.splits)

text \<open>What a swap of the object at \<open>k\<close> has done when it ends in \<open>s'\<close>; \<open>x0\<close> and \<open>x1\<close> are the states its first two requests met.\<close>

definition swapped :: "'s bucket \<Rightarrow> string \<Rightarrow> bytes option \<Rightarrow> bytes option \<Rightarrow> 's \<Rightarrow> 's \<Rightarrow> bool" where
  "swapped objs k e v s s' \<longleftrightarrow> map_option fst (objs s k) = e \<and> stored objs k v s s'"

definition swap_post :: "'s bucket \<Rightarrow> (nat \<Rightarrow> 's \<Rightarrow> 's) \<Rightarrow> nat \<Rightarrow> string \<Rightarrow> bytes option \<Rightarrow> bytes option \<Rightarrow> 's \<Rightarrow> 's \<Rightarrow> 'e + CasOutcome \<Rightarrow> 's \<Rightarrow> bool" where
  "swap_post objs env m k e v x0 x1 r s' \<longleftrightarrow>
     (case r of
        Inr Updated \<Rightarrow> swapped objs k e v x0 s' \<or> swapped objs k e v x1 s'
      | Inr (Conflict a) \<Rightarrow> a = map_option fst (objs s' k) \<and> (s' = x0 \<and> a \<noteq> e \<or> objs x1 k \<noteq> objs x0 k \<and> (\<exists>y. objs y = objs x1 \<and> s' = env m y))
      | Inl _ \<Rightarrow> s' = x0 \<or> objs s' = objs x1 \<or> swapped objs k e v x1 s' \<or> (\<exists>y. objs y = objs x1 \<and> s' = env m y))"

lemma swap_outcome_spec:
  assumes laws: "s3_laws (s3_client S) (s3_bucket S) objs" and ans: "answered objs k c v x1 q y"
    and e: "holds c (objs x1 k) \<Longrightarrow> map_option fst (objs x1 k) = e"
    and changed: "\<not> holds c (objs x1 k) \<Longrightarrow> objs x1 k \<noteq> objs x0 k"
    and run: "swap_outcome env S k what q (m, y) = (r, n', s')"
  shows "swap_post objs env m k e v x0 x1 r s'"
proof (cases q)
  case (Inr u)
  then show ?thesis using ans e run by (auto simp: swap_outcome_def io_defs swap_post_def swapped_def answered_def)
next
  case (Inl err)
  show ?thesis
  proof (cases "is_precondition_failed err")
    case True
    then have y: "objs y = objs x1" "objs x1 k \<noteq> objs x0 k" using ans Inl changed by (simp_all add: answered_def)
    obtain g x where g: "get_object env S k (m, y) = (g, x)" by (rule prod.exhaust)
    note sp = get_object_spec [OF laws g]
    show ?thesis using run Inl True g sp y by (cases g) (auto simp: swap_outcome_def io_defs swap_post_def)
  next
    case False
    then show ?thesis using ans e run Inl by (auto simp: swap_outcome_def io_defs swap_post_def swapped_def answered_def)
  qed
qed

lemma s3_swap_spec:
  assumes laws: "s3_laws (s3_client S) (s3_bucket S) objs" and run: "s3_swap env S k e v (n, s) = (r, n', s')"
  shows "swap_post objs env (Suc (Suc n)) k e v (env n s) (env (Suc n) (env n s)) r s'"
proof -
  define x0 where "x0 = env n s"
  define x1 where "x1 = env (Suc n) x0"
  obtain g x where g: "get_object env S k (n, s) = (g, x)" by (rule prod.exhaust)
  note sp = get_object_spec [OF laws g, folded x0_def]
  note run' = run [unfolded s3_swap_def io_seq_def [of "get_object env S k"] g sp(1)]
  show ?thesis unfolding x0_def [symmetric] x1_def [symmetric]
  proof (cases g)
    case (Inl err)
    then show "swap_post objs env (Suc (Suc n)) k e v x0 x1 r s'" using run' by (auto simp: swap_post_def)
  next
    case (Inr cur)
    note cur = sp(2) [OF Inr]
    consider (differs) "map_option fst cur \<noteq> e" | (put) w where "map_option fst cur = e" "v = Some w"
      | (absent) "map_option fst cur = e" "v = None" "cur = None" | (delete) b t where "map_option fst cur = e" "v = None" "cur = Some (b, t)"
      by (cases "map_option fst cur = e"; cases v; cases cur) auto
    then show "swap_post objs env (Suc (Suc n)) k e v x0 x1 r s'"
    proof cases
      case differs
      then show ?thesis using run' Inr cur by (auto simp: swap_post_def io_ret_def)
    next
      case absent
      then show ?thesis using run' Inr cur by (auto simp: swap_post_def io_ret_def swapped_def stored_def)
    next
      case (put w)
      define c where "c = (case cur of None \<Rightarrow> IfNoneMatch | Some (_, etag) \<Rightarrow> IfMatch etag)"
      obtain q y where q: "api_put (s3_client S) (s3_bucket S) k w c x1 = (q, y)" by fastforce
      have e: "map_option fst (objs x1 k) = e" if "holds c (objs x1 k)"
        using that put(1) cur s3_etag [OF laws] by (auto simp: c_def split: option.splits prod.splits)
      have ch: "objs x1 k \<noteq> objs x0 k" if "\<not> holds c (objs x1 k)" using that cur by (auto simp: c_def split: option.splits)
      have "swap_outcome env S k ''PutObject'' q (Suc (Suc n), y) = (r, n', s')"
        using run' Inr put q by (simp add: io_seq_def send_def c_def x1_def split: prod.splits)
      from swap_outcome_spec [OF laws s3_put(1) [OF laws q] e ch this] show ?thesis using put(2) by simp
    next
      case (delete b t)
      obtain q y where q: "api_delete (s3_client S) (s3_bucket S) k t x1 = (q, y)" by fastforce
      have e: "map_option fst (objs x1 k) = e" if "holds (IfMatch t) (objs x1 k)"
        using that delete cur s3_etag [OF laws] by auto
      have ch: "objs x1 k \<noteq> objs x0 k" if "\<not> holds (IfMatch t) (objs x1 k)" using that cur delete(3) by (metis holds.simps(3) option.map(2) snd_conv)
      have "swap_outcome env S k ''DeleteObject'' q (Suc (Suc n), y) = (r, n', s')"
        using run' Inr delete q by (simp add: io_seq_def send_def x1_def split: prod.splits)
      from swap_outcome_spec [OF laws s3_put(2) [OF laws q] e ch this] show ?thesis using delete(2) by simp
    qed
  qed
qed

text \<open>
  C24: A compare-and-swap of a ref on S3 is atomic although it is two requests: whatever other clients do to the bucket before
  each request, a swap that reports success found the expected value at one instant, and from that instant to
  its end only the ref changed, to the new value; a swap that reports a conflict reports the value it
  met last, which is not the expected one or came after another client's change, and wrote nothing; a swap that fails was applied in one instant or not at all.
\<close>

theorem s3_cas_atomic:
  assumes "s3_laws (s3_client S) (s3_bucket S) objs" and "s3_cas_ref env S name e v (n, s) = (r, n', s')"
    and "x0 = env n s" and "x1 = env (Suc n) x0"
  shows "(r = Inr Updated \<longrightarrow> (\<exists>x \<in> {x0, x1}. s3_refs objs S x name = e \<and> s3_refs objs S s' = (s3_refs objs S x)(name := v) \<and> s3_blobs objs S s' = s3_blobs objs S x)) \<and>
    (\<forall>a. r = Inr (Conflict a) \<longrightarrow> a = s3_refs objs S s' name \<and> (s' = x0 \<and> a \<noteq> e \<or> objs x1 (ref_key S name) \<noteq> objs x0 (ref_key S name) \<and> (\<exists>y. objs y = objs x1 \<and> s' = env (n + 2) y))) \<and>
    (\<forall>err. r = Inl err \<longrightarrow> s' = s \<and> n' = n \<or> s' = x0 \<or> objs s' = objs x1 \<or> (\<exists>y. objs y = objs x1 \<and> s' = env (n + 2) y) \<or>
       s3_refs objs S x1 name = e \<and> s3_refs objs S s' = (s3_refs objs S x1)(name := v) \<and> s3_blobs objs S s' = s3_blobs objs S x1)"
proof (cases "validate_ref_name name")
  case (Inl err)
  then show ?thesis using assms(2) by (auto simp: s3_cas_ref_def with_ref_def io_defs)
next
  case (Inr u)
  obtain q where q: "s3_swap env S (ref_key S name) e v (n, s) = (q, n', s')" "r = map_sum Backend (\<lambda>x. x) q"
    using assms(2) Inr by (auto simp: s3_cas_ref_def with_ref_def io_defs split: prod.splits sum.splits)
  have sw: "s3_refs objs S x name = e \<and> s3_refs objs S y = (s3_refs objs S x)(name := v) \<and> s3_blobs objs S y = s3_blobs objs S x"
    if "swapped objs (ref_key S name) e v x y" for x y
    using that stored_ref [of objs S name v x y] by (auto simp: swapped_def s3_refs_def)
  have "swap_post objs env (n + 2) (ref_key S name) e v x0 x1 q s'"
    using s3_swap_spec [OF assms(1) q(1)] assms(3,4) by simp
  then show ?thesis
    using q(2) sw by (cases q) (auto simp: swap_post_def s3_refs_def split: CasOutcome.splits)
qed

section \<open>The contract of a remote\<close>

lemma alone_eq: "alone m s = (r, s') \<longleftrightarrow> (\<exists>n. m (0, s) = (r, n, s'))"
  by (auto simp: alone_def split: prod.splits)

lemma get_alone:
  assumes "s3_laws (s3_client S) (s3_bucket S) objs"
  shows "fst (alone (s3_get_blob undisturbed S k i) s) = Inr b \<Longrightarrow> b = s3_blobs objs S s k i"
    and "valid_ref_name n \<Longrightarrow> fst (alone (s3_get_ref undisturbed S n) s) = Inr b \<Longrightarrow> b = s3_refs objs S s n"
    and "fst (alone (s3_has_blob undisturbed S k i) s) = Inr p \<Longrightarrow> p = (s3_blobs objs S s k i \<noteq> None)"
proof -
  have g: "fst (get_object undisturbed S key (0, s)) = Inr obj \<Longrightarrow> obj = objs s key" for key obj
    using get_object_spec [OF assms, of undisturbed key 0 s] by (cases "get_object undisturbed S key (0, s)") (auto simp: undisturbed_def)
  show "b = s3_blobs objs S s k i" if "fst (alone (s3_get_blob undisturbed S k i) s) = Inr b"
    using that g [of "blob_key S k i"] by (auto simp: alone_def s3_get_blob_def io_defs s3_blobs_def split: prod.splits sum.splits)
  show "b = s3_refs objs S s n" if "valid_ref_name n" "fst (alone (s3_get_ref undisturbed S n) s) = Inr b"
    using that g [of "ref_key S n"]
    by (auto simp: alone_def s3_get_ref_def with_ref_def io_defs s3_refs_def valid_ref_name_def split: prod.splits sum.splits)
  show "p = (s3_blobs objs S s k i \<noteq> None)" if "fst (alone (s3_has_blob undisturbed S k i) s) = Inr p"
    using that s3_get(3,4) [OF assms, of "blob_key S k i" s]
    by (auto simp: alone_def s3_has_blob_def send_def asks_def undisturbed_def io_defs s3_blobs_def split: prod.splits sum.splits if_splits)
qed

lemma put_alone:
  assumes "s3_laws (s3_client S) (s3_bucket S) objs" and "alone (s3_put_blob undisturbed S k i b) s = (r, s')"
  shows "stored objs (blob_key S k i) (Some b) s s' \<or> isl r \<and> objs s' = objs s"
proof -
  obtain q y where q: "api_put (s3_client S) (s3_bucket S) (blob_key S k i) b Always s = (q, y)" by fastforce
  note a = s3_put(1) [OF assms(1) q]
  show ?thesis using assms(2) q a
    by (cases q) (auto simp: alone_def s3_put_blob_def send_def undisturbed_def io_defs answered_def split: if_splits)
qed

lemma s3_blob_remote:
  assumes laws: "s3_laws (s3_client S) (s3_bucket S) objs"
  shows "blob_remote (s3_remote S) (s3_blobs objs S) (\<lambda>_. True) (\<lambda>_. True)"
proof -
  note ops = s3_remote_def remote_ops.simps
  have same: "s3_blobs objs S s' = s3_blobs objs S s" if "objs s' = objs s" for s s' using that by (simp add: s3_blobs_def fun_eq_iff)
  show ?thesis
  proof (unfold_locales, goal_cases)
    case (1 s i k r)
    then show ?case using get_alone(1) [OF laws] by (simp add: ops)
  next
    case (2 s i k p)
    then show ?case using get_alone(3) [OF laws] by (simp add: ops)
  next
    case (4 s i k b u s')
    then show ?case using put_alone [OF laws, of k i b s "Inr u" s'] stored_blob [of objs S k i "Some b" s s'] by (auto simp: ops)
  next
    case (5 s i j k' k b)
    obtain r s' where "alone (s3_put_blob undisturbed S k i b) s = (r, s')" by fastforce
    then show ?case using put_alone [OF laws, of k i b s r s'] stored_blob [of objs S k i "Some b" s s'] same [of s' s] 5(4) by (auto simp: ops)
  next
    case (6 s i k b e s')
    then show ?case using put_alone [OF laws, of k i b s "Inl e" s'] stored_blob [of objs S k i "Some b" s s'] same [of s' s] by (auto simp: ops)
  qed simp
qed

text \<open>Listing.\<close>

lemma names_of_append: "names_of p (a @ b) = names_of p a @ names_of p b"
  by (simp add: names_of_def)

lemma names_of_one: "n \<in> set (names_of p [Some k]) \<longleftrightarrow> k = p @ n \<and> n \<noteq> [] \<and> CHR ''/'' \<notin> set n"
  by (cases "strip_prefix p k") (auto simp: names_of_def strip_prefix_Some_iff)

lemma set_names_of: "n \<in> set (names_of p (map Some ks)) \<longleftrightarrow> p @ n \<in> set ks \<and> n \<noteq> [] \<and> CHR ''/'' \<notin> set n"
proof (induction ks)
  case (Cons k ks)
  then show ?case using names_of_append [of p "[Some k]" "map Some ks"] names_of_one [of n p k] by auto
qed (simp add: names_of_def)

lemma distinct_names_of: "distinct ks \<Longrightarrow> distinct (names_of p (map Some ks))"
proof (induction ks)
  case (Cons k ks)
  have "names_of p (map Some (k # ks)) = names_of p [Some k] @ names_of p (map Some ks)" by (simp add: names_of_def)
  moreover have "set (names_of p [Some k]) \<inter> set (names_of p (map Some ks)) = {}"
    using Cons.prems by (auto simp: names_of_one set_names_of)
  moreover have "distinct (names_of p [Some k])" by (simp add: names_of_def split: option.split)
  ultimately show ?case using Cons by simp
qed (simp add: names_of_def)

lemma list_pages_run:
  assumes pages: "\<And>i. i < length pages \<Longrightarrow> isl (api_list (s3_client S) (s3_bucket S) p (token i) s) \<or>
      (\<exists>nxt. api_list (s3_client S) (s3_bucket S) p (token i) s = Inr (map Some (pages ! i), Some (Suc i < length pages), nxt) \<and>
         (Suc i < length pages \<longrightarrow> nxt = token (Suc i)))"
    and "i < length pages"
  shows "\<exists>r n'. list_pages undisturbed S p (token i) names (n, s) = Some (r, n', s) \<and>
    (\<forall>ns. r = Inr ns \<longrightarrow> ns = names @ names_of p (map Some (concat (drop i pages))))"
  using assms(2)
proof (induction "length pages - i" arbitrary: i names n)
  case (Suc d)
  have dr: "drop i pages = pages ! i # drop (Suc i) pages" using Suc.prems by (rule Cons_nth_drop_Suc [symmetric])
  show ?case
  proof (cases "api_list (s3_client S) (s3_bucket S) p (token i) s")
    case (Inl e)
    then show ?thesis by (subst list_pages.simps) (simp add: undisturbed_def)
  next
    case (Inr q)
    then obtain nxt where q: "q = (map Some (pages ! i), Some (Suc i < length pages), nxt)" "Suc i < length pages \<longrightarrow> nxt = token (Suc i)"
      using pages [OF Suc.prems] by auto
    show ?thesis
    proof (cases "Suc i < length pages")
      case True
      obtain r n' where "list_pages undisturbed S p (token (Suc i)) (names @ names_of p (map Some (pages ! i))) (Suc n, s) = Some (r, n', s)"
          "\<forall>ns. r = Inr ns \<longrightarrow> ns = (names @ names_of p (map Some (pages ! i))) @ names_of p (map Some (concat (drop (Suc i) pages)))"
        using Suc.hyps(1) [of "Suc i"] Suc.hyps(2) True by (metis Suc_diff_Suc Suc.prems diff_Suc_Suc nat.inject)
      then show ?thesis using Inr q True dr by (subst list_pages.simps) (auto simp: undisturbed_def names_of_append)
    next
      case False
      then have "drop (Suc i) pages = []" by simp
      then show ?thesis using Inr q False dr by (subst list_pages.simps) (simp add: undisturbed_def)
    qed
  qed
qed simp

text \<open>The bucket holds nothing but refs directly below their prefix.\<close>

definition refs_clean :: "'s bucket \<Rightarrow> 's s3_store \<Rightarrow> 's \<Rightarrow> bool" where
  "refs_clean objs S s \<longleftrightarrow> (\<forall>n. s3_refs objs S s n \<noteq> None \<longrightarrow> n \<noteq> [] \<longrightarrow> CHR ''/'' \<notin> set n \<longrightarrow> valid_ref_name n)"

lemma s3_list_spec:
  assumes lists: "s3_lists (s3_client S) (s3_bucket S) objs"
  shows "\<exists>r n'. s3_list_refs undisturbed S (n, s) = Some (r, n', s) \<and> (\<forall>ns. refs_clean objs S s \<longrightarrow> r = Inr ns \<longrightarrow>
    sorted ns \<and> distinct ns \<and> set ns = {n. valid_ref_name n \<and> s3_refs objs S s n \<noteq> None})"
proof -
  let ?p = "refs_prefix S"
  obtain pages token where pg: "pages \<noteq> []" "token 0 = None" "distinct (concat pages)" "set (concat pages) = {k. objs s k \<noteq> None \<and> starts_with ?p k}"
    and run: "\<And>i. i < length pages \<Longrightarrow> isl (api_list (s3_client S) (s3_bucket S) ?p (token i) s) \<or>
      (\<exists>nxt. api_list (s3_client S) (s3_bucket S) ?p (token i) s = Inr (map Some (pages ! i), Some (Suc i < length pages), nxt) \<and>
         (Suc i < length pages \<longrightarrow> nxt = token (Suc i)))"
    using lists unfolding s3_lists_def by meson
  obtain r n' where r: "list_pages undisturbed S ?p None [] (n, s) = Some (r, n', s)" "\<forall>ns. r = Inr ns \<longrightarrow> ns = names_of ?p (map Some (concat pages))"
    using list_pages_run [OF run, of 0 "[]" n] pg(1,2) by auto
  have "set (names_of ?p (map Some (concat pages))) = {n. valid_ref_name n \<and> s3_refs objs S s n \<noteq> None}" if "refs_clean objs S s"
    using that unfolding set_eq_iff set_names_of pg(4)
    by (auto simp: refs_clean_def s3_refs_def ref_key_prefix starts_with_iff valid_ref_name_iff)
  then show ?thesis
    using r distinct_names_of [OF pg(3), of ?p] by (cases r) (auto simp: s3_list_refs_def)
qed

lemma swap_alone:
  assumes laws: "s3_laws (s3_client S) (s3_bucket S) objs" and ok: "valid_ref_name n"
    and run: "alone (s3_cas_ref undisturbed S n e v) s = (r, s')"
  shows "case r of Inr Updated \<Rightarrow> s3_refs objs S s n = e \<and> s3_refs objs S s' = (s3_refs objs S s)(n := v)
    | Inr (Conflict a) \<Rightarrow> a = s3_refs objs S s n \<and> a \<noteq> e \<and> s3_refs objs S s' = s3_refs objs S s
    | Inl _ \<Rightarrow> s3_refs objs S s' = s3_refs objs S s \<or> s3_refs objs S s n = e \<and> s3_refs objs S s' = (s3_refs objs S s)(n := v)"
proof -
  obtain q m where q: "s3_swap undisturbed S (ref_key S n) e v (0, s) = (q, m, s')" "r = map_sum Backend (\<lambda>x. x) q"
    using run ok by (auto simp: alone_eq s3_cas_ref_def with_ref_def valid_ref_name_def io_defs split: prod.splits sum.splits)
  have same: "s3_refs objs S x = s3_refs objs S y" if "objs x = objs y" for x y using that by (simp add: s3_refs_def fun_eq_iff)
  have sw: "s3_refs objs S x n = e \<and> s3_refs objs S y = (s3_refs objs S x)(n := v)" if "swapped objs (ref_key S n) e v x y" for x y
    using that stored_ref [of objs S n v x y] by (auto simp: swapped_def s3_refs_def)
  show ?thesis
    using s3_swap_spec [OF laws q(1)] q(2) sw [of s s'] same [of s' s]
    by (cases q) (auto simp: swap_post_def undisturbed_def s3_refs_def split: CasOutcome.splits)
qed

lemma get_object_live:
  assumes "s3_live (s3_client S) (s3_bucket S) live" and "live s"
  shows "\<exists>obj. get_object undisturbed S k (n, s) = (Inr obj, Suc n, s)"
proof -
  have "case api_get (s3_client S) (s3_bucket S) k s of Inr (body, _) \<Rightarrow> \<not> isl body | Inl e \<Rightarrow> is_no_such_key e"
    using assms(1) [unfolded s3_live_def, THEN conjunct1, rule_format, OF assms(2)] .
  then show ?thesis
    by (auto simp: get_object_def send_def asks_def undisturbed_def io_defs split: sum.splits prod.splits)
qed

lemma swap_outcome_live:
  assumes lv: "s3_live (s3_client S) (s3_bucket S) live" and "live y" and "\<forall>e. q = Inl e \<longrightarrow> is_precondition_failed e"
  shows "\<exists>out n'. swap_outcome undisturbed S k what q (n, y) = (Inr out, n', y)"
proof (cases q)
  case (Inl e)
  obtain obj where "get_object undisturbed S k (n, y) = (Inr obj, Suc n, y)" using get_object_live [OF lv assms(2)] by blast
  then show ?thesis using Inl assms(3) by (simp add: swap_outcome_def io_defs)
qed (simp add: swap_outcome_def io_defs)

lemma swap_live:
  assumes lv: "s3_live (s3_client S) (s3_bucket S) live" and s: "live s"
  shows "\<exists>out n' s'. s3_swap undisturbed S k e v (0, s) = (Inr out, n', s') \<and> live s'"
proof -
  obtain cur where g: "get_object undisturbed S k (0, s) = (Inr cur, Suc 0, s)" using get_object_live [OF lv s] by blast
  have send: "send undisturbed req (Suc 0, s) = (Inr (fst (req s)), Suc (Suc 0), snd (req s))" for req :: "'a \<Rightarrow> (sdk_error + unit) \<times> 'a"
    by (simp add: send_def undisturbed_def split: prod.split)
  have p: "live (snd (api_put (s3_client S) (s3_bucket S) k w c s))" "\<forall>e. fst (api_put (s3_client S) (s3_bucket S) k w c s) = Inl e \<longrightarrow> is_precondition_failed e" for w c
    using lv s unfolding s3_live_def by (metis prod.collapse)+
  have d: "live (snd (api_delete (s3_client S) (s3_bucket S) k t s))" "\<forall>e. fst (api_delete (s3_client S) (s3_bucket S) k t s) = Inl e \<longrightarrow> is_precondition_failed e" for t
    using lv s unfolding s3_live_def by (metis prod.collapse)+
  show ?thesis
  proof (cases "map_option fst cur = e")
    case False
    then show ?thesis using s by (simp add: s3_swap_def io_seq_def g io_ret_def)
  next
    case True
    show ?thesis
    proof (cases v)
      case (Some w)
      define c where "c = (case cur of None \<Rightarrow> IfNoneMatch | Some (_, etag) \<Rightarrow> IfMatch etag)"
      show ?thesis using Some True p(1) [of w c] swap_outcome_live [OF lv p [of w c], of k "''PutObject''" "Suc (Suc 0)"]
        by (auto simp: s3_swap_def io_seq_def g send c_def [symmetric])
    next
      case None
      show ?thesis
      proof (cases cur)
        case (Some o')
        obtain b t where "o' = (b, t)" by (cases o')
        then show ?thesis using None Some True d(1) [of t] swap_outcome_live [OF lv d [of t], of k "''DeleteObject''" "Suc (Suc 0)"]
          by (auto simp: s3_swap_def io_seq_def g send)
      qed (use None True s in \<open>simp add: s3_swap_def io_seq_def g io_ret_def\<close>)
    qed
  qed
qed

lemma cas_alone_live:
  assumes "s3_live (s3_client S) (s3_bucket S) live" and "live s" and "valid_ref_name n"
  shows "\<exists>out s'. alone (s3_cas_ref undisturbed S n e v) s = (Inr out, s') \<and> live s'"
  using swap_live [OF assms(1,2), of "ref_key S n" e v] assms(3)
  by (auto simp: alone_def s3_cas_ref_def with_ref_def valid_ref_name_def io_defs)

lemma s3_ref_catalog:
  assumes laws: "s3_laws (s3_client S) (s3_bucket S) objs" and lists: "s3_lists (s3_client S) (s3_bucket S) objs" and lv: "s3_live (s3_client S) (s3_bucket S) live"
  shows "ref_catalog (rm_get_ref (s3_remote S)) (rm_cas_ref (s3_remote S)) (rm_list_refs (s3_remote S)) (s3_refs objs S) valid_ref_name (refs_clean objs S) live"
proof -
  note ops = s3_remote_def remote_ops.simps
  note sw = swap_alone [OF laws]
  show ?thesis
  proof (unfold_locales, goal_cases)
    case (1 s n r)
    then show ?case using get_alone(2) [OF laws] by (simp add: ops)
  next
    case (2 s n)
    then show ?case using get_object_live [OF lv, of s "ref_key S n" 0]
      by (auto simp: ops alone_def s3_get_ref_def with_ref_def valid_ref_name_def io_defs)
  next
    case (3 s n e v)
    obtain r s' where "alone (s3_cas_ref undisturbed S n e v) s = (r, s')" by fastforce
    then show ?case using sw [of n e v s r s'] 3 by (cases r) (auto simp: ops refs_clean_def split: CasOutcome.splits if_splits)
  next
    case (4 s n e v s')
    then show ?case using sw [of n e v s "Inr Updated" s'] by (simp add: ops)
  next
    case (5 s n e v a s')
    then show ?case using sw [of n e v s "Inr (Conflict a)" s'] by (auto simp: ops)
  next
    case (6 s n e v err s')
    then show ?case using sw [of n e v s "Inl err" s'] by (simp add: ops)
  next
    case (7 s n e v)
    then show ?case using cas_alone_live [OF lv, of s n e v] by (auto simp: ops)
  next
    case (8 s ns)
    then show ?case using s3_list_spec [OF lists, of 0 s] by (auto simp: ops)
  qed
qed

text \<open>
  C25: The S3 remote keeps the contract of a remote: its blobs and refs behave as those of the directory remote, which all
  clients of a remote rely on. Puts and swaps change only the addressed object, a read or probe that
  succeeds gives the object, a failed put or swap is applied or not, swaps are arbitrated by the
  expected value, and the listing ends and returns exactly the refs in order.
\<close>

theorem s3_contract:
  assumes "s3_laws (s3_client S) (s3_bucket S) objs" and "s3_lists (s3_client S) (s3_bucket S) objs" and "s3_live (s3_client S) (s3_bucket S) live"
  shows "blob_remote (s3_remote S) (s3_blobs objs S) (\<lambda>_. True) (\<lambda>_. True) \<and>
    ref_catalog (rm_get_ref (s3_remote S)) (rm_cas_ref (s3_remote S)) (rm_list_refs (s3_remote S)) (s3_refs objs S) valid_ref_name (refs_clean objs S) live \<and>
    (\<exists>r. s3_list_refs undisturbed S (0, s) = Some r)"
  using s3_blob_remote [OF assms(1)] s3_ref_catalog [OF assms] s3_list_spec [OF assms(2), of 0 s] by blast

text \<open>So a push that reports success leaves every reachable object in the bucket.\<close>

lemma s3_push_complete:
  assumes "s3_laws (s3_client S) (s3_bucket S) objs" and "git_laws (glib st)" and "length root = 20"
    and "push_reachable_blobs (s3_remote S) root (s, st) = Some (Inr (), s', st')" and "reachable st' root k i"
  shows "s3_blobs objs S s' k i \<noteq> None"
  using blob_remote.push_reachable_spec [OF s3_blob_remote [OF assms(1)] _ _ assms(2-4)] assms(5) by blast

section \<open>An example service\<close>

definition ex_objs :: "(string \<times> bytes) list bucket" where
  "ex_objs s k = map_option (\<lambda>b. (b, b)) (map_of s k)"

definition ex_answer :: "string \<Rightarrow> put_condition \<Rightarrow> (string \<times> bytes) list \<Rightarrow> (string \<times> bytes) list \<Rightarrow> (sdk_error + unit) \<times> (string \<times> bytes) list" where
  "ex_answer k c s s' = (if holds c (ex_objs s k) then (Inr (), s') else (Inl (ServiceError 412 ''PreconditionFailed''), s))"

definition ex_api :: "(string \<times> bytes) list s3_api" where
  "ex_api = \<lparr>
     api_get = (\<lambda>_ k s. case map_of s k of Some b \<Rightarrow> Inr (Inr b, Some b) | None \<Rightarrow> Inl (ServiceError 404 ''NoSuchKey'')),
     api_put = (\<lambda>_ k v c s. ex_answer k c s ((k, v) # s)),
     api_head = (\<lambda>_ k s. if map_of s k = None then Inl (ServiceError 404 ''NotFound'') else Inr ()),
     api_delete = (\<lambda>_ k e s. ex_answer k (IfMatch e) s (filter (\<lambda>x. fst x \<noteq> k) s)),
     api_list = (\<lambda>_ p _ s. Inr (map Some (remdups (filter (starts_with p) (map fst s))), Some False, None))\<rparr>"

definition ex_s3 :: "(string \<times> bytes) list s3_store" where
  "ex_s3 = s3_new ex_api ''b'' ''p/''"

lemma ex_answered:
  assumes "\<And>j. j \<noteq> k \<Longrightarrow> map_of s' j = map_of s j" and "map_of s' k = v"
  shows "answered ex_objs k c v s (fst (ex_answer k c s s')) (snd (ex_answer k c s s'))"
  using assms by (auto simp: answered_def ex_answer_def stored_def ex_objs_def option.map_comp comp_def option.map_ident)

lemma ex_s3_fields [simp]: "s3_client ex_s3 = ex_api" "s3_bucket ex_s3 = ''b''"
  by (simp_all add: ex_s3_def s3_new_def)

lemma ex_s3_laws: "s3_laws ex_api ''b'' ex_objs"
proof -
  have del: "map_of (filter (\<lambda>x. fst x \<noteq> k) s) j = (if j = k then None else map_of s j)" for k j and s :: "(string \<times> bytes) list"
    by (induction s) auto
  have "s3_reads ex_api ''b'' ex_objs" by (auto simp: s3_reads_def ex_api_def ex_objs_def split: option.splits if_splits)
  moreover have "s3_writes ex_api ''b'' ex_objs"
  proof -
    have "answered ex_objs k c (Some v) s r s'" if "ex_answer k c s ((k, v) # s) = (r, s')" for k c v s r s'
      using ex_answered [of k "(k, v) # s" s "Some v" c] that by simp
    moreover have "answered ex_objs k (IfMatch e) None s r s'" if "ex_answer k (IfMatch e) s (filter (\<lambda>x. fst x \<noteq> k) s) = (r, s')" for k e s r s'
      using ex_answered [of k "filter (\<lambda>x. fst x \<noteq> k) s" s None "IfMatch e"] that del [of k s] by simp
    ultimately show ?thesis by (simp add: s3_writes_def ex_api_def)
  qed
  moreover have "s3_etags ex_objs" by (auto simp: s3_etags_def ex_objs_def)
  ultimately show ?thesis by (simp add: s3_laws_def)
qed

lemma ex_s3_lists: "s3_lists ex_api ''b'' ex_objs"
proof -
  have "\<exists>pages token. pages \<noteq> [] \<and> token 0 = None \<and> distinct (concat pages) \<and> set (concat pages) = {k. ex_objs s k \<noteq> None \<and> starts_with p k} \<and>
      (\<forall>i < length pages. isl (api_list ex_api ''b'' p (token i) s) \<or>
         (\<exists>nxt. api_list ex_api ''b'' p (token i) s = Inr (map Some (pages ! i), Some (Suc i < length pages), nxt) \<and> (Suc i < length pages \<longrightarrow> nxt = token (Suc i))))" for s p
    by (rule exI [of _ "[remdups (filter (starts_with p) (map fst s))]"], rule exI [of _ "\<lambda>_. None"])
      (auto simp: ex_api_def ex_objs_def map_of_eq_None_iff image_iff)
  then show ?thesis unfolding s3_lists_def by blast
qed

lemma ex_s3_live: "s3_live ex_api ''b'' (\<lambda>_. True)"
  by (auto simp: s3_live_def ex_api_def ex_answer_def split: option.splits if_splits)

theorem s3_contract_witness:
  "blob_remote (s3_remote ex_s3) (s3_blobs ex_objs ex_s3) (\<lambda>_. True) (\<lambda>_. True) \<and> (\<exists>r. s3_list_refs undisturbed ex_s3 (0, []) = Some r)"
  using s3_contract [of ex_s3 ex_objs "\<lambda>_. True"] ex_s3_laws ex_s3_lists ex_s3_live by simp

text \<open>Another client creates the ref between the two requests of the swap.\<close>

definition ex_rival :: "nat \<Rightarrow> (string \<times> bytes) list \<Rightarrow> (string \<times> bytes) list" where
  "ex_rival n s = (if n = 1 then (ref_key ex_s3 ''head'', ''theirs'') # s else s)"

theorem s3_cas_atomic_witness:
  "s3_cas_ref ex_rival ex_s3 ''head'' None (Some ''mine'') (0, []) = (Inr (Conflict (Some ''theirs'')), 3, [(ref_key ex_s3 ''head'', ''theirs'')]) \<and>
   s3_refs ex_objs ex_s3 [(ref_key ex_s3 ''head'', ''theirs'')] ''head'' = Some ''theirs''"
proof -
  have run: "s3_cas_ref ex_rival ex_s3 ''head'' None (Some ''mine'') (0, []) = (Inr (Conflict (Some ''theirs'')), 3, [(ref_key ex_s3 ''head'', ''theirs'')])"
    by (simp add: s3_cas_ref_def with_ref_def validate_ref_name_def s3_swap_def swap_outcome_def get_object_def send_def asks_def io_defs ex_rival_def
      ex_api_def ex_answer_def ex_objs_def eval_nat_numeral)
  show ?thesis using s3_cas_atomic [OF _ run, of ex_objs] ex_s3_laws run by auto
qed

end
