(* ===== verification/Grpc_Remote.thy ===== *)
theory Grpc_Remote
  imports Push Op_Heads
begin

text \<open>
  The remote store over gRPC: the server half that a daemon offers to its peers
  (\<^verbatim>\<open>src/daemon/src/remote/server.rs\<close>), which checks a request and hands it to any backend, and the client
  half (\<^verbatim>\<open>src/daemon/src/remote/grpc.rs\<close>), which is itself a backend. The transport between them is a
  parameter: a call is delivered, never reaches the peer, or is executed by the peer while its reply is
  lost. The last section shows that a backend seen through client and server keeps the contracts
  \<open>blob_remote\<close> and \<open>ref_catalog\<close>, and interprets them for a peer that serves a directory.
\<close>

section \<open>Messages\<close>

text \<open>The numbers of the wire enum are those of \<^verbatim>\<open>src/proto/jj_interface.proto\<close>; there is no 3.\<close>

fun proto_number :: "ProtoBlobKind \<Rightarrow> int" where
  "proto_number PUnspecified = 0"
| "proto_number PTree = 1"
| "proto_number PBlob = 2"
| "proto_number PCommit = 4"
| "proto_number PView = 5"
| "proto_number POperation = 6"
| "proto_number PExtra = 7"

definition proto_kinds :: "ProtoBlobKind list" where
  "proto_kinds = [PUnspecified, PTree, PBlob, PCommit, PView, POperation, PExtra]"

definition proto_try_from :: "int \<Rightarrow> ProtoBlobKind option" where
  "proto_try_from n = List.find (\<lambda>k. proto_number k = n) proto_kinds"

record BlobReq =
  req_kind :: int
  req_id :: bytes

record PutBlobReq =
  put_kind :: int
  put_id :: bytes
  put_bytes :: bytes

record GetBlobReply =
  blob_found :: bool
  blob_bytes :: bytes

record GetRefReply =
  ref_found :: bool
  ref_value :: bytes

record CasRefReq =
  cas_name :: string
  cas_expected :: "bytes option"
  cas_new :: "bytes option"

record CasRefReply =
  cas_updated_flag :: bool
  cas_actual :: "bytes option"

section \<open>The server\<close>

definition decode_kind :: "int \<Rightarrow> status + BlobKind" where
  "decode_kind kind =
     (case proto_try_from kind of
        None \<Rightarrow> Inl (Status InvalidArgument ''invalid BlobKind'')
      | Some p \<Rightarrow>
          (case from_proto p of
             None \<Rightarrow> Inl (Status InvalidArgument ''BlobKind unspecified (zero) is not a valid kind'')
           | Some k \<Rightarrow> Inr k))"

definition validate_id :: "bytes \<Rightarrow> status + unit" where
  "validate_id i = (if i = [] then Inl (Status InvalidArgument ''blob id must not be empty'') else Inr ())"

definition server_get_blob :: "'s remote_ops \<Rightarrow> BlobReq \<Rightarrow> ('s, status, GetBlobReply) io" where
  "server_get_blob backend req = (\<lambda>s.
     case decode_kind (req_kind req) of
       Inl e \<Rightarrow> (Inl e, s)
     | Inr kind \<Rightarrow>
         (case validate_id (req_id req) of
            Inl e \<Rightarrow> (Inl e, s)
          | Inr _ \<Rightarrow>
              (case rm_get_blob backend kind (req_id req) s of
                 Inl e \<Rightarrow> (Inl (Status Internal (''backend get_blob: '' @ e)), s)
               | Inr (Some b) \<Rightarrow> (Inr \<lparr>blob_found = True, blob_bytes = b\<rparr>, s)
               | Inr None \<Rightarrow> (Inr \<lparr>blob_found = False, blob_bytes = []\<rparr>, s))))"

definition server_put_blob :: "'s remote_ops \<Rightarrow> PutBlobReq \<Rightarrow> ('s, status, unit) io" where
  "server_put_blob backend req = (\<lambda>s.
     case decode_kind (put_kind req) of
       Inl e \<Rightarrow> (Inl e, s)
     | Inr kind \<Rightarrow>
         (case validate_id (put_id req) of
            Inl e \<Rightarrow> (Inl e, s)
          | Inr _ \<Rightarrow>
              (case rm_put_blob backend kind (put_id req) (put_bytes req) s of
                 (Inl e, s') \<Rightarrow> (Inl (Status Internal (''backend put_blob: '' @ e)), s')
               | (Inr _, s') \<Rightarrow> (Inr (), s'))))"

definition server_has_blob :: "'s remote_ops \<Rightarrow> BlobReq \<Rightarrow> ('s, status, bool) io" where
  "server_has_blob backend req = (\<lambda>s.
     case decode_kind (req_kind req) of
       Inl e \<Rightarrow> (Inl e, s)
     | Inr kind \<Rightarrow>
         (case validate_id (req_id req) of
            Inl e \<Rightarrow> (Inl e, s)
          | Inr _ \<Rightarrow>
              (case rm_has_blob backend kind (req_id req) s of
                 Inl e \<Rightarrow> (Inl (Status Internal (''backend has_blob: '' @ e)), s)
               | Inr found \<Rightarrow> (Inr found, s))))"

definition server_get_ref :: "'s remote_ops \<Rightarrow> string \<Rightarrow> ('s, status, GetRefReply) io" where
  "server_get_ref backend name = (\<lambda>s.
     case validate_ref_name name of
       Inl _ \<Rightarrow> (Inl (Status InvalidArgument ''ref name''), s)
     | Inr _ \<Rightarrow>
         (case rm_get_ref backend name s of
            Inl _ \<Rightarrow> (Inl (Status Internal ''backend get_ref''), s)
          | Inr (Some b) \<Rightarrow> (Inr \<lparr>ref_found = True, ref_value = b\<rparr>, s)
          | Inr None \<Rightarrow> (Inr \<lparr>ref_found = False, ref_value = []\<rparr>, s)))"

definition server_cas_ref :: "'s remote_ops \<Rightarrow> CasRefReq \<Rightarrow> ('s, status, CasRefReply) io" where
  "server_cas_ref backend req = (\<lambda>s.
     case validate_ref_name (cas_name req) of
       Inl _ \<Rightarrow> (Inl (Status InvalidArgument ''ref name''), s)
     | Inr _ \<Rightarrow>
         (case rm_cas_ref backend (cas_name req) (cas_expected req) (cas_new req) s of
            (Inl _, s') \<Rightarrow> (Inl (Status Internal ''backend cas_ref''), s')
          | (Inr Updated, s') \<Rightarrow> (Inr \<lparr>cas_updated_flag = True, cas_actual = None\<rparr>, s')
          | (Inr (Conflict a), s') \<Rightarrow> (Inr \<lparr>cas_updated_flag = False, cas_actual = a\<rparr>, s')))"

definition server_list_refs :: "'s remote_ops \<Rightarrow> ('s, status, string list) io" where
  "server_list_refs backend = (\<lambda>s.
     case rm_list_refs backend s of
       Inl _ \<Rightarrow> (Inl (Status Internal ''backend list_refs''), s)
     | Inr names \<Rightarrow> (Inr names, s))"

section \<open>The client\<close>

text \<open>What the transport does with a call; \<open>link\<close> below may depend on the state of the peer in any way.\<close>

datatype delivery = Delivered | Unreachable | ReplyLost

definition call :: "delivery \<Rightarrow> ('s, status, 'a) io \<Rightarrow> ('s, status, 'a) io" where
  "call d handler = (\<lambda>s.
     case d of
       Delivered \<Rightarrow> handler s
     | Unreachable \<Rightarrow> (Inl (Status Unavailable ''transport error''), s)
     | ReplyLost \<Rightarrow> (Inl (Status Unavailable ''transport error''), snd (handler s)))"

definition grpc_get_blob :: "delivery \<Rightarrow> string \<Rightarrow> 's remote_ops \<Rightarrow> BlobKind \<Rightarrow> bytes \<Rightarrow> 's \<Rightarrow> string + bytes option" where
  "grpc_get_blob d endpoint peer kind i s =
     (case fst (call d (server_get_blob peer \<lparr>req_kind = proto_number (as_proto kind), req_id = i\<rparr>) s) of
        Inl _ \<Rightarrow> Inl (''grpc get_blob '' @ as_str kind @ '' @ '' @ endpoint)
      | Inr resp \<Rightarrow> Inr (if blob_found resp then Some (blob_bytes resp) else None))"

definition grpc_put_blob ::
  "delivery \<Rightarrow> string \<Rightarrow> 's remote_ops \<Rightarrow> BlobKind \<Rightarrow> bytes \<Rightarrow> bytes \<Rightarrow> 's \<Rightarrow> (string + unit) \<times> 's" where
  "grpc_put_blob d endpoint peer kind i b s =
     (case call d (server_put_blob peer \<lparr>put_kind = proto_number (as_proto kind), put_id = i, put_bytes = b\<rparr>) s of
        (Inl _, s') \<Rightarrow> (Inl (''grpc put_blob '' @ as_str kind @ '' @ '' @ endpoint), s')
      | (Inr _, s') \<Rightarrow> (Inr (), s'))"

definition grpc_has_blob :: "delivery \<Rightarrow> string \<Rightarrow> 's remote_ops \<Rightarrow> BlobKind \<Rightarrow> bytes \<Rightarrow> 's \<Rightarrow> string + bool" where
  "grpc_has_blob d endpoint peer kind i s =
     (case fst (call d (server_has_blob peer \<lparr>req_kind = proto_number (as_proto kind), req_id = i\<rparr>) s) of
        Inl _ \<Rightarrow> Inl (''grpc has_blob '' @ as_str kind @ '' @ '' @ endpoint)
      | Inr found \<Rightarrow> Inr found)"

definition grpc_get_ref :: "delivery \<Rightarrow> string \<Rightarrow> 's remote_ops \<Rightarrow> string \<Rightarrow> 's \<Rightarrow> catalog_error + bytes option" where
  "grpc_get_ref d endpoint peer name s =
     (case fst (call d (server_get_ref peer name) s) of
        Inl _ \<Rightarrow> Inl (Backend (''grpc get_ref '' @ name @ '' @ '' @ endpoint))
      | Inr resp \<Rightarrow> Inr (if ref_found resp then Some (ref_value resp) else None))"

definition grpc_cas_ref ::
  "delivery \<Rightarrow> string \<Rightarrow> 's remote_ops \<Rightarrow> string \<Rightarrow> bytes option \<Rightarrow> bytes option \<Rightarrow> 's \<Rightarrow> (catalog_error + CasOutcome) \<times> 's" where
  "grpc_cas_ref d endpoint peer name expected new s =
     (case call d (server_cas_ref peer \<lparr>cas_name = name, cas_expected = expected, cas_new = new\<rparr>) s of
        (Inl _, s') \<Rightarrow> (Inl (Backend (''grpc cas_ref '' @ name @ '' @ '' @ endpoint)), s')
      | (Inr resp, s') \<Rightarrow> (Inr (if cas_updated_flag resp then Updated else Conflict (cas_actual resp)), s'))"

definition grpc_list_refs :: "delivery \<Rightarrow> string \<Rightarrow> 's remote_ops \<Rightarrow> 's \<Rightarrow> catalog_error + string list" where
  "grpc_list_refs d endpoint peer s =
     (case fst (call d (server_list_refs peer) s) of
        Inl _ \<Rightarrow> Inl (Backend (''grpc list_refs @ '' @ endpoint))
      | Inr names \<Rightarrow> Inr names)"

definition grpc_remote :: "('s \<Rightarrow> delivery) \<Rightarrow> string \<Rightarrow> 's remote_ops \<Rightarrow> 's remote_ops" where
  "grpc_remote link endpoint peer =
     \<lparr>rm_get_blob = \<lambda>k i s. grpc_get_blob (link s) endpoint peer k i s,
      rm_put_blob = \<lambda>k i b s. grpc_put_blob (link s) endpoint peer k i b s,
      rm_has_blob = \<lambda>k i s. grpc_has_blob (link s) endpoint peer k i s,
      rm_get_ref = \<lambda>n s. grpc_get_ref (link s) endpoint peer n s,
      rm_cas_ref = \<lambda>n e v s. grpc_cas_ref (link s) endpoint peer n e v s,
      rm_list_refs = \<lambda>s. grpc_list_refs (link s) endpoint peer s\<rparr>"

section \<open>What the server checks\<close>

lemma decode_kind_proto [simp]: "decode_kind (proto_number (as_proto k)) = Inr k"
  by (cases k) (simp_all add: decode_kind_def proto_try_from_def proto_kinds_def)

lemma decode_kind_iff: "decode_kind n = Inr k \<longleftrightarrow> n = proto_number (as_proto k)"
proof
  assume a: "decode_kind n = Inr k"
  then obtain p where p: "proto_try_from n = Some p" "from_proto p = Some k" by (auto simp: decode_kind_def split: option.splits)
  then have "proto_number p = n" by (auto simp: proto_try_from_def find_Some_iff)
  then show "n = proto_number (as_proto k)" using p(2) by (simp add: from_proto_Some_iff)
qed simp

lemma validate_id_ok [simp]: "i \<noteq> [] \<Longrightarrow> validate_id i = Inr ()"
  by (simp add: validate_id_def)

lemma valid_ref_nameD: "valid_ref_name n \<Longrightarrow> validate_ref_name n = Inr ()"
  by (simp add: valid_ref_name_def)

section \<open>One call through client and server\<close>

text \<open>A delivered call is the backend's call up to the text of errors.\<close>

abbreviation erase :: "'e + 'a \<Rightarrow> unit + 'a" where
  "erase \<equiv> map_sum (\<lambda>_. ()) id"

lemma grpc_delivered:
  assumes "link s = Delivered"
  shows "i \<noteq> [] \<Longrightarrow> erase (rm_get_blob (grpc_remote link ep R) k i s) = erase (rm_get_blob R k i s)"
    and "i \<noteq> [] \<Longrightarrow> map_prod erase id (rm_put_blob (grpc_remote link ep R) k i b s) = map_prod erase id (rm_put_blob R k i b s)"
    and "i \<noteq> [] \<Longrightarrow> erase (rm_has_blob (grpc_remote link ep R) k i s) = erase (rm_has_blob R k i s)"
    and "valid_ref_name n \<Longrightarrow> erase (rm_get_ref (grpc_remote link ep R) n s) = erase (rm_get_ref R n s)"
    and "valid_ref_name n \<Longrightarrow> map_prod erase id (rm_cas_ref (grpc_remote link ep R) n e v s) = map_prod erase id (rm_cas_ref R n e v s)"
    and "erase (rm_list_refs (grpc_remote link ep R) s) = erase (rm_list_refs R s)"
  using assms
  by (auto simp: grpc_remote_def grpc_get_blob_def grpc_put_blob_def grpc_has_blob_def grpc_get_ref_def grpc_cas_ref_def grpc_list_refs_def
      call_def server_get_blob_def server_put_blob_def server_has_blob_def server_get_ref_def server_cas_ref_def server_list_refs_def
      valid_ref_nameD split: sum.split option.split prod.split CasOutcome.split)

text \<open>A call that is not delivered returns an error; a mutating one was then executed by the peer or not.\<close>

lemma grpc_undelivered:
  assumes "link s \<noteq> Delivered"
  shows "\<exists>m. rm_get_blob (grpc_remote link ep R) k i s = Inl m" and "\<exists>m. rm_has_blob (grpc_remote link ep R) k i s = Inl m"
    and "\<exists>m. rm_get_ref (grpc_remote link ep R) n s = Inl m" and "\<exists>m. rm_list_refs (grpc_remote link ep R) s = Inl m"
    and "\<exists>m. fst (rm_put_blob (grpc_remote link ep R) k i b s) = Inl m \<and>
      snd (rm_put_blob (grpc_remote link ep R) k i b s) \<in> {s, snd (rm_put_blob R k i b s)}"
    and "\<exists>m. fst (rm_cas_ref (grpc_remote link ep R) n e v s) = Inl m \<and>
      snd (rm_cas_ref (grpc_remote link ep R) n e v s) \<in> {s, snd (rm_cas_ref R n e v s)}"
proof -
  have d: "link s = Unreachable \<or> link s = ReplyLost" using assms by (cases "link s") auto
  show "\<exists>m. rm_get_blob (grpc_remote link ep R) k i s = Inl m" "\<exists>m. rm_has_blob (grpc_remote link ep R) k i s = Inl m"
    "\<exists>m. rm_get_ref (grpc_remote link ep R) n s = Inl m" "\<exists>m. rm_list_refs (grpc_remote link ep R) s = Inl m"
    using d by (auto simp: grpc_remote_def grpc_get_blob_def grpc_has_blob_def grpc_get_ref_def grpc_list_refs_def call_def)
  show "\<exists>m. fst (rm_put_blob (grpc_remote link ep R) k i b s) = Inl m \<and>
      snd (rm_put_blob (grpc_remote link ep R) k i b s) \<in> {s, snd (rm_put_blob R k i b s)}"
    using d by (auto simp: grpc_remote_def grpc_put_blob_def call_def server_put_blob_def validate_id_def split: sum.split prod.split)
  show "\<exists>m. fst (rm_cas_ref (grpc_remote link ep R) n e v s) = Inl m \<and>
      snd (rm_cas_ref (grpc_remote link ep R) n e v s) \<in> {s, snd (rm_cas_ref R n e v s)}"
    using d by (auto simp: grpc_remote_def grpc_cas_ref_def call_def server_cas_ref_def split: sum.split prod.split CasOutcome.split)
qed

text \<open>What a client learns from a call, whatever the transport does.\<close>

lemma erase_Inr_iff: "erase x = Inr r \<longleftrightarrow> x = Inr r"
  by (cases x) auto

lemma erase_pair_cases:
  assumes "map_prod erase id x = map_prod erase id y" and "x = (r, s')"
  shows "\<exists>r'. y = (r', s') \<and> erase r' = erase r"
  using assms by (cases y) (auto simp: map_prod_def)

lemma grpc_get_blob_Inr: "i \<noteq> [] \<Longrightarrow> rm_get_blob (grpc_remote link ep R) k i s = Inr r \<Longrightarrow> rm_get_blob R k i s = Inr r"
  using grpc_delivered(1) [of link s i ep R k] grpc_undelivered(1) [of link s ep R k i] erase_Inr_iff by (metis Inl_Inr_False)

lemma grpc_has_blob_Inr: "i \<noteq> [] \<Longrightarrow> rm_has_blob (grpc_remote link ep R) k i s = Inr r \<Longrightarrow> rm_has_blob R k i s = Inr r"
  using grpc_delivered(3) [of link s i ep R k] grpc_undelivered(2) [of link s ep R k i] erase_Inr_iff by (metis Inl_Inr_False)

lemma grpc_get_ref_Inr: "valid_ref_name n \<Longrightarrow> rm_get_ref (grpc_remote link ep R) n s = Inr r \<Longrightarrow> rm_get_ref R n s = Inr r"
  using grpc_delivered(4) [of link s n ep R] grpc_undelivered(3) [of link s ep R n] erase_Inr_iff by (metis Inl_Inr_False)

lemma grpc_list_refs_Inr: "rm_list_refs (grpc_remote link ep R) s = Inr r \<Longrightarrow> rm_list_refs R s = Inr r"
  using grpc_delivered(6) [of link s ep R] grpc_undelivered(4) [of link s ep R] erase_Inr_iff by (metis Inl_Inr_False)

lemma grpc_put_cases:
  assumes "i \<noteq> []" and "rm_put_blob (grpc_remote link ep R) k i b s = (r, s')"
  obtains (not_reached) m where "r = Inl m" "s' = s"
  | (reached) r0 where "rm_put_blob R k i b s = (r0, s')" "r = Inr () \<longrightarrow> r0 = Inr ()"
proof (cases "link s = Delivered")
  case True
  from erase_pair_cases [OF grpc_delivered(2) [of link s i ep R k b, OF True assms(1)] assms(2)]
  show thesis using reached by (metis erase_Inr_iff)
next
  case False
  then show thesis using grpc_undelivered(5) [of link s ep R k i b] assms(2) not_reached reached
    by (cases "rm_put_blob R k i b s") auto
qed

lemma grpc_cas_cases:
  assumes "valid_ref_name n" and "rm_cas_ref (grpc_remote link ep R) n e v s = (r, s')"
  obtains (not_reached) m where "r = Inl m" "s' = s"
  | (reached) r0 where "rm_cas_ref R n e v s = (r0, s')" "\<forall>out. r = Inr out \<longrightarrow> r0 = Inr out" "link s = Delivered \<longrightarrow> erase r = erase r0"
proof (cases "link s = Delivered")
  case True
  from erase_pair_cases [OF grpc_delivered(5) [of link s n ep R e v, OF True assms(1)] assms(2)]
  show thesis using reached by (metis erase_Inr_iff)
next
  case False
  then show thesis using grpc_undelivered(6) [of link s ep R n e v] assms(2) not_reached reached
    by (cases "rm_cas_ref R n e v s") auto
qed

section \<open>The contracts survive the wire\<close>

context blob_remote
begin

lemma over_grpc: "blob_remote (grpc_remote link ep R) blobs (\<lambda>i. ok_id i \<and> i \<noteq> []) inv"
proof (rule blob_remote.intro, goal_cases)
  case (1 s i k r)
  then have "rm_get_blob R k i s = Inr r" using grpc_get_blob_Inr [of i link ep R k s r] by simp
  then show ?case using 1 get_sound by simp
next
  case (2 s i k b)
  then have "rm_has_blob R k i s = Inr b" using grpc_has_blob_Inr [of i link ep R k s b] by simp
  then show ?case using 2 has_sound by simp
next
  case (3 s i k b)
  obtain r s' where eq: "rm_put_blob (grpc_remote link ep R) k i b s = (r, s')" by fastforce
  have ne: "i \<noteq> []" using 3 by simp
  show ?case using 3 put_inv [of s i k b] eq by (cases rule: grpc_put_cases [OF ne eq]) auto
next
  case (4 s i k b u s')
  then have ne: "i \<noteq> []" by simp
  show ?case using 4 put_stored [of s i k b _ s'] by (cases rule: grpc_put_cases [OF ne 4(3)]) auto
next
  case (5 s i j k' k b)
  obtain r s' where eq: "rm_put_blob (grpc_remote link ep R) k i b s = (r, s')" by fastforce
  have ne: "i \<noteq> []" using 5 by simp
  show ?case using 5 put_frame [of s i j k' k b] eq by (cases rule: grpc_put_cases [OF ne eq]) auto
next
  case (6 s i k b e s')
  then have ne: "i \<noteq> []" by simp
  show ?case
  proof (cases rule: grpc_put_cases [OF ne 6(3)])
    case (2 r0)
    then show ?thesis using 6 put_stored [of s i k b _ s'] put_failed [of s i k b _ s'] by (cases r0) auto
  qed simp
qed

end

lemma catalog_over_grpc:
  assumes R: "ref_catalog (rm_get_ref R) (rm_cas_ref R) (rm_list_refs R) refs ok_name store_ok healthy"
    and names: "\<And>n. ok_name n \<Longrightarrow> valid_ref_name n"
  shows "ref_catalog (rm_get_ref (grpc_remote link ep R)) (rm_cas_ref (grpc_remote link ep R)) (rm_list_refs (grpc_remote link ep R))
    refs ok_name store_ok (\<lambda>s. healthy s \<and> (\<forall>t. link t = Delivered))"
proof (rule ref_catalog.intro, goal_cases)
  case (1 s n r)
  then have "rm_get_ref R n s = Inr r" using grpc_get_ref_Inr [OF names, of n link ep R s r] by simp
  then show ?case using 1 ref_catalog.get_sound [OF R] by simp
next
  case (2 s n)
  then show ?case using ref_catalog.get_live [OF R, of s n] grpc_delivered(4) [of link s n ep R] names erase_Inr_iff by metis
next
  case (3 s n e v)
  obtain r s' where eq: "rm_cas_ref (grpc_remote link ep R) n e v s = (r, s')" by fastforce
  show ?case using 3 ref_catalog.cas_inv [OF R, of s n e v] eq by (cases rule: grpc_cas_cases [OF names [OF 3(2)] eq]) auto
next
  case (4 s n e v s')
  then show ?case using ref_catalog.cas_updated [OF R, of s n e v s'] by (cases rule: grpc_cas_cases [OF names [OF 4(2)] 4(3)]) auto
next
  case (5 s n e v a s')
  then show ?case using ref_catalog.cas_conflict [OF R, of s n e v a s'] by (cases rule: grpc_cas_cases [OF names [OF 5(2)] 5(3)]) auto
next
  case (6 s n e v err s')
  show ?case
  proof (cases rule: grpc_cas_cases [OF names [OF 6(2)] 6(3)])
    case (2 r0)
    show ?thesis
    proof (cases r0)
      case (Inr out)
      then show ?thesis using 2 6 ref_catalog.cas_updated [OF R, of s n e v s'] ref_catalog.cas_conflict [OF R, of s n e v _ s']
        by (cases out) auto
    qed (use 2 6 ref_catalog.cas_failed [OF R, of s n e v _ s'] in auto)
  qed simp
next
  case (7 s n e v)
  obtain r s' where eq: "rm_cas_ref (grpc_remote link ep R) n e v s = (r, s')" by fastforce
  obtain r0 where r0: "rm_cas_ref R n e v s = (r0, s')" "erase r = erase r0"
    using grpc_delivered(5) [of link s n ep R e v] names 7 erase_pair_cases [OF _ eq] by metis
  then show ?case using ref_catalog.cas_live [OF R, of s n e v] 7 eq erase_Inr_iff by (metis fst_conv snd_conv)
next
  case (8 s ns)
  then have "rm_list_refs R s = Inr ns" using grpc_list_refs_Inr [of link ep R s ns] by simp
  then show ?case using 8 ref_catalog.list_sound [OF R] by simp
qed

interpretation gb: blob_remote "grpc_remote link ep (fs_remote dir)" "fs_blobs dir" "\<lambda>i. i \<noteq> [] \<and> i \<noteq> []" "fs_store_inv dir" for link ep dir
  by (rule fb.over_grpc)

interpretation gr: ref_catalog "catalog_get_ref (CatRemote (grpc_remote link ep (fs_remote dir)))"
  "catalog_cas_ref (CatRemote (grpc_remote link ep (fs_remote dir)))" "catalog_list_refs (CatRemote (grpc_remote link ep (fs_remote dir)))"
  "\<lambda>(s, l). fs_refs dir s" fs_ref_ok "\<lambda>(s, l). fs_store_inv dir s" "\<lambda>(s, l). fs_healthy dir s \<and> (\<forall>t. link t = Delivered)" for link ep dir
  by (rule remote_catalog, rule catalog_over_grpc) (simp_all add: fr.ref_catalog_axioms fs_ref_ok_def)

section \<open>What a peer promises\<close>

text \<open>
  C26: A remote reached over gRPC is equivalent to the backend the peer serves: when the transport delivers a call, the client returns
  what the backend's own method returns, up to the text of errors, and leaves the same backend state, for each of
  the six methods; when it does not, each of the six returns an error, never a result, and the backend
  either ran a mutating call or did not. The distinction between a missing and an empty blob or ref survives the wire, and the
  server accepts exactly the numbers of the six blob kinds.
\<close>

theorem grpc_transparent:
  fixes R :: "'s remote_ops" and link :: "'s \<Rightarrow> delivery" and ep :: string
  assumes "i \<noteq> []" and "valid_ref_name n"
  defines "G \<equiv> grpc_remote link ep R"
  shows "(link s = Delivered \<longrightarrow>
      erase (rm_get_blob G k i s) = erase (rm_get_blob R k i s) \<and>
      map_prod erase id (rm_put_blob G k i b s) = map_prod erase id (rm_put_blob R k i b s) \<and>
      erase (rm_has_blob G k i s) = erase (rm_has_blob R k i s) \<and>
      erase (rm_get_ref G n s) = erase (rm_get_ref R n s) \<and>
      map_prod erase id (rm_cas_ref G n e v s) = map_prod erase id (rm_cas_ref R n e v s) \<and>
      erase (rm_list_refs G s) = erase (rm_list_refs R s)) \<and>
    (link s \<noteq> Delivered \<longrightarrow>
      (\<exists>m. rm_get_blob G k i s = Inl m) \<and> (\<exists>m. rm_has_blob G k i s = Inl m) \<and>
      (\<exists>m. rm_get_ref G n s = Inl m) \<and> (\<exists>m. rm_list_refs G s = Inl m) \<and>
      (\<exists>m. fst (rm_put_blob G k i b s) = Inl m \<and> snd (rm_put_blob G k i b s) \<in> {s, snd (rm_put_blob R k i b s)}) \<and>
      (\<exists>m. fst (rm_cas_ref G n e v s) = Inl m \<and> snd (rm_cas_ref G n e v s) \<in> {s, snd (rm_cas_ref R n e v s)})) \<and>
    (\<forall>m k'. decode_kind m = Inr k' \<longleftrightarrow> m = proto_number (as_proto k'))"
proof (intro conjI impI)
  show "\<forall>m k'. decode_kind m = Inr k' \<longleftrightarrow> m = proto_number (as_proto k')" by (simp add: decode_kind_iff)
  show "\<exists>m. rm_get_blob G k i s = Inl m" if "link s \<noteq> Delivered" unfolding G_def by (rule grpc_undelivered(1) [of link, OF that])
  show "\<exists>m. rm_has_blob G k i s = Inl m" if "link s \<noteq> Delivered" unfolding G_def by (rule grpc_undelivered(2) [of link, OF that])
  show "\<exists>m. rm_get_ref G n s = Inl m" if "link s \<noteq> Delivered" unfolding G_def by (rule grpc_undelivered(3) [of link, OF that])
  show "\<exists>m. rm_list_refs G s = Inl m" if "link s \<noteq> Delivered" unfolding G_def by (rule grpc_undelivered(4) [of link, OF that])
  show "\<exists>m. fst (rm_put_blob G k i b s) = Inl m \<and> snd (rm_put_blob G k i b s) \<in> {s, snd (rm_put_blob R k i b s)}" if "link s \<noteq> Delivered"
    unfolding G_def by (rule grpc_undelivered(5) [of link, OF that])
  show "\<exists>m. fst (rm_cas_ref G n e v s) = Inl m \<and> snd (rm_cas_ref G n e v s) \<in> {s, snd (rm_cas_ref R n e v s)}" if "link s \<noteq> Delivered"
    unfolding G_def by (rule grpc_undelivered(6) [of link, OF that])
qed (unfold G_def, rule grpc_delivered; use assms in simp)+

theorem grpc_transparent_witness:
  "erase (rm_get_blob (grpc_remote (\<lambda>_. Delivered) ''peer'' (fs_remote ''/srv'')) KTree ''ab'' ex_host) = Inr None"
proof -
  have "valid_ref_name ''head''" by (simp add: valid_ref_name_iff)
  then have "erase (rm_get_blob (grpc_remote (\<lambda>_. Delivered) ''peer'' (fs_remote ''/srv'')) KTree ''ab'' ex_host) =
      erase (rm_get_blob (fs_remote ''/srv'') KTree ''ab'' ex_host)"
    using grpc_transparent [where i = "''ab''" and n = "''head''" and link = "\<lambda>_. Delivered" and s = ex_host and ep = "''peer''"
        and R = "fs_remote ''/srv''" and k = KTree] by simp
  also have "\<dots> = Inr None"
    using get_blob_eq [of ex_host "''ab''" "''/srv''" KTree] by (simp add: fs_remote_def fs_blobs_def file_at_def ex_host_def reads_ok_def)
  finally show ?thesis .
qed

end
