(* ===== verification/Wire.thy ===== *)
theory Wire
  imports Git_Store
begin

text \<open>
  Trees and commits on the wire between the command line and the daemon: the protobuf messages
  (\<^verbatim>\<open>src/proto/jj_interface.proto\<close>), the daemon's conversions (\<^verbatim>\<open>src/daemon/src/git_store.rs\<close>) and
  those of the command line's backend (\<^verbatim>\<open>src/cli/src/backend.rs\<close>). Optional fields of a message are
  options here, so that a message with a missing field is a value and its rejection a branch.
\<close>

section \<open>Messages\<close>

datatype ProtoValue = PVTreeId bytes | PVFile bytes bool bytes | PVSymlinkId bytes | PVConflictId bytes

text \<open>An entry; the outer option is the field \<^verbatim>\<open>value\<close> of the entry, the inner one the oneof of \<^verbatim>\<open>TreeValue\<close>.\<close>

record ProtoEntry =
  pe_name :: string
  pe_value :: "ProtoValue option option"

record ProtoSignature =
  ps_name :: string
  ps_email :: string
  ps_timestamp :: "(int \<times> int) option"

record ProtoCommit =
  pc_parents :: "bytes list"
  pc_predecessors :: "bytes list"
  pc_root_tree :: "bytes list"
  pc_uses_tree_conflict_format :: bool
  pc_conflict_labels :: "string list"
  pc_change_id :: bytes
  pc_description :: string
  pc_author :: "ProtoSignature option"
  pc_committer :: "ProtoSignature option"
  pc_secure_sig :: "bytes option"

text \<open>\<^verbatim>\<open>map(f).collect::<Result<Vec<_>>>()\<close>.\<close>

fun collect_map :: "('a \<Rightarrow> 'e + 'b) \<Rightarrow> 'a list \<Rightarrow> 'e + 'b list" where
  "collect_map f [] = Inr []"
| "collect_map f (x # xs) =
     (case f x of Inl e \<Rightarrow> Inl e | Inr y \<Rightarrow> (case collect_map f xs of Inl e \<Rightarrow> Inl e | Inr ys \<Rightarrow> Inr (y # ys)))"

lemma collect_map_pure: "(\<And>x. x \<in> set xs \<Longrightarrow> f x = Inr (g x)) \<Longrightarrow> collect_map f xs = Inr (map g xs)"
  by (induction xs) auto

section \<open>The daemon's side\<close>

fun entry_from_value :: "ProtoValue \<Rightarrow> GitEntryKind \<times> bytes" where
  "entry_from_value (PVTreeId i) = (ETree, i)"
| "entry_from_value (PVSymlinkId i) = (ESymlink, i)"
| "entry_from_value (PVConflictId i) = (EFile False, i)"
| "entry_from_value (PVFile i executable copy_id) = (EFile executable, i)"

definition tree_from_proto :: "ProtoEntry list \<Rightarrow> string + GitTreeEntry list" where
  "tree_from_proto = collect_map (\<lambda>e.
     case pe_value e of
       None \<Rightarrow> Inl (''tree entry '' @ pe_name e @ '' missing value oneof'')
     | Some None \<Rightarrow> Inl (''TreeValue missing value oneof for '' @ pe_name e)
     | Some (Some v) \<Rightarrow> (case entry_from_value v of (k, i) \<Rightarrow> Inr \<lparr>ename = pe_name e, ekind = k, eid = i\<rparr>))"

definition tree_to_proto :: "GitTreeEntry list \<Rightarrow> ProtoEntry list" where
  "tree_to_proto es = map (\<lambda>e.
     \<lparr>pe_name = ename e,
      pe_value = Some (Some (case ekind e of
          EFile executable \<Rightarrow> PVFile (eid e) executable []
        | ETree \<Rightarrow> PVTreeId (eid e)
        | ESymlink \<Rightarrow> PVSymlinkId (eid e)
        | ESubmodule \<Rightarrow> PVTreeId (eid e)))\<rparr>) es"

definition signature_from_proto :: "ProtoSignature \<Rightarrow> string + Signature" where
  "signature_from_proto p =
     (case ps_timestamp p of
        None \<Rightarrow> Inl ''Signature missing required timestamp''
      | Some (ms, tz) \<Rightarrow> Inr \<lparr>sig_name = ps_name p, sig_email = ps_email p, sig_millis = ms, sig_tz_offset = tz\<rparr>)"

definition signature_to_proto :: "Signature \<Rightarrow> ProtoSignature" where
  "signature_to_proto s = \<lparr>ps_name = sig_name s, ps_email = sig_email s, ps_timestamp = Some (sig_millis s, sig_tz_offset s)\<rparr>"

text \<open>\<^verbatim>\<open>map(signature_from_proto).transpose().context(..)?.unwrap_or_else(..)\<close>.\<close>

definition signature_or_default :: "string \<Rightarrow> ProtoSignature option \<Rightarrow> string + Signature" where
  "signature_or_default context p =
     (case p of
        None \<Rightarrow> Inr \<lparr>sig_name = [], sig_email = [], sig_millis = 0, sig_tz_offset = 0\<rparr>
      | Some q \<Rightarrow> (case signature_from_proto q of Inl e \<Rightarrow> Inl (context @ '': '' @ e) | Inr s \<Rightarrow> Inr s))"

definition root_tree_from_proto :: "ProtoCommit \<Rightarrow> string + bytes list" where
  "root_tree_from_proto p =
     (if pc_uses_tree_conflict_format p
      then (if odd (length (pc_root_tree p)) then Inr (pc_root_tree p)
            else Inl ''root_tree merge must have an odd number of terms'')
      else Inr [case pc_root_tree p of [] \<Rightarrow> [] | i # _ \<Rightarrow> i])"

definition labels_from_proto :: "string list \<Rightarrow> string + string list" where
  "labels_from_proto ls =
     (if ls = [] then Inr [[]]
      else if odd (length ls) then Inr ls
      else Inl ''conflict_labels merge must have an odd number of terms'')"

definition commit_from_proto :: "ProtoCommit \<Rightarrow> string + Commit" where
  "commit_from_proto p =
     (case root_tree_from_proto p of
        Inl e \<Rightarrow> Inl e
      | Inr root \<Rightarrow>
          (case signature_or_default ''author'' (pc_author p) of
             Inl e \<Rightarrow> Inl e
           | Inr au \<Rightarrow>
               (case signature_or_default ''committer'' (pc_committer p) of
                  Inl e \<Rightarrow> Inl e
                | Inr co \<Rightarrow>
                    (case labels_from_proto (pc_conflict_labels p) of
                       Inl e \<Rightarrow> Inl e
                     | Inr labels \<Rightarrow>
                         Inr \<lparr>parents = pc_parents p, predecessors = pc_predecessors p, root_tree = root,
                              conflict_labels = labels, change_id = pc_change_id p, description = pc_description p,
                              author = au, committer = co,
                              secure_sig = map_option (\<lambda>s. ([], s)) (pc_secure_sig p)\<rparr>))))"

definition commit_to_proto :: "Commit \<Rightarrow> ProtoCommit" where
  "commit_to_proto c =
     \<lparr>pc_parents = parents c, pc_predecessors = predecessors c, pc_root_tree = root_tree c,
      pc_uses_tree_conflict_format = (length (root_tree c) \<noteq> 1),
      pc_conflict_labels = (if length (conflict_labels c) = 1 then [] else conflict_labels c),
      pc_change_id = change_id c, pc_description = description c,
      pc_author = Some (signature_to_proto (author c)), pc_committer = Some (signature_to_proto (committer c)),
      pc_secure_sig = map_option snd (secure_sig c)\<rparr>"

section \<open>The command line's side\<close>

text \<open>jj-lib's \<^verbatim>\<open>TreeValue\<close> as the backend sees it, with the copy id of a file.\<close>

datatype JjTreeValue = JFile bytes bool bytes | JTree bytes | JSymlink bytes | JSubmodule bytes

text \<open>The errors of jj-lib's backend trait that the sources build; the last string of a case is its source.\<close>

datatype BackendError =
    ReadObject string bytes string
  | ReadFileErr bytes string
  | WriteObject string string
  | Unsupported string
  | BackendOther string

fun tree_value_to_proto :: "JjTreeValue \<Rightarrow> BackendError + ProtoValue" where
  "tree_value_to_proto (JFile i executable copy_id) = Inr (PVFile i executable copy_id)"
| "tree_value_to_proto (JSymlink i) = Inr (PVSymlinkId i)"
| "tree_value_to_proto (JTree i) = Inr (PVTreeId i)"
| "tree_value_to_proto (JSubmodule _) = Inl (Unsupported ''kiki backend does not support git submodules'')"

definition cli_tree_to_proto :: "(string \<times> JjTreeValue) list \<Rightarrow> BackendError + ProtoEntry list" where
  "cli_tree_to_proto = collect_map (\<lambda>(n, v).
     case tree_value_to_proto v of Inl e \<Rightarrow> Inl e | Inr p \<Rightarrow> Inr \<lparr>pe_name = n, pe_value = Some (Some p)\<rparr>)"

fun tree_value_from_proto :: "ProtoValue option \<Rightarrow> BackendError + JjTreeValue" where
  "tree_value_from_proto None = Inl (BackendOther ''daemon returned TreeValue with empty oneof'')"
| "tree_value_from_proto (Some (PVTreeId i)) = Inr (JTree i)"
| "tree_value_from_proto (Some (PVFile i executable copy_id)) = Inr (JFile i executable copy_id)"
| "tree_value_from_proto (Some (PVSymlinkId i)) = Inr (JSymlink i)"
| "tree_value_from_proto (Some (PVConflictId _)) =
     Inl (Unsupported ''kiki backend: stored conflict_id is no longer supported by jj-lib 0.40'')"

text \<open>\<open>ok\<close> is \<^verbatim>\<open>RepoPathComponentBuf::new\<close>, which refuses names that are not one path component.\<close>

definition cli_tree_from_proto :: "(string \<Rightarrow> bool) \<Rightarrow> ProtoEntry list \<Rightarrow> BackendError + (string \<times> JjTreeValue) list" where
  "cli_tree_from_proto ok p =
     (case collect_map (\<lambda>e.
          if \<not> ok (pe_name e) then Inl (BackendOther ''invalid repo path component'')
          else (case pe_value e of
              None \<Rightarrow> Inl (BackendOther ''daemon returned tree entry with no value'')
            | Some raw \<Rightarrow> (case tree_value_from_proto raw of Inl x \<Rightarrow> Inl x | Inr v \<Rightarrow> Inr (pe_name e, v)))) p of
        Inl e \<Rightarrow> Inl e
      | Inr es \<Rightarrow> Inr (sort_key fst es))"

definition cli_signature_from_proto :: "ProtoSignature \<Rightarrow> BackendError + Signature" where
  "cli_signature_from_proto p =
     (case ps_timestamp p of
        None \<Rightarrow> Inl (BackendOther ''commit proto: missing signature timestamp'')
      | Some (ms, tz) \<Rightarrow> Inr \<lparr>sig_name = ps_name p, sig_email = ps_email p, sig_millis = ms, sig_tz_offset = tz\<rparr>)"

definition cli_commit_to_proto :: "Commit \<Rightarrow> ProtoCommit" where
  "cli_commit_to_proto c =
     \<lparr>pc_parents = parents c, pc_predecessors = predecessors c, pc_root_tree = root_tree c,
      pc_uses_tree_conflict_format = True,
      pc_conflict_labels = (if length (conflict_labels c) = 1 then [] else conflict_labels c),
      pc_change_id = change_id c, pc_description = description c,
      pc_author = Some (signature_to_proto (author c)), pc_committer = Some (signature_to_proto (committer c)),
      pc_secure_sig = None\<rparr>"

text \<open>
  \<open>encode\<close> is protobuf's \<^verbatim>\<open>encode_to_vec\<close> and \<open>labels\<close> jj-lib's \<^verbatim>\<open>ConflictLabels::from_vec\<close>. A merge with
  an even number of terms is a panic of jj-lib (\<open>None\<close>).
\<close>

definition cli_commit_from_proto ::
  "(ProtoCommit \<Rightarrow> bytes) \<Rightarrow> (string list \<Rightarrow> string list) \<Rightarrow> ProtoCommit \<Rightarrow> (BackendError + Commit) option" where
  "cli_commit_from_proto encode labels p =
     (if even (length (pc_root_tree p)) then None
      else Some (case pc_author p of
          None \<Rightarrow> Inl (BackendOther ''commit proto: missing author'')
        | Some a \<Rightarrow>
            (case cli_signature_from_proto a of
               Inl e \<Rightarrow> Inl e
             | Inr au \<Rightarrow>
                 (case pc_committer p of
                    None \<Rightarrow> Inl (BackendOther ''commit proto: missing committer'')
                  | Some c \<Rightarrow>
                      (case cli_signature_from_proto c of
                         Inl e \<Rightarrow> Inl e
                       | Inr co \<Rightarrow>
                           Inr \<lparr>parents = pc_parents p, predecessors = pc_predecessors p, root_tree = pc_root_tree p,
                                conflict_labels = labels (pc_conflict_labels p), change_id = pc_change_id p,
                                description = pc_description p, author = au, committer = co,
                                secure_sig = map_option (\<lambda>s. (encode (p\<lparr>pc_secure_sig := None\<rparr>), s)) (pc_secure_sig p)\<rparr>)))))"

section \<open>Both sides agree\<close>

lemma signature_wire [simp]:
  "signature_from_proto (signature_to_proto s) = Inr s" "cli_signature_from_proto (signature_to_proto s) = Inr s"
  by (cases s; simp add: signature_from_proto_def cli_signature_from_proto_def signature_to_proto_def)+

text \<open>A commit as jj-lib has it: merges have an odd number of terms, and labels of a resolved merge are empty.\<close>

definition commit_ok :: "Commit \<Rightarrow> bool" where
  "commit_ok c \<longleftrightarrow> odd (length (root_tree c)) \<and> odd (length (conflict_labels c)) \<and>
     (length (conflict_labels c) = 1 \<longrightarrow> conflict_labels c = [[]])"

lemma labels_wire:
  "odd (length ls) \<Longrightarrow> (length ls = 1 \<longrightarrow> ls = [[]]) \<Longrightarrow> labels_from_proto (if length ls = 1 then [] else ls) = Inr ls"
  by (auto simp: labels_from_proto_def)

lemma commit_to_daemon:
  assumes "commit_ok c"
  shows "commit_from_proto (cli_commit_to_proto c) = Inr (c\<lparr>secure_sig := None\<rparr>)"
  using assms labels_wire [of "conflict_labels c"]
  by (simp add: commit_ok_def commit_from_proto_def cli_commit_to_proto_def root_tree_from_proto_def signature_or_default_def)

lemma commit_to_cli:
  assumes "commit_ok c" and "labels [] = [[]]" and "length (conflict_labels c) \<noteq> 1 \<Longrightarrow> labels (conflict_labels c) = conflict_labels c"
  shows "cli_commit_from_proto encode labels (commit_to_proto c) =
    Some (Inr (c\<lparr>secure_sig := map_option (\<lambda>x. (encode ((commit_to_proto c)\<lparr>pc_secure_sig := None\<rparr>), snd x)) (secure_sig c)\<rparr>))"
  using assms by (cases c) (auto simp: commit_ok_def cli_commit_from_proto_def commit_to_proto_def option.map_comp comp_def)

text \<open>The daemon's own conversions lose nothing but the kind of a submodule.\<close>

lemma tree_wire: "\<forall>e \<in> set es. ekind e \<noteq> ESubmodule \<Longrightarrow> tree_from_proto (tree_to_proto es) = Inr es"
proof -
  assume ok: "\<forall>e \<in> set es. ekind e \<noteq> ESubmodule"
  have "tree_from_proto (tree_to_proto es) = Inr (map id es)"
    unfolding tree_from_proto_def tree_to_proto_def using ok
    by (induction es) (auto split: GitEntryKind.splits)
  then show ?thesis by simp
qed

end
