(* ===== verification/Object_Rpc.thy ===== *)
theory Object_Rpc
  imports Wire Push Catalog
begin

text \<open>
  The object RPCs of the daemon (\<^verbatim>\<open>src/daemon/src/service.rs\<close>): files, symlinks, trees, commits, views and
  operations are written to the store of the mount and pushed through to its remote, and read from the
  store with a fall-back to the remote. The state of a handler is the remote and the store; its first
  argument is the outcome of \<^verbatim>\<open>resolve_handles\<close> for the path of the request: an error, or the mount's
  remote, if it has one.
\<close>

section \<open>Ids and errors\<close>

type_synonym ('s, 'g, 'a) rpc = "('s \<times> 'g git_store, status, 'a) io"

type_synonym 's handles = "status + 's remote_ops option"

text \<open>\<^verbatim>\<open>TryFrom<Vec<u8>> for Id\<close> with \<^verbatim>\<open>decode_status\<close>.\<close>

definition decode_id :: "string \<Rightarrow> bytes \<Rightarrow> status + bytes" where
  "decode_id context value =
     (if length value = 20 then Inr value else Inl (Status InvalidArgument (context @ '': expected 20-byte id'')))"

fun fetch_status :: "FetchError \<Rightarrow> status" where
  "fetch_status (FetchNotFound kind i) = Status NotFoundCode (as_str kind @ '' '' @ i @ '' not found locally or on remote'')"
| "fetch_status (DataLoss kind want got) = Status DataLossCode (fetch_error_display (DataLoss kind want got))"
| "fetch_status (LocalWrite kind e) = Status Internal (fetch_error_display (LocalWrite kind e))"
| "fetch_status (Remote kind e) = Status Internal (fetch_error_display (Remote kind e))"

section \<open>Write-through\<close>

text \<open>The tail of the four git write handlers: read the raw object back and put it on the remote.\<close>

definition write_through :: "'s remote_ops option \<Rightarrow> string \<Rightarrow> BlobKind \<Rightarrow> bytes \<Rightarrow> ('s, 'g, unit) rpc" where
  "write_through rs what kind i = (\<lambda>(s, st).
     case rs of
       None \<Rightarrow> (Inr (), s, st)
     | Some R \<Rightarrow>
         (case read_git_object_bytes st i of
            Inl e \<Rightarrow> (Inl (Status Internal (''read git blob for '' @ what @ '' push: '' @ e)), s, st)
          | Inr None \<Rightarrow> (Inl (Status Internal (''just-written '' @ what @ '' not found'')), s, st)
          | Inr (Some (_, b)) \<Rightarrow>
              (case rm_put_blob R kind i b s of
                 (Inl e, s') \<Rightarrow> (Inl (Status Internal (''remote put_blob ('' @ what @ ''): '' @ e)), s', st)
               | (Inr _, s') \<Rightarrow> (Inr (), s', st))))"

text \<open>A call on the store, with \<^verbatim>\<open>store_status\<close>.\<close>

definition on_store :: "string \<Rightarrow> ('g git_store \<Rightarrow> (string + 'a) \<times> 'g git_store) \<Rightarrow> ('s, 'g, 'a) rpc" where
  "on_store context f = (\<lambda>(s, st).
     case f st of
       (Inl e, st') \<Rightarrow> (Inl (Status Internal (context @ '': '' @ e)), s, st')
     | (Inr a, st') \<Rightarrow> (Inr a, s, st'))"

definition resolved :: "'s handles \<Rightarrow> ('s remote_ops option \<Rightarrow> ('s, 'g, 'a) rpc) \<Rightarrow> ('s, 'g, 'a) rpc" where
  "resolved handles f = (case handles of Inl e \<Rightarrow> io_err e | Inr rs \<Rightarrow> f rs)"

definition rpc_write_file :: "'s handles \<Rightarrow> bytes \<Rightarrow> ('s, 'g, bytes) rpc" where
  "rpc_write_file handles data = resolved handles (\<lambda>rs.
     io_seq (on_store ''write_file'' (git_write_file data)) (\<lambda>i.
     io_seq (write_through rs ''file'' KBlob i) (\<lambda>_. io_ret i)))"

definition rpc_write_symlink :: "'s handles \<Rightarrow> string \<Rightarrow> ('s, 'g, bytes) rpc" where
  "rpc_write_symlink handles target = resolved handles (\<lambda>rs.
     io_seq (on_store ''write_symlink'' (git_write_symlink target)) (\<lambda>i.
     io_seq (write_through rs ''symlink'' KBlob i) (\<lambda>_. io_ret i)))"

definition rpc_write_tree :: "'s handles \<Rightarrow> ProtoEntry list option \<Rightarrow> ('s, 'g, bytes) rpc" where
  "rpc_write_tree handles tree = resolved handles (\<lambda>rs.
     case tree of
       None \<Rightarrow> io_err (Status InvalidArgument ''WriteTreeReq.tree is required'')
     | Some tree_proto \<Rightarrow>
         (case tree_from_proto tree_proto of
            Inl e \<Rightarrow> io_err (Status InvalidArgument (''tree: '' @ e))
          | Inr entries \<Rightarrow>
              io_seq (on_store ''write_tree'' (git_write_tree entries)) (\<lambda>i.
              io_seq (write_through rs ''tree'' KTree i) (\<lambda>_. io_ret i))))"

definition push_extras :: "'s remote_ops option \<Rightarrow> bytes \<Rightarrow> ('s, 'g, unit) rpc" where
  "push_extras rs i = (\<lambda>(s, st).
     case rs of
       None \<Rightarrow> (Inr (), s, st)
     | Some R \<Rightarrow>
         (case read_extras st i of
            Inl e \<Rightarrow> (Inl (Status Internal (''read extras for commit push: '' @ e)), s, st)
          | Inr None \<Rightarrow> (Inr (), s, st)
          | Inr (Some b) \<Rightarrow>
              (case rm_put_blob R KExtra i b s of
                 (Inl e, s') \<Rightarrow> (Inl (Status Internal (''remote put_blob (extra): '' @ e)), s', st)
               | (Inr _, s') \<Rightarrow> (Inr (), s', st))))"

definition write_commit_objects :: "'s handles \<Rightarrow> ProtoCommit option \<Rightarrow> ('s, 'g, bytes) rpc" where
  "write_commit_objects handles commit = resolved handles (\<lambda>rs.
     case commit of
       None \<Rightarrow> io_err (Status InvalidArgument ''WriteCommitReq.commit is required'')
     | Some commit_proto \<Rightarrow>
         if pc_parents commit_proto = [] then io_err (Status Internal ''Cannot write a commit with no parents'')
         else (case commit_from_proto commit_proto of
             Inl e \<Rightarrow> io_err (Status InvalidArgument (''commit: '' @ e))
           | Inr c \<Rightarrow>
               io_seq (on_store ''write_commit'' (git_write_commit c)) (\<lambda>(i, stored).
               io_seq (write_through rs ''commit'' KCommit i) (\<lambda>_.
               io_seq (push_extras rs i) (\<lambda>_. io_ret i)))))"

text \<open>
  The head the daemon exported last is in the registry of the mount. \<open>export_head\<close> is the outcome of
  \<^verbatim>\<open>git_ops::export_head\<close>, whose failure is only logged.
\<close>

definition rpc_write_commit ::
  "(bytes \<Rightarrow> string + unit) \<Rightarrow> 's handles \<Rightarrow> ProtoCommit option \<Rightarrow>
   ('s \<times> 'g git_store) \<times> bytes \<Rightarrow> (status + bytes) \<times> ('s \<times> 'g git_store) \<times> bytes" where
  "rpc_write_commit export_head handles commit = (\<lambda>(x, last_exported_head).
     case write_commit_objects handles commit x of
       (Inl e, x') \<Rightarrow> (Inl e, x', last_exported_head)
     | (Inr i, x') \<Rightarrow> (Inr i, x', case export_head i of Inl _ \<Rightarrow> last_exported_head | Inr _ \<Rightarrow> i))"

section \<open>Read-through\<close>

text \<open>\<^verbatim>\<open>fetch_file_through_remote\<close> and its siblings: without a remote a miss is not found.\<close>

definition through_remote ::
  "string \<Rightarrow> (get_blob \<Rightarrow> bytes \<Rightarrow> ('g, 'a) fetch) \<Rightarrow> 's remote_ops option \<Rightarrow> bytes \<Rightarrow> ('s, 'g, 'a) rpc" where
  "through_remote what fetch rs i = (\<lambda>(s, st).
     case rs of
       None \<Rightarrow> (Inl (Status NotFoundCode (what @ '' '' @ hex_encode i @ '' not found'')), s, st)
     | Some R \<Rightarrow>
         (case fetch (\<lambda>k j. rm_get_blob R k j s) i st of
            (Inl e, st') \<Rightarrow> (Inl (fetch_status e), s, st')
          | (Inr a, st') \<Rightarrow> (Inr a, s, st')))"

text \<open>The shape the four read handlers share: decode the id, read the store, fetch on a miss.\<close>

definition read_rpc ::
  "string \<Rightarrow> ('g git_store \<Rightarrow> bytes \<Rightarrow> string + 'a option) \<Rightarrow> (get_blob \<Rightarrow> bytes \<Rightarrow> ('g, 'a) fetch) \<Rightarrow>
   's handles \<Rightarrow> bytes \<Rightarrow> ('s, 'g, 'a) rpc" where
  "read_rpc what read fetch handles i = resolved handles (\<lambda>rs.
     case decode_id (what @ '' id'') i of
       Inl e \<Rightarrow> io_err e
     | Inr i \<Rightarrow>
         (\<lambda>(s, st). case read st i of
            Inl e \<Rightarrow> (Inl (Status Internal (''read_'' @ what @ '': '' @ e)), s, st)
          | Inr (Some a) \<Rightarrow> (Inr a, s, st)
          | Inr None \<Rightarrow> through_remote what fetch rs i (s, st)))"

definition rpc_read_file :: "'s handles \<Rightarrow> bytes \<Rightarrow> ('s, 'g, bytes) rpc" where
  "rpc_read_file = read_rpc ''file'' git_read_file fetch_file"

definition rpc_read_symlink :: "'s handles \<Rightarrow> bytes \<Rightarrow> ('s, 'g, string) rpc" where
  "rpc_read_symlink = read_rpc ''symlink'' git_read_symlink fetch_symlink"

definition rpc_read_tree :: "'s handles \<Rightarrow> bytes \<Rightarrow> ('s, 'g, ProtoEntry list) rpc" where
  "rpc_read_tree handles i =
     io_seq (read_rpc ''tree'' git_read_tree fetch_tree handles i) (\<lambda>es. io_ret (tree_to_proto es))"

definition rpc_read_commit :: "'s handles \<Rightarrow> bytes \<Rightarrow> ('s, 'g, ProtoCommit) rpc" where
  "rpc_read_commit handles i =
     io_seq (read_rpc ''commit'' git_read_commit fetch_commit handles i) (\<lambda>c. io_ret (commit_to_proto c))"

definition rpc_get_empty_tree_id :: "'s handles \<Rightarrow> ('s, 'g, bytes) rpc" where
  "rpc_get_empty_tree_id handles = resolved handles (\<lambda>_ (s, st). (Inr (jj_empty_tree_id (glib st)), s, st))"

section \<open>Views and operations\<close>

datatype OpStoreBlobKind = OView | OOperation

fun op_kind_str :: "OpStoreBlobKind \<Rightarrow> string" where
  "op_kind_str OView = ''view''"
| "op_kind_str OOperation = ''operation''"

text \<open>
  \<open>canonical\<close> stands for jj-lib's \<^verbatim>\<open>SimpleOpStore\<close>: it decodes a blob and returns the id it would be
  stored under, or the error of the decoder.
\<close>

definition validate_op_store_blob_id ::
  "(OpStoreBlobKind \<Rightarrow> bytes \<Rightarrow> string + bytes) \<Rightarrow> OpStoreBlobKind \<Rightarrow> bytes \<Rightarrow> bytes \<Rightarrow> string + unit" where
  "validate_op_store_blob_id canonical kind requested_id bs =
     (if length requested_id \<noteq> 64 then Inl (op_kind_str kind @ '' id must be 64 bytes'')
      else if list_all (\<lambda>b. b = CHR 0x00) requested_id
      then Inl (op_kind_str kind @ '' id is the reserved all-zero root id and must not be stored'')
      else (case canonical kind bs of
          Inl e \<Rightarrow> Inl (''decoding '' @ op_kind_str kind @ '' blob: '' @ e)
        | Inr canonical_id \<Rightarrow>
            if canonical_id \<noteq> requested_id then Inl (op_kind_str kind @ '' id/bytes mismatch'') else Inr ()))"

definition put_op_blob :: "'s remote_ops option \<Rightarrow> string \<Rightarrow> BlobKind \<Rightarrow> bytes \<Rightarrow> bytes \<Rightarrow> ('s, 'g, unit) rpc" where
  "put_op_blob rs what kind i data = (\<lambda>(s, st).
     case rs of
       None \<Rightarrow> (Inr (), s, st)
     | Some R \<Rightarrow>
         (case rm_put_blob R kind i data s of
            (Inl e, s') \<Rightarrow> (Inl (Status Internal (''remote put_blob ('' @ what @ ''): '' @ e)), s', st)
          | (Inr _, s') \<Rightarrow> (Inr (), s', st)))"

text \<open>
  \<^verbatim>\<open>write_view\<close> also records the bookmarks of the view as exported; \<open>bookmarks_of\<close> is the protobuf decoder
  behind \<^verbatim>\<open>bookmarks_from_view_bytes\<close>. The export of the bookmarks to git refs is best effort.
\<close>

definition rpc_write_view ::
  "(OpStoreBlobKind \<Rightarrow> bytes \<Rightarrow> string + bytes) \<Rightarrow> (bytes \<Rightarrow> (string \<times> bytes) list) \<Rightarrow> 's handles \<Rightarrow> bytes \<Rightarrow> bytes \<Rightarrow>
   ('s \<times> 'g git_store) \<times> (string \<times> bytes) list option \<Rightarrow> (status + unit) \<times> ('s \<times> 'g git_store) \<times> (string \<times> bytes) list option" where
  "rpc_write_view canonical bookmarks_of handles view_id data = (\<lambda>(x, last_exported_bookmarks).
     case resolved handles (\<lambda>rs.
       case validate_op_store_blob_id canonical OView view_id data of
         Inl e \<Rightarrow> io_err (Status InvalidArgument (''view blob: '' @ e))
       | Inr _ \<Rightarrow>
           io_seq (on_store ''write_view'' (write_view_bytes view_id data)) (\<lambda>_.
           put_op_blob rs ''view'' KView view_id data)) x of
       (Inl e, x') \<Rightarrow> (Inl e, x', last_exported_bookmarks)
     | (Inr _, x') \<Rightarrow> (Inr (), x', Some (bookmarks_of data)))"

definition rpc_write_operation ::
  "(OpStoreBlobKind \<Rightarrow> bytes \<Rightarrow> string + bytes) \<Rightarrow> 's handles \<Rightarrow> bytes \<Rightarrow> bytes \<Rightarrow> ('s, 'g, unit) rpc" where
  "rpc_write_operation canonical handles operation_id data = resolved handles (\<lambda>rs.
     case validate_op_store_blob_id canonical OOperation operation_id data of
       Inl e \<Rightarrow> io_err (Status InvalidArgument (''operation blob: '' @ e))
     | Inr _ \<Rightarrow>
         io_seq (on_store ''write_operation'' (write_operation_bytes operation_id data)) (\<lambda>_.
         put_op_blob rs ''operation'' KOperation operation_id data))"

text \<open>The read of a view or an operation; \<open>None\<close> is the reply with \<^verbatim>\<open>found\<close> false.\<close>

definition read_op_blob ::
  "(OpStoreBlobKind \<Rightarrow> bytes \<Rightarrow> string + bytes) \<Rightarrow> OpStoreBlobKind \<Rightarrow> BlobKind \<Rightarrow>
   ('g git_store \<Rightarrow> bytes \<Rightarrow> string + bytes option) \<Rightarrow> (bytes \<Rightarrow> bytes \<Rightarrow> 'g git_store \<Rightarrow> (string + unit) \<times> 'g git_store) \<Rightarrow>
   's handles \<Rightarrow> bytes \<Rightarrow> ('s, 'g, bytes option) rpc" where
  "read_op_blob canonical okind kind get write handles i = resolved handles (\<lambda>rs.
     if length i \<noteq> 64 then io_err (Status InvalidArgument (op_kind_str okind @ ''_id must be 64 bytes''))
     else (\<lambda>(s, st).
       case get st i of
         Inl e \<Rightarrow> (Inl (Status Internal (''get_'' @ op_kind_str okind @ '': '' @ e)), s, st)
       | Inr (Some b) \<Rightarrow> (Inr (Some b), s, st)
       | Inr None \<Rightarrow>
           (case rs of
              None \<Rightarrow> (Inr None, s, st)
            | Some R \<Rightarrow>
                (case rm_get_blob R kind i s of
                   Inl e \<Rightarrow> (Inl (Status Internal (''remote get_blob ('' @ op_kind_str okind @ ''): '' @ e)), s, st)
                 | Inr None \<Rightarrow> (Inr None, s, st)
                 | Inr (Some b) \<Rightarrow>
                     (case validate_op_store_blob_id canonical okind i b of
                        Inl e \<Rightarrow> (Inl (Status DataLossCode (''remote '' @ op_kind_str okind @ '' blob: '' @ e)), s, st)
                      | Inr _ \<Rightarrow>
                          io_seq (on_store (''cache write_'' @ op_kind_str okind) (write i b)) (\<lambda>_. io_ret (Some b)) (s, st))))))"

definition rpc_read_view :: "(OpStoreBlobKind \<Rightarrow> bytes \<Rightarrow> string + bytes) \<Rightarrow> 's handles \<Rightarrow> bytes \<Rightarrow> ('s, 'g, bytes option) rpc" where
  "rpc_read_view canonical = read_op_blob canonical OView KView get_view_bytes write_view_bytes"

definition rpc_read_operation :: "(OpStoreBlobKind \<Rightarrow> bytes \<Rightarrow> string + bytes) \<Rightarrow> 's handles \<Rightarrow> bytes \<Rightarrow> ('s, 'g, bytes option) rpc" where
  "rpc_read_operation canonical = read_op_blob canonical OOperation KOperation get_operation_bytes write_operation_bytes"

definition rpc_resolve_operation_id_prefix :: "'s handles \<Rightarrow> string \<Rightarrow> ('s, 'g, nat \<times> bytes) rpc" where
  "rpc_resolve_operation_id_prefix handles hex_prefix = resolved handles (\<lambda>_ (s, st).
     case operation_ids_matching_prefix st hex_prefix of
       Inl e \<Rightarrow> (Inl (Status Internal (''operation_ids_matching_prefix: '' @ e)), s, st)
     | Inr PrefixNone \<Rightarrow> (Inr (0, []), s, st)
     | Inr (PrefixSingle i) \<Rightarrow> (Inr (1, i), s, st)
     | Inr PrefixAmbiguous \<Rightarrow> (Inr (2, []), s, st))"

section \<open>Handlers and the tables of the op store\<close>

definition tables :: "'g git_store \<Rightarrow> (bytes, bytes) btree \<times> (bytes, bytes) btree" where
  "tables st = (views_v1 st, operations_v1 st)"

lemma git_writes_tables:
  "git_write_file b st = (r, st') \<Longrightarrow> tables st' = tables st" "git_write_symlink t st = (r, st') \<Longrightarrow> tables st' = tables st"
  "git_write_tree es st = (r, st') \<Longrightarrow> tables st' = tables st" "git_write_commit c st = (rc, st') \<Longrightarrow> tables st' = tables st"
  "write_git_object_bytes k b st = (r, st') \<Longrightarrow> tables st' = tables st" "write_extras i b st = (ru, st') \<Longrightarrow> tables st' = tables st"
  by (auto simp: tables_def git_write_file_def git_write_symlink_def git_write_tree_def git_write_commit_def write_git_object_bytes_def
      write_extras_def split: sum.splits prod.splits)

lemma fetch_git_object_tables: "fetch_git_object g k i st = (r, st') \<Longrightarrow> tables st' = tables st"
  by (auto simp: fetch_git_object_def split: option.splits sum.splits prod.splits if_splits dest: git_writes_tables)

lemma fetch_extras_tables: "fetch_extras g i st = (r, st') \<Longrightarrow> tables st' = tables st"
  by (auto simp: fetch_extras_def split: sum.splits prod.splits dest: git_writes_tables)

lemma reread_tables: "reread k i read st = (r, st') \<Longrightarrow> tables st' = tables st"
  using reread_state [of k i read st] by simp

lemma fetches_tables:
  "fetch_file g i st = (r, st') \<Longrightarrow> tables st' = tables st" "fetch_symlink g i st = (r, st') \<Longrightarrow> tables st' = tables st"
  "fetch_tree g i st = (rt, st') \<Longrightarrow> tables st' = tables st" "fetch_commit g i st = (rc, st') \<Longrightarrow> tables st' = tables st"
  by (auto simp: fetch_file_def fetch_symlink_def fetch_tree_def fetch_commit_def split: sum.splits prod.splits FetchError.splits
      dest!: fetch_git_object_tables fetch_extras_tables reread_tables)

text \<open>A handler that keeps the tables, composed of parts that do.\<close>

definition keeps_tables :: "('s, 'g, 'a) rpc \<Rightarrow> bool" where
  "keeps_tables f \<longleftrightarrow> (\<forall>s st r s' st'. f (s, st) = (r, s', st') \<longrightarrow> tables st' = tables st)"

lemma keeps_tables_seq: "keeps_tables f \<Longrightarrow> (\<And>a. keeps_tables (g a)) \<Longrightarrow> keeps_tables (io_seq f g)"
  unfolding keeps_tables_def io_seq_def by (fastforce split: prod.splits sum.splits)

lemma keeps_tables_base: "keeps_tables (io_ret a)" "keeps_tables (io_err e)" "keeps_tables (write_through rs w k i)" "keeps_tables (push_extras rs i)"
  by (auto simp: keeps_tables_def io_ret_def io_err_def write_through_def push_extras_def split: option.splits sum.splits prod.splits)

lemma keeps_tables_store: "(\<And>st r st'. f st = (r, st') \<Longrightarrow> tables st' = tables st) \<Longrightarrow> keeps_tables (on_store c f)"
  unfolding keeps_tables_def on_store_def by (auto split: prod.splits sum.splits)

lemma keeps_tables_resolved: "(\<And>rs. keeps_tables (f rs)) \<Longrightarrow> keeps_tables (resolved handles f)"
  by (auto simp: resolved_def keeps_tables_base split: sum.splits)

lemma keeps_tables_read:
  assumes "\<And>g i st r st'. fetch g i st = (r, st') \<Longrightarrow> tables st' = tables st"
  shows "keeps_tables (read_rpc w read fetch handles i)"
  unfolding read_rpc_def
proof (rule keeps_tables_resolved)
  fix rs
  show "keeps_tables (case decode_id (w @ '' id'') i of Inl e \<Rightarrow> io_err e
     | Inr i \<Rightarrow> (\<lambda>(s, st). case read st i of Inl e \<Rightarrow> (Inl (Status Internal (''read_'' @ w @ '': '' @ e)), s, st)
          | Inr (Some a) \<Rightarrow> (Inr a, s, st) | Inr None \<Rightarrow> through_remote w fetch rs i (s, st)))"
    by (auto simp: keeps_tables_def through_remote_def io_err_def split: sum.splits option.splits prod.splits dest: assms)
qed

lemma git_rpcs_keep_tables:
  "keeps_tables (rpc_write_file handles d)" "keeps_tables (rpc_write_symlink handles t)" "keeps_tables (rpc_write_tree handles tr)"
  "keeps_tables (rpc_read_file handles i)" "keeps_tables (rpc_read_symlink handles i)" "keeps_tables (rpc_read_tree handles i)"
  "keeps_tables (rpc_read_commit handles i)" "keeps_tables (write_commit_objects handles c)"
  unfolding write_commit_objects_def rpc_write_file_def rpc_write_symlink_def rpc_write_tree_def rpc_read_file_def rpc_read_symlink_def rpc_read_tree_def rpc_read_commit_def
  by (auto intro!: keeps_tables_resolved keeps_tables_seq keeps_tables_store keeps_tables_base keeps_tables_read
      dest: git_writes_tables fetches_tables split: option.split sum.split prod.split)

section \<open>Every stored view and operation has its canonical id\<close>

definition op_checked :: "(OpStoreBlobKind \<Rightarrow> bytes \<Rightarrow> string + bytes) \<Rightarrow> 'g git_store \<Rightarrow> bool" where
  "op_checked canonical st \<longleftrightarrow>
     (\<forall>(i, b) \<in> set (views_v1 st). validate_op_store_blob_id canonical OView i b = Inr ()) \<and>
     (\<forall>(i, b) \<in> set (operations_v1 st). validate_op_store_blob_id canonical OOperation i b = Inr ())"

lemma op_checked_tables: "tables st' = tables st \<Longrightarrow> op_checked canonical st' \<longleftrightarrow> op_checked canonical st"
  by (simp add: tables_def op_checked_def)

lemma validate_canonical: "validate_op_store_blob_id canonical k i b = Inr () \<Longrightarrow> canonical k b = Inr i \<and> length i = 64"
  by (auto simp: validate_op_store_blob_id_def split: if_splits sum.splits)

lemma bt_insert_subset: "set (bt_insert k v xs) \<subseteq> insert (k, v) (set xs)"
  by (induction k v xs rule: bt_insert.induct) auto

lemma write_raw_set: "write_raw_varkey f i b t = (r, t') \<Longrightarrow> set t' \<subseteq> insert (i, b) (set t)"
  by (auto simp: write_raw_varkey_def split: if_splits dest!: subsetD [OF bt_insert_subset])

lemma write_op_checked:
  assumes "op_checked canonical st"
  shows "validate_op_store_blob_id canonical OView i b = Inr () \<Longrightarrow> write_view_bytes i b st = (r, st') \<Longrightarrow> op_checked canonical st'"
    and "validate_op_store_blob_id canonical OOperation i b = Inr () \<Longrightarrow> write_operation_bytes i b st = (r, st') \<Longrightarrow> op_checked canonical st'"
  using assms write_raw_set [of "op_fault st" i b "views_v1 st"] write_raw_set [of "op_fault st" i b "operations_v1 st"]
  by (fastforce simp: op_checked_def write_view_bytes_def write_operation_bytes_def split: prod.splits)+

lemma put_op_blob_store: "put_op_blob rs w k i d (s, st) = (r, x') \<Longrightarrow> snd x' = st"
  by (auto simp: put_op_blob_def split: option.splits sum.splits prod.splits)

lemma on_store_eq: "on_store c f (s, st) = (r, s', st') \<Longrightarrow> s' = s \<and> (\<exists>q. f st = (q, st') \<and> (\<forall>a. r = Inr a \<longrightarrow> q = Inr a))"
  by (auto simp: on_store_def split: prod.splits sum.splits)

lemma write_view_checked:
  assumes "op_checked canonical (snd x)" and "rpc_write_view canonical bm handles i d (x, lb) = (r, x', lb')"
  shows "op_checked canonical (snd x')"
proof (cases "\<exists>rs. handles = Inr rs \<and> validate_op_store_blob_id canonical OView i d = Inr ()")
  case True
  obtain s st where x: "x = (s, st)" by (cases x)
  obtain r1 s1 st1 where w: "on_store ''write_view'' (write_view_bytes i d) (s, st) = (r1, s1, st1)" by (metis prod_cases3)
  then have c: "op_checked canonical st1" using write_op_checked(1) [of canonical st i d] True assms(1) x on_store_eq by (metis snd_conv)
  have "snd x' = st1"
    using assms(2) True w x
    by (auto simp: rpc_write_view_def resolved_def io_seq_def split: sum.splits prod.splits dest: put_op_blob_store)
  then show ?thesis using c by simp
next
  case False
  then have "x' = x"
    using assms(2) by (cases handles; cases "validate_op_store_blob_id canonical OView i d")
      (auto simp: rpc_write_view_def resolved_def io_err_def)
  then show ?thesis using assms(1) by simp
qed

lemma write_operation_checked:
  assumes "op_checked canonical (snd x)" and "rpc_write_operation canonical handles i d x = (r, x')"
  shows "op_checked canonical (snd x')"
proof (cases "\<exists>rs. handles = Inr rs \<and> validate_op_store_blob_id canonical OOperation i d = Inr ()")
  case True
  obtain s st where x: "x = (s, st)" by (cases x)
  obtain r1 s1 st1 where w: "on_store ''write_operation'' (write_operation_bytes i d) (s, st) = (r1, s1, st1)" by (metis prod_cases3)
  then have c: "op_checked canonical st1" using write_op_checked(2) [of canonical st i d] True assms(1) x on_store_eq by (metis snd_conv)
  have "snd x' = st1"
    using assms(2) True w x
    by (auto simp: rpc_write_operation_def resolved_def io_seq_def split: sum.splits dest: put_op_blob_store)
  then show ?thesis using c by simp
next
  case False
  then have "x' = x"
    using assms(2) by (cases handles; cases "validate_op_store_blob_id canonical OOperation i d")
      (auto simp: rpc_write_operation_def resolved_def io_err_def)
  then show ?thesis using assms(1) by simp
qed

text \<open>A read of a checked table keeps it checked and returns only bytes whose canonical id was asked for.\<close>

lemma read_op_blob_checked:
  assumes inv: "op_checked canonical (snd x)"
    and run: "read_op_blob canonical ok k get write handles i x = (r, x')"
    and get: "\<And>st b. op_checked canonical st \<Longrightarrow> get st i = Inr (Some b) \<Longrightarrow> validate_op_store_blob_id canonical ok i b = Inr ()"
    and upd: "\<And>st st' b q. op_checked canonical st \<Longrightarrow> validate_op_store_blob_id canonical ok i b = Inr () \<Longrightarrow> write i b st = (q, st') \<Longrightarrow> op_checked canonical st'"
  shows "op_checked canonical (snd x') \<and> (\<forall>b. r = Inr (Some b) \<longrightarrow> validate_op_store_blob_id canonical ok i b = Inr ())"
proof -
  obtain s st where x: "x = (s, st)" by (cases x)
  consider (same) "snd x' = st" "\<forall>b. r = Inr (Some b) \<longrightarrow> get st i = Inr (Some b)"
    | (fetched) b q where "validate_op_store_blob_id canonical ok i b = Inr ()" "write i b st = (q, snd x')" "r = Inr (Some b) \<or> (\<exists>e. r = Inl e)"
    using run x by (auto simp: read_op_blob_def resolved_def io_err_def io_seq_def io_ret_def on_store_def
        split: sum.splits if_splits option.splits prod.splits)
  then show ?thesis
  proof cases
    case same
    then show ?thesis using inv get x by auto
  next
    case fetched
    then show ?thesis using inv upd x by auto
  qed
qed

lemma read_view_checked:
  assumes "op_checked canonical (snd x)" and "rpc_read_view canonical handles i x = (r, x')"
  shows "op_checked canonical (snd x') \<and> (\<forall>b. r = Inr (Some b) \<longrightarrow> validate_op_store_blob_id canonical OView i b = Inr ())"
proof -
  note run = assms(2) [unfolded rpc_read_view_def]
  show ?thesis
  proof (rule read_op_blob_checked [OF assms(1) run])
    fix st b assume "op_checked canonical st" "get_view_bytes st i = Inr (Some b)"
    then show "validate_op_store_blob_id canonical OView i b = Inr ()"
      by (auto simp: get_view_bytes_def read_raw_varkey_def op_checked_def split: if_splits dest!: map_of_SomeD)
  qed (use write_op_checked(1) in blast)
qed

lemma read_operation_checked:
  assumes "op_checked canonical (snd x)" and "rpc_read_operation canonical handles i x = (r, x')"
  shows "op_checked canonical (snd x') \<and> (\<forall>b. r = Inr (Some b) \<longrightarrow> validate_op_store_blob_id canonical OOperation i b = Inr ())"
proof -
  note run = assms(2) [unfolded rpc_read_operation_def]
  show ?thesis
  proof (rule read_op_blob_checked [OF assms(1) run])
    fix st b assume "op_checked canonical st" "get_operation_bytes st i = Inr (Some b)"
    then show "validate_op_store_blob_id canonical OOperation i b = Inr ()"
      by (auto simp: get_operation_bytes_def read_raw_varkey_def op_checked_def split: if_splits dest!: map_of_SomeD)
  qed (use write_op_checked(2) in blast)
qed

section \<open>A daemon serving requests\<close>

text \<open>
  One request on a mount, or anything another process does to the remote meanwhile. The handles of a
  request are arbitrary: the mount may gain, change or lose its remote between requests.
\<close>

inductive serves :: "(OpStoreBlobKind \<Rightarrow> bytes \<Rightarrow> string + bytes) \<Rightarrow> 's \<times> 'g git_store \<Rightarrow> 's \<times> 'g git_store \<Rightarrow> bool"
  for canonical where
  "rpc_write_file handles d x = (rf, x') \<Longrightarrow> serves canonical x x'"
| "rpc_write_symlink handles t x = (rf, x') \<Longrightarrow> serves canonical x x'"
| "rpc_write_tree handles tr x = (rf, x') \<Longrightarrow> serves canonical x x'"
| "rpc_write_commit eh handles c (x, l) = (rf, x', l') \<Longrightarrow> serves canonical x x'"
| "rpc_read_file handles i x = (rf, x') \<Longrightarrow> serves canonical x x'"
| "rpc_read_symlink handles i x = (rf, x') \<Longrightarrow> serves canonical x x'"
| "rpc_read_tree handles i x = (rt, x') \<Longrightarrow> serves canonical x x'"
| "rpc_read_commit handles i x = (rc, x') \<Longrightarrow> serves canonical x x'"
| "rpc_write_view canonical bm handles i d (x, lb) = (ru, x', lb') \<Longrightarrow> serves canonical x x'"
| "rpc_write_operation canonical handles i d x = (ru, x') \<Longrightarrow> serves canonical x x'"
| "rpc_read_view canonical handles i x = (ro, x') \<Longrightarrow> serves canonical x x'"
| "rpc_read_operation canonical handles i x = (ro, x') \<Longrightarrow> serves canonical x x'"
| "serves canonical (s, st) (s', st)"

lemma keeps_tablesD: "keeps_tables f \<Longrightarrow> f x = (r, x') \<Longrightarrow> tables (snd x') = tables (snd x)"
  unfolding keeps_tables_def by (cases x; cases x') auto

lemma write_commit_tables: "rpc_write_commit eh handles c (x, l) = (r, x', l') \<Longrightarrow> tables (snd x') = tables (snd x)"
  by (auto simp: rpc_write_commit_def split: prod.splits sum.splits dest: keeps_tablesD [OF git_rpcs_keep_tables(8)])

lemma serves_tables_or_checked:
  assumes "serves canonical x x'"
  shows "tables (snd x') = tables (snd x) \<or> (op_checked canonical (snd x) \<longrightarrow> op_checked canonical (snd x'))"
  using assms
proof cases
  case 4
  then show ?thesis using write_commit_tables by blast
next
  case 9
  then show ?thesis using write_view_checked by blast
next
  case 10
  then show ?thesis using write_operation_checked by blast
next
  case 11
  then show ?thesis using read_view_checked by blast
next
  case 12
  then show ?thesis using read_operation_checked by blast
qed (simp_all add: keeps_tablesD [OF git_rpcs_keep_tables(1)] keeps_tablesD [OF git_rpcs_keep_tables(2)] keeps_tablesD [OF git_rpcs_keep_tables(3)]
    keeps_tablesD [OF git_rpcs_keep_tables(4)] keeps_tablesD [OF git_rpcs_keep_tables(5)] keeps_tablesD [OF git_rpcs_keep_tables(6)]
    keeps_tablesD [OF git_rpcs_keep_tables(7)])

lemma serves_checked: "serves canonical x x' \<Longrightarrow> op_checked canonical (snd x) \<Longrightarrow> op_checked canonical (snd x')"
  using serves_tables_or_checked op_checked_tables by blast

text \<open>
  C28: Views and operations are never served under a wrong id: whatever requests a daemon has served since its op store was empty, and
  whatever the remote contained or answered, a view or operation a client reads is one whose bytes decode
  and whose canonical id is the id that was asked for; a corrupt answer of the remote is refused and never
  cached.
\<close>

theorem op_store_checked:
  assumes "(serves canonical)\<^sup>*\<^sup>* (s0, st0) x" and "views_v1 st0 = []" and "operations_v1 st0 = []"
  shows "op_checked canonical (snd x) \<and>
    (\<forall>handles i b x'. rpc_read_view canonical handles i x = (Inr (Some b), x') \<longrightarrow> canonical OView b = Inr i \<and> length i = 64) \<and>
    (\<forall>handles i b x'. rpc_read_operation canonical handles i x = (Inr (Some b), x') \<longrightarrow> canonical OOperation b = Inr i \<and> length i = 64)"
proof -
  have "op_checked canonical (snd x)"
    using assms(1)
  proof (induction rule: rtranclp_induct)
    case base
    then show ?case using assms(2,3) by (simp add: op_checked_def)
  next
    case (step y z)
    then show ?case using serves_checked by blast
  qed
  then show ?thesis
    using read_view_checked [of canonical x _ _ "Inr (Some _)"] read_operation_checked [of canonical x _ _ "Inr (Some _)"] validate_canonical
    by (metis (no_types, lifting))
qed

definition ex_canonical :: "OpStoreBlobKind \<Rightarrow> bytes \<Rightarrow> string + bytes" where
  "ex_canonical k b = (if length b = 64 then Inr b else Inl ''truncated'')"

definition ex_view :: bytes where
  "ex_view = replicate 64 (CHR ''v'')"

theorem op_store_checked_witness:
  "\<exists>x x'. (serves ex_canonical)\<^sup>*\<^sup>* ((), ex_store) x \<and> rpc_read_view ex_canonical (Inr None) ex_view x = (Inr (Some ex_view), x') \<and>
     ex_canonical OView ex_view = Inr ex_view"
proof -
  define x where "x = ((), ex_store\<lparr>views_v1 := [(ex_view, ex_view)]\<rparr>)"
  have len: "length ex_view = 64" by (simp add: ex_view_def)
  have "\<not> list_all (\<lambda>b. b = CHR 0x00) ex_view" unfolding ex_view_def list_all_iff set_replicate_conv_if by simp
  then have "validate_op_store_blob_id ex_canonical OView ex_view ex_view = Inr ()"
    using len by (simp add: validate_op_store_blob_id_def ex_canonical_def)
  then have "rpc_write_view ex_canonical (\<lambda>_. []) (Inr None) ex_view ex_view (((), ex_store), None) = (Inr (), x, Some [])"
    by (simp add: rpc_write_view_def resolved_def io_seq_def on_store_def put_op_blob_def write_view_bytes_def write_raw_varkey_def x_def ex_store_def)
  then have run: "(serves ex_canonical)\<^sup>*\<^sup>* ((), ex_store) x" using serves.intros(9) by blast
  have read: "rpc_read_view ex_canonical (Inr None) ex_view x = (Inr (Some ex_view), x)"
    using len by (simp add: rpc_read_view_def read_op_blob_def resolved_def get_view_bytes_def read_raw_varkey_def x_def ex_store_def)
  have "views_v1 ex_store = []" "operations_v1 ex_store = []" by (simp_all add: ex_store_def)
  from op_store_checked [OF run this] show ?thesis using run read by blast
qed

end
