(* ===== verification/Cli_Backend.thy ===== *)
theory Cli_Backend
  imports Grpc_Remote Object_Rpc
begin

text \<open>
  The backend of the command line (\<^verbatim>\<open>src/cli/src/backend.rs\<close>): jj-lib's \<^verbatim>\<open>Backend\<close> trait, implemented by RPCs to
  the daemon. A method converts its argument, makes one call to the daemon's handler over a transport that
  may fail, and converts the reply. The state is that of the daemon's mount. The path that every request
  carries is resolved by the daemon, here the field \<open>be_handles\<close>. A failed assertion or a panic of jj-lib
  is \<open>None\<close>.
\<close>

section \<open>The backend\<close>

record ('s, 'g) backend =
  be_handles :: "'s handles"
  be_link :: "'s \<times> 'g git_store \<Rightarrow> delivery"
  be_root_commit_id :: bytes
  be_root_change_id :: bytes
  be_empty_tree_id :: bytes

type_synonym ('s, 'g, 'a) be = "('s \<times> 'g git_store, BackendError, 'a) io"

definition request :: "('s, 'g) backend \<Rightarrow> (status \<Rightarrow> BackendError) \<Rightarrow> ('s, 'g, 'a) rpc \<Rightarrow> ('s, 'g, 'a) be" where
  "request B err handler = (\<lambda>x. io_context err (call (be_link B x) handler) x)"

fun status_text :: "status \<Rightarrow> string" where
  "status_text (Status _ m) = m"

definition be_read_file :: "('s, 'g) backend \<Rightarrow> bytes \<Rightarrow> ('s, 'g, bytes) be" where
  "be_read_file B i = request B (\<lambda>e. ReadFileErr i (status_text e)) (rpc_read_file (be_handles B) i)"

definition be_write_file :: "('s, 'g) backend \<Rightarrow> bytes \<Rightarrow> ('s, 'g, bytes) be" where
  "be_write_file B contents = request B (\<lambda>e. WriteObject ''file'' (status_text e)) (rpc_write_file (be_handles B) contents)"

definition be_read_symlink :: "('s, 'g) backend \<Rightarrow> bytes \<Rightarrow> ('s, 'g, string) be" where
  "be_read_symlink B i = request B (\<lambda>e. ReadObject ''symlink'' i (status_text e)) (rpc_read_symlink (be_handles B) i)"

definition be_write_symlink :: "('s, 'g) backend \<Rightarrow> string \<Rightarrow> ('s, 'g, bytes) be" where
  "be_write_symlink B target = request B (\<lambda>e. WriteObject ''symlink'' (status_text e)) (rpc_write_symlink (be_handles B) target)"

definition be_read_tree :: "(string \<Rightarrow> bool) \<Rightarrow> ('s, 'g) backend \<Rightarrow> bytes \<Rightarrow> ('s, 'g, (string \<times> JjTreeValue) list) be" where
  "be_read_tree ok B i =
     io_seq (request B (\<lambda>e. ReadObject ''tree'' i (status_text e)) (rpc_read_tree (be_handles B) i)) (\<lambda>p.
     case cli_tree_from_proto ok p of Inl e \<Rightarrow> io_err e | Inr t \<Rightarrow> io_ret t)"

definition be_write_tree :: "('s, 'g) backend \<Rightarrow> (string \<times> JjTreeValue) list \<Rightarrow> ('s, 'g, bytes) be" where
  "be_write_tree B tree =
     (case cli_tree_to_proto tree of
        Inl e \<Rightarrow> io_err e
      | Inr p \<Rightarrow> request B (\<lambda>e. WriteObject ''tree'' (status_text e)) (rpc_write_tree (be_handles B) (Some p)))"

definition be_read_commit ::
  "(bytes \<Rightarrow> bytes \<Rightarrow> Commit) \<Rightarrow> (ProtoCommit \<Rightarrow> bytes) \<Rightarrow> (string list \<Rightarrow> string list) \<Rightarrow> ('s, 'g) backend \<Rightarrow> bytes \<Rightarrow>
   's \<times> 'g git_store \<Rightarrow> ((BackendError + Commit) \<times> 's \<times> 'g git_store) option" where
  "be_read_commit make_root_commit encode labels B i x =
     (if i = be_root_commit_id B then Some (Inr (make_root_commit (be_root_change_id B) (be_empty_tree_id B)), x)
      else (case request B (\<lambda>e. ReadObject ''commit'' i (status_text e)) (rpc_read_commit (be_handles B) i) x of
          (Inl e, x') \<Rightarrow> Some (Inl e, x')
        | (Inr p, x') \<Rightarrow>
            (case cli_commit_from_proto encode labels p of
               None \<Rightarrow> None
             | Some (Inl e) \<Rightarrow> Some (Inl (ReadObject ''commit'' i ''malformed commit''), x')
             | Some (Inr c) \<Rightarrow> Some (Inr c, x'))))"

definition be_write_commit ::
  "('s, 'g) backend \<Rightarrow> Commit \<Rightarrow> bool \<Rightarrow> 's \<times> 'g git_store \<Rightarrow> ((BackendError + bytes \<times> Commit) \<times> 's \<times> 'g git_store) option" where
  "be_write_commit B commit sign_with x =
     (if secure_sig commit \<noteq> None \<or> sign_with then None
      else if parents commit = [] then Some (Inl (BackendOther ''Cannot write a commit with no parents''), x)
      else (case request B (\<lambda>e. WriteObject ''commit'' (status_text e))
                 (write_commit_objects (be_handles B) (Some (cli_commit_to_proto commit))) x of
          (Inl e, x') \<Rightarrow> Some (Inl e, x')
        | (Inr i, x') \<Rightarrow> Some (Inr (i, commit), x')))"

section \<open>Trees come back as they were written\<close>

text \<open>The daemon has no field for copy ids.\<close>

fun drop_copy :: "JjTreeValue \<Rightarrow> JjTreeValue" where
  "drop_copy (JFile i executable _) = JFile i executable []"
| "drop_copy v = v"

fun value_entry :: "string \<times> JjTreeValue \<Rightarrow> GitTreeEntry" where
  "value_entry (n, JFile i executable _) = \<lparr>ename = n, ekind = EFile executable, eid = i\<rparr>"
| "value_entry (n, JTree i) = \<lparr>ename = n, ekind = ETree, eid = i\<rparr>"
| "value_entry (n, JSymlink i) = \<lparr>ename = n, ekind = ESymlink, eid = i\<rparr>"
| "value_entry (n, JSubmodule i) = \<lparr>ename = n, ekind = ESubmodule, eid = i\<rparr>"

definition tree_ok :: "(string \<Rightarrow> bool) \<Rightarrow> (string \<times> JjTreeValue) list \<Rightarrow> bool" where
  "tree_ok ok tree \<longleftrightarrow> sorted (map fst tree) \<and> distinct (map fst tree) \<and>
     (\<forall>(n, v) \<in> set tree. ok n \<and> length (eid (value_entry (n, v))) = 20 \<and> (\<nexists>i. v = JSubmodule i))"

lemma tree_to_daemon:
  "\<forall>(n, v) \<in> set tree. \<nexists>i. v = JSubmodule i \<Longrightarrow>
   \<exists>p. cli_tree_to_proto tree = Inr p \<and> tree_from_proto p = Inr (map value_entry tree)"
proof (induction tree)
  case (Cons nv tree)
  obtain n v where nv: "nv = (n, v)" by (cases nv)
  obtain p where "cli_tree_to_proto tree = Inr p" "tree_from_proto p = Inr (map value_entry tree)" using Cons by auto
  then show ?case using Cons.prems nv by (cases v) (auto simp: cli_tree_to_proto_def tree_from_proto_def)
qed (simp add: cli_tree_to_proto_def tree_from_proto_def)

fun entry_value :: "GitTreeEntry \<Rightarrow> string \<times> JjTreeValue" where
  "entry_value e = (ename e, case ekind e of EFile x \<Rightarrow> JFile (eid e) x [] | ETree \<Rightarrow> JTree (eid e) | ESymlink \<Rightarrow> JSymlink (eid e)
     | ESubmodule \<Rightarrow> JTree (eid e))"

lemma tree_to_cli: "\<forall>e \<in> set es. ok (ename e) \<Longrightarrow> cli_tree_from_proto ok (tree_to_proto es) = Inr (sort_key fst (map entry_value es))"
proof -
  assume names: "\<forall>e \<in> set es. ok (ename e)"
  define f where "f (e :: ProtoEntry) = (if \<not> ok (pe_name e) then Inl (BackendOther ''invalid repo path component'')
          else (case pe_value e of
              None \<Rightarrow> Inl (BackendOther ''daemon returned tree entry with no value'')
            | Some raw \<Rightarrow> (case tree_value_from_proto raw of Inl x \<Rightarrow> Inl x | Inr v \<Rightarrow> Inr (pe_name e, v))))" for e
  have "collect_map f (tree_to_proto es) = Inr (map entry_value es)"
    using names by (induction es) (auto simp: tree_to_proto_def f_def split: GitEntryKind.split)
  then show ?thesis unfolding f_def cli_tree_from_proto_def by simp
qed

lemma entry_value_entry: "\<nexists>i. v = JSubmodule i \<Longrightarrow> entry_value (value_entry (n, v)) = (n, drop_copy v)"
  by (cases v) auto

lemma sort_key_mset:
  assumes "mset xs = mset ys" and "distinct (map fst ys)" and "sorted (map fst ys)"
  shows "sort_key fst xs = ys"
proof (rule properties_for_sort_key)
  fix k assume k: "k \<in> set ys"
  have d: "distinct (map fst xs)" using assms(1,2) by (metis mset_eq_imp_distinct_iff mset_map)
  have one: "filter (\<lambda>x. fst k = fst x) zs = [k]" if "distinct (map fst zs)" "k \<in> set zs" for zs
    using that by (induction zs) (auto simp: filter_empty_conv)
  show "filter (\<lambda>x. fst k = fst x) ys = filter (\<lambda>x. fst k = fst x) xs"
    using one [OF assms(2) k] one [OF d] k assms(1) by (metis set_mset_mset)
qed (use assms in auto)

lemma write_through_store: "write_through rs w k i (s, st) = (r, s', st') \<Longrightarrow> st' = st"
  by (auto simp: write_through_def split: option.splits sum.splits prod.splits)

lemma write_tree_stored:
  assumes laws: "git_laws (glib st)" and t: "tree_ok ok tree" and run: "be_write_tree B tree (s, st) = (Inr i, s', st')"
  shows "store_extends st st' \<and> length i = 20 \<and> (\<exists>es. git_read_tree st' i = Inr (Some es) \<and> mset es = mset (map value_entry tree))"
proof -
  obtain p where p: "cli_tree_to_proto tree = Inr p" "tree_from_proto p = Inr (map value_entry tree)"
    using tree_to_daemon [of tree] t unfolding tree_ok_def by fastforce
  have "request B (\<lambda>e. WriteObject ''tree'' (status_text e)) (rpc_write_tree (be_handles B) (Some p)) (s, st) = (Inr i, s', st')"
    using run p(1) by (simp add: be_write_tree_def)
  then have "rpc_write_tree (be_handles B) (Some p) (s, st) = (Inr i, s', st')"
    by (auto simp: request_def io_context_def call_def split: delivery.splits prod.splits sum.splits)
  then obtain rs where "io_seq (on_store ''write_tree'' (git_write_tree (map value_entry tree))) (\<lambda>i.
      io_seq (write_through rs ''tree'' KTree i) (\<lambda>_. io_ret i)) (s, st) = (Inr i, s', st')"
    using p(2) by (auto simp: rpc_write_tree_def resolved_def io_err_def split: sum.splits)
  then obtain s1 st1 where w: "on_store ''write_tree'' (git_write_tree (map value_entry tree)) (s, st) = (Inr i, s1, st1)"
      "write_through rs ''tree'' KTree i (s1, st1) = (Inr (), s', st')"
    by (auto simp: io_seq_def io_ret_def split: prod.splits sum.splits)
  then have st': "st' = st1" "git_write_tree (map value_entry tree) st = (Inr i, st1)"
    using write_through_store [OF w(2)] on_store_eq [OF w(1)] by auto
  have names: "map (ename \<circ> value_entry) tree = map fst tree"
  proof -
    have "ename (value_entry nv) = fst nv" for nv by (cases nv rule: value_entry.cases) auto
    then show ?thesis by simp
  qed
  have "distinct (map ename (map value_entry tree))" unfolding map_map names using t by (simp add: tree_ok_def)
  moreover have "\<forall>e \<in> set (map value_entry tree). length (eid e) = 20" using t by (auto simp: tree_ok_def)
  ultimately show ?thesis using git_write_tree_spec [OF laws st'(2)] st'(1) by auto
qed

text \<open>
  C29: A tree written through the command line's backend reads back as it was written, names, kinds, ids and executable bits, in
  the order of the names, whatever happened to the store since, with or without a remote; only the copy
  ids of its files are gone.
\<close>

theorem backend_tree_roundtrip:
  assumes "git_laws (glib st)" and "tree_ok (jj_component_ok (glib st)) tree"
    and "be_write_tree B tree (s, st) = (Inr i, s', st')" and "store_extends st' st''"
    and "be_link B (s'', st'') = Delivered"
  shows "be_read_tree (jj_component_ok (glib st)) B i (s'', st'') = (Inr (map (\<lambda>(n, v). (n, drop_copy v)) tree), s'', st'')"
proof -
  let ?ok = "jj_component_ok (glib st)"
  obtain es where es: "length i = 20" "git_read_tree st' i = Inr (Some es)" "mset es = mset (map value_entry tree)"
    using write_tree_stored [OF assms(1-3)] by blast
  have h: "\<exists>rs. be_handles B = Inr rs"
    using assms(3) by (auto simp: be_write_tree_def request_def call_def io_context_def rpc_write_tree_def resolved_def io_err_def
        split: sum.splits delivery.splits)
  have names: "\<forall>e \<in> set es. ?ok (ename e)"
  proof
    fix e assume "e \<in> set es"
    then have "e \<in> set (map value_entry tree)" using es(3) by (metis set_mset_mset)
    then obtain n v where "(n, v) \<in> set tree" "e = value_entry (n, v)" by auto
    then show "?ok (ename e)" using assms(2) by (cases v) (auto simp: tree_ok_def)
  qed
  have vals: "map entry_value (map value_entry tree) = map (\<lambda>(n, v). (n, drop_copy v)) tree"
    using assms(2) entry_value_entry by (fastforce simp: tree_ok_def)
  have fsts: "map fst (map (\<lambda>(n, v). (n, drop_copy v)) tree) = map fst tree" by auto
  have "mset (map entry_value es) = mset (map (\<lambda>(n, v). (n, drop_copy v)) tree)"
    using es(3) vals by (metis mset_map)
  then have "sort_key fst (map entry_value es) = map (\<lambda>(n, v). (n, drop_copy v)) tree"
    by (rule sort_key_mset) (use assms(2) fsts in \<open>simp_all only: tree_ok_def\<close>)
  then show ?thesis
    using h es(1) git_read_tree_extends [OF assms(4) es(2)] tree_to_cli [OF names] assms(5)
    by (auto simp: be_read_tree_def request_def call_def rpc_read_tree_def read_rpc_def resolved_def decode_id_def io_defs)
qed

definition ex_backend :: "(unit, mem_db) backend" where
  "ex_backend = \<lparr>be_handles = Inr None, be_link = \<lambda>_. Delivered, be_root_commit_id = [], be_root_change_id = [], be_empty_tree_id = []\<rparr>"

theorem backend_tree_roundtrip_witness:
  "\<exists>x. be_write_tree ex_backend [(''a'', JFile (mem_id 7) True ''copy'')] ((), ex_store) = (Inr (mem_id 0), x) \<and>
     be_read_tree mem_component_ok ex_backend (mem_id 0) x = (Inr [(''a'', JFile (mem_id 7) True [])], x)"
proof -
  let ?t = "[(''a'', JFile (mem_id 7) True ''copy'')]"
  have ok: "mem_component_ok ''a''" by code_simp
  obtain x where run: "be_write_tree ex_backend ?t ((), ex_store) = (Inr (mem_id 0), x)"
    using ok by (simp add: be_write_tree_def cli_tree_to_proto_def request_def call_def ex_backend_def rpc_write_tree_def resolved_def tree_from_proto_def
        io_defs on_store_def git_write_tree_def entries_to_jj_tree_def ex_store_def mem_git_def mem_write_def write_through_def)
  obtain u st where x: "x = (u, st)" by (cases x)
  have t: "tree_ok (jj_component_ok (glib ex_store)) ?t" using ok by (simp add: tree_ok_def ex_store_def mem_git_def)
  have "be_read_tree (jj_component_ok (glib ex_store)) ex_backend (mem_id 0) (u, st) = (Inr (map (\<lambda>(n, v). (n, drop_copy v)) ?t), u, st)"
    by (rule backend_tree_roundtrip [OF ex_laws t run [unfolded x] store_extends_refl]) (simp add: ex_backend_def)
  then show ?thesis using run x by (auto simp: ex_store_def mem_git_def)
qed

text \<open>
  C30: A well-formed commit crosses the wire in both directions with everything but its signature as it was, merges of trees and
  conflict labels included. What the command line encodes carries no signature, as its \<^verbatim>\<open>write_commit\<close> asserts
  that there is none, so the daemon decodes it to the commit without one. What the daemon encodes, the
  command line decodes to the commit with the signature itself kept and the signed payload recomputed from
  the unsigned message.
\<close>

theorem commit_wire_faithful:
  assumes "commit_ok c" and "labels [] = [[]]" and "length (conflict_labels c) \<noteq> 1 \<Longrightarrow> labels (conflict_labels c) = conflict_labels c"
  shows "commit_from_proto (cli_commit_to_proto c) = Inr (c\<lparr>secure_sig := None\<rparr>) \<and>
    cli_commit_from_proto encode labels (commit_to_proto c) =
      Some (Inr (c\<lparr>secure_sig := map_option (\<lambda>x. (encode ((commit_to_proto c)\<lparr>pc_secure_sig := None\<rparr>), snd x)) (secure_sig c)\<rparr>))"
  using commit_to_daemon [OF assms(1)] commit_to_cli [OF assms] by blast

theorem commit_wire_faithful_witness:
  "let s = \<lparr>sig_name = ''n'', sig_email = ''e'', sig_millis = 5, sig_tz_offset = -60\<rparr>;
       c = \<lparr>parents = [''p''], predecessors = [], root_tree = [''x'', ''y'', ''z''], conflict_labels = [''l'', [], ''r''], change_id = ''c'',
            description = ''d'', author = s, committer = s, secure_sig = None\<rparr>
   in commit_from_proto (cli_commit_to_proto c) = Inr c \<and> cli_commit_from_proto (\<lambda>_. []) (\<lambda>ls. if ls = [] then [[]] else ls) (commit_to_proto c) = Some (Inr c)"
proof -
  define s where "s = \<lparr>sig_name = ''n'', sig_email = ''e'', sig_millis = 5, sig_tz_offset = -60\<rparr>"
  define c where "c = \<lparr>parents = [''p''], predecessors = [], root_tree = [''x'', ''y'', ''z''], conflict_labels = [''l'', [], ''r''], change_id = ''c'',
            description = ''d'', author = s, committer = s, secure_sig = None\<rparr>"
  have "commit_ok c" by (simp add: commit_ok_def c_def)
  then have "commit_from_proto (cli_commit_to_proto c) = Inr c \<and>
      cli_commit_from_proto (\<lambda>_. []) (\<lambda>ls. if ls = [] then [[]] else ls) (commit_to_proto c) = Some (Inr c)"
    using commit_wire_faithful [of c "\<lambda>ls. if ls = [] then [[]] else ls" "\<lambda>_. []"] by (simp add: c_def)
  then show ?thesis by (simp only: Let_def s_def c_def)
qed

end
