(* ===== verification/Refs_Lock.thy ===== *)
theory Refs_Lock
  imports Fs_Remote
begin

text \<open>
  Processes that swap refs of one directory remote at the same time (\<^verbatim>\<open>RefsLock\<close> and \<^verbatim>\<open>cas_ref\<close> of
  \<^verbatim>\<open>src/store/src/fs.rs\<close>). Here \<^verbatim>\<open>cas_ref\<close> is not one step: a process opens the lock file, waits for the
  exclusive \<^verbatim>\<open>flock\<close>, reads the ref, writes and syncs a temporary file, renames it over the ref and drops the
  guard, and between any two of these another process may take a step, put a blob, or die. The kernel's
  side of \<^verbatim>\<open>flock\<close> is the owner of the lock: it is granted when nobody has it and released when the guard is
  dropped or the process ends.
\<close>

section \<open>One swap in steps\<close>













section \<open>The atomic specification\<close>







section \<open>What the steps do to the directory\<close>






lemma tmp_not_lock [simp]: "tmp_name x \<noteq> ''.lock''" "''.lock'' \<noteq> tmp_name x"
  by (simp_all add: tmp_name_def)







section \<open>The invariant\<close>

















section \<open>A call alone is \<open>fs_cas_ref\<close>\<close>




section \<open>Arbitration\<close>




end
