(* ===== verification/Spec2Isabelle.thy ===== *)
theory Spec2Isabelle
  imports Kiki_Edges Service_Props S3_Remote Cli_Backend Refs_Lock
begin

text \<open>
  A verification of kiki: a daemon that serves version-controlled workspaces as a mounted filesystem, the stores
  and remotes behind it, and the backend of its command line (\<^verbatim>\<open>src/daemon\<close>, \<^verbatim>\<open>src/store\<close>, \<^verbatim>\<open>src/cli\<close>).

  \<^bold>\<open>The program.\<close> One mount shows all workspaces. The kernel's calls reach the routing filesystem
  (\<^verbatim>\<open>root_fs.rs\<close>), which decodes a global inode into a slot and a local inode and hands the call to the filesystem
  of that workspace (\<^verbatim>\<open>kiki_fs.rs\<close>), created on first use. A workspace is an inode slab (\<^verbatim>\<open>inode.rs\<close>) laid over a
  stored git tree: unmodified entries are ids in the repository's content store (\<^verbatim>\<open>git_store.rs\<close>), modified ones live
  in memory until a snapshot writes them as a new tree. Objects the store lacks are fetched from the
  repository's remote (\<^verbatim>\<open>remote/fetch.rs\<close>): a directory (\<^verbatim>\<open>store/fs.rs\<close>), an S3 bucket (\<^verbatim>\<open>remote/s3.rs\<close>) or a peer
  daemon over gRPC (\<^verbatim>\<open>remote/grpc.rs\<close>, \<^verbatim>\<open>remote/server.rs\<close>). The service (\<^verbatim>\<open>service.rs\<close>) answers the command line's requests:
  it registers repositories and workspaces and keeps their files \<^verbatim>\<open>repos.toml\<close>, \<^verbatim>\<open>workspace.toml\<close> and \<^verbatim>\<open>mount.toml\<close>
  (\<^verbatim>\<open>repo_meta.rs\<close>, \<^verbatim>\<open>mount_meta.rs\<close>), snapshots and checks out, pushes what a snapshot reaches, and serves objects and
  a catalog of refs with compare-and-swap, which the command line uses for the operation heads
  (\<^verbatim>\<open>cli/op_heads_store.rs\<close>). At start-up the routing filesystem is rebuilt from the files (\<^verbatim>\<open>daemon/lib.rs\<close>).

  \<^bold>\<open>Foundations.\<close>
  \<^item> \<^verbatim>\<open>Prelude\<close>: computations over a state with the outcomes \<open>Ok\<close>, \<open>Err\<close>, \<open>Panic\<close> and \<open>Diverge\<close>, their sequencing and
    Hoare rules, and ordered association lists for \<^verbatim>\<open>BTreeMap\<close> and for hash maps whose order is never used.
  \<^item> \<^verbatim>\<open>Rust_Std\<close>, \<^verbatim>\<open>Host_Fs\<close>: the string, path and file functions of the standard library that the sources call. The
    host is a list of files and directories with a predicate that says which call fails on which path.

  \<^bold>\<open>The workspace filesystem.\<close>
  \<^item> \<^verbatim>\<open>Inode_Slab\<close> (\<^verbatim>\<open>inode.rs\<close>), \<^verbatim>\<open>Git_Store\<close> (\<^verbatim>\<open>git_store.rs\<close>), \<^verbatim>\<open>Fetch\<close> (\<^verbatim>\<open>remote/fetch.rs\<close>), \<^verbatim>\<open>Kiki_Fs\<close> (\<^verbatim>\<open>kiki_fs.rs\<close>): state
    records and one definition per function, with the names of the source (\<open>fs_\<close> before the methods of the trait).
  \<^item> \<^verbatim>\<open>Kiki_Inv\<close>, \<^verbatim>\<open>Kiki_Trait\<close>, \<^verbatim>\<open>Kiki_Total\<close>: the invariant of a mount, kept by every call on every outcome; the
    reachable states; and that every call returns.
  \<^item> \<^verbatim>\<open>Kiki_Snapshot\<close>, \<^verbatim>\<open>Kiki_Props\<close>, \<^verbatim>\<open>Kiki_Names\<close>, \<^verbatim>\<open>Kiki_Moves\<close>, \<^verbatim>\<open>Kiki_Edges\<close>: the tree a snapshot stores is the one the slab
    denotes; reads after writes; what names lead to after creation, removal, rename and check-out; and
    the edges of the contract, ignored entries and a rename of a directory below itself.
  \<^item> \<^verbatim>\<open>Git_Model\<close>: a concrete git library that satisfies the laws assumed of the real one, for the witnesses.

  \<^bold>\<open>Routing and metadata.\<close>
  \<^item> \<^verbatim>\<open>Repo_Meta\<close> (\<^verbatim>\<open>repo_meta.rs\<close>), \<^verbatim>\<open>Mount_Meta\<close> (\<^verbatim>\<open>mount_meta.rs\<close>): the files with their serde layout, atomic writes, round trips.
  \<^item> \<^verbatim>\<open>Root_Fs\<close> (\<^verbatim>\<open>root_fs.rs\<close>) and \<^verbatim>\<open>Root_Props\<close>, \<^verbatim>\<open>Root_Inv\<close>, \<^verbatim>\<open>Root_Spec\<close>: a routed call does what the workspace's own filesystem does
    and nothing else; the invariant of the registry; what the synthetic directories show; slots; metadata
    is persisted before it is published. The stores of the repositories are an explicit heap, because
    live workspaces share them.

  \<^bold>\<open>Remotes.\<close>
  \<^item> \<^verbatim>\<open>Remote_Store\<close> and \<^verbatim>\<open>Remote_Blobs\<close> state the trait \<^verbatim>\<open>RemoteStore\<close> as a record of operations over a backend's state and
    its two contracts as locales: \<open>ref_catalog\<close> (compare-and-swap of refs) and \<open>blob_remote\<close> (content by id).
  \<^item> \<^verbatim>\<open>Fs_Remote\<close> and \<^verbatim>\<open>Refs_Lock\<close> (\<^verbatim>\<open>store/fs.rs\<close>), \<^verbatim>\<open>Local_Refs\<close> (\<^verbatim>\<open>local_refs.rs\<close>), \<^verbatim>\<open>Grpc_Remote\<close>, \<^verbatim>\<open>S3_Remote\<close> and \<^verbatim>\<open>Catalog\<close> implement and
    interpret them. \<^verbatim>\<open>Refs_Lock\<close> takes the swap of a ref apart into the steps of processes that run
    interleaved under the \<^verbatim>\<open>flock\<close>, fail and die; a process alone does what \<open>fs_cas_ref\<close> does in one call.
  \<^item> \<^verbatim>\<open>Remote_Url\<close>: the URL parsers and which backend a URL attaches. \<^verbatim>\<open>Push\<close>: the walk over the objects a snapshot
    reaches, for any remote with the contract of blobs.
  \<^item> \<^verbatim>\<open>Op_Heads\<close> (\<^verbatim>\<open>cli/op_heads_store.rs\<close>): the client of the catalog; other writers act before each RPC, and the
    client's state keeps the catalog states its RPCs met, so that a theorem can say at which of them an
    update took effect.

  \<^bold>\<open>The service.\<close>
  \<^item> \<^verbatim>\<open>Service\<close>, \<^verbatim>\<open>Service_Clone\<close>, \<^verbatim>\<open>Service_Tree\<close>, \<^verbatim>\<open>Object_Rpc\<close> (\<^verbatim>\<open>service.rs\<close>): the handlers with their guards and early returns.
  \<^item> \<^verbatim>\<open>Service_Sync\<close>, \<^verbatim>\<open>Service_Listed\<close>: successful requests keep \<open>svc_inv\<close>, every registered workspace is described by its file, and
    \<open>listed\<close>, every registered repository is in \<^verbatim>\<open>repos.toml\<close>. \<^verbatim>\<open>Startup\<close> (\<^verbatim>\<open>lib.rs\<close>) and \<^verbatim>\<open>Service_Props\<close>: what a restart makes of the files.
  \<^item> \<^verbatim>\<open>Wire\<close> and \<^verbatim>\<open>Cli_Backend\<close> (\<^verbatim>\<open>cli/backend.rs\<close>): the messages for trees and commits, converted on both sides. This theory: a
    file that goes from one daemon through a peer to another.

  \<^bold>\<open>Code that is not in the repository\<close> is a parameter with named laws: gix and jj-lib (\<open>git_lib\<close>, \<open>git_laws\<close>), the TOML
  library (\<open>toml_law\<close>), redb and the host (predicates of failing calls), the S3 service (laws of its requests),
  gRPC channels (\<open>link\<close> says of a call whether it is delivered, lost, or its reply lost), the gitignore matcher,
  BLAKE3, and what connects a channel or a tunnel (\<open>connector\<close>). The hypotheses of a theorem name the laws it
  needs, and its witness discharges them on a concrete instance.

  \<^bold>\<open>Bounds and fuel.\<close> Walks along parent pointers and the recursion of a snapshot have as fuel one more than the slab's
  inode counter, and running out of it is \<open>Diverge\<close>; \<open>calls_return\<close> shows that it is enough unless a rename put a
  directory below itself, and \<open>rename_below_itself_loops\<close> that no fuel is enough then. The worklist of the push
  and the pages of an S3 listing are partial functions, shown to return. Slots and global inodes are machine words;
  the invariants of the routing layer hold while slots stay below \<open>2 ^ 24\<close> and synthetic inodes below \<open>2 ^ 40\<close>, and
  \<open>slot_overflow_hits_root\<close> says what happens beyond. Local inode ids, which the code counts up in 64 bits, and
  file offsets are natural numbers.

  \<^bold>\<open>Simplifications.\<close> An operation that runs under one lock, and a request, is one step; \<^verbatim>\<open>Refs_Lock\<close>, \<^verbatim>\<open>Op_Heads\<close> and \<^verbatim>\<open>S3_Remote\<close>
  are about what happens in between. The remote a mounted workspace fetches from is a fixed function of
  kind and id, and the remote of a snapshot request is an argument of the handler. A directory exists when it
  was created or something lies below it, so \<open>host_create_dir_all\<close> records only the directory itself. The errors of the
  temporary directory in which a view or operation is decoded are part of jj-lib's decoder. Fault injection is
  off. Error texts are kept where a branch depends on them and abridged otherwise.

  \<^bold>\<open>Found on the way.\<close> Creating a workspace that exists overwrites its file (\<open>duplicate_create_loses_workspace\<close>); the
  first heads of a repository can be lost (\<open>first_heads_lost\<close>); the slot allocator does not stop where the encoding
  does; a rename below itself is accepted; a snapshot makes ignored files unreachable
  (\<open>ignored_entry_lost_by_snapshot\<close>); the remotes of some URLs are lost by a restart (\<open>clone_survives_restart\<close>); pending
  workspaces are found by lookup, though comments say they are hidden (\<open>namespace_lookup\<close>).

  \<^bold>\<open>Not modelled:\<close> the adapters to FUSE and NFS and the kernel mount; \<^verbatim>\<open>initialize\<close> and the requests that drive the git executable
  (\<^verbatim>\<open>git_ops.rs\<close>); the SSH process; best-effort side effects that are only logged (git worktrees, seeding of git
  remotes, the git index); sockets, signals and logging; and of the command line everything but the backend and
  the operation heads: argument parsing, output, and thin clients of requests that are modelled here.
\<close>

section \<open>Two daemons on one directory\<close>

lemma file_object: "git_read_file st i = Inr (Some b) \<Longrightarrow> read_git_object_bytes st i = Inr (Some (GBlob, b))"
  by (auto simp: git_read_file_def read_git_object_bytes_def split: if_splits sum.splits option.splits prod.splits GitObjectKind.splits)

lemma write_file_on_remote:
  assumes laws: "git_laws (glib st)" and inv: "fs_store_inv dir h"
    and run: "rpc_write_file (Inr (Some (grpc_remote link ep (fs_remote dir)))) data (h, st) = (Inr i, h', st')"
    and same: "fs_blobs dir h KBlob i \<in> {None, Some data}"
  shows "fs_blobs dir h' KBlob i = Some data \<and> fs_store_inv dir h' \<and> length i = 20 \<and> git_read_file st' i = Inr (Some data)"
proof -
  obtain st1 where w: "git_write_file data st = (Inr i, st1)"
      "write_through (Some (grpc_remote link ep (fs_remote dir))) ''file'' KBlob i (h, st1) = (Inr (), h', st')"
    using run by (auto simp: rpc_write_file_def resolved_def io_seq_def io_ret_def on_store_def split: prod.splits sum.splits)
  note spec = git_write_file_spec [OF laws w(1)]
  then have len: "length i = 20" and rd: "git_read_file st1 i = Inr (Some data)" by auto
  then have ne: "i \<noteq> []" by auto
  have put: "rm_put_blob (grpc_remote link ep (fs_remote dir)) KBlob i data h = (Inr (), h')" "st' = st1"
    using w(2) file_object [OF rd] by (auto simp: write_through_def split: prod.splits sum.splits)
  have "fs_blobs dir h' KBlob i = Some data"
    using gb.put_stored [OF inv _ put(1)] ne same by auto
  moreover have "fs_store_inv dir h'" using gb.put_inv [OF inv, of i link ep KBlob data] ne put(1) by simp
  ultimately show ?thesis using len rd put(2) by simp
qed

text \<open>
  C23: Two daemons that share a directory see each other's files: when a client of one daemon, whose remote is a peer that serves
  the directory over gRPC, has written a file, a client of another daemon on that directory that lacks it
  and asks for its id never gets other bytes, gets exactly the written bytes when its own object database
  accepts the object under that id, and then has it cached.
\<close>

theorem written_file_shared:
  assumes "git_laws (glib stA)" and "git_laws (glib stB)" and "fs_store_inv dir h" and "fs_blobs dir h KBlob i \<in> {None, Some data}"
    and "rpc_write_file (Inr (Some (grpc_remote link ep (fs_remote dir)))) data (h, stA) = (Inr i, h', stA')"
    and "git_read_file stB i = Inr None"
    and "rpc_read_file (Inr (Some (fs_remote dir))) i (h', stB) = (r, h'', stB')"
  shows "h'' = h' \<and> (\<forall>b. r = Inr b \<longrightarrow> b = data) \<and>
    (reads_ok h' \<and> (\<exists>g. gix_write_buf (glib stB) GBlob data (gdb stB) = (Inr i, g)) \<longrightarrow>
       r = Inr data \<and> git_read_file stB' i = Inr (Some data))"
proof -
  note w = write_file_on_remote [OF assms(1,3,5,4)]
  then have len: "length i = 20" and ne: "i \<noteq> []" by auto
  define get where "get = (\<lambda>k j. rm_get_blob (fs_remote dir) k j h')"
  obtain q st1 where f: "fetch_file get i stB = (q, st1)" by (rule prod.exhaust)
  have run: "(r, h'', stB') = (case q of Inl e \<Rightarrow> (Inl (fetch_status e), h', st1) | Inr a \<Rightarrow> (Inr a, h', st1))"
    using assms(6,7) len f
    by (cases q) (simp_all add: rpc_read_file_def read_rpc_def resolved_def decode_id_def through_remote_def get_def [symmetric])
  have "b = data" if "q = Inr b" for b
    using fetch_file_spec(1) [OF assms(2)] f that fb.get_sound [of dir h' i KBlob "Some b"] w ne unfolding get_def by auto
  moreover have "q = Inr data \<and> git_read_file st1 i = Inr (Some data)"
    if "reads_ok h'" "gix_write_buf (glib stB) GBlob data (gdb stB) = (Inr i, g)" for g
  proof -
    have "get KBlob i = Inr (Some data)" using get_blob_eq [OF that(1) ne, of dir KBlob] w by (simp add: get_def fs_remote_def)
    moreover have "write_git_object_bytes GBlob data stB = (Inr i, stB\<lparr>gdb := g\<rparr>)" using that(2) by (simp add: write_git_object_bytes_def)
    ultimately have fg: "fetch_git_object get KBlob i stB = (Inr (), stB\<lparr>gdb := g\<rparr>)"
      by (simp add: fetch_git_object_def fetch_bytes_def)
    have "git_read_file (stB\<lparr>gdb := g\<rparr>) i = Inr (Some data)"
      using write_git_object_bytes_spec [OF assms(2) \<open>write_git_object_bytes GBlob data stB = _\<close>] read_file_of_object by blast
    then show ?thesis using f fg by (auto simp: fetch_file_def reread_def)
  qed
  ultimately show ?thesis using run by (cases q) auto
qed

theorem written_file_shared_witness:
  "\<exists>h' stA' stB'. rpc_write_file (Inr (Some (grpc_remote (\<lambda>_. Delivered) ''peer'' (fs_remote ''/srv'')))) ''hi'' (ex_host, ex_store) = (Inr (mem_id 0), h', stA') \<and>
     rpc_read_file (Inr (Some (fs_remote ''/srv''))) (mem_id 0) (h', ex_store) = (Inr ''hi'', h', stB')"
proof -
  let ?R = "grpc_remote (\<lambda>_. Delivered) ''peer'' (fs_remote ''/srv'')"
  have inv: "fs_store_inv ''/srv'' ex_host" "no_fault ex_host" by (simp_all add: empty_store_inv ex_host_def no_fault_def)
  have ne: "mem_id 0 \<noteq> []" by (simp add: mem_id_def)
  have w: "git_write_file ''hi'' ex_store = (Inr (mem_id 0), ex_store\<lparr>gdb := [(GBlob, ''hi'')]\<rparr>)"
    by (simp add: git_write_file_def ex_store_def mem_git_def mem_write_def)
  have obj: "read_git_object_bytes (ex_store\<lparr>gdb := [(GBlob, ''hi'')]\<rparr>) (mem_id 0) = Inr (Some (GBlob, ''hi''))"
    using mem_find_id [of 0 "[(GBlob, ''hi'')]"] by (simp add: read_git_object_bytes_def ex_store_def bad_oid_def mem_git_def)
  obtain h' where h': "fs_put_blob ''/srv'' KBlob (mem_id 0) ''hi'' ex_host = (Inr (), h')" "no_fault h'"
    using put_live [OF inv ne] by blast
  have "rm_put_blob ?R KBlob (mem_id 0) ''hi'' ex_host = (Inr (), h')"
    using ne h'(1) by (simp add: grpc_remote_def grpc_put_blob_def call_def server_put_blob_def fs_remote_def)
  then have run: "rpc_write_file (Inr (Some ?R)) ''hi'' (ex_host, ex_store) = (Inr (mem_id 0), h', ex_store\<lparr>gdb := [(GBlob, ''hi'')]\<rparr>)"
    using w obj by (simp add: rpc_write_file_def resolved_def io_seq_def io_ret_def on_store_def write_through_def)
  obtain r h'' stB' where rd: "rpc_read_file (Inr (Some (fs_remote ''/srv''))) (mem_id 0) (h', ex_store) = (r, h'', stB')" by (metis prod_cases3)
  have miss: "git_read_file ex_store (mem_id 0) = Inr None" by (simp add: git_read_file_def bad_oid_def ex_store_def mem_git_def mem_find_def)
  have none: "fs_blobs ''/srv'' ex_host KBlob (mem_id 0) \<in> {None, Some ''hi''}" by (simp add: fs_blobs_def file_at_def ex_host_def)
  have acc: "reads_ok h' \<and> (\<exists>g. gix_write_buf (glib ex_store) GBlob ''hi'' (gdb ex_store) = (Inr (mem_id 0), g))"
    using h'(2) by (simp add: reads_ok_def no_fault_def ex_store_def mem_git_def mem_write_def)
  have "r = Inr ''hi''" "h'' = h'" using written_file_shared [OF ex_laws ex_laws inv(1) none run miss rd] acc by blast+
  then have "rpc_read_file (Inr (Some (fs_remote ''/srv''))) (mem_id 0) (h', ex_store) = (Inr ''hi'', h', stB')" using rd by (simp only:)
  with run show ?thesis by blast
qed

end
